(* ===== verification/Prelude.thy ===== *)
theory Prelude
  imports Main "HOL-Library.Word" "HOL-Library.Sublist"
begin

text \<open>
  Shared vocabulary of the development: results of fallible Rust code, bytes and strings,
  machine integers, and the generic lemmas on them that the component theories use.

  \<^item> A Rust \<^verbatim>\<open>Result<T, E>\<close> of a function that may also panic is a value of
    \<open>('e, 'a) res\<close>: \<open>Ok\<close>, \<open>Err\<close> and \<open>Panic\<close> (an \<^verbatim>\<open>assert!\<close>, \<^verbatim>\<open>unreachable!\<close>,
    \<^verbatim>\<open>expect\<close> or an out-of-range index).
  \<^item> A byte (\<^verbatim>\<open>u8\<close>) is a HOL \<open>char\<close>, which has exactly 256 values; \<open>code\<close> reads its
    number. A Rust \<^verbatim>\<open>str\<close> is its UTF-8 bytes, so \<^verbatim>\<open>as_bytes\<close> is the identity.
  \<^item> Wider integers are words of their width.
\<close>

section \<open>Results\<close>

datatype ('e, 'a) res = Ok 'a | Err 'e | Panic

primrec bind_res :: "('e, 'a) res \<Rightarrow> ('a \<Rightarrow> ('e, 'b) res) \<Rightarrow> ('e, 'b) res" where
  "bind_res (Ok x) f = f x"
| "bind_res (Err e) f = Err e"
| "bind_res Panic f = Panic"

primrec map_err :: "('e \<Rightarrow> 'f) \<Rightarrow> ('e, 'a) res \<Rightarrow> ('f, 'a) res" where
  "map_err h (Ok x) = Ok x"
| "map_err h (Err e) = Err (h e)"
| "map_err h Panic = Panic"

primrec is_ok :: "('e, 'a) res \<Rightarrow> bool" where
  "is_ok (Ok x) = True"
| "is_ok (Err e) = False"
| "is_ok Panic = False"

definition ok_or :: "'a option \<Rightarrow> 'e \<Rightarrow> ('e, 'a) res" where
  "ok_or x e = (case x of Some y \<Rightarrow> Ok y | None \<Rightarrow> Err e)"

text \<open>A \<^verbatim>\<open>for\<close> loop whose body may fail or change its state.\<close>

fun fold_res :: "('b \<Rightarrow> 'a \<Rightarrow> ('e, 'a) res) \<Rightarrow> 'b list \<Rightarrow> 'a \<Rightarrow> ('e, 'a) res" where
  "fold_res f [] s = Ok s"
| "fold_res f (x # xs) s = bind_res (f x s) (\<lambda>s. fold_res f xs s)"

lemma bind_res_eq_Ok: "bind_res m f = Ok y \<longleftrightarrow> (\<exists>x. m = Ok x \<and> f x = Ok y)"
  by (cases m) auto

lemma bind_res_eq_OkE [elim!]:
  assumes "bind_res m f = Ok y"
  obtains x where "m = Ok x" "f x = Ok y"
  using assms by (auto simp: bind_res_eq_Ok)

lemma bind_res_eq_Panic: "bind_res m f = Panic \<longleftrightarrow> m = Panic \<or> (\<exists>x. m = Ok x \<and> f x = Panic)"
  by (cases m) auto

lemma bind_res_Ok_right [simp]: "bind_res m Ok = m"
  by (cases m) auto

lemma bind_res_assoc: "bind_res (bind_res m f) g = bind_res m (\<lambda>x. bind_res (f x) g)"
  by (cases m) auto

lemma fold_res_append: "fold_res f (xs @ ys) s = bind_res (fold_res f xs s) (fold_res f ys)"
proof (induction xs arbitrary: s)
  case (Cons x xs)
  then show ?case by (cases "f x s") auto
qed simp

lemma fold_res_single: "fold_res f [] = Ok" "fold_res f [x] = f x"
proof -
  show nil: "fold_res f [] = Ok" by (simp add: fun_eq_iff)
  show "fold_res f [x] = f x" by (simp add: fun_eq_iff nil)
qed

lemma fold_res_invariant:
  "fold_res f xs s = Ok s' \<Longrightarrow> P s \<Longrightarrow> (\<And>x s s'. x \<in> set xs \<Longrightarrow> P s \<Longrightarrow> f x s = Ok s' \<Longrightarrow> P s') \<Longrightarrow> P s'"
  by (induction xs arbitrary: s) auto

text \<open>For evaluation: no rewriting of what comes after a result that is not known yet.\<close>

lemma bind_res_weak_cong: "m = m' \<Longrightarrow> bind_res m f = bind_res m' f"
  by simp

lemma map_err_eq_Ok [simp]: "map_err h m = Ok x \<longleftrightarrow> m = Ok x"
  by (cases m) auto

lemma map_err_eq_Panic [simp]: "map_err h m = Panic \<longleftrightarrow> m = Panic"
  by (cases m) auto

lemma is_ok_iff: "is_ok m \<longleftrightarrow> (\<exists>x. m = Ok x)"
  by (cases m) auto

lemma is_ok_map_err [simp]: "is_ok (map_err h m) = is_ok m"
  by (cases m) auto

lemma ok_or_eq_Ok [simp]: "ok_or x e = Ok y \<longleftrightarrow> x = Some y"
  by (auto simp: ok_or_def split: option.splits)

section \<open>Bytes and machine integers\<close>

type_synonym byte = char
type_synonym u16 = "16 word"
type_synonym u32 = "32 word"
type_synonym u64 = "64 word"

text \<open>The number of a byte, and the truncating cast back (\<^verbatim>\<open>n as u8\<close>).\<close>

abbreviation code :: "byte \<Rightarrow> nat" where
  "code c \<equiv> of_char c"

abbreviation byte_of :: "nat \<Rightarrow> byte" where
  "byte_of n \<equiv> char_of n"

lemma code_less [simp]: "code c < 256"
  by (metis char_of_char mod_less_divisor of_char_of zero_less_numeral)

lemma code_byte_of [simp]: "n < 256 \<Longrightarrow> code (byte_of n) = n"
  by (simp add: of_char_of)

lemma code_inj [simp]: "code c = code d \<longleftrightarrow> c = d"
  by (metis char_of_char)

definition is_ascii_digit :: "byte \<Rightarrow> bool" where
  "is_ascii_digit c \<longleftrightarrow> 48 \<le> code c \<and> code c \<le> 57"

definition is_ascii_uppercase :: "byte \<Rightarrow> bool" where
  "is_ascii_uppercase c \<longleftrightarrow> 65 \<le> code c \<and> code c \<le> 90"

definition is_ascii_lowercase :: "byte \<Rightarrow> bool" where
  "is_ascii_lowercase c \<longleftrightarrow> 97 \<le> code c \<and> code c \<le> 122"

definition is_ascii_alphabetic :: "byte \<Rightarrow> bool" where
  "is_ascii_alphabetic c \<longleftrightarrow> is_ascii_uppercase c \<or> is_ascii_lowercase c"

definition is_ascii_alphanumeric :: "byte \<Rightarrow> bool" where
  "is_ascii_alphanumeric c \<longleftrightarrow> is_ascii_alphabetic c \<or> is_ascii_digit c"

lemmas ascii_defs = is_ascii_digit_def is_ascii_uppercase_def is_ascii_lowercase_def
  is_ascii_alphabetic_def is_ascii_alphanumeric_def

section \<open>Strings\<close>

text \<open>
  \<^verbatim>\<open>str::is_char_boundary\<close> and the slicing \<^verbatim>\<open>&s[a..b]\<close>, which panics outside the
  string and inside a multi-byte character.
\<close>

definition is_char_boundary :: "string \<Rightarrow> nat \<Rightarrow> bool" where
  "is_char_boundary s i \<longleftrightarrow>
     i = length s \<or> (i < length s \<and> \<not> (128 \<le> code (s ! i) \<and> code (s ! i) < 192))"

definition str_slice :: "string \<Rightarrow> nat \<Rightarrow> nat \<Rightarrow> ('e, string) res" where
  "str_slice s a b =
     (if a \<le> b \<and> b \<le> length s \<and> is_char_boundary s a \<and> is_char_boundary s b
      then Ok (take (b - a) (drop a s)) else Panic)"

text \<open>An ASCII string: every slice inside its length is legal.\<close>

definition is_ascii :: "string \<Rightarrow> bool" where
  "is_ascii s \<longleftrightarrow> (\<forall>c \<in> set s. code c < 128)"

lemma is_ascii_simps [simp]:
  "is_ascii []"
  "is_ascii (c # s) \<longleftrightarrow> code c < 128 \<and> is_ascii s"
  "is_ascii (s @ t) \<longleftrightarrow> is_ascii s \<and> is_ascii t"
  by (auto simp: is_ascii_def)

lemma is_ascii_boundary: "is_ascii s \<Longrightarrow> i \<le> length s \<Longrightarrow> is_char_boundary s i"
  using nth_mem [of i s] by (fastforce simp: is_ascii_def is_char_boundary_def)

lemma str_slice_ascii:
  "is_ascii s \<Longrightarrow> a \<le> b \<Longrightarrow> b \<le> length s \<Longrightarrow> str_slice s a b = Ok (take (b - a) (drop a s))"
  by (simp add: str_slice_def is_ascii_boundary)

lemma str_slice_OkD:
  "str_slice s a b = Ok t \<Longrightarrow> a \<le> b \<and> b \<le> length s \<and> t = take (b - a) (drop a s)"
  by (auto simp: str_slice_def split: if_splits)

text \<open>\<^verbatim>\<open>str::from_utf8\<close> accepts the well-formed sequences of the Unicode standard.\<close>

definition in_range :: "nat \<Rightarrow> nat \<Rightarrow> byte \<Rightarrow> bool" where
  "in_range a b c \<longleftrightarrow> a \<le> code c \<and> code c \<le> b"

abbreviation is_cont :: "byte \<Rightarrow> bool" where
  "is_cont c \<equiv> in_range 128 191 c"

fun valid_utf8 :: "byte list \<Rightarrow> bool" where
  "valid_utf8 [] = True"
| "valid_utf8 (a # r) =
     (if code a < 128 then valid_utf8 r
      else case r of
        [] \<Rightarrow> False
      | b # r \<Rightarrow>
        if in_range 194 223 a then is_cont b \<and> valid_utf8 r
        else case r of
          [] \<Rightarrow> False
        | c # r \<Rightarrow>
          if in_range 224 239 a
          then (if code a = 224 then in_range 160 191 b else if code a = 237 then in_range 128 159 b
                else is_cont b) \<and> is_cont c \<and> valid_utf8 r
          else case r of
            [] \<Rightarrow> False
          | d # r \<Rightarrow>
            in_range 240 244 a \<and>
            (if code a = 240 then in_range 144 191 b else if code a = 244 then in_range 128 143 b
             else is_cont b) \<and> is_cont c \<and> is_cont d \<and> valid_utf8 r)"

lemma valid_utf8_ascii: "is_ascii s \<Longrightarrow> valid_utf8 s"
  by (induction s) auto

section \<open>Lists\<close>

lemma list_all_concat: "list_all P (concat xss) \<longleftrightarrow> list_all (list_all P) xss"
  by (induction xss) auto

lemma length_concat_map: "length (concat (map f xs)) = sum_list (map (\<lambda>x. length (f x)) xs)"
  by (induction xs) auto

lemma prefix_singleton [simp]: "prefix [c] s \<longleftrightarrow> (\<exists>r. s = c # r)"
  by (cases s) (auto simp: prefix_Cons)

section \<open>Decimal numbers\<close>

text \<open>\<^verbatim>\<open>to_string\<close> and \<^verbatim>\<open>parse\<close> of an unsigned integer type with \<open>m\<close> as its largest value: one or
  more digits, a plus sign before them allowed.\<close>

fun show_nat :: "nat \<Rightarrow> string" where
  "show_nat n = (if n < 10 then [byte_of (48 + n)] else show_nat (n div 10) @ [byte_of (48 + n mod 10)])"

declare show_nat.simps [simp del]

fun digits_value :: "nat \<Rightarrow> string \<Rightarrow> nat" where
  "digits_value acc [] = acc"
| "digits_value acc (c # cs) = digits_value (10 * acc + (code c - 48)) cs"

definition parse_uint :: "nat \<Rightarrow> string \<Rightarrow> nat option" where
  "parse_uint m s =
     (let ds = (case s of c # cs \<Rightarrow> if c = CHR ''+'' then cs else s | [] \<Rightarrow> []) in
      if ds \<noteq> [] \<and> list_all is_ascii_digit ds \<and> digits_value 0 ds \<le> m
      then Some (digits_value 0 ds) else None)"

lemma digits_value_append: "digits_value acc (s @ t) = digits_value (digits_value acc s) t"
  by (induction s arbitrary: acc) auto

lemma is_ascii_digit_byte [simp]: "n < 10 \<Longrightarrow> is_ascii_digit (byte_of (48 + n))"
  by (simp add: is_ascii_digit_def)

lemma show_nat_digits: "show_nat n \<noteq> [] \<and> list_all is_ascii_digit (show_nat n) \<and> digits_value 0 (show_nat n) = n"
proof (induction n rule: show_nat.induct)
  case (1 n)
  then show ?case
    by (subst (1 2 3) show_nat.simps) (auto simp: digits_value_append)
qed

lemma parse_show: "n \<le> m \<Longrightarrow> parse_uint m (show_nat n) = Some n"
proof -
  assume n: "n \<le> m"
  obtain c cs where c: "show_nat n = c # cs" using show_nat_digits [of n] by (cases "show_nat n") auto
  then have "c \<noteq> CHR ''+''" using show_nat_digits [of n] by (auto simp: is_ascii_digit_def)
  with c n show ?thesis using show_nat_digits [of n] by (auto simp: parse_uint_def Let_def)
qed

lemma parse_uint_le: "parse_uint m s = Some n \<Longrightarrow> n \<le> m"
  by (auto simp: parse_uint_def Let_def split: if_splits)

section \<open>Splitting strings\<close>

text \<open>\<^verbatim>\<open>split_once\<close> at the first separator, and \<^verbatim>\<open>split\<close> at all of them.\<close>

fun break_at :: "byte \<Rightarrow> string \<Rightarrow> string \<times> string option" where
  "break_at d [] = ([], None)"
| "break_at d (c # cs) =
     (if c = d then ([], Some cs) else case break_at d cs of (a, r) \<Rightarrow> (c # a, r))"

lemma break_at_length: "break_at d s = (a, Some r) \<Longrightarrow> length r < length s"
  by (induction s arbitrary: a) (auto split: if_splits prod.splits)

lemma break_at_absent: "d \<notin> set s \<Longrightarrow> break_at d s = (s, None)"
  by (induction s) auto

lemma break_at_append: "d \<notin> set s \<Longrightarrow> break_at d (s @ d # r) = (s, Some r)"
  by (induction s) auto

fun split_on :: "byte \<Rightarrow> string \<Rightarrow> string list" where
  "split_on d [] = [[]]"
| "split_on d (c # cs) =
     (if c = d then [] # split_on d cs
      else case split_on d cs of [] \<Rightarrow> [[c]] | e # es \<Rightarrow> (c # e) # es)"

lemma split_on_nonempty [simp]: "split_on d s \<noteq> []"
  by (induction s) (auto split: list.splits)

lemma split_on_absent: "d \<notin> set s \<Longrightarrow> split_on d s = [s]"
  by (induction s) auto

lemma split_on_append: "d \<notin> set s \<Longrightarrow> split_on d (s @ d # r) = s # split_on d r"
  by (induction s) auto

end
