(* ===== verification/Signature.thy ===== *)
theory Signature
  imports Prelude
begin

text \<open>
  The parsed signature type of \<^verbatim>\<open>zvariant_utils/src/signature/mod.rs\<close> (with the
  \<^verbatim>\<open>gvariant\<close> feature and on unix): its printers, its string length, the alignments of the
  two wire formats, and its comparisons with signatures and with strings.

  \<^verbatim>\<open>Child\<close> and \<^verbatim>\<open>Fields\<close> only say who owns a nested signature (static or boxed) and are read
  through \<^verbatim>\<open>signature()\<close> and \<^verbatim>\<open>iter()\<close> everywhere, so a nested signature is the signature
  itself and the fields of a structure are a list.
\<close>

section \<open>Definitions\<close>

datatype signature =
    Unit | U8 | Bool | I16 | U16 | I32 | U32 | I64 | U64 | F64
  | Str | Signature | ObjectPath | Variant | Fd
  | Array signature
  | Dict signature signature
  | Structure "signature list"
  | Maybe signature

datatype format = DBus | GVariant

datatype ordering = Less | Equal | Greater

fun string_len :: "signature \<Rightarrow> nat" where
  "string_len Unit = 0"
| "string_len (Array child) = 1 + string_len child"
| "string_len (Dict key val) = 3 + string_len key + string_len val"
| "string_len (Structure fields) = 2 + sum_list (map string_len fields)"
| "string_len (Maybe child) = 1 + string_len child"
| "string_len _ = 1"

fun write_as_string :: "signature \<Rightarrow> bool \<Rightarrow> string" where
  "write_as_string Unit _ = ''''"
| "write_as_string U8 _ = ''y''"
| "write_as_string Bool _ = ''b''"
| "write_as_string I16 _ = ''n''"
| "write_as_string U16 _ = ''q''"
| "write_as_string I32 _ = ''i''"
| "write_as_string U32 _ = ''u''"
| "write_as_string I64 _ = ''x''"
| "write_as_string U64 _ = ''t''"
| "write_as_string F64 _ = ''d''"
| "write_as_string Str _ = ''s''"
| "write_as_string Signature _ = ''g''"
| "write_as_string ObjectPath _ = ''o''"
| "write_as_string Variant _ = ''v''"
| "write_as_string Fd _ = ''h''"
| "write_as_string (Array child) _ = ''a'' @ write_as_string child True"
| "write_as_string (Dict key val) _ =
     ''a{'' @ write_as_string key True @ write_as_string val True @ ''}''"
| "write_as_string (Structure fields) outer_parens =
     (if outer_parens then ''('' else '''') @
     concat (map (\<lambda>field. write_as_string field True) fields) @
     (if outer_parens then '')'' else '''')"
| "write_as_string (Maybe child) _ = ''m'' @ write_as_string child True"

definition to_string :: "signature \<Rightarrow> string" where
  "to_string s = write_as_string s True"

definition to_string_no_parens :: "signature \<Rightarrow> string" where
  "to_string_no_parens s = write_as_string s False"

text \<open>\<open>None\<close> is the \<^verbatim>\<open>unreachable!\<close> of a GVariant-only type in the D-Bus format.\<close>

fun alignment_dbus :: "signature \<Rightarrow> nat option" where
  "alignment_dbus U8 = Some 1"
| "alignment_dbus Variant = Some 1"
| "alignment_dbus Signature = Some 1"
| "alignment_dbus I16 = Some 2"
| "alignment_dbus U16 = Some 2"
| "alignment_dbus I32 = Some 4"
| "alignment_dbus U32 = Some 4"
| "alignment_dbus Bool = Some 4"
| "alignment_dbus Str = Some 4"
| "alignment_dbus ObjectPath = Some 4"
| "alignment_dbus (Array _) = Some 4"
| "alignment_dbus (Dict _ _) = Some 4"
| "alignment_dbus I64 = Some 8"
| "alignment_dbus U64 = Some 8"
| "alignment_dbus F64 = Some 8"
| "alignment_dbus Unit = Some 8"
| "alignment_dbus (Structure _) = Some 8"
| "alignment_dbus Fd = Some 4"
| "alignment_dbus (Maybe _) = None"

fun alignment_gvariant :: "signature \<Rightarrow> nat" where
  "alignment_gvariant Str = 1"
| "alignment_gvariant ObjectPath = 1"
| "alignment_gvariant Variant = 8"
| "alignment_gvariant (Array child) = alignment_gvariant child"
| "alignment_gvariant (Maybe child) = alignment_gvariant child"
| "alignment_gvariant (Dict key val) = max (alignment_gvariant key) (alignment_gvariant val)"
| "alignment_gvariant (Structure fields) =
     (if fields = [] then 1 else Max (set (map alignment_gvariant fields)))"
| "alignment_gvariant s = (case alignment_dbus s of Some n \<Rightarrow> n | None \<Rightarrow> 0)"

definition alignment :: "signature \<Rightarrow> format \<Rightarrow> nat option" where
  "alignment s fmt = (case fmt of DBus \<Rightarrow> alignment_dbus s | GVariant \<Rightarrow> Some (alignment_gvariant s))"

fun is_fixed_sized :: "signature \<Rightarrow> bool" where
  "is_fixed_sized Str = False"
| "is_fixed_sized Signature = False"
| "is_fixed_sized ObjectPath = False"
| "is_fixed_sized Variant = False"
| "is_fixed_sized (Array _) = False"
| "is_fixed_sized (Dict _ _) = False"
| "is_fixed_sized (Maybe _) = False"
| "is_fixed_sized (Structure fields) = list_all is_fixed_sized fields"
| "is_fixed_sized _ = True"

text \<open>\<^verbatim>\<open>PartialEq for Signature\<close>; \<open>sig_eq_iter\<close> is \<^verbatim>\<open>Iterator::eq\<close> on the fields.\<close>

fun sig_eq :: "signature \<Rightarrow> signature \<Rightarrow> bool"
  and sig_eq_iter :: "signature list \<Rightarrow> signature list \<Rightarrow> bool" where
  "sig_eq Unit other = (case other of Unit \<Rightarrow> True | _ \<Rightarrow> False)"
| "sig_eq U8 other = (case other of U8 \<Rightarrow> True | _ \<Rightarrow> False)"
| "sig_eq Bool other = (case other of Bool \<Rightarrow> True | _ \<Rightarrow> False)"
| "sig_eq I16 other = (case other of I16 \<Rightarrow> True | _ \<Rightarrow> False)"
| "sig_eq U16 other = (case other of U16 \<Rightarrow> True | _ \<Rightarrow> False)"
| "sig_eq I32 other = (case other of I32 \<Rightarrow> True | _ \<Rightarrow> False)"
| "sig_eq U32 other = (case other of U32 \<Rightarrow> True | _ \<Rightarrow> False)"
| "sig_eq I64 other = (case other of I64 \<Rightarrow> True | _ \<Rightarrow> False)"
| "sig_eq U64 other = (case other of U64 \<Rightarrow> True | _ \<Rightarrow> False)"
| "sig_eq F64 other = (case other of F64 \<Rightarrow> True | _ \<Rightarrow> False)"
| "sig_eq Str other = (case other of Str \<Rightarrow> True | _ \<Rightarrow> False)"
| "sig_eq Signature other = (case other of Signature \<Rightarrow> True | _ \<Rightarrow> False)"
| "sig_eq ObjectPath other = (case other of ObjectPath \<Rightarrow> True | _ \<Rightarrow> False)"
| "sig_eq Variant other = (case other of Variant \<Rightarrow> True | _ \<Rightarrow> False)"
| "sig_eq Fd other = (case other of Fd \<Rightarrow> True | _ \<Rightarrow> False)"
| "sig_eq (Array a) other = (case other of Array b \<Rightarrow> sig_eq a b | _ \<Rightarrow> False)"
| "sig_eq (Dict ka va) other =
     (case other of Dict kb vb \<Rightarrow> sig_eq ka kb \<and> sig_eq va vb | _ \<Rightarrow> False)"
| "sig_eq (Structure a) other = (case other of Structure b \<Rightarrow> sig_eq_iter a b | _ \<Rightarrow> False)"
| "sig_eq (Maybe a) other = (case other of Maybe b \<Rightarrow> sig_eq a b | _ \<Rightarrow> False)"
| "sig_eq_iter [] others = (case others of [] \<Rightarrow> True | _ \<Rightarrow> False)"
| "sig_eq_iter (a # as) others =
     (case others of [] \<Rightarrow> False | b # bs \<Rightarrow> sig_eq a b \<and> sig_eq_iter as bs)"

text \<open>
  \<^verbatim>\<open>PartialEq<&str> for Signature\<close>. The string slices panic inside a multi-byte character,
  so the answer is a result; \<open>eq_str_fields\<close> is the loop over the fields of a structure with
  its running \<^verbatim>\<open>start\<close>.
\<close>

fun eq_str :: "signature \<Rightarrow> string \<Rightarrow> (unit, bool) res"
  and eq_str_fields :: "signature list \<Rightarrow> string \<Rightarrow> nat \<Rightarrow> (unit, bool) res" where
  "eq_str Unit other = Ok (other = '''')"
| "eq_str Bool other = Ok (other = ''b'')"
| "eq_str U8 other = Ok (other = ''y'')"
| "eq_str I16 other = Ok (other = ''n'')"
| "eq_str U16 other = Ok (other = ''q'')"
| "eq_str I32 other = Ok (other = ''i'')"
| "eq_str U32 other = Ok (other = ''u'')"
| "eq_str I64 other = Ok (other = ''x'')"
| "eq_str U64 other = Ok (other = ''t'')"
| "eq_str F64 other = Ok (other = ''d'')"
| "eq_str Str other = Ok (other = ''s'')"
| "eq_str Signature other = Ok (other = ''g'')"
| "eq_str ObjectPath other = Ok (other = ''o'')"
| "eq_str Variant other = Ok (other = ''v'')"
| "eq_str Fd other = Ok (other = ''h'')"
| "eq_str (Array child) other =
     (if length other < 2 \<or> \<not> prefix ''a'' other then Ok False
      else bind_res (str_slice other 1 (length other)) (eq_str child))"
| "eq_str (Dict key val) other =
     (if length other < 4 \<or> \<not> prefix ''a{'' other \<or> \<not> suffix ''}'' other then Ok False
      else bind_res (str_slice other 2 (length other - 1)) (\<lambda>inner.
        bind_res (str_slice inner 0 1) (\<lambda>key_str.
        bind_res (str_slice inner 1 (length inner)) (\<lambda>value_str.
        bind_res (eq_str key key_str) (\<lambda>b. if b then eq_str val value_str else Ok False)))))"
| "eq_str (Structure fields) other =
     (let n = string_len (Structure fields) in
      if n < length other \<or> (n \<noteq> length other \<and> n \<noteq> length other + 2) then Ok False
      else if n = length other
        then bind_res (str_slice other 1 (length other - 1)) (\<lambda>fields_str.
               eq_str_fields fields fields_str 0)
      else if other = '''' then Ok False
      else eq_str_fields fields other 0)"
| "eq_str (Maybe child) other =
     (if length other < 2 \<or> \<not> prefix ''m'' other then Ok False
      else bind_res (str_slice other 1 (length other)) (eq_str child))"
| "eq_str_fields [] fields_str start = Ok True"
| "eq_str_fields (field # fields) fields_str start =
     (let end = start + string_len field in
      if length fields_str < end then Ok False
      else bind_res (str_slice fields_str start end) (\<lambda>piece.
        bind_res (eq_str field piece) (\<lambda>b.
          if b then eq_str_fields fields fields_str end else Ok False)))"

text \<open>\<^verbatim>\<open>Ord for Signature\<close>; \<open>sig_cmp_iter\<close> is \<^verbatim>\<open>Iterator::cmp\<close>.\<close>

fun sig_cmp :: "signature \<Rightarrow> signature \<Rightarrow> ordering"
  and sig_cmp_iter :: "signature list \<Rightarrow> signature list \<Rightarrow> ordering" where
  "sig_cmp (Array a) other = (case other of Array b \<Rightarrow> sig_cmp a b | _ \<Rightarrow> Equal)"
| "sig_cmp (Dict ka va) other =
     (case other of
        Dict kb vb \<Rightarrow> (case sig_cmp ka kb of Equal \<Rightarrow> sig_cmp va vb | ord \<Rightarrow> ord)
      | _ \<Rightarrow> Equal)"
| "sig_cmp (Structure a) other =
     (case other of Structure b \<Rightarrow> sig_cmp_iter a b | _ \<Rightarrow> Equal)"
| "sig_cmp (Maybe a) other = (case other of Maybe b \<Rightarrow> sig_cmp a b | _ \<Rightarrow> Equal)"
| "sig_cmp _ other = Equal"
| "sig_cmp_iter [] others = (case others of [] \<Rightarrow> Equal | _ \<Rightarrow> Less)"
| "sig_cmp_iter (a # as) others =
     (case others of
        [] \<Rightarrow> Greater
      | b # bs \<Rightarrow> (case sig_cmp a b of Equal \<Rightarrow> sig_cmp_iter as bs | ord \<Rightarrow> ord))"

text \<open>\<^verbatim>\<open>Hash for Signature\<close>: the integers fed to the hasher, in order.\<close>

fun hash_stream :: "signature \<Rightarrow> int list" where
  "hash_stream Unit = [0]"
| "hash_stream U8 = [1]"
| "hash_stream Bool = [2]"
| "hash_stream I16 = [3]"
| "hash_stream U16 = [4]"
| "hash_stream I32 = [5]"
| "hash_stream U32 = [6]"
| "hash_stream I64 = [7]"
| "hash_stream U64 = [8]"
| "hash_stream F64 = [9]"
| "hash_stream Str = [10]"
| "hash_stream Signature = [11]"
| "hash_stream ObjectPath = [12]"
| "hash_stream Variant = [13]"
| "hash_stream Fd = [14]"
| "hash_stream (Array child) = 15 # hash_stream child"
| "hash_stream (Dict key val) = 16 # hash_stream key @ hash_stream val"
| "hash_stream (Structure fields) = 17 # concat (map hash_stream fields)"
| "hash_stream (Maybe child) = 18 # hash_stream child"

section \<open>Well-formed signatures\<close>

text \<open>
  What may stand inside a container: no \<open>Unit\<close>, no structure without fields. These are the
  signatures that D-Bus knows; \<^verbatim>\<open>Signature::Unit\<close> is documented as a top-level value only.
\<close>

fun sig_wf :: "signature \<Rightarrow> bool" where
  "sig_wf Unit = False"
| "sig_wf (Array child) = sig_wf child"
| "sig_wf (Dict key val) = (sig_wf key \<and> sig_wf val)"
| "sig_wf (Structure fields) = (fields \<noteq> [] \<and> list_all sig_wf fields)"
| "sig_wf (Maybe child) = sig_wf child"
| "sig_wf _ = True"

text \<open>Every dictionary key is a single-character type, as the D-Bus specification demands.\<close>

fun basic_keys :: "signature \<Rightarrow> bool" where
  "basic_keys (Array child) = basic_keys child"
| "basic_keys (Dict key val) = (string_len key = 1 \<and> basic_keys key \<and> basic_keys val)"
| "basic_keys (Structure fields) = list_all basic_keys fields"
| "basic_keys (Maybe child) = basic_keys child"
| "basic_keys _ = True"

section \<open>Printing\<close>

lemma string_len_write: "length (write_as_string s True) = string_len s"
  by (induction s rule: string_len.induct) (auto simp: length_concat_map cong: map_cong)

lemma string_len_to_string: "length (to_string s) = string_len s"
  by (simp add: to_string_def string_len_write)

lemma is_ascii_write [simp]: "is_ascii (write_as_string s b)"
proof (induction s arbitrary: b)
  case (Structure fields)
  then show ?case by (auto simp: is_ascii_def)
qed simp_all

lemma is_ascii_concat_write [simp]: "is_ascii (concat (map (\<lambda>f. write_as_string f b) fs))"
  by (induction fs) auto

lemma write_no_parens:
  "write_as_string s False =
     (case s of Structure fs \<Rightarrow> concat (map (\<lambda>f. write_as_string f True) fs)
      | _ \<Rightarrow> write_as_string s True)"
  by (cases s) auto

lemma write_as_string_nonempty: "sig_wf s \<Longrightarrow> write_as_string s True \<noteq> []"
  by (cases s) auto

lemma sig_wf_string_len_pos: "sig_wf s \<Longrightarrow> 0 < string_len s"
  by (cases s) auto

section \<open>Equality, order and hash\<close>

lemma sig_eq_iff: "sig_eq a b \<longleftrightarrow> a = b"
  and sig_eq_iter_iff: "sig_eq_iter as bs \<longleftrightarrow> as = bs"
proof (induction a b and as bs rule: sig_eq_sig_eq_iter.induct)
qed (auto split: signature.splits list.splits)

text \<open>Equal signatures feed the hasher the same integers.\<close>

lemma sig_eq_hash: "sig_eq a b \<Longrightarrow> hash_stream a = hash_stream b"
  by (simp add: sig_eq_iff)

text \<open>
  The order looks at nothing but the numbers of fields of structures: without a structure on
  the left, every signature compares \<open>Equal\<close> to every other.
\<close>

fun no_structure :: "signature \<Rightarrow> bool" where
  "no_structure (Array child) = no_structure child"
| "no_structure (Dict key val) = (no_structure key \<and> no_structure val)"
| "no_structure (Structure fields) = False"
| "no_structure (Maybe child) = no_structure child"
| "no_structure _ = True"

lemma sig_cmp_no_structure: "no_structure a \<Longrightarrow> sig_cmp a b = Equal"
  by (induction a arbitrary: b) (auto split: signature.splits)

lemma sig_cmp_refl: "sig_cmp a a = Equal"
proof (induction a)
  case (Structure fields)
  then show ?case by (induction fields) auto
qed simp_all

section \<open>Equality with strings\<close>

lemma eq_str_fields_complete:
  assumes "\<And>f. f \<in> set fs \<Longrightarrow> eq_str f (write_as_string f True) = Ok True"
    and "is_ascii pre" "is_ascii post"
  shows "eq_str_fields fs (pre @ concat (map (\<lambda>f. write_as_string f True) fs) @ post) (length pre)
    = Ok True"
  using assms
proof (induction fs arbitrary: pre)
  case Nil
  then show ?case by simp
next
  case (Cons f fs)
  let ?w = "write_as_string f True" and ?ws = "concat (map (\<lambda>f. write_as_string f True) fs)"
  have len: "string_len f = length ?w"
    by (simp add: string_len_write)
  have asc: "is_ascii (pre @ ?w @ ?ws @ post)"
    using Cons.prems(2,3) by simp
  have slice: "str_slice (pre @ ?w @ ?ws @ post) (length pre) (length pre + string_len f)
      = (Ok ?w :: (unit, string) res)"
    using str_slice_ascii [OF asc, of "length pre" "length pre + length ?w"] by (simp add: len)
  have "eq_str_fields fs ((pre @ ?w) @ ?ws @ post) (length (pre @ ?w)) = Ok True"
    by (rule Cons.IH) (use Cons.prems in auto)
  then show ?case
    using slice Cons.prems(1) by (simp add: Let_def string_len_write)
qed

lemma eq_str_Array_complete:
  assumes "eq_str c (write_as_string c True) = Ok True" "sig_wf c"
  shows "eq_str (Array c) (write_as_string (Array c) True) = Ok True"
    and "eq_str (Maybe c) (write_as_string (Maybe c) True) = Ok True"
proof -
  have "str_slice (x # write_as_string c True) 1 (Suc (string_len c))
      = (Ok (write_as_string c True) :: (unit, string) res)" if "code x < 128" for x
    using that by (subst str_slice_ascii) (auto simp: string_len_write)
  from this [of "CHR ''a''"] this [of "CHR ''m''"]
  show "eq_str (Array c) (write_as_string (Array c) True) = Ok True"
    and "eq_str (Maybe c) (write_as_string (Maybe c) True) = Ok True"
    using assms(1) sig_wf_string_len_pos [OF assms(2)] by (simp_all add: string_len_write)
qed

lemma eq_str_Dict_complete:
  assumes "eq_str k (write_as_string k True) = Ok True" "eq_str v (write_as_string v True) = Ok True"
    and "string_len k = 1" "sig_wf v"
  shows "eq_str (Dict k v) (write_as_string (Dict k v) True) = Ok True"
proof -
  let ?k = "write_as_string k True" and ?v = "write_as_string v True"
  have lens: "length ?k = 1" "0 < length ?v"
    using assms(3,4) by (auto simp: string_len_write sig_wf_string_len_pos)
  have "str_slice (write_as_string (Dict k v) True) 2 (length (write_as_string (Dict k v) True) - 1)
      = (Ok (?k @ ?v) :: (unit, string) res)"
    using lens by (subst str_slice_ascii) auto
  moreover have "str_slice (?k @ ?v) 0 1 = (Ok ?k :: (unit, string) res)"
      "str_slice (?k @ ?v) 1 (length (?k @ ?v)) = (Ok ?v :: (unit, string) res)"
    using lens by (subst str_slice_ascii, auto)+
  ultimately show ?thesis
    using assms lens by (simp add: suffix_def)
qed

lemma eq_str_Structure_complete:
  assumes "\<And>f. f \<in> set fs \<Longrightarrow> eq_str f (write_as_string f True) = Ok True" "fs \<noteq> []"
    and "\<And>f. f \<in> set fs \<Longrightarrow> sig_wf f"
  shows "eq_str (Structure fs) (write_as_string (Structure fs) b) = Ok True"
proof -
  let ?ws = "concat (map (\<lambda>f. write_as_string f True) fs)"
  have len: "string_len (Structure fs) = length ?ws + 2"
    using string_len_write [of "Structure fs"] by simp
  have ne: "?ws \<noteq> []"
    using assms(2,3) by (cases fs) (auto dest: write_as_string_nonempty)
  have loop: "eq_str_fields fs ?ws 0 = Ok True"
    using eq_str_fields_complete [of fs "[]" "[]"] assms(1) by simp
  have "str_slice (''('' @ ?ws @ '')'') 1 (Suc (length ?ws)) = (Ok ?ws :: (unit, string) res)"
    by (subst str_slice_ascii) auto
  then show ?thesis
    using loop len ne by (cases b) (simp_all add: Let_def del: string_len.simps)
qed

text \<open>
  A well-formed signature whose dictionary keys are basic equals its own string, printed with
  or without the outer parentheses.
\<close>

lemma eq_str_complete: "sig_wf s \<Longrightarrow> basic_keys s \<Longrightarrow> eq_str s (write_as_string s b) = Ok True"
proof (induction s arbitrary: b)
  case (Array c)
  then show ?case using eq_str_Array_complete(1) [of c] by simp
next
  case (Maybe c)
  then show ?case using eq_str_Array_complete(2) [of c] by simp
next
  case (Dict k v)
  then show ?case using eq_str_Dict_complete [of k v] by simp
next
  case (Structure fs)
  show ?case
    by (rule eq_str_Structure_complete) (use Structure in \<open>auto simp: list_all_iff\<close>)
qed simp_all

lemma str_slice_ascii_ex:
  assumes "is_ascii s" "a \<le> b" "b \<le> length s"
  obtains t where "str_slice s a b = (Ok t :: (unit, string) res)" "is_ascii t" "length t = b - a"
proof
  show "str_slice s a b = (Ok (take (b - a) (drop a s)) :: (unit, string) res)"
    using assms by (rule str_slice_ascii)
  show "is_ascii (take (b - a) (drop a s))"
    using assms(1) by (auto simp: is_ascii_def dest: in_set_takeD in_set_dropD)
  show "length (take (b - a) (drop a s)) = b - a"
    using assms by simp
qed

lemma eq_str_no_panic: "is_ascii other \<Longrightarrow> eq_str s other \<noteq> Panic"
  and eq_str_fields_no_panic: "is_ascii str \<Longrightarrow> eq_str_fields fs str start \<noteq> Panic"
proof (induction s other and fs str start rule: eq_str_eq_str_fields.induct)
  case (16 c other)
  show ?case
  proof (cases "length other < 2 \<or> \<not> prefix ''a'' other")
    case False
    with 16 obtain t where "str_slice other 1 (length other) = (Ok t :: (unit, string) res)" "is_ascii t"
      using str_slice_ascii_ex [of other 1 "length other"] by auto
    with 16 False show ?thesis by simp
  qed auto
next
  case (17 k v other)
  show ?case
  proof (cases "length other < 4 \<or> \<not> prefix ''a{'' other \<or> \<not> suffix ''}'' other")
    case False
    then have le: "2 \<le> length other - 1" by auto
    obtain t where t: "str_slice other 2 (length other - 1) = (Ok t :: (unit, string) res)"
        "is_ascii t" "length t = length other - 1 - 2"
      by (rule str_slice_ascii_ex [OF "17.prems" le diff_le_self])
    with False have "0 < length t" by auto
    obtain ks vs where "str_slice t 0 1 = (Ok ks :: (unit, string) res)" "is_ascii ks"
        "str_slice t 1 (length t) = (Ok vs :: (unit, string) res)" "is_ascii vs"
      using t \<open>0 < length t\<close> str_slice_ascii_ex [of t 0 1] str_slice_ascii_ex [of t 1 "length t"]
      by (metis One_nat_def Suc_leI le_refl zero_le)
    with 17 t False show ?thesis by (auto simp: bind_res_eq_Panic)
  qed auto
next
  case (18 fs other)
  show ?case
  proof (cases "string_len (Structure fs) = length other")
    case True
    then have le: "1 \<le> length other - 1" by auto
    obtain t where "str_slice other 1 (length other - 1) = (Ok t :: (unit, string) res)"
        "is_ascii t"
      by (rule str_slice_ascii_ex [OF "18.prems" le diff_le_self])
    with 18 True show ?thesis by (simp add: Let_def)
  next
    case False
    with 18 show ?thesis by (auto simp: Let_def)
  qed
next
  case (19 c other)
  show ?case
  proof (cases "length other < 2 \<or> \<not> prefix ''m'' other")
    case False
    with 19 obtain t where "str_slice other 1 (length other) = (Ok t :: (unit, string) res)" "is_ascii t"
      using str_slice_ascii_ex [of other 1 "length other"] by auto
    with 19 False show ?thesis by simp
  qed auto
next
  case (21 f fs str start)
  show ?case
  proof (cases "length str < start + string_len f")
    case False
    then have le: "start + string_len f \<le> length str" by auto
    obtain t where "str_slice str start (start + string_len f) = (Ok t :: (unit, string) res)"
        "is_ascii t"
      by (rule str_slice_ascii_ex [OF "21.prems" le_add1 le])
    with 21 False show ?thesis by (auto simp: Let_def bind_res_eq_Panic)
  qed (simp add: Let_def)
qed simp_all

section \<open>Properties\<close>

text \<open>\<^verbatim>\<open>string_len\<close> is the length of the string that \<^verbatim>\<open>Display\<close> prints.\<close>

theorem signature_string_len: "string_len s = length (to_string s)"
  by (simp add: string_len_to_string)

text \<open>A signature equals the string it prints as, with and without the outer parentheses of a
  structure, if the keys of its dictionaries print as one character.\<close>

theorem signature_eq_own_string:
  assumes "sig_wf s" "basic_keys s"
  shows "eq_str s (to_string s) = Ok True \<and> eq_str s (to_string_no_parens s) = Ok True"
  using assms by (simp add: to_string_def to_string_no_parens_def eq_str_complete)

theorem signature_eq_own_string_witness:
  "eq_str (Dict Str (Structure [U8, Array Variant])) ''a{s(yav)}'' = Ok True"
  using signature_eq_own_string [of "Dict Str (Structure [U8, Array Variant])"] by (simp add: to_string_def)

text \<open>The comparison with an ASCII string never panics, whatever the signature.\<close>

theorem signature_eq_str_safe:
  assumes "is_ascii other"
  shows "eq_str s other \<noteq> Panic"
  by (rule eq_str_no_panic [OF assms])

theorem signature_eq_str_safe_witness: "eq_str (Structure [U8, Dict Str U8]) ''(ya{s'' \<noteq> Panic"
  by (rule signature_eq_str_safe) simp

text \<open>The comparison does not look at the parentheses of a structure: a signature equals
  strings that are no signature, and strings that are the signature of another type.\<close>

theorem signature_eq_str_unsound:
  "eq_str (Structure [U8]) ''xyx'' = Ok True \<and> eq_str (Array (Structure [U8])) ''ay'' = Ok True"
  by (simp add: str_slice_def is_char_boundary_def)

text \<open>The order on signatures is no order of the equality: signatures without a structure
  compare \<open>Equal\<close> to every signature.\<close>

theorem signature_order_degenerate:
  assumes "no_structure a"
  shows "sig_cmp a b = Equal"
  by (rule sig_cmp_no_structure [OF assms])

theorem signature_order_degenerate_witness: "sig_cmp Str (Array U8) = Equal \<and> \<not> sig_eq Str (Array U8)"
  using signature_order_degenerate [of Str "Array U8"] by simp

end
