(* ===== verification/Signature_Parse.thy ===== *)
theory Signature_Parse
  imports Signature
begin

text \<open>
  The signature parser, \<^verbatim>\<open>parse\<close> of \<^verbatim>\<open>zvariant_utils/src/signature/mod.rs\<close>. It is written
  with the combinators of the \<^verbatim>\<open>nom\<close> crate, which is not part of the repository: the model
  takes them as a record \<open>N\<close>, and what \<^verbatim>\<open>nom\<close> documents of them is the locale \<open>nom_laws\<close>.
  A parser maps its input to the rest of the input and an output, or to \<open>None\<close> for an error;
  the error value is dropped by the caller (\<^verbatim>\<open>map_err(|_| InvalidSignature)\<close>). The outputs of
  the combinators are tagged values of one type \<open>out\<close>.

  The recursion of \<open>parse_signature\<close> is bounded by fuel. Each nested call is made on a strictly
  shorter input, so one more than the length of the input is enough (lemma
  \<open>parse_signature_fuel\<close>).
\<close>

section \<open>The nom interface\<close>

datatype sig_list = SL_Unit | SL_One signature | SL_Structure "signature list"

datatype out = OBytes "byte list" | OSig signature | OPair out out | OCount nat | OList sig_list

type_synonym parser = "byte list \<Rightarrow> (byte list \<times> out) option"

record nom =
  tag :: "byte list \<Rightarrow> parser"
  eof :: parser
  alt :: "parser list \<Rightarrow> parser"
  pmap :: "parser \<Rightarrow> (out \<Rightarrow> out) \<Rightarrow> parser"
  pair :: "parser \<Rightarrow> parser \<Rightarrow> parser"
  delimited :: "parser \<Rightarrow> parser \<Rightarrow> parser \<Rightarrow> parser"
  many1_count :: "parser \<Rightarrow> parser"
  fold_many1 :: "parser \<Rightarrow> (unit \<Rightarrow> out) \<Rightarrow> (out \<Rightarrow> out \<Rightarrow> out) \<Rightarrow> parser"
  all_consuming :: "parser \<Rightarrow> parser"

text \<open>The outputs of applying a parser until it fails, at most \<open>n\<close> times.\<close>

fun repeat_parser :: "nat \<Rightarrow> parser \<Rightarrow> byte list \<Rightarrow> byte list \<times> out list" where
  "repeat_parser 0 p i = (i, [])"
| "repeat_parser (Suc n) p i =
     (case p i of None \<Rightarrow> (i, []) | Some (r, x) \<Rightarrow> apsnd (Cons x) (repeat_parser n p r))"

definition consuming :: "parser \<Rightarrow> bool" where
  "consuming p \<longleftrightarrow> (\<forall>i r x. p i = Some (r, x) \<longrightarrow> length r < length i)"

locale nom_laws =
  fixes N :: nom
  assumes tag: "tag N t i = (if prefix t i then Some (drop (length t) i, OBytes t) else None)"
    and eof: "eof N i = (if i = [] then Some ([], OBytes []) else None)"
    and alt_last: "alt N [p] i = p i"
    and alt_next: "alt N (p # q # ps) i = (case p i of Some r \<Rightarrow> Some r | None \<Rightarrow> alt N (q # ps) i)"
    and pmap: "pmap N p f i = map_option (apsnd f) (p i)"
    and pair: "pair N p q i =
      (case p i of None \<Rightarrow> None | Some (r, x) \<Rightarrow> map_option (apsnd (OPair x)) (q r))"
    and delimited: "delimited N p q s i =
      (case p i of None \<Rightarrow> None
       | Some (r, _) \<Rightarrow> (case q r of None \<Rightarrow> None
         | Some (r', x) \<Rightarrow> map_option (apsnd (\<lambda>_. x)) (s r')))"
    and many1_count: "consuming p \<Longrightarrow> many1_count N p i =
      (case repeat_parser (length i) p i of (r, xs) \<Rightarrow>
         if xs = [] then None else Some (r, OCount (length xs)))"
    and fold_many1: "consuming p \<Longrightarrow> fold_many1 N p init g i =
      (case repeat_parser (length i) p i of (r, xs) \<Rightarrow>
         if xs = [] then None else Some (r, foldl g (init ()) xs))"
    and all_consuming: "all_consuming N p i =
      (case p i of Some ([], x) \<Rightarrow> Some ([], x) | _ \<Rightarrow> None)"

section \<open>The parser\<close>

datatype sig_error = InvalidSignature

definition byte_p :: "nom \<Rightarrow> byte \<Rightarrow> parser" where
  "byte_p N b = tag N [b]"

text \<open>
  \<open>list_push\<close> and \<open>list_finish\<close> are the closures of \<^verbatim>\<open>many\<close>. Their last equations are for
  outputs that Rust's types rule out.
\<close>

fun list_push :: "bool \<Rightarrow> out \<Rightarrow> out \<Rightarrow> out" where
  "list_push top_level (OList SL_Unit) (OSig s) =
     OList (if top_level then SL_One s else SL_Structure [s])"
| "list_push top_level (OList (SL_One one)) (OSig s) = OList (SL_Structure [one, s])"
| "list_push top_level (OList (SL_Structure ss)) (OSig s) = OList (SL_Structure (ss @ [s]))"
| "list_push top_level acc _ = acc"

fun list_finish :: "out \<Rightarrow> out" where
  "list_finish (OList SL_Unit) = OSig Unit"
| "list_finish (OList (SL_One s)) = OSig s"
| "list_finish (OList (SL_Structure ss)) = OSig (Structure ss)"
| "list_finish x = x"

definition many :: "nom \<Rightarrow> parser \<Rightarrow> bool \<Rightarrow> bool \<Rightarrow> parser" where
  "many N parser check_only top_level bytes =
     (if check_only then pmap N (many1_count N parser) (\<lambda>_. OSig Unit) bytes
      else pmap N (fold_many1 N parser (\<lambda>_. OList SL_Unit) (list_push top_level)) list_finish bytes)"

definition simple_type :: "nom \<Rightarrow> parser" where
  "simple_type N = alt N
     [pmap N (byte_p N CHR ''y'') (\<lambda>_. OSig U8),
      pmap N (byte_p N CHR ''b'') (\<lambda>_. OSig Bool),
      pmap N (byte_p N CHR ''n'') (\<lambda>_. OSig I16),
      pmap N (byte_p N CHR ''q'') (\<lambda>_. OSig U16),
      pmap N (byte_p N CHR ''i'') (\<lambda>_. OSig I32),
      pmap N (byte_p N CHR ''u'') (\<lambda>_. OSig U32),
      pmap N (byte_p N CHR ''x'') (\<lambda>_. OSig I64),
      pmap N (byte_p N CHR ''t'') (\<lambda>_. OSig U64),
      pmap N (byte_p N CHR ''d'') (\<lambda>_. OSig F64),
      pmap N (byte_p N CHR ''s'') (\<lambda>_. OSig Str),
      pmap N (byte_p N CHR ''g'') (\<lambda>_. OSig Signature),
      pmap N (byte_p N CHR ''o'') (\<lambda>_. OSig ObjectPath),
      pmap N (byte_p N CHR ''v'') (\<lambda>_. OSig Variant),
      pmap N (byte_p N CHR ''h'') (\<lambda>_. OSig Fd)]"

fun dict_out :: "bool \<Rightarrow> out \<Rightarrow> out" where
  "dict_out check_only (OPair _ (OPair (OSig key) (OSig val))) =
     OSig (if check_only then Dict Unit Unit else Dict key val)"
| "dict_out check_only x = x"

fun child_out :: "(signature \<Rightarrow> signature) \<Rightarrow> bool \<Rightarrow> out \<Rightarrow> out" where
  "child_out con check_only (OPair _ (OSig child)) = OSig (con (if check_only then Unit else child))"
| "child_out con check_only x = x"

definition dict_p :: "nom \<Rightarrow> parser \<Rightarrow> bool \<Rightarrow> parser" where
  "dict_p N p check_only =
     pmap N (pair N (byte_p N CHR ''a'')
              (delimited N (byte_p N CHR ''{'') (pair N p p) (byte_p N CHR ''}'')))
       (dict_out check_only)"

definition array_p :: "nom \<Rightarrow> parser \<Rightarrow> bool \<Rightarrow> parser" where
  "array_p N p check_only = pmap N (pair N (byte_p N CHR ''a'') p) (child_out Array check_only)"

definition structure_p :: "nom \<Rightarrow> parser \<Rightarrow> bool \<Rightarrow> parser" where
  "structure_p N p check_only =
     delimited N (byte_p N CHR ''('') (many N p check_only False) (byte_p N CHR '')'')"

definition maybe_p :: "nom \<Rightarrow> parser \<Rightarrow> bool \<Rightarrow> parser" where
  "maybe_p N p check_only = pmap N (pair N (byte_p N CHR ''m'') p) (child_out Maybe check_only)"

fun parse_signature :: "nom \<Rightarrow> nat \<Rightarrow> bool \<Rightarrow> parser" where
  "parse_signature N 0 check_only bytes = None"
| "parse_signature N (Suc fuel) check_only bytes =
     (let p = parse_signature N fuel check_only in
      alt N [simple_type N, dict_p N p check_only, array_p N p check_only,
             structure_p N p check_only, maybe_p N p check_only] bytes)"

definition parse :: "nom \<Rightarrow> byte list \<Rightarrow> bool \<Rightarrow> (sig_error, signature) res" where
  "parse N bytes check_only =
     (let empty = pmap N (eof N) (\<lambda>_. OSig Unit);
          p = parse_signature N (Suc (length bytes)) check_only in
      case all_consuming N (alt N [empty, many N p check_only True]) bytes of
        Some (_, OSig s) \<Rightarrow> Ok s
      | _ \<Rightarrow> Err InvalidSignature)"

definition from_str :: "nom \<Rightarrow> string \<Rightarrow> (sig_error, signature) res" where
  "from_str N s = parse N s False"

definition from_bytes :: "nom \<Rightarrow> byte list \<Rightarrow> (sig_error, signature) res" where
  "from_bytes N bytes = parse N bytes False"

definition validate :: "nom \<Rightarrow> byte list \<Rightarrow> (sig_error, unit) res" where
  "validate N bytes = bind_res (parse N bytes True) (\<lambda>_. Ok ())"

section \<open>What the combinators give\<close>

declare parse_signature.simps(2) [simp del]

fun simple_sig :: "byte \<Rightarrow> signature option" where
  "simple_sig c =
     (if c = CHR ''y'' then Some U8 else if c = CHR ''b'' then Some Bool
      else if c = CHR ''n'' then Some I16 else if c = CHR ''q'' then Some U16
      else if c = CHR ''i'' then Some I32 else if c = CHR ''u'' then Some U32
      else if c = CHR ''x'' then Some I64 else if c = CHR ''t'' then Some U64
      else if c = CHR ''d'' then Some F64 else if c = CHR ''s'' then Some Str
      else if c = CHR ''g'' then Some Signature else if c = CHR ''o'' then Some ObjectPath
      else if c = CHR ''v'' then Some Variant else if c = CHR ''h'' then Some Fd else None)"

declare simple_sig.simps [simp del]

lemma simple_sig_char:
  "simple_sig c = Some s \<Longrightarrow> sig_wf s \<and> write_as_string s b = [c]"
  by (auto simp: simple_sig.simps split: if_splits)

lemma simple_sig_special [simp]:
  "simple_sig CHR ''a'' = None" "simple_sig CHR ''('' = None" "simple_sig CHR ''m'' = None"
  "simple_sig CHR ''{'' = None" "simple_sig CHR '')'' = None" "simple_sig CHR ''}'' = None"
  by (simp_all add: simple_sig.simps)

fun strip :: "byte \<Rightarrow> byte list \<Rightarrow> byte list option" where
  "strip c [] = None"
| "strip c (d # r) = (if d = c then Some r else None)"

lemma strip_eq_Some [simp]: "strip c i = Some r \<longleftrightarrow> i = c # r"
  by (cases i) auto

lemma repeat_parser_length: "length (snd (repeat_parser n p i)) \<le> n"
  by (induction n p i rule: repeat_parser.induct) (auto split: option.splits)

lemma repeat_parser_rest:
  "consuming p \<Longrightarrow> length (fst (repeat_parser n p i)) + length (snd (repeat_parser n p i)) \<le> length i"
proof (induction n p i rule: repeat_parser.induct)
  case (2 n p i)
  then show ?case
    by (cases "p i") (fastforce simp: consuming_def)+
qed simp

lemma repeat_parser_complete:
  assumes "\<And>f rest. f \<in> set fs \<Longrightarrow> p (write_as_string f True @ rest) = Some (rest, OSig f)"
    and "p stop = None" "length fs \<le> n"
  shows "repeat_parser n p (concat (map (\<lambda>f. write_as_string f True) fs) @ stop) = (stop, map OSig fs)"
  using assms
proof (induction fs arbitrary: n)
  case Nil
  then show ?case by (cases n) auto
next
  case (Cons f fs)
  then obtain m where "n = Suc m" by (cases n) auto
  with Cons show ?case by simp
qed

lemma repeat_parser_sound:
  assumes "\<And>i r x. p i = Some (r, x) \<Longrightarrow> \<exists>s. x = OSig s \<and> sig_wf s \<and> i = write_as_string s True @ r"
    and "repeat_parser n p i = (r, xs)"
  shows "\<exists>fs. xs = map OSig fs \<and> list_all sig_wf fs \<and>
    i = concat (map (\<lambda>f. write_as_string f True) fs) @ r"
  using assms(2)
proof (induction n arbitrary: i r xs)
  case (Suc n)
  show ?case
  proof (cases "p i")
    case None
    with Suc.prems show ?thesis by (intro exI [of _ "[]"]) simp
  next
    case (Some a)
    obtain r1 x where a: "a = (r1, x)" by (cases a)
    obtain ys where ys: "repeat_parser n p r1 = (r, ys)" "xs = x # ys"
      using Suc.prems Some a by (cases "repeat_parser n p r1") auto
    obtain f where f: "x = OSig f" "sig_wf f" "i = write_as_string f True @ r1"
      using assms(1) Some a by blast
    obtain fs where "ys = map OSig fs" "list_all sig_wf fs"
        "r1 = concat (map (\<lambda>f. write_as_string f True) fs) @ r"
      using Suc.IH [OF ys(1)] by blast
    with f ys show ?thesis by (intro exI [of _ "f # fs"]) simp
  qed
qed simp

lemma repeat_parser_cong:
  assumes "\<And>i. map_option fst (p i) = map_option fst (q i)"
  shows "fst (repeat_parser n p i) = fst (repeat_parser n q i) \<and>
    length (snd (repeat_parser n p i)) = length (snd (repeat_parser n q i))"
proof (induction n arbitrary: i)
  case (Suc n)
  then show ?case
    using assms [of i] by (cases "p i"; cases "q i") auto
qed simp

lemma map_fst_bind_same:
  "(\<And>r. map_option fst (f r) = map_option fst (g r)) \<Longrightarrow>
     map_option fst (Option.bind m f) = map_option fst (Option.bind m g)"
  by (cases m) auto

lemma map_fst_bind:
  "map_option fst m = map_option fst m' \<Longrightarrow>
     (\<And>r x y. map_option fst (f r x) = map_option fst (g r y)) \<Longrightarrow>
     map_option fst (Option.bind m (\<lambda>(r, x). f r x)) = map_option fst (Option.bind m' (\<lambda>(r, x). g r x))"
  by (cases m; cases m') auto

lemma foldl_list_push:
  "foldl (list_push lvl) (OList (SL_Structure ss)) (map OSig fs) = OList (SL_Structure (ss @ fs))"
  by (induction fs arbitrary: ss) auto

lemma list_finish_foldl:
  "fs \<noteq> [] \<Longrightarrow> list_finish (foldl (list_push lvl) (OList SL_Unit) (map OSig fs)) =
     OSig (if lvl \<and> length fs = 1 then hd fs else Structure fs)"
  by (cases fs; cases "tl fs") (auto simp: foldl_list_push)

lemma write_head: "sig_wf s \<Longrightarrow> \<exists>c r. write_as_string s True = c # r \<and> c \<noteq> CHR ''{''"
  by (cases s) auto

lemma length_fields_le:
  "list_all sig_wf fs \<Longrightarrow> length fs \<le> length (concat (map (\<lambda>f. write_as_string f True) fs))"
proof (induction fs)
  case (Cons f fs)
  then show ?case using sig_wf_string_len_pos [of f] by (simp add: string_len_write)
qed simp

context nom_laws
begin

lemma byte_p: "byte_p N c i = Option.bind (strip c i) (\<lambda>r. Some (r, OBytes [c]))"
  by (cases i) (auto simp: byte_p_def tag)

lemma pmap_bind: "pmap N p f i = Option.bind (p i) (\<lambda>(r, x). Some (r, f x))"
  by (cases "p i") (auto simp: pmap)

lemma pair_bind: "pair N p q i =
    Option.bind (p i) (\<lambda>(r, x). Option.bind (q r) (\<lambda>(r, y). Some (r, OPair x y)))"
  by (auto simp: pair split: option.splits bind_split)

lemma delimited_bind: "delimited N p q s i =
    Option.bind (p i) (\<lambda>(r, _). Option.bind (q r) (\<lambda>(r, x).
      Option.bind (s r) (\<lambda>(r, _). Some (r, x))))"
  by (auto simp: delimited split: option.splits bind_split)

lemmas combinators = byte_p pmap_bind pair_bind delimited_bind

lemma alt_Cons: "ps \<noteq> [] \<Longrightarrow>
    alt N (p # ps) i = (case p i of Some r \<Rightarrow> Some r | None \<Rightarrow> alt N ps i)"
  by (cases ps) (auto simp: alt_next)

lemma simple_type_eq: "simple_type N i = (case i of [] \<Rightarrow> None
    | c # r \<Rightarrow> map_option (\<lambda>s. (r, OSig s)) (simple_sig c))"
  by (cases i) (simp_all add: simple_type_def alt_Cons alt_last combinators simple_sig.simps)

lemma dict_p_eq: "dict_p N p chk i =
    Option.bind (strip CHR ''a'' i) (\<lambda>r. Option.bind (strip CHR ''{'' r) (\<lambda>r.
      Option.bind (p r) (\<lambda>(r, k). Option.bind (p r) (\<lambda>(r, v).
        Option.bind (strip CHR ''}'' r) (\<lambda>r.
          Some (r, dict_out chk (OPair (OBytes ''a'') (OPair k v))))))))"
  by (simp add: dict_p_def combinators case_prod_unfold)

lemma child_p_eq: "pmap N (pair N (byte_p N c) p) f i =
    Option.bind (strip c i) (\<lambda>r. Option.bind (p r) (\<lambda>(r, x). Some (r, f (OPair (OBytes [c]) x))))"
  by (simp add: combinators case_prod_unfold)

lemma structure_p_eq: "structure_p N p chk i =
    Option.bind (strip CHR ''('' i) (\<lambda>r. Option.bind (many N p chk False r) (\<lambda>(r, x).
      Option.bind (strip CHR '')'' r) (\<lambda>r. Some (r, x))))"
  by (simp add: structure_p_def combinators case_prod_unfold)

lemma parse_signature_Cons: "parse_signature N (Suc n) chk (c # r) =
    (let p = parse_signature N n chk in
     case simple_sig c of Some s \<Rightarrow> Some (r, OSig s)
     | None \<Rightarrow>
       if c = CHR ''a'' then
         (case dict_p N p chk (c # r) of Some x \<Rightarrow> Some x
          | None \<Rightarrow> Option.bind (p r) (\<lambda>(r, x).
              Some (r, child_out Array chk (OPair (OBytes ''a'') x))))
       else if c = CHR ''('' then structure_p N p chk (c # r)
       else if c = CHR ''m'' then
         Option.bind (p r) (\<lambda>(r, x). Some (r, child_out Maybe chk (OPair (OBytes ''m'') x)))
       else None)"
proof -
  let ?p = "parse_signature N n chk"
  have other: "dict_p N ?p chk (c # r) = None" "array_p N ?p chk (c # r) = None"
    if "c \<noteq> CHR ''a''"
    using that by (simp_all add: dict_p_eq array_p_def child_p_eq)
  have str: "structure_p N ?p chk (c # r) = None" if "c \<noteq> CHR ''(''"
    using that by (simp add: structure_p_eq)
  have mb: "maybe_p N ?p chk (c # r) = None" if "c \<noteq> CHR ''m''"
    using that by (simp add: maybe_p_def child_p_eq)
  have alts: "parse_signature N (Suc n) chk (c # r) =
    (case map_option (\<lambda>s. (r, OSig s)) (simple_sig c) of Some x \<Rightarrow> Some x | None \<Rightarrow>
      (case dict_p N ?p chk (c # r) of Some x \<Rightarrow> Some x | None \<Rightarrow>
      (case array_p N ?p chk (c # r) of Some x \<Rightarrow> Some x | None \<Rightarrow>
      (case structure_p N ?p chk (c # r) of Some x \<Rightarrow> Some x | None \<Rightarrow>
        maybe_p N ?p chk (c # r)))))"
    by (simp add: parse_signature.simps Let_def alt_Cons alt_last simple_type_eq split: option.split)
  consider "c = CHR ''a''" | "c = CHR ''(''" | "c = CHR ''m''"
    | "c \<noteq> CHR ''a''" "c \<noteq> CHR ''(''" "c \<noteq> CHR ''m''" by blast
  then show ?thesis
  proof cases
    case 1
    with str mb show ?thesis unfolding alts
      by (simp add: Let_def array_p_def child_p_eq option.case_eq_if)
  next
    case 2
    with other mb show ?thesis unfolding alts by (simp add: Let_def option.case_eq_if)
  next
    case 3
    with other str show ?thesis unfolding alts
      by (simp add: Let_def maybe_p_def child_p_eq option.case_eq_if)
  next
    case 4
    with other str mb show ?thesis unfolding alts by (simp add: Let_def option.case_eq_if)
  qed
qed

lemma parse_signature_Nil [simp]: "parse_signature N n chk [] = None"
  by (cases n) (auto simp: parse_signature.simps Let_def alt_Cons alt_last simple_type_eq dict_p_eq
      array_p_def maybe_p_def child_p_eq structure_p_eq)

section \<open>Every parser consumes input\<close>

lemma many_eq: "consuming p \<Longrightarrow> many N p chk lvl i =
    (case repeat_parser (length i) p i of (r, xs) \<Rightarrow> if xs = [] then None
     else Some (r, if chk then OSig Unit
                   else list_finish (foldl (list_push lvl) (OList SL_Unit) xs)))"
  by (auto simp: many_def pmap many1_count fold_many1 split: prod.splits)

lemma many_shorter: "consuming p \<Longrightarrow> many N p chk lvl i = Some (r, x) \<Longrightarrow> length r < length i"
  using repeat_parser_rest [of p "length i" i]
  by (fastforce simp: many_eq simp flip: length_greater_0_conv split: prod.splits if_splits)

lemma parse_signature_shorter:
  "parse_signature N n chk i = Some (r, x) \<Longrightarrow> length r < length i"
proof (induction n arbitrary: i r x)
  case (Suc n)
  have cons: "consuming (parse_signature N n chk)"
    using Suc.IH by (auto simp: consuming_def)
  obtain c j where i: "i = c # j"
    using Suc.prems parse_signature_Nil by (cases i) auto
  have "length r < length i" if "dict_p N (parse_signature N n chk) chk i = Some (r, x)"
    using that i by (auto simp: dict_p_eq bind_eq_Some_conv dest!: Suc.IH split: if_splits)
  moreover have "length r < length i" if "structure_p N (parse_signature N n chk) chk i = Some (r, x)"
    using that i
    by (auto simp: structure_p_eq bind_eq_Some_conv dest!: many_shorter [OF cons] split: if_splits)
  ultimately show ?case
    using Suc.prems i
    by (auto simp: parse_signature_Cons Let_def bind_eq_Some_conv dest!: Suc.IH
        split: option.splits if_splits)
qed simp

lemma consuming_parse_signature [simp]: "consuming (parse_signature N n chk)"
  using parse_signature_shorter by (auto simp: consuming_def)

section \<open>Round trip and soundness of the recursive parser\<close>

lemma parse_signature_stop:
  "parse_signature N n chk (CHR '')'' # r) = None" "parse_signature N n chk (CHR ''}'' # r) = None"
  "parse_signature N n chk (CHR ''{'' # r) = None"
  by (cases n; simp add: parse_signature_Cons Let_def)+

lemma parse_signature_simple:
  "simple_sig c = Some s \<Longrightarrow> 0 < n \<Longrightarrow> parse_signature N n chk (c # r) = Some (r, OSig s)"
  by (cases n) (simp_all add: parse_signature_Cons Let_def)

lemma parse_signature_complete:
  "sig_wf s \<Longrightarrow> string_len s \<le> n \<Longrightarrow>
     parse_signature N n False (write_as_string s True @ rest) = Some (rest, OSig s)"
proof (induction s arbitrary: n rest)
  case (Array c)
  then obtain m where m: "n = Suc m" "string_len c \<le> m" by (cases n) auto
  obtain d r where d: "write_as_string c True = d # r" "d \<noteq> CHR ''{''"
    using write_head [of c] Array.prems(1) by auto
  then have "dict_p N (parse_signature N m False) False (CHR ''a'' # d # r @ rest) = None"
    by (simp add: dict_p_eq)
  then show ?case
    using m Array d by (simp add: parse_signature_Cons Let_def)
next
  case (Maybe c)
  then obtain m where "n = Suc m" "string_len c \<le> m" by (cases n) auto
  with Maybe show ?case by (simp add: parse_signature_Cons Let_def)
next
  case (Dict k v)
  then obtain m where "n = Suc m" "string_len k \<le> m" "string_len v \<le> m" by (cases n) auto
  with Dict show ?case
    by (simp add: parse_signature_Cons Let_def dict_p_eq)
next
  case (Structure fs)
  then obtain m where m: "n = Suc m" by (cases n) auto
  let ?ws = "concat (map (\<lambda>f. write_as_string f True) fs)"
  have le: "string_len f \<le> m" if "f \<in> set fs" for f
    using Structure.prems(2) m member_le_sum_list [of "string_len f" "map string_len fs"] that by auto
  have "repeat_parser (length (?ws @ CHR '')'' # rest)) (parse_signature N m False)
      (?ws @ CHR '')'' # rest) = (CHR '')'' # rest, map OSig fs)"
    by (rule repeat_parser_complete)
      (use Structure le length_fields_le [of fs] in \<open>auto simp: list_all_iff parse_signature_stop\<close>)
  then have "many N (parse_signature N m False) False False (?ws @ CHR '')'' # rest)
      = Some (CHR '')'' # rest, OSig (Structure fs))"
    using Structure.prems(1) by (simp add: many_eq list_finish_foldl)
  then show ?case
    using m by (simp add: parse_signature_Cons Let_def structure_p_eq)
qed (simp, (simp, rule parse_signature_simple, simp add: simple_sig.simps, simp)+)

lemma parse_signature_sound:
  "parse_signature N n False i = Some (r, x) \<Longrightarrow>
     \<exists>s. x = OSig s \<and> sig_wf s \<and> i = write_as_string s True @ r"
proof (induction n arbitrary: i r x)
  case (Suc n)
  let ?p = "parse_signature N n False"
  obtain c j where i: "i = c # j"
    using Suc.prems by (cases i) auto
  have dict: ?case if "dict_p N ?p False i = Some (r, x)"
    using that by (fastforce simp: dict_p_eq bind_eq_Some_conv dest!: Suc.IH)
  have str: ?case if "structure_p N ?p False i = Some (r, x)"
  proof -
    from that obtain r1 where r1: "i = CHR ''('' # r1" "many N ?p False False r1 = Some (CHR '')'' # r, x)"
      by (auto simp: structure_p_eq bind_eq_Some_conv)
    then obtain xs where xs: "repeat_parser (length r1) ?p r1 = (CHR '')'' # r, xs)" "xs \<noteq> []"
        "x = list_finish (foldl (list_push False) (OList SL_Unit) xs)"
      by (auto simp: many_eq split: prod.splits if_splits)
    obtain fs where fs: "xs = map OSig fs" "list_all sig_wf fs"
        "r1 = concat (map (\<lambda>f. write_as_string f True) fs) @ CHR '')'' # r"
      using repeat_parser_sound [OF Suc.IH xs(1)] by blast
    with xs r1 show ?thesis
      by (intro exI [of _ "Structure fs"]) (simp add: list_finish_foldl)
  qed
  show ?case
  proof (cases "simple_sig c")
    case (Some s)
    then show ?thesis
      using Suc.prems i simple_sig_char [OF Some] parse_signature_simple [OF Some, of "Suc n"] by auto
  next
    case None
    with Suc.prems i dict str show ?thesis
      by (fastforce simp: parse_signature_Cons Let_def bind_eq_Some_conv dest!: Suc.IH
          split: option.splits if_splits)
  qed
qed simp

text \<open>The outcome does not depend on the fuel once it exceeds the length of the input.\<close>

lemma parse_signature_fuel:
  assumes "length i \<le> n" "length i \<le> m"
  shows "parse_signature N n False i = parse_signature N m False i"
proof -
  have le: "parse_signature N m False i = Some (r, x)"
    if "length i \<le> m" and some: "parse_signature N n False i = Some (r, x)" for n m r x
  proof -
    obtain s where s: "x = OSig s" "sig_wf s" "i = write_as_string s True @ r"
      using parse_signature_sound [OF some] by blast
    then have "string_len s \<le> m"
      using that(1) string_len_write [of s] by simp
    with s show ?thesis by (simp add: parse_signature_complete)
  qed
  show ?thesis
  proof (cases "parse_signature N n False i")
    case None
    then show ?thesis
      using le [OF assms(1)] by (cases "parse_signature N m False i") auto
  next
    case (Some a)
    then show ?thesis
      using le [OF assms(2)] by (cases a) auto
  qed
qed

section \<open>The check-only mode\<close>

lemma parse_signature_check_sig:
  "parse_signature N n True i = Some (r, x) \<Longrightarrow> \<exists>s. x = OSig s"
proof (induction n arbitrary: i r x)
  case (Suc n)
  let ?p = "parse_signature N n True"
  obtain c j where i: "i = c # j"
    using Suc.prems by (cases i) auto
  have dict: ?case if "dict_p N ?p True i = Some (r, x)"
    using that by (fastforce simp: dict_p_eq bind_eq_Some_conv dest!: Suc.IH)
  have str: ?case if "structure_p N ?p True i = Some (r, x)"
    using that
    by (cases "repeat_parser (length (tl i)) ?p (tl i)")
      (auto simp: structure_p_eq bind_eq_Some_conv many_eq split: if_splits)
  show ?case
    using Suc.prems i dict str
    by (fastforce simp: parse_signature_Cons Let_def bind_eq_Some_conv dest!: Suc.IH
        split: option.splits if_splits)
qed simp

lemma many_check:
  assumes "\<And>i. map_option fst (p i) = map_option fst (q i)" "consuming p" "consuming q"
  shows "map_option fst (many N p True lvl i) = map_option fst (many N q False lvl i)"
  using repeat_parser_cong [of p q "length i" i, OF assms(1)] assms(2,3)
  by (auto simp: many_eq split: prod.splits)

lemma parse_signature_check:
  "map_option fst (parse_signature N n True i) = map_option fst (parse_signature N n False i)"
proof (induction n arbitrary: i)
  case (Suc n)
  let ?p = "parse_signature N n True" and ?q = "parse_signature N n False"
  have dict: "map_option fst (dict_p N ?p True i) = map_option fst (dict_p N ?q False i)"
    unfolding dict_p_eq
    by (intro map_fst_bind_same map_fst_bind [OF Suc.IH]) (simp add: map_fst_bind_same)
  have str: "map_option fst (structure_p N ?p True i) = map_option fst (structure_p N ?q False i)"
    unfolding structure_p_eq
    by (intro map_fst_bind_same map_fst_bind many_check Suc.IH) (simp_all add: map_fst_bind_same)
  have child: "map_option fst (Option.bind (?p j) (\<lambda>(r, x). Some (r, f x))) =
      map_option fst (Option.bind (?q j) (\<lambda>(r, x). Some (r, g x)))" for j f g
    by (intro map_fst_bind Suc.IH) simp
  show ?case
  proof (cases i)
    case (Cons c j)
    show ?thesis
      using dict str unfolding Cons parse_signature_Cons Let_def
      by (auto simp: child split: option.splits)
  qed simp
qed simp

section \<open>The accepted strings\<close>

lemma parse_eq: "parse N bytes chk =
    (if bytes = [] then Ok Unit
     else case many N (parse_signature N (Suc (length bytes)) chk) chk True bytes of
       Some (r, OSig s) \<Rightarrow> if r = [] then Ok s else Err InvalidSignature
     | _ \<Rightarrow> Err InvalidSignature)"
  by (auto simp: parse_def Let_def all_consuming alt_Cons alt_last pmap eof
      split: option.splits list.splits out.splits)

lemma many_top_complete:
  assumes "list_all sig_wf fs" "fs \<noteq> []" "length (concat (map (\<lambda>f. write_as_string f True) fs)) \<le> n"
  shows "many N (parse_signature N n False) False True (concat (map (\<lambda>f. write_as_string f True) fs))
    = Some ([], OSig (if length fs = 1 then hd fs else Structure fs))"
proof -
  let ?ws = "concat (map (\<lambda>f. write_as_string f True) fs)"
  have le: "string_len f \<le> n" if "f \<in> set fs" for f
    using assms(3) that member_le_sum_list [of "length (write_as_string f True)"
        "map (\<lambda>f. length (write_as_string f True)) fs"]
    by (auto simp: length_concat_map string_len_write)
  have "repeat_parser (length (?ws @ [])) (parse_signature N n False) (?ws @ []) = ([], map OSig fs)"
    by (rule repeat_parser_complete)
      (use assms le length_fields_le [of fs] in \<open>auto simp: list_all_iff parse_signature_complete\<close>)
  then show ?thesis
    using assms(2) by (simp add: many_eq list_finish_foldl)
qed

lemma repeat_parse_signature_sound:
  "repeat_parser k (parse_signature N n False) i = (r, xs) \<Longrightarrow>
     \<exists>fs. xs = map OSig fs \<and> list_all sig_wf fs \<and>
       i = concat (map (\<lambda>f. write_as_string f True) fs) @ r"
  by (rule repeat_parser_sound) (rule parse_signature_sound)

lemma parse_Ok_iff_fields: "bytes \<noteq> [] \<Longrightarrow> parse N bytes False = Ok s \<longleftrightarrow>
    (\<exists>fs. fs \<noteq> [] \<and> list_all sig_wf fs \<and> bytes = concat (map (\<lambda>f. write_as_string f True) fs) \<and>
      s = (if length fs = 1 then hd fs else Structure fs))"
proof
  let ?p = "parse_signature N (Suc (length bytes)) False"
  assume ne: "bytes \<noteq> []" and "parse N bytes False = Ok s"
  then have "many N ?p False True bytes = Some ([], OSig s)"
    by (auto simp: parse_eq split: option.splits out.splits if_splits)
  then obtain xs where xs: "repeat_parser (length bytes) ?p bytes = ([], xs)" "xs \<noteq> []"
      "OSig s = list_finish (foldl (list_push True) (OList SL_Unit) xs)"
    by (auto simp: many_eq split: prod.splits if_splits)
  obtain fs where "xs = map OSig fs" "list_all sig_wf fs"
      "bytes = concat (map (\<lambda>f. write_as_string f True) fs)"
    using repeat_parse_signature_sound [OF xs(1)] by auto
  with xs show "\<exists>fs. fs \<noteq> [] \<and> list_all sig_wf fs \<and>
      bytes = concat (map (\<lambda>f. write_as_string f True) fs) \<and>
      s = (if length fs = 1 then hd fs else Structure fs)"
    by (intro exI [of _ fs]) (simp add: list_finish_foldl)
next
  assume "bytes \<noteq> []" and "\<exists>fs. fs \<noteq> [] \<and> list_all sig_wf fs \<and>
      bytes = concat (map (\<lambda>f. write_as_string f True) fs) \<and>
      s = (if length fs = 1 then hd fs else Structure fs)"
  then show "parse N bytes False = Ok s"
    using many_top_complete by (auto simp: parse_eq)
qed

lemma parse_Ok_iff: "parse N bytes False = Ok s \<longleftrightarrow>
    (bytes = [] \<and> s = Unit) \<or> (sig_wf s \<and> bytes = to_string s) \<or>
    (\<exists>fs. s = Structure fs \<and> 2 \<le> length fs \<and> list_all sig_wf fs \<and> bytes = to_string_no_parens s)"
proof (cases "bytes = []")
  case True
  moreover have "\<not> (sig_wf s \<and> to_string s = [])"
    using write_as_string_nonempty by (auto simp: to_string_def)
  moreover have "to_string_no_parens (Structure fs) \<noteq> []" if "2 \<le> length fs" "list_all sig_wf fs" for fs
    using that write_as_string_nonempty by (cases fs) (auto simp: to_string_no_parens_def)
  ultimately show ?thesis by (fastforce simp: parse_eq)
next
  case False
  have "parse N bytes False = Ok s" if "sig_wf s" "bytes = to_string s"
    using that False parse_Ok_iff_fields [OF False, of s]
    by (auto simp: to_string_def intro!: exI [of _ "[s]"])
  moreover have "parse N bytes False = Ok s"
    if "s = Structure fs" "2 \<le> length fs" "list_all sig_wf fs" "bytes = to_string_no_parens s" for fs
    using that parse_Ok_iff_fields [OF False, of s]
    by (auto simp: to_string_no_parens_def intro!: exI [of _ fs])
  moreover have "(sig_wf s \<and> bytes = to_string s) \<or>
      (\<exists>fs. s = Structure fs \<and> 2 \<le> length fs \<and> list_all sig_wf fs \<and> bytes = to_string_no_parens s)"
    if ok: "parse N bytes False = Ok s"
  proof -
    obtain fs where fs: "fs \<noteq> []" "list_all sig_wf fs"
        "bytes = concat (map (\<lambda>f. write_as_string f True) fs)"
        "s = (if length fs = 1 then hd fs else Structure fs)"
      using ok parse_Ok_iff_fields [OF False] by blast
    then show ?thesis
      by (cases fs; cases "tl fs") (auto simp: to_string_def to_string_no_parens_def)
  qed
  ultimately show ?thesis using False by blast
qed

lemma parse_to_string:
  "sig_wf s \<Longrightarrow> parse N (to_string s) False = Ok s" "parse N [] False = Ok Unit"
  by (simp_all add: parse_Ok_iff)

lemma from_str_to_string: "sig_wf s \<or> s = Unit \<Longrightarrow> from_str N (to_string s) = Ok s"
  using parse_to_string by (auto simp: from_str_def) (simp add: to_string_def)

lemma validate_iff: "validate N bytes = Ok () \<longleftrightarrow> (\<exists>s. parse N bytes False = Ok s)"
proof (cases "bytes = []")
  case False
  let ?n = "Suc (length bytes)"
  have fst_eq: "map_option fst (many N (parse_signature N ?n True) True True bytes) =
      map_option fst (many N (parse_signature N ?n False) False True bytes)"
    by (rule many_check) (simp_all add: parse_signature_check)
  have sig: "\<exists>s. x = OSig s" if "many N (parse_signature N ?n True) True True bytes = Some (r, x)" for r x
    using that by (cases "repeat_parser (length bytes) (parse_signature N ?n True) bytes")
      (auto simp: many_eq split: if_splits)
  have sig': "\<exists>s. x = OSig s" if "many N (parse_signature N ?n False) False True bytes = Some (r, x)" for r x
  proof (cases "repeat_parser (length bytes) (parse_signature N ?n False) bytes")
    case (Pair r' xs)
    with that repeat_parse_signature_sound [OF Pair] show ?thesis
      by (auto simp: many_eq list_finish_foldl split: if_splits)
  qed
  have ok: "(\<exists>s. parse N bytes chk = Ok s) \<longleftrightarrow>
      map_option fst (many N (parse_signature N ?n chk) chk True bytes) = Some []"
    if "\<And>r x. many N (parse_signature N ?n chk) chk True bytes = Some (r, x) \<Longrightarrow> \<exists>s. x = OSig s" for chk
    using that False by (auto simp: parse_eq split: option.splits out.splits)
  have "(\<exists>s. parse N bytes True = Ok s) \<longleftrightarrow> (\<exists>s. parse N bytes False = Ok s)"
  proof -
    have "(\<exists>s. parse N bytes True = Ok s) \<longleftrightarrow>
        map_option fst (many N (parse_signature N ?n True) True True bytes) = Some []"
      by (rule ok) (rule sig)
    moreover have "(\<exists>s. parse N bytes False = Ok s) \<longleftrightarrow>
        map_option fst (many N (parse_signature N ?n False) False True bytes) = Some []"
      by (rule ok) (rule sig')
    ultimately show ?thesis using fst_eq by metis
  qed
  then show ?thesis
    by (simp add: validate_def bind_res_eq_Ok)
qed (simp add: validate_def parse_eq)

end

section \<open>A reference implementation of the interface\<close>

fun alt_ref :: "parser list \<Rightarrow> parser" where
  "alt_ref [] i = None"
| "alt_ref [p] i = p i"
| "alt_ref (p # ps) i = (case p i of Some r \<Rightarrow> Some r | None \<Rightarrow> alt_ref ps i)"

definition nom_ref :: nom where
  "nom_ref = \<lparr>
     tag = (\<lambda>t i. if prefix t i then Some (drop (length t) i, OBytes t) else None),
     eof = (\<lambda>i. if i = [] then Some ([], OBytes []) else None),
     alt = alt_ref,
     pmap = (\<lambda>p f i. map_option (apsnd f) (p i)),
     pair = (\<lambda>p q i. case p i of None \<Rightarrow> None | Some (r, x) \<Rightarrow> map_option (apsnd (OPair x)) (q r)),
     delimited = (\<lambda>p q s i. case p i of None \<Rightarrow> None
       | Some (r, _) \<Rightarrow> (case q r of None \<Rightarrow> None
         | Some (r', x) \<Rightarrow> map_option (apsnd (\<lambda>_. x)) (s r'))),
     many1_count = (\<lambda>p i. case repeat_parser (length i) p i of (r, xs) \<Rightarrow>
       if xs = [] then None else Some (r, OCount (length xs))),
     fold_many1 = (\<lambda>p init g i. case repeat_parser (length i) p i of (r, xs) \<Rightarrow>
       if xs = [] then None else Some (r, foldl g (init ()) xs)),
     all_consuming = (\<lambda>p i. case p i of Some ([], x) \<Rightarrow> Some ([], x) | _ \<Rightarrow> None)\<rparr>"

interpretation nr: nom_laws nom_ref
  by unfold_locales (auto simp: nom_ref_def split: option.split)

section \<open>Properties\<close>

text \<open>C9: The parser accepts exactly the empty string, the prints of well-formed signatures, and
  the sequences of at least two of them, which it reads as a structure without parentheses.\<close>

theorem signature_language:
  assumes "nom_laws N"
  shows "from_bytes N bytes = Ok s \<longleftrightarrow>
    (bytes = [] \<and> s = Unit) \<or> (sig_wf s \<and> bytes = to_string s) \<or>
    (\<exists>fs. s = Structure fs \<and> 2 \<le> length fs \<and> list_all sig_wf fs \<and> bytes = to_string_no_parens s)"
  using nom_laws.parse_Ok_iff [OF assms] by (simp add: from_bytes_def)

theorem signature_language_witness: "from_bytes nom_ref ''ys'' = Ok (Structure [U8, Str])"
  using signature_language [OF nr.nom_laws_axioms, of "''ys''" "Structure [U8, Str]"]
  by (simp add: to_string_no_parens_def)

text \<open>\<^verbatim>\<open>validate\<close>, which builds no signature, accepts what the parser accepts.\<close>

theorem signature_validate_agrees:
  assumes "nom_laws N"
  shows "validate N bytes = Ok () \<longleftrightarrow> (\<exists>s. from_bytes N bytes = Ok s)"
  using nom_laws.validate_iff [OF assms] by (simp add: from_bytes_def)

theorem signature_validate_agrees_witness: "validate nom_ref ''a{sv}'' = Ok ()"
proof -
  have "from_bytes nom_ref (to_string (Dict Str Variant)) = Ok (Dict Str Variant)"
    by (simp add: from_bytes_def nr.parse_to_string)
  then show ?thesis
    using signature_validate_agrees [OF nr.nom_laws_axioms, of "''a{sv}''"] by (auto simp: to_string_def)
qed

end
