(* ===== verification/Wire.thy ===== *)
theory Wire
  imports Signature_Parse
begin

text \<open>
  What the serializers and deserializers share: the padding arithmetic and integer casts of
  \<^verbatim>\<open>zvariant/src/utils.rs\<close>, the nesting limits of \<^verbatim>\<open>container_depths.rs\<close>, the error type of
  \<^verbatim>\<open>error.rs\<close>, and the interface of the \<^verbatim>\<open>endi\<close> crate that reads and writes integers in a
  given byte order.
\<close>

unbundle bit_operations_syntax

section \<open>Errors\<close>

datatype max_depth_exceeded = Structure_Depth | Array_Depth | Container_Depth

text \<open>The serde constructors of an \<^verbatim>\<open>Error::Message\<close>; their texts are not modelled.\<close>

datatype serde_msg = Invalid_length nat | Invalid_value | Invalid_type | Custom

datatype zerror =
    Message serde_msg
  | InputOutput
  | IncorrectType
  | Utf8
  | PaddingNot0 byte
  | UnknownFd
  | MissingFramingOffset
  | IncompatibleFormat signature format
  | SignatureMismatch signature string
  | OutOfBounds
  | MaxDepthExceeded max_depth_exceeded
  | SignatureParse sig_error
  | EmptyStructure

section \<open>Padding and casts\<close>

definition padding_for_n_bytes :: "u64 \<Rightarrow> u64 \<Rightarrow> u64" where
  "padding_for_n_bytes val align =
     (let len_rounded_up = ((val + align) - 1) AND NOT (align - 1) in len_rounded_up - val)"

text \<open>The padding at a position that is kept as a number, as the (de)serializers use it.\<close>

definition padding :: "nat \<Rightarrow> nat \<Rightarrow> nat" where
  "padding n align = unat (padding_for_n_bytes (word_of_nat n) (word_of_nat align))"

text \<open>\<^verbatim>\<open>usize_to_u32\<close> and \<^verbatim>\<open>usize_to_u8\<close> assert that the value fits.\<close>

definition usize_to_u32 :: "nat \<Rightarrow> ('e, u32) res" where
  "usize_to_u32 n = (if n \<le> 2 ^ 32 - 1 then Ok (word_of_nat n) else Panic)"

definition usize_to_u8 :: "nat \<Rightarrow> ('e, byte) res" where
  "usize_to_u8 n = (if n \<le> 255 then Ok (byte_of n) else Panic)"

text \<open>\<^verbatim>\<open>subslice\<close> for a range and for an open range.\<close>

definition subslice :: "'a list \<Rightarrow> nat \<Rightarrow> nat \<Rightarrow> (zerror, 'a list) res" where
  "subslice input a b =
     (if a \<le> b \<and> b \<le> length input then Ok (take (b - a) (drop a input)) else Err OutOfBounds)"

definition subslice_from :: "'a list \<Rightarrow> nat \<Rightarrow> (zerror, 'a list) res" where
  "subslice_from input a = (if a \<le> length input then Ok (drop a input) else Err OutOfBounds)"

definition ARRAY_ALIGNMENT_DBUS :: nat where "ARRAY_ALIGNMENT_DBUS = 4"
definition STRUCT_ALIGNMENT_DBUS :: nat where "STRUCT_ALIGNMENT_DBUS = 8"
definition DICT_ENTRY_ALIGNMENT_DBUS :: nat where "DICT_ENTRY_ALIGNMENT_DBUS = 8"

section \<open>Container depths\<close>

definition MAX_STRUCT_DEPTH :: nat where "MAX_STRUCT_DEPTH = 32"
definition MAX_ARRAY_DEPTH :: nat where "MAX_ARRAY_DEPTH = 32"
definition MAX_TOTAL_DEPTH :: nat where "MAX_TOTAL_DEPTH = 64"

text \<open>The counters are \<^verbatim>\<open>u8\<close>: an addition above 255 or a subtraction below 0 panics.\<close>

record depths =
  d_structure :: nat
  d_array :: nat
  d_variant :: nat
  d_maybe :: nat

definition no_depths :: depths where
  "no_depths = \<lparr>d_structure = 0, d_array = 0, d_variant = 0, d_maybe = 0\<rparr>"

definition check_depths :: "depths \<Rightarrow> (zerror, depths) res" where
  "check_depths d =
     (if MAX_STRUCT_DEPTH < d_structure d then Err (MaxDepthExceeded Structure_Depth)
      else if MAX_ARRAY_DEPTH < d_array d then Err (MaxDepthExceeded Array_Depth)
      else let total = d_structure d + d_array d + d_variant d + d_maybe d in
        if 255 < total then Panic
        else if MAX_TOTAL_DEPTH < total then Err (MaxDepthExceeded Container_Depth)
        else Ok d)"

definition inc_structure :: "depths \<Rightarrow> (zerror, depths) res" where
  "inc_structure d = (if 255 < d_structure d + 1 then Panic
     else check_depths (d\<lparr>d_structure := d_structure d + 1\<rparr>))"

definition dec_structure :: "depths \<Rightarrow> (zerror, depths) res" where
  "dec_structure d = (if d_structure d = 0 then Panic else Ok (d\<lparr>d_structure := d_structure d - 1\<rparr>))"

definition inc_array :: "depths \<Rightarrow> (zerror, depths) res" where
  "inc_array d = (if 255 < d_array d + 1 then Panic
     else check_depths (d\<lparr>d_array := d_array d + 1\<rparr>))"

definition dec_array :: "depths \<Rightarrow> (zerror, depths) res" where
  "dec_array d = (if d_array d = 0 then Panic else Ok (d\<lparr>d_array := d_array d - 1\<rparr>))"

definition inc_variant :: "depths \<Rightarrow> (zerror, depths) res" where
  "inc_variant d = (if 255 < d_variant d + 1 then Panic
     else check_depths (d\<lparr>d_variant := d_variant d + 1\<rparr>))"

definition inc_maybe :: "depths \<Rightarrow> (zerror, depths) res" where
  "inc_maybe d = (if 255 < d_maybe d + 1 then Panic
     else check_depths (d\<lparr>d_maybe := d_maybe d + 1\<rparr>))"

definition dec_maybe :: "depths \<Rightarrow> (zerror, depths) res" where
  "dec_maybe d = (if d_maybe d = 0 then Panic else Ok (d\<lparr>d_maybe := d_maybe d - 1\<rparr>))"

section \<open>The endi interface\<close>

datatype endian = Little | Big

text \<open>
  \<^verbatim>\<open>endi\<close> is not part of the repository: its writers and readers are the record \<open>E\<close>. What the
  code relies on is that a writer produces as many bytes as the integer has and that reading
  them back in the same byte order gives the integer again.
\<close>

record endi =
  write_u16 :: "endian \<Rightarrow> u16 \<Rightarrow> byte list"
  write_u32 :: "endian \<Rightarrow> u32 \<Rightarrow> byte list"
  write_u64 :: "endian \<Rightarrow> u64 \<Rightarrow> byte list"
  read_u16 :: "endian \<Rightarrow> byte list \<Rightarrow> u16"
  read_u32 :: "endian \<Rightarrow> byte list \<Rightarrow> u32"
  read_u64 :: "endian \<Rightarrow> byte list \<Rightarrow> u64"

locale endi_laws =
  fixes E :: endi
  assumes write_u16_length [simp]: "length (write_u16 E e w) = 2"
    and write_u32_length [simp]: "length (write_u32 E e x) = 4"
    and write_u64_length [simp]: "length (write_u64 E e y) = 8"
    and read_write_u16 [simp]: "read_u16 E e (write_u16 E e w) = w"
    and read_write_u32 [simp]: "read_u32 E e (write_u32 E e x) = x"
    and read_write_u64 [simp]: "read_u64 E e (write_u64 E e y) = y"

section \<open>Padding is minimal and reaches the alignment\<close>

lemma exp_dvd_64: "k < 64 \<Longrightarrow> (2 :: nat) ^ k dvd 2 ^ 64"
  by (rule le_imp_power_dvd) simp

lemma and_not_mask: "(x :: u64) AND NOT (mask k) = x - take_bit k x"
proof -
  have "x - take_bit k x = x AND NOT (take_bit k x)"
    by (rule disjunctive_diff_eq_and_not) (auto simp: bit_eq_iff bit_simps)
  also have "\<dots> = x AND NOT (mask k)"
    by (auto simp: bit_eq_iff bit_simps)
  finally show ?thesis by simp
qed

lemma padding_word: "padding_for_n_bytes v (2 ^ k) = mask k - take_bit k (v + mask k)"
proof -
  have mask: "(2 ^ k - 1 :: u64) = mask k"
    by (simp add: mask_eq_exp_minus_1)
  have sum: "(v + 2 ^ k) - 1 = v + mask k"
    by (simp flip: mask)
  show ?thesis
    unfolding padding_for_n_bytes_def Let_def mask and_not_mask sum by simp
qed

lemma unat_padding_word:
  assumes "k < 64"
  shows "unat (padding_for_n_bytes v (2 ^ k)) = (2 ^ k - 1) - (unat v + (2 ^ k - 1)) mod 2 ^ k"
proof -
  have mask: "unat (mask k :: u64) = 2 ^ k - 1"
  proof -
    have "uint (mask k :: u64) = 2 ^ k - 1"
      using assms uint_mask_eq [of k, where 'a = 64] by (simp add: mask_eq_exp_minus_1 [where 'a = int])
    then have "int (unat (mask k :: u64)) = int (2 ^ k - 1)"
      by (simp only: uint_nat of_nat_diff one_le_power one_le_numeral) simp
    then show ?thesis by (simp only: of_nat_eq_iff)
  qed
  have "unat (take_bit k (v + mask k)) = unat (v + mask k) mod 2 ^ k"
    by (subst unsigned_take_bit_eq) (simp add: take_bit_eq_mod)
  also have "\<dots> = (unat v + (2 ^ k - 1)) mod 2 ^ 64 mod 2 ^ k"
    by (simp add: unat_word_ariths mask)
  also have "\<dots> = (unat v + (2 ^ k - 1)) mod 2 ^ k"
    by (rule mod_mod_cancel [OF exp_dvd_64 [OF assms]])
  finally have tb: "unat (take_bit k (v + mask k)) = (unat v + (2 ^ k - 1)) mod 2 ^ k" .
  have "take_bit k (v + mask k) \<le> (mask k :: u64)"
    by (simp add: word_le_nat_alt tb mask less_Suc_eq_le [symmetric])
  then show ?thesis
    by (simp add: padding_word unat_sub mask tb)
qed

lemma minimal_padding:
  fixes a n :: nat
  assumes "0 < a"
  shows "(a - 1) - (n + (a - 1)) mod a = (a - n mod a) mod a"
proof (cases "n mod a = 0")
  case True
  then obtain q where "n = a * q" by (auto simp: mod_eq_0_iff_dvd dvd_def)
  then have "(n + (a - 1)) mod a = a - 1"
    using assms by (simp only: mod_mult_self4 mod_mult_self2 add.commute [of "a * q"]) simp
  with True show ?thesis by simp
next
  case False
  have "(n + (a - 1)) mod a = (n mod a + (a - 1)) mod a"
    by (simp add: mod_add_left_eq)
  also have "\<dots> = (n mod a - 1 + a) mod a"
    using False assms by (simp add: add.commute)
  also have "\<dots> = n mod a - 1"
    using assms by (simp add: less_imp_diff_less)
  finally show ?thesis
    using False assms by simp
qed

lemma least_padding:
  fixes a n p :: nat
  assumes "0 < a" "a dvd n + p"
  shows "(a - n mod a) mod a \<le> p"
proof (cases "n mod a = 0")
  case False
  have "a dvd n mod a + p"
    using assms(2) by (metis dvd_eq_mod_eq_0 mod_add_left_eq)
  then have "a \<le> n mod a + p"
    using False by (intro dvd_imp_le) auto
  then show ?thesis
    using False assms(1) by (simp add: le_diff_conv)
qed simp

lemma padding_eq:
  assumes "k < 64"
  shows "padding n (2 ^ k) = (2 ^ k - n mod 2 ^ k) mod 2 ^ k"
proof -
  have "unat (word_of_nat n :: u64) mod 2 ^ k = n mod 2 ^ k"
    using mod_mod_cancel [OF exp_dvd_64 [OF assms], of n] by (simp add: unsigned_of_nat take_bit_eq_mod)
  then have "padding n (2 ^ k) = (2 ^ k - 1) - (n + (2 ^ k - 1)) mod 2 ^ k"
    unfolding padding_def of_nat_power of_nat_numeral unat_padding_word [OF assms]
    by (metis mod_add_left_eq)
  also have "\<dots> = (2 ^ k - n mod 2 ^ k) mod 2 ^ k"
    by (rule minimal_padding) simp
  finally show ?thesis .
qed

lemma padding_numeral:
  "padding n 1 = 0" "padding n 2 = (2 - n mod 2) mod 2"
  "padding n 4 = (4 - n mod 4) mod 4" "padding n 8 = (8 - n mod 8) mod 8"
  using padding_eq [of 0 n] padding_eq [of 1 n] padding_eq [of 2 n] padding_eq [of 3 n] by simp_all

lemma padding_one [simp]: "padding n (Suc 0) = 0"
  using padding_numeral(1) by simp

text \<open>The bounds that the (de)serializers need at the alignments of the format.\<close>

lemma next_multiple:
  fixes a n :: nat
  assumes "0 < a"
  shows "(n + (a - n mod a) mod a) mod a = 0"
proof -
  have "n + (a - n mod a) = a + a * (n div a)"
    using mod_less_divisor [OF assms, of n] mult_div_mod_eq [of a n] by linarith
  then have "(n + (a - n mod a)) mod a = 0" by simp
  then show ?thesis by (simp only: mod_add_right_eq)
qed

lemma padding_eq_mod: "a \<in> {1, 2, 4, 8} \<Longrightarrow> padding n a = (a - n mod a) mod a"
  by (auto simp: padding_numeral)

lemma padding_bounds:
  assumes "a \<in> {1, 2, 4, 8}"
  shows "padding n a < 8" "padding n a < a" "(n + padding n a) mod a = 0"
proof -
  have pos: "0 < a" using assms by auto
  show "(n + padding n a) mod a = 0"
    unfolding padding_eq_mod [OF assms] by (rule next_multiple [OF pos])
  show lt: "padding n a < a"
    using pos by (simp add: padding_eq_mod [OF assms])
  show "padding n a < 8" using lt assms by auto
qed

lemma padding_0: "a \<in> {1, 2, 4, 8} \<Longrightarrow> n mod a = 0 \<Longrightarrow> padding n a = 0"
  by (auto simp: padding_numeral)

lemma padding_idem [simp]: "a \<in> {1, 2, 4, 8} \<Longrightarrow> padding (n + padding n a) a = 0"
  by (rule padding_0) (auto simp: padding_bounds)

section \<open>Depth counters\<close>

text \<open>The counters of a container that the checks have accepted.\<close>

definition depths_ok :: "depths \<Rightarrow> bool" where
  "depths_ok d \<longleftrightarrow> d_structure d \<le> MAX_STRUCT_DEPTH \<and> d_array d \<le> MAX_ARRAY_DEPTH \<and>
     d_structure d + d_array d + d_variant d + d_maybe d \<le> MAX_TOTAL_DEPTH"

lemmas depth_defs = depths_ok_def check_depths_def MAX_STRUCT_DEPTH_def MAX_ARRAY_DEPTH_def
  MAX_TOTAL_DEPTH_def Let_def

lemma depths_ok_no_depths [simp]: "depths_ok no_depths"
  by (simp add: depth_defs no_depths_def)

lemma check_depths_Ok: "check_depths d = Ok d' \<longleftrightarrow> d' = d \<and> depths_ok d"
  by (auto simp: depth_defs)

lemma inc_depths_Ok:
  "inc_structure d = Ok d' \<Longrightarrow> depths_ok d' \<and> d' = d\<lparr>d_structure := d_structure d + 1\<rparr>"
  "inc_array d = Ok d' \<Longrightarrow> depths_ok d' \<and> d' = d\<lparr>d_array := d_array d + 1\<rparr>"
  "inc_variant d = Ok d' \<Longrightarrow> depths_ok d' \<and> d' = d\<lparr>d_variant := d_variant d + 1\<rparr>"
  "inc_maybe d = Ok d' \<Longrightarrow> depths_ok d' \<and> d' = d\<lparr>d_maybe := d_maybe d + 1\<rparr>"
  by (auto simp: inc_structure_def inc_array_def inc_variant_def inc_maybe_def check_depths_Ok
      split: if_splits)

lemma check_depths_cases:
  assumes "d_structure d + d_array d + d_variant d + d_maybe d \<le> 255"
  shows "(\<exists>d'. check_depths d = Ok d' \<and> depths_ok d') \<or> (\<exists>m. check_depths d = Err (MaxDepthExceeded m))"
proof (cases "check_depths d")
  case (Err e)
  then show ?thesis by (auto simp: check_depths_def Let_def split: if_splits)
next
  case Panic
  then show ?thesis using assms by (auto simp: check_depths_def Let_def split: if_splits)
qed (auto simp: check_depths_Ok)

lemma inc_depths_no_panic:
  assumes "depths_ok d"
  shows "inc_structure d \<noteq> Panic" "inc_array d \<noteq> Panic" "inc_variant d \<noteq> Panic" "inc_maybe d \<noteq> Panic"
  using assms by (auto simp: inc_structure_def inc_array_def inc_variant_def inc_maybe_def depth_defs)

lemma dec_inc_depths:
  "inc_structure d = Ok d' \<Longrightarrow> dec_structure d' = Ok d"
  "inc_array d = Ok d' \<Longrightarrow> dec_array d' = Ok d"
  by (auto simp: dec_structure_def dec_array_def dest!: inc_depths_Ok)

section \<open>A reference implementation of the endi interface\<close>

fun nat_bytes :: "nat \<Rightarrow> nat \<Rightarrow> byte list" where
  "nat_bytes 0 n = []"
| "nat_bytes (Suc k) n = byte_of (n mod 256) # nat_bytes k (n div 256)"

fun bytes_nat :: "byte list \<Rightarrow> nat" where
  "bytes_nat [] = 0"
| "bytes_nat (b # bs) = code b + 256 * bytes_nat bs"

lemma length_nat_bytes [simp]: "length (nat_bytes k n) = k"
  by (induction k arbitrary: n) auto

lemma bytes_nat_nat_bytes: "bytes_nat (nat_bytes k n) = n mod 256 ^ k"
  by (induction k arbitrary: n) (auto simp: mod_mult2_eq)

definition byte_order :: "endian \<Rightarrow> byte list \<Rightarrow> byte list" where
  "byte_order e bs = (case e of Little \<Rightarrow> bs | Big \<Rightarrow> rev bs)"

lemma byte_order_simps [simp]:
  "length (byte_order e bs) = length bs" "byte_order e (byte_order e bs) = bs"
  by (auto simp: byte_order_def split: endian.splits)

definition endi_ref :: endi where
  "endi_ref = \<lparr>
     write_u16 = (\<lambda>e w. byte_order e (nat_bytes 2 (unat w))),
     write_u32 = (\<lambda>e w. byte_order e (nat_bytes 4 (unat w))),
     write_u64 = (\<lambda>e w. byte_order e (nat_bytes 8 (unat w))),
     read_u16 = (\<lambda>e bs. word_of_nat (bytes_nat (byte_order e bs))),
     read_u32 = (\<lambda>e bs. word_of_nat (bytes_nat (byte_order e bs))),
     read_u64 = (\<lambda>e bs. word_of_nat (bytes_nat (byte_order e bs)))\<rparr>"

lemma unat_mod_bytes:
  "unat (w :: u16) mod 256 ^ 2 = unat w" "unat (x :: u32) mod 256 ^ 4 = unat x"
  "unat (y :: u64) mod 256 ^ 8 = unat y"
  using unsigned_less [of w, where 'a = nat] unsigned_less [of x, where 'a = nat]
    unsigned_less [of y, where 'a = nat] by simp_all

interpretation er: endi_laws endi_ref
  by unfold_locales (simp_all add: endi_ref_def bytes_nat_nat_bytes unat_mod_bytes del: power_numeral)

section \<open>Properties\<close>

text \<open>The wrapping 64-bit arithmetic of \<^verbatim>\<open>padding_for_n_bytes\<close> computes the least number of
  bytes that takes a position to a multiple of a power of two.\<close>

theorem padding_least:
  assumes "k < 64"
  shows "unat (padding_for_n_bytes v (2 ^ k)) = (LEAST p. 2 ^ k dvd unat v + p)"
proof -
  let ?p = "(2 ^ k - unat v mod 2 ^ k) mod 2 ^ k"
  have "unat (padding_for_n_bytes v (2 ^ k)) = ?p"
    using unat_padding_word [OF assms, of v] minimal_padding [of "2 ^ k" "unat v"] by simp
  moreover have "(LEAST p. 2 ^ k dvd unat v + p) = ?p"
    by (rule Least_equality) (use next_multiple [of "2 ^ k" "unat v"] least_padding in \<open>auto simp: mod_eq_0_iff_dvd\<close>)
  ultimately show ?thesis by simp
qed

theorem padding_least_witness: "unat (padding_for_n_bytes 13 (2 ^ 3)) = (LEAST p. 2 ^ 3 dvd unat (13 :: u64) + p)"
  by (rule padding_least) simp

text \<open>Within the limits the depth counters never overflow: entering a container either
  stays within the limits or is refused with an error, and leaving it restores the counters.\<close>

theorem depth_counters_safe:
  assumes "depths_ok d" "inc \<in> {inc_structure, inc_array, inc_variant, inc_maybe}"
  shows "(\<exists>d'. inc d = Ok d' \<and> depths_ok d') \<or> (\<exists>m. inc d = Err (MaxDepthExceeded m))"
proof -
  have "d_structure d + d_array d + d_variant d + d_maybe d \<le> 64"
    using assms(1) by (simp add: depths_ok_def MAX_TOTAL_DEPTH_def)
  then show ?thesis
    using assms(2) check_depths_cases [of "d\<lparr>d_structure := Suc (d_structure d)\<rparr>"]
      check_depths_cases [of "d\<lparr>d_array := Suc (d_array d)\<rparr>"]
      check_depths_cases [of "d\<lparr>d_variant := Suc (d_variant d)\<rparr>"]
      check_depths_cases [of "d\<lparr>d_maybe := Suc (d_maybe d)\<rparr>"]
    by (auto simp: inc_structure_def inc_array_def inc_variant_def inc_maybe_def)
qed

theorem depth_counters_safe_witness: "\<exists>d'. inc_array no_depths = Ok d' \<and> depths_ok d'"
  using depth_counters_safe [of no_depths inc_array]
  by (simp add: inc_array_def depth_defs no_depths_def)

end
