(* ===== verification/Values.thy ===== *)
theory Values
  imports Wire
begin

text \<open>
  Dynamic values, \<^verbatim>\<open>zvariant/src/value.rs\<close>, with the containers of \<^verbatim>\<open>array.rs\<close>, \<^verbatim>\<open>dict.rs\<close>,
  \<^verbatim>\<open>structure.rs\<close> and \<^verbatim>\<open>maybe.rs\<close>: their signatures, their constructors and checked updates, and
  the order on values that the dictionary is kept by.

  The containers keep their elements and their full signature. A dictionary is a
  \<^verbatim>\<open>BTreeMap\<close>: the list of its entries in key order. A float is its bits.
\<close>

section \<open>Definitions\<close>

datatype zvalue =
    U8 byte | Bool bool | I16 u16 | U16 u16 | I32 u32 | U32 u32 | I64 u64 | U64 u64 | F64 u64
  | Str string | Signature signature | ObjectPath string
  | Value zvalue
  | Array "zvalue list" signature
  | Dict "(zvalue \<times> zvalue) list" signature
  | Structure "zvalue list" signature
  | Maybe "zvalue option" signature
  | Fd u32

fun value_signature :: "zvalue \<Rightarrow> signature" where
  "value_signature (U8 _) = signature.U8"
| "value_signature (Bool _) = signature.Bool"
| "value_signature (I16 _) = signature.I16"
| "value_signature (U16 _) = signature.U16"
| "value_signature (I32 _) = signature.I32"
| "value_signature (U32 _) = signature.U32"
| "value_signature (I64 _) = signature.I64"
| "value_signature (U64 _) = signature.U64"
| "value_signature (F64 _) = signature.F64"
| "value_signature (Str _) = signature.Str"
| "value_signature (Signature _) = signature.Signature"
| "value_signature (ObjectPath _) = signature.ObjectPath"
| "value_signature (Value _) = signature.Variant"
| "value_signature (Array _ s) = s"
| "value_signature (Dict _ s) = s"
| "value_signature (Structure _ s) = s"
| "value_signature (Maybe _ s) = s"
| "value_signature (Fd _) = signature.Fd"

subsection \<open>Arrays\<close>

definition array_new :: "signature \<Rightarrow> zvalue list \<times> signature" where
  "array_new element_signature = ([], signature.Array element_signature)"

definition array_new_full_signature :: "signature \<Rightarrow> (zerror, zvalue list \<times> signature) res" where
  "array_new_full_signature s = (case s of signature.Array _ \<Rightarrow> Ok ([], s) | _ \<Rightarrow> Panic)"

definition array_append :: "zvalue list \<times> signature \<Rightarrow> zvalue \<Rightarrow> (zerror, zvalue list \<times> signature) res" where
  "array_append a element =
     (case snd a of
        signature.Array child \<Rightarrow>
          if \<not> sig_eq (value_signature element) child
          then Err (SignatureMismatch (value_signature element) (to_string child))
          else Ok (fst a @ [element], snd a)
      | _ \<Rightarrow> Panic)"

definition array_element_signature :: "zvalue list \<times> signature \<Rightarrow> (zerror, signature) res" where
  "array_element_signature a = (case snd a of signature.Array child \<Rightarrow> Ok child | _ \<Rightarrow> Panic)"

subsection \<open>Structures\<close>

text \<open>A \<^verbatim>\<open>StructureBuilder\<close> is the list of its fields.\<close>

definition append_field :: "zvalue list \<Rightarrow> zvalue \<Rightarrow> zvalue list" where
  "append_field flds field = flds @ [field]"

definition build :: "zvalue list \<Rightarrow> (zerror, zvalue list \<times> signature) res" where
  "build flds =
     (if flds = [] then Err EmptyStructure
      else Ok (flds, signature.Structure (map value_signature flds)))"

definition build_with_signature :: "zvalue list \<Rightarrow> signature \<Rightarrow> zvalue list \<times> signature" where
  "build_with_signature flds s = (flds, s)"

subsection \<open>Maybes\<close>

definition maybe_just :: "zvalue \<Rightarrow> zvalue option \<times> signature" where
  "maybe_just v = (Some v, signature.Maybe (value_signature v))"

definition maybe_nothing :: "signature \<Rightarrow> zvalue option \<times> signature" where
  "maybe_nothing child = (None, signature.Maybe child)"

subsection \<open>The order on values\<close>

definition cmp_int :: "int \<Rightarrow> int \<Rightarrow> ordering" where
  "cmp_int a b = (if a < b then Less else if a = b then Equal else Greater)"

fun cmp_bytes :: "byte list \<Rightarrow> byte list \<Rightarrow> ordering" where
  "cmp_bytes [] [] = Equal"
| "cmp_bytes [] (_ # _) = Less"
| "cmp_bytes (_ # _) [] = Greater"
| "cmp_bytes (a # as) (b # bs) =
     (case cmp_int (int (code a)) (int (code b)) of Equal \<Rightarrow> cmp_bytes as bs | ord \<Rightarrow> ord)"

text \<open>
  \<^verbatim>\<open>f64::partial_cmp\<close> and \<^verbatim>\<open>f64::total_cmp\<close> on the bits of a double: sign, 11 bits of exponent,
  52 bits of mantissa.
\<close>

definition f64_magnitude :: "u64 \<Rightarrow> nat" where
  "f64_magnitude x = unat x mod 2 ^ 63"

definition f64_negative :: "u64 \<Rightarrow> bool" where
  "f64_negative x \<longleftrightarrow> 2 ^ 63 \<le> unat x"

definition f64_is_nan :: "u64 \<Rightarrow> bool" where
  "f64_is_nan x \<longleftrightarrow> 2047 * 2 ^ 52 < f64_magnitude x"

definition f64_key :: "u64 \<Rightarrow> int" where
  "f64_key x = (if f64_negative x then - int (f64_magnitude x) else int (f64_magnitude x))"

definition f64_partial_cmp :: "u64 \<Rightarrow> u64 \<Rightarrow> ordering option" where
  "f64_partial_cmp x y =
     (if f64_is_nan x \<or> f64_is_nan y then None else Some (cmp_int (f64_key x) (f64_key y)))"

definition f64_total_cmp :: "u64 \<Rightarrow> u64 \<Rightarrow> ordering" where
  "f64_total_cmp x y =
     (let key = (\<lambda>z. if f64_negative z then - int (f64_magnitude z) - 1 else int (f64_magnitude z))
      in cmp_int (key x) (key y))"

text \<open>The position of a variant in the declaration of \<^verbatim>\<open>enum Value\<close>.\<close>

fun discriminant :: "zvalue \<Rightarrow> int" where
  "discriminant (U8 _) = 0" | "discriminant (Bool _) = 1" | "discriminant (I16 _) = 2"
| "discriminant (U16 _) = 3" | "discriminant (I32 _) = 4" | "discriminant (U32 _) = 5"
| "discriminant (I64 _) = 6" | "discriminant (U64 _) = 7" | "discriminant (F64 _) = 8"
| "discriminant (Str _) = 9" | "discriminant (Signature _) = 10" | "discriminant (ObjectPath _) = 11"
| "discriminant (Value _) = 12" | "discriminant (Array _ _) = 13" | "discriminant (Dict _ _) = 14"
| "discriminant (Structure _ _) = 15" | "discriminant (Maybe _ _) = 16" | "discriminant (Fd _) = 17"

definition cmp_discriminant :: "zvalue \<Rightarrow> zvalue \<Rightarrow> ordering option" where
  "cmp_discriminant a b = Some (cmp_int (discriminant a) (discriminant b))"

text \<open>The lexicographic step of the derived comparisons.\<close>

definition then_cmp :: "ordering option \<Rightarrow> ordering option \<Rightarrow> ordering option" where
  "then_cmp c d = (case c of Some Equal \<Rightarrow> d | _ \<Rightarrow> c)"

text \<open>
  \<^verbatim>\<open>derive(PartialOrd)\<close> on \<^verbatim>\<open>Value\<close>, \<^verbatim>\<open>Array\<close>, \<^verbatim>\<open>Dict\<close>, \<^verbatim>\<open>Structure\<close> and \<^verbatim>\<open>Maybe\<close>; \<open>partial_cmp_list\<close>
  and \<open>partial_cmp_entries\<close> compare the elements of a vector and the entries of a map.
\<close>

function (sequential) partial_cmp :: "zvalue \<Rightarrow> zvalue \<Rightarrow> ordering option"
  and partial_cmp_list :: "zvalue list \<Rightarrow> zvalue list \<Rightarrow> ordering option"
  and partial_cmp_entries :: "(zvalue \<times> zvalue) list \<Rightarrow> (zvalue \<times> zvalue) list \<Rightarrow> ordering option" where
  "partial_cmp (U8 a) v = (case v of U8 b \<Rightarrow> Some (cmp_int (int (code a)) (int (code b)))
     | _ \<Rightarrow> cmp_discriminant (U8 a) v)"
| "partial_cmp (Bool a) v = (case v of Bool b \<Rightarrow> Some (cmp_int (of_bool a) (of_bool b))
     | _ \<Rightarrow> cmp_discriminant (Bool a) v)"
| "partial_cmp (I16 a) v = (case v of I16 b \<Rightarrow> Some (cmp_int (sint a) (sint b))
     | _ \<Rightarrow> cmp_discriminant (I16 a) v)"
| "partial_cmp (U16 a) v = (case v of U16 b \<Rightarrow> Some (cmp_int (uint a) (uint b))
     | _ \<Rightarrow> cmp_discriminant (U16 a) v)"
| "partial_cmp (I32 a) v = (case v of I32 b \<Rightarrow> Some (cmp_int (sint a) (sint b))
     | _ \<Rightarrow> cmp_discriminant (I32 a) v)"
| "partial_cmp (U32 a) v = (case v of U32 b \<Rightarrow> Some (cmp_int (uint a) (uint b))
     | _ \<Rightarrow> cmp_discriminant (U32 a) v)"
| "partial_cmp (I64 a) v = (case v of I64 b \<Rightarrow> Some (cmp_int (sint a) (sint b))
     | _ \<Rightarrow> cmp_discriminant (I64 a) v)"
| "partial_cmp (U64 a) v = (case v of U64 b \<Rightarrow> Some (cmp_int (uint a) (uint b))
     | _ \<Rightarrow> cmp_discriminant (U64 a) v)"
| "partial_cmp (F64 a) v = (case v of F64 b \<Rightarrow> f64_partial_cmp a b
     | _ \<Rightarrow> cmp_discriminant (F64 a) v)"
| "partial_cmp (Str a) v = (case v of Str b \<Rightarrow> Some (cmp_bytes a b)
     | _ \<Rightarrow> cmp_discriminant (Str a) v)"
| "partial_cmp (Signature a) v = (case v of Signature b \<Rightarrow> Some (sig_cmp a b)
     | _ \<Rightarrow> cmp_discriminant (Signature a) v)"
| "partial_cmp (ObjectPath a) v = (case v of ObjectPath b \<Rightarrow> Some (cmp_bytes a b)
     | _ \<Rightarrow> cmp_discriminant (ObjectPath a) v)"
| "partial_cmp (Value a) v = (case v of Value b \<Rightarrow> partial_cmp a b
     | _ \<Rightarrow> cmp_discriminant (Value a) v)"
| "partial_cmp (Array as s) v = (case v of
       Array bs t \<Rightarrow> then_cmp (partial_cmp_list as bs) (Some (sig_cmp s t))
     | _ \<Rightarrow> cmp_discriminant (Array as s) v)"
| "partial_cmp (Dict as s) v = (case v of
       Dict bs t \<Rightarrow> then_cmp (partial_cmp_entries as bs) (Some (sig_cmp s t))
     | _ \<Rightarrow> cmp_discriminant (Dict as s) v)"
| "partial_cmp (Structure as s) v = (case v of
       Structure bs t \<Rightarrow> then_cmp (partial_cmp_list as bs) (Some (sig_cmp s t))
     | _ \<Rightarrow> cmp_discriminant (Structure as s) v)"
| "partial_cmp (Maybe x s) v = (case v of
       Maybe y t \<Rightarrow> then_cmp
         (case x of
            None \<Rightarrow> (case y of None \<Rightarrow> Some Equal | Some _ \<Rightarrow> Some Less)
          | Some a \<Rightarrow> (case y of None \<Rightarrow> Some Greater | Some b \<Rightarrow> partial_cmp a b))
         (Some (sig_cmp s t))
     | _ \<Rightarrow> cmp_discriminant (Maybe x s) v)"
| "partial_cmp (Fd a) v = (case v of Fd b \<Rightarrow> Some (cmp_int (sint a) (sint b))
     | _ \<Rightarrow> cmp_discriminant (Fd a) v)"
| "partial_cmp_list [] bs = (case bs of [] \<Rightarrow> Some Equal | _ \<Rightarrow> Some Less)"
| "partial_cmp_list (a # as) bs = (case bs of [] \<Rightarrow> Some Greater
     | b # bs' \<Rightarrow> then_cmp (partial_cmp a b) (partial_cmp_list as bs'))"
| "partial_cmp_entries [] bs = (case bs of [] \<Rightarrow> Some Equal | _ \<Rightarrow> Some Less)"
| "partial_cmp_entries ((k, x) # as) bs = (case bs of [] \<Rightarrow> Some Greater
     | (l, y) # bs' \<Rightarrow> then_cmp (then_cmp (partial_cmp k l) (partial_cmp x y))
         (partial_cmp_entries as bs'))"
  by pat_completeness auto
termination
  by (relation "measure (case_sum (\<lambda>p. size (fst p))
      (case_sum (\<lambda>p. size_list size (fst p)) (\<lambda>p. size_list (size_prod size size) (fst p))))") auto

text \<open>\<^verbatim>\<open>Ord for Value\<close>: \<^verbatim>\<open>partial_cmp\<close>, or the total order of two floats, or \<^verbatim>\<open>unreachable!\<close>.\<close>

definition value_cmp :: "zvalue \<Rightarrow> zvalue \<Rightarrow> ('e, ordering) res" where
  "value_cmp a b =
     (case partial_cmp a b of
        Some ord \<Rightarrow> Ok ord
      | None \<Rightarrow> (case (a, b) of (F64 x, F64 y) \<Rightarrow> Ok (f64_total_cmp x y) | _ \<Rightarrow> Panic))"

subsection \<open>Dictionaries\<close>

text \<open>\<^verbatim>\<open>BTreeMap::insert\<close>: an entry with an equal key keeps its key and gets the new value.\<close>

fun btree_insert :: "(zvalue \<times> zvalue) list \<Rightarrow> zvalue \<Rightarrow> zvalue \<Rightarrow> ('e, (zvalue \<times> zvalue) list) res" where
  "btree_insert [] k v = Ok [(k, v)]"
| "btree_insert ((l, w) # m) k v =
     bind_res (value_cmp k l) (\<lambda>ord. case ord of
       Less \<Rightarrow> Ok ((k, v) # (l, w) # m)
     | Equal \<Rightarrow> Ok ((l, v) # m)
     | Greater \<Rightarrow> bind_res (btree_insert m k v) (\<lambda>m'. Ok ((l, w) # m')))"

definition dict_new :: "signature \<Rightarrow> signature \<Rightarrow> (zvalue \<times> zvalue) list \<times> signature" where
  "dict_new key_sig value_sig = ([], signature.Dict key_sig value_sig)"

definition dict_new_full_signature ::
  "signature \<Rightarrow> (zerror, (zvalue \<times> zvalue) list \<times> signature) res" where
  "dict_new_full_signature s = (case s of signature.Dict _ _ \<Rightarrow> Ok ([], s) | _ \<Rightarrow> Panic)"

definition dict_append ::
  "(zvalue \<times> zvalue) list \<times> signature \<Rightarrow> zvalue \<Rightarrow> zvalue \<Rightarrow>
     (zerror, (zvalue \<times> zvalue) list \<times> signature) res" where
  "dict_append d key val =
     (case snd d of
        signature.Dict key_sig value_sig \<Rightarrow>
          if \<not> sig_eq (value_signature key) key_sig
          then Err (SignatureMismatch (value_signature key) (to_string key_sig))
          else if \<not> sig_eq (value_signature val) value_sig
          then Err (SignatureMismatch (value_signature val) (to_string value_sig))
          else bind_res (btree_insert (fst d) key val) (\<lambda>m. Ok (m, snd d))
      | _ \<Rightarrow> Panic)"

text \<open>\<^verbatim>\<open>map.get(&key)\<close>, the lookup of \<^verbatim>\<open>Dict::get\<close>.\<close>

fun btree_get :: "(zvalue \<times> zvalue) list \<Rightarrow> zvalue \<Rightarrow> ('e, zvalue option) res" where
  "btree_get [] k = Ok None"
| "btree_get ((l, w) # m) k =
     bind_res (value_cmp k l) (\<lambda>ord. case ord of
       Less \<Rightarrow> Ok None | Equal \<Rightarrow> Ok (Some w) | Greater \<Rightarrow> btree_get m k)"

section \<open>The type invariant\<close>

text \<open>
  What the constructors of the containers keep: the elements have the signatures that the
  signature of the container names.
\<close>

fun value_ok :: "zvalue \<Rightarrow> bool" where
  "value_ok (Value v) = value_ok v"
| "value_ok (Array es s) =
     (\<exists>c. s = signature.Array c \<and> list_all (\<lambda>e. value_ok e \<and> value_signature e = c) es)"
| "value_ok (Dict m s) =
     (\<exists>k x. s = signature.Dict k x \<and>
        list_all (\<lambda>(a, b). value_ok a \<and> value_signature a = k \<and> value_ok b \<and> value_signature b = x) m)"
| "value_ok (Structure fs s) =
     (fs \<noteq> [] \<and> s = signature.Structure (map value_signature fs) \<and> list_all value_ok fs)"
| "value_ok (Maybe x s) =
     (\<exists>c. s = signature.Maybe c \<and> pred_option (\<lambda>v. value_ok v \<and> value_signature v = c) x)"
| "value_ok _ = True"

lemma array_append_Ok:
  "array_append (es, s) e = Ok (es', s') \<longleftrightarrow>
     (\<exists>c. s = signature.Array c \<and> value_signature e = c \<and> es' = es @ [e] \<and> s' = s)"
  by (auto simp: array_append_def sig_eq_iff split: signature.splits)

lemma array_append_ok:
  "value_ok (Array es s) \<Longrightarrow> value_ok e \<Longrightarrow> array_append (es, s) e = Ok (es', s') \<Longrightarrow>
     value_ok (Array es' s')"
  by (auto simp: array_append_Ok)

lemma array_append_no_panic: "value_ok (Array es s) \<Longrightarrow> array_append (es, s) e \<noteq> Panic"
  by (auto simp: array_append_def split: if_splits)

lemma btree_insert_entries:
  "btree_insert m k v = Ok m' \<Longrightarrow>
     list_all (\<lambda>(a, b). P a \<and> Q b) m \<Longrightarrow> P k \<Longrightarrow> Q v \<Longrightarrow> list_all (\<lambda>(a, b). P a \<and> Q b) m'"
  by (induction m k v arbitrary: m' rule: btree_insert.induct) (auto split: ordering.splits)

lemma dict_append_ok:
  assumes "value_ok (Dict m s)" "value_ok k" "value_ok v" "dict_append (m, s) k v = Ok (m', s')"
  shows "value_ok (Dict m' s')"
proof -
  obtain ks vs where s: "s = signature.Dict ks vs"
    and all: "list_all (\<lambda>(a, b). (value_ok a \<and> value_signature a = ks) \<and>
      (value_ok b \<and> value_signature b = vs)) m"
    using assms(1) by (auto simp: list_all_iff)
  then have ins: "btree_insert m k v = (Ok m' :: (zerror, _) res)" "s' = s"
      "value_signature k = ks" "value_signature v = vs"
    using assms(4) by (auto simp: dict_append_def sig_eq_iff split: if_splits)
  show ?thesis
    using btree_insert_entries [OF ins(1) all] assms(2,3) s ins(2-4) by (auto simp: list_all_iff)
qed

lemma build_ok: "list_all value_ok fs \<Longrightarrow> build fs = Ok (fs', s) \<Longrightarrow> value_ok (Structure fs' s)"
  by (auto simp: build_def split: if_splits)

section \<open>Dictionary lookup\<close>

text \<open>A lookup of the inserted key finds the inserted value.\<close>

lemma btree_get_insert:
  "value_cmp k k = (Ok Equal :: ('e, ordering) res) \<Longrightarrow> btree_insert m k v = (Ok m' :: ('e, _) res) \<Longrightarrow>
     btree_get m' k = (Ok (Some v) :: ('e, _) res)"
  by (induction m k v arbitrary: m' rule: btree_insert.induct) (auto split: ordering.splits)

fun nan_free :: "zvalue \<Rightarrow> bool" where
  "nan_free (F64 x) = (\<not> f64_is_nan x)"
| "nan_free (Value v) = nan_free v"
| "nan_free (Array es s) = list_all nan_free es"
| "nan_free (Dict m s) = list_all (\<lambda>(a, b). nan_free a \<and> nan_free b) m"
| "nan_free (Structure fs s) = list_all nan_free fs"
| "nan_free (Maybe x s) = pred_option nan_free x"
| "nan_free _ = True"

lemma cmp_int_refl [simp]: "cmp_int a a = Equal"
  by (simp add: cmp_int_def)

lemma cmp_bytes_refl [simp]: "cmp_bytes a a = Equal"
  by (induction a) auto

lemma partial_cmp_refl: "nan_free v \<Longrightarrow> partial_cmp v v = Some Equal"
proof (induction v)
  case (Array es s)
  then have "partial_cmp_list es es = Some Equal"
    by (induction es) (auto simp: then_cmp_def)
  then show ?case by (simp add: then_cmp_def sig_cmp_refl)
next
  case (Structure es s)
  then have "partial_cmp_list es es = Some Equal"
    by (induction es) (auto simp: then_cmp_def)
  then show ?case by (simp add: then_cmp_def sig_cmp_refl)
next
  case (Dict m s)
  then have "partial_cmp_entries m m = Some Equal"
    by (induction m) (fastforce simp: then_cmp_def)+
  then show ?case by (simp add: then_cmp_def sig_cmp_refl)
next
  case (Maybe x s)
  then show ?case by (cases x) (auto simp: then_cmp_def sig_cmp_refl)
qed (auto simp: f64_partial_cmp_def sig_cmp_refl)

lemma value_cmp_refl: "nan_free v \<or> (\<exists>x. v = F64 x) \<Longrightarrow> value_cmp v v = Ok Equal"
  by (auto simp: value_cmp_def partial_cmp_refl f64_partial_cmp_def f64_total_cmp_def Let_def
      split: option.splits if_splits)

section \<open>Properties\<close>

text \<open>Appending to an array keeps every element of the array's element type, and fails
  without a panic for an element of another type.\<close>

theorem array_append_typed:
  assumes "value_ok (Array es s)" "value_ok e"
  shows "(\<exists>es'. array_append (es, s) e = Ok (es', s) \<and> value_ok (Array es' s)) \<or>
    (\<exists>t. array_append (es, s) e = Err (SignatureMismatch (value_signature e) t))"
proof -
  obtain c where "s = signature.Array c" using assms(1) by auto
  then show ?thesis using assms by (auto simp: array_append_def sig_eq_iff)
qed

theorem array_append_typed_witness:
  "\<exists>es'. array_append ([U8 (CHR ''a'')], signature.Array signature.U8) (U8 (CHR ''b'')) =
     Ok (es', signature.Array signature.U8) \<and> value_ok (Array es' (signature.Array signature.U8))"
  using array_append_typed [of "[U8 (CHR ''a'')]" "signature.Array signature.U8" "U8 (CHR ''b'')"]
  by (auto simp: array_append_def)

text \<open>A dictionary keeps its key and value types, and finds under a NaN-free key what was
  last appended under it.\<close>

theorem dict_append_get:
  assumes "value_ok (Dict m s)" "value_ok k" "value_ok v" "nan_free k" "dict_append (m, s) k v = Ok (m', s')"
  shows "value_ok (Dict m' s') \<and> btree_get m' k = (Ok (Some v) :: (zerror, _) res)"
proof
  show "value_ok (Dict m' s')" by (rule dict_append_ok [OF assms(1-3,5)])
  obtain ks vs where "s = signature.Dict ks vs" using assms(1) by auto
  then have "btree_insert m k v = (Ok m' :: (zerror, _) res)"
    using assms(5) by (auto simp: dict_append_def split: if_splits)
  moreover have "value_cmp k k = (Ok Equal :: (zerror, ordering) res)"
    by (rule value_cmp_refl) (simp add: assms(4))
  ultimately show "btree_get m' k = (Ok (Some v) :: (zerror, _) res)"
    by (intro btree_get_insert)
qed

theorem dict_append_get_witness:
  "value_ok (Dict [(Str ''a'', U8 (CHR ''y''))] (signature.Dict signature.Str signature.U8)) \<and>
   btree_get [(Str ''a'', U8 (CHR ''y''))] (Str ''a'') = (Ok (Some (U8 (CHR ''y''))) :: (zerror, _) res)"
  by (rule dict_append_get [of "[(Str ''a'', U8 (CHR ''x''))]" "signature.Dict signature.Str signature.U8"
        "Str ''a''" "U8 (CHR ''y'')"])
    (simp_all add: dict_append_def value_cmp_def cmp_int_def)

text \<open>The arm of \<^verbatim>\<open>Ord for Value\<close> that the code calls unreachable is reached: appending a second
  NaN inside a variant key to a dictionary panics.\<close>

theorem dict_append_nan_panics:
  assumes "f64_is_nan x"
  shows "dict_append ([(Value (F64 x), v)], signature.Dict signature.Variant (value_signature v)) (Value (F64 x)) v = Panic"
  using assms by (simp add: dict_append_def sig_eq_iff value_cmp_def f64_partial_cmp_def)

theorem dict_append_nan_panics_witness:
  "dict_append ([(Value (F64 0x7FF8000000000000), Bool True)], signature.Dict signature.Variant signature.Bool)
     (Value (F64 0x7FF8000000000000)) (Bool True) = Panic"
  using dict_append_nan_panics [of "0x7FF8000000000000" "Bool True"]
  by (simp add: f64_is_nan_def f64_magnitude_def)

end
