(* ===== verification/DBus_Ser.thy ===== *)
theory DBus_Ser
  imports Values
begin

text \<open>
  The D-Bus serializer: \<^verbatim>\<open>SerializerCommon\<close> and the entry points of \<^verbatim>\<open>zvariant/src/ser.rs\<close>, the
  serde \<^verbatim>\<open>Serializer\<close> of \<^verbatim>\<open>zvariant/src/dbus/ser.rs\<close> with its sequence, map and structure
  serializers, and the \<^verbatim>\<open>Serialize\<close> implementations of \<^verbatim>\<open>Value\<close> and its containers that drive it.

  The serializer is a record that every operation takes and returns updated. Arrays are written
  as the code writes them: a zero length first, the elements behind it, and then a seek back to
  patch the length. The writer is the \<^verbatim>\<open>Cursor<Vec<u8>>\<close> of \<^verbatim>\<open>to_bytes\<close> or the \<^verbatim>\<open>NullWriteSeek\<close> of
  \<^verbatim>\<open>serialized_size\<close>. \<open>N\<close> and \<open>E\<close> are the \<^verbatim>\<open>nom\<close> and \<^verbatim>\<open>endi\<close> crates; \<open>D\<close> is the system call that
  duplicates a file descriptor, given the descriptors collected so far.
\<close>

section \<open>Writers\<close>

datatype writer = Cursor "byte list" nat | NullWriteSeek

text \<open>\<^verbatim>\<open>write_all\<close>: a cursor overwrites from its position on and grows the vector, with zeros up
  to the position if that lies beyond the end.\<close>

fun writer_write :: "writer \<Rightarrow> byte list \<Rightarrow> writer" where
  "writer_write (Cursor buf pos) bs =
     (if bs = [] then Cursor buf pos
      else let buf' = buf @ replicate (pos - length buf) (byte_of 0) in
        Cursor (take pos buf' @ bs @ drop (pos + length bs) buf') (pos + length bs))"
| "writer_write NullWriteSeek bs = NullWriteSeek"

text \<open>\<^verbatim>\<open>seek(SeekFrom::Current(n))\<close>; a negative position is an I/O error.\<close>

fun writer_seek :: "writer \<Rightarrow> int \<Rightarrow> (zerror, writer) res" where
  "writer_seek (Cursor buf pos) n =
     (if int pos + n < 0 then Err InputOutput else Ok (Cursor buf (nat (int pos + n))))"
| "writer_seek NullWriteSeek n = Ok NullWriteSeek"

section \<open>SerializerCommon\<close>

datatype fd_list = Fds "u32 list" | Number u32

record ctx =
  c_endian :: endian
  c_position :: nat

record ser =
  ctxt :: ctx
  out_writer :: writer
  bytes_written :: nat
  fds :: fd_list
  sig :: signature
  value_sign :: "signature option"
  container_depths :: depths

type_synonym dup = "u32 list \<Rightarrow> u32 \<Rightarrow> u32 option"

definition new_serializer :: "signature \<Rightarrow> writer \<Rightarrow> fd_list \<Rightarrow> ctx \<Rightarrow> ser" where
  "new_serializer s w f c = \<lparr>ctxt = c, out_writer = w, bytes_written = 0, fds = f, sig = s,
     value_sign = None, container_depths = no_depths\<rparr>"

text \<open>\<^verbatim>\<open>Write for SerializerCommon\<close>.\<close>

definition write_all :: "ser \<Rightarrow> byte list \<Rightarrow> ser" where
  "write_all s bs = s\<lparr>out_writer := writer_write (out_writer s) bs,
     bytes_written := bytes_written s + length bs\<rparr>"

definition abs_pos :: "ser \<Rightarrow> nat" where
  "abs_pos s = c_position (ctxt s) + bytes_written s"

text \<open>\<^verbatim>\<open>&[0u8; 8][..padding]\<close> panics for more than 8 bytes.\<close>

definition add_padding :: "ser \<Rightarrow> nat \<Rightarrow> (zerror, nat \<times> ser) res" where
  "add_padding s a =
     (let p = padding (abs_pos s) a in
      if 0 < p then (if p \<le> 8 then Ok (p, write_all s (replicate p (byte_of 0))) else Panic)
      else Ok (p, s))"

text \<open>\<^verbatim>\<open>T::alignment\<close> of a basic type \<^verbatim>\<open>T\<close> is the alignment of its signature.\<close>

definition dbus_alignment :: "signature \<Rightarrow> (zerror, nat) res" where
  "dbus_alignment s = (case alignment s DBus of Some a \<Rightarrow> Ok a | None \<Rightarrow> Panic)"

definition prep_serialize_basic :: "signature \<Rightarrow> ser \<Rightarrow> (zerror, ser) res" where
  "prep_serialize_basic t s =
     bind_res (dbus_alignment t) (\<lambda>a. bind_res (add_padding s a) (\<lambda>(_, s'). Ok s'))"

fun find_index :: "'a list \<Rightarrow> 'a \<Rightarrow> nat option" where
  "find_index [] x = None"
| "find_index (y # ys) x = (if y = x then Some 0 else map_option Suc (find_index ys x))"

definition add_fd :: "dup \<Rightarrow> ser \<Rightarrow> u32 \<Rightarrow> (zerror, u32 \<times> ser) res" where
  "add_fd D s fd =
     (case fds s of
        Fds fs \<Rightarrow> (case find_index fs fd of
            Some idx \<Rightarrow> Ok (word_of_nat idx, s)
          | None \<Rightarrow> (case D fs fd of
              None \<Rightarrow> Err InputOutput
            | Some fd' \<Rightarrow> Ok (word_of_nat (length fs), s\<lparr>fds := Fds (fs @ [fd'])\<rparr>)))
      | Number n \<Rightarrow> if unat n + 1 < 2 ^ 32 then Ok (n, s\<lparr>fds := Number (n + 1)\<rparr>) else Panic)"

section \<open>Basic types\<close>

definition endian_of :: "ser \<Rightarrow> endian" where
  "endian_of s = c_endian (ctxt s)"

text \<open>\<^verbatim>\<open>serialize_basic!\<close> with the writer of each width.\<close>

definition serialize_basic :: "signature \<Rightarrow> byte list \<Rightarrow> ser \<Rightarrow> (zerror, ser) res" where
  "serialize_basic t bs s = bind_res (prep_serialize_basic t s) (\<lambda>s'. Ok (write_all s' bs))"

definition serialize_bool :: "endi \<Rightarrow> bool \<Rightarrow> ser \<Rightarrow> (zerror, ser) res" where
  "serialize_bool E v s = serialize_basic signature.Bool (write_u32 E (endian_of s) (of_bool v)) s"

definition serialize_i16 :: "endi \<Rightarrow> u16 \<Rightarrow> ser \<Rightarrow> (zerror, ser) res" where
  "serialize_i16 E v s = serialize_basic signature.I16 (write_u16 E (endian_of s) v) s"

definition serialize_i64 :: "endi \<Rightarrow> u64 \<Rightarrow> ser \<Rightarrow> (zerror, ser) res" where
  "serialize_i64 E v s = serialize_basic signature.I64 (write_u64 E (endian_of s) v) s"

definition serialize_u8 :: "byte \<Rightarrow> ser \<Rightarrow> (zerror, ser) res" where
  "serialize_u8 v s = serialize_basic signature.U8 [v] s"

definition serialize_u16 :: "endi \<Rightarrow> u16 \<Rightarrow> ser \<Rightarrow> (zerror, ser) res" where
  "serialize_u16 E v s = serialize_basic signature.U16 (write_u16 E (endian_of s) v) s"

definition serialize_u32 :: "endi \<Rightarrow> u32 \<Rightarrow> ser \<Rightarrow> (zerror, ser) res" where
  "serialize_u32 E v s = serialize_basic signature.U32 (write_u32 E (endian_of s) v) s"

definition serialize_u64 :: "endi \<Rightarrow> u64 \<Rightarrow> ser \<Rightarrow> (zerror, ser) res" where
  "serialize_u64 E v s = serialize_basic signature.U64 (write_u64 E (endian_of s) v) s"

definition serialize_f64 :: "endi \<Rightarrow> u64 \<Rightarrow> ser \<Rightarrow> (zerror, ser) res" where
  "serialize_f64 E v s = serialize_basic signature.F64 (write_u64 E (endian_of s) v) s"

definition serialize_i32 :: "endi \<Rightarrow> dup \<Rightarrow> u32 \<Rightarrow> ser \<Rightarrow> (zerror, ser) res" where
  "serialize_i32 E D v s =
     (case sig s of
        signature.Fd \<Rightarrow>
          bind_res (dbus_alignment signature.U32) (\<lambda>a. bind_res (add_padding s a) (\<lambda>(_, s).
          bind_res (add_fd D s v) (\<lambda>(idx, s). Ok (write_all s (write_u32 E (endian_of s) idx)))))
      | _ \<Rightarrow> serialize_basic signature.I32 (write_u32 E (endian_of s) v) s)"

definition serialize_str :: "nom \<Rightarrow> endi \<Rightarrow> string \<Rightarrow> ser \<Rightarrow> (zerror, ser) res" where
  "serialize_str N E v s =
     bind_res (dbus_alignment (sig s)) (\<lambda>a. bind_res (add_padding s a) (\<lambda>(_, s).
     bind_res
       (if sig s = signature.Variant
        then bind_res (map_err SignatureParse (from_str N v)) (\<lambda>vs. Ok (s\<lparr>value_sign := Some vs\<rparr>))
        else Ok s) (\<lambda>s.
     bind_res
       (if sig s = signature.ObjectPath \<or> sig s = signature.Str
        then bind_res (usize_to_u32 (length v)) (\<lambda>n. Ok (write_all s (write_u32 E (endian_of s) n)))
        else if sig s = signature.Signature \<or> sig s = signature.Variant
        then bind_res (usize_to_u8 (length v)) (\<lambda>n. Ok (write_all s [n]))
        else Err (SignatureMismatch (sig s) ''`s`, `g`, `o` or `v`'')) (\<lambda>s.
     Ok (write_all (write_all s v) [byte_of 0])))))"

text \<open>A byte string: the length is cut to 32 bits, not checked.\<close>

definition serialize_bytes :: "endi \<Rightarrow> byte list \<Rightarrow> ser \<Rightarrow> (zerror, ser) res" where
  "serialize_bytes E v s =
     bind_res (add_padding s ARRAY_ALIGNMENT_DBUS) (\<lambda>(_, s).
     let s = write_all s (write_u32 E (endian_of s) (word_of_nat (length v))) in
     Ok (write_all s v))"

text \<open>A unit variant of an enum: its name where a string is expected, else its index.\<close>

definition serialize_unit_variant :: "nom \<Rightarrow> endi \<Rightarrow> u32 \<Rightarrow> string \<Rightarrow> ser \<Rightarrow> (zerror, ser) res" where
  "serialize_unit_variant N E variant_index variant s =
     (if sig s = signature.Str then serialize_str N E variant s else serialize_u32 E variant_index s)"

section \<open>Sequences\<close>

record seq_ser =
  q_start :: nat
  q_first_padding :: nat
  q_array_signature :: signature

definition serialize_seq :: "endi \<Rightarrow> ser \<Rightarrow> (zerror, seq_ser \<times> ser) res" where
  "serialize_seq E s =
     bind_res (add_padding s ARRAY_ALIGNMENT_DBUS) (\<lambda>(_, s).
     let s = write_all s (write_u32 E (endian_of s) 0) in
     bind_res
       (case sig s of
          signature.Array child \<Rightarrow> bind_res (dbus_alignment child) (\<lambda>a. Ok (a, child))
        | signature.Dict key _ \<Rightarrow> Ok (DICT_ENTRY_ALIGNMENT_DBUS, key)
        | _ \<Rightarrow> Err (SignatureMismatch (sig s) ''an array or dict'')) (\<lambda>(al, child_signature).
     let array_signature = sig s; s = s\<lparr>sig := child_signature\<rparr> in
     bind_res (add_padding s al) (\<lambda>(first_padding, s).
     let start = bytes_written s in
     bind_res (inc_array (container_depths s)) (\<lambda>d.
     Ok (\<lparr>q_start = start, q_first_padding = first_padding, q_array_signature = array_signature\<rparr>,
         s\<lparr>container_depths := d\<rparr>)))))"

text \<open>The seeks and the length of \<^verbatim>\<open>end_seq\<close> go to the writer itself, past \<^verbatim>\<open>bytes_written\<close>.\<close>

definition end_seq :: "endi \<Rightarrow> seq_ser \<Rightarrow> ser \<Rightarrow> (zerror, ser) res" where
  "end_seq E q s =
     (let array_len = bytes_written s - q_start q in
      bind_res (usize_to_u32 array_len) (\<lambda>len.
      let total_array_len = int (array_len + q_first_padding q + 4) in
      bind_res (writer_seek (out_writer s) (- total_array_len)) (\<lambda>w.
      let w = writer_write w (write_u32 E (endian_of s) len) in
      bind_res (writer_seek w (total_array_len - 4)) (\<lambda>w.
      bind_res (dec_array (container_depths s)) (\<lambda>d.
      Ok (s\<lparr>out_writer := w, container_depths := d, sig := q_array_signature q\<rparr>))))))"

record map_ser =
  m_seq :: seq_ser
  m_key_signature :: signature
  m_value_signature :: signature

definition serialize_map :: "endi \<Rightarrow> ser \<Rightarrow> (zerror, map_ser \<times> ser) res" where
  "serialize_map E s =
     (case sig s of
        signature.Dict key val \<Rightarrow>
          bind_res (serialize_seq E s) (\<lambda>(q, s).
            Ok (\<lparr>m_seq = q, m_key_signature = key, m_value_signature = val\<rparr>, s))
      | _ \<Rightarrow> Err (SignatureMismatch (sig s) ''a dict''))"

text \<open>The argument \<open>f\<close> is the serialization of the key or the value itself.\<close>

definition serialize_key :: "(ser \<Rightarrow> (zerror, ser) res) \<Rightarrow> ser \<Rightarrow> (zerror, ser) res" where
  "serialize_key f s = bind_res (add_padding s DICT_ENTRY_ALIGNMENT_DBUS) (\<lambda>(_, s). f s)"

definition serialize_map_value ::
  "map_ser \<Rightarrow> (ser \<Rightarrow> (zerror, ser) res) \<Rightarrow> ser \<Rightarrow> (zerror, ser) res" where
  "serialize_map_value m f s =
     bind_res (f (s\<lparr>sig := m_value_signature m\<rparr>)) (\<lambda>s. Ok (s\<lparr>sig := m_key_signature m\<rparr>))"

section \<open>Structures and variants\<close>

record struct_ser =
  t_container_depths :: depths
  t_field_idx :: nat

datatype struct_seq_ser = Struct_S struct_ser | Seq_S seq_ser

definition struct_variant :: "ser \<Rightarrow> (zerror, struct_ser \<times> ser) res" where
  "struct_variant s =
     bind_res (inc_variant (container_depths s)) (\<lambda>d.
       Ok (\<lparr>t_container_depths = container_depths s, t_field_idx = 0\<rparr>, s\<lparr>container_depths := d\<rparr>))"

definition struct_structure :: "ser \<Rightarrow> (zerror, struct_ser \<times> ser) res" where
  "struct_structure s =
     bind_res (inc_structure (container_depths s)) (\<lambda>d.
       Ok (\<lparr>t_container_depths = container_depths s, t_field_idx = 0\<rparr>, s\<lparr>container_depths := d\<rparr>))"

definition struct_unit :: "ser \<Rightarrow> (zerror, struct_ser \<times> ser) res" where
  "struct_unit s =
     bind_res (serialize_u8 (byte_of 0) s) (\<lambda>s.
       Ok (\<lparr>t_container_depths = container_depths s, t_field_idx = 0\<rparr>, s))"

definition serialize_struct :: "endi \<Rightarrow> nat \<Rightarrow> ser \<Rightarrow> (zerror, struct_seq_ser \<times> ser) res" where
  "serialize_struct E len s =
     (if len = 0 then bind_res (struct_unit s) (\<lambda>(t, s). Ok (Struct_S t, s))
      else bind_res (dbus_alignment (sig s)) (\<lambda>a. bind_res (add_padding s a) (\<lambda>(_, s).
        case sig s of
          signature.Variant \<Rightarrow> bind_res (struct_variant s) (\<lambda>(t, s). Ok (Struct_S t, s))
        | signature.Array _ \<Rightarrow> bind_res (serialize_seq E s) (\<lambda>(q, s). Ok (Seq_S q, s))
        | signature.Structure _ \<Rightarrow> bind_res (struct_structure s) (\<lambda>(t, s). Ok (Struct_S t, s))
        | _ \<Rightarrow> Err (SignatureMismatch (sig s) ''a struct, array or variant''))))"

text \<open>
  \<^verbatim>\<open>serialize_struct_element\<close>: the field goes through a serializer of its own, with the field's
  signature and no \<^verbatim>\<open>value_sign\<close>, of which only the bytes, the descriptors and the
  \<^verbatim>\<open>value_sign\<close> come back. The argument \<open>f\<close> is the serialization of the field.
\<close>

definition serialize_struct_element ::
  "(ser \<Rightarrow> (zerror, ser) res) \<Rightarrow> struct_ser \<times> ser \<Rightarrow> (zerror, struct_ser \<times> ser) res" where
  "serialize_struct_element f ts =
     (let (t, s) = ts in
      bind_res
        (case sig s of
           signature.Variant \<Rightarrow>
             Ok (case value_sign s of Some vs \<Rightarrow> vs | None \<Rightarrow> signature.Variant, t)
         | signature.Structure fs \<Rightarrow>
             if t_field_idx t < length fs
             then Ok (fs ! t_field_idx t, t\<lparr>t_field_idx := t_field_idx t + 1\<rparr>)
             else Err (SignatureMismatch (sig s) ''a struct'')
         | _ \<Rightarrow> Panic) (\<lambda>(field_signature, t).
      bind_res (f (s\<lparr>sig := field_signature, value_sign := None\<rparr>)) (\<lambda>s'.
      Ok (t, s\<lparr>out_writer := out_writer s', fds := fds s', bytes_written := bytes_written s',
               value_sign := value_sign s'\<rparr>))))"

text \<open>\<^verbatim>\<open>enum_variant\<close>: a structure of the variant's index and its content; where the content is
  itself a structure the serializer goes on as that one.\<close>

definition enum_variant :: "endi \<Rightarrow> u32 \<Rightarrow> ser \<Rightarrow> (zerror, struct_ser \<times> ser) res" where
  "enum_variant E variant_index s =
     (case sig s of
        signature.Structure flds \<Rightarrow>
          let struct_field = (if 1 < length flds
            then (case flds ! 1 of signature.Structure _ \<Rightarrow> Some (flds ! 1) | _ \<Rightarrow> None) else None) in
          bind_res (add_padding s STRUCT_ALIGNMENT_DBUS) (\<lambda>(_, s).
          bind_res (struct_structure s) (\<lambda>ts.
          bind_res (serialize_struct_element (serialize_u32 E variant_index) ts) (\<lambda>(t, s).
          case struct_field of
            Some field \<Rightarrow>
              bind_res (add_padding s STRUCT_ALIGNMENT_DBUS) (\<lambda>(_, s).
                Ok (t\<lparr>t_field_idx := 0\<rparr>, s\<lparr>sig := field\<rparr>))
          | None \<Rightarrow> Ok (t, s))))
      | _ \<Rightarrow> Err (SignatureMismatch (sig s) ''a struct''))"

text \<open>\<^verbatim>\<open>serialize_newtype_variant\<close> drops the structure serializer without its \<^verbatim>\<open>end\<close>.\<close>

definition serialize_newtype_variant ::
  "endi \<Rightarrow> u32 \<Rightarrow> (ser \<Rightarrow> (zerror, ser) res) \<Rightarrow> ser \<Rightarrow> (zerror, ser) res" where
  "serialize_newtype_variant E variant_index f s =
     bind_res (enum_variant E variant_index s) (\<lambda>ts.
     bind_res (serialize_struct_element f ts) (\<lambda>(_, s). Ok s))"

definition end_struct :: "struct_ser \<Rightarrow> ser \<Rightarrow> ser" where
  "end_struct t s = s\<lparr>container_depths := t_container_depths t\<rparr>"

text \<open>\<^verbatim>\<open>serialize_field\<close> and \<^verbatim>\<open>end\<close> of \<^verbatim>\<open>StructSeqSerializer\<close>.\<close>

definition serialize_field ::
  "(ser \<Rightarrow> (zerror, ser) res) \<Rightarrow> struct_seq_ser \<times> ser \<Rightarrow> (zerror, struct_seq_ser \<times> ser) res" where
  "serialize_field f xs =
     (case fst xs of
        Struct_S t \<Rightarrow> bind_res (serialize_struct_element f (t, snd xs)) (\<lambda>(t, s). Ok (Struct_S t, s))
      | Seq_S q \<Rightarrow> bind_res (f (snd xs)) (\<lambda>s. Ok (Seq_S q, s)))"

definition end_struct_seq :: "endi \<Rightarrow> struct_seq_ser \<times> ser \<Rightarrow> (zerror, ser) res" where
  "end_struct_seq E xs =
     (case fst xs of Struct_S t \<Rightarrow> Ok (end_struct t (snd xs)) | Seq_S q \<Rightarrow> end_seq E q (snd xs))"

section \<open>Values\<close>

text \<open>
  \<open>serialize_inner\<close> is the serialization of the payload of a value (\<^verbatim>\<open>serialize_value!\<close> dispatches to
  the \<^verbatim>\<open>Serialize\<close> of the payload's type), \<open>serialize_value\<close> that of a \<^verbatim>\<open>Value\<close>, which is always
  written as a variant. \<open>serialize_elements\<close>, \<open>serialize_entries\<close> and \<open>serialize_fields\<close> are the loops
  of \<^verbatim>\<open>Array\<close>, \<^verbatim>\<open>Dict\<close> and \<^verbatim>\<open>Structure\<close>. A \<^verbatim>\<open>Maybe\<close> reaches the \<^verbatim>\<open>unreachable!\<close> of
  \<^verbatim>\<open>serialize_none\<close> or \<^verbatim>\<open>serialize_some\<close>, as the \<^verbatim>\<open>option-as-array\<close> feature is off.
\<close>

function (sequential) serialize_inner :: "nom \<Rightarrow> endi \<Rightarrow> dup \<Rightarrow> zvalue \<Rightarrow> ser \<Rightarrow> (zerror, ser) res"
  and serialize_value :: "nom \<Rightarrow> endi \<Rightarrow> dup \<Rightarrow> zvalue \<Rightarrow> ser \<Rightarrow> (zerror, ser) res"
  and serialize_elements :: "nom \<Rightarrow> endi \<Rightarrow> dup \<Rightarrow> zvalue list \<Rightarrow> ser \<Rightarrow> (zerror, ser) res"
  and serialize_entries ::
    "nom \<Rightarrow> endi \<Rightarrow> dup \<Rightarrow> map_ser \<Rightarrow> (zvalue \<times> zvalue) list \<Rightarrow> ser \<Rightarrow> (zerror, ser) res"
  and serialize_fields ::
    "nom \<Rightarrow> endi \<Rightarrow> dup \<Rightarrow> zvalue list \<Rightarrow> struct_seq_ser \<times> ser \<Rightarrow> (zerror, struct_seq_ser \<times> ser) res" where
  "serialize_inner N E D (U8 v) s = serialize_u8 v s"
| "serialize_inner N E D (Bool v) s = serialize_bool E v s"
| "serialize_inner N E D (I16 v) s = serialize_i16 E v s"
| "serialize_inner N E D (U16 v) s = serialize_u16 E v s"
| "serialize_inner N E D (I32 v) s = serialize_i32 E D v s"
| "serialize_inner N E D (U32 v) s = serialize_u32 E v s"
| "serialize_inner N E D (I64 v) s = serialize_i64 E v s"
| "serialize_inner N E D (U64 v) s = serialize_u64 E v s"
| "serialize_inner N E D (F64 v) s = serialize_f64 E v s"
| "serialize_inner N E D (Str v) s = serialize_str N E v s"
| "serialize_inner N E D (Signature v) s = serialize_str N E (to_string v) s"
| "serialize_inner N E D (ObjectPath v) s = serialize_str N E v s"
| "serialize_inner N E D (Value v) s = serialize_value N E D v s"
| "serialize_inner N E D (Array es _) s =
     bind_res (serialize_seq E s) (\<lambda>(q, s).
     bind_res (serialize_elements N E D es s) (\<lambda>s. end_seq E q s))"
| "serialize_inner N E D (Dict m _) s =
     bind_res (serialize_map E s) (\<lambda>(ms, s).
     bind_res (serialize_entries N E D ms m s) (\<lambda>s. end_seq E (m_seq ms) s))"
| "serialize_inner N E D (Structure fs _) s =
     bind_res (serialize_struct E (length fs) s) (\<lambda>xs.
     bind_res (serialize_fields N E D fs xs) (\<lambda>xs. end_struct_seq E xs))"
| "serialize_inner N E D (Maybe _ _) s = Panic"
| "serialize_inner N E D (Fd v) s = serialize_i32 E D v s"
| "serialize_value N E D v s =
     bind_res (serialize_struct E 2 s) (\<lambda>xs.
     bind_res (serialize_field (serialize_str N E (to_string (value_signature v))) xs) (\<lambda>xs.
     bind_res (serialize_field (serialize_inner N E D v) xs) (\<lambda>xs. end_struct_seq E xs)))"
| "serialize_elements N E D [] s = Ok s"
| "serialize_elements N E D (e # es) s =
     bind_res (serialize_inner N E D e s) (\<lambda>s. serialize_elements N E D es s)"
| "serialize_entries N E D ms [] s = Ok s"
| "serialize_entries N E D ms ((k, v) # m) s =
     bind_res (serialize_key (serialize_inner N E D k) s) (\<lambda>s.
     bind_res (serialize_map_value ms (serialize_inner N E D v) s) (\<lambda>s.
     serialize_entries N E D ms m s))"
| "serialize_fields N E D [] xs = Ok xs"
| "serialize_fields N E D (f # fs) xs =
     bind_res (serialize_field (serialize_inner N E D f) xs) (\<lambda>xs. serialize_fields N E D fs xs)"
  by pat_completeness auto

termination
  by (relation "measure (case_sum (case_sum (\<lambda>(_, _, _, v, _). 2 * size v) (\<lambda>(_, _, _, v, _). Suc (2 * size v)))
      (case_sum (\<lambda>(_, _, _, vs, _). 2 * size_list size vs)
        (case_sum (\<lambda>(_, _, _, _, m, _). 2 * size_list (size_prod size size) m)
          (\<lambda>(_, _, _, vs, _). 2 * size_list size vs))))") auto

section \<open>Entry points\<close>

text \<open>\<^verbatim>\<open>Written\<close>, \<^verbatim>\<open>Size\<close> and \<^verbatim>\<open>Data\<close> of \<^verbatim>\<open>zvariant/src/serialized\<close>. The bytes of a \<^verbatim>\<open>Data\<close> are a
  range of the vector it shares.\<close>

record written =
  w_size :: nat
  w_context :: ctx
  w_fds :: "u32 list"

record ser_size =
  z_size :: nat
  z_context :: ctx
  z_num_fds :: u32

record data =
  data_inner :: "byte list"
  data_fds :: "u32 list"
  data_context :: ctx
  data_start :: nat
  data_end :: nat

definition new_fds :: "byte list \<Rightarrow> ctx \<Rightarrow> u32 list \<Rightarrow> data" where
  "new_fds bs c fs = \<lparr>data_inner = bs, data_fds = fs, data_context = c,
     data_start = 0, data_end = length bs\<rparr>"

definition data_bytes :: "data \<Rightarrow> byte list" where
  "data_bytes d = take (data_end d - data_start d) (drop (data_start d) (data_inner d))"

text \<open>\<^verbatim>\<open>Data::slice\<close> of a half-open range; the position of the context moves along.\<close>

definition data_slice :: "data \<Rightarrow> nat \<Rightarrow> nat \<Rightarrow> (zerror, data) res" where
  "data_slice d start end' =
     (let len = data_end d - data_start d in
      if start \<le> end' \<and> end' \<le> len
      then Ok (d\<lparr>data_context := (data_context d)\<lparr>c_position := c_position (data_context d) + start\<rparr>,
                 data_start := data_start d + start, data_end := data_start d + end'\<rparr>)
      else Panic)"

text \<open>The argument \<open>f\<close> is the \<^verbatim>\<open>Serialize\<close> implementation of the value.\<close>

definition to_writer_for_signature ::
  "writer \<Rightarrow> ctx \<Rightarrow> signature \<Rightarrow> (ser \<Rightarrow> (zerror, ser) res) \<Rightarrow> (zerror, written \<times> writer) res" where
  "to_writer_for_signature w c s f =
     bind_res (f (new_serializer s w (Fds []) c)) (\<lambda>r.
     case fds r of
       Fds fs \<Rightarrow> Ok (\<lparr>w_size = bytes_written r, w_context = c, w_fds = fs\<rparr>, out_writer r)
     | Number _ \<Rightarrow> Panic)"

definition to_bytes_for_signature ::
  "ctx \<Rightarrow> signature \<Rightarrow> (ser \<Rightarrow> (zerror, ser) res) \<Rightarrow> (zerror, data) res" where
  "to_bytes_for_signature c s f =
     bind_res (to_writer_for_signature (Cursor [] 0) c s f) (\<lambda>(ret, w).
     case w of Cursor buf _ \<Rightarrow> Ok (new_fds buf c (w_fds ret)) | NullWriteSeek \<Rightarrow> Panic)"

definition serialized_size ::
  "ctx \<Rightarrow> signature \<Rightarrow> (ser \<Rightarrow> (zerror, ser) res) \<Rightarrow> (zerror, ser_size) res" where
  "serialized_size c s f =
     bind_res (f (new_serializer s NullWriteSeek (Number 0) c)) (\<lambda>r.
     case fds r of
       Number n \<Rightarrow> Ok \<lparr>z_size = bytes_written r, z_context = c, z_num_fds = n\<rparr>
     | Fds _ \<Rightarrow> Panic)"

text \<open>\<^verbatim>\<open>to_bytes\<close> of a \<^verbatim>\<open>Value\<close>, whose signature is a variant.\<close>

definition to_bytes :: "nom \<Rightarrow> endi \<Rightarrow> dup \<Rightarrow> ctx \<Rightarrow> zvalue \<Rightarrow> (zerror, data) res" where
  "to_bytes N E D c v = to_bytes_for_signature c signature.Variant (serialize_value N E D v)"

end
