(* ===== verification/DBus_Enc.thy ===== *)
theory DBus_Enc
  imports DBus_Ser
begin

text \<open>
  What the D-Bus serializer computes. \<open>enc\<close> is the wire format as a function of the value, the
  absolute position and the depth of nesting: no serializer state, no back-patching, no threading
  of signatures. The main lemma says that the serializer, on a writer that stands at its end,
  appends exactly these bytes and leaves everything else of its state as it was, and that
  it fails and panics exactly where \<open>enc\<close> does.
\<close>

section \<open>The wire format\<close>

definition pad :: "nat \<Rightarrow> nat \<Rightarrow> byte list" where
  "pad n a = replicate (padding n a) (byte_of 0)"

lemma length_pad [simp]: "length (pad n a) = padding n a"
  by (simp add: pad_def)

definition map_ok :: "('a \<Rightarrow> 'b) \<Rightarrow> ('e, 'a) res \<Rightarrow> ('e, 'b) res" where
  "map_ok f r = bind_res r (\<lambda>x. Ok (f x))"

definition enc_basic :: "nat \<Rightarrow> nat \<Rightarrow> byte list \<Rightarrow> (zerror, byte list) res" where
  "enc_basic n a bs = Ok (pad n a @ bs)"

definition enc_str :: "endi \<Rightarrow> endian \<Rightarrow> nat \<Rightarrow> string \<Rightarrow> (zerror, byte list) res" where
  "enc_str E e n v = map_ok (\<lambda>l. pad n 4 @ write_u32 E e l @ v @ [byte_of 0]) (usize_to_u32 (length v))"

definition enc_sig :: "string \<Rightarrow> (zerror, byte list) res" where
  "enc_sig v = map_ok (\<lambda>l. l # v @ [byte_of 0]) (usize_to_u8 (length v))"

text \<open>An array: the length of the body in bytes, the padding of the first element, the body.\<close>

definition enc_array ::
  "endi \<Rightarrow> endian \<Rightarrow> depths \<Rightarrow> nat \<Rightarrow> nat \<Rightarrow> (depths \<Rightarrow> nat \<Rightarrow> (zerror, byte list) res)
     \<Rightarrow> (zerror, byte list) res" where
  "enc_array E e d n a f =
     (let start = n + padding n 4 + 4 in
      bind_res (inc_array d) (\<lambda>d'.
      bind_res (f d' (start + padding start a)) (\<lambda>body.
      map_ok (\<lambda>l. pad n 4 @ write_u32 E e l @ pad start a @ body) (usize_to_u32 (length body)))))"

text \<open>One piece after the other, the second at the position the first one ends at.\<close>

definition enc_then ::
  "(nat \<Rightarrow> (zerror, byte list) res) \<Rightarrow> (nat \<Rightarrow> (zerror, byte list) res) \<Rightarrow> nat
     \<Rightarrow> (zerror, byte list) res" where
  "enc_then f g n = bind_res (f n) (\<lambda>a. map_ok (\<lambda>b. a @ b) (g (n + length a)))"

lemma enc_then_cong [fundef_cong]:
  "f n = f' n' \<Longrightarrow> n = n' \<Longrightarrow> (\<And>m. g m = g' m) \<Longrightarrow> enc_then f g n = enc_then f' g' n'"
  by (simp add: enc_then_def)

function (sequential) enc :: "endi \<Rightarrow> endian \<Rightarrow> depths \<Rightarrow> zvalue \<Rightarrow> nat \<Rightarrow> (zerror, byte list) res"
  and enc_all :: "endi \<Rightarrow> endian \<Rightarrow> depths \<Rightarrow> zvalue list \<Rightarrow> nat \<Rightarrow> (zerror, byte list) res"
  and enc_entries :: "endi \<Rightarrow> endian \<Rightarrow> depths \<Rightarrow> (zvalue \<times> zvalue) list \<Rightarrow> nat \<Rightarrow> (zerror, byte list) res"
where
  "enc E e d (U8 v) n = enc_basic n 1 [v]"
| "enc E e d (Bool v) n = enc_basic n 4 (write_u32 E e (of_bool v))"
| "enc E e d (I16 v) n = enc_basic n 2 (write_u16 E e v)"
| "enc E e d (U16 v) n = enc_basic n 2 (write_u16 E e v)"
| "enc E e d (I32 v) n = enc_basic n 4 (write_u32 E e v)"
| "enc E e d (U32 v) n = enc_basic n 4 (write_u32 E e v)"
| "enc E e d (I64 v) n = enc_basic n 8 (write_u64 E e v)"
| "enc E e d (U64 v) n = enc_basic n 8 (write_u64 E e v)"
| "enc E e d (F64 v) n = enc_basic n 8 (write_u64 E e v)"
| "enc E e d (Str v) n = enc_str E e n v"
| "enc E e d (Signature v) n = enc_sig (to_string v)"
| "enc E e d (ObjectPath v) n = enc_str E e n v"
| "enc E e d (Value v) n =
     bind_res (inc_variant d) (\<lambda>d'.
       enc_then (\<lambda>_. enc_sig (to_string (value_signature v))) (enc E e d' v) n)"
| "enc E e d (Array es s) n =
     (case s of
        signature.Array c \<Rightarrow>
          bind_res (dbus_alignment c) (\<lambda>a. enc_array E e d n a (\<lambda>d'. enc_all E e d' es))
      | _ \<Rightarrow> Panic)"
| "enc E e d (Dict m s) n = enc_array E e d n 8 (\<lambda>d'. enc_entries E e d' m)"
| "enc E e d (Structure fs s) n =
     bind_res (inc_structure d) (\<lambda>d'. enc_then (\<lambda>n. enc_basic n 8 []) (enc_all E e d' fs) n)"
| "enc E e d (Maybe _ _) n = Panic"
| "enc E e d (Fd _) n = Panic"
| "enc_all E e d [] n = Ok []"
| "enc_all E e d (v # vs) n = enc_then (enc E e d v) (enc_all E e d vs) n"
| "enc_entries E e d [] n = Ok []"
| "enc_entries E e d ((k, v) # m) n =
     enc_then (\<lambda>n. enc_basic n 8 []) (enc_then (enc E e d k) (enc_then (enc E e d v) (enc_entries E e d m))) n"
  by pat_completeness auto

termination
  by (relation "measure (case_sum (\<lambda>(_, _, _, v, _). size v)
      (case_sum (\<lambda>(_, _, _, vs, _). size_list size vs)
        (\<lambda>(_, _, _, m, _). size_list (size_prod size size) m)))") auto

text \<open>The encoding of a value as a variant, which is what \<^verbatim>\<open>Serialize for Value\<close> writes.\<close>

abbreviation enc_variant :: "endi \<Rightarrow> endian \<Rightarrow> depths \<Rightarrow> zvalue \<Rightarrow> nat \<Rightarrow> (zerror, byte list) res" where
  "enc_variant E e d v n \<equiv> enc E e d (Value v) n"

section \<open>Writing at the end\<close>

text \<open>The writer stands at its end, as it does between any two calls of the serializer.\<close>

fun at_end :: "writer \<Rightarrow> bool" where
  "at_end (Cursor buf pos) = (pos = length buf)"
| "at_end NullWriteSeek = True"

abbreviation ready :: "ser \<Rightarrow> bool" where
  "ready s \<equiv> at_end (out_writer s)"

named_theorems ser_simps "rewriting of serializer states"

lemma map_ok_simps [simp]:
  "map_ok f (Ok x) = Ok (f x)" "map_ok f (Err e) = Err e" "map_ok f Panic = Panic"
  by (simp_all add: map_ok_def)

lemma map_ok_eq_Ok: "map_ok f r = Ok y \<longleftrightarrow> (\<exists>x. r = Ok x \<and> y = f x)"
  by (cases r) auto

lemma writer_write_end [simp]: "at_end w \<Longrightarrow> at_end (writer_write w a)"
  by (cases w) auto

lemma writer_write_append:
  "at_end w \<Longrightarrow> writer_write (writer_write w a) b = writer_write w (a @ b)"
  by (cases w) auto

lemma write_all_append [ser_simps]:
  "ready s \<Longrightarrow> write_all (write_all s a) b = write_all s (a @ b)"
  by (simp add: write_all_def writer_write_append)

lemma write_all_Nil [simp]: "write_all s [] = s"
  by (cases "out_writer s") (simp_all add: write_all_def)

lemma write_all_sel [simp]:
  "sig (write_all s a) = sig s" "value_sign (write_all s a) = value_sign s"
  "ctxt (write_all s a) = ctxt s" "fds (write_all s a) = fds s"
  "container_depths (write_all s a) = container_depths s"
  "endian_of (write_all s a) = endian_of s" "abs_pos (write_all s a) = abs_pos s + length a"
  "bytes_written (write_all s a) = bytes_written s + length a"
  "out_writer (write_all s a) = writer_write (out_writer s) a"
  by (simp_all add: write_all_def endian_of_def abs_pos_def)

lemma update_sel [simp]:
  "endian_of (s\<lparr>sig := x\<rparr>) = endian_of s" "abs_pos (s\<lparr>sig := x\<rparr>) = abs_pos s"
  "endian_of (s\<lparr>value_sign := y\<rparr>) = endian_of s" "abs_pos (s\<lparr>value_sign := y\<rparr>) = abs_pos s"
  "endian_of (s\<lparr>container_depths := d\<rparr>) = endian_of s" "abs_pos (s\<lparr>container_depths := d\<rparr>) = abs_pos s"
  by (simp_all add: endian_of_def abs_pos_def)

lemma write_all_update [ser_simps]:
  "(write_all s a)\<lparr>sig := x\<rparr> = write_all (s\<lparr>sig := x\<rparr>) a"
  "(write_all s a)\<lparr>value_sign := y\<rparr> = write_all (s\<lparr>value_sign := y\<rparr>) a"
  "(write_all s a)\<lparr>container_depths := d\<rparr> = write_all (s\<lparr>container_depths := d\<rparr>) a"
  by (simp_all add: write_all_def)

lemma dbus_alignment_Ok: "dbus_alignment c = Ok a \<Longrightarrow> a \<in> {1, 2, 4, 8}"
  by (cases c) (auto simp: dbus_alignment_def alignment_def)

lemma add_padding_pad [ser_simps]:
  assumes "a \<in> {1, 2, 4, 8}"
  shows "add_padding s a = Ok (padding (abs_pos s) a, write_all s (pad (abs_pos s) a))"
  using padding_bounds(1) [OF assms, of "abs_pos s"] by (auto simp: add_padding_def Let_def pad_def)

text \<open>Patching the length of an array in the bytes already written.\<close>

lemma patch_length:
  assumes "at_end w" "length z = 4" "length l = 4"
  shows "bind_res (writer_seek (writer_write w (x @ z @ r)) (- int (length r + 4)))
      (\<lambda>v. writer_seek (writer_write v l) (int (length r))) = Ok (writer_write w (x @ l @ r))"
proof (cases w)
  case (Cursor buf pos)
  have "l \<noteq> []" "x @ z @ r \<noteq> []" using assms by auto
  moreover have "pos = length buf" using assms Cursor by simp
  moreover have "int (length buf + length (x @ z @ r)) - int (length r + 4) = int (length buf + length x)"
    using assms(2) by simp
  ultimately show ?thesis
    using assms(2,3) Cursor by auto
qed simp

section \<open>The serializer writes the wire format\<close>

text \<open>The two foreign crates that reading and writing a value needs.\<close>

locale wire_laws = nom_laws N + endi_laws E for N :: nom and E :: endi
begin

lemma serialize_basic_enc:
  "ready s \<Longrightarrow> dbus_alignment t = Ok a \<Longrightarrow>
     serialize_basic t bs s = map_ok (write_all s) (enc_basic (abs_pos s) a bs)"
  using dbus_alignment_Ok [of t a]
  by (simp add: serialize_basic_def prep_serialize_basic_def enc_basic_def ser_simps)

lemma serialize_str_enc:
  "ready s \<Longrightarrow> sig s = signature.Str \<or> sig s = signature.ObjectPath \<Longrightarrow>
     serialize_str N E v s = map_ok (write_all s) (enc_str E (endian_of s) (abs_pos s) v)"
  by (elim disjE; cases "usize_to_u32 (length v) :: (zerror, u32) res")
    (simp_all add: serialize_str_def dbus_alignment_def alignment_def enc_str_def ser_simps)

lemma serialize_signature_enc:
  "ready s \<Longrightarrow> sig s = signature.Signature \<Longrightarrow>
     serialize_str N E v s = map_ok (write_all s) (enc_sig v)"
  by (cases "usize_to_u8 (length v) :: (zerror, byte) res")
    (simp_all add: serialize_str_def dbus_alignment_def alignment_def enc_sig_def ser_simps pad_def)

lemma serialize_variant_signature_enc:
  "ready s \<Longrightarrow> sig s = signature.Variant \<Longrightarrow> from_str N v = Ok vs \<Longrightarrow>
     serialize_str N E v s = map_ok (write_all (s\<lparr>value_sign := Some vs\<rparr>)) (enc_sig v)"
  by (cases "usize_to_u8 (length v) :: (zerror, byte) res")
    (simp_all add: serialize_str_def dbus_alignment_def alignment_def enc_sig_def ser_simps pad_def)

end

text \<open>The alignment and the signature of the elements of an array or the keys of a dictionary.\<close>

fun element_of :: "signature \<Rightarrow> (nat \<times> signature) option" where
  "element_of (signature.Array c) = (case dbus_alignment c of Ok a \<Rightarrow> Some (a, c) | _ \<Rightarrow> None)"
| "element_of (signature.Dict k v) = Some (8, k)"
| "element_of _ = None"

lemma element_of_alignment: "element_of t = Some (a, c) \<Longrightarrow> a \<in> {1, 2, 4, 8}"
  by (cases t) (auto split: res.splits dest: dbus_alignment_Ok)

text \<open>The start of an array, as the serializer leaves it and as \<open>end_seq\<close> patches it.\<close>

definition array_head :: "endi \<Rightarrow> endian \<Rightarrow> nat \<Rightarrow> nat \<Rightarrow> u32 \<Rightarrow> byte list" where
  "array_head E e n a l = pad n 4 @ write_u32 E e l @ pad (n + padding n 4 + 4) a"

definition array_state :: "endi \<Rightarrow> ser \<Rightarrow> nat \<Rightarrow> signature \<Rightarrow> depths \<Rightarrow> byte list \<Rightarrow> ser" where
  "array_state E s a c d body =
     write_all (s\<lparr>sig := c, container_depths := d\<rparr>) (array_head E (endian_of s) (abs_pos s) a 0 @ body)"

definition array_seq :: "endi \<Rightarrow> ser \<Rightarrow> nat \<Rightarrow> seq_ser" where
  "array_seq E s a = \<lparr>q_start = bytes_written s + length (array_head E (endian_of s) (abs_pos s) a 0),
     q_first_padding = padding (abs_pos s + padding (abs_pos s) 4 + 4) a, q_array_signature = sig s\<rparr>"

lemma serialize_seq_elem:
  assumes "element_of (sig s) = Some (a, c)"
  shows "(case sig s of
          signature.Array child \<Rightarrow> bind_res (dbus_alignment child) (\<lambda>a. Ok (a, child))
        | signature.Dict key _ \<Rightarrow> Ok (DICT_ENTRY_ALIGNMENT_DBUS, key)
        | _ \<Rightarrow> Err x) = Ok (a, c)"
  using assms by (cases "sig s") (auto simp: DICT_ENTRY_ALIGNMENT_DBUS_def split: res.splits)

context endi_laws
begin

lemma serialize_seq_eq:
  assumes "ready s" "element_of (sig s) = Some (a, c)"
  shows "serialize_seq E s =
    map_ok (\<lambda>d. (array_seq E s a, array_state E s a c d [])) (inc_array (container_depths s))"
  using assms(1) element_of_alignment [OF assms(2)]
  by (cases "inc_array (container_depths s)")
    (simp_all add: serialize_seq_def serialize_seq_elem [OF assms(2)] array_seq_def array_state_def
      array_head_def ser_simps ARRAY_ALIGNMENT_DBUS_def Let_def add.assoc)

lemma end_seq_eq:
  assumes "ready s" "inc_array (container_depths s) = Ok d"
  shows "end_seq E (array_seq E s a) (array_state E s a c d body) =
    map_ok (\<lambda>l. write_all s (array_head E (endian_of s) (abs_pos s) a l @ body)) (usize_to_u32 (length body))"
proof (cases "usize_to_u32 (length body) :: (zerror, u32) res")
  case (Ok l)
  let ?fp = "pad (abs_pos s + padding (abs_pos s) 4 + 4) a"
  have "length (?fp @ body) = length body + padding (abs_pos s + padding (abs_pos s) 4 + 4) a"
    by simp
  note patch = patch_length [where r = "?fp @ body" and x = "pad (abs_pos s) 4" and w = "out_writer s",
      OF assms(1) write_u32_length write_u32_length, unfolded this, of "endian_of s" 0 "endian_of s" l]
  obtain w where w: "writer_seek (writer_write (out_writer s)
        (pad (abs_pos s) 4 @ write_u32 E (endian_of s) 0 @ ?fp @ body))
        (- int (length body + padding (abs_pos s + padding (abs_pos s) 4 + 4) a + 4)) = Ok w"
      "writer_seek (writer_write w (write_u32 E (endian_of s) l))
        (int (length body + padding (abs_pos s + padding (abs_pos s) 4 + 4) a)) =
       Ok (writer_write (out_writer s) (pad (abs_pos s) 4 @ write_u32 E (endian_of s) l @ ?fp @ body))"
    using patch by blast
  show ?thesis
    using Ok w dec_inc_depths(2) [OF assms(2)]
    by (simp add: end_seq_def array_seq_def array_state_def array_head_def write_all_def Let_def
        endian_of_def abs_pos_def)
qed (simp_all add: end_seq_def array_seq_def array_state_def)

end

text \<open>What the fields of a structure or a variant leave behind.\<close>

lemma struct_element_state [ser_simps]:
  "s\<lparr>out_writer := writer_write (out_writer s) bs, bytes_written := bytes_written s + length bs\<rparr> =
   write_all s bs"
  "s\<lparr>out_writer := writer_write (out_writer s) bs, bytes_written := bytes_written s + length bs,
     value_sign := vs\<rparr> = write_all (s\<lparr>value_sign := vs\<rparr>) bs"
  by (simp_all add: write_all_def)

lemma same_value_sign [simp]: "value_sign s = x \<Longrightarrow> s\<lparr>value_sign := x\<rparr> = s"
  by (cases s) simp

lemma same_sig [simp]: "sig s = t \<Longrightarrow> s\<lparr>sig := t\<rparr> = s"
  by (cases s) simp

lemma same_depths [simp]: "container_depths s = d \<Longrightarrow> s\<lparr>container_depths := d\<rparr> = s"
  by (cases s) simp

definition refines :: "nom \<Rightarrow> endi \<Rightarrow> dup \<Rightarrow> zvalue \<Rightarrow> bool" where
  "refines N E D v \<longleftrightarrow> (\<forall>s. ready s \<longrightarrow> sig s = value_signature v \<longrightarrow> value_sign s = None \<longrightarrow>
     serialize_inner N E D v s =
       map_ok (write_all s) (enc E (endian_of s) (container_depths s) v (abs_pos s)))"

lemma refinesD:
  "refines N E D v \<Longrightarrow> ready s \<Longrightarrow> sig s = value_signature v \<Longrightarrow> value_sign s = None \<Longrightarrow>
     serialize_inner N E D v s =
       map_ok (write_all s) (enc E (endian_of s) (container_depths s) v (abs_pos s))"
  by (simp add: refines_def)

lemma elements_enc:
  assumes "\<forall>e \<in> set es. refines N E D e \<and> value_signature e = c"
    "ready s" "sig s = c" "value_sign s = None"
  shows "serialize_elements N E D es s =
    map_ok (write_all s) (enc_all E (endian_of s) (container_depths s) es (abs_pos s))"
  using assms
proof (induction es arbitrary: s)
  case (Cons e es)
  have "serialize_inner N E D e s =
      map_ok (write_all s) (enc E (endian_of s) (container_depths s) e (abs_pos s))"
    using Cons.prems by (intro refinesD) auto
  moreover have "serialize_elements N E D es (write_all s bs) = map_ok (write_all (write_all s bs))
      (enc_all E (endian_of s) (container_depths s) es (abs_pos s + length bs))" for bs
    using Cons.IH [of "write_all s bs"] Cons.prems by simp
  ultimately show ?case
    using Cons.prems(2) by (auto simp: enc_then_def map_ok_def ser_simps bind_res_assoc intro!: arg_cong [where f = "bind_res _"])
qed simp

lemma entries_enc:
  assumes "\<forall>(k, v) \<in> set m. refines N E D k \<and> value_signature k = ks \<and> refines N E D v \<and> value_signature v = vs"
    "ready s" "sig s = ks" "value_sign s = None" "m_key_signature ms = ks" "m_value_signature ms = vs"
  shows "serialize_entries N E D ms m s =
    map_ok (write_all s) (enc_entries E (endian_of s) (container_depths s) m (abs_pos s))"
  using assms
proof (induction m arbitrary: s)
  case (Cons kv m)
  obtain k v where kv [simp]: "kv = (k, v)" by (cases kv)
  let ?e = "endian_of s" and ?d = "container_depths s"
  have [simp]: "s\<lparr>sig := m_key_signature ms\<rparr> = s"
    using Cons.prems by (cases s) simp
  have k: "serialize_inner N E D k (write_all s bs) =
      map_ok (write_all (write_all s bs)) (enc E ?e ?d k (abs_pos s + length bs))" for bs
    using Cons.prems refinesD [of N E D k "write_all s bs"] by simp
  have v: "serialize_inner N E D v (write_all (s\<lparr>sig := m_value_signature ms\<rparr>) bs) =
      map_ok (write_all (write_all (s\<lparr>sig := m_value_signature ms\<rparr>) bs)) (enc E ?e ?d v (abs_pos s + length bs))" for bs
    using Cons.prems refinesD [of N E D v "write_all (s\<lparr>sig := m_value_signature ms\<rparr>) bs"] by simp
  have m: "serialize_entries N E D ms m (write_all s bs) =
      map_ok (write_all (write_all s bs)) (enc_entries E ?e ?d m (abs_pos s + length bs))" for bs
    using Cons.IH [of "write_all s bs"] Cons.prems by simp
  show ?case
    using Cons.prems(2)
    by (auto simp: enc_then_def enc_basic_def map_ok_def serialize_key_def serialize_map_value_def
        DICT_ENTRY_ALIGNMENT_DBUS_def ser_simps k v m bind_res_assoc add.assoc
        intro!: arg_cong [where f = "bind_res _"])
qed simp

lemma fields_enc:
  assumes "\<forall>f \<in> set fs. refines N E D f" "ready s" "sig s = signature.Structure ss"
    "drop (t_field_idx t) ss = map value_signature fs" "value_sign s = None"
  shows "serialize_fields N E D fs (Struct_S t, s) =
    map_ok (\<lambda>bs. (Struct_S (t\<lparr>t_field_idx := t_field_idx t + length fs\<rparr>), write_all s bs))
      (enc_all E (endian_of s) (container_depths s) fs (abs_pos s))"
  using assms
proof (induction fs arbitrary: s t)
  case (Cons f fs)
  let ?i = "t_field_idx t"
  have i: "?i < length ss" "ss ! ?i = value_signature f" "drop (Suc ?i) ss = map value_signature fs"
    using Cons.prems(4) by (auto simp: nth_via_drop drop_Suc simp flip: tl_drop intro: ccontr)
  have "serialize_inner N E D f (s\<lparr>sig := ss ! ?i\<rparr>) = map_ok (write_all (s\<lparr>sig := ss ! ?i\<rparr>))
      (enc E (endian_of s) (container_depths s) f (abs_pos s))"
    using Cons.prems i refinesD [of N E D f "s\<lparr>sig := ss ! ?i\<rparr>"] by simp
  moreover have "serialize_fields N E D fs (Struct_S (t\<lparr>t_field_idx := Suc ?i\<rparr>), write_all s bs) =
      map_ok (\<lambda>bs'. (Struct_S (t\<lparr>t_field_idx := Suc ?i + length fs\<rparr>), write_all (write_all s bs) bs'))
      (enc_all E (endian_of s) (container_depths s) fs (abs_pos s + length bs))" for bs
    using Cons.IH [of "write_all s bs" "t\<lparr>t_field_idx := Suc ?i\<rparr>"] Cons.prems i by simp
  ultimately show ?case
    using Cons.prems(2,3,5) i(1)
    by (auto simp: enc_then_def map_ok_def serialize_field_def serialize_struct_element_def
        ser_simps bind_res_assoc intro!: arg_cong [where f = "bind_res _"])
qed simp

text \<open>
  Values whose encoding the format describes: their nested variants have signatures that can be
  written as a string, and they hold no file descriptors, which are encoded as indices into a
  list that is sent along, and no \<^verbatim>\<open>Maybe\<close>, which D-Bus lacks.
\<close>

fun plain :: "zvalue \<Rightarrow> bool" where
  "plain (Value v) = (plain v \<and> sig_wf (value_signature v))"
| "plain (Array es s) = list_all plain es"
| "plain (Dict m s) = list_all (\<lambda>(a, b). plain a \<and> plain b) m"
| "plain (Structure fs s) = list_all plain fs"
| "plain (Maybe x s) = False"
| "plain (Fd x) = False"
| "plain _ = True"

lemma variant_field:
  assumes "sig s = signature.Variant"
    "f (s\<lparr>sig := case value_sign s of Some x \<Rightarrow> x | None \<Rightarrow> signature.Variant, value_sign := None\<rparr>) =
      map_ok (\<lambda>bs. write_all (s\<lparr>sig := c, value_sign := vs\<rparr>) bs) r"
  shows "serialize_field f (Struct_S t, s) =
    map_ok (\<lambda>bs. (Struct_S t, write_all (s\<lparr>value_sign := vs\<rparr>) bs)) r"
  using assms by (cases r) (simp_all add: serialize_field_def serialize_struct_element_def ser_simps)

context wire_laws
begin

lemma serialize_value_enc:
  assumes "refines N E D v" "sig_wf (value_signature v)" "ready s" "sig s = signature.Variant"
    "value_sign s = None"
  shows "serialize_value N E D v s =
    map_ok (write_all s) (enc E (endian_of s) (container_depths s) (Value v) (abs_pos s))"
proof (cases "inc_variant (container_depths s)")
  case (Ok d)
  let ?s = "s\<lparr>container_depths := d\<rparr>" and ?v = "value_signature v" and ?t = "to_string (value_signature v)"
  let ?x = "Struct_S \<lparr>t_container_depths = container_depths s, t_field_idx = 0\<rparr>"
  have "from_str N ?t = Ok ?v"
    using assms(2) by (simp add: from_str_to_string)
  then have "serialize_str N E ?t ?s = map_ok (write_all (?s\<lparr>value_sign := Some ?v\<rparr>)) (enc_sig ?t)"
    using assms by (intro serialize_variant_signature_enc) auto
  then have sgn: "serialize_field (serialize_str N E ?t) (?x, ?s) =
      map_ok (\<lambda>bs. (?x, write_all (?s\<lparr>value_sign := Some ?v\<rparr>) bs)) (enc_sig ?t)"
    using assms(4,5) by (intro variant_field [where c = signature.Variant]) simp_all
  have "serialize_inner N E D v (write_all (?s\<lparr>sig := ?v\<rparr>) bs) =
      map_ok (write_all (write_all (?s\<lparr>sig := ?v\<rparr>) bs)) (enc E (endian_of s) d v (abs_pos s + length bs))" for bs
    using assms refinesD [of N E D v "write_all (?s\<lparr>sig := ?v\<rparr>) bs"] by simp
  then have payload: "serialize_field (serialize_inner N E D v) (?x, write_all (?s\<lparr>value_sign := Some ?v\<rparr>) bs) =
      map_ok (\<lambda>bs'. (?x, write_all (write_all ?s bs) bs')) (enc E (endian_of s) d v (abs_pos s + length bs))" for bs
    using assms(4,5) variant_field [where s = "write_all (?s\<lparr>value_sign := Some ?v\<rparr>) bs" and c = ?v and vs = None]
    by (simp add: ser_simps)
  have "serialize_struct E 2 s = Ok (?x, ?s)"
    using Ok assms(3,4)
    by (simp add: serialize_struct_def struct_variant_def dbus_alignment_def alignment_def pad_def ser_simps)
  moreover have "end_struct_seq E (?x, write_all ?s bs) = Ok (write_all s bs)" for bs
    by (simp add: end_struct_seq_def end_struct_def ser_simps)
  ultimately show ?thesis
    using Ok assms(3) by (simp add: sgn payload enc_then_def map_ok_def bind_res_assoc ser_simps)
qed (simp_all add: serialize_struct_def struct_variant_def dbus_alignment_def alignment_def assms
      add_padding_pad pad_def)

lemma array_enc:
  assumes "ready s" "element_of (sig s) = Some (a, c)"
    and body: "\<And>d. F (array_state E s a c d []) =
      map_ok (array_state E s a c d) (f d (abs_pos s + length (array_head E (endian_of s) (abs_pos s) a 0)))"
  shows "bind_res (serialize_seq E s) (\<lambda>(q, s). bind_res (F s) (end_seq E q)) =
    map_ok (write_all s) (enc_array E (endian_of s) (container_depths s) (abs_pos s) a f)"
proof (cases "inc_array (container_depths s)")
  case (Ok d)
  show ?thesis
    by (simp add: serialize_seq_eq [OF assms(1,2)] Ok body enc_array_def map_ok_def bind_res_assoc
        end_seq_eq [OF assms(1) Ok, unfolded map_ok_def] array_head_def Let_def add.assoc)
qed (simp_all add: serialize_seq_eq [OF assms(1,2)] enc_array_def)

lemma array_state_elements:
  assumes "\<forall>e \<in> set es. refines N E D e \<and> value_signature e = c" "ready s" "value_sign s = None"
  shows "serialize_elements N E D es (array_state E s a c d []) =
    map_ok (array_state E s a c d) (enc_all E (endian_of s) d es
      (abs_pos s + length (array_head E (endian_of s) (abs_pos s) a 0)))"
  using elements_enc [OF assms(1), where s = "array_state E s a c d []"] assms(2,3)
  by (simp add: array_state_def ser_simps map_ok_def)

lemma refines_Array:
  assumes "list_all (\<lambda>e. refines N E D e \<and> value_signature e = c) es"
  shows "refines N E D (Array es (signature.Array c))"
proof -
  have "serialize_inner N E D (Array es (signature.Array c)) s = map_ok (write_all s)
      (enc E (endian_of s) (container_depths s) (Array es (signature.Array c)) (abs_pos s))"
    if s: "ready s" "sig s = signature.Array c" "value_sign s = None" for s
  proof (cases "dbus_alignment c")
    case (Ok a)
    then have el: "element_of (sig s) = Some (a, c)" using s by simp
    show ?thesis
      using array_enc [OF s(1) el, of "serialize_elements N E D es" "\<lambda>d. enc_all E (endian_of s) d es"]
        array_state_elements [of es D c s] assms s Ok by (simp add: list_all_iff)
  qed (use s in \<open>simp_all add: serialize_seq_def ser_simps ARRAY_ALIGNMENT_DBUS_def dbus_alignment_def
      alignment_def split: option.splits\<close>)
  then show ?thesis by (simp add: refines_def)
qed

lemma refines_Dict:
  assumes "list_all (\<lambda>(k, v). refines N E D k \<and> value_signature k = ks \<and>
    refines N E D v \<and> value_signature v = vs) m"
  shows "refines N E D (Dict m (signature.Dict ks vs))"
proof -
  have "serialize_inner N E D (Dict m (signature.Dict ks vs)) s = map_ok (write_all s)
      (enc E (endian_of s) (container_depths s) (Dict m (signature.Dict ks vs)) (abs_pos s))"
    if s: "ready s" "sig s = signature.Dict ks vs" "value_sign s = None" for s
  proof -
    have el: "element_of (sig s) = Some (8, ks)" using s by simp
    let ?ms = "\<lambda>q. \<lparr>m_seq = q, m_key_signature = ks, m_value_signature = vs\<rparr>"
    let ?q = "array_seq E s 8"
    have "serialize_entries N E D (?ms ?q) m (array_state E s 8 ks d []) =
        map_ok (array_state E s 8 ks d) (enc_entries E (endian_of s) d m
          (abs_pos s + length (array_head E (endian_of s) (abs_pos s) 8 0)))" for d
      using entries_enc [where m = m and s = "array_state E s 8 ks d []" and ms = "?ms ?q" and ks = ks and vs = vs]
        assms s by (simp add: array_state_def ser_simps map_ok_def list_all_iff)
    from array_enc [OF s(1) el, of "serialize_entries N E D (?ms ?q) m"
        "\<lambda>d. enc_entries E (endian_of s) d m", OF this] show ?thesis
      using s by (cases "inc_array (container_depths s)") (simp_all add: serialize_map_def serialize_seq_eq [OF s(1) el])
  qed
  then show ?thesis by (simp add: refines_def)
qed

lemma refines_Structure:
  assumes "list_all (refines N E D) fs" "fs \<noteq> []"
  shows "refines N E D (Structure fs (signature.Structure (map value_signature fs)))"
proof -
  let ?sig = "signature.Structure (map value_signature fs)"
  have "serialize_inner N E D (Structure fs ?sig) s = map_ok (write_all s)
      (enc E (endian_of s) (container_depths s) (Structure fs ?sig) (abs_pos s))"
    if s: "ready s" "sig s = ?sig" "value_sign s = None" for s
  proof (cases "inc_structure (container_depths s)")
    case (Ok d)
    let ?t = "\<lparr>t_container_depths = container_depths s, t_field_idx = 0\<rparr>"
    let ?s = "write_all (s\<lparr>container_depths := d\<rparr>) (pad (abs_pos s) 8)"
    have "serialize_struct E (length fs) s = Ok (Struct_S ?t, ?s)"
      using s assms(2) Ok by (simp add: serialize_struct_def struct_structure_def dbus_alignment_def
          alignment_def ser_simps)
    moreover have "serialize_fields N E D fs (Struct_S ?t, ?s) =
        map_ok (\<lambda>bs. (Struct_S (?t\<lparr>t_field_idx := length fs\<rparr>), write_all ?s bs))
          (enc_all E (endian_of s) d fs (abs_pos s + padding (abs_pos s) 8))"
      using fields_enc [where s = ?s and t = ?t and fs = fs] s assms(1) by (simp add: list_all_iff)
    ultimately show ?thesis
      using s Ok by (simp add: enc_then_def enc_basic_def map_ok_def bind_res_assoc end_struct_seq_def
          end_struct_def ser_simps)
  qed (use s assms(2) in \<open>simp_all add: serialize_struct_def struct_structure_def dbus_alignment_def
      alignment_def ser_simps\<close>)
  then show ?thesis by (simp add: refines_def)
qed

lemmas basic_enc = refines_def serialize_basic_enc dbus_alignment_def alignment_def
  serialize_bool_def serialize_i16_def serialize_i64_def serialize_u8_def serialize_u16_def
  serialize_u32_def serialize_u64_def serialize_f64_def serialize_i32_def

lemma plain_refines: "value_ok v \<Longrightarrow> plain v \<Longrightarrow> refines N E D v"
proof (induction v)
  case (Value v)
  then have "refines N E D v" by simp
  with Value.prems show ?case
    by (auto simp: refines_def [of N E D "Value v"] serialize_value_enc
        simp del: enc.simps serialize_value.simps)
next
  case (Array es s)
  then obtain c where "s = signature.Array c" by auto
  with Array show ?case by (auto simp: list_all_iff intro!: refines_Array)
next
  case (Dict m s)
  then obtain ks vs where s: "s = signature.Dict ks vs" by auto
  have "refines N E D k \<and> value_signature k = ks \<and> refines N E D v \<and> value_signature v = vs"
    if "(k, v) \<in> set m" for k v
    using Dict.prems that Dict.IH(1) [OF that] Dict.IH(2) [OF that] s by (fastforce simp: list_all_iff)
  then show ?case
    unfolding s by (intro refines_Dict) (auto simp: list_all_iff)
next
  case (Structure fs s)
  then have "refines N E D (Structure fs (signature.Structure (map value_signature fs)))"
    by (intro refines_Structure) (auto simp: list_all_iff)
  with Structure.prems show ?case by simp
qed (simp_all add: basic_enc serialize_str_enc serialize_signature_enc)

text \<open>The entry points: the bytes of \<^verbatim>\<open>to_bytes\<close> and the size that \<^verbatim>\<open>serialized_size\<close> predicts.\<close>

lemma serialize_value_new:
  assumes "value_ok v" "plain v" "sig_wf (value_signature v)" "at_end w"
  shows "serialize_value N E D v (new_serializer signature.Variant w f c) =
    map_ok (write_all (new_serializer signature.Variant w f c))
      (enc E (c_endian c) no_depths (Value v) (c_position c))"
  using serialize_value_enc [OF plain_refines [OF assms(1,2)] assms(3),
      where s = "new_serializer signature.Variant w f c"] assms(4)
  by (simp add: new_serializer_def endian_of_def abs_pos_def del: enc.simps)

lemma to_bytes_enc:
  assumes "value_ok v" "plain v" "sig_wf (value_signature v)"
  shows "to_bytes N E D c v =
    map_ok (\<lambda>bs. new_fds bs c []) (enc E (c_endian c) no_depths (Value v) (c_position c))"
proof -
  have "serialize_value N E D v (new_serializer signature.Variant (Cursor [] 0) (Fds []) c) =
      map_ok (write_all (new_serializer signature.Variant (Cursor [] 0) (Fds []) c))
        (enc E (c_endian c) no_depths (Value v) (c_position c))"
    by (rule serialize_value_new [OF assms]) simp
  then show ?thesis
    by (cases "enc E (c_endian c) no_depths (Value v) (c_position c)")
      (simp_all add: to_bytes_def to_bytes_for_signature_def to_writer_for_signature_def
        new_serializer_def write_all_def del: enc.simps)
qed

lemma serialized_size_enc:
  assumes "value_ok v" "plain v" "sig_wf (value_signature v)"
  shows "serialized_size c signature.Variant (serialize_value N E D v) =
    map_ok (\<lambda>bs. \<lparr>z_size = length bs, z_context = c, z_num_fds = 0\<rparr>)
      (enc E (c_endian c) no_depths (Value v) (c_position c))"
proof -
  have "serialize_value N E D v (new_serializer signature.Variant NullWriteSeek (Number 0) c) =
      map_ok (write_all (new_serializer signature.Variant NullWriteSeek (Number 0) c))
        (enc E (c_endian c) no_depths (Value v) (c_position c))"
    by (rule serialize_value_new [OF assms]) simp
  then show ?thesis
    by (cases "enc E (c_endian c) no_depths (Value v) (c_position c)")
      (simp_all add: serialized_size_def new_serializer_def write_all_def del: enc.simps)
qed

end

interpretation wr: wire_laws nom_ref endi_ref
  by unfold_locales

section \<open>Properties\<close>

text \<open>C4: \<^verbatim>\<open>to_bytes\<close> of a value writes the D-Bus wire format of its variant: the serializer that
  patches array lengths into the bytes already written, threads the signatures of the fields
  and counts the nesting computes the encoding function \<open>enc\<close>, its errors and panics included. The value
  has no file descriptors and no \<^verbatim>\<open>Maybe\<close>, which the format does not have.\<close>

theorem to_bytes_wire_format:
  assumes "nom_laws N" "endi_laws E" "value_ok v" "plain v" "sig_wf (value_signature v)"
  shows "to_bytes N E D c v =
    map_ok (\<lambda>bs. new_fds bs c []) (enc E (c_endian c) no_depths (Value v) (c_position c))"
  using wire_laws.to_bytes_enc [OF wire_laws.intro [OF assms(1,2)] assms(3-5)] .

definition sample_value :: zvalue where
  "sample_value = Structure [Array [Str ''a''] (signature.Array signature.Str), U64 7]
     (signature.Structure [signature.Array signature.Str, signature.U64])"

definition sample_bytes :: "byte list" where
  "sample_bytes = [byte_of 5] @ ''(ast)'' @ map byte_of [0, 0, 6, 0, 0, 0, 1, 0, 0, 0] @ ''a'' @
     map byte_of [0, 0, 0, 0, 0, 0, 0, 7, 0, 0, 0, 0, 0, 0, 0]"

lemma numeral_nat_bytes:
  "nat_bytes (numeral k) n = byte_of (n mod 256) # nat_bytes (pred_numeral k) (n div 256)"
  "replicate (numeral k) x = x # replicate (pred_numeral k) x"
  by (simp_all only: numeral_eq_Suc nat_bytes.simps replicate.simps)

lemma sample_encoding:
  "enc endi_ref Little no_depths (Value sample_value) 0 = Ok sample_bytes"
  by (simp add: sample_value_def sample_bytes_def enc_then_def enc_basic_def enc_str_def enc_sig_def
      enc_array_def map_ok_def usize_to_u32_def usize_to_u8_def pad_def padding_numeral endi_ref_def
      byte_order_def inc_structure_def inc_array_def inc_variant_def depth_defs no_depths_def
      dbus_alignment_def alignment_def to_string_def numeral_nat_bytes
      cong: bind_res_weak_cong)

lemma sample_value_ok: "value_ok sample_value" "plain sample_value" "sig_wf (value_signature sample_value)"
  by (simp_all add: sample_value_def)

theorem to_bytes_wire_format_witness:
  "to_bytes nom_ref endi_ref (\<lambda>_. Some) \<lparr>c_endian = Little, c_position = 0\<rparr> sample_value =
     Ok (new_fds sample_bytes \<lparr>c_endian = Little, c_position = 0\<rparr> [])"
  using to_bytes_wire_format [OF nr.nom_laws_axioms er.endi_laws_axioms sample_value_ok]
  by (simp add: sample_encoding del: enc.simps)

text \<open>C28: \<^verbatim>\<open>serialized_size\<close>, which runs the serializer on a writer that drops everything, predicts
  the number of bytes of \<^verbatim>\<open>to_bytes\<close>, and fails exactly when \<^verbatim>\<open>to_bytes\<close> does, with the same error, for
  values without file descriptors and \<^verbatim>\<open>Maybe\<close>.\<close>

theorem serialized_size_exact:
  assumes "nom_laws N" "endi_laws E" "value_ok v" "plain v" "sig_wf (value_signature v)"
  shows "serialized_size c signature.Variant (serialize_value N E D v) =
    map_ok (\<lambda>dat. \<lparr>z_size = length (data_bytes dat), z_context = c, z_num_fds = 0\<rparr>) (to_bytes N E D c v)"
proof -
  note w = wire_laws.intro [OF assms(1,2)]
  show ?thesis
    unfolding wire_laws.serialized_size_enc [OF w assms(3-5)] wire_laws.to_bytes_enc [OF w assms(3-5)]
    by (simp add: map_ok_def bind_res_assoc new_fds_def data_bytes_def)
qed

theorem serialized_size_exact_witness:
  "\<exists>z. serialized_size \<lparr>c_endian = Little, c_position = 0\<rparr> signature.Variant
      (serialize_value nom_ref endi_ref (\<lambda>_. Some) sample_value) = Ok z \<and> z_size z = 32"
proof -
  have "to_bytes nom_ref endi_ref (\<lambda>_. Some) \<lparr>c_endian = Little, c_position = 0\<rparr> sample_value =
      Ok (new_fds sample_bytes \<lparr>c_endian = Little, c_position = 0\<rparr> [])"
    using wr.to_bytes_enc [OF sample_value_ok] by (simp add: sample_encoding del: enc.simps)
  then show ?thesis
    using serialized_size_exact [OF nr.nom_laws_axioms er.endi_laws_axioms sample_value_ok,
        of "\<lparr>c_endian = Little, c_position = 0\<rparr>" "\<lambda>_. Some"]
    by (simp add: new_fds_def data_bytes_def sample_bytes_def)
qed

end
