(* ===== verification/DBus_De.thy ===== *)
theory DBus_De
  imports DBus_Ser
begin

text \<open>
  The D-Bus deserializer: \<^verbatim>\<open>DeserializerCommon\<close> of \<^verbatim>\<open>zvariant/src/de.rs\<close>, the serde
  \<^verbatim>\<open>Deserializer\<close> of \<^verbatim>\<open>zvariant/src/dbus/de.rs\<close> with its array, map, structure and variant
  accessors, and the visitors of \<^verbatim>\<open>zvariant/src/value.rs\<close> that build a \<^verbatim>\<open>Value\<close> from them.

  The deserializer is a record that is threaded through. An action returns its result and the
  state it leaves behind, also when it fails, since \<^verbatim>\<open>ArrayDeserializer::next\<close> looks at the
  position before it looks at the result. The recursion between visitors and accessors is not
  structural (the signature of a variant comes out of the data), so \<open>de_value\<close> counts down a
  fuel, and running out of it is \<open>None\<close>, apart from all results of the code.
\<close>

section \<open>DeserializerCommon\<close>

record de =
  de_ctxt :: ctx
  de_bytes :: "byte list"
  de_fds :: "u32 list option"
  de_pos :: nat
  de_sig :: signature
  de_depths :: depths

type_synonym 'a dm = "de \<Rightarrow> ((zerror, 'a) res \<times> de) option"

definition lift :: "(zerror, 'a) res \<Rightarrow> 'a dm" where
  "lift r d = Some (r, d)"

abbreviation ret :: "'a \<Rightarrow> 'a dm" where
  "ret x \<equiv> lift (Ok x)"

abbreviation throw :: "zerror \<Rightarrow> 'a dm" where
  "throw e \<equiv> lift (Err e)"

text \<open>The \<^verbatim>\<open>?\<close> operator.\<close>

definition dbind :: "'a dm \<Rightarrow> ('a \<Rightarrow> 'b dm) \<Rightarrow> 'b dm" where
  "dbind m f d =
     (case m d of
        None \<Rightarrow> None
      | Some (r, d') \<Rightarrow>
          (case r of Ok x \<Rightarrow> f x d' | Err e \<Rightarrow> Some (Err e, d') | Panic \<Rightarrow> Some (Panic, d')))"

definition new_deserializer :: "byte list \<Rightarrow> u32 list option \<Rightarrow> signature \<Rightarrow> ctx \<Rightarrow> de" where
  "new_deserializer bs f s c = \<lparr>de_ctxt = c, de_bytes = bs, de_fds = f, de_pos = 0, de_sig = s,
     de_depths = no_depths\<rparr>"

definition de_endian :: "de \<Rightarrow> endian" where
  "de_endian d = c_endian (de_ctxt d)"

definition de_abs_pos :: "de \<Rightarrow> nat" where
  "de_abs_pos d = c_position (de_ctxt d) + de_pos d"

definition get_fd :: "u32 \<Rightarrow> u32 dm" where
  "get_fd idx d =
     (case de_fds d of
        Some fs \<Rightarrow> if unat idx < length fs then ret (fs ! unat idx) d else throw UnknownFd d
      | None \<Rightarrow> throw UnknownFd d)"

text \<open>The first non-zero byte, if there is one.\<close>

fun find_nonzero :: "byte list \<Rightarrow> byte option" where
  "find_nonzero [] = None"
| "find_nonzero (b # bs) = (if code b \<noteq> 0 then Some b else find_nonzero bs)"

definition parse_padding :: "nat \<Rightarrow> nat dm" where
  "parse_padding a d =
     (let p = padding (de_abs_pos d) a in
      if 0 < p then
        (if length (de_bytes d) < de_pos d + p
         then throw (Message (Invalid_length (length (de_bytes d)))) d
         else case find_nonzero (take p (drop (de_pos d) (de_bytes d))) of
             Some b \<Rightarrow> throw (PaddingNot0 b) d
           | None \<Rightarrow> ret p (d\<lparr>de_pos := de_pos d + p\<rparr>))
      else ret p d)"

definition next_slice :: "nat \<Rightarrow> byte list dm" where
  "next_slice len d =
     (if length (de_bytes d) < de_pos d + len
      then throw (Message (Invalid_length (length (de_bytes d)))) d
      else ret (take len (drop (de_pos d) (de_bytes d))) (d\<lparr>de_pos := de_pos d + len\<rparr>))"

definition next_const_size_slice :: "signature \<Rightarrow> byte list dm" where
  "next_const_size_slice t =
     dbind (lift (dbus_alignment t)) (\<lambda>a. dbind (parse_padding a) (\<lambda>_. next_slice a))"

section \<open>Basic types\<close>

definition deserialize_bool :: "endi \<Rightarrow> bool dm" where
  "deserialize_bool E d =
     dbind (next_const_size_slice signature.Bool) (\<lambda>bs.
       let v = read_u32 E (de_endian d) bs in
       if v = 1 then ret True else if v = 0 then ret False else throw (Message Invalid_value)) d"

definition deserialize_u8 :: "byte dm" where
  "deserialize_u8 = dbind (next_const_size_slice signature.U8) (\<lambda>bs.
     case bs of b # _ \<Rightarrow> ret b | [] \<Rightarrow> lift Panic)"

text \<open>\<^verbatim>\<open>deserialize_basic!\<close>, with the reader of each width.\<close>

definition deserialize_u16 :: "endi \<Rightarrow> signature \<Rightarrow> u16 dm" where
  "deserialize_u16 E t d =
     dbind (next_const_size_slice t) (\<lambda>bs. ret (read_u16 E (de_endian d) bs)) d"

definition deserialize_u32 :: "endi \<Rightarrow> signature \<Rightarrow> u32 dm" where
  "deserialize_u32 E t d =
     dbind (next_const_size_slice t) (\<lambda>bs. ret (read_u32 E (de_endian d) bs)) d"

definition deserialize_u64 :: "endi \<Rightarrow> signature \<Rightarrow> u64 dm" where
  "deserialize_u64 E t d =
     dbind (next_const_size_slice t) (\<lambda>bs. ret (read_u64 E (de_endian d) bs)) d"

definition deserialize_i32 :: "endi \<Rightarrow> u32 dm" where
  "deserialize_i32 E d =
     (case de_sig d of
        signature.Fd \<Rightarrow>
          dbind (lift (dbus_alignment signature.U32)) (\<lambda>a.
          dbind (parse_padding a) (\<lambda>_.
          dbind (next_slice a) (\<lambda>bs. get_fd (read_u32 E (de_endian d) bs)))) d
      | _ \<Rightarrow> deserialize_u32 E signature.I32 d)"

text \<open>The byte behind the string is skipped, whether or not it is there and 0.\<close>

definition deserialize_str :: "endi \<Rightarrow> string dm" where
  "deserialize_str E d =
     dbind
       (if de_sig d = signature.Signature \<or> de_sig d = signature.Variant
        then dbind (next_slice 1) (\<lambda>bs. case bs of b # _ \<Rightarrow> ret (code b) | [] \<Rightarrow> lift Panic)
        else if de_sig d = signature.Str \<or> de_sig d = signature.ObjectPath
        then dbind (lift (dbus_alignment signature.U32)) (\<lambda>a.
             dbind (parse_padding a) (\<lambda>_.
             dbind (next_slice a) (\<lambda>bs. ret (unat (read_u32 E (de_endian d) bs)))))
        else throw (SignatureMismatch (de_sig d) ''`s`, `g`, `o` or `v`'')) (\<lambda>len.
     dbind (next_slice len) (\<lambda>s.
     if byte_of 0 \<in> set s then throw (Message Invalid_value)
     else (\<lambda>d. (if valid_utf8 s then ret s else throw Utf8) (d\<lparr>de_pos := de_pos d + 1\<rparr>)))) d"

text \<open>\<^verbatim>\<open>Deserialize for Signature\<close>.\<close>

definition deserialize_signature :: "nom \<Rightarrow> endi \<Rightarrow> signature dm" where
  "deserialize_signature N E = dbind (deserialize_str E) (\<lambda>s.
     lift (map_err (\<lambda>_. Message Custom) (from_str N s)))"

section \<open>Arrays\<close>

record array_de =
  ad_len :: nat
  ad_start :: nat
  ad_element_alignment :: nat
  ad_array_signature :: signature

definition set_depths :: "(zerror, depths) res \<Rightarrow> unit dm" where
  "set_depths r d = dbind (lift r) (\<lambda>x d. ret () (d\<lparr>de_depths := x\<rparr>)) d"

definition set_sig :: "signature \<Rightarrow> unit dm" where
  "set_sig s d = ret () (d\<lparr>de_sig := s\<rparr>)"

definition array_de_new :: "endi \<Rightarrow> array_de dm" where
  "array_de_new E =
     dbind (parse_padding ARRAY_ALIGNMENT_DBUS) (\<lambda>_.
     dbind (\<lambda>d. set_depths (inc_array (de_depths d)) d) (\<lambda>_.
     dbind (next_slice 4) (\<lambda>bs d.
     (let len = unat (read_u32 E (de_endian d) bs) in
      dbind
        (case de_sig d of
           signature.Array child \<Rightarrow> dbind (lift (dbus_alignment child)) (\<lambda>a. ret (a, child))
         | signature.Dict key _ \<Rightarrow> ret (DICT_ENTRY_ALIGNMENT_DBUS, key)
         | _ \<Rightarrow> throw (SignatureMismatch (de_sig d) ''an array or dict'')) (\<lambda>(a, child_signature).
      dbind (parse_padding a) (\<lambda>_ d'.
        ret \<lparr>ad_len = len, ad_start = de_pos d', ad_element_alignment = a, ad_array_signature = de_sig d\<rparr>
          (d'\<lparr>de_sig := child_signature\<rparr>))) d))))"

text \<open>\<^verbatim>\<open>ArrayDeserializer::next\<close>: an element that ends behind the array is an error, whatever
  became of it.\<close>

definition array_next :: "array_de \<Rightarrow> 'a dm \<Rightarrow> 'a dm" where
  "array_next ad f d =
     (case f d of
        None \<Rightarrow> None
      | Some (v, d') \<Rightarrow>
          if ad_start ad + ad_len ad < de_pos d'
          then Some (Err (Message (Invalid_length (ad_len ad))), d') else Some (v, d'))"

definition array_done :: "array_de \<Rightarrow> de \<Rightarrow> bool" where
  "array_done ad d \<longleftrightarrow> de_pos d = ad_start ad + ad_len ad"

definition array_end :: "array_de \<Rightarrow> unit dm" where
  "array_end ad = dbind (\<lambda>d. set_depths (dec_array (de_depths d)) d) (\<lambda>_. set_sig (ad_array_signature ad))"

definition array_next_element :: "array_de \<Rightarrow> 'a dm \<Rightarrow> 'a option dm" where
  "array_next_element ad f d =
     (if array_done ad d then dbind (array_end ad) (\<lambda>_. ret None) d
      else dbind (parse_padding (ad_element_alignment ad)) (\<lambda>_.
           dbind (array_next ad f) (\<lambda>v. ret (Some v))) d)"

definition deserialize_ay :: "endi \<Rightarrow> byte list dm" where
  "deserialize_ay E d =
     (if de_sig d \<noteq> signature.Array signature.U8 then throw (Message Invalid_type) d
      else dbind (array_de_new E) (\<lambda>ad. dbind (array_end ad) (\<lambda>_. next_slice (ad_len ad))) d)"

record map_de =
  md_ad :: array_de
  md_key_signature :: signature
  md_value_signature :: signature

definition map_de_new :: "endi \<Rightarrow> map_de dm" where
  "map_de_new E d =
     (case de_sig d of
        signature.Dict key val \<Rightarrow>
          dbind (array_de_new E) (\<lambda>ad.
            ret \<lparr>md_ad = ad, md_key_signature = key, md_value_signature = val\<rparr>) d
      | _ \<Rightarrow> throw (SignatureMismatch (de_sig d) ''a dict'') d)"

definition next_key_seed :: "map_de \<Rightarrow> 'a dm \<Rightarrow> 'a option dm" where
  "next_key_seed m f = array_next_element (md_ad m) f"

definition next_value_seed :: "map_de \<Rightarrow> 'a dm \<Rightarrow> 'a dm" where
  "next_value_seed m f d =
     (case array_next (md_ad m) f (d\<lparr>de_sig := md_value_signature m\<rparr>) of
        None \<Rightarrow> None
      | Some (v, d') \<Rightarrow> Some (v, d'\<lparr>de_sig := md_key_signature m\<rparr>))"

section \<open>Structures and variants\<close>

datatype value_parse_stage = Signature_Stage | Value_Stage | Done_Stage

text \<open>The accessors that a visitor of a sequence can meet.\<close>

datatype seq_access =
    Value_Access value_parse_stage nat
  | Array_Access array_de
  | Struct_Access nat nat

definition struct_de_new :: "seq_access dm" where
  "struct_de_new d =
     (case de_sig d of
        signature.Structure flds \<Rightarrow>
          dbind (parse_padding STRUCT_ALIGNMENT_DBUS) (\<lambda>_.
          dbind (\<lambda>d. set_depths (inc_structure (de_depths d)) d) (\<lambda>_.
          ret (Struct_Access 0 (length flds)))) d
      | _ \<Rightarrow> lift Panic d)"

text \<open>A field is read by a deserializer of its own; only the position comes back, and only if
  the field was read.\<close>

definition struct_next_element :: "nat \<Rightarrow> nat \<Rightarrow> 'a dm \<Rightarrow> ('a option \<times> seq_access) dm" where
  "struct_next_element field_idx num_fields f d =
     (if field_idx = num_fields then ret (None, Struct_Access field_idx num_fields) d
      else case de_sig d of
        signature.Structure flds \<Rightarrow>
          if field_idx < length flds
          then (case f (d\<lparr>de_sig := flds ! field_idx\<rparr>) of
              None \<Rightarrow> None
            | Some (v, d') \<Rightarrow>
                dbind (lift v) (\<lambda>v d.
                dbind (\<lambda>d. if field_idx + 1 = num_fields
                       then set_depths (dec_structure (de_depths d)) d else ret () d) (\<lambda>_.
                ret (Some v, Struct_Access (field_idx + 1) num_fields)) (d\<lparr>de_pos := de_pos d'\<rparr>)) d)
          else throw (SignatureMismatch (de_sig d) ''a struct'') d
      | _ \<Rightarrow> lift Panic d)"

definition value_next_element ::
  "nom \<Rightarrow> value_parse_stage \<Rightarrow> nat \<Rightarrow> 'a dm \<Rightarrow> ('a option \<times> seq_access) dm" where
  "value_next_element N stage sig_start f d =
     (case stage of
        Signature_Stage \<Rightarrow> dbind f (\<lambda>v. ret (Some v, Value_Access Value_Stage sig_start)) d
      | Value_Stage \<Rightarrow>
          if sig_start < length (de_bytes d) then
            (let sig_len = code (de_bytes d ! sig_start);
                 sig_end = sig_start + 1 + sig_len;
                 value_start = sig_end + 1 in
             dbind (lift (subslice (de_bytes d) (sig_start + 1) sig_end)) (\<lambda>slice.
             dbind (lift (map_err SignatureParse (from_bytes N slice))) (\<lambda>s.
             dbind (lift (subslice_from (de_bytes d) value_start)) (\<lambda>bs.
             dbind (lift (inc_variant (de_depths d))) (\<lambda>dep d.
               case f \<lparr>de_ctxt = (de_ctxt d)\<lparr>c_position := c_position (de_ctxt d) + value_start\<rparr>,
                       de_bytes = bs, de_fds = de_fds d, de_pos = 0, de_sig = s, de_depths = dep\<rparr> of
                 None \<Rightarrow> None
               | Some (v, d') \<Rightarrow>
                   dbind (lift v) (\<lambda>v. ret (Some v, Value_Access Done_Stage sig_start))
                     (d\<lparr>de_pos := de_pos d + de_pos d'\<rparr>))))) d)
          else lift Panic d
      | Done_Stage \<Rightarrow> ret (None, Value_Access Done_Stage sig_start) d)"

definition next_element_seed :: "nom \<Rightarrow> seq_access \<Rightarrow> 'a dm \<Rightarrow> ('a option \<times> seq_access) dm" where
  "next_element_seed N sa f =
     (case sa of
        Value_Access stage sig_start \<Rightarrow> value_next_element N stage sig_start f
      | Array_Access ad \<Rightarrow> dbind (array_next_element ad f) (\<lambda>v. ret (v, Array_Access ad))
      | Struct_Access i n \<Rightarrow> struct_next_element i n f)"

section \<open>Dispatch\<close>

text \<open>
  The methods of a serde \<^verbatim>\<open>Visitor\<close> that the deserializer calls. \<open>visit_basic\<close> stands for
  \<^verbatim>\<open>visit_bool\<close>, \<^verbatim>\<open>visit_u8\<close> and so on, the argument under the constructor of its type.
\<close>

record 'v visitor =
  visit_basic :: "zvalue \<Rightarrow> (zerror, 'v) res"
  visit_i32 :: "u32 \<Rightarrow> (zerror, 'v) res"
  visit_borrowed_str :: "string \<Rightarrow> (zerror, 'v) res"
  visit_seq :: "seq_access \<Rightarrow> 'v dm"
  visit_map :: "map_de \<Rightarrow> 'v dm"

definition deserialize_seq :: "endi \<Rightarrow> 'v visitor \<Rightarrow> 'v dm" where
  "deserialize_seq E V d =
     dbind (lift (dbus_alignment (de_sig d))) (\<lambda>a.
     dbind (parse_padding a) (\<lambda>_ d.
     case de_sig d of
       signature.Variant \<Rightarrow> visit_seq V (Value_Access Signature_Stage (de_pos d)) d
     | signature.Array _ \<Rightarrow> dbind (array_de_new E) (\<lambda>ad. visit_seq V (Array_Access ad)) d
     | signature.Dict _ _ \<Rightarrow> dbind (map_de_new E) (\<lambda>m. visit_map V m) d
     | signature.Structure _ \<Rightarrow> dbind struct_de_new (\<lambda>sa. visit_seq V sa) d
     | signature.U8 \<Rightarrow> dbind deserialize_u8 (\<lambda>_. visit_seq V (Struct_Access 0 0)) d
     | s \<Rightarrow> throw (SignatureMismatch s ''a variant, array, dict, structure or u8'') d)) d"

definition deserialize_any :: "endi \<Rightarrow> 'v visitor \<Rightarrow> 'v dm" where
  "deserialize_any E V d =
     (case de_sig d of
        signature.Unit \<Rightarrow> throw (Message Invalid_type) d
      | signature.U8 \<Rightarrow> dbind deserialize_u8 (\<lambda>v. lift (visit_basic V (U8 v))) d
      | signature.Bool \<Rightarrow> dbind (deserialize_bool E) (\<lambda>v. lift (visit_basic V (Bool v))) d
      | signature.I16 \<Rightarrow> dbind (deserialize_u16 E signature.I16) (\<lambda>v. lift (visit_basic V (I16 v))) d
      | signature.U16 \<Rightarrow> dbind (deserialize_u16 E signature.U16) (\<lambda>v. lift (visit_basic V (U16 v))) d
      | signature.I32 \<Rightarrow> dbind (deserialize_i32 E) (\<lambda>v. lift (visit_i32 V v)) d
      | signature.Fd \<Rightarrow> dbind (deserialize_i32 E) (\<lambda>v. lift (visit_i32 V v)) d
      | signature.U32 \<Rightarrow> dbind (deserialize_u32 E signature.U32) (\<lambda>v. lift (visit_basic V (U32 v))) d
      | signature.I64 \<Rightarrow> dbind (deserialize_u64 E signature.I64) (\<lambda>v. lift (visit_basic V (I64 v))) d
      | signature.U64 \<Rightarrow> dbind (deserialize_u64 E signature.U64) (\<lambda>v. lift (visit_basic V (U64 v))) d
      | signature.F64 \<Rightarrow> dbind (deserialize_u64 E signature.F64) (\<lambda>v. lift (visit_basic V (F64 v))) d
      | signature.Str \<Rightarrow> dbind (deserialize_str E) (\<lambda>v. lift (visit_borrowed_str V v)) d
      | signature.ObjectPath \<Rightarrow> dbind (deserialize_str E) (\<lambda>v. lift (visit_borrowed_str V v)) d
      | signature.Signature \<Rightarrow> dbind (deserialize_str E) (\<lambda>v. lift (visit_borrowed_str V v)) d
      | signature.Variant \<Rightarrow> deserialize_seq E V d
      | signature.Array _ \<Rightarrow> deserialize_seq E V d
      | signature.Dict _ _ \<Rightarrow> deserialize_seq E V d
      | signature.Structure _ \<Rightarrow> deserialize_seq E V d
      | signature.Maybe _ \<Rightarrow> throw (Message Custom) d)"

section \<open>Visitors\<close>

text \<open>
  The visitors get the deserialization of the nested values as an argument \<open>R\<close>, a function of
  the signature of the seed.
\<close>

definition value_visitor_seq :: "nom \<Rightarrow> endi \<Rightarrow> (signature \<Rightarrow> zvalue dm) \<Rightarrow> seq_access \<Rightarrow> zvalue dm" where
  "value_visitor_seq N E R sa =
     dbind (next_element_seed N sa (deserialize_signature N E)) (\<lambda>(s, sa).
     case s of
       None \<Rightarrow> throw (Message Invalid_value)
     | Some s \<Rightarrow>
         dbind (next_element_seed N sa (R s)) (\<lambda>(v, _).
         case v of None \<Rightarrow> throw (Message Invalid_value) | Some v \<Rightarrow> ret v))"

definition value_visitor_map :: "nom \<Rightarrow> endi \<Rightarrow> (signature \<Rightarrow> zvalue dm) \<Rightarrow> map_de \<Rightarrow> zvalue dm" where
  "value_visitor_map N E R m =
     dbind (next_key_seed m (deserialize_str E)) (\<lambda>k.
     case k of
       None \<Rightarrow> throw (Message Invalid_value)
     | Some _ \<Rightarrow>
         dbind (next_value_seed m (deserialize_signature N E)) (\<lambda>s.
         dbind (next_key_seed m (deserialize_str E)) (\<lambda>_.
         next_value_seed m (R s))))"

text \<open>The loop of \<^verbatim>\<open>visit_array\<close>, at most \<open>k\<close> rounds of it.\<close>

fun visit_array_loop ::
  "nom \<Rightarrow> nat \<Rightarrow> zvalue dm \<Rightarrow> seq_access \<Rightarrow> zvalue list \<times> signature \<Rightarrow> (zvalue list \<times> signature) dm" where
  "visit_array_loop N 0 f sa arr d = None"
| "visit_array_loop N (Suc k) f sa arr d =
     dbind (next_element_seed N sa f) (\<lambda>(e, sa).
     case e of
       None \<Rightarrow> ret arr
     | Some e \<Rightarrow> dbind (lift (map_err (\<lambda>_. Message Custom) (array_append arr e)))
         (\<lambda>arr. visit_array_loop N k f sa arr)) d"

definition visit_array ::
  "nom \<Rightarrow> nat \<Rightarrow> (signature \<Rightarrow> zvalue dm) \<Rightarrow> signature \<Rightarrow> seq_access \<Rightarrow> zvalue dm" where
  "visit_array N k R seed sa =
     (case seed of
        signature.Array element_signature \<Rightarrow>
          dbind (lift (array_new_full_signature seed)) (\<lambda>arr.
          dbind (visit_array_loop N k (R element_signature) sa arr) (\<lambda>(es, s). ret (Array es s)))
      | _ \<Rightarrow> throw (Message Invalid_type))"

fun visit_struct_loop ::
  "nom \<Rightarrow> (signature \<Rightarrow> zvalue dm) \<Rightarrow> signature list \<Rightarrow> seq_access \<Rightarrow> zvalue list \<Rightarrow> zvalue list dm" where
  "visit_struct_loop N R [] sa builder d = ret builder d"
| "visit_struct_loop N R (field_signature # flds) sa builder d =
     dbind (next_element_seed N sa (R field_signature)) (\<lambda>(v, sa).
       visit_struct_loop N R flds sa (case v of None \<Rightarrow> builder | Some v \<Rightarrow> append_field builder v)) d"

definition visit_struct :: "nom \<Rightarrow> (signature \<Rightarrow> zvalue dm) \<Rightarrow> signature \<Rightarrow> seq_access \<Rightarrow> zvalue dm" where
  "visit_struct N R seed sa =
     (case seed of
        signature.Structure flds \<Rightarrow>
          dbind (visit_struct_loop N R flds sa []) (\<lambda>b.
            case build_with_signature b seed of (fs, s) \<Rightarrow> ret (Structure fs s))
      | _ \<Rightarrow> throw (Message Invalid_type))"

definition value_seed_seq ::
  "nom \<Rightarrow> endi \<Rightarrow> nat \<Rightarrow> (signature \<Rightarrow> zvalue dm) \<Rightarrow> signature \<Rightarrow> seq_access \<Rightarrow> zvalue dm" where
  "value_seed_seq N E k R seed sa =
     (case seed of
        signature.Array _ \<Rightarrow> visit_array N k R seed sa
      | signature.Structure _ \<Rightarrow> visit_struct N R seed sa
      | signature.Variant \<Rightarrow> dbind (value_visitor_seq N E R sa) (\<lambda>v. ret (Value v))
      | _ \<Rightarrow> throw (Message Invalid_value))"

fun visit_map_loop ::
  "nat \<Rightarrow> zvalue dm \<Rightarrow> zvalue dm \<Rightarrow> map_de \<Rightarrow> (zvalue \<times> zvalue) list \<times> signature
     \<Rightarrow> ((zvalue \<times> zvalue) list \<times> signature) dm" where
  "visit_map_loop 0 fk fv m dict d = None"
| "visit_map_loop (Suc k) fk fv m dict d =
     dbind (next_key_seed m fk) (\<lambda>key.
     case key of
       None \<Rightarrow> ret dict
     | Some key \<Rightarrow>
         dbind (next_value_seed m fv) (\<lambda>v.
         dbind (lift (map_err (\<lambda>_. Message Custom) (dict_append dict key v)))
           (\<lambda>dict. visit_map_loop k fk fv m dict))) d"

definition value_seed_map ::
  "nom \<Rightarrow> endi \<Rightarrow> nat \<Rightarrow> (signature \<Rightarrow> zvalue dm) \<Rightarrow> signature \<Rightarrow> map_de \<Rightarrow> zvalue dm" where
  "value_seed_map N E k R seed m =
     (case seed of
        signature.Dict key val \<Rightarrow>
          dbind (lift (dict_new_full_signature seed)) (\<lambda>dict.
          dbind (visit_map_loop k (R key) (R val) m dict) (\<lambda>(es, s). ret (Dict es s)))
      | signature.Variant \<Rightarrow> dbind (value_visitor_map N E R m) (\<lambda>v. ret (Value v))
      | _ \<Rightarrow> throw (Message Invalid_type))"

definition value_seed_i32 :: "signature \<Rightarrow> u32 \<Rightarrow> (zerror, zvalue) res" where
  "value_seed_i32 seed v = Ok (if seed = signature.Fd then Fd v else I32 v)"

definition value_seed_str :: "nom \<Rightarrow> signature \<Rightarrow> string \<Rightarrow> (zerror, zvalue) res" where
  "value_seed_str N seed v =
     (case seed of
        signature.Str \<Rightarrow> Ok (Str v)
      | signature.Signature \<Rightarrow>
          bind_res (map_err (\<lambda>_. Message Custom) (from_str N v)) (\<lambda>s. Ok (Signature s))
      | signature.ObjectPath \<Rightarrow> Ok (ObjectPath v)
      | _ \<Rightarrow> Err (Message Invalid_type))"

definition value_seed ::
  "nom \<Rightarrow> endi \<Rightarrow> nat \<Rightarrow> (signature \<Rightarrow> zvalue dm) \<Rightarrow> signature \<Rightarrow> zvalue visitor" where
  "value_seed N E k R seed = \<lparr>visit_basic = Ok, visit_i32 = value_seed_i32 seed,
     visit_borrowed_str = value_seed_str N seed, visit_seq = value_seed_seq N E k R seed,
     visit_map = value_seed_map N E k R seed\<rparr>"

text \<open>\<^verbatim>\<open>ValueVisitor\<close> rejects what is not a sequence or a map.\<close>

definition value_visitor :: "nom \<Rightarrow> endi \<Rightarrow> (signature \<Rightarrow> zvalue dm) \<Rightarrow> zvalue visitor" where
  "value_visitor N E R = \<lparr>visit_basic = (\<lambda>_. Err (Message Invalid_type)),
     visit_i32 = (\<lambda>_. Err (Message Invalid_type)),
     visit_borrowed_str = (\<lambda>_. Err (Message Invalid_type)),
     visit_seq = value_visitor_seq N E R, visit_map = value_visitor_map N E R\<rparr>"

text \<open>\<^verbatim>\<open>DeserializeSeed for ValueSeed\<close> with a budget of \<open>n\<close> levels and rounds.\<close>

primrec de_value :: "nom \<Rightarrow> endi \<Rightarrow> nat \<Rightarrow> signature \<Rightarrow> zvalue dm" where
  "de_value N E 0 = (\<lambda>seed d. None)"
| "de_value N E (Suc n) = (\<lambda>seed. deserialize_any E (value_seed N E n (de_value N E n) seed))"

definition deserialize_value :: "nom \<Rightarrow> endi \<Rightarrow> nat \<Rightarrow> zvalue dm" where
  "deserialize_value N E n = deserialize_any E (value_visitor N E (de_value N E n))"

text \<open>\<^verbatim>\<open>Data::deserialize_for_signature\<close>: the value that the action \<open>m\<close>, the \<^verbatim>\<open>Deserialize\<close> of its
  type, reads, and the number of bytes it took.\<close>

definition deserialize_for_signature ::
  "signature \<Rightarrow> 'a dm \<Rightarrow> data \<Rightarrow> (zerror, 'a \<times> nat) res option" where
  "deserialize_for_signature s m dat =
     (case m (new_deserializer (data_bytes dat) (Some (data_fds dat)) s (data_context dat)) of
        None \<Rightarrow> None
      | Some (r, d) \<Rightarrow> Some (bind_res r (\<lambda>v. Ok (v, de_pos d))))"

text \<open>\<^verbatim>\<open>Data::deserialize\<close> of a \<^verbatim>\<open>Value\<close>.\<close>

definition data_deserialize :: "nom \<Rightarrow> endi \<Rightarrow> nat \<Rightarrow> data \<Rightarrow> (zerror, zvalue \<times> nat) res option" where
  "data_deserialize N E n dat = deserialize_for_signature signature.Variant (deserialize_value N E n) dat"

end
