(* ===== verification/DBus_Roundtrip.thy ===== *)
theory DBus_Roundtrip
  imports DBus_Enc DBus_De
begin

text \<open>
  Reading back what was written: on the bytes of the wire format (\<open>enc\<close>) the deserializer returns
  the value they encode, at every position, in both byte orders, with a fuel that the value gives.
\<close>

section \<open>Values that can be read back\<close>

text \<open>
  Strings are UTF-8 without NUL, as the reader checks; signatures can be written as a string;
  the entries of a dictionary are in the order of their keys.
\<close>

definition dict_sorted :: "(zvalue \<times> zvalue) list \<Rightarrow> bool" where
  "dict_sorted m \<longleftrightarrow> sorted_wrt (\<lambda>(a, _) (b, _). value_cmp b a = (Ok Greater :: (zerror, ordering) res)) m"

fun readable :: "zvalue \<Rightarrow> bool" where
  "readable (Str v) = (valid_utf8 v \<and> byte_of 0 \<notin> set v)"
| "readable (ObjectPath v) = (valid_utf8 v \<and> byte_of 0 \<notin> set v)"
| "readable (Signature s) = (sig_wf s \<or> s = Unit)"
| "readable (Value v) = readable v"
| "readable (Array es s) = list_all readable es"
| "readable (Dict m s) = (dict_sorted m \<and> list_all (\<lambda>(a, b). readable a \<and> readable b) m)"
| "readable (Structure fs s) = list_all readable fs"
| "readable _ = True"

text \<open>Enough fuel to read a value: the levels below it, and the elements of its arrays.\<close>

fun fuel :: "zvalue \<Rightarrow> nat" where
  "fuel (Value v) = Suc (fuel v)"
| "fuel (Array es s) = Suc (Suc (length es + sum_list (map fuel es)))"
| "fuel (Dict m s) = Suc (Suc (length m + sum_list (map (\<lambda>(a, b). fuel a + fuel b) m)))"
| "fuel (Structure fs s) = Suc (sum_list (map fuel fs))"
| "fuel _ = 1"

lemma fuel_element: "e \<in> set es \<Longrightarrow> fuel e \<le> sum_list (map fuel es)"
  by (induction es) auto

lemma fuel_entry: "(a, b) \<in> set m \<Longrightarrow> fuel a + fuel b \<le> sum_list (map (\<lambda>(a, b). fuel a + fuel b) m)"
  by (induction m) auto

lemma nul_to_string: "byte_of 0 \<notin> set (write_as_string s b)"
  by (induction s arbitrary: b) (auto simp: char_of_def)

section \<open>What the deserializer has ahead of it\<close>

definition adv :: "de \<Rightarrow> nat \<Rightarrow> de" where
  "adv d n = d\<lparr>de_pos := de_pos d + n\<rparr>"

definition upcoming :: "de \<Rightarrow> byte list \<Rightarrow> bool" where
  "upcoming d x \<longleftrightarrow> de_pos d \<le> length (de_bytes d) \<and> prefix x (drop (de_pos d) (de_bytes d))"

lemma adv_sel [simp]:
  "de_ctxt (adv d n) = de_ctxt d" "de_bytes (adv d n) = de_bytes d" "de_fds (adv d n) = de_fds d"
  "de_pos (adv d n) = de_pos d + n" "de_sig (adv d n) = de_sig d" "de_depths (adv d n) = de_depths d"
  "de_endian (adv d n) = de_endian d" "de_abs_pos (adv d n) = de_abs_pos d + n"
  "adv (adv d n) m = adv d (n + m)" "adv d 0 = d"
  by (simp_all add: adv_def de_endian_def de_abs_pos_def add.assoc)

lemma de_update_sel [simp]:
  "de_endian (d\<lparr>de_sig := s\<rparr>) = de_endian d" "de_abs_pos (d\<lparr>de_sig := s\<rparr>) = de_abs_pos d"
  "de_endian (d\<lparr>de_depths := x\<rparr>) = de_endian d" "de_abs_pos (d\<lparr>de_depths := x\<rparr>) = de_abs_pos d"
  "upcoming (d\<lparr>de_sig := s\<rparr>) b = upcoming d b" "upcoming (d\<lparr>de_depths := x\<rparr>) b = upcoming d b"
  by (simp_all add: de_endian_def de_abs_pos_def upcoming_def)

lemma adv_pos [simp]:
  "(adv d n)\<lparr>de_pos := de_pos d + m\<rparr> = adv d m" "(adv d n)\<lparr>de_pos := Suc (de_pos d + m)\<rparr> = adv d (Suc m)"
  "(adv d n)\<lparr>de_pos := Suc (Suc (de_pos d + m))\<rparr> = adv d (Suc (Suc m))"
  by (simp_all add: adv_def)

lemma adv_update:
  "(adv d n)\<lparr>de_sig := s\<rparr> = adv (d\<lparr>de_sig := s\<rparr>) n"
  "(adv d n)\<lparr>de_depths := x\<rparr> = adv (d\<lparr>de_depths := x\<rparr>) n"
  by (simp_all add: adv_def)

lemma same_de [simp]:
  "de_sig d = s \<Longrightarrow> d\<lparr>de_sig := s\<rparr> = d" "de_depths d = x \<Longrightarrow> d\<lparr>de_depths := x\<rparr> = d"
  "de_sig d = s \<Longrightarrow> d\<lparr>de_depths := x, de_sig := s\<rparr> = d\<lparr>de_depths := x\<rparr>"
  by (cases d; simp)+

lemma upcoming_adv_update [simp]:
  "upcoming (adv (d\<lparr>de_sig := s\<rparr>) n) b = upcoming (adv d n) b"
  "upcoming (adv (d\<lparr>de_depths := x\<rparr>) n) b = upcoming (adv d n) b"
  by (simp_all flip: adv_update)

lemma prefix_append_drop: "prefix (x @ y) l \<longleftrightarrow> prefix x l \<and> prefix y (drop (length x) l)"
  by (auto simp: prefix_def)

lemma upcoming_Nil: "upcoming d [] \<longleftrightarrow> de_pos d \<le> length (de_bytes d)"
  by (simp add: upcoming_def)

lemma upcoming_append [simp]:
  "upcoming d (x @ y) \<longleftrightarrow> upcoming d x \<and> upcoming (adv d (length x)) y"
proof -
  have "de_pos d + length x \<le> length (de_bytes d)"
    if "de_pos d \<le> length (de_bytes d)" "prefix x (drop (de_pos d) (de_bytes d))"
    using prefix_length_le [OF that(2)] that(1) by simp
  then show ?thesis
    by (auto simp: upcoming_def prefix_append_drop add.commute)
qed

lemma upcoming_Cons: "upcoming d (b # y) \<longleftrightarrow> upcoming d [b] \<and> upcoming (adv d 1) y"
  using upcoming_append [of d "[b]" y] by simp

lemma dbind_simps [simp]:
  "dbind (lift (Ok x)) f d = f x d" "dbind (lift (Err e)) f d = Some (Err e, d)"
  "dbind (lift Panic) f d = Some (Panic, d)"
  by (simp_all add: dbind_def lift_def)

lemma dbind_Some: "m d = Some (Ok x, d') \<Longrightarrow> dbind m f d = f x d'"
  by (simp add: dbind_def)

lemma dbind_assoc: "dbind (dbind m f) g d = dbind m (\<lambda>x. dbind (f x) g) d"
  by (auto simp: dbind_def split: option.splits res.splits)

lemma next_slice_upcoming:
  assumes "upcoming d x" "length x = n"
  shows "next_slice n d = Some (Ok x, adv d n)"
proof -
  have "length x \<le> length (drop (de_pos d) (de_bytes d))" "de_pos d \<le> length (de_bytes d)"
    using assms(1) by (auto simp: upcoming_def dest: prefix_length_le)
  moreover have "take (length x) (drop (de_pos d) (de_bytes d)) = x"
    using assms(1) by (auto simp: upcoming_def prefix_def)
  ultimately show ?thesis
    using assms(2) by (auto simp: next_slice_def lift_def adv_def)
qed

lemma find_nonzero_replicate: "find_nonzero (replicate n (byte_of 0)) = None"
  by (induction n) auto

lemma parse_padding_pad:
  assumes "upcoming d (pad (de_abs_pos d) a)"
  shows "parse_padding a d = Some (Ok (padding (de_abs_pos d) a), adv d (padding (de_abs_pos d) a))"
proof (cases "padding (de_abs_pos d) a = 0")
  case False
  have ns: "next_slice (padding (de_abs_pos d) a) d =
      Some (Ok (pad (de_abs_pos d) a), adv d (padding (de_abs_pos d) a))"
    by (rule next_slice_upcoming [OF assms]) simp
  then show ?thesis
    using False by (auto simp: parse_padding_def next_slice_def Let_def pad_def find_nonzero_replicate
        lift_def adv_def split: if_splits)
qed (simp add: parse_padding_def Let_def lift_def)

lemma parse_padding_aligned: "padding (de_abs_pos d) a = 0 \<Longrightarrow> parse_padding a d = Some (Ok 0, d)"
  by (simp add: parse_padding_def lift_def)

section \<open>Basic types\<close>

lemma const_size_slice:
  assumes "dbus_alignment t = Ok a" "upcoming d (pad (de_abs_pos d) a @ bs)" "length bs = a"
  shows "next_const_size_slice t d = Some (Ok bs, adv d (padding (de_abs_pos d) a + a))"
  using assms parse_padding_pad [of d a] next_slice_upcoming [of "adv d (padding (de_abs_pos d) a)" bs a]
  by (simp add: next_const_size_slice_def dbind_Some)

definition reads :: "nom \<Rightarrow> endi \<Rightarrow> zvalue \<Rightarrow> bool" where
  "reads N E v \<longleftrightarrow> (\<forall>n d bs. fuel v \<le> n \<longrightarrow> de_sig d = value_signature v \<longrightarrow>
     enc E (de_endian d) (de_depths d) v (de_abs_pos d) = Ok bs \<longrightarrow> upcoming d bs \<longrightarrow>
     de_value N E n (value_signature v) d = Some (Ok v, adv d (length bs)))"

lemma readsD:
  "reads N E v \<Longrightarrow> fuel v \<le> n \<Longrightarrow> de_sig d = value_signature v \<Longrightarrow>
     enc E (de_endian d) (de_depths d) v (de_abs_pos d) = Ok bs \<Longrightarrow> upcoming d bs \<Longrightarrow>
     de_value N E n (value_signature v) d = Some (Ok v, adv d (length bs))"
  by (simp add: reads_def)

lemma readsI:
  assumes "\<And>n d bs. fuel v \<le> Suc n \<Longrightarrow> de_sig d = value_signature v \<Longrightarrow>
    enc E (de_endian d) (de_depths d) v (de_abs_pos d) = Ok bs \<Longrightarrow> upcoming d bs \<Longrightarrow>
    deserialize_any E (value_seed N E n (de_value N E n) (value_signature v)) d =
      Some (Ok v, adv d (length bs))"
  shows "reads N E v"
proof -
  have pos: "0 < fuel v" by (cases v) simp_all
  show ?thesis
    unfolding reads_def
  proof (intro allI impI)
    fix n d bs
    assume h: "fuel v \<le> n" "de_sig d = value_signature v"
      "enc E (de_endian d) (de_depths d) v (de_abs_pos d) = Ok bs" "upcoming d bs"
    then obtain m where "n = Suc m" using pos by (cases n) auto
    with h show "de_value N E n (value_signature v) d = Some (Ok v, adv d (length bs))"
      by (simp add: assms del: enc.simps)
  qed
qed

lemma usize_Ok:
  "usize_to_u32 n = Ok w \<Longrightarrow> unat w = n" "usize_to_u8 n = Ok b \<Longrightarrow> code b = n"
  by (auto simp: usize_to_u32_def usize_to_u8_def unsigned_of_nat take_bit_nat_eq_self split: if_splits)

context wire_laws
begin

lemma read_words:
  "dbus_alignment t = Ok 2 \<Longrightarrow> upcoming d (pad (de_abs_pos d) 2 @ write_u16 E (de_endian d) w) \<Longrightarrow>
     deserialize_u16 E t d = Some (Ok w, adv d (padding (de_abs_pos d) 2 + 2))"
  "dbus_alignment t = Ok 4 \<Longrightarrow> upcoming d (pad (de_abs_pos d) 4 @ write_u32 E (de_endian d) x) \<Longrightarrow>
     deserialize_u32 E t d = Some (Ok x, adv d (padding (de_abs_pos d) 4 + 4))"
  "dbus_alignment t = Ok 8 \<Longrightarrow> upcoming d (pad (de_abs_pos d) 8 @ write_u64 E (de_endian d) y) \<Longrightarrow>
     deserialize_u64 E t d = Some (Ok y, adv d (padding (de_abs_pos d) 8 + 8))"
  by (simp_all add: deserialize_u16_def deserialize_u32_def deserialize_u64_def
      const_size_slice [THEN dbind_Some] lift_def del: upcoming_append)

lemma read_bool:
  "upcoming d (pad (de_abs_pos d) 4 @ write_u32 E (de_endian d) (of_bool v)) \<Longrightarrow>
     deserialize_bool E d = Some (Ok v, adv d (padding (de_abs_pos d) 4 + 4))"
  by (cases v) (simp_all add: deserialize_bool_def const_size_slice [THEN dbind_Some] lift_def
      dbus_alignment_def alignment_def del: upcoming_append)

lemma read_u8: "upcoming d [v] \<Longrightarrow> deserialize_u8 d = Some (Ok v, adv d 1)"
  using const_size_slice [of signature.U8 1 d "[v]"]
  by (simp add: deserialize_u8_def dbind_Some lift_def dbus_alignment_def alignment_def pad_def)

lemma read_sig_str:
  assumes "de_sig d = signature.Signature \<or> de_sig d = signature.Variant" "enc_sig v = Ok bs" "upcoming d bs"
    "valid_utf8 v" "byte_of 0 \<notin> set v"
  shows "deserialize_str E d = Some (Ok v, adv d (length bs))"
proof -
  obtain l where l: "usize_to_u8 (length v) = (Ok l :: (zerror, byte) res)" "bs = [l] @ v @ [byte_of 0]"
    using assms(2) by (auto simp: enc_sig_def map_ok_eq_Ok)
  then have up: "upcoming d [l]" "upcoming (adv d 1) v"
    using assms(3) upcoming_append [of d "[l]" "v @ [byte_of 0]"] by simp_all
  have ns: "next_slice (Suc 0) d = Some (Ok [l], adv d 1)" using next_slice_upcoming [OF up(1)] by simp
  have ns': "next_slice (length v) (adv d (Suc 0)) = Some (Ok v, adv d (Suc (length v)))"
    using next_slice_upcoming [OF up(2) refl] by simp
  show ?thesis
    using assms(1,4,5) l(2) usize_Ok(2) [OF l(1)]
    by (auto simp: deserialize_str_def dbind_assoc dbind_Some ns ns' lift_def)
qed

lemma read_str:
  assumes "de_sig d = signature.Str \<or> de_sig d = signature.ObjectPath"
    "enc_str E (de_endian d) (de_abs_pos d) v = Ok bs" "upcoming d bs" "valid_utf8 v" "byte_of 0 \<notin> set v"
  shows "deserialize_str E d = Some (Ok v, adv d (length bs))"
proof -
  let ?p = "padding (de_abs_pos d) 4"
  obtain l where l: "usize_to_u32 (length v) = (Ok l :: (zerror, u32) res)"
      "bs = pad (de_abs_pos d) 4 @ write_u32 E (de_endian d) l @ v @ [byte_of 0]"
    using assms(2) by (auto simp: enc_str_def map_ok_eq_Ok)
  then have up: "upcoming d (pad (de_abs_pos d) 4)" "upcoming (adv d ?p) (write_u32 E (de_endian d) l)"
      "upcoming (adv d (?p + 4)) v" using assms(3) by auto
  have ns: "next_slice 4 (adv d ?p) = Some (Ok (write_u32 E (de_endian d) l), adv d (?p + 4))"
    using next_slice_upcoming [OF up(2)] by simp
  have ns': "next_slice (length v) (adv d (?p + 4)) = Some (Ok v, adv d (?p + 4 + length v))"
    using next_slice_upcoming [OF up(3) refl] by simp
  show ?thesis
    using assms(1,4,5) l(2) usize_Ok(1) [OF l(1)]
    by (auto simp: deserialize_str_def dbind_assoc dbus_alignment_def alignment_def
        parse_padding_pad [OF up(1)] dbind_Some ns ns' lift_def)
qed

end

section \<open>Alignment of an encoding\<close>

text \<open>An encoding starts with the padding of its type, and is not empty.\<close>

lemma padding_twice [simp]:
  "padding (n + padding n 2) 2 = 0" "padding (n + padding n 4) 4 = 0" "padding (n + padding n 8) 8 = 0"
  by simp_all

lemma pad_zero [simp]: "padding n a = 0 \<Longrightarrow> pad n a = []"
  by (simp add: pad_def)

lemma enc_basic_align:
  "a \<in> {1, 2, 4, 8} \<Longrightarrow> enc_basic n a x = Ok bs \<Longrightarrow>
     \<exists>bs'. bs = pad n a @ bs' \<and> enc_basic (n + padding n a) a x = Ok bs'"
  by (auto simp: enc_basic_def)

lemma enc_str_align:
  "enc_str E e n x = Ok bs \<Longrightarrow> \<exists>bs'. bs = pad n 4 @ bs' \<and> enc_str E e (n + padding n 4) x = Ok bs'"
  by (auto simp: enc_str_def map_ok_eq_Ok)

lemma enc_array_align:
  "enc_array E e d n a f = Ok bs \<Longrightarrow>
     \<exists>bs'. bs = pad n 4 @ bs' \<and> enc_array E e d (n + padding n 4) a f = Ok bs'"
  by (auto simp: enc_array_def map_ok_eq_Ok bind_res_eq_Ok Let_def)

lemma enc_align:
  assumes "value_ok v" "dbus_alignment (value_signature v) = Ok a" "enc E e d v n = Ok bs"
  shows "\<exists>bs'. bs = pad n a @ bs' \<and> enc E e d v (n + padding n a) = Ok bs'"
proof (cases v)
  case (Array es s)
  then obtain c b where "s = signature.Array c" "dbus_alignment c = Ok b" "a = 4"
    using assms by (auto simp: dbus_alignment_def [of "signature.Array _"] alignment_def)
  then show ?thesis using enc_array_align assms(3) Array by simp
next
  case (Dict m s)
  then show ?thesis
    using enc_array_align assms by (auto simp: dbus_alignment_def alignment_def)
next
  case (Structure fs s)
  then show ?thesis
    using assms by (auto simp: dbus_alignment_def alignment_def enc_then_def enc_basic_def map_ok_eq_Ok)
qed (use assms in \<open>auto simp: dbus_alignment_def alignment_def intro!: enc_basic_align enc_str_align\<close>)

context endi_laws
begin

lemma enc_nonempty:
  assumes "value_ok v" "enc E e d v n = Ok bs"
  shows "bs \<noteq> []"
proof -
  have w: "write_u16 E e x \<noteq> []" "write_u32 E e y \<noteq> []" "write_u64 E e z \<noteq> []" for x y z
    by (metis list.size(3) write_u16_length write_u32_length write_u64_length zero_neq_numeral)+
  show ?thesis
    using assms
  proof (induction v arbitrary: d n bs)
    case (Array es s)
    then show ?case by (auto simp: enc_array_def map_ok_eq_Ok w Let_def split: signature.splits)
  next
    case (Structure fs s)
    then obtain f fs' where fs: "fs = f # fs'" by (cases fs) auto
    then show ?case
      using Structure.prems Structure.IH [of f] by (auto simp: enc_then_def enc_basic_def map_ok_eq_Ok)
  qed (auto simp: enc_basic_def enc_str_def enc_sig_def enc_then_def enc_array_def map_ok_eq_Ok w Let_def)
qed

end

section \<open>Arrays and dictionaries\<close>

lemma array_next_element_read:
  assumes "upcoming d (pad (de_abs_pos d) a)" "ad_element_alignment ad = a"
    "f (adv d (padding (de_abs_pos d) a)) = Some (Ok x, adv d m)"
    "de_pos d + m \<le> ad_start ad + ad_len ad" "0 < m"
  shows "array_next_element ad f d = Some (Ok (Some x), adv d m)"
  using assms by (simp add: array_next_element_def array_done_def parse_padding_pad dbind_Some array_next_def lift_def)

lemma array_next_element_done:
  assumes "de_pos d = ad_start ad + ad_len ad" "dec_array (de_depths d) = Ok d0"
  shows "array_next_element ad f d =
    Some (Ok None, d\<lparr>de_depths := d0, de_sig := ad_array_signature ad\<rparr>)"
  using assms by (simp add: array_next_element_def array_done_def array_end_def set_depths_def set_sig_def
      dbind_assoc lift_def dbind_def)

lemma array_next_read:
  "f d = Some (Ok x, adv d m) \<Longrightarrow> de_pos d + m \<le> ad_start ad + ad_len ad \<Longrightarrow>
     array_next ad f d = Some (Ok x, adv d m)"
  by (simp add: array_next_def)

lemma btree_insert_last:
  "\<forall>(a, b) \<in> set m. value_cmp k a = (Ok Greater :: (zerror, ordering) res) \<Longrightarrow>
     btree_insert m k v = (Ok (m @ [(k, v)]) :: (zerror, _) res)"
  by (induction m) auto

lemma dict_append_last:
  assumes "\<forall>(a, b) \<in> set m. value_cmp k a = (Ok Greater :: (zerror, ordering) res)"
    "value_signature k = ks" "value_signature v = vs"
  shows "dict_append (m, signature.Dict ks vs) k v = Ok (m @ [(k, v)], signature.Dict ks vs)"
  using btree_insert_last [OF assms(1)] assms(2,3) by (simp add: dict_append_def sig_eq_iff)

context wire_laws
begin

text \<open>The next element of an array whose encoding lies ahead.\<close>

lemma read_element:
  assumes "reads N E e" "value_ok e" "fuel e \<le> n" "value_signature e = de_sig d"
    "dbus_alignment (de_sig d) = Ok a" "enc E (de_endian d) (de_depths d) e (de_abs_pos d) = Ok b"
    "upcoming d b"
  shows "upcoming d (pad (de_abs_pos d) a)"
    "de_value N E n (de_sig d) (adv d (padding (de_abs_pos d) a)) = Some (Ok e, adv d (length b))"
proof -
  obtain b' where b': "b = pad (de_abs_pos d) a @ b'"
      "enc E (de_endian d) (de_depths d) e (de_abs_pos d + padding (de_abs_pos d) a) = Ok b'"
    using enc_align [OF assms(2)] assms(4-6) by metis
  then show "upcoming d (pad (de_abs_pos d) a)" using assms(7) by simp
  show "de_value N E n (de_sig d) (adv d (padding (de_abs_pos d) a)) = Some (Ok e, adv d (length b))"
    using readsD [OF assms(1,3), of "adv d (padding (de_abs_pos d) a)" b'] assms(4,7) b' by simp
qed

lemma read_array_loop:
  assumes "\<forall>e \<in> set es. reads N E e \<and> value_ok e \<and> value_signature e = c \<and> fuel e \<le> n"
    "dbus_alignment c = Ok a" "de_sig d = c" "length es < k"
    "enc_all E (de_endian d) (de_depths d) es (de_abs_pos d) = Ok bs" "upcoming d bs"
    "ad_start ad + ad_len ad = de_pos d + length bs" "ad_element_alignment ad = a"
    "dec_array (de_depths d) = Ok d0"
  shows "visit_array_loop N k (de_value N E n c) (Array_Access ad) (acc, signature.Array c) d =
    Some (Ok (acc @ es, signature.Array c),
      (adv d (length bs))\<lparr>de_depths := d0, de_sig := ad_array_signature ad\<rparr>)"
  using assms
proof (induction es arbitrary: d k acc bs)
  case Nil
  then obtain k' where "k = Suc k'" by (cases k) auto
  with Nil show ?case
    using array_next_element_done [of d ad d0 "de_value N E n c"]
    by (simp add: next_element_seed_def dbind_assoc dbind_Some lift_def)
next
  case (Cons e es)
  obtain k' where k: "k = Suc k'" using Cons.prems(4) by (cases k) auto
  obtain b bs' where b: "enc E (de_endian d) (de_depths d) e (de_abs_pos d) = Ok b"
      "enc_all E (de_endian d) (de_depths d) es (de_abs_pos d + length b) = Ok bs'" "bs = b @ bs'"
    using Cons.prems(5) by (auto simp: enc_then_def map_ok_eq_Ok)
  have el: "reads N E e" "value_ok e" "fuel e \<le> n" "value_signature e = de_sig d"
      "dbus_alignment (de_sig d) = Ok a" using Cons.prems(1-3) by simp_all
  have "upcoming d b" using Cons.prems(6) b(3) by simp
  then have "array_next_element ad (de_value N E n c) d = Some (Ok (Some e), adv d (length b))"
    using read_element [OF el b(1)] enc_nonempty [OF el(2) b(1)] Cons.prems b
    by (intro array_next_element_read) auto
  moreover have "array_append (acc, signature.Array c) e = Ok (acc @ [e], signature.Array c)"
    using el(4) Cons.prems(3) by (simp add: array_append_Ok)
  moreover have "visit_array_loop N k' (de_value N E n c) (Array_Access ad) (acc @ [e], signature.Array c)
      (adv d (length b)) = Some (Ok ((acc @ [e]) @ es, signature.Array c),
        (adv (adv d (length b)) (length bs'))\<lparr>de_depths := d0, de_sig := ad_array_signature ad\<rparr>)"
    using Cons.prems b k by (intro Cons.IH) auto
  ultimately show ?case
    using k b(3) by (simp add: next_element_seed_def dbind_assoc dbind_Some)
qed

lemma read_array_new:
  assumes "element_of (de_sig d) = Some (a, c)" "padding (de_abs_pos d) 4 = 0"
    "inc_array (de_depths d) = Ok d'"
    "upcoming d (write_u32 E (de_endian d) l @ pad (de_abs_pos d + 4) a)"
  shows "array_de_new E d =
    Some (Ok \<lparr>ad_len = unat l, ad_start = de_pos d + (4 + padding (de_abs_pos d + 4) a),
        ad_element_alignment = a, ad_array_signature = de_sig d\<rparr>,
      (adv d (4 + padding (de_abs_pos d + 4) a))\<lparr>de_depths := d', de_sig := c\<rparr>)"
proof -
  let ?d = "d\<lparr>de_depths := d'\<rparr>"
  have el: "(case de_sig d of
           signature.Array child \<Rightarrow> dbind (lift (dbus_alignment child)) (\<lambda>a. ret (a, child))
         | signature.Dict key _ \<Rightarrow> ret (DICT_ENTRY_ALIGNMENT_DBUS, key)
         | _ \<Rightarrow> throw x) = ret (a, c)" for x
    using assms(1) by (cases "de_sig d") (auto simp: DICT_ENTRY_ALIGNMENT_DBUS_def dbind_def lift_def
        fun_eq_iff split: res.splits)
  have ns: "next_slice 4 ?d = Some (Ok (write_u32 E (de_endian d) l), adv ?d 4)"
    using assms(4) by (intro next_slice_upcoming) simp_all
  have "parse_padding a (adv ?d 4) = Some (Ok (padding (de_abs_pos d + 4) a), adv ?d (4 + padding (de_abs_pos d + 4) a))"
    using assms(4) parse_padding_pad [of "adv ?d 4" a] by (simp add: adv_update)
  then show ?thesis
    using assms(3) by (simp add: array_de_new_def ARRAY_ALIGNMENT_DBUS_def dbind_Some
        parse_padding_aligned [OF assms(2)] set_depths_def dbind_assoc ns el Let_def)
      (simp add: dbind_def lift_def ns el Let_def adv_update)
qed

text \<open>The start of an array or a dictionary, from the padding on.\<close>

lemma read_array_start:
  assumes "enc_array E (de_endian d) (de_depths d) (de_abs_pos d) a f = Ok bs" "upcoming d bs"
    "element_of (de_sig d) = Some (a, c)"
  obtains l d' body where
    "inc_array (de_depths d) = Ok d'"
    "parse_padding 4 d = Some (Ok (padding (de_abs_pos d) 4), adv d (padding (de_abs_pos d) 4))"
    "array_de_new E (adv d (padding (de_abs_pos d) 4)) =
      Some (Ok \<lparr>ad_len = length body, ad_start = de_pos d + (length bs - length body),
          ad_element_alignment = a, ad_array_signature = de_sig d\<rparr>,
        (adv d (length bs - length body))\<lparr>de_depths := d', de_sig := c\<rparr>)"
    "f d' (de_abs_pos d + (length bs - length body)) = Ok body"
    "upcoming (adv d (length bs - length body)) body" "length body \<le> length bs"
proof -
  let ?p = "padding (de_abs_pos d) 4" and ?n = "de_abs_pos d + padding (de_abs_pos d) 4 + 4"
  obtain d' body l where h: "inc_array (de_depths d) = Ok d'" "f d' (?n + padding ?n a) = Ok body"
      "usize_to_u32 (length body) = (Ok l :: (zerror, u32) res)"
      "bs = pad (de_abs_pos d) 4 @ write_u32 E (de_endian d) l @ pad ?n a @ body"
    using assms(1) by (auto simp: enc_array_def map_ok_eq_Ok Let_def)
  have len: "length bs - length body = ?p + 4 + padding ?n a" using h(4) by simp
  have up: "upcoming d (pad (de_abs_pos d) 4)"
      "upcoming (adv d ?p) (write_u32 E (de_endian d) l @ pad ?n a)"
      "upcoming (adv d (?p + 4 + padding ?n a)) body"
    using assms(2) h(4) by (simp_all add: add.assoc)
  have "array_de_new E (adv d ?p) = Some (Ok \<lparr>ad_len = unat l,
      ad_start = de_pos (adv d ?p) + (4 + padding ?n a),
      ad_element_alignment = a, ad_array_signature = de_sig d\<rparr>,
      (adv (adv d ?p) (4 + padding ?n a))\<lparr>de_depths := d', de_sig := c\<rparr>)"
    using read_array_new [of "adv d ?p" a c d' l] assms(3) h(1) up(2) by simp
  then show ?thesis
    using that [OF h(1) parse_padding_pad [OF up(1)], of body] h up usize_Ok(1) [OF h(3)] len
    by (simp add: add.assoc)
qed

lemma reads_Array:
  assumes "list_all (\<lambda>e. reads N E e \<and> value_ok e \<and> value_signature e = c) es"
  shows "reads N E (Array es (signature.Array c))"
proof (rule readsI)
  fix n d bs
  assume h: "fuel (Array es (signature.Array c)) \<le> Suc n" "de_sig d = value_signature (Array es (signature.Array c))"
    "enc E (de_endian d) (de_depths d) (Array es (signature.Array c)) (de_abs_pos d) = Ok bs" "upcoming d bs"
  then obtain a where a: "dbus_alignment c = Ok a"
      "enc_array E (de_endian d) (de_depths d) (de_abs_pos d) a (\<lambda>d'. enc_all E (de_endian d) d' es) = Ok bs"
    by auto
  obtain d' body where r: "inc_array (de_depths d) = Ok d'"
      "parse_padding 4 d = Some (Ok (padding (de_abs_pos d) 4), adv d (padding (de_abs_pos d) 4))"
      "array_de_new E (adv d (padding (de_abs_pos d) 4)) =
        Some (Ok \<lparr>ad_len = length body, ad_start = de_pos d + (length bs - length body),
            ad_element_alignment = a, ad_array_signature = de_sig d\<rparr>,
          (adv d (length bs - length body))\<lparr>de_depths := d', de_sig := c\<rparr>)"
      "enc_all E (de_endian d) d' es (de_abs_pos d + (length bs - length body)) = Ok body"
      "upcoming (adv d (length bs - length body)) body" "length body \<le> length bs"
    by (rule read_array_start [OF a(2) h(4), of c]) (use h(2) a(1) in simp_all)
  have "\<forall>e \<in> set es. fuel e \<le> n" "length es < n"
    using h(1) fuel_element [of _ es] by fastforce+
  then have "visit_array_loop N n (de_value N E n c) (Array_Access \<lparr>ad_len = length body,
        ad_start = de_pos d + (length bs - length body), ad_element_alignment = a, ad_array_signature = de_sig d\<rparr>)
        ([], signature.Array c) ((adv d (length bs - length body))\<lparr>de_depths := d', de_sig := c\<rparr>) =
      Some (Ok (es, signature.Array c), adv d (length bs))"
    using read_array_loop [where d = "(adv d (length bs - length body))\<lparr>de_depths := d', de_sig := c\<rparr>"
        and es = es and acc = "[]" and k = n and n = n and c = c and bs = body and a = a] assms h(2) a(1) r dec_inc_depths(2) [OF r(1)]
    by (simp add: list_all_iff adv_update)
  then show "deserialize_any E (value_seed N E n (de_value N E n) (value_signature (Array es (signature.Array c)))) d =
      Some (Ok (Array es (signature.Array c)), adv d (length bs))"
    using h(2) r(2,3) by (simp add: deserialize_any_def deserialize_seq_def value_seed_def value_seed_seq_def
        visit_array_def array_new_full_signature_def dbus_alignment_def alignment_def dbind_Some lift_def)
qed

lemma read_map_loop:
  assumes "\<forall>(a, b) \<in> set m. reads N E a \<and> value_ok a \<and> value_signature a = ks \<and> fuel a \<le> n \<and>
      reads N E b \<and> value_signature b = vs \<and> fuel b \<le> n"
    "dict_sorted (acc @ m)" "de_sig d = ks" "length m < k"
    "enc_entries E (de_endian d) (de_depths d) m (de_abs_pos d) = Ok bs" "upcoming d bs"
    "ad_start ad + ad_len ad = de_pos d + length bs" "ad_element_alignment ad = 8"
    "dec_array (de_depths d) = Ok d0"
  shows "visit_map_loop k (de_value N E n ks) (de_value N E n vs)
      \<lparr>md_ad = ad, md_key_signature = ks, md_value_signature = vs\<rparr> (acc, signature.Dict ks vs) d =
    Some (Ok (acc @ m, signature.Dict ks vs),
      (adv d (length bs))\<lparr>de_depths := d0, de_sig := ad_array_signature ad\<rparr>)"
  using assms
proof (induction m arbitrary: d k acc bs)
  case Nil
  then obtain k' where "k = Suc k'" by (cases k) auto
  with Nil show ?case
    using array_next_element_done [of d ad d0 "de_value N E n ks"]
    by (simp add: next_key_seed_def dbind_Some lift_def)
next
  case (Cons e m)
  obtain a b where e [simp]: "e = (a, b)" by (cases e)
  obtain k' where k: "k = Suc k'" using Cons.prems(4) by (cases k) auto
  let ?p = "padding (de_abs_pos d) 8" and ?md = "\<lparr>md_ad = ad, md_key_signature = ks, md_value_signature = vs\<rparr>"
  obtain ka vb bs' where enc: "enc E (de_endian d) (de_depths d) a (de_abs_pos d + ?p) = Ok ka"
      "enc E (de_endian d) (de_depths d) b (de_abs_pos d + (?p + length ka)) = Ok vb"
      "enc_entries E (de_endian d) (de_depths d) m (de_abs_pos d + (?p + length ka + length vb)) = Ok bs'"
      "bs = pad (de_abs_pos d) 8 @ ka @ vb @ bs'"
    using Cons.prems(5) by (auto simp: enc_then_def enc_basic_def map_ok_eq_Ok add.assoc)
  have up: "upcoming d (pad (de_abs_pos d) 8)" "upcoming (adv d ?p) ka" "upcoming (adv d (?p + length ka)) vb"
      "upcoming (adv d (?p + length ka + length vb)) bs'"
    using Cons.prems(6) enc(4) by (simp_all add: add.assoc)
  have el: "reads N E a" "value_ok a" "fuel a \<le> n" "value_signature a = ks"
      "reads N E b" "fuel b \<le> n" "value_signature b = vs" using Cons.prems(1) by simp_all
  have "de_value N E n ks (adv d ?p) = Some (Ok a, adv d (?p + length ka))"
    using readsD [OF el(1,3), of "adv d ?p" ka] el(4) Cons.prems(3) enc(1) up(2) by simp
  then have key: "next_key_seed ?md (de_value N E n ks) d = Some (Ok (Some a), adv d (?p + length ka))"
    using array_next_element_read [OF up(1) Cons.prems(8), of "de_value N E n ks" a "?p + length ka"]
      enc_nonempty [OF el(2) enc(1)] Cons.prems(7) enc(4) by (simp add: next_key_seed_def)
  let ?d = "adv (d\<lparr>de_sig := vs\<rparr>) (?p + length ka)"
  have "de_value N E n vs ?d = Some (Ok b, adv ?d (length vb))"
    using readsD [OF el(5,6), of ?d vb] el(7) enc(2) up(3) by simp
  then have "array_next ad (de_value N E n vs) ?d = Some (Ok b, adv ?d (length vb))"
    using array_next_read [of "de_value N E n vs" ?d] Cons.prems(7) enc(4) by simp
  then have val: "next_value_seed ?md (de_value N E n vs) (adv d (?p + length ka)) =
      Some (Ok b, adv d (?p + length ka + length vb))"
    using Cons.prems(3) by (simp add: next_value_seed_def adv_update add.assoc)
  have "dict_append (acc, signature.Dict ks vs) a b = Ok (acc @ [(a, b)], signature.Dict ks vs)"
    using Cons.prems(2) el(4,7) by (intro dict_append_last) (auto simp: dict_sorted_def sorted_wrt_append)
  moreover have "visit_map_loop k' (de_value N E n ks) (de_value N E n vs) ?md (acc @ [(a, b)], signature.Dict ks vs)
      (adv d (?p + length ka + length vb)) = Some (Ok ((acc @ [(a, b)]) @ m, signature.Dict ks vs),
        (adv (adv d (?p + length ka + length vb)) (length bs'))\<lparr>de_depths := d0, de_sig := ad_array_signature ad\<rparr>)"
    using Cons.prems enc up(4) k by (intro Cons.IH) auto
  ultimately show ?case
    using k enc(4) by (simp add: dbind_Some key val add.assoc)
qed

lemma reads_Dict:
  assumes "list_all (\<lambda>(a, b). reads N E a \<and> value_ok a \<and> value_signature a = ks \<and>
      reads N E b \<and> value_signature b = vs) m" "dict_sorted m"
  shows "reads N E (Dict m (signature.Dict ks vs))"
proof (rule readsI)
  fix n d bs
  assume h: "fuel (Dict m (signature.Dict ks vs)) \<le> Suc n" "de_sig d = value_signature (Dict m (signature.Dict ks vs))"
    "enc E (de_endian d) (de_depths d) (Dict m (signature.Dict ks vs)) (de_abs_pos d) = Ok bs" "upcoming d bs"
  then have arr: "enc_array E (de_endian d) (de_depths d) (de_abs_pos d) 8
      (\<lambda>d'. enc_entries E (de_endian d) d' m) = Ok bs" by simp
  obtain d' body where r: "inc_array (de_depths d) = Ok d'"
      "parse_padding 4 d = Some (Ok (padding (de_abs_pos d) 4), adv d (padding (de_abs_pos d) 4))"
      "array_de_new E (adv d (padding (de_abs_pos d) 4)) =
        Some (Ok \<lparr>ad_len = length body, ad_start = de_pos d + (length bs - length body),
            ad_element_alignment = 8, ad_array_signature = de_sig d\<rparr>,
          (adv d (length bs - length body))\<lparr>de_depths := d', de_sig := ks\<rparr>)"
      "enc_entries E (de_endian d) d' m (de_abs_pos d + (length bs - length body)) = Ok body"
      "upcoming (adv d (length bs - length body)) body" "length body \<le> length bs"
    by (rule read_array_start [OF arr h(4), of ks]) (use h(2) in simp_all)
  have "\<forall>(a, b) \<in> set m. fuel a \<le> n \<and> fuel b \<le> n" "length m < n"
    using h(1) fuel_entry [of _ _ m] by fastforce+
  then have "visit_map_loop n (de_value N E n ks) (de_value N E n vs) \<lparr>md_ad = \<lparr>ad_len = length body,
        ad_start = de_pos d + (length bs - length body), ad_element_alignment = 8, ad_array_signature = de_sig d\<rparr>,
        md_key_signature = ks, md_value_signature = vs\<rparr>
        ([], signature.Dict ks vs) ((adv d (length bs - length body))\<lparr>de_depths := d', de_sig := ks\<rparr>) =
      Some (Ok (m, signature.Dict ks vs), adv d (length bs))"
    using read_map_loop [where d = "(adv d (length bs - length body))\<lparr>de_depths := d', de_sig := ks\<rparr>"
        and m = m and acc = "[]" and k = n and n = n and ks = ks and vs = vs and bs = body]
      assms h(2) r dec_inc_depths(2) [OF r(1)]
    by (fastforce simp: list_all_iff adv_update)
  then show "deserialize_any E (value_seed N E n (de_value N E n) (value_signature (Dict m (signature.Dict ks vs)))) d =
      Some (Ok (Dict m (signature.Dict ks vs)), adv d (length bs))"
    using h(2) r(2,3) by (simp add: deserialize_any_def deserialize_seq_def value_seed_def value_seed_map_def
        map_de_new_def dict_new_full_signature_def dbus_alignment_def alignment_def dbind_Some lift_def dbind_assoc)
qed

lemma read_struct_loop:
  assumes "\<forall>f \<in> set fs. reads N E f \<and> fuel f \<le> n" "de_sig d = signature.Structure ss"
    "drop i ss = map value_signature fs" "fs \<noteq> []"
    "enc_all E (de_endian d) (de_depths d) fs (de_abs_pos d) = Ok bs" "upcoming d bs"
    "dec_structure (de_depths d) = Ok d0"
  shows "visit_struct_loop N (de_value N E n) (map value_signature fs) (Struct_Access i (length ss)) acc d =
    Some (Ok (acc @ fs), (adv d (length bs))\<lparr>de_depths := d0\<rparr>)"
  using assms
proof (induction fs arbitrary: d i acc bs)
  case (Cons f fs)
  have i: "i < length ss" "ss ! i = value_signature f" "drop (Suc i) ss = map value_signature fs"
    using Cons.prems(3) by (auto simp: nth_via_drop drop_Suc simp flip: tl_drop intro: ccontr)
  then have last: "Suc i = length ss \<longleftrightarrow> fs = []"
    by (metis Nil_is_map_conv Suc_leI drop_eq_Nil le_antisym)
  obtain b bs' where b: "enc E (de_endian d) (de_depths d) f (de_abs_pos d) = Ok b"
      "enc_all E (de_endian d) (de_depths d) fs (de_abs_pos d + length b) = Ok bs'" "bs = b @ bs'"
    using Cons.prems(5) by (auto simp: enc_then_def map_ok_eq_Ok)
  have "de_value N E n (value_signature f) (d\<lparr>de_sig := ss ! i\<rparr>) =
      Some (Ok f, adv (d\<lparr>de_sig := ss ! i\<rparr>) (length b))"
    using readsD [of N E f n "d\<lparr>de_sig := ss ! i\<rparr>" b] Cons.prems(1,6) b i(2) by simp
  then have step: "next_element_seed N (Struct_Access i (length ss)) (de_value N E n (value_signature f)) d =
      Some (Ok (Some f, Struct_Access (Suc i) (length ss)),
        (adv d (length b))\<lparr>de_depths := if fs = [] then d0 else de_depths d\<rparr>)"
    using Cons.prems(2,7) i(1) last
    by (auto simp: next_element_seed_def struct_next_element_def set_depths_def lift_def dbind_def adv_def)
  show ?case
  proof (cases "fs = []")
    case True
    then show ?thesis using b step by (simp add: dbind_Some append_field_def lift_def)
  next
    case False
    then have "visit_struct_loop N (de_value N E n) (map value_signature fs) (Struct_Access (Suc i) (length ss))
        (acc @ [f]) (adv d (length b)) =
        Some (Ok ((acc @ [f]) @ fs), (adv (adv d (length b)) (length bs'))\<lparr>de_depths := d0\<rparr>)"
      using Cons.prems b i(3) by (intro Cons.IH) auto
    then show ?thesis using False b(3) step by (simp add: dbind_Some append_field_def)
  qed
qed simp

lemma reads_Structure:
  assumes "list_all (reads N E) fs" "fs \<noteq> []"
  shows "reads N E (Structure fs (signature.Structure (map value_signature fs)))"
proof (rule readsI)
  fix n d bs
  let ?s = "signature.Structure (map value_signature fs)"
  assume h: "fuel (Structure fs ?s) \<le> Suc n" "de_sig d = value_signature (Structure fs ?s)"
    "enc E (de_endian d) (de_depths d) (Structure fs ?s) (de_abs_pos d) = Ok bs" "upcoming d bs"
  let ?p = "padding (de_abs_pos d) 8"
  obtain d' b where b: "inc_structure (de_depths d) = Ok d'"
      "enc_all E (de_endian d) d' fs (de_abs_pos d + ?p) = Ok b" "bs = pad (de_abs_pos d) 8 @ b"
    using h(3) by (auto simp: enc_then_def enc_basic_def map_ok_eq_Ok)
  have up: "upcoming d (pad (de_abs_pos d) 8)" "upcoming (adv d ?p) b"
    using h(4) b(3) by simp_all
  have "\<forall>f \<in> set fs. fuel f \<le> n"
    using h(1) fuel_element [of _ fs] by fastforce
  then have "visit_struct_loop N (de_value N E n) (map value_signature fs) (Struct_Access 0 (length fs)) []
      ((adv d ?p)\<lparr>de_depths := d'\<rparr>) = Some (Ok fs, adv d (length bs))"
    using read_struct_loop [of fs n "(adv d ?p)\<lparr>de_depths := d'\<rparr>" "map value_signature fs" 0 b "de_depths d" "[]"]
      assms b up h(2) dec_inc_depths(1) [OF b(1)] by (simp add: list_all_iff adv_update)
  then show "deserialize_any E (value_seed N E n (de_value N E n) (value_signature (Structure fs ?s))) d =
      Some (Ok (Structure fs ?s), adv d (length bs))"
    using h(2) b(1) parse_padding_pad [OF up(1)] parse_padding_aligned [of "adv d ?p" 8]
    by (simp add: deserialize_any_def deserialize_seq_def value_seed_def value_seed_seq_def
        visit_struct_def struct_de_new_def STRUCT_ALIGNMENT_DBUS_def set_depths_def
        build_with_signature_def dbus_alignment_def alignment_def dbind_Some lift_def)
qed

text \<open>The signature of a variant, read as a string and again as bytes.\<close>

lemma upcoming_slices:
  assumes "upcoming d (l # t @ z # r)"
  shows "de_pos d < length (de_bytes d)" "de_bytes d ! de_pos d = l"
    "subslice (de_bytes d) (Suc (de_pos d)) (Suc (de_pos d + length t)) = Ok t"
    "subslice_from (de_bytes d) (Suc (Suc (de_pos d + length t))) =
      Ok (drop (Suc (Suc (de_pos d + length t))) (de_bytes d))"
    "prefix r (drop (Suc (Suc (de_pos d + length t))) (de_bytes d))"
proof -
  obtain y where y: "drop (de_pos d) (de_bytes d) = l # t @ z # r @ y"
    using assms by (auto simp: upcoming_def prefix_def)
  define xs where "xs = take (de_pos d) (de_bytes d)"
  have bytes: "de_bytes d = xs @ l # t @ z # r @ y"
    using append_take_drop_id [of "de_pos d" "de_bytes d"] y by (simp add: xs_def)
  have pos: "de_pos d = length xs" using assms by (simp add: upcoming_def xs_def)
  show "de_pos d < length (de_bytes d)" "de_bytes d ! de_pos d = l"
    "subslice (de_bytes d) (Suc (de_pos d)) (Suc (de_pos d + length t)) = Ok t"
    "subslice_from (de_bytes d) (Suc (Suc (de_pos d + length t))) =
      Ok (drop (Suc (Suc (de_pos d + length t))) (de_bytes d))"
    "prefix r (drop (Suc (Suc (de_pos d + length t))) (de_bytes d))"
    unfolding bytes pos by (simp_all add: subslice_def subslice_from_def)
qed

lemma read_variant_of:
  assumes "sig_wf s" "de_sig d = signature.Variant" "inc_variant (de_depths d) = Ok d'"
    "enc_sig (to_string s) = Ok hb" "upcoming d (hb @ pb)"
    and payload: "\<And>dd. de_endian dd = de_endian d \<Longrightarrow> de_abs_pos dd = de_abs_pos d + length hb \<Longrightarrow>
      de_depths dd = d' \<Longrightarrow> de_sig dd = s \<Longrightarrow> upcoming dd pb \<Longrightarrow>
      de_value N E n s dd = Some (Ok v, adv dd (length pb))"
  shows "value_visitor_seq N E (de_value N E n) (Value_Access Signature_Stage (de_pos d)) d =
    Some (Ok v, adv d (length hb + length pb))"
proof -
  let ?t = "to_string s"
  obtain l where l: "usize_to_u8 (length ?t) = (Ok l :: (zerror, byte) res)" "hb = l # ?t @ [byte_of 0]"
    using assms(4) by (auto simp: enc_sig_def map_ok_eq_Ok)
  have up: "upcoming d hb" "upcoming d (l # ?t @ byte_of 0 # pb)"
    using assms(5) l(2) upcoming_append [of d hb pb] by (auto simp del: upcoming_append)
  have "deserialize_str E d = Some (Ok ?t, adv d (length hb))"
    using assms(2,4) up(1) nul_to_string valid_utf8_ascii
    by (intro read_sig_str) (simp_all add: to_string_def)
  then have sgn: "deserialize_signature N E d = Some (Ok s, adv d (length hb))"
    using assms(1) by (simp add: deserialize_signature_def dbind_Some from_str_to_string lift_def)
  let ?start = "Suc (Suc (de_pos d + length ?t))"
  let ?d = "\<lparr>de_ctxt = (de_ctxt d)\<lparr>c_position := c_position (de_ctxt d) + ?start\<rparr>,
      de_bytes = drop ?start (de_bytes d), de_fds = de_fds d, de_pos = 0, de_sig = s, de_depths = d'\<rparr>"
  have "de_value N E n s ?d = Some (Ok v, adv ?d (length pb))"
    by (rule payload) (use upcoming_slices(5) [OF up(2)] l(2) in
        \<open>simp_all add: de_endian_def de_abs_pos_def upcoming_def add_ac\<close>)
  then show ?thesis
    using sgn assms(3) l(2) upcoming_slices [OF up(2)] usize_Ok(2) [OF l(1)] from_str_to_string [of s] assms(1)
    by (simp add: value_visitor_seq_def next_element_seed_def value_next_element_def dbind_assoc dbind_Some
        lift_def Let_def from_str_def from_bytes_def)
qed

lemma read_variant:
  assumes "reads N E v" "fuel v \<le> n" "sig_wf (value_signature v)" "de_sig d = signature.Variant"
    "enc E (de_endian d) (de_depths d) (Value v) (de_abs_pos d) = Ok bs" "upcoming d bs"
  shows "value_visitor_seq N E (de_value N E n) (Value_Access Signature_Stage (de_pos d)) d =
    Some (Ok v, adv d (length bs))"
proof -
  obtain d' hb pb where enc: "inc_variant (de_depths d) = Ok d'" "enc_sig (to_string (value_signature v)) = Ok hb"
      "enc E (de_endian d) d' v (de_abs_pos d + length hb) = Ok pb" "bs = hb @ pb"
    using assms(5) by (auto simp: enc_then_def map_ok_eq_Ok)
  show ?thesis
    using read_variant_of [OF assms(3,4) enc(1,2), of pb n v] assms(6) enc(3,4) readsD [OF assms(1,2)] by simp
qed

lemma reads_Value:
  assumes "reads N E v" "sig_wf (value_signature v)"
  shows "reads N E (Value v)"
proof (rule readsI)
  fix n d bs
  assume h: "fuel (Value v) \<le> Suc n" "de_sig d = value_signature (Value v)"
    "enc E (de_endian d) (de_depths d) (Value v) (de_abs_pos d) = Ok bs" "upcoming d bs"
  then show "deserialize_any E (value_seed N E n (de_value N E n) (value_signature (Value v))) d =
      Some (Ok (Value v), adv d (length bs))"
    using read_variant [OF assms(1) _ assms(2), of n d bs]
    by (simp add: deserialize_any_def deserialize_seq_def value_seed_def value_seed_seq_def
        dbus_alignment_def alignment_def dbind_Some lift_def parse_padding_aligned)
qed

section \<open>The round trip\<close>

lemmas read_basic_simps = deserialize_any_def value_seed_def value_seed_i32_def value_seed_str_def
  enc_basic_def dbus_alignment_def alignment_def lift_def dbind_Some read_words read_bool

lemma reads_basic:
  "reads N E (Bool b)" "reads N E (I16 w)" "reads N E (U16 w)" "reads N E (U32 x)" "reads N E (I32 x)"
  "reads N E (I64 y)" "reads N E (U64 y)" "reads N E (F64 y)"
  by (rule readsI; force simp: read_basic_simps deserialize_i32_def)+

lemma reads_U8: "reads N E (U8 b)"
  by (rule readsI) (auto simp: read_basic_simps read_u8 pad_def)

lemma reads_strings:
  "readable (Str s) \<Longrightarrow> reads N E (Str s)" "readable (ObjectPath s) \<Longrightarrow> reads N E (ObjectPath s)"
  "readable (Signature t) \<Longrightarrow> reads N E (Signature t)"
proof -
  show "reads N E (Str s)" if "readable (Str s)"
    using that by (intro readsI) (simp add: read_basic_simps read_str)
  show "reads N E (ObjectPath s)" if "readable (ObjectPath s)"
    using that by (intro readsI) (simp add: read_basic_simps read_str)
  show "reads N E (Signature t)" if "readable (Signature t)"
    using that nul_to_string valid_utf8_ascii from_str_to_string [of t]
    by (intro readsI) (simp add: read_basic_simps read_sig_str to_string_def)
qed

lemma readable_reads: "value_ok v \<Longrightarrow> plain v \<Longrightarrow> readable v \<Longrightarrow> reads N E v"
proof (induction v)
  case (Array es s)
  then obtain c where "s = signature.Array c" by auto
  with Array show ?case by (auto simp: list_all_iff intro!: reads_Array)
next
  case (Dict m s)
  then obtain ks vs where s: "s = signature.Dict ks vs" by auto
  have "reads N E k \<and> value_ok k \<and> value_signature k = ks \<and> reads N E v \<and> value_signature v = vs"
    if "(k, v) \<in> set m" for k v
    using Dict.prems that Dict.IH(1) [OF that] Dict.IH(2) [OF that] s by (fastforce simp: list_all_iff)
  then show ?case
    unfolding s using Dict.prems by (intro reads_Dict) (auto simp: list_all_iff)
next
  case (Structure fs s)
  then have "reads N E (Structure fs (signature.Structure (map value_signature fs)))"
    by (intro reads_Structure) (auto simp: list_all_iff)
  with Structure.prems show ?case by simp
qed (use reads_basic reads_U8 reads_strings reads_Value in \<open>simp_all del: readable.simps(1-3)\<close>)

lemma deserialize_value_enc:
  assumes "value_ok v" "plain v" "readable v" "sig_wf (value_signature v)" "fuel v \<le> n"
    "enc E (c_endian c) no_depths (Value v) (c_position c) = Ok bs"
  shows "deserialize_value N E n (new_deserializer (bs @ r) f signature.Variant c) =
    Some (Ok v, adv (new_deserializer (bs @ r) f signature.Variant c) (length bs))"
  using read_variant [OF readable_reads [OF assms(1-3)] assms(5,4), of "new_deserializer (bs @ r) f signature.Variant c" bs]
    assms(6)
  by (simp add: deserialize_value_def new_deserializer_def de_endian_def de_abs_pos_def upcoming_def
      deserialize_any_def deserialize_seq_def value_visitor_def dbus_alignment_def alignment_def
      dbind_Some parse_padding_aligned del: enc.simps)

lemma roundtrip:
  assumes "value_ok v" "plain v" "readable v" "sig_wf (value_signature v)" "fuel v \<le> n"
    "to_bytes N E D c v = Ok dat"
  shows "data_deserialize N E n dat = Some (Ok (v, length (data_bytes dat)))"
proof -
  obtain bs where bs: "enc E (c_endian c) no_depths (Value v) (c_position c) = Ok bs" "dat = new_fds bs c []"
    using assms(6) to_bytes_enc [OF assms(1,2,4)] by (auto simp: map_ok_eq_Ok)
  then show ?thesis
    using deserialize_value_enc [OF assms(1-5) bs(1), of "[]"]
    by (simp add: data_deserialize_def deserialize_for_signature_def new_fds_def data_bytes_def new_deserializer_def)
qed

end

section \<open>Properties\<close>

text \<open>C1: What \<^verbatim>\<open>to_bytes\<close> writes, \<^verbatim>\<open>deserialize\<close> reads back: the value itself, having
  consumed all the bytes, at every position of the data in a message and in both byte orders. The value has no file
  descriptors and no \<^verbatim>\<open>Maybe\<close>, and its strings are UTF-8 without NUL.\<close>

theorem value_roundtrip:
  assumes "nom_laws N" "endi_laws E"
    and "value_ok v" "plain v" "readable v" "sig_wf (value_signature v)"
    and "to_bytes N E D c v = Ok dat" "fuel v \<le> n"
  shows "data_deserialize N E n dat = Some (Ok (v, length (data_bytes dat)))"
  using wire_laws.roundtrip [OF wire_laws.intro [OF assms(1,2)] assms(3-6,8,7)] .

theorem value_roundtrip_witness:
  "data_deserialize nom_ref endi_ref 6 (new_fds sample_bytes \<lparr>c_endian = Little, c_position = 0\<rparr> []) =
     Some (Ok (sample_value, 32))"
proof -
  let ?c = "\<lparr>c_endian = Little, c_position = 0\<rparr>"
  have "to_bytes nom_ref endi_ref (\<lambda>_. Some) ?c sample_value = Ok (new_fds sample_bytes ?c [])"
    using wr.to_bytes_enc [OF sample_value_ok] by (simp add: sample_encoding del: enc.simps)
  moreover have "readable sample_value" "fuel sample_value \<le> 6"
    by code_simp+
  ultimately show ?thesis
    using value_roundtrip [OF nr.nom_laws_axioms er.endi_laws_axioms sample_value_ok(1,2) _ sample_value_ok(3)]
    by (simp add: new_fds_def data_bytes_def sample_bytes_def)
qed

end
