(* ===== verification/Names.thy ===== *)
theory Names
  imports Wire
begin

text \<open>
  The validators of \<^verbatim>\<open>zbus_names\<close> and of object paths (\<^verbatim>\<open>zvariant/src/object_path.rs\<close>): one loop
  over the characters each, as in the code, and what the accepted strings look like. A
  multi-byte character is made of bytes that are no ASCII alphanumerics, so a loop over bytes
  rejects it where the loop over characters does. The texts of the errors are replaced by the
  reason they give.
\<close>

section \<open>Definitions\<close>

datatype name_reason =
  Too_Short | Too_Long | Bad_Start | Double_Dot | Leading_Digit | Bad_Char byte | No_Dot | Wrong_Kind

datatype names_error =
    InvalidWellKnownName name_reason
  | InvalidUniqueName name_reason
  | InvalidInterfaceName name_reason
  | InvalidMemberName name_reason
  | InvalidPropertyName name_reason
  | InvalidErrorName name_reason

definition name_char :: "byte \<Rightarrow> bool" where
  "name_char c \<longleftrightarrow> is_ascii_alphanumeric c \<or> c = CHR ''_''"

definition bus_name_char :: "byte \<Rightarrow> bool" where
  "bus_name_char c \<longleftrightarrow> is_ascii_alphanumeric c \<or> c = CHR ''_'' \<or> c = CHR ''-''"

text \<open>
  The loop that the validators of well-known, interface and error names share: \<open>ok\<close> are the
  characters of an element, \<open>prev\<close> is the previous character and \<open>no_dot\<close> says that none of
  them was a dot; its last value is the result.
\<close>

fun element_loop ::
  "(name_reason \<Rightarrow> names_error) \<Rightarrow> (byte \<Rightarrow> bool) \<Rightarrow> byte option \<Rightarrow> bool \<Rightarrow> string \<Rightarrow> (names_error, bool) res" where
  "element_loop err ok prev no_dot [] = Ok no_dot"
| "element_loop err ok prev no_dot (c # cs) =
     (if c = CHR ''.'' then
        (if prev = None \<or> prev = Some (CHR ''.'') then Err (err Double_Dot)
         else element_loop err ok (Some c) False cs)
      else if is_ascii_digit c \<and> (prev = None \<or> prev = Some (CHR ''.'')) then Err (err Leading_Digit)
      else if \<not> ok c then Err (err (Bad_Char c))
      else element_loop err ok (Some c) no_dot cs)"

definition ensure_correct_well_known_name :: "string \<Rightarrow> (names_error, unit) res" where
  "ensure_correct_well_known_name name =
     (if name = [] then Err (InvalidWellKnownName Too_Short)
      else if length name < 3 then Err (InvalidWellKnownName Too_Short)
      else if 255 < length name then Err (InvalidWellKnownName Too_Long)
      else bind_res (element_loop InvalidWellKnownName bus_name_char None True name) (\<lambda>no_dot.
        if no_dot then Err (InvalidWellKnownName No_Dot) else Ok ()))"

definition ensure_correct_interface_name :: "string \<Rightarrow> (names_error, unit) res" where
  "ensure_correct_interface_name name =
     (if length name < 3 then Err (InvalidInterfaceName Too_Short)
      else if 255 < length name then Err (InvalidInterfaceName Too_Long)
      else bind_res (element_loop InvalidInterfaceName name_char None True name) (\<lambda>no_dot.
        if no_dot then Err (InvalidInterfaceName No_Dot) else Ok ()))"

definition ensure_correct_error_name :: "string \<Rightarrow> (names_error, unit) res" where
  "ensure_correct_error_name name =
     (if length name < 3 then Err (InvalidErrorName Too_Short)
      else if 255 < length name then Err (InvalidErrorName Too_Long)
      else bind_res (element_loop InvalidErrorName name_char None True name) (\<lambda>no_dot.
        if no_dot then Err (InvalidErrorName No_Dot) else Ok ()))"

fun unique_loop :: "byte \<Rightarrow> bool \<Rightarrow> string \<Rightarrow> (names_error, bool) res" where
  "unique_loop prev no_dot [] = Ok no_dot"
| "unique_loop prev no_dot (c # cs) =
     (if c = CHR ''.'' then
        (if prev = CHR ''.'' then Err (InvalidUniqueName Double_Dot) else unique_loop c False cs)
      else if \<not> bus_name_char c then Err (InvalidUniqueName (Bad_Char c))
      else unique_loop c no_dot cs)"

definition ensure_correct_unique_name :: "string \<Rightarrow> (names_error, unit) res" where
  "ensure_correct_unique_name name =
     (case name of
        [] \<Rightarrow> Err (InvalidUniqueName Too_Short)
      | first # chars \<Rightarrow>
          if 255 < length name then Err (InvalidUniqueName Too_Long)
          else if name = ''org.freedesktop.DBus'' then Ok ()
          else if first \<noteq> CHR '':'' then Err (InvalidUniqueName Bad_Start)
          else bind_res (unique_loop first True chars) (\<lambda>no_dot.
            if no_dot then Err (InvalidUniqueName No_Dot) else Ok ()))"

fun member_loop :: "string \<Rightarrow> (names_error, unit) res" where
  "member_loop [] = Ok ()"
| "member_loop (c # cs) =
     (if \<not> name_char c then Err (InvalidMemberName (Bad_Char c)) else member_loop cs)"

definition ensure_correct_member_name :: "string \<Rightarrow> (names_error, unit) res" where
  "ensure_correct_member_name name =
     (case name of
        [] \<Rightarrow> Err (InvalidMemberName Too_Short)
      | first # _ \<Rightarrow>
          if 255 < length name then Err (InvalidMemberName Too_Long)
          else if is_ascii_digit first then Err (InvalidMemberName Leading_Digit)
          else member_loop name)"

text \<open>Only the length of a property name is checked.\<close>

definition ensure_correct_property_name :: "string \<Rightarrow> (names_error, unit) res" where
  "ensure_correct_property_name name =
     (if name = [] then Err (InvalidPropertyName Too_Short)
      else if 255 < length name then Err (InvalidPropertyName Too_Long)
      else Ok ())"

datatype bus_name = Unique string | WellKnown string

definition bus_name_try_from :: "string \<Rightarrow> (names_error, bus_name) res" where
  "bus_name_try_from v =
     (if prefix '':'' v \<or> v = ''org.freedesktop.DBus''
      then bind_res (ensure_correct_unique_name v) (\<lambda>_. Ok (Unique v))
      else bind_res (ensure_correct_well_known_name v) (\<lambda>_. Ok (WellKnown v)))"

fun bus_name_as_str :: "bus_name \<Rightarrow> string" where
  "bus_name_as_str (Unique name) = name"
| "bus_name_as_str (WellKnown name) = name"

fun well_known_try_from :: "bus_name \<Rightarrow> (names_error, string) res" where
  "well_known_try_from (Unique name) = Err (InvalidWellKnownName Wrong_Kind)"
| "well_known_try_from (WellKnown name) = Ok name"

fun unique_try_from :: "bus_name \<Rightarrow> (names_error, string) res" where
  "unique_try_from (Unique name) = Ok name"
| "unique_try_from (WellKnown name) = Err (InvalidUniqueName Wrong_Kind)"

text \<open>Object paths: the loop with its index and the previous byte.\<close>

fun path_loop :: "nat \<Rightarrow> nat \<Rightarrow> byte \<Rightarrow> byte list \<Rightarrow> (zerror, unit) res" where
  "path_loop len i prev [] = Ok ()"
| "path_loop len i prev (c # cs) =
     (if i = 0 \<and> c \<noteq> CHR ''/'' then Err (Message Invalid_value)
      else if c = CHR ''/'' \<and> prev = CHR ''/'' then Err (Message Invalid_value)
      else if 1 < len \<and> i = len - 1 \<and> c = CHR ''/'' then Err (Message Invalid_value)
      else if \<not> is_ascii_alphanumeric c \<and> c \<noteq> CHR ''/'' \<and> c \<noteq> CHR ''_'' then Err (Message Invalid_value)
      else path_loop len (i + 1) c cs)"

definition ensure_correct_object_path_str :: "byte list \<Rightarrow> (zerror, unit) res" where
  "ensure_correct_object_path_str path =
     (if path = [] then Err (Message (Invalid_length 0)) else path_loop (length path) 0 (byte_of 0) path)"

definition object_path_try_from :: "byte list \<Rightarrow> (zerror, string) res" where
  "object_path_try_from v = bind_res (ensure_correct_object_path_str v) (\<lambda>_. Ok v)"

section \<open>Elements between dots\<close>

text \<open>The names of the D-Bus specification: at least two non-empty elements that do not start
  with a digit. The validators let the last element be empty.\<close>

definition element_ok :: "(byte \<Rightarrow> bool) \<Rightarrow> string \<Rightarrow> bool" where
  "element_ok ok e \<longleftrightarrow> e \<noteq> [] \<and> list_all ok e \<and> \<not> is_ascii_digit (hd e)"

definition dotted :: "(byte \<Rightarrow> bool) \<Rightarrow> string \<Rightarrow> bool" where
  "dotted ok name \<longleftrightarrow> (let es = split_on (CHR ''.'') name in
     2 \<le> length es \<and> list_all (element_ok ok) (butlast es) \<and> (last es = [] \<or> element_ok ok (last es)))"

fun elements_ok :: "(byte \<Rightarrow> bool) \<Rightarrow> bool \<Rightarrow> string list \<Rightarrow> bool" where
  "elements_ok ok start [] = True"
| "elements_ok ok start (e # es) =
     (list_all ok e \<and> (start \<longrightarrow> (if e = [] then es = [] else \<not> is_ascii_digit (hd e))) \<and> elements_ok ok True es)"

lemma split_on_last_only: "length (split_on d s) = 1 \<longleftrightarrow> d \<notin> set s"
proof (induction s)
  case (Cons c s)
  then show ?case by (cases "split_on d s") (auto split: list.splits)
qed simp

lemma elements_ok_iff:
  "es \<noteq> [] \<Longrightarrow> elements_ok ok True es \<longleftrightarrow>
     list_all (element_ok ok) (butlast es) \<and> (last es = [] \<or> element_ok ok (last es))"
proof (induction es)
  case (Cons e es)
  then show ?case by (cases es) (auto simp: element_ok_def)
qed simp

lemma element_loop_Ok:
  assumes "\<not> ok (CHR ''.'')"
  shows "element_loop err ok prev no_dot cs = Ok nd \<longleftrightarrow>
    elements_ok ok (prev = None \<or> prev = Some (CHR ''.'')) (split_on (CHR ''.'') cs) \<and>
    nd = (no_dot \<and> CHR ''.'' \<notin> set cs)"
  using assms
proof (induction cs arbitrary: prev no_dot)
  case (Cons c cs)
  obtain e es where es: "split_on (CHR ''.'') cs = e # es"
    by (cases "split_on (CHR ''.'') cs") auto
  with Cons show ?case by (auto split: if_splits)
qed auto

lemma element_chars: "\<not> name_char (CHR ''.'')" "\<not> bus_name_char (CHR ''.'')"
  by (auto simp: name_char_def bus_name_char_def ascii_defs)

lemma element_loop_dotted:
  assumes "\<not> ok (CHR ''.'')"
  shows "element_loop err ok None True name = Ok False \<longleftrightarrow> dotted ok name"
proof -
  have "2 \<le> length (split_on (CHR ''.'') name) \<longleftrightarrow> CHR ''.'' \<in> set name"
    using split_on_last_only [of "CHR ''.''" name] split_on_nonempty [of "CHR ''.''" name]
    by (cases "split_on (CHR ''.'') name"; cases "tl (split_on (CHR ''.'') name)") auto
  then show ?thesis
    using elements_ok_iff [of "split_on (CHR ''.'') name" ok]
    by (auto simp: element_loop_Ok [where ok = ok, OF assms] dotted_def Let_def)
qed

lemma bind_no_dot:
  "bind_res m (\<lambda>no_dot. if no_dot then Err e else Ok ()) = Ok () \<longleftrightarrow> m = Ok False"
  by (cases m) auto

section \<open>Unique names\<close>

lemma unique_loop_Ok:
  "unique_loop prev no_dot cs = Ok nd \<longleftrightarrow>
     list_all (\<lambda>c. bus_name_char c \<or> c = CHR ''.'') cs \<and> \<not> sublist ''..'' (prev # cs) \<and>
     nd = (no_dot \<and> CHR ''.'' \<notin> set cs)"
proof (induction prev no_dot cs rule: unique_loop.induct)
  case (2 prev no_dot c cs)
  then show ?case by (auto simp: sublist_Cons_right prefix_Cons)
qed (auto simp: sublist_Cons_right prefix_Cons)

section \<open>Object paths\<close>

lemma path_loop_Ok:
  "0 < i \<Longrightarrow> i + length cs = len \<Longrightarrow> path_loop len i prev cs = Ok () \<longleftrightarrow>
     list_all (\<lambda>c. name_char c \<or> c = CHR ''/'') cs \<and> \<not> sublist ''//'' (prev # cs) \<and>
     (cs \<noteq> [] \<longrightarrow> last cs \<noteq> CHR ''/'')"
proof (induction len i prev cs rule: path_loop.induct)
  case (2 len i prev c cs)
  then show ?case by (cases cs) (auto simp: sublist_Cons_right prefix_Cons name_char_def)
qed (auto simp: sublist_Cons_right prefix_Cons)

text \<open>The elements of a path: what lies between the slashes.\<close>

definition path_elements_ok :: "string list \<Rightarrow> bool" where
  "path_elements_ok es \<longleftrightarrow> list_all (\<lambda>e. e \<noteq> [] \<and> list_all name_char e) es"

lemma slash_not_name_char [simp]: "\<not> name_char (CHR ''/'')"
  by (auto simp: name_char_def ascii_defs)

lemma path_elements:
  "list_all (\<lambda>c. name_char c \<or> c = CHR ''/'') cs \<and> \<not> sublist ''//'' (prev # cs) \<and>
     (if cs = [] then prev \<noteq> CHR ''/'' else last cs \<noteq> CHR ''/'') \<longleftrightarrow>
   (\<exists>e es. split_on (CHR ''/'') cs = e # es \<and> (prev = CHR ''/'' \<longrightarrow> e \<noteq> []) \<and>
     list_all name_char e \<and> path_elements_ok es)"
proof (induction cs arbitrary: prev)
  case Nil
  then show ?case by (auto simp: path_elements_ok_def sublist_Cons_right prefix_Cons)
next
  case (Cons c cs)
  obtain e es where es: "split_on (CHR ''/'') cs = e # es"
    by (cases "split_on (CHR ''/'') cs") auto
  have IH: "list_all (\<lambda>c. name_char c \<or> c = CHR ''/'') cs \<and> \<not> sublist ''//'' (c # cs) \<and>
      (if cs = [] then c \<noteq> CHR ''/'' else last cs \<noteq> CHR ''/'') \<longleftrightarrow>
      (c = CHR ''/'' \<longrightarrow> e \<noteq> []) \<and> list_all name_char e \<and> path_elements_ok es"
    using Cons.IH [of c] es by simp
  have sub: "sublist ''//'' (prev # c # cs) \<longleftrightarrow> (prev = CHR ''/'' \<and> c = CHR ''/'') \<or> sublist ''//'' (c # cs)"
    by (auto simp: sublist_Cons_right [of _ prev] prefix_Cons)
  show ?case
  proof (cases "c = CHR ''/''")
    case True
    then show ?thesis using IH es sub by (auto simp: path_elements_ok_def split: if_splits)
  next
    case False
    then show ?thesis using IH es sub by (auto split: if_splits)
  qed
qed

lemma object_path_Ok:
  "ensure_correct_object_path_str path = Ok () \<longleftrightarrow>
     path = ''/'' \<or> (\<exists>cs. path = CHR ''/'' # cs \<and> path_elements_ok (split_on (CHR ''/'') cs))"
proof (cases path)
  case (Cons c cs)
  obtain e es where es: "split_on (CHR ''/'') cs = e # es"
    by (cases "split_on (CHR ''/'') cs") auto
  have loop: "path_loop (Suc (length cs)) 1 c cs = Ok () \<longleftrightarrow>
     list_all (\<lambda>c. name_char c \<or> c = CHR ''/'') cs \<and> \<not> sublist ''//'' (c # cs) \<and>
     (cs \<noteq> [] \<longrightarrow> last cs \<noteq> CHR ''/'')"
    by (rule path_loop_Ok) simp_all
  show ?thesis
  proof (cases "cs = []")
    case True
    then show ?thesis
      using Cons by (auto simp: ensure_correct_object_path_str_def path_elements_ok_def char_of_def)
  next
    case False
    then show ?thesis
      using Cons loop path_elements [of cs c] es
      by (auto simp: ensure_correct_object_path_str_def path_elements_ok_def char_of_def)
  qed
qed (simp add: ensure_correct_object_path_str_def)

section \<open>Characters of valid names\<close>

definition printable_char :: "byte \<Rightarrow> bool" where
  "printable_char c \<longleftrightarrow> 32 < code c \<and> code c < 128 \<and> c \<noteq> CHR '','' \<and> c \<noteq> CHR ''=''"

definition printable :: "string \<Rightarrow> bool" where
  "printable s \<longleftrightarrow> (\<forall>c \<in> set s. printable_char c)"

lemma printable_Cons: "printable (c # cs) \<longleftrightarrow> printable_char c \<and> printable cs"
  by (simp add: printable_def)

lemma alnum_printable: "is_ascii_alphanumeric c \<Longrightarrow> printable_char c"
  by (auto simp: printable_char_def ascii_defs)

lemma other_printable: "printable []" "printable_char (CHR ''/'')" "printable_char (CHR ''_'')"
  by (simp_all add: printable_def printable_char_def)

lemma name_chars_printable: "name_char c \<Longrightarrow> printable_char c" "bus_name_char c \<Longrightarrow> printable_char c"
  by (auto simp: name_char_def bus_name_char_def alnum_printable other_printable) (simp add: printable_char_def)

lemma element_loop_printable:
  "element_loop err ok prev no_dot cs = Ok nd \<Longrightarrow> (\<And>c. ok c \<Longrightarrow> printable_char c) \<Longrightarrow> printable cs"
  by (induction cs arbitrary: prev no_dot) (auto simp: printable_def printable_char_def split: if_splits)

lemma member_loop_printable: "member_loop cs = Ok () \<Longrightarrow> printable cs"
  by (induction cs) (auto simp: printable_def dest: name_chars_printable split: if_splits)

lemma names_printable:
  "ensure_correct_well_known_name s = Ok () \<Longrightarrow> printable s" "ensure_correct_interface_name s = Ok () \<Longrightarrow> printable s"
  "ensure_correct_error_name s = Ok () \<Longrightarrow> printable s" "ensure_correct_member_name s = Ok () \<Longrightarrow> printable s"
  by (auto simp: ensure_correct_well_known_name_def ensure_correct_interface_name_def
      ensure_correct_error_name_def ensure_correct_member_name_def name_chars_printable printable_Cons
      printable_char_def [of "CHR ''.''"] dest!: element_loop_printable member_loop_printable split: if_splits list.splits)

lemma unique_name_printable: "ensure_correct_unique_name s = Ok () \<Longrightarrow> printable s"
  by (auto simp: ensure_correct_unique_name_def unique_loop_Ok printable_def list_all_iff
      printable_char_def
      dest!: bspec dest: name_chars_printable(2) [unfolded printable_char_def] split: if_splits list.splits)

lemma path_loop_printable: "path_loop len i prev cs = Ok () \<Longrightarrow> printable cs"
  by (induction len i prev cs rule: path_loop.induct) (auto simp: printable_Cons other_printable alnum_printable split: if_splits)

lemma object_path_printable: "object_path_try_from s = Ok p \<Longrightarrow> p = s \<and> printable s"
  by (auto simp: object_path_try_from_def ensure_correct_object_path_str_def dest: path_loop_printable split: if_splits)

lemma bus_name_printable: "bus_name_try_from s = Ok b \<Longrightarrow> bus_name_as_str b = s \<and> printable s"
  by (auto simp: bus_name_try_from_def dest: names_printable unique_name_printable split: if_splits)

section \<open>Properties\<close>

text \<open>C30: The validators of interface, error and well-known names accept exactly the dotted names of
  3 to 255 characters with at least two elements, each non-empty and without a leading digit,
  except that the last element may be empty.\<close>

theorem dotted_name_language:
  "(ensure_correct_interface_name name = Ok () \<longleftrightarrow>
     3 \<le> length name \<and> length name \<le> 255 \<and> dotted name_char name) \<and>
   (ensure_correct_error_name name = Ok () \<longleftrightarrow>
     3 \<le> length name \<and> length name \<le> 255 \<and> dotted name_char name) \<and>
   (ensure_correct_well_known_name name = Ok () \<longleftrightarrow>
     3 \<le> length name \<and> length name \<le> 255 \<and> dotted bus_name_char name)"
  by (auto simp: ensure_correct_interface_name_def ensure_correct_error_name_def
      ensure_correct_well_known_name_def bind_no_dot element_loop_dotted element_chars)

text \<open>Names that end in a dot are accepted, against the rules that the validators state.\<close>

theorem trailing_dot_accepted:
  "ensure_correct_interface_name ''a.b.'' = Ok () \<and> ensure_correct_error_name ''ab.'' = Ok () \<and>
   ensure_correct_well_known_name ''ab.'' = Ok () \<and> ensure_correct_unique_name '':.'' = Ok ()"
  by code_simp

text \<open>C31: The validator of object paths accepts the root, and a slash followed by non-empty elements
  of letters, digits and underscores with single slashes between them.\<close>

theorem object_path_language:
  "ensure_correct_object_path_str path = Ok () \<longleftrightarrow>
     path = ''/'' \<or> (\<exists>cs. path = CHR ''/'' # cs \<and> path_elements_ok (split_on (CHR ''/'') cs))"
  by (rule object_path_Ok)

text \<open>A bus name is the string it was made from; a string is a valid unique name and a valid
  well-known name at once only if it is the name of the bus itself, and the conversion tells them
  apart.\<close>

theorem bus_name_partition:
  assumes "bus_name_try_from v = Ok n"
  shows "bus_name_as_str n = v \<and>
    (case n of Unique u \<Rightarrow> ensure_correct_unique_name u = Ok ()
     | WellKnown w \<Rightarrow> ensure_correct_well_known_name w = Ok () \<and> (\<exists>e. ensure_correct_unique_name w = Err e))"
  using assms by (auto simp: bus_name_try_from_def ensure_correct_unique_name_def split: if_splits list.splits)

theorem bus_name_partition_witness:
  "bus_name_as_str (WellKnown ''org.zbus'') = ''org.zbus'' \<and>
    (\<exists>e. ensure_correct_unique_name ''org.zbus'' = Err e)"
proof -
  have "bus_name_try_from ''org.zbus'' = Ok (WellKnown ''org.zbus'')" by code_simp
  from bus_name_partition [OF this] show ?thesis by simp
qed

end
