(* ===== verification/Message.thy ===== *)
theory Message
  imports DBus_Roundtrip Names
begin

text \<open>
  Messages (\<^verbatim>\<open>zbus/src/message\<close>): the primary header with the global serial counter, the header
  fields, the builder, and the way back from bytes to a message with its header and body.

  The serde implementations that \<^verbatim>\<open>derive\<close> makes for structures and tuples visit the fields in
  order, and those of \<^verbatim>\<open>serde_repr\<close> go through the number of an enum. \<open>B\<close> is
  \<^verbatim>\<open>BitFlags::from_bits\<close> of the \<^verbatim>\<open>enumflags2\<close> crate, which says which flags are known. A cached
  field (\<^verbatim>\<open>FieldPos\<close>) is the slice of the message it points to.
\<close>

section \<open>Primary header\<close>

text \<open>The errors of the D-Bus specification (\<^verbatim>\<open>zbus/src/fdo/error.rs\<close>) but for the one that wraps an error of zbus.\<close>

datatype fdo_kind =
    Failed | NoMemory | ServiceUnknown | NameHasNoOwner | NoReply | IOError | BadAddress | NotSupported
  | LimitsExceeded | AccessDenied | AuthFailed | NoServer | Timeout | NoNetwork | AddressInUse | Disconnected
  | InvalidArgs | FileNotFound | FileExists | UnknownMethod | UnknownObject | UnknownInterface
  | UnknownProperty | PropertyReadOnly | TimedOut | MatchRuleNotFound | MatchRuleInvalid | SpawnExecFailed
  | SpawnForkFailed | SpawnChildExited | SpawnChildSignaled | SpawnFailed | SpawnFailedToSetup
  | SpawnConfigInvalid | SpawnServiceNotValid | SpawnServiceNotFound | SpawnPermissionsInvalid
  | SpawnFileInvalid | SpawnNoMemory | UnixProcessIdUnknown | InvalidSignature | InvalidFileContent
  | SELinuxSecurityContextUnknown | AdtAuditDataUnknown | ObjectPathInUse | InconsistentMessage
  | InteractiveAuthorizationRequired | NotContainer

datatype error =
    VariantError zerror
  | NamesError names_error
  | IncorrectEndian
  | ExcessData
  | InvalidField
  | IoError
  | MissingParameter
  | HandshakeError
  | InvalidGUID
  | InvalidMatchRule
  | InterfaceNotFound
  | MissingField
  | InvalidReply
  | MethodError string "string option"
  | Unsupported
  | NameTaken
  | InterfaceExists string string
  | FDO fdo_kind string

datatype endian_sig = BigSig | LittleSig

definition endian_sig_try_from :: "byte \<Rightarrow> (error, endian_sig) res" where
  "endian_sig_try_from b =
     (if b = CHR ''B'' then Ok BigSig else if b = CHR ''l'' then Ok LittleSig else Err IncorrectEndian)"

definition endian_sig_of :: "endian \<Rightarrow> endian_sig" where
  "endian_sig_of e = (case e of Little \<Rightarrow> LittleSig | Big \<Rightarrow> BigSig)"

definition endian_of_sig :: "endian_sig \<Rightarrow> endian" where
  "endian_of_sig s = (case s of LittleSig \<Rightarrow> Little | BigSig \<Rightarrow> Big)"

text \<open>\<^verbatim>\<open>#[repr(u8)]\<close> of the enums, both ways.\<close>

definition endian_sig_repr :: "endian_sig \<Rightarrow> byte" where
  "endian_sig_repr s = (case s of BigSig \<Rightarrow> CHR ''B'' | LittleSig \<Rightarrow> CHR ''l'')"

definition endian_sig_of_repr :: "byte \<Rightarrow> (zerror, endian_sig) res" where
  "endian_sig_of_repr b =
     (if b = CHR ''B'' then Ok BigSig else if b = CHR ''l'' then Ok LittleSig else Err (zerror.Message Custom))"

datatype msg_type = MethodCall | MethodReturn | ErrorType | Signal

definition msg_type_repr :: "msg_type \<Rightarrow> byte" where
  "msg_type_repr t =
     byte_of (case t of MethodCall \<Rightarrow> 1 | MethodReturn \<Rightarrow> 2 | ErrorType \<Rightarrow> 3 | Signal \<Rightarrow> 4)"

definition msg_type_of_repr :: "byte \<Rightarrow> (zerror, msg_type) res" where
  "msg_type_of_repr b =
     (if code b = 1 then Ok MethodCall else if code b = 2 then Ok MethodReturn
      else if code b = 3 then Ok ErrorType else if code b = 4 then Ok Signal else Err (zerror.Message Custom))"

datatype flag = NoReplyExpected | NoAutoStart | AllowInteractiveAuth

definition flag_bits :: "flag \<Rightarrow> nat" where
  "flag_bits f = (case f of NoReplyExpected \<Rightarrow> 1 | NoAutoStart \<Rightarrow> 2 | AllowInteractiveAuth \<Rightarrow> 4)"

record primary_header =
  endian_sig :: endian_sig
  msg_type :: msg_type
  flags :: byte
  protocol_version :: byte
  body_len :: u32
  serial_num :: u32

definition PRIMARY_HEADER_SIZE :: nat where "PRIMARY_HEADER_SIZE = 12"
definition MIN_MESSAGE_SIZE :: nat where "MIN_MESSAGE_SIZE = 16"
definition MAX_MESSAGE_SIZE :: nat where "MAX_MESSAGE_SIZE = 134217728"

text \<open>\<^verbatim>\<open>PrimaryHeader::new\<close> with the counter \<^verbatim>\<open>SERIAL_NUM\<close> before and after; \<open>ne\<close> is the native byte
  order. A serial of 0 cannot be made into a \<^verbatim>\<open>NonZeroU32\<close>.\<close>

definition next_serial :: "u32 \<Rightarrow> u32 \<times> u32" where
  "next_serial n = (if n = 0 then (n + 1, n + 1 + 1) else (n, n + 1))"

definition primary_new :: "endian_sig \<Rightarrow> msg_type \<Rightarrow> u32 \<Rightarrow> u32 \<Rightarrow> (error, primary_header \<times> u32) res" where
  "primary_new ne t len counter =
     (case next_serial counter of (serial, counter') \<Rightarrow>
        if serial = 0 then Panic
        else Ok (\<lparr>endian_sig = ne, msg_type = t, flags = byte_of 0, protocol_version = byte_of 1,
                  body_len = len, serial_num = serial\<rparr>, counter'))"

section \<open>Fields\<close>

record fields =
  path :: "string option"
  interface :: "string option"
  member :: "string option"
  error_name :: "string option"
  reply_serial :: "u32 option"
  destination :: "bus_name option"
  sender :: "string option"
  body_signature :: signature
  unix_fds :: "u32 option"

definition no_fields :: fields where
  "no_fields = \<lparr>path = None, interface = None, member = None, error_name = None, reply_serial = None,
     destination = None, sender = None, body_signature = signature.Unit, unix_fds = None\<rparr>"

record header =
  primary :: primary_header
  header_fields :: fields

datatype field_code =
  Path_F | Interface_F | Member_F | ErrorName_F | ReplySerial_F | Destination_F | Sender_F | Signature_F | UnixFDs_F

definition field_code_repr :: "field_code \<Rightarrow> byte" where
  "field_code_repr c = byte_of (case c of
     Path_F \<Rightarrow> 1 | Interface_F \<Rightarrow> 2 | Member_F \<Rightarrow> 3 | ErrorName_F \<Rightarrow> 4 | ReplySerial_F \<Rightarrow> 5
   | Destination_F \<Rightarrow> 6 | Sender_F \<Rightarrow> 7 | Signature_F \<Rightarrow> 8 | UnixFDs_F \<Rightarrow> 9)"

definition field_code_of_repr :: "byte \<Rightarrow> (zerror, field_code) res" where
  "field_code_of_repr b =
     (if code b = 1 then Ok Path_F else if code b = 2 then Ok Interface_F
      else if code b = 3 then Ok Member_F else if code b = 4 then Ok ErrorName_F
      else if code b = 5 then Ok ReplySerial_F else if code b = 6 then Ok Destination_F
      else if code b = 7 then Ok Sender_F else if code b = 8 then Ok Signature_F
      else if code b = 9 then Ok UnixFDs_F else Err (zerror.Message Custom))"

text \<open>What \<^verbatim>\<open>Serialize for Fields\<close> writes: a code with a value, or with the body's signature, which
  goes through \<^verbatim>\<open>SignatureSerializer\<close>.\<close>

datatype entry = Entry field_code zvalue | Signature_Entry signature

definition opt_entry :: "field_code \<Rightarrow> ('a \<Rightarrow> zvalue) \<Rightarrow> 'a option \<Rightarrow> entry list" where
  "opt_entry c f x = (case x of None \<Rightarrow> [] | Some y \<Rightarrow> [Entry c (f y)])"

definition field_entries :: "fields \<Rightarrow> entry list" where
  "field_entries f =
     opt_entry Path_F ObjectPath (path f) @ opt_entry Interface_F Str (interface f) @
     opt_entry Member_F Str (member f) @ opt_entry ErrorName_F Str (error_name f) @
     opt_entry ReplySerial_F U32 (reply_serial f) @
     opt_entry Destination_F (\<lambda>b. Str (bus_name_as_str b)) (destination f) @
     opt_entry Sender_F Str (sender f) @
     (if body_signature f = signature.Unit then [] else [Signature_Entry (body_signature f)]) @
     opt_entry UnixFDs_F U32 (unix_fds f)"

definition signature_serializer :: "nom \<Rightarrow> endi \<Rightarrow> signature \<Rightarrow> ser \<Rightarrow> (zerror, ser) res" where
  "signature_serializer N E sg s =
     bind_res (serialize_struct E 2 s) (\<lambda>xs.
     bind_res (serialize_field (serialize_str N E (to_string signature.Signature)) xs) (\<lambda>xs.
     bind_res (serialize_field (serialize_str N E (to_string_no_parens sg)) xs) (\<lambda>xs. end_struct_seq E xs)))"

text \<open>A tuple of a code and what \<open>f\<close> serializes.\<close>

definition serialize_pair :: "endi \<Rightarrow> field_code \<Rightarrow> (ser \<Rightarrow> (zerror, ser) res) \<Rightarrow> ser \<Rightarrow> (zerror, ser) res" where
  "serialize_pair E c f s =
     bind_res (serialize_struct E 2 s) (\<lambda>xs.
     bind_res (serialize_field (serialize_u8 (field_code_repr c)) xs) (\<lambda>xs.
     bind_res (serialize_field f xs) (\<lambda>xs. end_struct_seq E xs)))"

definition serialize_entry :: "nom \<Rightarrow> endi \<Rightarrow> dup \<Rightarrow> entry \<Rightarrow> ser \<Rightarrow> (zerror, ser) res" where
  "serialize_entry N E D e =
     (case e of
        Entry c v \<Rightarrow> serialize_pair E c (serialize_value N E D v)
      | Signature_Entry sg \<Rightarrow> serialize_pair E Signature_F (signature_serializer N E sg))"

definition serialize_header_fields :: "nom \<Rightarrow> endi \<Rightarrow> dup \<Rightarrow> fields \<Rightarrow> ser \<Rightarrow> (zerror, ser) res" where
  "serialize_header_fields N E D f s =
     bind_res (serialize_seq E s) (\<lambda>(q, s).
     bind_res (fold_res (serialize_entry N E D) (field_entries f) s) (\<lambda>s. end_seq E q s))"

section \<open>Serialization of the header\<close>

definition PRIMARY_SIGNATURE :: signature where
  "PRIMARY_SIGNATURE = signature.Structure
     [signature.U8, signature.U8, signature.U8, signature.U8, signature.U32, signature.U32]"

definition FIELDS_SIGNATURE :: signature where
  "FIELDS_SIGNATURE = signature.Array (signature.Structure [signature.U8, signature.Variant])"

definition HEADER_SIGNATURE :: signature where
  "HEADER_SIGNATURE = signature.Structure [PRIMARY_SIGNATURE, FIELDS_SIGNATURE]"

definition serialize_primary :: "endi \<Rightarrow> primary_header \<Rightarrow> ser \<Rightarrow> (zerror, ser) res" where
  "serialize_primary E p s =
     bind_res (serialize_struct E 6 s) (\<lambda>xs.
     bind_res (serialize_field (serialize_u8 (endian_sig_repr (endian_sig p))) xs) (\<lambda>xs.
     bind_res (serialize_field (serialize_u8 (msg_type_repr (msg_type p))) xs) (\<lambda>xs.
     bind_res (serialize_field (serialize_u8 (flags p)) xs) (\<lambda>xs.
     bind_res (serialize_field (serialize_u8 (protocol_version p)) xs) (\<lambda>xs.
     bind_res (serialize_field (serialize_u32 E (body_len p)) xs) (\<lambda>xs.
     bind_res (serialize_field (serialize_u32 E (serial_num p)) xs) (\<lambda>xs. end_struct_seq E xs)))))))"

definition serialize_header :: "nom \<Rightarrow> endi \<Rightarrow> dup \<Rightarrow> header \<Rightarrow> ser \<Rightarrow> (zerror, ser) res" where
  "serialize_header N E D h s =
     bind_res (serialize_struct E 2 s) (\<lambda>xs.
     bind_res (serialize_field (serialize_primary E (primary h)) xs) (\<lambda>xs.
     bind_res (serialize_field (serialize_header_fields N E D (header_fields h)) xs) (\<lambda>xs.
     end_struct_seq E xs)))"

section \<open>Messages and the builder\<close>

text \<open>The cached fields of \<^verbatim>\<open>QuickFields\<close>; those that are names hold the string only.\<close>

record quick_fields =
  q_path :: "string option"
  q_interface :: "string option"
  q_member :: "string option"
  q_error_name :: "string option"
  q_reply_serial :: "u32 option"
  q_destination :: "string option"
  q_sender :: "string option"
  q_signature :: signature
  q_unix_fds :: "u32 option"

definition quick_fields_new :: "fields \<Rightarrow> quick_fields" where
  "quick_fields_new f = \<lparr>q_path = path f, q_interface = interface f, q_member = member f,
     q_error_name = error_name f, q_reply_serial = reply_serial f,
     q_destination = map_option bus_name_as_str (destination f), q_sender = sender f,
     q_signature = body_signature f, q_unix_fds = unix_fds f\<rparr>"

record message =
  msg_primary :: primary_header
  msg_quick_fields :: "quick_fields option"
  msg_bytes :: data
  msg_body_offset :: nat
  msg_recv_seq :: u64

definition builder_new :: "endian_sig \<Rightarrow> msg_type \<Rightarrow> u32 \<Rightarrow> (error, header \<times> u32) res" where
  "builder_new ne t counter =
     bind_res (primary_new ne t 0 counter) (\<lambda>(p, counter').
       Ok (\<lparr>primary = p, header_fields = no_fields\<rparr>, counter'))"

text \<open>The flags are a set of bits: one that is there already stays.\<close>

definition with_flags :: "header \<Rightarrow> flag \<Rightarrow> (error, header) res" where
  "with_flags h f =
     (if msg_type (primary h) \<noteq> MethodCall \<and> f = NoReplyExpected then Err InvalidField
      else let b = code (flags (primary h)); k = flag_bits f in
        Ok (h\<lparr>primary := (primary h)\<lparr>flags := byte_of (if b div k mod 2 = 1 then b else b + k)\<rparr>\<rparr>))"

definition set_fields :: "(fields \<Rightarrow> fields) \<Rightarrow> header \<Rightarrow> header" where
  "set_fields f h = h\<lparr>header_fields := f (header_fields h)\<rparr>"

definition names_check :: "(names_error, unit) res \<Rightarrow> (error, unit) res" where
  "names_check r = map_err NamesError r"

definition set_sender :: "string \<Rightarrow> header \<Rightarrow> (error, header) res" where
  "set_sender x h = bind_res (names_check (ensure_correct_unique_name x)) (\<lambda>_.
     Ok (set_fields (\<lambda>f. f\<lparr>sender := Some x\<rparr>) h))"

definition set_path :: "string \<Rightarrow> header \<Rightarrow> (error, header) res" where
  "set_path x h = bind_res (map_err VariantError (object_path_try_from x)) (\<lambda>x.
     Ok (set_fields (\<lambda>f. f\<lparr>path := Some x\<rparr>) h))"

definition set_interface :: "string \<Rightarrow> header \<Rightarrow> (error, header) res" where
  "set_interface x h = bind_res (names_check (ensure_correct_interface_name x)) (\<lambda>_.
     Ok (set_fields (\<lambda>f. f\<lparr>interface := Some x\<rparr>) h))"

definition set_member :: "string \<Rightarrow> header \<Rightarrow> (error, header) res" where
  "set_member x h = bind_res (names_check (ensure_correct_member_name x)) (\<lambda>_.
     Ok (set_fields (\<lambda>f. f\<lparr>member := Some x\<rparr>) h))"

definition set_error_name :: "string \<Rightarrow> header \<Rightarrow> (error, header) res" where
  "set_error_name x h = bind_res (names_check (ensure_correct_error_name x)) (\<lambda>_.
     Ok (set_fields (\<lambda>f. f\<lparr>error_name := Some x\<rparr>) h))"

definition set_destination :: "string \<Rightarrow> header \<Rightarrow> (error, header) res" where
  "set_destination x h = bind_res (map_err NamesError (bus_name_try_from x)) (\<lambda>b.
     Ok (set_fields (\<lambda>f. f\<lparr>destination := Some b\<rparr>) h))"

definition set_endian :: "endian \<Rightarrow> header \<Rightarrow> header" where
  "set_endian e h = h\<lparr>primary := (primary h)\<lparr>endian_sig := endian_sig_of e\<rparr>\<rparr>"

text \<open>\<^verbatim>\<open>reply_to\<close>: the sender of the call becomes the destination (a unique name, so no check).\<close>

definition reply_to :: "header \<Rightarrow> header \<Rightarrow> header" where
  "reply_to call h =
     (let h = set_fields (\<lambda>f. f\<lparr>reply_serial := Some (serial_num (primary call))\<rparr>) h;
          h = set_endian (endian_of_sig (endian_sig (primary call))) h in
      case sender (header_fields call) of
        Some s \<Rightarrow> set_fields (\<lambda>f. f\<lparr>destination := Some (Unique s)\<rparr>) h
      | None \<Rightarrow> h)"

text \<open>A builder from the header of another message.\<close>

definition builder_from :: "header \<Rightarrow> header" where
  "builder_from h = set_fields (\<lambda>f. f\<lparr>body_signature := signature.Unit, unix_fds := None\<rparr>) h"

text \<open>The constructors of \<^verbatim>\<open>Message\<close>.\<close>

definition method_call :: "endian_sig \<Rightarrow> u32 \<Rightarrow> string \<Rightarrow> string \<Rightarrow> (error, header \<times> u32) res" where
  "method_call ne counter p m =
     bind_res (builder_new ne MethodCall counter) (\<lambda>(h, counter').
     bind_res (bind_res (set_path p h) (set_member m)) (\<lambda>h. Ok (h, counter')))"

definition signal :: "endian_sig \<Rightarrow> u32 \<Rightarrow> string \<Rightarrow> string \<Rightarrow> string \<Rightarrow> (error, header \<times> u32) res" where
  "signal ne counter p i m =
     bind_res (builder_new ne Signal counter) (\<lambda>(h, counter').
     bind_res (bind_res (bind_res (set_path p h) (set_interface i)) (set_member m)) (\<lambda>h. Ok (h, counter')))"

definition method_return :: "endian_sig \<Rightarrow> u32 \<Rightarrow> header \<Rightarrow> (error, header \<times> u32) res" where
  "method_return ne counter call =
     bind_res (builder_new ne MethodReturn counter) (\<lambda>(h, counter'). Ok (reply_to call h, counter'))"

definition error_reply :: "endian_sig \<Rightarrow> u32 \<Rightarrow> header \<Rightarrow> string \<Rightarrow> (error, header \<times> u32) res" where
  "error_reply ne counter call name =
     bind_res (builder_new ne ErrorType counter) (\<lambda>(h, counter').
     bind_res (set_error_name name (reply_to call h)) (\<lambda>h. Ok (h, counter')))"

text \<open>\<^verbatim>\<open>build_generic\<close>. \<open>write_body\<close> gets the cursor and returns the descriptors and the cursor.\<close>

definition padding_for_8_bytes :: "nat \<Rightarrow> nat" where
  "padding_for_8_bytes n = padding n 8"

definition header_ctxt :: "header \<Rightarrow> ctx" where
  "header_ctxt h = \<lparr>c_endian = endian_of_sig (endian_sig (primary h)), c_position = 0\<rparr>"

definition build_generic ::
  "nom \<Rightarrow> endi \<Rightarrow> dup \<Rightarrow> signature \<Rightarrow> ser_size \<Rightarrow> (writer \<Rightarrow> (error, u32 list \<times> writer) res) \<Rightarrow> header
     \<Rightarrow> (error, message) res" where
  "build_generic N E D sg body_size write_body h =
     (let ctxt = header_ctxt h; h = set_fields (\<lambda>f. f\<lparr>body_signature := sg\<rparr>) h in
      if 2 ^ 32 \<le> z_size body_size then Err ExcessData
      else
        let h = h\<lparr>primary := (primary h)\<lparr>body_len := word_of_nat (z_size body_size)\<rparr>\<rparr>;
            h = (if z_num_fds body_size \<noteq> 0
                 then set_fields (\<lambda>f. f\<lparr>unix_fds := Some (z_num_fds body_size)\<rparr>) h else h) in
        bind_res (map_err VariantError (serialized_size ctxt HEADER_SIGNATURE (serialize_header N E D h))) (\<lambda>hdr_size.
        let hdr_len = z_size hdr_size; body_padding = padding_for_8_bytes hdr_len;
            body_offset = hdr_len + body_padding; total_len = body_offset + z_size body_size in
        if MAX_MESSAGE_SIZE < total_len then Err ExcessData
        else
          bind_res (map_err VariantError
            (to_writer_for_signature (Cursor [] 0) ctxt HEADER_SIGNATURE (serialize_header N E D h))) (\<lambda>(_, w).
          let w = writer_write w (replicate body_padding (byte_of 0)) in
          bind_res (write_body w) (\<lambda>(fs, w).
          case w of
            Cursor buf _ \<Rightarrow> Ok \<lparr>msg_primary = primary h, msg_quick_fields = None,
              msg_bytes = new_fds buf ctxt fs, msg_body_offset = body_offset, msg_recv_seq = 0\<rparr>
          | NullWriteSeek \<Rightarrow> Panic))))"

text \<open>\<^verbatim>\<open>build\<close>: \<open>f\<close> is the \<^verbatim>\<open>Serialize\<close> of the body and \<open>sg\<close> its signature.\<close>

definition build ::
  "nom \<Rightarrow> endi \<Rightarrow> dup \<Rightarrow> signature \<Rightarrow> (ser \<Rightarrow> (zerror, ser) res) \<Rightarrow> header \<Rightarrow> (error, message) res" where
  "build N E D sg f h =
     bind_res (map_err VariantError (serialized_size (header_ctxt h) sg f)) (\<lambda>body_size.
     build_generic N E D sg body_size (\<lambda>w.
       bind_res (map_err VariantError (to_writer_for_signature w (header_ctxt h) sg f)) (\<lambda>(wr, w).
         Ok (w_fds wr, w))) h)"

section \<open>From bytes to a message\<close>

text \<open>Results of code that calls the deserializer, whose fuel may run out.\<close>

definition obind :: "('e, 'a) res option \<Rightarrow> ('a \<Rightarrow> ('e, 'b) res option) \<Rightarrow> ('e, 'b) res option" where
  "obind m f =
     (case m of None \<Rightarrow> None | Some r \<Rightarrow> (case r of Ok x \<Rightarrow> f x | Err e \<Rightarrow> Some (Err e) | Panic \<Rightarrow> Some Panic))"

abbreviation omap_err :: "('e \<Rightarrow> 'f) \<Rightarrow> ('e, 'a) res option \<Rightarrow> ('f, 'a) res option" where
  "omap_err h \<equiv> map_option (map_err h)"

text \<open>A visitor that takes sequences only, and \<^verbatim>\<open>next_element\<close> of an element that must be there.\<close>

definition seq_visitor :: "(seq_access \<Rightarrow> 'v dm) \<Rightarrow> 'v visitor" where
  "seq_visitor f = \<lparr>visit_basic = (\<lambda>_. Err (zerror.Message Invalid_type)),
     visit_i32 = (\<lambda>_. Err (zerror.Message Invalid_type)),
     visit_borrowed_str = (\<lambda>_. Err (zerror.Message Invalid_type)),
     visit_seq = f, visit_map = (\<lambda>_. throw (zerror.Message Invalid_type))\<rparr>"

definition next_field :: "nom \<Rightarrow> seq_access \<Rightarrow> nat \<Rightarrow> 'a dm \<Rightarrow> ('a \<times> seq_access) dm" where
  "next_field N sa i f =
     dbind (next_element_seed N sa f) (\<lambda>(x, sa).
       case x of Some x \<Rightarrow> ret (x, sa) | None \<Rightarrow> throw (zerror.Message (Invalid_length i)))"

definition nonzero :: "u32 \<Rightarrow> (zerror, u32) res" where
  "nonzero w = (if w = 0 then Err (zerror.Message Invalid_value) else Ok w)"

definition deserialize_primary :: "nom \<Rightarrow> endi \<Rightarrow> (byte \<Rightarrow> byte option) \<Rightarrow> primary_header dm" where
  "deserialize_primary N E B = deserialize_seq E (seq_visitor (\<lambda>sa.
     dbind (next_field N sa 0 (dbind deserialize_u8 (\<lambda>b. lift (endian_sig_of_repr b)))) (\<lambda>(e, sa).
     dbind (next_field N sa 1 (dbind deserialize_u8 (\<lambda>b. lift (msg_type_of_repr b)))) (\<lambda>(t, sa).
     dbind (next_field N sa 2 (dbind deserialize_u8 (\<lambda>b. lift (ok_or (B b) (zerror.Message Custom))))) (\<lambda>(f, sa).
     dbind (next_field N sa 3 deserialize_u8) (\<lambda>(v, sa).
     dbind (next_field N sa 4 (deserialize_u32 E signature.U32)) (\<lambda>(l, sa).
     dbind (next_field N sa 5 (dbind (deserialize_u32 E signature.U32) (\<lambda>w. lift (nonzero w)))) (\<lambda>(n, sa).
     ret \<lparr>endian_sig = e, msg_type = t, flags = f, protocol_version = v, body_len = l, serial_num = n\<rparr>))))))))"

definition deserialize_pair :: "nom \<Rightarrow> endi \<Rightarrow> nat \<Rightarrow> (field_code \<times> zvalue) dm" where
  "deserialize_pair N E n = deserialize_seq E (seq_visitor (\<lambda>sa.
     dbind (next_field N sa 0 (dbind deserialize_u8 (\<lambda>b. lift (field_code_of_repr b)))) (\<lambda>(c, sa).
     dbind (next_field N sa 1 (deserialize_value N E n)) (\<lambda>(v, sa). ret (c, v)))))"

text \<open>One round of \<^verbatim>\<open>FieldsVisitor\<close>. The conversions of a value to an object path or to the names
  that derive \<^verbatim>\<open>Value\<close> look at the type of the value only; that to a bus name checks the name.\<close>

definition set_field :: "field_code \<Rightarrow> zvalue \<Rightarrow> fields \<Rightarrow> (zerror, fields) res" where
  "set_field c v f =
     (case (c, v) of
        (Path_F, ObjectPath x) \<Rightarrow> Ok (f\<lparr>path := Some x\<rparr>)
      | (Interface_F, Str x) \<Rightarrow> Ok (f\<lparr>interface := Some x\<rparr>)
      | (Member_F, Str x) \<Rightarrow> Ok (f\<lparr>member := Some x\<rparr>)
      | (ErrorName_F, Str x) \<Rightarrow> Ok (f\<lparr>error_name := Some x\<rparr>)
      | (ReplySerial_F, U32 w) \<Rightarrow>
          bind_res (map_err (\<lambda>_. zerror.Message Custom) (nonzero w)) (\<lambda>w. Ok (f\<lparr>reply_serial := Some w\<rparr>))
      | (Destination_F, Str x) \<Rightarrow>
          bind_res (map_err (\<lambda>_. zerror.Message Custom) (bus_name_try_from x)) (\<lambda>b. Ok (f\<lparr>destination := Some b\<rparr>))
      | (Sender_F, Str x) \<Rightarrow> Ok (f\<lparr>sender := Some x\<rparr>)
      | (Signature_F, zvalue.Signature s) \<Rightarrow> Ok (f\<lparr>body_signature := s\<rparr>)
      | (UnixFDs_F, U32 w) \<Rightarrow> Ok (f\<lparr>unix_fds := Some w\<rparr>)
      | _ \<Rightarrow> Err (zerror.Message Custom))"

fun fields_loop :: "nom \<Rightarrow> endi \<Rightarrow> nat \<Rightarrow> nat \<Rightarrow> seq_access \<Rightarrow> fields \<Rightarrow> fields dm" where
  "fields_loop N E n 0 sa f d = None"
| "fields_loop N E n (Suc k) sa f d =
     dbind (next_element_seed N sa (deserialize_pair N E n)) (\<lambda>(x, sa).
     case x of
       None \<Rightarrow> ret f
     | Some (c, v) \<Rightarrow> dbind (lift (set_field c v f)) (\<lambda>f. fields_loop N E n k sa f)) d"

definition deserialize_fields :: "nom \<Rightarrow> endi \<Rightarrow> nat \<Rightarrow> fields dm" where
  "deserialize_fields N E n = deserialize_seq E (seq_visitor (\<lambda>sa. fields_loop N E n n sa no_fields))"

definition deserialize_header :: "nom \<Rightarrow> endi \<Rightarrow> (byte \<Rightarrow> byte option) \<Rightarrow> nat \<Rightarrow> header dm" where
  "deserialize_header N E B n = deserialize_seq E (seq_visitor (\<lambda>sa.
     dbind (next_field N sa 0 (deserialize_primary N E B)) (\<lambda>(p, sa).
     dbind (next_field N sa 1 (deserialize_fields N E n)) (\<lambda>(f, sa).
     ret \<lparr>primary = p, header_fields = f\<rparr>))))"

definition data_slice_from :: "data \<Rightarrow> nat \<Rightarrow> (error, data) res" where
  "data_slice_from d start = map_err VariantError (data_slice d start (length (data_bytes d)))"

definition read_from_data ::
  "nom \<Rightarrow> endi \<Rightarrow> (byte \<Rightarrow> byte option) \<Rightarrow> data \<Rightarrow> (error, primary_header \<times> u32) res option" where
  "read_from_data N E B dat =
     obind (omap_err VariantError (deserialize_for_signature PRIMARY_SIGNATURE (deserialize_primary N E B) dat)) (\<lambda>(p, size).
     if size \<noteq> PRIMARY_HEADER_SIZE then Some Panic
     else
       obind (Some (data_slice_from dat PRIMARY_HEADER_SIZE)) (\<lambda>rest.
       obind (omap_err VariantError
         (deserialize_for_signature signature.U32 (deserialize_u32 E signature.U32) rest)) (\<lambda>(fields_len, _).
       Some (Ok (p, fields_len)))))"

definition primary_read ::
  "nom \<Rightarrow> endi \<Rightarrow> (byte \<Rightarrow> byte option) \<Rightarrow> byte list \<Rightarrow> (error, primary_header \<times> u32) res option" where
  "primary_read N E B buf =
     (case buf of
        [] \<Rightarrow> Some Panic
      | b # _ \<Rightarrow> obind (Some (endian_sig_try_from b)) (\<lambda>e.
          read_from_data N E B (new_fds buf \<lparr>c_endian = endian_of_sig e, c_position = 0\<rparr> [])))"

definition from_raw_parts ::
  "nom \<Rightarrow> endi \<Rightarrow> (byte \<Rightarrow> byte option) \<Rightarrow> nat \<Rightarrow> data \<Rightarrow> u64 \<Rightarrow> (error, message) res option" where
  "from_raw_parts N E B n dat seq =
     (case data_bytes dat of
        [] \<Rightarrow> Some Panic
      | b # _ \<Rightarrow>
          obind (Some (endian_sig_try_from b)) (\<lambda>e.
          if endian_of_sig e \<noteq> c_endian (data_context dat) then Some (Err IncorrectEndian)
          else
            obind (read_from_data N E B dat) (\<lambda>(p, fields_len).
            obind (Some (data_slice_from dat PRIMARY_HEADER_SIZE)) (\<lambda>fields_bytes.
            obind (omap_err VariantError
              (deserialize_for_signature FIELDS_SIGNATURE (deserialize_fields N E n) fields_bytes)) (\<lambda>(f, _).
            let header_len = MIN_MESSAGE_SIZE + unat fields_len in
            Some (Ok \<lparr>msg_primary = p, msg_quick_fields = Some (quick_fields_new f), msg_bytes = dat,
              msg_body_offset = header_len + padding_for_8_bytes header_len, msg_recv_seq = seq\<rparr>))))))"

text \<open>The cached fields, read from the bytes of a message that was built here at the first use.\<close>

definition msg_quick ::
  "nom \<Rightarrow> endi \<Rightarrow> (byte \<Rightarrow> byte option) \<Rightarrow> nat \<Rightarrow> message \<Rightarrow> (error, quick_fields) res option" where
  "msg_quick N E B n m =
     (case msg_quick_fields m of
        Some q \<Rightarrow> Some (Ok q)
      | None \<Rightarrow>
          (case deserialize_for_signature HEADER_SIGNATURE (deserialize_header N E B n) (msg_bytes m) of
             None \<Rightarrow> None
           | Some (Ok (h, _)) \<Rightarrow> Some (Ok (quick_fields_new (header_fields h)))
           | _ \<Rightarrow> Some Panic))"

text \<open>\<^verbatim>\<open>FieldPos::read\<close>: the string is converted again, and a failure is unexpected.\<close>

definition field_read :: "(string \<Rightarrow> ('e, 'a) res) \<Rightarrow> string option \<Rightarrow> (error, 'a option) res" where
  "field_read conv x =
     (case x of
        None \<Rightarrow> Ok None
      | Some s \<Rightarrow> if valid_utf8 s then (case conv s of Ok y \<Rightarrow> Ok (Some y) | _ \<Rightarrow> Panic) else Panic)"

definition checked :: "(string \<Rightarrow> ('e, unit) res) \<Rightarrow> string \<Rightarrow> ('e, string) res" where
  "checked valid s = bind_res (valid s) (\<lambda>_. Ok s)"

definition message_header ::
  "nom \<Rightarrow> endi \<Rightarrow> (byte \<Rightarrow> byte option) \<Rightarrow> nat \<Rightarrow> message \<Rightarrow> (error, header) res option" where
  "message_header N E B n m =
     obind (msg_quick N E B n m) (\<lambda>q. Some (
     bind_res (field_read object_path_try_from (q_path q)) (\<lambda>p.
     bind_res (field_read (checked ensure_correct_interface_name) (q_interface q)) (\<lambda>i.
     bind_res (field_read (checked ensure_correct_member_name) (q_member q)) (\<lambda>mb.
     bind_res (field_read (checked ensure_correct_error_name) (q_error_name q)) (\<lambda>e.
     bind_res (field_read bus_name_try_from (q_destination q)) (\<lambda>dst.
     bind_res (field_read (checked ensure_correct_unique_name) (q_sender q)) (\<lambda>snd.
     Ok \<lparr>primary = msg_primary m, header_fields = \<lparr>path = p, interface = i, member = mb, error_name = e,
       reply_serial = q_reply_serial q, destination = dst, sender = snd, body_signature = q_signature q,
       unix_fds = q_unix_fds q\<rparr>\<rparr>))))))))"

text \<open>\<^verbatim>\<open>Message::body\<close>, and \<^verbatim>\<open>Body::deserialize\<close> to a \<^verbatim>\<open>Structure\<close>: a body of one field has the signature
  of that field, and the seed puts the structure around it.\<close>

definition message_body ::
  "nom \<Rightarrow> endi \<Rightarrow> (byte \<Rightarrow> byte option) \<Rightarrow> nat \<Rightarrow> message \<Rightarrow> (error, data \<times> signature) res option" where
  "message_body N E B n m =
     obind (Some (data_slice_from (msg_bytes m) (msg_body_offset m))) (\<lambda>dat.
     obind (message_header N E B n m) (\<lambda>h. Some (Ok (dat, body_signature (header_fields h)))))"

definition structure_seed_signature :: "signature \<Rightarrow> signature" where
  "structure_seed_signature s = (case s of signature.Structure _ \<Rightarrow> s | _ \<Rightarrow> signature.Structure [s])"

definition deserialize_structure :: "nom \<Rightarrow> endi \<Rightarrow> nat \<Rightarrow> signature \<Rightarrow> zvalue dm" where
  "deserialize_structure N E n s = deserialize_seq E (seq_visitor (\<lambda>sa. visit_struct N (de_value N E n) s sa))"

definition body_deserialize ::
  "nom \<Rightarrow> endi \<Rightarrow> (byte \<Rightarrow> byte option) \<Rightarrow> nat \<Rightarrow> message \<Rightarrow> (error, zvalue) res option" where
  "body_deserialize N E B n m =
     obind (message_body N E B n m) (\<lambda>(dat, s).
     let s = structure_seed_signature s in
     obind (omap_err VariantError
       (deserialize_for_signature s (deserialize_structure N E n s) dat)) (\<lambda>(v, _). Some (Ok v)))"

text \<open>The error that an error reply stands for (\<^verbatim>\<open>From<Message> for Error\<close>); the message in it is left out. The first
  argument is read as a string whatever the signature says.\<close>

definition error_of_message ::
  "nom \<Rightarrow> endi \<Rightarrow> (byte \<Rightarrow> byte option) \<Rightarrow> nat \<Rightarrow> message \<Rightarrow> (error, error) res option" where
  "error_of_message N E B n m =
     obind (message_header N E B n m) (\<lambda>h.
     if msg_type (primary h) \<noteq> ErrorType then Some (Ok InvalidReply)
     else
       case error_name (header_fields h) of
         None \<Rightarrow> Some (Ok InvalidReply)
       | Some name \<Rightarrow>
           obind (message_body N E B n m) (\<lambda>(dat, _).
           case deserialize_for_signature signature.Str (deserialize_str E) dat of
             None \<Rightarrow> None
           | Some Panic \<Rightarrow> Some Panic
           | Some (Ok (detail, _)) \<Rightarrow> Some (Ok (MethodError name (Some detail)))
           | Some (Err _) \<Rightarrow> Some (Ok (MethodError name None))))"

end
