(* ===== verification/Message_Wire.thy ===== *)
theory Message_Wire
  imports Message
begin

text \<open>
  Messages on the wire: the bytes that the builder writes for the header and the body, what
  \<^verbatim>\<open>from_raw_parts\<close>, \<^verbatim>\<open>header\<close> and \<^verbatim>\<open>body\<close> make of them, and what they make of bytes that
  come from elsewhere.
\<close>

section \<open>What the header is on the wire\<close>

text \<open>An action that, at depth \<open>d\<close> and for signature \<open>t\<close>, appends the bytes that \<open>g\<close> gives for a byte
  order and a position.\<close>

definition writes ::
  "(ser \<Rightarrow> (zerror, ser) res) \<Rightarrow> signature \<Rightarrow> depths \<Rightarrow> (endian \<Rightarrow> nat \<Rightarrow> (zerror, byte list) res) \<Rightarrow> bool" where
  "writes f t d g \<longleftrightarrow> (\<forall>s. ready s \<longrightarrow> sig s = t \<longrightarrow> value_sign s = None \<longrightarrow> container_depths s = d \<longrightarrow>
     f s = map_ok (write_all s) (g (endian_of s) (abs_pos s)))"

lemma writesI:
  "(\<And>s. ready s \<Longrightarrow> sig s = t \<Longrightarrow> value_sign s = None \<Longrightarrow> container_depths s = d \<Longrightarrow>
     f s = map_ok (write_all s) (g (endian_of s) (abs_pos s))) \<Longrightarrow> writes f t d g"
  by (simp add: writes_def)

lemma writesD:
  "writes f t d g \<Longrightarrow> ready s \<Longrightarrow> sig s = t \<Longrightarrow> value_sign s = None \<Longrightarrow> container_depths s = d \<Longrightarrow>
     f s = map_ok (write_all s) (g (endian_of s) (abs_pos s))"
  by (simp add: writes_def)

fun enc_seq :: "(endian \<Rightarrow> nat \<Rightarrow> (zerror, byte list) res) list \<Rightarrow> endian \<Rightarrow> nat \<Rightarrow> (zerror, byte list) res" where
  "enc_seq [] e n = Ok []"
| "enc_seq (g # gs) e n = enc_then (g e) (enc_seq gs e) n"

definition enc_struct ::
  "(endian \<Rightarrow> nat \<Rightarrow> (zerror, byte list) res) list \<Rightarrow> endian \<Rightarrow> nat \<Rightarrow> (zerror, byte list) res" where
  "enc_struct gs e n = enc_then (\<lambda>n. enc_basic n 8 []) (enc_seq gs e) n"

text \<open>A structure: the serializations of its fields one after the other.\<close>

definition serialize_tuple :: "endi \<Rightarrow> (ser \<Rightarrow> (zerror, ser) res) list \<Rightarrow> ser \<Rightarrow> (zerror, ser) res" where
  "serialize_tuple E fs s =
     bind_res (serialize_struct E (length fs) s) (\<lambda>xs.
     bind_res (fold_res serialize_field fs xs) (\<lambda>xs. end_struct_seq E xs))"

lemma fields_writes:
  assumes "list_all2 (\<lambda>f (t, g). writes f t d g) fs tgs" "container_depths s = d" "ready s"
    "sig s = signature.Structure ss" "drop (t_field_idx t) ss = map fst tgs" "value_sign s = None"
  shows "fold_res serialize_field fs (Struct_S t, s) =
    map_ok (\<lambda>bs. (Struct_S (t\<lparr>t_field_idx := t_field_idx t + length fs\<rparr>), write_all s bs))
      (enc_seq (map snd tgs) (endian_of s) (abs_pos s))"
  using assms
proof (induction fs arbitrary: tgs s t)
  case (Cons f fs)
  obtain u g tgs' where tgs: "tgs = (u, g) # tgs'" "writes f u d g" "list_all2 (\<lambda>f (t, g). writes f t d g) fs tgs'"
    using Cons.prems(1) by (auto simp: list_all2_Cons1)
  let ?i = "t_field_idx t"
  have i: "?i < length ss" "ss ! ?i = u" "drop (Suc ?i) ss = map fst tgs'"
    using Cons.prems(5) tgs(1) by (auto simp: nth_via_drop drop_Suc simp flip: tl_drop intro: ccontr)
  have "f (s\<lparr>sig := ss ! ?i\<rparr>) = map_ok (write_all (s\<lparr>sig := ss ! ?i\<rparr>)) (g (endian_of s) (abs_pos s))"
    using Cons.prems i(2) writesD [OF tgs(2), of "s\<lparr>sig := ss ! ?i\<rparr>"] by simp
  moreover have "fold_res serialize_field fs (Struct_S (t\<lparr>t_field_idx := Suc ?i\<rparr>), write_all s bs) =
      map_ok (\<lambda>bs'. (Struct_S (t\<lparr>t_field_idx := Suc ?i + length fs\<rparr>), write_all (write_all s bs) bs'))
      (enc_seq (map snd tgs') (endian_of s) (abs_pos s + length bs))" for bs
    using Cons.IH [OF tgs(3), of "write_all s bs" "t\<lparr>t_field_idx := Suc ?i\<rparr>"] Cons.prems i(3) by simp
  ultimately show ?case
    using Cons.prems(3,4,6) i(1) tgs(1)
    by (auto simp: enc_then_def map_ok_def serialize_field_def [of f] serialize_struct_element_def
        ser_simps bind_res_assoc intro!: arg_cong [where f = "bind_res _"])
qed (simp add: fold_res_single)

lemma writes_tuple:
  assumes "inc_structure d = Ok d'" "list_all2 (\<lambda>f (t, g). writes f t d' g) fs tgs" "fs \<noteq> []"
  shows "writes (serialize_tuple E fs) (signature.Structure (map fst tgs)) d (enc_struct (map snd tgs))"
proof (rule writesI)
  fix s :: ser
  assume s: "ready s" "sig s = signature.Structure (map fst tgs)" "value_sign s = None" "container_depths s = d"
  let ?t = "\<lparr>t_container_depths = d, t_field_idx = 0\<rparr>"
  let ?s = "write_all (s\<lparr>container_depths := d'\<rparr>) (pad (abs_pos s) 8)"
  have "serialize_struct E (length fs) s = Ok (Struct_S ?t, ?s)"
    using s assms by (simp add: serialize_struct_def struct_structure_def dbus_alignment_def
        alignment_def ser_simps)
  moreover have "fold_res serialize_field fs (Struct_S ?t, ?s) =
      map_ok (\<lambda>bs. (Struct_S (?t\<lparr>t_field_idx := length fs\<rparr>), write_all ?s bs))
        (enc_seq (map snd tgs) (endian_of s) (abs_pos s + padding (abs_pos s) 8))"
    using fields_writes [OF assms(2), of ?s "map fst tgs" ?t] s by simp
  ultimately show "serialize_tuple E fs s =
      map_ok (write_all s) (enc_struct (map snd tgs) (endian_of s) (abs_pos s))"
    using s by (simp add: serialize_tuple_def enc_struct_def enc_then_def enc_basic_def map_ok_def
        bind_res_assoc end_struct_seq_def end_struct_def ser_simps)
qed

lemma elements_writes:
  assumes "\<forall>x \<in> set xs. writes (f x) c d (g x)" "ready s" "sig s = c" "value_sign s = None" "container_depths s = d"
  shows "fold_res f xs s = map_ok (write_all s) (enc_seq (map g xs) (endian_of s) (abs_pos s))"
  using assms
proof (induction xs arbitrary: s)
  case (Cons x xs)
  have "f x s = map_ok (write_all s) (g x (endian_of s) (abs_pos s))"
    using Cons.prems by (intro writesD) auto
  moreover have "fold_res f xs (write_all s bs) = map_ok (write_all (write_all s bs))
      (enc_seq (map g xs) (endian_of s) (abs_pos s + length bs))" for bs
    using Cons.IH [of "write_all s bs"] Cons.prems by simp
  ultimately show ?case
    using Cons.prems(2)
    by (auto simp: enc_then_def map_ok_def ser_simps bind_res_assoc intro!: arg_cong [where f = "bind_res _"])
qed simp

context wire_laws
begin

lemma writes_u8: "writes (serialize_u8 b) signature.U8 d (\<lambda>e n. enc_basic n 1 [b])"
  by (rule writesI) (simp add: serialize_u8_def serialize_basic_enc dbus_alignment_def alignment_def)

lemma writes_u32: "writes (serialize_u32 E w) signature.U32 d (\<lambda>e n. enc_basic n 4 (write_u32 E e w))"
  by (rule writesI) (simp add: serialize_u32_def serialize_basic_enc dbus_alignment_def alignment_def)

lemma writes_value:
  assumes "value_ok v" "plain v" "sig_wf (value_signature v)"
  shows "writes (serialize_value N E D v) signature.Variant d (\<lambda>e. enc E e d (Value v))"
  by (rule writesI) (use serialize_value_enc [OF plain_refines [OF assms(1,2)] assms(3)] in \<open>simp del: enc.simps\<close>)

lemma writes_array:
  assumes "\<forall>x \<in> set xs. writes (f x) c d' (g x)" "inc_array d = Ok d'" "dbus_alignment c = Ok a"
  shows "writes (\<lambda>s. bind_res (serialize_seq E s) (\<lambda>(q, s). bind_res (fold_res f xs s) (end_seq E q)))
    (signature.Array c) d (\<lambda>e n. enc_array E e d n a (\<lambda>_. enc_seq (map g xs) e))"
proof (rule writesI)
  fix s :: ser
  assume s: "ready s" "sig s = signature.Array c" "value_sign s = None" "container_depths s = d"
  then have el: "element_of (sig s) = Some (a, c)" using assms(3) by simp
  have "fold_res f xs (array_state E s a c d' []) = map_ok (array_state E s a c d')
      (enc_seq (map g xs) (endian_of s) (abs_pos s + length (array_head E (endian_of s) (abs_pos s) a 0)))"
    using elements_writes [OF assms(1), where s = "array_state E s a c d' []"] s
    by (simp add: array_state_def ser_simps map_ok_def)
  then show "bind_res (serialize_seq E s) (\<lambda>(q, s). bind_res (fold_res f xs s) (end_seq E q)) =
      map_ok (write_all s) (enc_array E (endian_of s) d (abs_pos s) a (\<lambda>_. enc_seq (map g xs) (endian_of s)))"
    using s assms(2)
    by (simp add: serialize_seq_eq [OF s(1) el] enc_array_def map_ok_def bind_res_assoc
        end_seq_eq [OF s(1), of d', unfolded map_ok_def] array_head_def Let_def add.assoc)
qed

lemma writes_signature:
  assumes "inc_variant d = Ok d'"
  shows "writes (signature_serializer N E sg) signature.Variant d
    (\<lambda>e. enc_then (\<lambda>_. enc_sig (to_string signature.Signature)) (\<lambda>_. enc_sig (to_string_no_parens sg)))"
proof (rule writesI)
  fix s :: ser
  assume s: "ready s" "sig s = signature.Variant" "value_sign s = None" "container_depths s = d"
  let ?s = "s\<lparr>container_depths := d'\<rparr>" and ?t = "to_string signature.Signature"
  let ?x = "Struct_S \<lparr>t_container_depths = d, t_field_idx = 0\<rparr>"
  have "from_str N ?t = Ok signature.Signature" by (simp add: from_str_to_string)
  then have "serialize_str N E ?t ?s = map_ok (write_all (?s\<lparr>value_sign := Some signature.Signature\<rparr>)) (enc_sig ?t)"
    using s by (intro serialize_variant_signature_enc) auto
  then have sgn: "serialize_field (serialize_str N E ?t) (?x, ?s) =
      map_ok (\<lambda>bs. (?x, write_all (?s\<lparr>value_sign := Some signature.Signature\<rparr>) bs)) (enc_sig ?t)"
    using s by (intro variant_field [where c = signature.Variant]) simp_all
  have "serialize_str N E (to_string_no_parens sg) (write_all (?s\<lparr>sig := signature.Signature\<rparr>) bs) =
      map_ok (write_all (write_all (?s\<lparr>sig := signature.Signature\<rparr>) bs)) (enc_sig (to_string_no_parens sg))" for bs
    using s by (intro serialize_signature_enc) auto
  then have payload: "serialize_field (serialize_str N E (to_string_no_parens sg))
      (?x, write_all (?s\<lparr>value_sign := Some signature.Signature\<rparr>) bs) =
      map_ok (\<lambda>bs'. (?x, write_all (write_all ?s bs) bs')) (enc_sig (to_string_no_parens sg))" for bs
    using s(2,3) variant_field [where s = "write_all (?s\<lparr>value_sign := Some signature.Signature\<rparr>) bs"
        and c = signature.Signature and vs = None]
    by (simp add: ser_simps)
  have "serialize_struct E 2 s = Ok (?x, ?s)"
    using s assms
    by (simp add: serialize_struct_def struct_variant_def dbus_alignment_def alignment_def pad_def ser_simps)
  moreover have "end_struct_seq E (?x, write_all ?s bs) = Ok (write_all s bs)" for bs
    using s by (simp add: end_struct_seq_def end_struct_def ser_simps)
  ultimately show "signature_serializer N E sg s = map_ok (write_all s)
      (enc_then (\<lambda>_. enc_sig ?t) (\<lambda>_. enc_sig (to_string_no_parens sg)) (abs_pos s))"
    using s(1) by (simp add: signature_serializer_def sgn payload enc_then_def map_ok_def bind_res_assoc ser_simps)
qed

end


text \<open>The entries of the header: a code, the signature of a variant and a basic value.\<close>

fun basic_value :: "zvalue \<Rightarrow> bool" where
  "basic_value (U32 w) = True"
| "basic_value (Str s) = True"
| "basic_value (ObjectPath s) = True"
| "basic_value _ = False"

fun entry_code :: "entry \<Rightarrow> field_code" where
  "entry_code (Entry c v) = c"
| "entry_code (Signature_Entry s) = Signature_F"

fun entry_signature :: "entry \<Rightarrow> signature" where
  "entry_signature (Entry c v) = value_signature v"
| "entry_signature (Signature_Entry s) = signature.Signature"

fun entry_payload :: "endi \<Rightarrow> entry \<Rightarrow> endian \<Rightarrow> nat \<Rightarrow> (zerror, byte list) res" where
  "entry_payload E (Entry c v) e n = enc E e no_depths v n"
| "entry_payload E (Signature_Entry s) e n = enc_sig (to_string_no_parens s)"

definition entry_variant :: "endi \<Rightarrow> entry \<Rightarrow> endian \<Rightarrow> nat \<Rightarrow> (zerror, byte list) res" where
  "entry_variant E x e = enc_then (\<lambda>_. enc_sig (to_string (entry_signature x))) (entry_payload E x e)"

definition enc_entry :: "endi \<Rightarrow> entry \<Rightarrow> endian \<Rightarrow> nat \<Rightarrow> (zerror, byte list) res" where
  "enc_entry E x = enc_struct [\<lambda>e n. enc_basic n 1 [field_code_repr (entry_code x)], entry_variant E x]"

definition enc_primary :: "endi \<Rightarrow> primary_header \<Rightarrow> endian \<Rightarrow> nat \<Rightarrow> (zerror, byte list) res" where
  "enc_primary E p = enc_struct
     [\<lambda>e n. enc_basic n 1 [endian_sig_repr (endian_sig p)], \<lambda>e n. enc_basic n 1 [msg_type_repr (msg_type p)],
      \<lambda>e n. enc_basic n 1 [flags p], \<lambda>e n. enc_basic n 1 [protocol_version p],
      \<lambda>e n. enc_basic n 4 (write_u32 E e (body_len p)), \<lambda>e n. enc_basic n 4 (write_u32 E e (serial_num p))]"

definition enc_fields :: "endi \<Rightarrow> fields \<Rightarrow> endian \<Rightarrow> nat \<Rightarrow> (zerror, byte list) res" where
  "enc_fields E f e n = enc_array E e no_depths n 8 (\<lambda>_. enc_seq (map (enc_entry E) (field_entries f)) e)"

definition enc_header :: "endi \<Rightarrow> header \<Rightarrow> endian \<Rightarrow> nat \<Rightarrow> (zerror, byte list) res" where
  "enc_header E h = enc_struct [enc_primary E (primary h), enc_fields E (header_fields h)]"

lemma serialize_tuples:
  "serialize_pair E c f = serialize_tuple E [serialize_u8 (field_code_repr c), f]"
  "serialize_header N E D h =
     serialize_tuple E [serialize_primary E (primary h), serialize_header_fields N E D (header_fields h)]"
  "serialize_primary E p = serialize_tuple E
     [serialize_u8 (endian_sig_repr (endian_sig p)), serialize_u8 (msg_type_repr (msg_type p)),
      serialize_u8 (flags p), serialize_u8 (protocol_version p),
      serialize_u32 E (body_len p), serialize_u32 E (serial_num p)]"
  by (simp_all add: fun_eq_iff serialize_pair_def serialize_header_def serialize_primary_def serialize_tuple_def
      bind_res_assoc numeral_eq_Suc)

lemma header_depths:
  obtains d1 d2 d3 d4 d5 where "inc_structure no_depths = Ok d1" "inc_structure d1 = Ok d2"
    "inc_array d1 = Ok d3" "inc_structure d3 = Ok d4" "inc_variant d4 = Ok d5"
  by (simp add: inc_structure_def inc_array_def inc_variant_def depth_defs no_depths_def)

lemma fields_depths:
  obtains d1 d2 d3 where "inc_array no_depths = Ok d1" "inc_structure d1 = Ok d2" "inc_variant d2 = Ok d3"
  by (simp add: inc_structure_def inc_array_def inc_variant_def depth_defs no_depths_def)

lemma field_entries_basic: "x \<in> set (field_entries f) \<Longrightarrow> (\<exists>c v. x = Entry c v \<and> basic_value v) \<or> (\<exists>s. x = Signature_Entry s)"
  by (auto simp: field_entries_def opt_entry_def split: option.splits if_splits)

lemma basic_value_facts:
  assumes "basic_value v"
  shows "value_ok v" "plain v" "sig_wf (value_signature v)" "enc E e d v n = enc E e no_depths v n"
  using assms by (cases v; simp)+

context wire_laws
begin

lemma writes_entry:
  assumes "inc_structure d = Ok d'" "inc_variant d' = Ok d''"
    "(\<exists>c v. x = Entry c v \<and> basic_value v) \<or> (\<exists>s. x = Signature_Entry s)"
  shows "writes (serialize_entry N E D x) (signature.Structure [signature.U8, signature.Variant]) d (enc_entry E x)"
proof -
  have "writes (case x of Entry c v \<Rightarrow> serialize_value N E D v | Signature_Entry sg \<Rightarrow> signature_serializer N E sg)
      signature.Variant d' (entry_variant E x)"
  proof (cases x)
    case (Entry c v)
    with assms(3) have v: "basic_value v" by simp
    have "(\<lambda>e. enc E e d' (Value v)) = entry_variant E x"
      using Entry assms(2) basic_value_facts(4) [OF v, where d = d'']
      by (auto simp: entry_variant_def fun_eq_iff enc_then_def)
    then show ?thesis using writes_value [OF basic_value_facts(1-3) [OF v], of D d'] Entry by simp
  next
    case (Signature_Entry s)
    then have "entry_variant E x = (\<lambda>e. enc_then (\<lambda>_. enc_sig (to_string signature.Signature))
        (\<lambda>_. enc_sig (to_string_no_parens s)))"
      by (simp add: entry_variant_def enc_then_def fun_eq_iff)
    then show ?thesis using writes_signature [OF assms(2), of s] Signature_Entry by simp
  qed
  then have "writes (serialize_tuple E [serialize_u8 (field_code_repr (entry_code x)),
      case x of Entry c v \<Rightarrow> serialize_value N E D v | Signature_Entry sg \<Rightarrow> signature_serializer N E sg])
      (signature.Structure [signature.U8, signature.Variant]) d (enc_entry E x)"
    using writes_tuple [OF assms(1), of "[_, _]" "[(signature.U8, _), (signature.Variant, _)]"] writes_u8
    by (simp add: enc_entry_def)
  then show ?thesis
    by (cases x) (simp_all add: serialize_entry_def serialize_tuples)
qed

lemma writes_header: "writes (serialize_header N E D h) HEADER_SIGNATURE no_depths (enc_header E h)"
proof -
  obtain d1 d2 d3 d4 d5 where d: "inc_structure no_depths = Ok d1" "inc_structure d1 = Ok d2"
    "inc_array d1 = Ok d3" "inc_structure d3 = Ok d4" "inc_variant d4 = Ok d5" by (rule header_depths)
  obtain d6 where d6: "inc_array no_depths = Ok d6" by (rule fields_depths)
  let ?c = "signature.Structure [signature.U8, signature.Variant]"
  have "writes (serialize_primary E (primary h)) PRIMARY_SIGNATURE d1 (enc_primary E (primary h))"
    using writes_tuple [OF d(2), of "[_, _, _, _, _, _]" "[(signature.U8, _), (signature.U8, _), (signature.U8, _),
        (signature.U8, _), (signature.U32, _), (signature.U32, _)]"] writes_u8 writes_u32
    by (simp add: serialize_tuples PRIMARY_SIGNATURE_def enc_primary_def)
  moreover have "writes (serialize_header_fields N E D f) FIELDS_SIGNATURE d1 (enc_fields E f)" for f
    using writes_array [of "field_entries f" "serialize_entry N E D" ?c d3 "enc_entry E" d1 8]
      writes_entry [OF d(4,5)] field_entries_basic d(3) d6
    by (simp add: serialize_header_fields_def [abs_def] FIELDS_SIGNATURE_def enc_fields_def [abs_def] enc_array_def
        dbus_alignment_def alignment_def)
  ultimately show ?thesis
    using writes_tuple [OF d(1), of "[_, _]" "[(PRIMARY_SIGNATURE, _), (FIELDS_SIGNATURE, _)]"]
    by (simp add: serialize_tuples(2) HEADER_SIGNATURE_def enc_header_def)
qed

end


section \<open>Reading the header\<close>

text \<open>An action that, for signature \<open>t\<close> and at depth \<open>d\<close>, reads \<open>x\<close> from the bytes of \<open>g\<close>.\<close>

definition reads_as :: "'a dm \<Rightarrow> signature \<Rightarrow> depths \<Rightarrow> (endian \<Rightarrow> nat \<Rightarrow> (zerror, byte list) res) \<Rightarrow> 'a \<Rightarrow> bool" where
  "reads_as m t dep g x \<longleftrightarrow> (\<forall>d bs. de_sig d = t \<longrightarrow> de_depths d = dep \<longrightarrow> g (de_endian d) (de_abs_pos d) = Ok bs \<longrightarrow>
     upcoming d bs \<longrightarrow> m d = Some (Ok x, adv d (length bs)))"

lemma reads_asI:
  "(\<And>d bs. de_sig d = t \<Longrightarrow> de_depths d = dep \<Longrightarrow> g (de_endian d) (de_abs_pos d) = Ok bs \<Longrightarrow> upcoming d bs \<Longrightarrow>
     m d = Some (Ok x, adv d (length bs))) \<Longrightarrow> reads_as m t dep g x"
  by (simp add: reads_as_def)

lemma reads_asD:
  "reads_as m t dep g x \<Longrightarrow> de_sig d = t \<Longrightarrow> de_depths d = dep \<Longrightarrow> g (de_endian d) (de_abs_pos d) = Ok bs \<Longrightarrow>
     upcoming d bs \<Longrightarrow> m d = Some (Ok x, adv d (length bs))"
  by (simp add: reads_as_def)

lemma reads_as_convert:
  "reads_as m t dep g x \<Longrightarrow> conv x = Ok y \<Longrightarrow> reads_as (dbind m (\<lambda>x. lift (conv x))) t dep g y"
  by (simp add: reads_as_def dbind_Some lift_def)

lemma next_field_read:
  assumes "reads_as m (ss ! i) (de_depths d) g x" "de_sig d = signature.Structure ss" "i < length ss"
    "g (de_endian d) (de_abs_pos d) = Ok b" "upcoming d b" "dec_structure (de_depths d) = Ok d0"
  shows "next_field N (Struct_Access i (length ss)) j m d =
    Some (Ok (x, Struct_Access (Suc i) (length ss)),
      (adv d (length b))\<lparr>de_depths := if Suc i = length ss then d0 else de_depths d\<rparr>)"
  using reads_asD [OF assms(1), of "d\<lparr>de_sig := ss ! i\<rparr>" b] assms(2-6)
  by (auto simp: next_field_def next_element_seed_def struct_next_element_def set_depths_def lift_def dbind_def adv_def)

lemma deserialize_seq_struct:
  assumes "de_sig d = signature.Structure ss" "upcoming d (pad (de_abs_pos d) 8)" "inc_structure (de_depths d) = Ok d'"
  shows "deserialize_seq E V d =
    visit_seq V (Struct_Access 0 (length ss)) ((adv d (padding (de_abs_pos d) 8))\<lparr>de_depths := d'\<rparr>)"
  using assms parse_padding_pad [OF assms(2)]
    parse_padding_aligned [of "adv d (padding (de_abs_pos d) 8)" 8]
  by (simp add: deserialize_seq_def struct_de_new_def STRUCT_ALIGNMENT_DBUS_def set_depths_def
      dbus_alignment_def alignment_def dbind_Some lift_def)

lemma enc_struct_Ok:
  "enc_struct gs e n = Ok bs \<longleftrightarrow> (\<exists>b. enc_seq gs e (n + padding n 8) = Ok b \<and> bs = pad n 8 @ b)"
  by (auto simp: enc_struct_def enc_then_def enc_basic_def map_ok_eq_Ok)

text \<open>A visitor \<open>F\<close> that reads the fields of a structure from the \<open>i\<close>-th on and makes \<open>v\<close> of them.\<close>

definition visits ::
  "(seq_access \<Rightarrow> 'v dm) \<Rightarrow> nat \<Rightarrow> signature list \<Rightarrow> depths \<Rightarrow>
     (endian \<Rightarrow> nat \<Rightarrow> (zerror, byte list) res) list \<Rightarrow> 'v \<Rightarrow> bool" where
  "visits F i ss dep gs v \<longleftrightarrow> (\<forall>d bs d0. de_sig d = signature.Structure ss \<longrightarrow> de_depths d = dep \<longrightarrow>
     dec_structure dep = Ok d0 \<longrightarrow> enc_seq gs (de_endian d) (de_abs_pos d) = Ok bs \<longrightarrow> upcoming d bs \<longrightarrow>
     F (Struct_Access i (length ss)) d = Some (Ok v, (adv d (length bs))\<lparr>de_depths := d0\<rparr>))"

lemma visits_step:
  assumes "reads_as m (ss ! i) dep g x" "Suc i < length ss" "visits (\<lambda>sa. G (x, sa)) (Suc i) ss dep gs v"
  shows "visits (\<lambda>sa. dbind (next_field N sa j m) G) i ss dep (g # gs) v"
  unfolding visits_def
proof (intro allI impI)
  fix d bs d0
  assume d: "de_sig d = signature.Structure ss" "de_depths d = dep" "dec_structure dep = Ok d0"
    "enc_seq (g # gs) (de_endian d) (de_abs_pos d) = Ok bs" "upcoming d bs"
  then obtain a b where b: "g (de_endian d) (de_abs_pos d) = Ok a"
      "enc_seq gs (de_endian d) (de_abs_pos d + length a) = Ok b" "bs = a @ b"
    by (auto simp: enc_then_def map_ok_eq_Ok)
  then have "next_field N (Struct_Access i (length ss)) j m d =
      Some (Ok (x, Struct_Access (Suc i) (length ss)), adv d (length a))"
    using next_field_read [of m ss i d g x a d0 N j] assms(1,2) d by simp
  moreover have "G (x, Struct_Access (Suc i) (length ss)) (adv d (length a)) =
      Some (Ok v, (adv d (length bs))\<lparr>de_depths := d0\<rparr>)"
    using assms(3) [unfolded visits_def, rule_format, of "adv d (length a)" d0 b] d b by simp
  ultimately show "dbind (next_field N (Struct_Access i (length ss)) j m) G d =
      Some (Ok v, (adv d (length bs))\<lparr>de_depths := d0\<rparr>)"
    by (simp add: dbind_Some)
qed

lemma visits_last:
  assumes "reads_as m (ss ! i) dep g x" "length ss = Suc i" "\<And>sa. G (x, sa) = ret v"
  shows "visits (\<lambda>sa. dbind (next_field N sa j m) G) i ss dep [g] v"
  unfolding visits_def
  using next_field_read [of m ss i _ g x] assms
  by (auto simp: enc_then_def map_ok_eq_Ok dbind_Some lift_def)

lemma reads_as_struct:
  assumes "visits F 0 ss d' gs v" "inc_structure dep = Ok d'"
  shows "reads_as (deserialize_seq E (seq_visitor F)) (signature.Structure ss) dep (enc_struct gs) v"
proof (rule reads_asI)
  fix d bs
  assume d: "de_sig d = signature.Structure ss" "de_depths d = dep"
    "enc_struct gs (de_endian d) (de_abs_pos d) = Ok bs" "upcoming d bs"
  let ?p = "padding (de_abs_pos d) 8"
  obtain b where b: "enc_seq gs (de_endian d) (de_abs_pos d + ?p) = Ok b" "bs = pad (de_abs_pos d) 8 @ b"
    using d(3) by (auto simp: enc_struct_Ok)
  then have "F (Struct_Access 0 (length ss)) ((adv d ?p)\<lparr>de_depths := d'\<rparr>) = Some (Ok v, adv d (length bs))"
    using assms(1) [unfolded visits_def, rule_format, of "(adv d ?p)\<lparr>de_depths := d'\<rparr>" dep b] d
      dec_inc_depths(1) [OF assms(2)] by (simp add: adv_update)
  then show "deserialize_seq E (seq_visitor F) d = Some (Ok v, adv d (length bs))"
    using deserialize_seq_struct [OF d(1), of d' E "seq_visitor F"] d b(2) assms(2) by (simp add: seq_visitor_def)
qed

lemma repr_inverse [simp]:
  "endian_sig_of_repr (endian_sig_repr s) = Ok s" "msg_type_of_repr (msg_type_repr t) = Ok t"
  "field_code_of_repr (field_code_repr c) = Ok c"
proof -
  show "endian_sig_of_repr (endian_sig_repr s) = Ok s"
    by (cases s) (simp_all add: endian_sig_of_repr_def endian_sig_repr_def)
  show "msg_type_of_repr (msg_type_repr t) = Ok t"
    by (cases t) (simp_all add: msg_type_of_repr_def msg_type_repr_def)
  show "field_code_of_repr (field_code_repr c) = Ok c"
    by (cases c) (simp_all add: field_code_of_repr_def field_code_repr_def)
qed

context wire_laws
begin

lemma reads_as_u8: "reads_as deserialize_u8 signature.U8 dep (\<lambda>e n. enc_basic n 1 [b]) b"
  by (rule reads_asI) (auto simp: enc_basic_def pad_def read_u8)

lemma reads_as_u32:
  "reads_as (deserialize_u32 E signature.U32) signature.U32 dep (\<lambda>e n. enc_basic n 4 (write_u32 E e w)) w"
  by (rule reads_asI) (auto simp: enc_basic_def read_words dbus_alignment_def alignment_def)

lemma reads_as_primary:
  assumes "inc_structure dep = Ok d'" "B (flags p) = Some (flags p)" "serial_num p \<noteq> 0"
  shows "reads_as (deserialize_primary N E B) PRIMARY_SIGNATURE dep (enc_primary E p) p"
proof -
  have basic: "reads_as (dbind deserialize_u8 (\<lambda>b. lift (endian_sig_of_repr b))) signature.U8 d'
      (\<lambda>e n. enc_basic n 1 [endian_sig_repr (endian_sig p)]) (endian_sig p)"
    "reads_as (dbind deserialize_u8 (\<lambda>b. lift (msg_type_of_repr b))) signature.U8 d'
      (\<lambda>e n. enc_basic n 1 [msg_type_repr (msg_type p)]) (msg_type p)"
    "reads_as (dbind deserialize_u8 (\<lambda>b. lift (ok_or (B b) (zerror.Message Custom)))) signature.U8 d'
      (\<lambda>e n. enc_basic n 1 [flags p]) (flags p)"
    "reads_as (dbind (deserialize_u32 E signature.U32) (\<lambda>w. lift (nonzero w))) signature.U32 d'
      (\<lambda>e n. enc_basic n 4 (write_u32 E e (serial_num p))) (serial_num p)"
    by (rule reads_as_convert [OF reads_as_u8] reads_as_convert [OF reads_as_u32],
        simp add: ok_or_def nonzero_def assms(2,3))+
  show ?thesis
    unfolding deserialize_primary_def PRIMARY_SIGNATURE_def enc_primary_def
    apply (rule reads_as_struct [OF _ assms(1)])
    apply (rule visits_step [where x = "endian_sig p"], use basic in simp, simp, simp only: prod.case)
    apply (rule visits_step [where x = "msg_type p"], use basic in simp, simp, simp only: prod.case)
    apply (rule visits_step [where x = "flags p"], use basic in simp, simp, simp only: prod.case)
    apply (rule visits_step [where x = "protocol_version p"], use reads_as_u8 in simp, simp, simp only: prod.case)
    apply (rule visits_step [where x = "body_len p"], use reads_as_u32 in simp, simp, simp only: prod.case)
    apply (rule visits_last [where x = "serial_num p"], use basic in simp, simp, cases p, simp)
    done
qed

end


text \<open>What comes back of an entry: a body signature of one field is that of the field.\<close>

definition wire_signature :: "signature \<Rightarrow> signature" where
  "wire_signature s = (case s of signature.Structure [a] \<Rightarrow> a | _ \<Rightarrow> s)"

fun entry_value :: "entry \<Rightarrow> zvalue" where
  "entry_value (Entry c v) = v"
| "entry_value (Signature_Entry s) = zvalue.Signature (wire_signature s)"

fun entry_ok :: "entry \<Rightarrow> bool" where
  "entry_ok (Entry c v) = (basic_value v \<and> readable v)"
| "entry_ok (Signature_Entry s) = sig_wf s"

lemma nul_no_parens: "byte_of 0 \<notin> set (to_string_no_parens s)"
  by (simp add: to_string_no_parens_def nul_to_string)

context wire_laws
begin

lemma from_str_no_parens:
  assumes "sig_wf s"
  shows "from_str N (to_string_no_parens s) = Ok (wire_signature s)"
proof (cases "\<exists>fs. s = signature.Structure fs \<and> 2 \<le> length fs")
  case True
  then show ?thesis
    using assms parse_Ok_iff [of "to_string_no_parens s" s]
    by (auto simp: from_str_def wire_signature_def split: list.splits)
next
  case False
  have "to_string_no_parens s = to_string (wire_signature s)" "sig_wf (wire_signature s)"
    using False assms by (cases s; auto simp: to_string_no_parens_def to_string_def wire_signature_def
        neq_Nil_conv Suc_le_eq split: list.splits)+
  then show ?thesis by (simp add: from_str_to_string)
qed

lemma read_entry_payload:
  assumes "entry_ok x" "0 < n" "de_sig d = entry_signature x"
    "entry_payload E x (de_endian d) (de_abs_pos d) = Ok bs" "upcoming d bs"
  shows "de_value N E n (entry_signature x) d = Some (Ok (entry_value x), adv d (length bs))"
proof (cases x)
  case (Entry c v)
  then have v: "basic_value v" "readable v" using assms(1) by simp_all
  then have "reads N E v" by (intro readable_reads) (simp_all add: basic_value_facts)
  moreover have "fuel v \<le> n" using v(1) assms(2) by (cases v) simp_all
  ultimately show ?thesis
    using readsD [of N E v n d bs] assms Entry basic_value_facts(4) [OF v(1), of E "de_endian d" "de_depths d"] by simp
next
  case (Signature_Entry s)
  obtain m where "n = Suc m" using assms(2) by (cases n) auto
  moreover have "deserialize_str E d = Some (Ok (to_string_no_parens s), adv d (length bs))"
    using assms Signature_Entry nul_no_parens
    by (intro read_sig_str) (simp_all add: valid_utf8_ascii to_string_no_parens_def)
  ultimately show ?thesis
    using assms(1,3) Signature_Entry from_str_no_parens
    by (simp add: deserialize_any_def value_seed_def value_seed_str_def dbind_Some lift_def)
qed

lemma reads_as_entry:
  assumes "inc_structure dep = Ok d'" "inc_variant d' = Ok d''" "entry_ok x" "0 < n"
  shows "reads_as (deserialize_pair N E n) (signature.Structure [signature.U8, signature.Variant]) dep
    (enc_entry E x) (entry_code x, entry_value x)"
proof -
  have code: "reads_as (dbind deserialize_u8 (\<lambda>b. lift (field_code_of_repr b))) signature.U8 d'
      (\<lambda>e n. enc_basic n 1 [field_code_repr (entry_code x)]) (entry_code x)"
    by (rule reads_as_convert [OF reads_as_u8]) simp
  have wf: "sig_wf (entry_signature x)"
    using assms(3) by (cases x) (auto simp: basic_value_facts)
  have "value_visitor_seq N E (de_value N E n) (Value_Access Signature_Stage (de_pos d)) d =
      Some (Ok (entry_value x), adv d (length bs))"
    if d: "de_sig d = signature.Variant" "de_depths d = d'" "upcoming d bs"
      and enc: "entry_variant E x (de_endian d) (de_abs_pos d) = Ok bs" for d bs
  proof -
    obtain hb pb where b: "enc_sig (to_string (entry_signature x)) = Ok hb" "bs = hb @ pb"
        "entry_payload E x (de_endian d) (de_abs_pos d + length hb) = Ok pb"
      using enc by (auto simp: entry_variant_def enc_then_def map_ok_eq_Ok)
    show ?thesis
      using read_variant_of [OF wf d(1) _ b(1), of d'' pb n "entry_value x"] d(2,3) b assms(2)
        read_entry_payload [OF assms(3,4)] by simp
  qed
  then have val: "reads_as (deserialize_value N E n) signature.Variant d' (entry_variant E x) (entry_value x)"
    by (intro reads_asI) (simp add: deserialize_value_def deserialize_any_def deserialize_seq_def value_visitor_def
        dbus_alignment_def alignment_def dbind_Some parse_padding_aligned)
  show ?thesis
    unfolding deserialize_pair_def enc_entry_def
    apply (rule reads_as_struct [OF _ assms(1)])
    apply (rule visits_step [where x = "entry_code x"], use code in simp, simp, simp only: prod.case)
    apply (rule visits_last [where x = "entry_value x"], use val in simp, simp, simp)
    done
qed

end


lemma printable_readable:
  assumes "printable s"
  shows "valid_utf8 s" "byte_of 0 \<notin> set s"
proof -
  show "valid_utf8 s" by (rule valid_utf8_ascii) (use assms in \<open>auto simp: printable_def printable_char_def is_ascii_def\<close>)
  have "code (byte_of 0) = 0" by simp
  then show "byte_of 0 \<notin> set s" using assms by (force simp: printable_def printable_char_def)
qed

context wire_laws
begin

lemma enc_entry_aligned:
  assumes "enc_entry E x e n = Ok b"
  obtains b' where "b = pad n 8 @ b'" "enc_entry E x e (n + padding n 8) = Ok b'" "0 < length b'"
proof -
  obtain c where c: "b = pad n 8 @ c" "enc_seq [\<lambda>e n. enc_basic n 1 [field_code_repr (entry_code x)], entry_variant E x]
      e (n + padding n 8) = Ok c"
    using assms by (auto simp: enc_entry_def enc_struct_Ok simp del: enc_seq.simps)
  then have "c \<noteq> []" by (auto simp: enc_then_def enc_basic_def map_ok_eq_Ok)
  with c that show thesis by (auto simp: enc_entry_def enc_struct_Ok simp del: enc_seq.simps)
qed

lemma read_fields_loop:
  assumes "\<forall>x \<in> set es. entry_ok x" "0 < n" "length es < k"
    "de_sig d = signature.Structure [signature.U8, signature.Variant]"
    "inc_structure (de_depths d) = Ok d1" "inc_variant d1 = Ok d2"
    "enc_seq (map (enc_entry E) es) (de_endian d) (de_abs_pos d) = Ok bs" "upcoming d bs"
    "ad_start ad + ad_len ad = de_pos d + length bs" "ad_element_alignment ad = 8"
    "dec_array (de_depths d) = Ok d0"
    "fold_res (\<lambda>x. set_field (entry_code x) (entry_value x)) es f = Ok f'"
  shows "fields_loop N E n k (Array_Access ad) f d =
    Some (Ok f', (adv d (length bs))\<lparr>de_depths := d0, de_sig := ad_array_signature ad\<rparr>)"
  using assms
proof (induction es arbitrary: d k f bs)
  case Nil
  then obtain k' where "k = Suc k'" by (cases k) auto
  with Nil show ?case
    using array_next_element_done [of d ad d0 "deserialize_pair N E n"]
    by (simp add: next_element_seed_def dbind_assoc dbind_Some lift_def)
next
  case (Cons x es)
  obtain k' where k: "k = Suc k'" using Cons.prems(3) by (cases k) auto
  obtain b bs' where b: "enc_entry E x (de_endian d) (de_abs_pos d) = Ok b"
      "enc_seq (map (enc_entry E) es) (de_endian d) (de_abs_pos d + length b) = Ok bs'" "bs = b @ bs'"
    using Cons.prems(7) by (auto simp: enc_then_def map_ok_eq_Ok)
  obtain b' where b': "b = pad (de_abs_pos d) 8 @ b'" "0 < length b'"
      "enc_entry E x (de_endian d) (de_abs_pos d + padding (de_abs_pos d) 8) = Ok b'"
    using b(1) by (rule enc_entry_aligned)
  obtain f1 where f1: "set_field (entry_code x) (entry_value x) f = Ok f1"
      "fold_res (\<lambda>x. set_field (entry_code x) (entry_value x)) es f1 = Ok f'"
    using Cons.prems(12) by auto
  have up: "upcoming d b" "upcoming (adv d (length b)) bs'" using Cons.prems(8) b(3) by simp_all
  have "deserialize_pair N E n (adv d (padding (de_abs_pos d) 8)) =
      Some (Ok (entry_code x, entry_value x), adv d (length b))"
    using reads_asD [OF reads_as_entry [OF Cons.prems(5,6) _ Cons.prems(2), of x],
        of "adv d (padding (de_abs_pos d) 8)" b'] Cons.prems(1,4) b' up(1) by simp
  then have "array_next_element ad (deserialize_pair N E n) d =
      Some (Ok (Some (entry_code x, entry_value x)), adv d (length b))"
    using up(1) b' Cons.prems(9,10) b(3) by (intro array_next_element_read) auto
  moreover have "fields_loop N E n k' (Array_Access ad) f1 (adv d (length b)) = Some (Ok f',
      (adv (adv d (length b)) (length bs'))\<lparr>de_depths := d0, de_sig := ad_array_signature ad\<rparr>)"
    using Cons.prems b k up(2) f1(2) by (intro Cons.IH) auto
  ultimately show ?case
    using k b(3) f1(1) by (simp add: next_element_seed_def dbind_assoc dbind_Some)
qed

lemma reads_as_fields:
  assumes "\<forall>x \<in> set (field_entries f). entry_ok x" "length (field_entries f) < n"
    "inc_array dep = Ok d1" "inc_structure d1 = Ok d2" "inc_variant d2 = Ok d3"
    "fold_res (\<lambda>x. set_field (entry_code x) (entry_value x)) (field_entries f) no_fields = Ok f'"
  shows "reads_as (deserialize_fields N E n) FIELDS_SIGNATURE dep (enc_fields E f) f'"
proof (rule reads_asI)
  fix d bs
  let ?c = "signature.Structure [signature.U8, signature.Variant]"
  assume d: "de_sig d = FIELDS_SIGNATURE" "de_depths d = dep" "enc_fields E f (de_endian d) (de_abs_pos d) = Ok bs"
    "upcoming d bs"
  obtain d6 where d6: "inc_array no_depths = Ok d6" by (rule fields_depths)
  have arr: "enc_array E (de_endian d) (de_depths d) (de_abs_pos d) 8
      (\<lambda>_. enc_seq (map (enc_entry E) (field_entries f)) (de_endian d)) = Ok bs"
    using d(2,3) assms(3) d6 by (simp add: enc_fields_def enc_array_def)
  obtain dd body where r: "inc_array (de_depths d) = Ok dd"
      "parse_padding 4 d = Some (Ok (padding (de_abs_pos d) 4), adv d (padding (de_abs_pos d) 4))"
      "array_de_new E (adv d (padding (de_abs_pos d) 4)) =
        Some (Ok \<lparr>ad_len = length body, ad_start = de_pos d + (length bs - length body),
            ad_element_alignment = 8, ad_array_signature = de_sig d\<rparr>,
          (adv d (length bs - length body))\<lparr>de_depths := dd, de_sig := ?c\<rparr>)"
      "enc_seq (map (enc_entry E) (field_entries f)) (de_endian d) (de_abs_pos d + (length bs - length body)) = Ok body"
      "upcoming (adv d (length bs - length body)) body" "length body \<le> length bs"
    by (rule read_array_start [OF arr d(4), of ?c])
      (use d(1) in \<open>simp_all add: FIELDS_SIGNATURE_def dbus_alignment_def alignment_def\<close>)
  have "fields_loop N E n n (Array_Access \<lparr>ad_len = length body, ad_start = de_pos d + (length bs - length body),
      ad_element_alignment = 8, ad_array_signature = de_sig d\<rparr>) no_fields
      ((adv d (length bs - length body))\<lparr>de_depths := dd, de_sig := ?c\<rparr>) = Some (Ok f', adv d (length bs))"
    using read_fields_loop [OF assms(1), where d = "(adv d (length bs - length body))\<lparr>de_depths := dd, de_sig := ?c\<rparr>"
        and k = n and n = n and bs = body and ?d0.0 = dep and f = no_fields and f' = f' and ?d1.0 = d2 and ?d2.0 = d3]
      assms(2-6) d r dec_inc_depths(2) [OF r(1)] by (simp add: adv_update)
  then show "deserialize_fields N E n d = Some (Ok f', adv d (length bs))"
    using d(1) r(2,3) by (simp add: deserialize_fields_def deserialize_seq_def FIELDS_SIGNATURE_def seq_visitor_def
        dbus_alignment_def alignment_def dbind_Some)
qed

end


section \<open>Well-formed headers\<close>

definition fields_ok :: "fields \<Rightarrow> bool" where
  "fields_ok f \<longleftrightarrow>
     pred_option (\<lambda>x. object_path_try_from x = Ok x) (path f) \<and>
     pred_option (\<lambda>x. ensure_correct_interface_name x = Ok ()) (interface f) \<and>
     pred_option (\<lambda>x. ensure_correct_member_name x = Ok ()) (member f) \<and>
     pred_option (\<lambda>x. ensure_correct_error_name x = Ok ()) (error_name f) \<and>
     pred_option (\<lambda>w. w \<noteq> 0) (reply_serial f) \<and>
     pred_option (\<lambda>b. bus_name_try_from (bus_name_as_str b) = Ok b) (destination f) \<and>
     pred_option (\<lambda>x. ensure_correct_unique_name x = Ok ()) (sender f) \<and>
     (body_signature f = signature.Unit \<or> sig_wf (body_signature f))"

definition header_ok :: "header \<Rightarrow> bool" where
  "header_ok h \<longleftrightarrow> fields_ok (header_fields h) \<and> serial_num (primary h) \<noteq> 0 \<and> code (flags (primary h)) < 8"

text \<open>What a peer can send in a header and the parser takes: names that are strings of any kind,
  except for the destination.\<close>

definition readable_str :: "string \<Rightarrow> bool" where
  "readable_str s \<longleftrightarrow> valid_utf8 s \<and> byte_of 0 \<notin> set s"

definition fields_sent :: "fields \<Rightarrow> bool" where
  "fields_sent f \<longleftrightarrow>
     pred_option readable_str (path f) \<and> pred_option readable_str (interface f) \<and>
     pred_option readable_str (member f) \<and> pred_option readable_str (error_name f) \<and>
     pred_option (\<lambda>w. w \<noteq> 0) (reply_serial f) \<and>
     pred_option (\<lambda>b. bus_name_try_from (bus_name_as_str b) = Ok b) (destination f) \<and>
     pred_option readable_str (sender f) \<and>
     (body_signature f = signature.Unit \<or> sig_wf (body_signature f))"

definition header_sent :: "header \<Rightarrow> bool" where
  "header_sent h \<longleftrightarrow> fields_sent (header_fields h) \<and> serial_num (primary h) \<noteq> 0"

lemma set_opt_entry: "x \<in> set (opt_entry c g y) \<longleftrightarrow> (\<exists>z. y = Some z \<and> x = Entry c (g z))"
  by (auto simp: opt_entry_def split: option.splits)

lemmas valid_printable = names_printable unique_name_printable object_path_printable bus_name_printable

lemma pred_option_mono: "pred_option P x \<Longrightarrow> (\<And>y. P y \<Longrightarrow> Q y) \<Longrightarrow> pred_option Q x"
  by (cases x) auto

lemma fields_ok_sent: "fields_ok f \<Longrightarrow> fields_sent f"
  unfolding fields_ok_def fields_sent_def
  by (elim conjE, intro conjI)
    (auto elim!: pred_option_mono simp: readable_str_def printable_readable valid_printable)

lemma header_ok_sent: "header_ok h \<Longrightarrow> header_sent h"
  by (simp add: header_ok_def header_sent_def fields_ok_sent)

lemma entries_ok: "fields_sent f \<Longrightarrow> x \<in> set (field_entries f) \<Longrightarrow> entry_ok x"
  by (auto simp: fields_sent_def readable_str_def field_entries_def set_opt_entry split: if_splits
      dest!: valid_printable dest: printable_readable)

lemma length_entries: "length (field_entries f) \<le> 9"
  by (simp add: field_entries_def opt_entry_def split: option.splits)

lemma opt_entry_fold:
  assumes "\<And>y. x = Some y \<Longrightarrow> set_field c (g y) f = Ok (upd f)" "x = None \<Longrightarrow> upd f = f"
  shows "fold_res (\<lambda>x. set_field (entry_code x) (entry_value x)) (opt_entry c g x) f = Ok (upd f)"
  using assms by (cases x) (auto simp: opt_entry_def fold_res_single)

lemma set_fields_entries:
  assumes "fields_sent f"
  shows "fold_res (\<lambda>x. set_field (entry_code x) (entry_value x)) (field_entries f) no_fields =
    Ok (f\<lparr>body_signature := wire_signature (body_signature f)\<rparr>)"
proof -
  let ?F = "\<lambda>x. set_field (entry_code x) (entry_value x)"
  note ok = assms [unfolded fields_sent_def]
  have "fold_res ?F (opt_entry Path_F ObjectPath (path f)) g = Ok (g\<lparr>path := path f\<rparr>)" if "path g = None" for g
    by (rule opt_entry_fold) (use that in \<open>auto simp: set_field_def\<close>)
  moreover have "fold_res ?F (opt_entry Interface_F Str (interface f)) g = Ok (g\<lparr>interface := interface f\<rparr>)"
    if "interface g = None" for g
    by (rule opt_entry_fold) (use that in \<open>auto simp: set_field_def\<close>)
  moreover have "fold_res ?F (opt_entry Member_F Str (member f)) g = Ok (g\<lparr>member := member f\<rparr>)"
    if "member g = None" for g
    by (rule opt_entry_fold) (use that in \<open>auto simp: set_field_def\<close>)
  moreover have "fold_res ?F (opt_entry ErrorName_F Str (error_name f)) g = Ok (g\<lparr>error_name := error_name f\<rparr>)"
    if "error_name g = None" for g
    by (rule opt_entry_fold) (use that in \<open>auto simp: set_field_def\<close>)
  moreover have "fold_res ?F (opt_entry ReplySerial_F U32 (reply_serial f)) g = Ok (g\<lparr>reply_serial := reply_serial f\<rparr>)"
    if "reply_serial g = None" for g
    by (rule opt_entry_fold) (use that ok in \<open>auto simp: set_field_def nonzero_def\<close>)
  moreover have "fold_res ?F (opt_entry Destination_F (\<lambda>b. Str (bus_name_as_str b)) (destination f)) g =
      Ok (g\<lparr>destination := destination f\<rparr>)" if "destination g = None" for g
    by (rule opt_entry_fold) (use that ok in \<open>auto simp: set_field_def\<close>)
  moreover have "fold_res ?F (opt_entry Sender_F Str (sender f)) g = Ok (g\<lparr>sender := sender f\<rparr>)"
    if "sender g = None" for g
    by (rule opt_entry_fold) (use that in \<open>auto simp: set_field_def\<close>)
  moreover have "fold_res ?F (opt_entry UnixFDs_F U32 (unix_fds f)) g = Ok (g\<lparr>unix_fds := unix_fds f\<rparr>)"
    if "unix_fds g = None" for g
    by (rule opt_entry_fold) (use that in \<open>auto simp: set_field_def\<close>)
  moreover have "fold_res ?F (if body_signature f = signature.Unit then [] else [Signature_Entry (body_signature f)]) g =
      Ok (g\<lparr>body_signature := wire_signature (body_signature f)\<rparr>)" if "body_signature g = signature.Unit" for g
    using that by (simp add: set_field_def wire_signature_def fold_res_single)
  ultimately show ?thesis
    by (simp add: field_entries_def fold_res_append no_fields_def)
qed

end
