(* ===== verification/DBus_Depth.thy ===== *)
theory DBus_Depth
  imports DBus_Enc
begin

text \<open>
  What can be encoded at some depth of nesting is encoded the same at any lesser depth. Readers that count fewer containers than
  the writer did, of the variants of enums and of bodies of messages, find what was written.
\<close>

section \<open>Less nesting\<close>

definition depths_le :: "depths \<Rightarrow> depths \<Rightarrow> bool" where
  "depths_le d d' \<longleftrightarrow> d_structure d \<le> d_structure d' \<and> d_array d \<le> d_array d' \<and> d_variant d \<le> d_variant d' \<and>
     d_maybe d \<le> d_maybe d'"

lemma inc_mono:
  assumes "depths_le d d'"
  shows "inc_structure d' = Ok x' \<Longrightarrow> \<exists>x. inc_structure d = Ok x \<and> depths_le x x'"
    "inc_array d' = Ok x' \<Longrightarrow> \<exists>x. inc_array d = Ok x \<and> depths_le x x'"
    "inc_variant d' = Ok x' \<Longrightarrow> \<exists>x. inc_variant d = Ok x \<and> depths_le x x'"
  using assms
  by (auto simp: inc_structure_def inc_array_def inc_variant_def depths_le_def depth_defs split: if_splits)

lemma inc_structure_le: "inc_structure d = Ok d' \<Longrightarrow> depths_le d d'"
  by (auto simp: depths_le_def dest!: inc_depths_Ok)

definition shrinks :: "endi \<Rightarrow> zvalue \<Rightarrow> bool" where
  "shrinks E v \<longleftrightarrow> (\<forall>e d d' n bs. depths_le d d' \<longrightarrow> enc E e d' v n = Ok bs \<longrightarrow> enc E e d v n = Ok bs)"

lemma enc_all_shrinks:
  assumes "\<forall>v \<in> set vs. shrinks E v" "depths_le d d'" "enc_all E e d' vs n = Ok bs"
  shows "enc_all E e d vs n = Ok bs"
  using assms
proof (induction vs arbitrary: n bs)
  case (Cons v vs)
  then obtain a b where "enc E e d' v n = Ok a" "enc_all E e d' vs (n + length a) = Ok b" "bs = a @ b"
    by (auto simp: enc_then_def map_ok_eq_Ok bind_res_eq_Ok)
  moreover from this have "enc E e d v n = Ok a" using Cons.prems(1,2) by (auto simp: shrinks_def)
  ultimately show ?case using Cons by (simp add: enc_then_def)
qed simp

lemma enc_entries_shrinks:
  assumes "\<forall>(a, b) \<in> set m. shrinks E a \<and> shrinks E b" "depths_le d d'" "enc_entries E e d' m n = Ok bs"
  shows "enc_entries E e d m n = Ok bs"
  using assms
proof (induction m arbitrary: n bs)
  case (Cons kv m)
  obtain k v where kv: "kv = (k, v)" by force
  then obtain a b c where abc: "enc E e d' k (n + padding n 8) = Ok a" "enc E e d' v (n + padding n 8 + length a) = Ok b"
      "enc_entries E e d' m (n + padding n 8 + length a + length b) = Ok c" "bs = pad n 8 @ a @ b @ c"
    using Cons.prems(3) by (auto simp: enc_then_def enc_basic_def map_ok_eq_Ok bind_res_eq_Ok)
  moreover have "enc E e d k (n + padding n 8) = Ok a" "enc E e d v (n + padding n 8 + length a) = Ok b"
    using Cons.prems(1,2) abc(1,2) kv by (auto simp: shrinks_def)
  ultimately show ?case using Cons kv by (simp add: enc_then_def enc_basic_def)
qed simp

lemma enc_array_shrinks:
  assumes "enc_array E e d' n a f = Ok bs" "depths_le d d'"
    "\<And>x x' n bs. depths_le x x' \<Longrightarrow> f x' n = Ok bs \<Longrightarrow> f x n = Ok bs"
  shows "enc_array E e d n a f = Ok bs"
  using assms(1) inc_mono(2) [OF assms(2)] assms(3)
  by (fastforce simp: enc_array_def Let_def bind_res_eq_Ok map_ok_eq_Ok)

lemma enc_shrinks: "shrinks E v"
proof (induction v)
  case (Value v)
  then show ?case
    by (fastforce simp: shrinks_def enc_then_def bind_res_eq_Ok map_ok_eq_Ok dest: inc_mono(3))
next
  case (Array es s)
  then have "enc_all E e d es n = Ok bs" if "depths_le d d'" "enc_all E e d' es n = Ok bs" for e d d' n bs
    using enc_all_shrinks that by blast
  then show ?case
    unfolding shrinks_def [of E "Array es s"]
    by (auto simp: bind_res_eq_Ok elim!: enc_array_shrinks split: signature.splits)
next
  case (Dict m s)
  have "shrinks E k \<and> shrinks E v" if "(k, v) \<in> set m" for k v
    using Dict.IH(1) [OF that] Dict.IH(2) [OF that] by simp
  then have "\<forall>(a, b) \<in> set m. shrinks E a \<and> shrinks E b" by blast
  then have "enc_entries E e d m n = Ok bs" if "depths_le d d'" "enc_entries E e d' m n = Ok bs" for e d d' n bs
    using enc_entries_shrinks that by blast
  then show ?case
    unfolding shrinks_def [of E "Dict m s"] by (auto elim!: enc_array_shrinks)
next
  case (Structure fs s)
  have "enc E e d (Structure fs s) n = Ok bs" if le: "depths_le d d'" and b: "enc E e d' (Structure fs s) n = Ok bs" for e d d' n bs
  proof -
    from b obtain x' c where c: "inc_structure d' = Ok x'" "enc_all E e x' fs (n + padding n 8) = Ok c" "bs = pad n 8 @ c"
      by (auto simp: enc_then_def enc_basic_def map_ok_eq_Ok)
    from inc_mono(1) [OF le c(1)] obtain x where x: "inc_structure d = Ok x" "depths_le x x'" by blast
    show ?thesis
      using enc_all_shrinks [OF _ x(2) c(2)] Structure x(1) c(3) by (simp add: enc_then_def enc_basic_def)
  qed
  then show ?case unfolding shrinks_def by blast
qed (simp_all add: shrinks_def)

text \<open>A structure of one structure is encoded as the inner one.\<close>

lemma enc_nested_single:
  assumes "enc E e d (Structure [Structure gs g] s) n = Ok bs"
  shows "enc E e d (Structure gs g) n = Ok bs"
proof -
  obtain d1 d2 b where b: "inc_structure d = Ok d1" "inc_structure d1 = Ok d2" "enc_all E e d2 gs (n + padding n 8) = Ok b"
      "bs = pad n 8 @ b"
    using assms by (auto simp: enc_then_def enc_basic_def map_ok_eq_Ok pad_def padding_idem)
  have "enc_all E e d1 gs (n + padding n 8) = Ok b"
    using enc_all_shrinks [OF _ inc_structure_le [OF b(2)] b(3)] enc_shrinks by blast
  then show ?thesis
    using b(1,4) by (simp add: enc_then_def enc_basic_def)
qed

end
