(* ===== verification/Message_Roundtrip.thy ===== *)
theory Message_Roundtrip
  imports Message_Wire DBus_Depth
begin

text \<open>
  A message that the builder made, sent as bytes and parsed again, is the same message: its
  primary header, its fields and its body.
\<close>

section \<open>Moving an encoding by a multiple of 8\<close>

lemma padding_shift:
  assumes "m mod 8 = 0" "a \<in> {1, 2, 4, 8}"
  shows "padding (m + n) a = padding n a"
proof -
  have "m mod a = 0" using assms by auto
  then have "(m + n) mod a = n mod a" by (metis add.left_neutral mod_add_left_eq)
  then show ?thesis using assms(2) by (simp add: padding_eq_mod)
qed

lemma pad_shift: "m mod 8 = 0 \<Longrightarrow> a \<in> {1, 2, 4, 8} \<Longrightarrow> pad (m + n) a = pad n a"
  by (simp add: pad_def padding_shift)

lemma enc_array_shift:
  assumes "m mod 8 = 0" "a \<in> {1, 2, 4, 8}" "\<And>d n. f d (m + n) = f d n"
  shows "enc_array E e d (m + n) a f = enc_array E e d n a f"
  using assms(1,2) padding_shift [of m 4 n] pad_shift [of m 4 n]
    padding_shift [of m a "n + padding n 4 + 4"] pad_shift [of m a "n + padding n 4 + 4"]
    assms(3) [of _ "n + padding n 4 + 4 + padding (n + padding n 4 + 4) a"]
  by (simp add: enc_array_def Let_def add.assoc)

lemma enc_then_shift:
  assumes "f (m + n) = f n" "\<And>n. g (m + n) = g n"
  shows "enc_then f g (m + n) = enc_then f g n"
  using assms by (simp add: enc_then_def add.assoc)

lemma enc_shift:
  assumes "m mod 8 = 0"
  shows "enc E e d v (m + n) = enc E e d v n"
    and "enc_all E e d vs (m + n) = enc_all E e d vs n"
    and "enc_entries E e d kvs (m + n) = enc_entries E e d kvs n"
proof (induction E e d v n and E e d vs n and E e d kvs n rule: enc_enc_all_enc_entries.induct)
  case (14 E e d es s n)
  show ?case
  proof (cases s)
    case (Array c)
    have "bind_res (dbus_alignment c) (\<lambda>a. enc_array E e d (m + n) a (\<lambda>d'. enc_all E e d' es)) =
        bind_res (dbus_alignment c) (\<lambda>a. enc_array E e d n a (\<lambda>d'. enc_all E e d' es))"
      using 14 Array dbus_alignment_Ok [of c] assms by (cases "dbus_alignment c") (simp_all add: enc_array_shift)
    with Array show ?thesis by simp
  qed simp_all
qed (use assms in \<open>auto simp: enc_basic_def enc_str_def pad_shift intro!: enc_then_shift enc_array_shift
    arg_cong [where f = "bind_res _"]\<close>)


section \<open>The bytes of a message\<close>

text \<open>The header that \<^verbatim>\<open>build\<close> writes for a body of the given signature and length.\<close>

definition built_header :: "signature \<Rightarrow> nat \<Rightarrow> header \<Rightarrow> header" where
  "built_header sg len h =
     set_fields (\<lambda>f. f\<lparr>body_signature := sg\<rparr>) (h\<lparr>primary := (primary h)\<lparr>body_len := word_of_nat len\<rparr>\<rparr>)"

abbreviation header_endian :: "header \<Rightarrow> endian" where
  "header_endian h \<equiv> endian_of_sig (endian_sig (primary h))"

lemma built_header_sel [simp]:
  "primary (built_header sg len h) = (primary h)\<lparr>body_len := word_of_nat len\<rparr>"
  "header_fields (built_header sg len h) = (header_fields h)\<lparr>body_signature := sg\<rparr>"
  by (simp_all add: built_header_def set_fields_def)

lemma writes_new:
  assumes "writes f t no_depths g" "at_end w"
  shows "f (new_serializer t w fs c) = map_ok (write_all (new_serializer t w fs c)) (g (c_endian c) (c_position c))"
  using writesD [OF assms(1), of "new_serializer t w fs c"] assms(2)
  by (simp add: new_serializer_def endian_of_def abs_pos_def)

lemma writes_size:
  assumes "writes f t no_depths g"
  shows "serialized_size c t f =
    map_ok (\<lambda>bs. \<lparr>z_size = length bs, z_context = c, z_num_fds = 0\<rparr>) (g (c_endian c) (c_position c))"
  using writes_new [OF assms, of NullWriteSeek "Number 0" c]
  by (cases "g (c_endian c) (c_position c)") (simp_all add: serialized_size_def new_serializer_def write_all_def)

lemma writes_to_writer:
  assumes "writes f t no_depths g" "at_end w"
  shows "to_writer_for_signature w c t f =
    map_ok (\<lambda>bs. (\<lparr>w_size = length bs, w_context = c, w_fds = []\<rparr>, writer_write w bs)) (g (c_endian c) (c_position c))"
  using writes_new [OF assms, of "Fds []" c]
  by (cases "g (c_endian c) (c_position c)") (simp_all add: to_writer_for_signature_def new_serializer_def write_all_def)

lemma refines_writes:
  "refines N E D v \<Longrightarrow> writes (serialize_inner N E D v) (value_signature v) d (\<lambda>e. enc E e d v)"
  by (rule writesI) (simp add: refinesD)

context wire_laws
begin

lemma build_Ok:
  assumes "writes f sg no_depths g" "unix_fds (header_fields h) = None"
    and b: "build N E D sg f h = Ok m"
  obtains body hb where "g (header_endian h) 0 = Ok body"
    "enc_header E (built_header sg (length body) h) (header_endian h) 0 = Ok hb"
    "length body < 2 ^ 32" "length hb + padding (length hb) 8 + length body \<le> MAX_MESSAGE_SIZE"
    "m = \<lparr>msg_primary = primary (built_header sg (length body) h), msg_quick_fields = None,
      msg_bytes = new_fds (hb @ pad (length hb) 8 @ body) (header_ctxt h) [],
      msg_body_offset = length hb + padding (length hb) 8, msg_recv_seq = 0\<rparr>"
proof -
  let ?c = "header_ctxt h" and ?e = "header_endian h"
  have c: "c_endian ?c = ?e" "c_position ?c = 0" by (simp_all add: header_ctxt_def)
  obtain body where body: "g ?e 0 = Ok body"
    using b writes_size [OF assms(1), of ?c] c by (cases "g ?e 0") (auto simp: build_def)
  let ?h = "built_header sg (length body) h"
  have size: "serialized_size ?c sg f = Ok \<lparr>z_size = length body, z_context = ?c, z_num_fds = 0\<rparr>"
    using writes_size [OF assms(1), of ?c] body c by simp
  have wr: "to_writer_for_signature w ?c sg f = Ok (\<lparr>w_size = length body, w_context = ?c, w_fds = []\<rparr>, writer_write w body)"
    if "at_end w" for w
    using writes_to_writer [OF assms(1) that, of ?c] body c by simp
  have h: "set_fields (\<lambda>f. f\<lparr>body_signature := sg\<rparr>) h\<lparr>primary :=
      (primary (set_fields (\<lambda>f. f\<lparr>body_signature := sg\<rparr>) h))\<lparr>body_len := word_of_nat (length body)\<rparr>\<rparr> = ?h"
    by (simp add: built_header_def set_fields_def)
  note hs = writes_size [OF writes_header [of D ?h], of ?c] writes_to_writer [OF writes_header [of D ?h], of _ ?c]
  obtain hb where hb: "enc_header E ?h ?e 0 = Ok hb"
    using b size h hs(1) c by (cases "enc_header E ?h ?e 0") (auto simp: build_def build_generic_def Let_def split: if_splits)
  have fin: "at_end (Cursor bs (length bs))" for bs by simp
  have cur: "writer_write (Cursor [] 0) bs = Cursor bs (length bs)" for bs by auto
  have app: "writer_write (Cursor bs (length bs)) x = Cursor (bs @ x) (length bs + length x)" for bs x by auto
  show thesis
    using that [OF body hb] b size h hs c hb
    by (auto simp: build_def build_generic_def Let_def pad_def cur app wr padding_for_8_bytes_def split: if_splits)
qed

lemma build_intro:
  assumes "writes f sg no_depths g" "g (header_endian h) 0 = Ok body"
    "enc_header E (built_header sg (length body) h) (header_endian h) 0 = Ok hb"
    "length body < 2 ^ 32" "length hb + padding (length hb) 8 + length body \<le> MAX_MESSAGE_SIZE"
  shows "\<exists>m. build N E D sg f h = Ok m"
proof -
  let ?c = "header_ctxt h" and ?h = "built_header sg (length body) h"
  have c: "c_endian ?c = header_endian h" "c_position ?c = 0" by (simp_all add: header_ctxt_def)
  have size: "serialized_size ?c sg f = Ok \<lparr>z_size = length body, z_context = ?c, z_num_fds = 0\<rparr>"
    using writes_size [OF assms(1), of ?c] assms(2) c by simp
  have wr: "to_writer_for_signature w ?c sg f = Ok (\<lparr>w_size = length body, w_context = ?c, w_fds = []\<rparr>, writer_write w body)"
    if "at_end w" for w
    using writes_to_writer [OF assms(1) that, of ?c] assms(2) c by simp
  have h: "set_fields (\<lambda>f. f\<lparr>body_signature := sg\<rparr>) h\<lparr>primary :=
      (primary (set_fields (\<lambda>f. f\<lparr>body_signature := sg\<rparr>) h))\<lparr>body_len := word_of_nat (length body)\<rparr>\<rparr> = ?h"
    by (simp add: built_header_def set_fields_def)
  have app: "writer_write (Cursor bs (length bs)) x = Cursor (bs @ x) (length bs + length x)" for bs x by auto
  show ?thesis
    using size h c assms(3-5) app [of "[]"] app app [of "_ @ _", simplified]
      writes_size [OF writes_header [of D ?h], of ?c] writes_to_writer [OF writes_header [of D ?h], of _ ?c]
    by (simp add: build_def build_generic_def Let_def wr padding_for_8_bytes_def)
qed

end

section \<open>The header can be written\<close>

fun entry_length :: "entry \<Rightarrow> nat" where
  "entry_length (Entry c (Str s)) = length s"
| "entry_length (Entry c (ObjectPath s)) = length s"
| "entry_length (Entry c _) = 0"
| "entry_length (Signature_Entry s) = length (to_string_no_parens s)"

lemma enc_sig_total: "length t < 256 \<Longrightarrow> \<exists>b. enc_sig t = Ok b \<and> length b = length t + 2"
  by (auto simp: enc_sig_def usize_to_u8_def)

lemma enc_then_total:
  assumes "\<exists>a. f n = Ok a \<and> length a \<le> j" "\<And>n. \<exists>b. g n = Ok b \<and> length b \<le> k"
  shows "\<exists>c. enc_then f g n = Ok c \<and> length c \<le> j + k"
proof -
  obtain a where a: "f n = Ok a" "length a \<le> j" using assms(1) by blast
  obtain b where "g (n + length a) = Ok b" "length b \<le> k" using assms(2) by blast
  with a show ?thesis by (auto simp: enc_then_def)
qed

lemma enc_seq_total:
  assumes "\<forall>g \<in> set gs. \<forall>n. \<exists>b. g e n = Ok b \<and> length b \<le> k"
  shows "\<exists>b. enc_seq gs e n = Ok b \<and> length b \<le> length gs * k"
  using assms
proof (induction gs arbitrary: n)
  case (Cons g gs)
  then have "\<exists>c. enc_then (g e) (enc_seq gs e) n = Ok c \<and> length c \<le> k + length gs * k"
    by (intro enc_then_total) auto
  then show ?case by simp
qed simp

context endi_laws
begin

lemma enc_basic_total: "a \<in> {1, 4, 8} \<Longrightarrow> \<exists>b. enc_basic n a bs = Ok b \<and> length b \<le> 7 + length bs"
  using padding_bounds(1) [of a n] by (auto simp: enc_basic_def)

lemma payload_total:
  assumes "(\<exists>c v. x = Entry c v \<and> basic_value v) \<or> (\<exists>s. x = Signature_Entry s \<and> length (to_string_no_parens s) < 256)"
    "entry_length x < 2 ^ 32"
  shows "\<exists>b. entry_payload E x e n = Ok b \<and> length b \<le> 12 + entry_length x"
proof (cases x)
  case (Entry c v)
  have "\<exists>b. enc_str E e n t = Ok b \<and> length b \<le> 12 + length t" if "length t < 2 ^ 32" for t
    using that padding_bounds(1) [of 4 n] by (auto simp: enc_str_def usize_to_u32_def)
  then show ?thesis
    using Entry assms enc_basic_total [of 4 n "write_u32 E e _"]
    by (cases v) (fastforce intro: le_trans)+
next
  case (Signature_Entry s)
  then show ?thesis using assms(1) enc_sig_total [of "to_string_no_parens s"] by auto
qed

lemma entry_total:
  assumes "(\<exists>c v. x = Entry c v \<and> basic_value v) \<or> (\<exists>s. x = Signature_Entry s \<and> length (to_string_no_parens s) < 256)"
    "entry_length x < 2 ^ 32"
  shows "\<exists>b. enc_entry E x e n = Ok b \<and> length b \<le> 30 + entry_length x"
proof -
  have "length (to_string (entry_signature x)) = 1"
    using assms(1) by (auto elim: basic_value.elims(2) simp: to_string_def)
  then have sig: "\<exists>b. enc_sig (to_string (entry_signature x)) = Ok b \<and> length b \<le> 3"
    using enc_sig_total [of "to_string (entry_signature x)"] by auto
  have var: "\<exists>b. entry_variant E x e n = Ok b \<and> length b \<le> 3 + (12 + entry_length x)" for n
    unfolding entry_variant_def by (intro enc_then_total payload_total assms sig)
  have one: "\<exists>b. enc_basic n 1 [y] = Ok b \<and> length b \<le> 1" for n y by (simp add: enc_basic_def pad_def)
  have pair: "\<exists>b. enc_seq [\<lambda>e n. enc_basic n 1 [y], entry_variant E x] e n = Ok b \<and>
      length b \<le> 1 + (3 + (12 + entry_length x) + 0)" for n y
    unfolding enc_seq.simps by (intro enc_then_total var one) simp
  have "\<exists>b. enc_entry E x e n = Ok b \<and> length b \<le> 7 + (1 + (3 + (12 + entry_length x) + 0))"
    unfolding enc_entry_def enc_struct_def using enc_basic_total [of 8 n "[]"] by (intro enc_then_total pair) simp
  then show ?thesis by auto
qed

lemma header_total:
  assumes "\<forall>x \<in> set (field_entries (header_fields h)).
      (\<forall>s. x = Signature_Entry s \<longrightarrow> length (to_string_no_parens s) < 256) \<and> entry_length x \<le> k" "k < 2 ^ 27"
  shows "\<exists>b. enc_header E h e 0 = Ok b \<and> length b \<le> 310 + 9 * k"
proof -
  let ?es = "field_entries (header_fields h)"
  have "\<exists>b. enc_entry E x e n = Ok b \<and> length b \<le> 30 + k" if "x \<in> set ?es" for x n
    using entry_total [of x e n] field_entries_basic [OF that] assms that by fastforce
  then have "\<exists>b. enc_seq (map (enc_entry E) ?es) e n = Ok b \<and> length b \<le> length ?es * (30 + k)" for n
    using enc_seq_total [of "map (enc_entry E) ?es" e "30 + k" n] by auto
  moreover have "length ?es * (30 + k) \<le> 270 + 9 * k"
    using mult_le_mono1 [OF length_entries [of "header_fields h"], of "30 + k"] by simp
  ultimately have arr: "\<exists>b. enc_seq (map (enc_entry E) ?es) e n = Ok b \<and> length b \<le> 270 + 9 * k" for n
    by (meson le_trans)
  obtain d where d: "inc_array no_depths = Ok d" by (rule fields_depths)
  have fld: "\<exists>b. enc_fields E (header_fields h) e n = Ok b \<and> length b \<le> 290 + 9 * k" for n
  proof -
    let ?n = "n + padding n 4 + 4"
    obtain b where "enc_seq (map (enc_entry E) ?es) e (?n + padding ?n 8) = Ok b" "length b \<le> 270 + 9 * k"
      using arr by blast
    moreover have "length b < 2 ^ 32" using calculation(2) assms(2) by simp
    ultimately show ?thesis
      using d padding_bounds(1) [of 4 n] padding_bounds(1) [of 8 ?n]
      by (simp add: enc_fields_def enc_array_def Let_def usize_to_u32_def)
  qed
  have "enc_primary E (primary h) e 0 = Ok ([endian_sig_repr (endian_sig (primary h)), msg_type_repr (msg_type (primary h)),
      flags (primary h), protocol_version (primary h)] @ write_u32 E e (body_len (primary h)) @
      write_u32 E e (serial_num (primary h)))" (is "_ = Ok ?p")
    by (simp add: enc_primary_def enc_struct_def enc_then_def enc_basic_def pad_def padding_numeral)
  moreover obtain b where "enc_fields E (header_fields h) e 12 = Ok b" "length b \<le> 290 + 9 * k" using fld by blast
  ultimately show ?thesis
    by (simp add: enc_header_def enc_struct_def enc_then_def enc_basic_def pad_def padding_numeral)
qed

end

section \<open>Parsing the header\<close>

lemma data_new_fds [simp]:
  "data_bytes (new_fds bs c fs) = bs" "data_context (new_fds bs c fs) = c" "data_fds (new_fds bs c fs) = fs"
  by (simp_all add: new_fds_def data_bytes_def)

lemma slice_new_fds:
  assumes "length a = k"
  obtains dat where "data_slice_from (new_fds (a @ b) c fs) k = Ok dat" "data_bytes dat = b"
    "data_context dat = c\<lparr>c_position := c_position c + k\<rparr>" "data_fds dat = fs"
  using assms by (simp add: data_slice_from_def data_slice_def data_bytes_def new_fds_def)

lemma deserialize_reads_as:
  assumes "reads_as m t no_depths g x" "g (c_endian (data_context dat)) (c_position (data_context dat)) = Ok bs"
    "data_bytes dat = bs @ r"
  shows "deserialize_for_signature t m dat = Some (Ok (x, length bs))"
  using reads_asD [OF assms(1), of "new_deserializer (data_bytes dat) (Some (data_fds dat)) t (data_context dat)" bs] assms(2,3)
  by (simp add: deserialize_for_signature_def new_deserializer_def de_endian_def de_abs_pos_def upcoming_def)

lemma obind_simps [simp]:
  "obind (Some (Ok x)) f = f x" "obind (Some (Err e)) f = Some (Err e)" "obind (Some Panic) f = Some Panic"
  "obind None f = None"
  by (simp_all add: obind_def)

context wire_laws
begin

lemma primary_bytes:
  assumes "enc_primary E p e 0 = Ok pb"
  shows "length pb = 12" "pb \<noteq> []" "hd pb = endian_sig_repr (endian_sig p)"
  using assms by (auto simp: enc_primary_def enc_struct_Ok enc_then_def map_ok_eq_Ok enc_basic_def padding_numeral pad_def)

lemma header_bytes:
  assumes "enc_header E h e 0 = Ok hb"
  obtains pb l arr where "enc_primary E (primary h) e 0 = Ok pb"
    "enc_fields E (header_fields h) e 12 = Ok (write_u32 E e l @ arr)" "hb = pb @ write_u32 E e l @ arr"
    "length hb = 16 + unat l"
proof -
  obtain pb fb where pb: "enc_primary E (primary h) e 0 = Ok pb" "enc_fields E (header_fields h) e (length pb) = Ok fb"
      "hb = pb @ fb"
    using assms by (auto simp: enc_header_def enc_struct_Ok enc_then_def map_ok_eq_Ok padding_numeral pad_def)
  note len = primary_bytes(1) [OF pb(1)]
  obtain l arr where "fb = write_u32 E e l @ arr" "usize_to_u32 (length arr) = (Ok l :: (zerror, u32) res)"
    using pb(2) len by (auto simp: enc_fields_def enc_array_def map_ok_eq_Ok Let_def padding_numeral pad_def)
  with that pb len show thesis by (simp add: usize_Ok(1) [symmetric])
qed

lemma endian_sig_repr_inverse: "endian_sig_try_from (endian_sig_repr s) = Ok s"
  by (cases s) (simp_all add: endian_sig_try_from_def endian_sig_repr_def)

text \<open>The primary header and the length of the fields, whatever follows.\<close>

lemma read_from_data_header:
  assumes "serial_num p \<noteq> 0" "B (flags p) = Some (flags p)"
    "enc_primary E p (endian_of_sig (endian_sig p)) 0 = Ok pb"
  shows "read_from_data N E B (new_fds (pb @ write_u32 E (endian_of_sig (endian_sig p)) l @ r)
      \<lparr>c_endian = endian_of_sig (endian_sig p), c_position = 0\<rparr> fs) = Some (Ok (p, l))"
proof -
  let ?e = "endian_of_sig (endian_sig p)"
  let ?dat = "new_fds (pb @ write_u32 E ?e l @ r) \<lparr>c_endian = ?e, c_position = 0\<rparr> fs"
  note pb = primary_bytes [OF assms(3)]
  obtain dat where dat: "data_slice_from ?dat 12 = Ok dat" "data_bytes dat = write_u32 E ?e l @ r"
      "data_context dat = \<lparr>c_endian = ?e, c_position = 12\<rparr>"
    using slice_new_fds [OF pb(1), of "write_u32 E ?e l @ r" "\<lparr>c_endian = ?e, c_position = 0\<rparr>" fs] by auto
  obtain d where dep: "inc_structure no_depths = Ok d" using header_depths by metis
  have "deserialize_for_signature PRIMARY_SIGNATURE (deserialize_primary N E B) ?dat = Some (Ok (p, 12))"
    using deserialize_reads_as [OF reads_as_primary [where p = p and B = B, OF dep assms(2,1)], of ?dat pb] pb(1) assms(3)
    by simp
  moreover have "deserialize_for_signature signature.U32 (deserialize_u32 E signature.U32) dat = Some (Ok (l, 4))"
    using deserialize_reads_as [OF reads_as_u32, of dat l "write_u32 E ?e l" r] dat
    by (simp add: enc_basic_def padding_numeral)
  ultimately show ?thesis using dat(1) by (simp add: read_from_data_def PRIMARY_HEADER_SIZE_def)
qed

lemma from_raw_parts_header:
  assumes "header_sent h" "B (flags (primary h)) = Some (flags (primary h))" "10 \<le> n"
    "enc_header E h (header_endian h) 0 = Ok hb"
  shows "from_raw_parts N E B n (new_fds (hb @ r) \<lparr>c_endian = header_endian h, c_position = 0\<rparr> fs) seq =
    Some (Ok \<lparr>msg_primary = primary h, msg_quick_fields = Some (quick_fields_new ((header_fields h)\<lparr>body_signature :=
        wire_signature (body_signature (header_fields h))\<rparr>)),
      msg_bytes = new_fds (hb @ r) \<lparr>c_endian = header_endian h, c_position = 0\<rparr> fs,
      msg_body_offset = length hb + padding (length hb) 8, msg_recv_seq = seq\<rparr>)"
proof -
  let ?e = "header_endian h" and ?dat = "new_fds (hb @ r) \<lparr>c_endian = header_endian h, c_position = 0\<rparr> fs"
  obtain pb l arr where hb: "enc_primary E (primary h) ?e 0 = Ok pb"
      "enc_fields E (header_fields h) ?e 12 = Ok (write_u32 E ?e l @ arr)" "hb = pb @ write_u32 E ?e l @ arr"
      "length hb = 16 + unat l"
    using header_bytes [OF assms(4)] by blast
  note pb = primary_bytes [OF hb(1)]
  obtain dat where dat: "data_slice_from ?dat 12 = Ok dat" "data_bytes dat = write_u32 E ?e l @ arr @ r"
      "data_context dat = \<lparr>c_endian = ?e, c_position = 12\<rparr>"
    using slice_new_fds [OF pb(1), of "write_u32 E ?e l @ arr @ r" "\<lparr>c_endian = ?e, c_position = 0\<rparr>" fs] hb(3) by auto
  obtain d1 d2 d3 where dep: "inc_array no_depths = Ok d1" "inc_structure d1 = Ok d2" "inc_variant d2 = Ok d3"
    using fields_depths by metis
  have prim: "read_from_data N E B ?dat = Some (Ok (primary h, l))"
    using read_from_data_header [where B = B, OF _ assms(2) hb(1), of l "arr @ r" fs] assms(1) hb(3) by (simp add: header_sent_def)
  have flds: "deserialize_for_signature FIELDS_SIGNATURE (deserialize_fields N E n) dat =
      Some (Ok ((header_fields h)\<lparr>body_signature := wire_signature (body_signature (header_fields h))\<rparr>, 4 + length arr))"
    using deserialize_reads_as [OF reads_as_fields [OF _ _ dep set_fields_entries], of "header_fields h" n dat
        "write_u32 E ?e l @ arr" r] entries_ok length_entries [of "header_fields h"] assms(1,3) dat hb(2)
    by (simp add: header_sent_def)
  obtain rest where rest: "hb @ r = endian_sig_repr (endian_sig (primary h)) # rest"
    using pb hb(3) by (cases pb) auto
  show ?thesis
    using prim flds dat(1) hb(4)
    by (simp add: from_raw_parts_def PRIMARY_HEADER_SIZE_def MIN_MESSAGE_SIZE_def Let_def rest endian_sig_repr_inverse
        padding_for_8_bytes_def)
qed

end

text \<open>Reading back the cached fields checks every name again.\<close>

lemma header_of_quick:
  assumes "fields_ok f" "msg_quick_fields m = Some (quick_fields_new f)"
  shows "message_header N E B n m = Some (Ok \<lparr>primary = msg_primary m, header_fields = f\<rparr>)"
proof -
  have str: "valid_utf8 x" if "printable x" for x using that by (rule printable_readable)
  note ok = assms(1) [unfolded fields_ok_def]
  have "field_read object_path_try_from (path f) = Ok (path f)"
    using ok str valid_printable by (cases "path f") (auto simp: field_read_def)
  moreover have "field_read (checked ensure_correct_interface_name) (interface f) = Ok (interface f)"
    using ok str valid_printable by (cases "interface f") (auto simp: field_read_def checked_def)
  moreover have "field_read (checked ensure_correct_member_name) (member f) = Ok (member f)"
    using ok str valid_printable by (cases "member f") (auto simp: field_read_def checked_def)
  moreover have "field_read (checked ensure_correct_error_name) (error_name f) = Ok (error_name f)"
    using ok str valid_printable by (cases "error_name f") (auto simp: field_read_def checked_def)
  moreover have "field_read bus_name_try_from (map_option bus_name_as_str (destination f)) = Ok (destination f)"
    using ok str valid_printable by (cases "destination f") (auto simp: field_read_def)
  moreover have "field_read (checked ensure_correct_unique_name) (sender f) = Ok (sender f)"
    using ok str valid_printable by (cases "sender f") (auto simp: field_read_def checked_def)
  ultimately show ?thesis
    using assms(2) by (simp add: message_header_def msg_quick_def quick_fields_new_def)
qed


text \<open>
  The wire signature of a body that is a structure, put into a structure again by the seed. The parentheses of a body that is a structure of
  one structure are lost: it comes back as the inner structure.
\<close>

definition body_args :: "zvalue list \<Rightarrow> zvalue list" where
  "body_args fs = (case fs of [Structure gs _] \<Rightarrow> gs | _ \<Rightarrow> fs)"

abbreviation structure_of :: "zvalue list \<Rightarrow> zvalue" where
  "structure_of fs \<equiv> Structure fs (signature.Structure (map value_signature fs))"

definition nested_single :: "signature \<Rightarrow> bool" where
  "nested_single s \<longleftrightarrow> (\<exists>fs. s = signature.Structure [signature.Structure fs])"

lemma body_args_cases:
  obtains (nested) gs g where "fs = [Structure gs g]" "body_args fs = gs"
  | (plain) "body_args fs = fs" "\<And>gs g. fs \<noteq> [Structure gs g]"
proof (cases "\<exists>gs g. fs = [Structure gs g]")
  case True
  then show ?thesis using that(1) by (auto simp: body_args_def)
next
  case False
  then have "body_args fs = fs" by (simp add: body_args_def split: list.splits zvalue.splits)
  with False show ?thesis using that(2) by blast
qed

lemma value_ok_structure: "value_ok v \<Longrightarrow> value_signature v = signature.Structure ss \<Longrightarrow> \<exists>fs s. v = Structure fs s"
  by (cases v) auto

lemma seed_of_wire_signature:
  assumes "value_ok (structure_of fs)"
  shows "structure_seed_signature (wire_signature (signature.Structure (map value_signature fs))) =
    signature.Structure (map value_signature (body_args fs))"
proof (cases fs rule: body_args_cases)
  case (nested gs g)
  then show ?thesis using assms by (simp add: structure_seed_signature_def wire_signature_def)
next
  case plain
  then have "value_signature v \<noteq> signature.Structure ss" if "fs = [v]" for v ss
    using assms that value_ok_structure [of v ss] by auto
  with plain(1) show ?thesis
    by (auto simp: structure_seed_signature_def wire_signature_def split: list.splits signature.splits)
qed

lemma body_args_ok:
  assumes "value_ok (structure_of fs)" "plain (structure_of fs)" "readable (structure_of fs)" "fuel (structure_of fs) \<le> n"
  shows "value_ok (structure_of (body_args fs))" "plain (structure_of (body_args fs))" "readable (structure_of (body_args fs))"
    "fuel (structure_of (body_args fs)) \<le> n"
  using assms by (cases fs rule: body_args_cases; auto)+

lemma enc_body_args:
  assumes "value_ok (structure_of fs)" "enc E e d (structure_of fs) n = Ok bs"
  shows "enc E e d (structure_of (body_args fs)) n = Ok bs"
proof (cases fs rule: body_args_cases)
  case (nested gs g)
  then show ?thesis using enc_nested_single [of E e d gs g _ n bs] assms by simp
qed (use assms(2) in simp)

lemma body_args_plain: "value_ok (structure_of fs) \<Longrightarrow> \<not> nested_single (signature.Structure (map value_signature fs)) \<Longrightarrow> body_args fs = fs"
  by (cases fs rule: body_args_cases) (auto simp: nested_single_def)

lemma deserialize_seq_visitor:
  assumes "de_sig d = signature.Structure ss" "visit_seq V = visit_seq W"
  shows "deserialize_seq E V d = deserialize_seq E W d"
  using assms by (auto simp: deserialize_seq_def dbus_alignment_def alignment_def dbind_def parse_padding_def
      lift_def Let_def split: option.splits)

lemma wire_signature_wf: "sig_wf s \<Longrightarrow> sig_wf (wire_signature s)"
  by (auto simp: wire_signature_def split: signature.splits list.splits)

lemma fields_ok_wire:
  "fields_ok f \<Longrightarrow> fields_ok (f\<lparr>body_signature := wire_signature (body_signature f)\<rparr>)"
  using wire_signature_wf [of "body_signature f"] by (auto simp: fields_ok_def) (simp add: wire_signature_def)

context wire_laws
begin

lemma reads_as_header:
  assumes "header_sent h" "B (flags (primary h)) = Some (flags (primary h))" "10 \<le> n"
  shows "reads_as (deserialize_header N E B n) HEADER_SIGNATURE no_depths (enc_header E h)
    (h\<lparr>header_fields := (header_fields h)\<lparr>body_signature := wire_signature (body_signature (header_fields h))\<rparr>\<rparr>)"
proof -
  obtain d1 d2 d3 d4 d5 where d: "inc_structure no_depths = Ok d1" "inc_structure d1 = Ok d2"
    "inc_array d1 = Ok d3" "inc_structure d3 = Ok d4" "inc_variant d4 = Ok d5" by (rule header_depths)
  have p: "reads_as (deserialize_primary N E B) PRIMARY_SIGNATURE d1 (enc_primary E (primary h)) (primary h)"
    using assms by (intro reads_as_primary [OF d(2)]) (simp_all add: header_sent_def)
  have f: "reads_as (deserialize_fields N E n) FIELDS_SIGNATURE d1 (enc_fields E (header_fields h))
      ((header_fields h)\<lparr>body_signature := wire_signature (body_signature (header_fields h))\<rparr>)"
    using assms(1,3) entries_ok length_entries [of "header_fields h"]
    by (intro reads_as_fields [OF _ _ d(3-5) set_fields_entries]) (auto simp: header_sent_def)
  show ?thesis
    unfolding deserialize_header_def HEADER_SIGNATURE_def enc_header_def
    apply (rule reads_as_struct [OF _ d(1)])
    apply (rule visits_step [where x = "primary h"], use p in simp, simp, simp only: prod.case)
    apply (rule visits_last [where x = "(header_fields h)\<lparr>body_signature :=
        wire_signature (body_signature (header_fields h))\<rparr>"], use f in simp, simp, cases h, simp)
    done
qed

lemma read_structure:
  assumes "value_ok (Structure fs s)" "plain (Structure fs s)" "readable (Structure fs s)" "fuel (Structure fs s) \<le> Suc n"
    "enc E (c_endian (data_context dat)) no_depths (Structure fs s) (c_position (data_context dat)) = Ok bs"
    "data_bytes dat = bs @ r"
  shows "deserialize_for_signature s (deserialize_structure N E n s) dat = Some (Ok (Structure fs s, length bs))"
proof -
  have s: "s = signature.Structure (map value_signature fs)" using assms(1) by simp
  have "reads_as (deserialize_structure N E n s) s no_depths (\<lambda>e. enc E e no_depths (Structure fs s)) (Structure fs s)"
  proof (rule reads_asI)
    fix d b
    assume d: "de_sig d = s" "de_depths d = no_depths" "enc E (de_endian d) no_depths (Structure fs s) (de_abs_pos d) = Ok b"
      "upcoming d b"
    then have "de_value N E (Suc n) s d = Some (Ok (Structure fs s), adv d (length b))"
      using readsD [OF readable_reads [OF assms(1-3)] assms(4), of d b] s by simp
    then show "deserialize_structure N E n s d = Some (Ok (Structure fs s), adv d (length b))"
      using d(1) s deserialize_seq_visitor [of d "map value_signature fs" "value_seed N E n (de_value N E n) s"
          "seq_visitor (visit_struct N (de_value N E n) s)" E]
      by (simp add: deserialize_structure_def deserialize_any_def seq_visitor_def value_seed_def value_seed_seq_def
          fun_eq_iff)
  qed
  from deserialize_reads_as [OF this assms(5,6)] show ?thesis .
qed

text \<open>A message that was built, parsed again: its header, and the bytes of its body.\<close>

lemma built_parsed:
  assumes "header_ok h" "unix_fds (header_fields h) = None" "\<And>b. code b < 8 \<Longrightarrow> B b = Some b" "10 \<le> n"
    "value_ok v" "plain v" "value_signature v = s" "sig_wf s" "build N E D s (serialize_inner N E D v) h = Ok m"
  obtains m' hd dat where "from_raw_parts N E B n (msg_bytes m) seq = Some (Ok m')" "msg_primary m' = msg_primary m"
    "msg_bytes m' = msg_bytes m" "msg_recv_seq m' = seq"
    "message_header N E B n m' = Some (Ok hd)" "message_header N E B n m = Some (Ok hd)"
    "hd = h\<lparr>primary := msg_primary m, header_fields := (header_fields h)\<lparr>body_signature := wire_signature s\<rparr>\<rparr>"
    "msg_primary m = (primary h)\<lparr>body_len := body_len (msg_primary m)\<rparr>"
    "data_slice_from (msg_bytes m) (msg_body_offset m') = Ok dat"
    "enc E (c_endian (data_context dat)) no_depths v (c_position (data_context dat)) = Ok (data_bytes dat)"
    "unat (body_len (msg_primary m)) = length (data_bytes (msg_bytes m)) - msg_body_offset m'"
    "msg_body_offset m' mod 8 = 0" "msg_body_offset m' = msg_body_offset m" "c_position (data_context dat) mod 8 = 0"
proof -
  let ?e = "header_endian h"
  have "writes (serialize_inner N E D v) s no_depths (\<lambda>e. enc E e no_depths v)"
    using refines_writes [OF plain_refines [OF assms(5,6)]] assms(7) by simp
  from build_Ok [OF this assms(2,9)] obtain body hb where b: "enc E ?e no_depths v 0 = Ok body"
    "enc_header E (built_header s (length body) h) ?e 0 = Ok hb" "length body < 2 ^ 32"
    "m = \<lparr>msg_primary = primary (built_header s (length body) h), msg_quick_fields = None,
      msg_bytes = new_fds (hb @ pad (length hb) 8 @ body) (header_ctxt h) [],
      msg_body_offset = length hb + padding (length hb) 8, msg_recv_seq = 0\<rparr>" by blast
  let ?h = "built_header s (length body) h"
  let ?f = "(header_fields h)\<lparr>body_signature := wire_signature s\<rparr>"
  have ok: "header_ok ?h" using assms(1,8) by (auto simp: header_ok_def fields_ok_def)
  have B: "B (flags (primary ?h)) = Some (flags (primary ?h))" using assms(1,3) by (simp add: header_ok_def)
  define m' where "m' = \<lparr>msg_primary = primary ?h, msg_quick_fields = Some (quick_fields_new ?f),
      msg_bytes = msg_bytes m, msg_body_offset = length hb + padding (length hb) 8, msg_recv_seq = seq\<rparr>"
  have parsed: "from_raw_parts N E B n (msg_bytes m) seq = Some (Ok m')"
    using from_raw_parts_header [where h = ?h and B = B, OF header_ok_sent [OF ok] B assms(4), of hb "pad (length hb) 8 @ body" "[]" seq] b(2,4)
    by (simp add: m'_def header_ctxt_def)
  have fok: "fields_ok ?f" using ok fields_ok_wire [of "header_fields ?h"] by (simp add: header_ok_def)
  have hd': "message_header N E B n m' = Some (Ok \<lparr>primary = primary ?h, header_fields = ?f\<rparr>)"
    using header_of_quick [OF fok, of m'] by (simp add: m'_def)
  have "msg_quick N E B n m = Some (Ok (quick_fields_new ?f))"
    using deserialize_reads_as [OF reads_as_header [where h = ?h and B = B, OF header_ok_sent [OF ok] B assms(4)], of "msg_bytes m" hb "pad (length hb) 8 @ body"] b(2,4)
    by (simp add: msg_quick_def header_ctxt_def)
  then have hd: "message_header N E B n m = Some (Ok \<lparr>primary = primary ?h, header_fields = ?f\<rparr>)"
    using hd' b(4) by (simp add: message_header_def m'_def msg_quick_def)
  let ?o = "length hb + padding (length hb) 8"
  have o: "?o mod 8 = 0" by (simp add: padding_bounds)
  obtain dat where dat: "data_slice_from (msg_bytes m) ?o = Ok dat" "data_bytes dat = body"
      "data_context dat = \<lparr>c_endian = ?e, c_position = ?o\<rparr>"
    using slice_new_fds [of "hb @ pad (length hb) 8" ?o body "header_ctxt h" "[]"] b(4)
    by (auto simp: header_ctxt_def)
  have "enc E ?e no_depths v ?o = Ok body"
    using enc_shift(1) [OF o, of E ?e no_depths v 0] b(1) by simp
  moreover have len: "unat (body_len (msg_primary m)) = length body"
    using b(3,4) by (simp add: unsigned_of_nat take_bit_nat_eq_self)
  ultimately show thesis
    by (intro that [OF parsed _ _ _ hd' hd, of dat]) (use b(4) o dat in \<open>simp_all add: m'_def\<close>)
qed

lemma message_roundtrip_aux:
  assumes "header_ok h" "unix_fds (header_fields h) = None"
    "\<And>b. code b < 8 \<Longrightarrow> B b = Some b" "10 \<le> n" "fuel (Structure fs s) \<le> Suc n"
    "value_ok (Structure fs s)" "plain (Structure fs s)" "readable (Structure fs s)" "sig_wf s"
    "build N E D s (serialize_inner N E D (Structure fs s)) h = Ok m"
  obtains m' hd where "from_raw_parts N E B n (msg_bytes m) seq = Some (Ok m')" "msg_primary m' = msg_primary m"
    "msg_bytes m' = msg_bytes m" "msg_recv_seq m' = seq"
    "message_header N E B n m' = Some (Ok hd)" "message_header N E B n m = Some (Ok hd)"
    "hd = h\<lparr>primary := msg_primary m, header_fields := (header_fields h)\<lparr>body_signature := wire_signature s\<rparr>\<rparr>"
    "body_deserialize N E B n m' = Some (Ok (structure_of (body_args fs)))"
    "unat (body_len (msg_primary m)) = length (data_bytes (msg_bytes m)) - msg_body_offset m'"
    "msg_body_offset m' mod 8 = 0" "msg_body_offset m' = msg_body_offset m"
proof -
  obtain m' hd dat where m': "from_raw_parts N E B n (msg_bytes m) seq = Some (Ok m')" "msg_primary m' = msg_primary m"
    "msg_bytes m' = msg_bytes m" "msg_recv_seq m' = seq"
    "message_header N E B n m' = Some (Ok hd)" "message_header N E B n m = Some (Ok hd)"
    "hd = h\<lparr>primary := msg_primary m, header_fields := (header_fields h)\<lparr>body_signature := wire_signature s\<rparr>\<rparr>"
    "msg_primary m = (primary h)\<lparr>body_len := body_len (msg_primary m)\<rparr>"
    "data_slice_from (msg_bytes m) (msg_body_offset m') = Ok dat"
    "enc E (c_endian (data_context dat)) no_depths (Structure fs s) (c_position (data_context dat)) = Ok (data_bytes dat)"
    "unat (body_len (msg_primary m)) = length (data_bytes (msg_bytes m)) - msg_body_offset m'"
    "msg_body_offset m' mod 8 = 0" "msg_body_offset m' = msg_body_offset m" "c_position (data_context dat) mod 8 = 0"
    by (rule built_parsed [where B = B, OF assms(1,2) _ assms(4,6,7) value_signature.simps(16) assms(9,10), of seq])
      (use assms(3) in blast)
  have s: "s = signature.Structure (map value_signature fs)" using assms(6) by simp
  let ?v = "structure_of (body_args fs)" and ?s = "signature.Structure (map value_signature (body_args fs))"
  note ok = assms(5-8) [unfolded s]
  have "deserialize_for_signature ?s (deserialize_structure N E n ?s) dat = Some (Ok (?v, length (data_bytes dat)))"
    using read_structure [OF body_args_ok [OF ok(2-4,1)] enc_body_args [OF ok(2) m'(10) [unfolded s]], of "[]"] by simp
  then have "body_deserialize N E B n m' = Some (Ok ?v)"
    using m'(3,5,7,9) seed_of_wire_signature [OF ok(2)] s by (simp add: body_deserialize_def message_body_def Let_def)
  then show thesis by (rule that [OF m'(1-7) _ m'(11-13)])
qed

end

section \<open>The builder\<close>

text \<open>The headers that the methods of the builder can make.\<close>

inductive builder :: "header \<Rightarrow> bool" where
  new: "builder_new ne t c = Ok (h, c') \<Longrightarrow> builder h"
| from_header: "header_ok h \<Longrightarrow> builder (builder_from h)"
| flags: "builder h \<Longrightarrow> with_flags h f = Ok h' \<Longrightarrow> builder h'"
| sender: "builder h \<Longrightarrow> set_sender x h = Ok h' \<Longrightarrow> builder h'"
| path: "builder h \<Longrightarrow> set_path x h = Ok h' \<Longrightarrow> builder h'"
| interface: "builder h \<Longrightarrow> set_interface x h = Ok h' \<Longrightarrow> builder h'"
| member: "builder h \<Longrightarrow> set_member x h = Ok h' \<Longrightarrow> builder h'"
| error_name: "builder h \<Longrightarrow> set_error_name x h = Ok h' \<Longrightarrow> builder h'"
| destination: "builder h \<Longrightarrow> set_destination x h = Ok h' \<Longrightarrow> builder h'"
| endian: "builder h \<Longrightarrow> builder (set_endian e h)"
| reply_to: "builder h \<Longrightarrow> header_ok call \<Longrightarrow> builder (reply_to call h)"

lemma unique_is_bus_name:
  "ensure_correct_unique_name s = Ok () \<Longrightarrow> bus_name_try_from s = Ok (Unique s)"
  by (auto simp: bus_name_try_from_def ensure_correct_unique_name_def split: list.splits if_splits)

lemma flag_added:
  fixes b :: nat
  assumes "b < 8" "k \<in> {1, 2, 4}" "b div k mod 2 \<noteq> 1"
  shows "b + k < 8"
proof -
  have "b \<in> {0, 1, 2, 3, 4, 5, 6, 7}" using assms(1) by auto
  then show ?thesis using assms(2,3) by auto
qed

lemma with_flags_ok:
  assumes "with_flags h f = Ok h'" "header_ok h"
  shows "header_ok h' \<and> header_fields h' = header_fields h"
proof -
  have "flag_bits f \<in> {1, 2, 4}" by (cases f) (simp_all add: flag_bits_def)
  with flag_added [of "code (flags (primary h))" "flag_bits f"] assms show ?thesis
    by (auto simp: with_flags_def header_ok_def Let_def split: if_splits)
qed

lemmas builder_ops = set_sender_def set_path_def set_interface_def set_member_def set_error_name_def
  set_destination_def set_endian_def set_fields_def names_check_def header_ok_def fields_ok_def

lemma converted_again:
  "object_path_try_from x = Ok p \<Longrightarrow> object_path_try_from p = Ok p"
  "bus_name_try_from x = Ok b \<Longrightarrow> bus_name_try_from (bus_name_as_str b) = Ok b"
  using object_path_printable bus_name_printable by metis+

lemma names_check_Ok: "map_err f r = Ok x \<longleftrightarrow> r = Ok x"
  by (cases r) simp_all

lemma reply_to_ok:
  assumes "header_ok call" "header_ok h"
  shows "header_ok (reply_to call h)" "unix_fds (header_fields (reply_to call h)) = unix_fds (header_fields h)"
  using assms unique_is_bus_name
  by (cases "sender (header_fields call)"; simp add: reply_to_def builder_ops Let_def)+

lemma next_serial_nonzero: "fst (next_serial c) \<noteq> 0"
  by (simp add: next_serial_def)

lemma builder_ok: "builder h \<Longrightarrow> header_ok h \<and> unix_fds (header_fields h) = None"
proof (induction rule: builder.induct)
  case (new ne t c h c')
  then show ?case
    using next_serial_nonzero [of c]
    by (auto simp: builder_new_def primary_new_def header_ok_def fields_ok_def no_fields_def split: prod.splits if_splits)
next
  case (flags h f h')
  then show ?case using with_flags_ok by metis
next
  case (reply_to h call)
  then show ?case using reply_to_ok by simp
qed (auto simp: builder_ops builder_from_def names_check_Ok dest: converted_again)

end
