(* ===== verification/Message_Props.thy ===== *)
theory Message_Props
  imports Message_Roundtrip
begin

text \<open>
  More properties of messages: when \<^verbatim>\<open>build\<close> succeeds, what happens to a message of a peer whose
  header has names that are not valid, and the serial numbers of the messages of a process.
\<close>

section \<open>What is built\<close>

text \<open>C26: Whatever methods of the builder are called in which order, the header is well-formed: all its
  names pass their validators, its serial is not 0 and its flags are known ones.\<close>

theorem builder_header_ok:
  assumes "builder h"
  shows "header_ok h"
  using builder_ok [OF assms] by simp

definition sample_header :: header where
  "sample_header = \<lparr>primary = \<lparr>endian_sig = LittleSig, msg_type = MethodCall, flags = byte_of 2,
     protocol_version = byte_of 1, body_len = 0, serial_num = 1\<rparr>,
     header_fields = no_fields\<lparr>path := Some ''/'', member := Some ''Hi''\<rparr>\<rparr>"

lemma sample_header_built:
  "bind_res (bind_res (builder_new LittleSig MethodCall 0) (\<lambda>(h, c). set_path ''/'' h))
     (\<lambda>h. bind_res (set_member ''Hi'' h) (\<lambda>h. with_flags h NoAutoStart)) = Ok sample_header"
  by code_simp

lemma sample_builder: "builder sample_header"
proof -
  obtain h c where h: "builder_new LittleSig MethodCall 0 = Ok (h, c)"
    by (auto simp: builder_new_def primary_new_def next_serial_def)
  then obtain x y where "set_path ''/'' h = Ok x" "set_member ''Hi'' x = Ok y" "with_flags y NoAutoStart = Ok sample_header"
    using sample_header_built by auto
  with builder.new [OF h] show ?thesis by (blast intro: builder.path builder.member builder.flags)
qed

theorem builder_header_ok_witness: "builder sample_header \<and> header_ok sample_header"
  using sample_builder builder_header_ok [OF sample_builder] by simp

definition sample_body :: zvalue where
  "sample_body = Structure [U32 7] (signature.Structure [signature.U32])"

definition from_bits :: "byte \<Rightarrow> byte option" where
  "from_bits b = (if code b < 8 then Some b else None)"

lemma sample_body_facts:
  "value_ok sample_body" "plain sample_body" "readable sample_body"
  "enc endi_ref Little no_depths sample_body 0 = Ok (map byte_of [7, 0, 0, 0])"
  "value_signature sample_body = signature.Structure [signature.U32]"
  "to_string_no_parens (signature.Structure [signature.U32]) = ''u''"
  "sig_wf (signature.Structure [signature.U32])" "\<not> nested_single (signature.Structure [signature.U32])"
  "fuel sample_body \<le> Suc 20"
  by (simp_all add: sample_body_def nested_single_def to_string_no_parens_def enc_then_def enc_basic_def pad_def
      padding_numeral endi_ref_def byte_order_def inc_structure_def inc_array_def inc_variant_def depth_defs
      no_depths_def numeral_nat_bytes map_ok_def cong: bind_res_weak_cong)

section \<open>Building succeeds\<close>

lemma name_lengths:
  "ensure_correct_interface_name x = Ok () \<Longrightarrow> length x \<le> 255"
  "ensure_correct_member_name x = Ok () \<Longrightarrow> length x \<le> 255"
  "ensure_correct_error_name x = Ok () \<Longrightarrow> length x \<le> 255"
  "ensure_correct_unique_name x = Ok () \<Longrightarrow> length x \<le> 255"
  "bus_name_try_from x = Ok b \<Longrightarrow> length x \<le> 255"
  by (auto simp: ensure_correct_interface_name_def ensure_correct_member_name_def ensure_correct_error_name_def
      ensure_correct_unique_name_def ensure_correct_well_known_name_def bus_name_try_from_def
      split: if_splits list.splits res.splits)

lemma fields_entry_length:
  assumes "fields_ok f" "pred_option (\<lambda>p. length p \<le> k) (path f)" "255 \<le> k"
    "length (to_string_no_parens s) < 256" "x \<in> set (field_entries (f\<lparr>body_signature := s\<rparr>))"
  shows "(\<forall>t. x = Signature_Entry t \<longrightarrow> length (to_string_no_parens t) < 256) \<and> entry_length x \<le> k"
  using assms unfolding fields_ok_def field_entries_def
  by (auto simp: set_opt_entry split: if_splits dest!: name_lengths)

context wire_laws
begin

lemma build_total:
  assumes "builder h" "value_ok v" "plain v" "enc E (header_endian h) no_depths v 0 = Ok body"
    and "length (to_string_no_parens (value_signature v)) < 256"
    and "pred_option (\<lambda>p. length p \<le> k) (path (header_fields h))" "255 \<le> k"
    and "length body + 9 * k + 317 \<le> MAX_MESSAGE_SIZE"
  shows "\<exists>m. build N E D (value_signature v) (serialize_inner N E D v) h = Ok m"
proof -
  let ?h = "built_header (value_signature v) (length body) h"
  have "fields_ok (header_fields h)" using builder_ok [OF assms(1)] by (simp add: header_ok_def)
  then have "(\<forall>s. x = Signature_Entry s \<longrightarrow> length (to_string_no_parens s) < 256) \<and> entry_length x \<le> k"
    if "x \<in> set (field_entries (header_fields ?h))" for x
    using fields_entry_length [of "header_fields h" k "value_signature v" x] assms(5-7) that by simp
  moreover have "k < 2 ^ 27" using assms(8) by (simp add: MAX_MESSAGE_SIZE_def)
  ultimately obtain hb where hb: "enc_header E ?h (header_endian h) 0 = Ok hb" "length hb \<le> 310 + 9 * k"
    using header_total [of ?h k] by blast
  have "padding (length hb) 8 < 8" using padding_bounds(1) [of 8 "length hb"] by simp
  then show ?thesis
    using build_intro [OF refines_writes [OF plain_refines [OF assms(2,3)]] assms(4) hb(1)] hb(2) assms(8)
    by (simp add: MAX_MESSAGE_SIZE_def)
qed

end

text \<open>C25: Building a message succeeds: whatever the builder was asked for, if the body can be encoded, its
  signature has less than 256 characters, the object path at most \<open>k\<close>, and header and body stay
  below the limit of 128 MiB, there is a message; no other check of \<^verbatim>\<open>build\<close> can fail.\<close>

theorem build_succeeds:
  assumes "nom_laws N" "endi_laws E" "builder h" "value_ok v" "plain v"
    and "enc E (header_endian h) no_depths v 0 = Ok body"
    and "length (to_string_no_parens (value_signature v)) < 256"
    and "pred_option (\<lambda>p. length p \<le> k) (path (header_fields h))" "255 \<le> k"
    and "length body + 9 * k + 317 \<le> MAX_MESSAGE_SIZE"
  shows "\<exists>m. build N E D (value_signature v) (serialize_inner N E D v) h = Ok m"
  by (rule wire_laws.build_total [OF wire_laws.intro [OF assms(1,2)] assms(3-10)])

theorem build_succeeds_witness:
  "\<exists>m. build nom_ref endi_ref (\<lambda>_. Some) (signature.Structure [signature.U32])
     (serialize_inner nom_ref endi_ref (\<lambda>_. Some) sample_body) sample_header = Ok m"
  using build_succeeds [OF nr.nom_laws_axioms er.endi_laws_axioms sample_builder,
      where v = sample_body and k = 255 and body = "map byte_of [7, 0, 0, 0]" and D = "\<lambda>_. Some"] sample_body_facts
  by (simp add: sample_header_def no_fields_def MAX_MESSAGE_SIZE_def endian_of_sig_def)

section \<open>Round trip\<close>

text \<open>C3: A message built from any header the builder can make, with a structure without file descriptors as its body, is parsed
  back from its bytes: the same primary header and fields (a body signature of one field being
  that of the field), the same body, at the same offset, which is aligned to 8 bytes. The one exception is a body that is a structure of one
  structure: it comes back as the inner structure.\<close>

theorem message_roundtrip:
  assumes "nom_laws N" "endi_laws E" "\<And>b. code b < 8 \<Longrightarrow> B b = Some b"
    and "builder h" "value_ok (Structure fs s)" "plain (Structure fs s)" "readable (Structure fs s)" "sig_wf s"
    and "10 \<le> n" "fuel (Structure fs s) \<le> Suc n"
    and "build N E D s (serialize_inner N E D (Structure fs s)) h = Ok m"
  shows "\<exists>m' hd. from_raw_parts N E B n (msg_bytes m) seq = Some (Ok m') \<and>
    message_header N E B n m' = Some (Ok hd) \<and> message_header N E B n m = Some (Ok hd) \<and>
    hd = h\<lparr>primary := msg_primary m, header_fields := (header_fields h)\<lparr>body_signature := wire_signature s\<rparr>\<rparr> \<and>
    msg_body_offset m' = msg_body_offset m \<and> msg_body_offset m mod 8 = 0 \<and>
    ((\<nexists>gs g. fs = [Structure gs g]) \<longrightarrow> body_deserialize N E B n m' = Some (Ok (Structure fs s))) \<and>
    (\<forall>gs g. fs = [Structure gs g] \<longrightarrow> body_deserialize N E B n m' = Some (Ok (Structure gs g)))"
proof -
  note h = builder_ok [OF assms(4), THEN conjunct1] builder_ok [OF assms(4), THEN conjunct2]
  obtain m' hd where m': "from_raw_parts N E B n (msg_bytes m) seq = Some (Ok m')" "message_header N E B n m' = Some (Ok hd)"
      "message_header N E B n m = Some (Ok hd)"
      "hd = h\<lparr>primary := msg_primary m, header_fields := (header_fields h)\<lparr>body_signature := wire_signature s\<rparr>\<rparr>"
      "msg_body_offset m' mod 8 = 0" "msg_body_offset m' = msg_body_offset m"
      "body_deserialize N E B n m' = Some (Ok (structure_of (body_args fs)))"
    by (rule wire_laws.message_roundtrip_aux [OF wire_laws.intro [OF assms(1,2)] h assms(3,9,10,5-8,11), of seq])
      (auto simp del: value_ok.simps plain.simps readable.simps)
  have "structure_of (body_args fs) = Structure fs s" if "\<nexists>gs g. fs = [Structure gs g]"
    using that assms(5) by (cases fs rule: body_args_cases) auto
  moreover have "structure_of (body_args fs) = Structure gs g" if "fs = [Structure gs g]" for gs g
    using that assms(5) by (auto simp: body_args_def)
  ultimately show ?thesis using m' by fastforce
qed

lemma sample_built:
  "\<exists>m. build nom_ref endi_ref (\<lambda>_. Some) (signature.Structure [signature.U32])
     (serialize_inner nom_ref endi_ref (\<lambda>_. Some) sample_body) sample_header = Ok m"
proof -
  let ?h = "built_header (signature.Structure [signature.U32]) (length (map byte_of [7, 0, 0, 0])) sample_header"
  have "\<exists>b. enc_header endi_ref ?h Little 0 = Ok b \<and> length b \<le> 310 + 9 * 2"
    by (rule er.header_total)
      (auto simp: sample_header_def no_fields_def field_entries_def set_opt_entry sample_body_facts)
  then obtain hb where hb: "enc_header endi_ref ?h Little 0 = Ok hb" "length hb \<le> 328" by auto
  have w: "writes (serialize_inner nom_ref endi_ref (\<lambda>_. Some) sample_body) (signature.Structure [signature.U32]) no_depths
      (\<lambda>e. enc endi_ref e no_depths sample_body)"
    using refines_writes [OF wr.plain_refines [OF sample_body_facts(1,2)]] sample_body_facts(5) by simp
  have "header_endian sample_header = Little" by (simp add: sample_header_def endian_of_sig_def)
  then show ?thesis
    using wr.build_intro [OF w, of sample_header "map byte_of [7, 0, 0, 0]" hb] hb sample_body_facts(4) padding_bounds(1) [of 8 "length hb"] by (simp add: MAX_MESSAGE_SIZE_def)
qed

theorem message_roundtrip_witness:
  "\<exists>m m'. build nom_ref endi_ref (\<lambda>_. Some) (signature.Structure [signature.U32])
     (serialize_inner nom_ref endi_ref (\<lambda>_. Some) sample_body) sample_header = Ok m \<and>
    from_raw_parts nom_ref endi_ref from_bits 20 (msg_bytes m) 5 = Some (Ok m') \<and>
    body_deserialize nom_ref endi_ref from_bits 20 m' = Some (Ok sample_body)"
proof -
  obtain m where m: "build nom_ref endi_ref (\<lambda>_. Some) (signature.Structure [signature.U32])
     (serialize_inner nom_ref endi_ref (\<lambda>_. Some) sample_body) sample_header = Ok m"
    using sample_built by blast
  have bits: "code b < 8 \<Longrightarrow> from_bits b = Some b" for b by (simp add: from_bits_def)
  note f = sample_body_facts(1-3) [unfolded sample_body_def] sample_body_facts(7)
  have "\<exists>m'. from_raw_parts nom_ref endi_ref from_bits 20 (msg_bytes m) 5 = Some (Ok m') \<and>
      body_deserialize nom_ref endi_ref from_bits 20 m' = Some (Ok sample_body)"
    using message_roundtrip [OF nr.nom_laws_axioms er.endi_laws_axioms bits sample_builder f _
        sample_body_facts(9) [unfolded sample_body_def] m [unfolded sample_body_def], where seq = 5]
    unfolding sample_body_def by (simp only: numeral_le_iff semiring_norm) blast
  with m show ?thesis by blast
qed

section \<open>Messages of a peer\<close>

lemma field_read_checked:
  "pred_option readable_str x \<Longrightarrow> field_read (checked v) x =
     (if pred_option (\<lambda>y. v y = Ok ()) x then Ok x else Panic)"
  by (cases x) (auto simp: field_read_def checked_def readable_str_def split: res.splits)

lemma object_path_read: "object_path_try_from x = Ok y \<Longrightarrow> y = x"
  by (auto simp: object_path_try_from_def bind_res_eq_Ok)

lemma field_read_path:
  "pred_option readable_str x \<Longrightarrow> field_read object_path_try_from x =
     (if pred_option (\<lambda>y. object_path_try_from y = Ok y) x then Ok x else Panic)"
  by (cases x) (auto simp: field_read_def readable_str_def split: res.splits dest: object_path_read)

lemma field_read_destination:
  "pred_option readable_str (map_option bus_name_as_str x) \<Longrightarrow>
     pred_option (\<lambda>b. bus_name_try_from (bus_name_as_str b) = Ok b) x \<Longrightarrow>
     field_read bus_name_try_from (map_option bus_name_as_str x) = Ok x"
  by (cases x) (auto simp: field_read_def readable_str_def)

lemma destination_readable:
  "pred_option (\<lambda>b. bus_name_try_from (bus_name_as_str b) = Ok b) x \<Longrightarrow>
     pred_option readable_str (map_option bus_name_as_str x)"
  by (cases x) (auto simp: readable_str_def dest!: bus_name_printable dest: printable_readable)

lemma header_panics:
  assumes "fields_sent f" "\<not> fields_ok f"
    "msg_quick_fields m = Some (quick_fields_new (f\<lparr>body_signature := s\<rparr>))"
  shows "message_header N E B n m = Some Panic"
  using assms
  by (auto simp: message_header_def msg_quick_def quick_fields_new_def field_read_checked field_read_path
      field_read_destination destination_readable fields_sent_def fields_ok_def)

text \<open>A message of a peer is accepted by \<^verbatim>\<open>from_raw_parts\<close> whatever strings its header has as path,
  interface, member, error name and sender. \<^verbatim>\<open>header()\<close> of that message is the header that was sent
  if they are all valid names, and panics otherwise.\<close>

theorem header_of_peer:
  assumes "nom_laws N" "endi_laws E" "header_sent h" "B (flags (primary h)) = Some (flags (primary h))" "10 \<le> n"
    and "enc_header E h (header_endian h) 0 = Ok hb"
  shows "\<exists>m. from_raw_parts N E B n (new_fds (hb @ r) \<lparr>c_endian = header_endian h, c_position = 0\<rparr> fs) seq = Some (Ok m) \<and>
    message_header N E B n m = Some (if fields_ok (header_fields h)
      then Ok (h\<lparr>header_fields := (header_fields h)\<lparr>body_signature := wire_signature (body_signature (header_fields h))\<rparr>\<rparr>)
      else Panic)"
proof -
  let ?f = "(header_fields h)\<lparr>body_signature := wire_signature (body_signature (header_fields h))\<rparr>"
  obtain m where m: "from_raw_parts N E B n (new_fds (hb @ r) \<lparr>c_endian = header_endian h, c_position = 0\<rparr> fs) seq = Some (Ok m)"
    "msg_primary m = primary h" "msg_quick_fields m = Some (quick_fields_new ?f)"
    using wire_laws.from_raw_parts_header [where B = B, OF wire_laws.intro [OF assms(1,2)] assms(3-6), of r fs seq] by auto
  have "message_header N E B n m = Some (Ok \<lparr>primary = primary h, header_fields = ?f\<rparr>)" if "fields_ok (header_fields h)"
    using header_of_quick [OF fields_ok_wire [OF that] m(3)] m(2) by simp
  moreover have "message_header N E B n m = Some Panic" if "\<not> fields_ok (header_fields h)"
    using header_panics [OF _ that m(3)] assms(3) by (simp add: header_sent_def)
  ultimately show ?thesis using m(1) by (cases h) auto
qed

definition peer_header :: header where
  "peer_header = sample_header\<lparr>header_fields := no_fields\<lparr>path := Some ''/'', member := Some ''H.i''\<rparr>\<rparr>"

lemma peer_header_facts:
  "header_sent peer_header" "header_endian peer_header = Little"
  "from_bits (flags (primary peer_header)) = Some (flags (primary peer_header))"
  "\<exists>hb. enc_header endi_ref peer_header Little 0 = Ok hb \<and> length hb \<le> 337"
  "\<not> fields_ok (header_fields peer_header)"
proof -
  show "header_sent peer_header"
    by (simp add: header_sent_def fields_sent_def peer_header_def sample_header_def no_fields_def readable_str_def) code_simp
  show "\<not> fields_ok (header_fields peer_header)"
    by (simp add: fields_ok_def peer_header_def sample_header_def no_fields_def) code_simp
  show "header_endian peer_header = Little" by (simp add: peer_header_def sample_header_def endian_of_sig_def)
  show "from_bits (flags (primary peer_header)) = Some (flags (primary peer_header))"
    by (simp add: from_bits_def peer_header_def sample_header_def)
  have "\<exists>b. enc_header endi_ref peer_header Little 0 = Ok b \<and> length b \<le> 310 + 9 * 3"
    by (rule er.header_total)
      (auto simp: peer_header_def sample_header_def no_fields_def field_entries_def set_opt_entry)
  then show "\<exists>hb. enc_header endi_ref peer_header Little 0 = Ok hb \<and> length hb \<le> 337" by simp
qed

theorem header_of_peer_witness:
  "\<exists>hb m. enc_header endi_ref peer_header Little 0 = Ok hb \<and>
     from_raw_parts nom_ref endi_ref from_bits 20 (new_fds hb \<lparr>c_endian = Little, c_position = 0\<rparr> []) 7 = Some (Ok m) \<and>
     message_header nom_ref endi_ref from_bits 20 m = Some Panic"
proof -
  obtain hb where hb: "enc_header endi_ref peer_header Little 0 = Ok hb" using peer_header_facts(4) by blast
  then show ?thesis
    using header_of_peer [where B = from_bits, OF nr.nom_laws_axioms er.endi_laws_axioms peer_header_facts(1,3), of 20 hb "[]" "[]" 7]
      peer_header_facts(2,5) by auto
qed

section \<open>Serial numbers\<close>

text \<open>The headers of \<open>k\<close> messages made one after the other.\<close>

fun new_headers :: "endian_sig \<Rightarrow> msg_type \<Rightarrow> nat \<Rightarrow> u32 \<Rightarrow> (error, primary_header list) res" where
  "new_headers ne t 0 c = Ok []"
| "new_headers ne t (Suc k) c =
     bind_res (primary_new ne t 0 c) (\<lambda>(p, c'). map_ok (\<lambda>ps. p # ps) (new_headers ne t k c'))"

text \<open>The serials run through 1 to \<open>2^32 - 1\<close> in a circle.\<close>

definition nth_serial :: "nat \<Rightarrow> u32" where
  "nth_serial j = word_of_nat (Suc (j mod (2 ^ 32 - 1)))"

definition counts :: "nat \<Rightarrow> u32 \<Rightarrow> bool" where
  "counts j c \<longleftrightarrow> c = nth_serial j \<or> c = 0 \<and> nth_serial j = 1"

lemma unat_nth_serial: "unat (nth_serial j) = Suc (j mod (2 ^ 32 - 1))"
proof -
  have "Suc (j mod (2 ^ 32 - 1)) < 2 ^ 32" using mod_less_divisor [of "2 ^ 32 - 1" j] by simp
  then show ?thesis unfolding nth_serial_def by (simp add: unsigned_of_nat take_bit_nat_eq_self del: of_nat_Suc)
qed

lemma nth_serial_nonzero: "nth_serial j \<noteq> 0"
  using unat_nth_serial [of j] by (metis nat.distinct(1) unat_0)

lemma next_counts:
  assumes "counts j c"
  shows "fst (next_serial c) = nth_serial j" "counts (Suc j) (snd (next_serial c))"
proof -
  show f: "fst (next_serial c) = nth_serial j"
    using assms nth_serial_nonzero [of j] by (auto simp: counts_def next_serial_def)
  have s: "snd (next_serial c) = nth_serial j + 1"
    using assms nth_serial_nonzero [of j] by (auto simp: counts_def next_serial_def)
  have "nth_serial j + 1 = word_of_nat (Suc (Suc (j mod (2 ^ 32 - 1))))" by (simp add: nth_serial_def)
  moreover have "nth_serial (Suc j) = (if Suc (j mod (2 ^ 32 - 1)) = 2 ^ 32 - 1 then 1
      else word_of_nat (Suc (Suc (j mod (2 ^ 32 - 1)))))"
    by (simp add: nth_serial_def mod_Suc)
  moreover have "Suc (j mod (2 ^ 32 - 1)) = 2 ^ 32 - 1 \<Longrightarrow> word_of_nat (Suc (Suc (j mod (2 ^ 32 - 1)))) = (0 :: u32)"
    by simp
  ultimately show "counts (Suc j) (snd (next_serial c))" using s by (auto simp: counts_def)
qed

lemma counts_some: "\<exists>j. counts j c"
proof (cases "c = 0")
  case True
  then show ?thesis by (auto simp: counts_def nth_serial_def intro: exI [of _ 0])
next
  case False
  then have "0 < unat c" "unat c < 2 ^ 32" by (simp_all add: unat_gt_0) (use unsigned_less [of c] in simp)
  then have "nth_serial (unat c - 1) = c" by (simp add: nth_serial_def)
  then show ?thesis by (metis counts_def)
qed

lemma new_headers_serials:
  "counts j c \<Longrightarrow> \<exists>ps. new_headers ne t k c = Ok ps \<and> map serial_num ps = map nth_serial [j ..< j + k]"
proof (induction k arbitrary: j c)
  case (Suc k)
  obtain s c' where n: "next_serial c = (s, c')" by (cases "next_serial c")
  then have "s = nth_serial j" "counts (Suc j) c'" using next_counts [OF Suc.prems] by simp_all
  moreover obtain ps where "new_headers ne t k c' = Ok ps" "map serial_num ps = map nth_serial [Suc j ..< Suc j + k]"
    using Suc.IH [OF calculation(2)] by blast
  moreover have "[j ..< j + Suc k] = j # [Suc j ..< Suc j + k]" using upt_conv_Cons [of j "j + Suc k"] by simp
  ultimately show ?case using n nth_serial_nonzero [of j] by (simp add: primary_new_def)
qed simp

lemma mod_inj:
  fixes x y m :: nat
  assumes "x mod m = y mod m" "j \<le> x" "x < j + k" "j \<le> y" "y < j + k" "k \<le> m"
  shows "x = y"
  using assms
proof (induction x y rule: linorder_wlog)
  case (le x y)
  then have "m dvd y - x" by (metis mod_eq_dvd_iff_nat)
  moreover have "y - x < m" using le by simp
  ultimately show ?case using le(1) by (metis diff_is_0_eq le_antisym nat_dvd_not_less not_gr_zero)
qed simp

text \<open>C32: The counter of serial numbers never panics and never gives 0, also when it wraps around, and
  the serials of any \<open>2^32 - 1\<close> successive messages are distinct.\<close>

theorem serials_distinct:
  assumes "k \<le> 2 ^ 32 - 1"
  shows "\<exists>ps. new_headers ne t k c = Ok ps \<and> length ps = k \<and> distinct (map serial_num ps) \<and> 0 \<notin> serial_num ` set ps"
proof -
  obtain j ps where ps: "new_headers ne t k c = Ok ps" "map serial_num ps = map nth_serial [j ..< j + k]"
    using counts_some new_headers_serials by blast
  have "x = y" if "nth_serial x = nth_serial y" "x < j + k" "y < j + k" "j \<le> x" "j \<le> y" for x y
  proof -
    have "x mod (2 ^ 32 - 1) = y mod (2 ^ 32 - 1)" using arg_cong [OF that(1), of unat] by (simp add: unat_nth_serial)
    then show ?thesis using mod_inj [OF _ that(4,2,5,3) assms] by blast
  qed
  then have "distinct (map nth_serial [j ..< j + k])" by (auto simp: distinct_map inj_on_def)
  moreover have "0 \<notin> serial_num ` set ps"
    unfolding list.set_map [symmetric] ps(2) using nth_serial_nonzero by (metis (no_types, lifting) imageE list.set_map)
  moreover have "length ps = k" using arg_cong [OF ps(2), of length] by simp
  ultimately show ?thesis using ps by metis
qed

theorem serials_distinct_witness:
  "\<exists>p q. new_headers LittleSig MethodCall 2 (-1) = Ok [p, q] \<and> serial_num p \<noteq> serial_num q \<and> serial_num q \<noteq> 0"
proof -
  obtain ps where "new_headers LittleSig MethodCall 2 (-1) = Ok ps" "length ps = 2" "distinct (map serial_num ps)"
      "0 \<notin> serial_num ` set ps"
    using serials_distinct [of 2 LittleSig MethodCall "-1"] by auto
  then show ?thesis by (auto simp: length_Suc_conv numeral_2_eq_2)
qed

end
