(* ===== verification/Socket.thy ===== *)
theory Socket
  imports Message_Props
begin

text \<open>
  The two halves of a socket (\<^verbatim>\<open>zbus/src/connection/socket\<close>): receiving a message from the chunks
  that \<^verbatim>\<open>recvmsg\<close> gives, sending one through short writes, and the sockets for TCP and Unix streams.

  \<^verbatim>\<open>recvmsg\<close> and \<^verbatim>\<open>sendmsg\<close> of a transport are parameters that thread the state of the transport;
  what the code relies on is stated by the locales \<open>read_half\<close> and \<open>write_half\<close>.
\<close>

section \<open>Operations\<close>

type_synonym 's recv = "'s \<Rightarrow> nat \<Rightarrow> (error, (byte list \<times> u32 list) \<times> 's) res"
type_synonym 'w send = "'w \<Rightarrow> byte list \<Rightarrow> u32 list \<Rightarrow> (error, nat \<times> 'w) res"

text \<open>The loops that fill the buffer: \<open>n\<close> bytes of it are still free.\<close>

function recv_loop ::
  "'s recv \<Rightarrow> nat \<Rightarrow> 's \<Rightarrow> byte list \<Rightarrow> u32 list \<Rightarrow> (error, (byte list \<times> u32 list) \<times> 's) res" where
  "recv_loop recv n s bytes fs =
     (if n = 0 then Ok ((bytes, fs), s)
      else
        case recv s n of
          Err e \<Rightarrow> Err e
        | Panic \<Rightarrow> Panic
        | Ok ((bs, fs'), s') \<Rightarrow>
            if bs = [] then Err IoError
            else recv_loop recv (n - length bs) s' (bytes @ bs) (fs @ fs'))"
  by pat_completeness auto
termination by (relation "measure (\<lambda>(recv, n, s, bytes, fs). n)") auto

declare recv_loop.simps [simp del]

text \<open>The bytes of the primary header and of the length of the fields, from those that are buffered or
  from the socket.\<close>

definition receive_min ::
  "'s recv \<Rightarrow> 's \<Rightarrow> byte list \<Rightarrow> (error, byte list \<times> u32 list \<times> byte list \<times> 's) res" where
  "receive_min recv s buf =
     (if length buf < MIN_MESSAGE_SIZE
      then bind_res (recv_loop recv (MIN_MESSAGE_SIZE - length buf) s buf []) (\<lambda>((bytes, fs), s). Ok (bytes, fs, [], s))
      else Ok (take MIN_MESSAGE_SIZE buf, [], drop MIN_MESSAGE_SIZE buf, s))"

text \<open>Descriptors that came with the handshake go before those of the message.\<close>

definition required_fds :: "fields \<Rightarrow> nat" where
  "required_fds f = (case unix_fds f of Some k \<Rightarrow> unat k | None \<Rightarrow> 0)"

definition take_fds ::
  "nom \<Rightarrow> endi \<Rightarrow> nat \<Rightarrow> endian \<Rightarrow> nat \<Rightarrow> byte list \<Rightarrow> u32 list \<Rightarrow> u32 list \<Rightarrow> (error, u32 list \<times> u32 list) res option" where
  "take_fds N E n e header_len bytes fs held =
     (if held = [] then Some (Ok (fs, held))
      else
        obind (omap_err VariantError (deserialize_for_signature FIELDS_SIGNATURE (deserialize_fields N E n)
          (new_fds (take (header_len - PRIMARY_HEADER_SIZE) (drop PRIMARY_HEADER_SIZE bytes))
             \<lparr>c_endian = e, c_position = PRIMARY_HEADER_SIZE\<rparr> []))) (\<lambda>(f, _).
        if required_fds f < length fs then Some (Err ExcessData)
        else
          let num_pending = required_fds f - length fs in
          if num_pending = 0 then Some (Err MissingParameter)
          else if length held < num_pending then Some Panic
          else Some (Ok (take num_pending held @ fs, drop num_pending held))))"

definition receive_message ::
  "nom \<Rightarrow> endi \<Rightarrow> (byte \<Rightarrow> byte option) \<Rightarrow> nat \<Rightarrow> 's recv \<Rightarrow> u64 \<Rightarrow> 's \<Rightarrow> byte list \<Rightarrow> u32 list
     \<Rightarrow> (error, message \<times> byte list \<times> u32 list \<times> 's) res option" where
  "receive_message N E B n recv seq s buf held =
     obind (Some (receive_min recv s buf)) (\<lambda>(bytes, fs, buf, s).
     obind (primary_read N E B bytes) (\<lambda>(p, fields_len).
     let header_len = MIN_MESSAGE_SIZE + unat fields_len;
         total_len = header_len + padding_for_8_bytes header_len + unat (body_len p) in
     if MAX_MESSAGE_SIZE < total_len then Some (Err ExcessData)
     else
       let to_take = min (total_len - length bytes) (length buf) in
       obind (Some (recv_loop recv (total_len - length (bytes @ take to_take buf)) s (bytes @ take to_take buf) fs))
         (\<lambda>((bytes, fs), s).
       obind (take_fds N E n (endian_of_sig (endian_sig p)) header_len bytes fs held) (\<lambda>(fs, held).
       obind (from_raw_parts N E B n (new_fds bytes \<lparr>c_endian = endian_of_sig (endian_sig p), c_position = 0\<rparr> fs) seq)
         (\<lambda>m. Some (Ok (m, drop to_take buf, held, s)))))))"

text \<open>\<^verbatim>\<open>send_message\<close>: the descriptors go with the first write. A \<^verbatim>\<open>sendmsg\<close> that keeps writing nothing
  would make the loop run forever.\<close>

partial_function (option) send_loop ::
  "'w send \<Rightarrow> byte list \<Rightarrow> u32 list \<Rightarrow> nat \<Rightarrow> 'w \<Rightarrow> (error, 'w) res option" where
  "send_loop send bytes fs pos w =
     (if pos < length bytes
      then case send w (drop pos bytes) (if pos = 0 then fs else []) of
             Ok (k, w') \<Rightarrow> send_loop send bytes fs (pos + k) w'
           | Err e \<Rightarrow> Some (Err e)
           | Panic \<Rightarrow> Some Panic
      else Some (Ok w))"

definition send_message :: "'w send \<Rightarrow> message \<Rightarrow> 'w \<Rightarrow> (error, 'w) res option" where
  "send_message send m w = send_loop send (data_bytes (msg_bytes m)) (data_fds (msg_bytes m)) 0 w"

text \<open>TCP streams (\<^verbatim>\<open>tcp.rs\<close>) on \<^verbatim>\<open>read\<close> and \<^verbatim>\<open>write\<close> of the asynchronous I/O crate.\<close>

definition tcp_recvmsg :: "('s \<Rightarrow> nat \<Rightarrow> (error, byte list \<times> 's) res) \<Rightarrow> 's recv" where
  "tcp_recvmsg read s n = bind_res (read s n) (\<lambda>(bs, s'). Ok ((bs, []), s'))"

definition tcp_sendmsg :: "('w \<Rightarrow> byte list \<Rightarrow> (error, nat \<times> 'w) res) \<Rightarrow> 'w send" where
  "tcp_sendmsg write w bs fs = (if fs \<noteq> [] then Err IoError else write w bs)"

text \<open>Unix streams (\<^verbatim>\<open>unix.rs\<close>) on the system calls as \<^verbatim>\<open>nix\<close> has them: \<^verbatim>\<open>recvmsg\<close> gives control
  messages, each either the descriptors of \<^verbatim>\<open>ScmRights\<close> or something unexpected, and \<^verbatim>\<open>sendmsg\<close>
  takes them.\<close>

datatype cmsg = ScmRights "u32 list" | Other_Cmsg

fun scm_rights :: "cmsg list \<Rightarrow> u32 list \<Rightarrow> (error, u32 list) res" where
  "scm_rights [] fs = Ok fs"
| "scm_rights (c # cs) fs = (case c of ScmRights fs' \<Rightarrow> scm_rights cs (fs @ fs') | Other_Cmsg \<Rightarrow> Err IoError)"

definition fd_recvmsg ::
  "('s \<Rightarrow> nat \<Rightarrow> (error, (byte list \<times> cmsg list) \<times> 's) res) \<Rightarrow> 's recv" where
  "fd_recvmsg sys s n =
     bind_res (sys s n) (\<lambda>((bs, cs), s').
     if bs = [] then Err IoError else bind_res (scm_rights cs []) (\<lambda>fs. Ok ((bs, fs), s')))"

definition fd_sendmsg ::
  "('w \<Rightarrow> byte list \<Rightarrow> cmsg list \<Rightarrow> (error, nat \<times> 'w) res) \<Rightarrow> 'w send" where
  "fd_sendmsg sys w bs fs =
     (case sys w bs (if fs \<noteq> [] then [ScmRights fs] else []) of
        Ok (n, w') \<Rightarrow> if n = 0 then Err IoError else Ok (n, w')
      | Err e \<Rightarrow> Err e
      | Panic \<Rightarrow> Panic)"

section \<open>What a transport promises\<close>

text \<open>A read half: \<open>stream\<close> and \<open>stream_fds\<close> are the bytes and descriptors still to come. A call with a
  non-empty buffer gives some of them, and at their end an error or no bytes.\<close>

locale read_half =
  fixes recv :: "'s recv" and stream :: "'s \<Rightarrow> byte list" and stream_fds :: "'s \<Rightarrow> u32 list"
  assumes recv_more: "0 < n \<Longrightarrow> stream s \<noteq> [] \<Longrightarrow> \<exists>bs fs s'. recv s n = Ok ((bs, fs), s') \<and> bs \<noteq> [] \<and>
      length bs \<le> n \<and> stream s = bs @ stream s' \<and> stream_fds s = fs @ stream_fds s'"
    and recv_eof: "0 < n \<Longrightarrow> stream s = [] \<Longrightarrow> recv s n = Err IoError \<or> (\<exists>fs s'. recv s n = Ok (([], fs), s'))"
begin

lemma recv_loop_short: "length (stream s) < n \<Longrightarrow> recv_loop recv n s b fs = Err IoError"
proof (induction n arbitrary: s b fs rule: less_induct)
  case (less n)
  show ?case
  proof (cases "stream s = []")
    case True
    then show ?thesis using recv_eof [of n s] less.prems by (auto simp: recv_loop.simps)
  next
    case False
    with recv_more [of n s] less.prems obtain bs fs' s' where r: "recv s n = Ok ((bs, fs'), s')" "bs \<noteq> []"
      "stream s = bs @ stream s'" by auto
    then have "recv_loop recv (n - length bs) s' (b @ bs) (fs @ fs') = Err IoError"
      using less.prems by (intro less.IH) auto
    with r less.prems show ?thesis by (simp add: recv_loop.simps [of recv n])
  qed
qed

lemma recv_loop_full:
  "n \<le> length (stream s) \<Longrightarrow> \<exists>fs' s'. recv_loop recv n s b fs = Ok ((b @ take n (stream s), fs @ fs'), s') \<and>
     stream s' = drop n (stream s) \<and> stream_fds s = fs' @ stream_fds s'"
proof (induction n arbitrary: s b fs rule: less_induct)
  case (less n)
  show ?case
  proof (cases "n = 0")
    case True
    then show ?thesis by (simp add: recv_loop.simps)
  next
    case False
    moreover have "stream s \<noteq> []" using False less.prems by auto
    ultimately obtain bs fs1 s1 where r: "recv s n = Ok ((bs, fs1), s1)" "bs \<noteq> []"
      "length bs \<le> n" "stream s = bs @ stream s1" "stream_fds s = fs1 @ stream_fds s1"
      using recv_more [of n s] by auto
    then have "n - length bs < n" "n - length bs \<le> length (stream s1)" using less.prems False by auto
    then obtain fs2 s2 where "recv_loop recv (n - length bs) s1 (b @ bs) (fs @ fs1) =
        Ok (((b @ bs) @ take (n - length bs) (stream s1), (fs @ fs1) @ fs2), s2)"
      "stream s2 = drop (n - length bs) (stream s1)" "stream_fds s1 = fs2 @ stream_fds s2"
      using less.IH [of "n - length bs" s1 "b @ bs" "fs @ fs1"] by blast
    with r False show ?thesis by (simp add: recv_loop.simps [of recv n])
  qed
qed

end

text \<open>A write half: \<open>sent\<close> and \<open>sent_fds\<close> are what has been written so far. A write of some bytes takes at
  least one of them, and the descriptors with it.\<close>

locale write_half =
  fixes send :: "'w send" and sent :: "'w \<Rightarrow> byte list" and sent_fds :: "'w \<Rightarrow> u32 list" and fds_ok :: "u32 list \<Rightarrow> bool"
  assumes send_some: "bs \<noteq> [] \<Longrightarrow> fds_ok fs \<Longrightarrow> \<exists>k w'. send w bs fs = Ok (k, w') \<and> 0 < k \<and> k \<le> length bs \<and>
      sent w' = sent w @ take k bs \<and> sent_fds w' = sent_fds w @ fs"
    and fds_ok_Nil: "fds_ok []"
begin

lemma send_rest:
  "0 < pos \<Longrightarrow> pos \<le> length bytes \<Longrightarrow> \<exists>w'. send_loop send bytes fs pos w = Some (Ok w') \<and>
     sent w' = sent w @ drop pos bytes \<and> sent_fds w' = sent_fds w"
proof (induction "length bytes - pos" arbitrary: pos w rule: less_induct)
  case less
  show ?case
  proof (cases "pos = length bytes")
    case True
    then show ?thesis by (simp add: send_loop.simps)
  next
    case False
    with send_some [OF _ fds_ok_Nil, of "drop pos bytes" w] less.prems obtain k w1
      where r: "send w (drop pos bytes) [] = Ok (k, w1)" "0 < k" "pos + k \<le> length bytes"
        "sent w1 = sent w @ take k (drop pos bytes)" "sent_fds w1 = sent_fds w @ []" by fastforce
    have "length bytes - (pos + k) < length bytes - pos" "0 < pos + k" using r less.prems False by auto
    then obtain w2 where "send_loop send bytes fs (pos + k) w1 = Some (Ok w2)"
        "sent w2 = sent w1 @ drop (pos + k) bytes" "sent_fds w2 = sent_fds w1"
      using less.hyps [of "pos + k" w1] r(3) by blast
    moreover have "take k (drop pos bytes) @ drop (pos + k) bytes = drop pos bytes"
      by (metis add.commute append_take_drop_id drop_drop)
    ultimately show ?thesis using r less.prems False by (simp add: send_loop.simps [of send bytes fs pos w])
  qed
qed

lemma send_all:
  assumes "bytes \<noteq> []" "fds_ok fs"
  shows "\<exists>w'. send_loop send bytes fs 0 w = Some (Ok w') \<and> sent w' = sent w @ bytes \<and> sent_fds w' = sent_fds w @ fs"
proof -
  obtain k w1 where r: "send w bytes fs = Ok (k, w1)" "0 < k" "k \<le> length bytes"
      "sent w1 = sent w @ take k bytes" "sent_fds w1 = sent_fds w @ fs"
    using send_some [OF assms, of w] by blast
  obtain w2 where "send_loop send bytes fs k w1 = Some (Ok w2)" "sent w2 = sent w1 @ drop k bytes" "sent_fds w2 = sent_fds w1"
    using send_rest [OF r(2,3), of fs w1] by blast
  with r assms(1) show ?thesis by (simp add: send_loop.simps [of send bytes fs 0 w])
qed

end

section \<open>Framing\<close>

text \<open>The first message of a stream of bytes, as its header says.\<close>

definition frame ::
  "nom \<Rightarrow> endi \<Rightarrow> (byte \<Rightarrow> byte option) \<Rightarrow> byte list \<Rightarrow> (error, primary_header \<times> nat \<times> byte list) res option" where
  "frame N E B bytes =
     (if length bytes < MIN_MESSAGE_SIZE then Some (Err IoError)
      else
        obind (primary_read N E B (take MIN_MESSAGE_SIZE bytes)) (\<lambda>(p, fields_len).
        let header_len = MIN_MESSAGE_SIZE + unat fields_len;
            total_len = header_len + padding_for_8_bytes header_len + unat (body_len p) in
        if MAX_MESSAGE_SIZE < total_len then Some (Err ExcessData)
        else if length bytes < total_len then Some (Err IoError)
        else Some (Ok (p, header_len, take total_len bytes))))"

context read_half
begin

lemma receive_min_short: "length (buf @ stream s) < MIN_MESSAGE_SIZE \<Longrightarrow> receive_min recv s buf = Err IoError"
  using recv_loop_short [of s "MIN_MESSAGE_SIZE - length buf" buf "[]"] by (auto simp: receive_min_def)

lemma receive_min_full:
  "MIN_MESSAGE_SIZE \<le> length (buf @ stream s) \<Longrightarrow> \<exists>fs buf' s'.
      receive_min recv s buf = Ok (take MIN_MESSAGE_SIZE (buf @ stream s), fs, buf', s') \<and>
      buf' @ stream s' = drop MIN_MESSAGE_SIZE (buf @ stream s) \<and> stream_fds s = fs @ stream_fds s'"
  using recv_loop_full [of "MIN_MESSAGE_SIZE - length buf" s buf "[]"]
  by (cases "length buf < MIN_MESSAGE_SIZE") (fastforce simp: receive_min_def)+

lemma read_rest:
  fixes buf s bytes t and fs :: "u32 list"
  defines "k \<equiv> min (t - length bytes) (length buf)"
  defines "r \<equiv> recv_loop recv (t - length (bytes @ take k buf)) s (bytes @ take k buf) fs"
  shows "length (bytes @ buf @ stream s) < t \<Longrightarrow> r = Err IoError"
    and "length bytes \<le> t \<Longrightarrow> t \<le> length (bytes @ buf @ stream s) \<Longrightarrow>
      \<exists>fs' s'. r = Ok ((take t (bytes @ buf @ stream s), fs @ fs'), s') \<and>
        drop k buf @ stream s' = drop t (bytes @ buf @ stream s) \<and> stream_fds s = fs' @ stream_fds s'"
proof -
  let ?n = "t - length (bytes @ take k buf)"
  show "length (bytes @ buf @ stream s) < t \<Longrightarrow> r = Err IoError"
    using recv_loop_short [of s ?n "bytes @ take k buf" fs] by (simp add: r_def k_def)
  assume t: "length bytes \<le> t" "t \<le> length (bytes @ buf @ stream s)"
  then have "?n \<le> length (stream s)" by (auto simp: k_def)
  then obtain fs' s' where *: "r = Ok (((bytes @ take k buf) @ take ?n (stream s), fs @ fs'), s')"
      "stream s' = drop ?n (stream s)" "stream_fds s = fs' @ stream_fds s'"
    using recv_loop_full [of ?n s "bytes @ take k buf" fs] unfolding r_def by blast
  show "\<exists>fs' s'. r = Ok ((take t (bytes @ buf @ stream s), fs @ fs'), s') \<and>
        drop k buf @ stream s' = drop t (bytes @ buf @ stream s) \<and> stream_fds s = fs' @ stream_fds s'"
    using * t by (cases "t - length bytes \<le> length buf") (auto simp: k_def)
qed

lemma receive_message_frame:
  assumes x_def: "x = buf @ stream s"
  shows "\<exists>fs buf' s'. receive_message N E B n recv seq s buf held =
     obind (frame N E B x) (\<lambda>(p, header_len, bytes).
     obind (take_fds N E n (endian_of_sig (endian_sig p)) header_len bytes fs held) (\<lambda>(fs', held').
     obind (from_raw_parts N E B n (new_fds bytes \<lparr>c_endian = endian_of_sig (endian_sig p), c_position = 0\<rparr> fs') seq)
       (\<lambda>m. Some (Ok (m, buf', held', s'))))) \<and>
     (\<forall>p l bytes. frame N E B x = Some (Ok (p, l, bytes)) \<longrightarrow>
       bytes @ buf' @ stream s' = x \<and> stream_fds s = fs @ stream_fds s')"
proof (cases "length x < MIN_MESSAGE_SIZE")
  case True
  then show ?thesis using receive_min_short [of buf s] by (simp add: receive_message_def frame_def x_def)
next
  case False
  obtain fs1 buf1 s1 where 1: "receive_min recv s buf = Ok (take MIN_MESSAGE_SIZE x, fs1, buf1, s1)"
      "buf1 @ stream s1 = drop MIN_MESSAGE_SIZE x" "stream_fds s = fs1 @ stream_fds s1"
    using False receive_min_full [of buf s] by (auto simp: x_def)
  have xs: "take MIN_MESSAGE_SIZE x @ buf1 @ stream s1 = x" using 1(2) by (metis append_take_drop_id)
  show ?thesis
  proof (cases "\<exists>p l. primary_read N E B (take MIN_MESSAGE_SIZE x) = Some (Ok (p, l))")
    case no: False
    have "primary_read N E B (take MIN_MESSAGE_SIZE x) = None \<or> primary_read N E B (take MIN_MESSAGE_SIZE x) = Some Panic \<or>
        (\<exists>e. primary_read N E B (take MIN_MESSAGE_SIZE x) = Some (Err e))"
      using no by (metis not_None_eq old.prod.exhaust res.exhaust)
    then show ?thesis using False by (auto simp: receive_message_def frame_def 1(1))
  next
    case True
    then obtain p l where p: "primary_read N E B (take MIN_MESSAGE_SIZE x) = Some (Ok (p, l))" by blast
    define hl where "hl = MIN_MESSAGE_SIZE + unat l"
    define t where "t = hl + padding_for_8_bytes hl + unat (body_len p)"
    have m: "length (take MIN_MESSAGE_SIZE x) \<le> t" using False by (simp add: t_def hl_def)
    note rest = read_rest [where t = t and buf = buf1 and bytes = "take MIN_MESSAGE_SIZE x" and s = s1 and fs = fs1, unfolded xs]
    show ?thesis
    proof (cases "MAX_MESSAGE_SIZE < t \<or> length x < t")
      case True
      then show ?thesis
        using False p rest(1) by (auto simp: receive_message_def frame_def 1(1) hl_def [symmetric] t_def [symmetric] Let_def)
    next
      case ok: False
      with rest(2) m obtain fs2 s2 where 2: "recv_loop recv
          (t - length (take MIN_MESSAGE_SIZE x @ take (min (t - length (take MIN_MESSAGE_SIZE x)) (length buf1)) buf1)) s1
          (take MIN_MESSAGE_SIZE x @ take (min (t - length (take MIN_MESSAGE_SIZE x)) (length buf1)) buf1) fs1 =
          Ok ((take t x, fs1 @ fs2), s2)"
        "drop (min (t - length (take MIN_MESSAGE_SIZE x)) (length buf1)) buf1 @ stream s2 = drop t x"
        "stream_fds s1 = fs2 @ stream_fds s2" by (auto simp del: append_assoc)
      have "frame N E B x = Some (Ok (p, hl, take t x))"
        using False ok p by (simp add: frame_def hl_def [symmetric] t_def [symmetric] Let_def)
      then show ?thesis
        using p 1(3) 2 ok
        by (intro exI [of _ "fs1 @ fs2"] exI [of _ "drop (min (t - length (take MIN_MESSAGE_SIZE x)) (length buf1)) buf1"] exI [of _ s2])
          (simp add: receive_message_def 1(1) hl_def [symmetric] t_def [symmetric] Let_def)
    qed
  qed
qed

end

section \<open>Frames of messages\<close>

context wire_laws
begin

lemma primary_read_header:
  assumes "serial_num (primary h) \<noteq> 0" "B (flags (primary h)) = Some (flags (primary h))"
    "enc_header E h (header_endian h) 0 = Ok hb"
  obtains l where "primary_read N E B (take 16 (hb @ r)) = Some (Ok (primary h, l))" "length hb = 16 + unat l"
proof -
  let ?e = "header_endian h"
  obtain pb l arr where hb: "enc_primary E (primary h) ?e 0 = Ok pb"
      "hb = pb @ write_u32 E ?e l @ arr" "length hb = 16 + unat l"
    using header_bytes [OF assms(3)] by blast
  note pb = primary_bytes [OF hb(1)]
  have t: "take 16 (hb @ r) = pb @ write_u32 E ?e l" using pb(1) hb(2) by simp
  obtain rest where rest: "pb @ write_u32 E ?e l = endian_sig_repr (endian_sig (primary h)) # rest"
    using pb by (cases pb) auto
  have "primary_read N E B (pb @ write_u32 E ?e l) = Some (Ok (primary h, l))"
    using read_from_data_header [where B = B, OF assms(1,2) hb(1), of l "[]" "[]"] rest
    by (simp add: primary_read_def endian_sig_repr_inverse)
  with that t hb(3) show thesis by simp
qed

lemma frame_built:
  assumes "writes f sg no_depths g" "header_ok h" "unix_fds (header_fields h) = None" "\<And>b. code b < 8 \<Longrightarrow> B b = Some b"
    "build N E D sg f h = Ok m"
  obtains hl where "frame N E B (data_bytes (msg_bytes m) @ rest) = Some (Ok (msg_primary m, hl, data_bytes (msg_bytes m)))"
    "msg_bytes m = new_fds (data_bytes (msg_bytes m))
      \<lparr>c_endian = endian_of_sig (endian_sig (msg_primary m)), c_position = 0\<rparr> []"
proof -
  obtain body hb where b: "enc_header E (built_header sg (length body) h) (header_endian h) 0 = Ok hb"
    "length body < 2 ^ 32" "length hb + padding (length hb) 8 + length body \<le> MAX_MESSAGE_SIZE"
    "m = \<lparr>msg_primary = primary (built_header sg (length body) h), msg_quick_fields = None,
      msg_bytes = new_fds (hb @ pad (length hb) 8 @ body) (header_ctxt h) [],
      msg_body_offset = length hb + padding (length hb) 8, msg_recv_seq = 0\<rparr>"
    by (rule build_Ok [OF assms(1,3,5)])
  let ?h = "built_header sg (length body) h" and ?bs = "hb @ pad (length hb) 8 @ body"
  have "serial_num (primary ?h) \<noteq> 0" "B (flags (primary ?h)) = Some (flags (primary ?h))"
    using assms(2,4) by (simp_all add: header_ok_def)
  then obtain l where l: "primary_read N E B (take 16 (hb @ pad (length hb) 8 @ body @ rest)) = Some (Ok (primary ?h, l))"
      "length hb = 16 + unat l"
    using primary_read_header [where h = ?h and B = B and hb = hb and r = "pad (length hb) 8 @ body @ rest"] b(1) by auto
  have len: "unat (body_len (primary ?h)) = length body"
    using b(2) by (simp add: unsigned_of_nat take_bit_nat_eq_self)
  have "frame N E B (?bs @ rest) = Some (Ok (primary ?h, length hb, ?bs))"
    using l b(3) len by (simp add: frame_def MIN_MESSAGE_SIZE_def Let_def padding_for_8_bytes_def del: built_header_sel)
  then show thesis using that b(4) by (simp add: header_ctxt_def)
qed

end

context read_half
begin

lemma receive_first:
  assumes "buf @ stream s = bytes @ rest" "stream_fds s = []"
    "frame N E B (bytes @ rest) = Some (Ok (p, hl, bytes))"
  shows "\<exists>buf' s'. receive_message N E B n recv seq s buf [] =
      obind (from_raw_parts N E B n (new_fds bytes \<lparr>c_endian = endian_of_sig (endian_sig p), c_position = 0\<rparr> []) seq)
        (\<lambda>m. Some (Ok (m, buf', [], s'))) \<and> buf' @ stream s' = rest \<and> stream_fds s' = []"
  using receive_message_frame [OF assms(1) [symmetric], where N = N and E = E and B = B and n = n and seq = seq and held = "[]"]
    assms(2,3) by (auto simp: take_fds_def)

lemma receive_end: "buf @ stream s = [] \<Longrightarrow> receive_message N E B n recv seq s buf [] = Some (Err IoError)"
  using receive_min_short [of buf s] by (simp add: receive_message_def MIN_MESSAGE_SIZE_def)

end

section \<open>The transports keep the promises\<close>

text \<open>A byte stream of the I/O crate, and the system calls on a Unix socket, whose control messages are
  descriptors.\<close>

locale byte_reader =
  fixes read :: "'s \<Rightarrow> nat \<Rightarrow> (error, byte list \<times> 's) res" and stream :: "'s \<Rightarrow> byte list"
  assumes read_more: "0 < n \<Longrightarrow> stream s \<noteq> [] \<Longrightarrow>
      \<exists>bs s'. read s n = Ok (bs, s') \<and> bs \<noteq> [] \<and> length bs \<le> n \<and> stream s = bs @ stream s'"
    and read_eof: "0 < n \<Longrightarrow> stream s = [] \<Longrightarrow> \<exists>s'. read s n = Ok ([], s')"

sublocale byte_reader \<subseteq> tcp: read_half "tcp_recvmsg read" stream "\<lambda>_. []"
proof (unfold_locales, goal_cases)
  case (1 n s)
  from read_more [OF this] show ?case by (auto simp: tcp_recvmsg_def)
next
  case (2 n s)
  from read_eof [OF this] show ?case by (auto simp: tcp_recvmsg_def)
qed

locale byte_writer =
  fixes put :: "'w \<Rightarrow> byte list \<Rightarrow> (error, nat \<times> 'w) res" and sent :: "'w \<Rightarrow> byte list"
  assumes write_some: "bs \<noteq> [] \<Longrightarrow> \<exists>k w'. put w bs = Ok (k, w') \<and> 0 < k \<and> k \<le> length bs \<and> sent w' = sent w @ take k bs"

sublocale byte_writer \<subseteq> tcp: write_half "tcp_sendmsg put" sent "\<lambda>_. []" "\<lambda>fs. fs = []"
proof (unfold_locales, goal_cases)
  case (1 bs fs w)
  from write_some [OF this(1), of w] 1(2) show ?case by (auto simp: tcp_sendmsg_def)
qed simp

locale unix_reader =
  fixes sys :: "'s \<Rightarrow> nat \<Rightarrow> (error, (byte list \<times> cmsg list) \<times> 's) res"
    and stream :: "'s \<Rightarrow> byte list" and stream_fds :: "'s \<Rightarrow> u32 list"
  assumes sys_more: "0 < n \<Longrightarrow> stream s \<noteq> [] \<Longrightarrow> \<exists>bs fs s'. sys s n = Ok ((bs, map ScmRights fs), s') \<and> bs \<noteq> [] \<and>
      length bs \<le> n \<and> stream s = bs @ stream s' \<and> stream_fds s = concat fs @ stream_fds s'"
    and sys_eof: "0 < n \<Longrightarrow> stream s = [] \<Longrightarrow> \<exists>fs s'. sys s n = Ok (([], fs), s')"

lemma scm_rights_map: "scm_rights (map ScmRights fs) gs = Ok (gs @ concat fs)"
  by (induction fs arbitrary: gs) auto

sublocale unix_reader \<subseteq> unix: read_half "fd_recvmsg sys" stream stream_fds
proof (unfold_locales, goal_cases)
  case (1 n s)
  from sys_more [OF this] show ?case by (auto simp: fd_recvmsg_def scm_rights_map)
next
  case (2 n s)
  from sys_eof [OF this] show ?case by (auto simp: fd_recvmsg_def)
qed

locale unix_writer =
  fixes sys :: "'w \<Rightarrow> byte list \<Rightarrow> cmsg list \<Rightarrow> (error, nat \<times> 'w) res"
    and sent :: "'w \<Rightarrow> byte list" and sent_cmsgs :: "'w \<Rightarrow> cmsg list"
  assumes sys_write: "bs \<noteq> [] \<Longrightarrow> \<exists>k w'. sys w bs cs = Ok (k, w') \<and> 0 < k \<and> k \<le> length bs \<and>
      sent w' = sent w @ take k bs \<and> sent_cmsgs w' = sent_cmsgs w @ cs"

definition cmsg_fds :: "cmsg list \<Rightarrow> u32 list" where
  "cmsg_fds cs = concat (map (\<lambda>c. case c of ScmRights fs \<Rightarrow> fs | Other_Cmsg \<Rightarrow> []) cs)"

sublocale unix_writer \<subseteq> unix: write_half "fd_sendmsg sys" sent "\<lambda>w. cmsg_fds (sent_cmsgs w)" "\<lambda>_. True"
proof (unfold_locales, goal_cases)
  case (1 bs fs w)
  from sys_write [OF this(1), of w "if fs \<noteq> [] then [ScmRights fs] else []"] show ?case
    by (auto simp: fd_sendmsg_def cmsg_fds_def)
qed simp

text \<open>A transport that hands out its bytes in chunks of given sizes, the descriptors with the first one,
  and takes them in such chunks.\<close>

type_synonym chunked = "byte list \<times> u32 list \<times> nat list"

fun chunk_size :: "nat list \<Rightarrow> nat \<Rightarrow> nat" where
  "chunk_size [] n = n"
| "chunk_size (k # _) n = min n (Suc k)"

fun chunk_sys :: "chunked \<Rightarrow> nat \<Rightarrow> (error, (byte list \<times> cmsg list) \<times> chunked) res" where
  "chunk_sys (bs, fs, ks) n =
     Ok ((take (chunk_size ks n) bs, map ScmRights (if fs = [] then [] else [fs])), (drop (chunk_size ks n) bs, [], tl ks))"

definition chunk_write :: "(byte list \<times> cmsg list \<times> nat list) \<Rightarrow> byte list \<Rightarrow> cmsg list
    \<Rightarrow> (error, nat \<times> (byte list \<times> cmsg list \<times> nat list)) res" where
  "chunk_write w bs cs = (case w of (sent, cms, ks) \<Rightarrow>
     let k = min (length bs) (chunk_size ks (length bs)) in Ok (k, (sent @ take k bs, cms @ cs, tl ks)))"

lemma chunk_size_bounds: "0 < n \<Longrightarrow> 0 < chunk_size ks n \<and> chunk_size ks n \<le> n"
  by (cases ks) auto

interpretation cr: unix_reader chunk_sys fst "\<lambda>(_, fs, _). fs"
proof (unfold_locales, goal_cases)
  case (1 n s)
  obtain bs fs ks where s: "s = (bs, fs, ks)" by (cases s)
  with 1 chunk_size_bounds [of n ks] show ?case by (cases "fs = []") (auto intro: exI [of _ "[fs]"] exI [of _ "[]"])
next
  case (2 n s)
  then show ?case by (cases s) auto
qed

interpretation cw: unix_writer chunk_write fst "\<lambda>(_, cs, _). cs"
proof (unfold_locales, goal_cases)
  case (1 bs w cs)
  obtain a b ks where "w = (a, b, ks)" by (cases w)
  with 1 chunk_size_bounds [of "length bs" ks] show ?case by (auto simp: chunk_write_def Let_def)
qed

text \<open>The same without descriptors.\<close>

definition chunk_read :: "byte list \<times> nat list \<Rightarrow> nat \<Rightarrow> (error, byte list \<times> (byte list \<times> nat list)) res" where
  "chunk_read s n = (case s of (bs, ks) \<Rightarrow> Ok (take (chunk_size ks n) bs, (drop (chunk_size ks n) bs, tl ks)))"

definition chunk_append :: "byte list \<times> nat list \<Rightarrow> byte list \<Rightarrow> (error, nat \<times> (byte list \<times> nat list)) res" where
  "chunk_append w bs = (case w of (sent, ks) \<Rightarrow>
     let k = min (length bs) (chunk_size ks (length bs)) in Ok (k, (sent @ take k bs, tl ks)))"

interpretation tr: byte_reader chunk_read fst
proof (unfold_locales, goal_cases)
  case (1 n s)
  then show ?case using chunk_size_bounds [of n "snd s"] by (cases s) (auto simp: chunk_read_def)
qed (auto simp: chunk_read_def)

interpretation tw: byte_writer chunk_append fst
proof (unfold_locales, goal_cases)
  case (1 bs w)
  then show ?case using chunk_size_bounds [of "length bs" "snd w"] by (cases w) (auto simp: chunk_append_def Let_def)
qed

section \<open>Properties\<close>

text \<open>C8: What \<^verbatim>\<open>receive_message\<close> returns depends only on the bytes to come, those left from the handshake
  first, and not on the chunks in which \<^verbatim>\<open>recvmsg\<close> gives them: it takes the first message as its header
  delimits it, with the errors for a header or a message that is cut short or too large, and leaves
  all the bytes behind it.\<close>

theorem receive_message_chunks:
  assumes "read_half recv stream stream_fds"
  shows "\<exists>fs buf' s'. receive_message N E B n recv seq s buf held =
     obind (frame N E B (buf @ stream s)) (\<lambda>(p, header_len, bytes).
     obind (take_fds N E n (endian_of_sig (endian_sig p)) header_len bytes fs held) (\<lambda>(fs', held').
     obind (from_raw_parts N E B n (new_fds bytes \<lparr>c_endian = endian_of_sig (endian_sig p), c_position = 0\<rparr> fs') seq)
       (\<lambda>m. Some (Ok (m, buf', held', s'))))) \<and>
     (\<forall>p l bytes. frame N E B (buf @ stream s) = Some (Ok (p, l, bytes)) \<longrightarrow>
       bytes @ buf' @ stream s' = buf @ stream s \<and> stream_fds s = fs @ stream_fds s')"
  by (rule read_half.receive_message_frame [OF assms refl])

theorem receive_message_chunks_witness:
  "receive_message nom_ref endi_ref from_bits 20 (fd_recvmsg chunk_sys) 1 (''l'', [], [0, 3]) ''xy'' [] = Some (Err IoError)"
proof -
  have "frame nom_ref endi_ref from_bits ''xyl'' = Some (Err IoError)" by (simp add: frame_def MIN_MESSAGE_SIZE_def)
  then show ?thesis
    using receive_message_chunks [OF cr.unix.read_half_axioms, of nom_ref endi_ref from_bits 20 1 "(''l'', [], [0, 3])" "''xy''" "[]"]
    by auto
qed

text \<open>C27: \<^verbatim>\<open>send_message\<close> ends and writes all the bytes of the message, in order and once, however short the
  single writes are, and the descriptors once.\<close>

theorem send_message_all:
  assumes "write_half send sent sent_fds fds_ok" "data_bytes (msg_bytes m) \<noteq> []" "fds_ok (data_fds (msg_bytes m))"
  shows "\<exists>w'. send_message send m w = Some (Ok w') \<and> sent w' = sent w @ data_bytes (msg_bytes m) \<and>
    sent_fds w' = sent_fds w @ data_fds (msg_bytes m)"
  unfolding send_message_def by (rule write_half.send_all [OF assms])

definition raw_message :: message where
  "raw_message = \<lparr>msg_primary = primary sample_header, msg_quick_fields = None,
     msg_bytes = new_fds ''hello'' \<lparr>c_endian = Little, c_position = 0\<rparr> [7], msg_body_offset = 0, msg_recv_seq = 0\<rparr>"

theorem send_message_all_witness:
  "\<exists>w. send_message (fd_sendmsg chunk_write) raw_message ([], [], [1, 0]) = Some (Ok w) \<and> fst w = ''hello''"
  using send_message_all [OF cw.unix.write_half_axioms, of raw_message "([], [], [1, 0])"]
  by (auto simp: raw_message_def)

end
