(* ===== verification/Match_Rule.thy ===== *)
theory Match_Rule
  imports Message_Props
begin

text \<open>
  Match rules (\<^verbatim>\<open>zbus/src/match_rule\<close>): the rule and its builder, the matching of a message
  against a rule, and the text of a rule, written by \<^verbatim>\<open>Display\<close> and read by \<^verbatim>\<open>TryFrom<&str>\<close>.
  The index of an argument is an \<^verbatim>\<open>u8\<close>.
\<close>

section \<open>Rules and their builder\<close>

datatype path_spec = Path_Spec string | PathNamespace string

record match_rule =
  r_type :: "msg_type option"
  r_sender :: "bus_name option"
  r_interface :: "string option"
  r_member :: "string option"
  r_path_spec :: "path_spec option"
  r_destination :: "string option"
  r_args :: "(nat \<times> string) list"
  r_arg_paths :: "(nat \<times> string) list"
  r_arg0ns :: "string option"

definition MAX_ARGS :: nat where "MAX_ARGS = 64"

definition rule_new :: match_rule where
  "rule_new = \<lparr>r_type = None, r_sender = None, r_interface = None, r_member = None, r_path_spec = None,
     r_destination = None, r_args = [], r_arg_paths = [], r_arg0ns = None\<rparr>"

definition rule_sender :: "string \<Rightarrow> match_rule \<Rightarrow> (error, match_rule) res" where
  "rule_sender x r = bind_res (map_err NamesError (bus_name_try_from x)) (\<lambda>b. Ok (r\<lparr>r_sender := Some b\<rparr>))"

definition rule_msg_type :: "msg_type \<Rightarrow> match_rule \<Rightarrow> match_rule" where
  "rule_msg_type t r = r\<lparr>r_type := Some t\<rparr>"

definition rule_interface :: "string \<Rightarrow> match_rule \<Rightarrow> (error, match_rule) res" where
  "rule_interface x r = bind_res (names_check (ensure_correct_interface_name x)) (\<lambda>_. Ok (r\<lparr>r_interface := Some x\<rparr>))"

definition rule_member :: "string \<Rightarrow> match_rule \<Rightarrow> (error, match_rule) res" where
  "rule_member x r = bind_res (names_check (ensure_correct_member_name x)) (\<lambda>_. Ok (r\<lparr>r_member := Some x\<rparr>))"

definition rule_path :: "string \<Rightarrow> match_rule \<Rightarrow> (error, match_rule) res" where
  "rule_path x r = bind_res (map_err VariantError (object_path_try_from x)) (\<lambda>p. Ok (r\<lparr>r_path_spec := Some (Path_Spec p)\<rparr>))"

definition rule_path_namespace :: "string \<Rightarrow> match_rule \<Rightarrow> (error, match_rule) res" where
  "rule_path_namespace x r =
     bind_res (map_err VariantError (object_path_try_from x)) (\<lambda>p. Ok (r\<lparr>r_path_spec := Some (PathNamespace p)\<rparr>))"

definition rule_destination :: "string \<Rightarrow> match_rule \<Rightarrow> (error, match_rule) res" where
  "rule_destination x r = bind_res (names_check (ensure_correct_unique_name x)) (\<lambda>_. Ok (r\<lparr>r_destination := Some x\<rparr>))"

text \<open>The position that \<^verbatim>\<open>binary_search_by\<close> finds in a list that is sorted by index: of the entry with
  that index, or where it belongs. An entry that is there is removed before the new one goes in.\<close>

definition binary_search :: "nat \<Rightarrow> (nat \<times> 'a) list \<Rightarrow> nat + nat" where
  "binary_search idx xs =
     (let i = length (takeWhile (\<lambda>(j, _). j < idx) xs) in
      if i < length xs \<and> fst (xs ! i) = idx then Inl i else Inr i)"

definition set_arg :: "nat \<Rightarrow> 'a \<Rightarrow> (nat \<times> 'a) list \<Rightarrow> (nat \<times> 'a) list" where
  "set_arg idx v xs =
     (let (i, xs) = (case binary_search idx xs of Inl i \<Rightarrow> (i, take i xs @ drop (Suc i) xs) | Inr i \<Rightarrow> (i, xs)) in
      take i xs @ (idx, v) # drop i xs)"

definition rule_arg :: "nat \<Rightarrow> string \<Rightarrow> match_rule \<Rightarrow> (error, match_rule) res" where
  "rule_arg idx x r =
     (if MAX_ARGS \<le> idx then Err InvalidMatchRule else Ok (r\<lparr>r_args := set_arg idx x (r_args r)\<rparr>))"

definition rule_add_arg :: "string \<Rightarrow> match_rule \<Rightarrow> (error, match_rule) res" where
  "rule_add_arg x r = rule_arg (length (r_args r) mod 256) x r"

definition rule_arg_path :: "nat \<Rightarrow> string \<Rightarrow> match_rule \<Rightarrow> (error, match_rule) res" where
  "rule_arg_path idx x r =
     (if MAX_ARGS \<le> idx then Err InvalidMatchRule
      else bind_res (map_err VariantError (object_path_try_from x)) (\<lambda>p.
        Ok (r\<lparr>r_arg_paths := set_arg idx p (r_arg_paths r)\<rparr>)))"

definition rule_add_arg_path :: "string \<Rightarrow> match_rule \<Rightarrow> (error, match_rule) res" where
  "rule_add_arg_path x r = rule_arg_path (length (r_arg_paths r) mod 256) x r"

fun valid_first_char :: "bool \<Rightarrow> string \<Rightarrow> bool" where
  "valid_first_char is_unique [] = False"
| "valid_first_char is_unique (c # _) =
     (if c = CHR ''.'' then False else if is_ascii_digit c \<and> \<not> is_unique then False else True)"

definition valid_arg0ns :: "string \<Rightarrow> bool" where
  "valid_arg0ns ns \<longleftrightarrow>
     (let (is_unique, s) = (case ns of c # cs \<Rightarrow> if c = CHR '':'' then (True, cs) else (False, ns) | [] \<Rightarrow> (False, ns)) in
      ns \<noteq> [] \<and> length ns \<le> 255 \<and> valid_first_char is_unique s \<and>
      list_all (valid_first_char is_unique) (split_on (CHR ''.'') s) \<and>
      list_all (\<lambda>c. is_ascii_alphanumeric c \<or> c = CHR ''-'' \<or> c = CHR ''_'' \<or> c = CHR ''.'') s)"

definition rule_arg0ns :: "string \<Rightarrow> match_rule \<Rightarrow> (error, match_rule) res" where
  "rule_arg0ns ns r = (if valid_arg0ns ns then Ok (r\<lparr>r_arg0ns := Some ns\<rparr>) else Err InvalidMatchRule)"

section \<open>Matching\<close>

definition deserialize_bus_name :: "endi \<Rightarrow> bus_name dm" where
  "deserialize_bus_name E =
     dbind (deserialize_str E) (\<lambda>s. lift (map_err (\<lambda>_. zerror.Message Custom) (bus_name_try_from s)))"

text \<open>The checks of the header, in the order of the code. The sender of a message is always a unique name.\<close>

definition header_matches :: "match_rule \<Rightarrow> header \<Rightarrow> bool" where
  "header_matches r h =
     (let f = header_fields h in
      (case r_type r of Some t \<Rightarrow> t = msg_type (primary h) | None \<Rightarrow> True) \<and>
      (case r_sender r of Some (Unique s) \<Rightarrow> Some s = sender f | _ \<Rightarrow> True) \<and>
      (case r_interface r of Some i \<Rightarrow> interface f = Some i | None \<Rightarrow> True) \<and>
      (case r_member r of Some m \<Rightarrow> member f = Some m | None \<Rightarrow> True) \<and>
      (case r_destination r of Some d \<Rightarrow> (case destination f of Some (Unique s) \<Rightarrow> d = s | _ \<Rightarrow> True) | None \<Rightarrow> True) \<and>
      (case r_path_spec r of
         None \<Rightarrow> True
       | Some (Path_Spec p) \<Rightarrow> path f = Some p
       | Some (PathNamespace ns) \<Rightarrow> (case path f of Some p \<Rightarrow> prefix ns p | None \<Rightarrow> False)))"

definition in_namespace :: "string \<Rightarrow> string \<Rightarrow> bool" where
  "in_namespace ns x =
     (prefix ns x \<and> (let rest = drop (length ns) x in rest = [] \<or> prefix ''.'' rest))"

definition arg0_matches ::
  "nom \<Rightarrow> endi \<Rightarrow> (byte \<Rightarrow> byte option) \<Rightarrow> nat \<Rightarrow> match_rule \<Rightarrow> message \<Rightarrow> (error, bool) res option" where
  "arg0_matches N E B n r m =
     (case r_arg0ns r of
        None \<Rightarrow> Some (Ok True)
      | Some ns \<Rightarrow>
          obind (message_body N E B n m) (\<lambda>(dat, _).
          case deserialize_for_signature signature.Str (deserialize_bus_name E) dat of
            None \<Rightarrow> None
          | Some Panic \<Rightarrow> Some Panic
          | Some (Err _) \<Rightarrow> Some (Ok False)
          | Some (Ok (b, _)) \<Rightarrow> Some (Ok (in_namespace ns (bus_name_as_str b)))))"

fun args_match :: "(nat \<times> string) list \<Rightarrow> zvalue list \<Rightarrow> bool" where
  "args_match [] args = True"
| "args_match ((i, x) # xs) args =
     (if i < length args then (case args ! i of Str y \<Rightarrow> x = y \<and> args_match xs args | _ \<Rightarrow> False) else False)"

fun arg_paths_match :: "(nat \<times> string) list \<Rightarrow> zvalue list \<Rightarrow> bool" where
  "arg_paths_match [] args = True"
| "arg_paths_match ((i, x) # xs) args =
     (if i < length args then (case args ! i of ObjectPath y \<Rightarrow> x = y \<and> arg_paths_match xs args | _ \<Rightarrow> False) else False)"

definition body_matches ::
  "nom \<Rightarrow> endi \<Rightarrow> (byte \<Rightarrow> byte option) \<Rightarrow> nat \<Rightarrow> match_rule \<Rightarrow> message \<Rightarrow> (error, bool) res option" where
  "body_matches N E B n r m =
     (if r_args r = [] \<and> r_arg_paths r = [] then Some (Ok True)
      else
        case body_deserialize N E B n m of
          None \<Rightarrow> None
        | Some Panic \<Rightarrow> Some Panic
        | Some (Ok (Structure fs s)) \<Rightarrow> Some (Ok (args_match (r_args r) fs \<and> arg_paths_match (r_arg_paths r) fs))
        | Some _ \<Rightarrow> Some (Ok False))"

definition matches ::
  "nom \<Rightarrow> endi \<Rightarrow> (byte \<Rightarrow> byte option) \<Rightarrow> nat \<Rightarrow> match_rule \<Rightarrow> message \<Rightarrow> (error, bool) res option" where
  "matches N E B n r m =
     obind (message_header N E B n m) (\<lambda>h.
     if \<not> header_matches r h then Some (Ok False)
     else obind (arg0_matches N E B n r m) (\<lambda>a.
       if \<not> a then Some (Ok False) else body_matches N E B n r m))"

section \<open>The text of a rule\<close>

definition type_str :: "msg_type \<Rightarrow> string" where
  "type_str t = (case t of ErrorType \<Rightarrow> ''error'' | MethodCall \<Rightarrow> ''method_call'' | MethodReturn \<Rightarrow> ''method_return''
     | Signal \<Rightarrow> ''signal'')"

text \<open>The components in the order in which they are written, each as \<open>key='value'\<close>, with commas between.\<close>

definition quote :: byte where "quote = CHR 0x27"

definition write_component :: "string \<Rightarrow> string \<Rightarrow> string" where
  "write_component key v = key @ CHR ''='' # quote # v @ [quote]"

definition opt_component :: "string \<Rightarrow> string option \<Rightarrow> string list" where
  "opt_component key v = (case v of Some x \<Rightarrow> [write_component key x] | None \<Rightarrow> [])"

definition components :: "match_rule \<Rightarrow> string list" where
  "components r =
     opt_component ''type'' (map_option type_str (r_type r)) @
     opt_component ''sender'' (map_option bus_name_as_str (r_sender r)) @
     opt_component ''interface'' (r_interface r) @
     opt_component ''member'' (r_member r) @
     opt_component ''destination'' (r_destination r) @
     (case r_path_spec r of
        None \<Rightarrow> []
      | Some (Path_Spec p) \<Rightarrow> [write_component ''path'' p]
      | Some (PathNamespace ns) \<Rightarrow> [write_component ''path_namespace'' ns]) @
     map (\<lambda>(i, x). write_component (''arg'' @ show_nat i) x) (r_args r) @
     map (\<lambda>(i, x). write_component (''arg'' @ show_nat i @ ''path'') x) (r_arg_paths r) @
     opt_component ''arg0namespace'' (r_arg0ns r)"

fun write_commas :: "string list \<Rightarrow> string" where
  "write_commas [] = []"
| "write_commas [c] = c"
| "write_commas (c # cs) = c @ CHR '','' # write_commas cs"

definition rule_to_string :: "match_rule \<Rightarrow> string" where
  "rule_to_string r = write_commas (components r)"

fun find_sub :: "string \<Rightarrow> string \<Rightarrow> nat option" where
  "find_sub pat [] = (if pat = [] then Some 0 else None)"
| "find_sub pat (c # cs) = (if prefix pat (c # cs) then Some 0 else map_option Suc (find_sub pat cs))"

definition parse_type :: "string \<Rightarrow> (error, msg_type) res" where
  "parse_type v =
     (if v = ''error'' then Ok ErrorType else if v = ''method_call'' then Ok MethodCall
      else if v = ''method_return'' then Ok MethodReturn else if v = ''signal'' then Ok Signal
      else Err InvalidMatchRule)"

definition parse_index :: "string \<Rightarrow> (error, nat) res" where
  "parse_index s = ok_or (parse_uint 255 s) InvalidMatchRule"

definition parse_key :: "string \<Rightarrow> string \<Rightarrow> match_rule \<Rightarrow> (error, match_rule) res" where
  "parse_key key v r =
     (if key = ''type'' then bind_res (parse_type v) (\<lambda>t. Ok (rule_msg_type t r))
      else if key = ''sender'' then rule_sender v r
      else if key = ''interface'' then rule_interface v r
      else if key = ''member'' then rule_member v r
      else if key = ''path'' then rule_path v r
      else if key = ''path_namespace'' then rule_path_namespace v r
      else if key = ''destination'' then rule_destination v r
      else if key = ''arg0namespace'' then rule_arg0ns v r
      else if prefix ''arg'' key then
        (case find_sub ''path'' key of
           Some i \<Rightarrow> bind_res (parse_index (take (i - 3) (drop 3 key))) (\<lambda>idx. rule_arg_path idx v r)
         | None \<Rightarrow> bind_res (parse_index (drop 3 key)) (\<lambda>idx. rule_arg idx v r))
      else Err InvalidMatchRule)"

definition parse_component :: "string \<Rightarrow> match_rule \<Rightarrow> (error, match_rule) res" where
  "parse_component c r =
     (case break_at (CHR ''='') c of
        (key, None) \<Rightarrow> Err InvalidMatchRule
      | (key, Some v) \<Rightarrow>
          if key = [] \<or> length v < 2 \<or> hd v \<noteq> quote \<or> last v \<noteq> quote then Err InvalidMatchRule
          else parse_key key (butlast (tl v)) r)"

definition rule_try_from :: "string \<Rightarrow> (error, match_rule) res" where
  "rule_try_from s = fold_res parse_component (split_on (CHR '','') s) rule_new"

section \<open>The builder keeps rules well-formed\<close>

definition args_ok :: "(nat \<times> 'a) list \<Rightarrow> bool" where
  "args_ok xs \<longleftrightarrow> sorted_wrt (<) (map fst xs) \<and> (\<forall>i \<in> fst ` set xs. i < MAX_ARGS)"

definition rule_ok :: "match_rule \<Rightarrow> bool" where
  "rule_ok r \<longleftrightarrow>
     pred_option (\<lambda>b. bus_name_try_from (bus_name_as_str b) = Ok b) (r_sender r) \<and>
     pred_option (\<lambda>x. ensure_correct_interface_name x = Ok ()) (r_interface r) \<and>
     pred_option (\<lambda>x. ensure_correct_member_name x = Ok ()) (r_member r) \<and>
     pred_option (\<lambda>p. case p of Path_Spec x \<Rightarrow> object_path_try_from x = Ok x
        | PathNamespace x \<Rightarrow> object_path_try_from x = Ok x) (r_path_spec r) \<and>
     pred_option (\<lambda>x. ensure_correct_unique_name x = Ok ()) (r_destination r) \<and>
     args_ok (r_args r) \<and> args_ok (r_arg_paths r) \<and>
     (\<forall>(i, x) \<in> set (r_arg_paths r). object_path_try_from x = Ok x) \<and>
     pred_option valid_arg0ns (r_arg0ns r)"

text \<open>The rules that the builder can make.\<close>

inductive rule_builder :: "match_rule \<Rightarrow> bool" where
  new: "rule_builder rule_new"
| msg_type: "rule_builder r \<Longrightarrow> rule_builder (rule_msg_type t r)"
| sender: "rule_builder r \<Longrightarrow> rule_sender x r = Ok r' \<Longrightarrow> rule_builder r'"
| interface: "rule_builder r \<Longrightarrow> rule_interface x r = Ok r' \<Longrightarrow> rule_builder r'"
| member: "rule_builder r \<Longrightarrow> rule_member x r = Ok r' \<Longrightarrow> rule_builder r'"
| path: "rule_builder r \<Longrightarrow> rule_path x r = Ok r' \<Longrightarrow> rule_builder r'"
| path_namespace: "rule_builder r \<Longrightarrow> rule_path_namespace x r = Ok r' \<Longrightarrow> rule_builder r'"
| destination: "rule_builder r \<Longrightarrow> rule_destination x r = Ok r' \<Longrightarrow> rule_builder r'"
| arg: "rule_builder r \<Longrightarrow> rule_arg i x r = Ok r' \<Longrightarrow> rule_builder r'"
| add_arg: "rule_builder r \<Longrightarrow> rule_add_arg x r = Ok r' \<Longrightarrow> rule_builder r'"
| arg_path: "rule_builder r \<Longrightarrow> rule_arg_path i x r = Ok r' \<Longrightarrow> rule_builder r'"
| add_arg_path: "rule_builder r \<Longrightarrow> rule_add_arg_path x r = Ok r' \<Longrightarrow> rule_builder r'"
| arg0ns: "rule_builder r \<Longrightarrow> rule_arg0ns x r = Ok r' \<Longrightarrow> rule_builder r'"

lemma set_arg_simps [simp]:
  "set_arg idx v [] = [(idx, v)]"
  "set_arg idx v ((j, w) # xs) =
     (if j < idx then (j, w) # set_arg idx v xs else if j = idx then (idx, v) # xs else (idx, v) # (j, w) # xs)"
  by (auto simp: set_arg_def binary_search_def Let_def split: prod.splits)

lemma set_arg_values: "x \<in> set (set_arg idx v xs) \<Longrightarrow> x = (idx, v) \<or> x \<in> set xs"
  by (induction xs) (auto split: if_splits)

lemma set_arg_ok: "args_ok xs \<Longrightarrow> idx < MAX_ARGS \<Longrightarrow> args_ok (set_arg idx v xs)"
proof (induction xs)
  case (Cons x xs)
  obtain j w where x: "x = (j, w)" by (cases x)
  from Cons x have IH: "args_ok (set_arg idx v xs)" by (simp add: args_ok_def)
  show ?case
  proof (cases "j < idx")
    case True
    have "\<forall>i \<in> fst ` set (set_arg idx v xs). j < i"
      using True Cons.prems(1) x by (auto simp: args_ok_def dest!: set_arg_values)
    with IH Cons.prems x True show ?thesis by (simp add: args_ok_def)
  qed (use Cons.prems x in \<open>auto simp: args_ok_def\<close>)
qed (simp add: args_ok_def)

lemma map_of_set_arg: "sorted_wrt (<) (map fst xs) \<Longrightarrow> map_of (set_arg idx v xs) = (map_of xs)(idx \<mapsto> v)"
  by (induction xs) (auto simp: fun_upd_twist)

lemma set_arg_last: "\<forall>i \<in> fst ` set xs. i < idx \<Longrightarrow> set_arg idx v xs = xs @ [(idx, v)]"
  by (induction xs) auto

lemmas rule_ops = rule_new_def rule_msg_type_def rule_sender_def rule_interface_def rule_member_def rule_path_def
  rule_path_namespace_def rule_destination_def rule_arg_def rule_add_arg_def rule_arg_path_def
  rule_add_arg_path_def rule_arg0ns_def names_check_def

lemma rule_builder_ok: "rule_builder r \<Longrightarrow> rule_ok r"
  by (induction rule: rule_builder.induct)
    (auto simp: rule_ops rule_ok_def names_check_Ok set_arg_ok args_ok_def [of "[]"] split: if_splits
      dest!: set_arg_values dest: converted_again)

section \<open>Round trip of the text\<close>

lemma split_commas:
  "cs \<noteq> [] \<Longrightarrow> \<forall>c \<in> set cs. CHR '','' \<notin> set c \<Longrightarrow> split_on (CHR '','') (write_commas cs) = cs"
  by (induction cs rule: write_commas.induct) (simp_all add: split_on_absent split_on_append)

lemma parse_written:
  assumes "key \<noteq> []" "CHR ''='' \<notin> set key"
  shows "parse_component (write_component key v) r = parse_key key v r"
proof -
  have "break_at (CHR ''='') (write_component key v) = (key, Some (quote # v @ [quote]))"
    unfolding write_component_def by (rule break_at_append [OF assms(2)])
  then show ?thesis using assms(1) by (simp add: parse_component_def)
qed

lemma show_nat_chars: "c \<in> set (show_nat i) \<Longrightarrow> is_ascii_digit c"
  using show_nat_digits [of i] by (auto simp: list_all_iff)

lemma find_sub_digits:
  "list_all is_ascii_digit ds \<Longrightarrow> find_sub ''path'' ds = None"
  "list_all is_ascii_digit ds \<Longrightarrow> find_sub ''path'' (ds @ ''path'') = Some (length ds)"
  by (induction ds) (auto simp: is_ascii_digit_def)

lemma parse_arg_key:
  assumes "i < MAX_ARGS"
  shows "parse_key (''arg'' @ show_nat i) v r = rule_arg i v r"
    and "parse_key (''arg'' @ show_nat i @ ''path'') v r = rule_arg_path i v r"
proof -
  have d: "list_all is_ascii_digit (show_nat i)" "show_nat i \<noteq> []" using show_nat_digits [of i] by simp_all
  have idx: "parse_index (show_nat i) = Ok i" using assms parse_show [of i 255] by (simp add: parse_index_def MAX_ARGS_def)
  have n: "show_nat i \<noteq> ''0namespace''" "show_nat i @ ''path'' \<noteq> ''0namespace''"
    using d(1) by (auto simp: append_eq_Cons_conv is_ascii_digit_def)
  show "parse_key (''arg'' @ show_nat i) v r = rule_arg i v r"
    using find_sub_digits(1) [OF d(1)] idx n(1) by (simp add: parse_key_def)
  show "parse_key (''arg'' @ show_nat i @ ''path'') v r = rule_arg_path i v r"
    using find_sub_digits(2) [OF d(1)] idx n(2) by (simp add: parse_key_def)
qed

lemma args_fold:
  assumes "args_ok (ys @ xs)" "r_args r = ys"
  shows "fold_res parse_component (map (\<lambda>(i, x). write_component (''arg'' @ show_nat i) x) xs) r =
    Ok (r\<lparr>r_args := ys @ xs\<rparr>)"
  using assms
proof (induction xs arbitrary: ys r)
  case (Cons a xs)
  obtain i x where a: "a = (i, x)" by (cases a)
  have i: "i < MAX_ARGS" "\<forall>j \<in> fst ` set ys. j < i" using Cons.prems(1) a by (auto simp: args_ok_def sorted_wrt_append)
  have "CHR ''='' \<notin> set (''arg'' @ show_nat i)" by (auto dest!: show_nat_chars simp: is_ascii_digit_def)
  from parse_written [OF _ this, of x r] parse_arg_key(1) [OF i(1), of x r] set_arg_last [OF i(2)] i(1) Cons.prems(2)
  have "parse_component (write_component (''arg'' @ show_nat i) x) r = Ok (r\<lparr>r_args := ys @ [(i, x)]\<rparr>)"
    by (simp add: rule_arg_def)
  with Cons.IH [of "ys @ [a]" "r\<lparr>r_args := ys @ [(i, x)]\<rparr>"] Cons.prems a show ?case by simp
qed (cases r, simp)

lemma arg_paths_fold:
  assumes "args_ok (ys @ xs)" "r_arg_paths r = ys" "\<forall>(i, x) \<in> set xs. object_path_try_from x = Ok x"
  shows "fold_res parse_component (map (\<lambda>(i, x). write_component (''arg'' @ show_nat i @ ''path'') x) xs) r =
    Ok (r\<lparr>r_arg_paths := ys @ xs\<rparr>)"
  using assms
proof (induction xs arbitrary: ys r)
  case (Cons a xs)
  obtain i x where a: "a = (i, x)" by (cases a)
  have i: "i < MAX_ARGS" "\<forall>j \<in> fst ` set ys. j < i" using Cons.prems(1) a by (auto simp: args_ok_def sorted_wrt_append)
  have "CHR ''='' \<notin> set (''arg'' @ show_nat i @ ''path'')" by (auto dest!: show_nat_chars simp: is_ascii_digit_def)
  from parse_written [OF _ this, of x r] parse_arg_key(2) [OF i(1), of x r] set_arg_last [OF i(2)] i(1) Cons.prems(2,3) a
  have "parse_component (write_component (''arg'' @ show_nat i @ ''path'') x) r = Ok (r\<lparr>r_arg_paths := ys @ [(i, x)]\<rparr>)"
    by (simp add: rule_arg_path_def)
  with Cons.IH [of "ys @ [a]" "r\<lparr>r_arg_paths := ys @ [(i, x)]\<rparr>"] Cons.prems a show ?case by simp
qed (cases r, simp)

lemma opt_fold:
  assumes "\<And>x. v = Some x \<Longrightarrow> parse_key key x r = Ok (upd r)" "v = None \<Longrightarrow> upd r = r" "key \<noteq> []" "CHR ''='' \<notin> set key"
  shows "fold_res parse_component (opt_component key v) r = Ok (upd r)"
  using assms by (cases v) (simp_all add: opt_component_def parse_written)

lemma parse_keys:
  "parse_key ''type'' v r = bind_res (parse_type v) (\<lambda>t. Ok (rule_msg_type t r))"
  "parse_key ''sender'' v r = rule_sender v r" "parse_key ''interface'' v r = rule_interface v r"
  "parse_key ''member'' v r = rule_member v r" "parse_key ''path'' v r = rule_path v r"
  "parse_key ''path_namespace'' v r = rule_path_namespace v r" "parse_key ''destination'' v r = rule_destination v r"
  "parse_key ''arg0namespace'' v r = rule_arg0ns v r"
  by (simp_all add: parse_key_def)

lemma parse_type_str: "parse_type (type_str t) = Ok t" "CHR '','' \<notin> set (type_str t)"
  by (cases t, simp_all add: parse_type_def type_str_def)+

lemma parse_components:
  assumes "rule_ok r"
  shows "fold_res parse_component (components r) rule_new = Ok r"
proof -
  note ok = assms [unfolded rule_ok_def]
  have "fold_res parse_component (opt_component ''type'' (map_option type_str (r_type r))) g = Ok (g\<lparr>r_type := r_type r\<rparr>)"
    if "r_type g = None" for g
    by (rule opt_fold) (use that in \<open>auto simp: parse_keys parse_type_str rule_msg_type_def\<close>)
  moreover have "fold_res parse_component (opt_component ''sender'' (map_option bus_name_as_str (r_sender r))) g =
      Ok (g\<lparr>r_sender := r_sender r\<rparr>)" if "r_sender g = None" for g
    by (rule opt_fold) (use that ok in \<open>auto simp: parse_keys rule_sender_def\<close>)
  moreover have "fold_res parse_component (opt_component ''interface'' (r_interface r)) g = Ok (g\<lparr>r_interface := r_interface r\<rparr>)"
    if "r_interface g = None" for g
    by (rule opt_fold) (use that ok in \<open>auto simp: parse_keys rule_interface_def names_check_def\<close>)
  moreover have "fold_res parse_component (opt_component ''member'' (r_member r)) g = Ok (g\<lparr>r_member := r_member r\<rparr>)"
    if "r_member g = None" for g
    by (rule opt_fold) (use that ok in \<open>auto simp: parse_keys rule_member_def names_check_def\<close>)
  moreover have "fold_res parse_component (opt_component ''destination'' (r_destination r)) g =
      Ok (g\<lparr>r_destination := r_destination r\<rparr>)" if "r_destination g = None" for g
    by (rule opt_fold) (use that ok in \<open>auto simp: parse_keys rule_destination_def names_check_def\<close>)
  moreover have "fold_res parse_component (case r_path_spec r of None \<Rightarrow> [] | Some (Path_Spec p) \<Rightarrow> [write_component ''path'' p]
      | Some (PathNamespace ns) \<Rightarrow> [write_component ''path_namespace'' ns]) g = Ok (g\<lparr>r_path_spec := r_path_spec r\<rparr>)"
    if "r_path_spec g = None" for g
  proof (cases "r_path_spec r")
    case (Some p)
    then show ?thesis using that ok by (cases p) (simp_all add: parse_written parse_keys rule_path_def rule_path_namespace_def)
  qed (use that in simp)
  moreover have "fold_res parse_component (opt_component ''arg0namespace'' (r_arg0ns r)) g = Ok (g\<lparr>r_arg0ns := r_arg0ns r\<rparr>)"
    if "r_arg0ns g = None" for g
    by (rule opt_fold) (use that ok in \<open>auto simp: parse_keys rule_arg0ns_def\<close>)
  ultimately show ?thesis
    using ok args_fold [of "[]" "r_args r"] arg_paths_fold [of "[]" "r_arg_paths r"]
    by (simp add: components_def fold_res_append rule_new_def)
qed

lemma arg0ns_no_comma:
  assumes "valid_arg0ns ns"
  shows "CHR '','' \<notin> set ns"
proof -
  have "\<forall>c \<in> set ns. is_ascii_alphanumeric c \<or> c = CHR ''-'' \<or> c = CHR ''_'' \<or> c = CHR ''.'' \<or> c = CHR '':''"
    using assms by (cases ns) (auto simp: valid_arg0ns_def list_all_iff split: if_splits)
  moreover have "\<not> is_ascii_alphanumeric (CHR '','')" by (simp add: ascii_defs)
  ultimately show ?thesis by auto
qed

lemma printable_no_comma: "printable s \<Longrightarrow> CHR '','' \<notin> set s"
  by (auto simp: printable_def printable_char_def)

lemma component_no_comma: "CHR '','' \<in> set (write_component k v) \<longleftrightarrow> CHR '','' \<in> set k \<or> CHR '','' \<in> set v"
  by (auto simp: write_component_def quote_def)

lemma show_nat_no_comma: "CHR '','' \<notin> set (show_nat i)"
  by (auto dest: show_nat_chars simp: is_ascii_digit_def)

lemma opt_component_no_comma:
  "CHR '','' \<notin> set k \<Longrightarrow> pred_option (\<lambda>x. CHR '','' \<notin> set x) v \<Longrightarrow> c \<in> set (opt_component k v) \<Longrightarrow> CHR '','' \<notin> set c"
  by (cases v) (simp_all add: opt_component_def component_no_comma)

lemma components_no_comma:
  assumes "rule_ok r" "\<forall>(i, x) \<in> set (r_args r). CHR '','' \<notin> set x" "c \<in> set (components r)"
  shows "CHR '','' \<notin> set c"
proof -
  note ok = assms(1) [unfolded rule_ok_def]
  have sent: "pred_option (\<lambda>x. CHR '','' \<notin> set x) (map_option bus_name_as_str (r_sender r))"
    using ok printable_no_comma bus_name_printable by (cases "r_sender r") auto
  have ty: "pred_option (\<lambda>x. CHR '','' \<notin> set x) (map_option type_str (r_type r))"
    using parse_type_str(2) by (cases "r_type r") auto
  have iface: "pred_option (\<lambda>x. CHR '','' \<notin> set x) (r_interface r)"
    using ok printable_no_comma names_printable(2) by (cases "r_interface r") auto
  have mem: "pred_option (\<lambda>x. CHR '','' \<notin> set x) (r_member r)"
    using ok printable_no_comma names_printable(4) by (cases "r_member r") auto
  have dst: "pred_option (\<lambda>x. CHR '','' \<notin> set x) (r_destination r)"
    using ok printable_no_comma unique_name_printable by (cases "r_destination r") auto
  have ns: "pred_option (\<lambda>x. CHR '','' \<notin> set x) (r_arg0ns r)"
    using ok arg0ns_no_comma by (cases "r_arg0ns r") auto
  have "CHR '','' \<notin> set p" if "r_path_spec r = Some (Path_Spec p) \<or> r_path_spec r = Some (PathNamespace p)" for p
    using ok that by (auto dest!: object_path_printable printable_no_comma)
  then have "CHR '','' \<notin> set c" if "c \<in> set (case r_path_spec r of None \<Rightarrow> []
      | Some (Path_Spec p) \<Rightarrow> [write_component ''path'' p] | Some (PathNamespace ns) \<Rightarrow> [write_component ''path_namespace'' ns])"
    using that by (cases "r_path_spec r"; cases "the (r_path_spec r)") (auto simp: component_no_comma)
  moreover have "CHR '','' \<notin> set x" if "(i, x) \<in> set (r_arg_paths r)" for i x
    using ok that by (auto dest!: object_path_printable printable_no_comma)
  ultimately show ?thesis
    using assms(2,3) opt_component_no_comma [OF _ ty, of "''type''"] opt_component_no_comma [OF _ sent, of "''sender''"]
      opt_component_no_comma [OF _ iface, of "''interface''"] opt_component_no_comma [OF _ mem, of "''member''"]
      opt_component_no_comma [OF _ dst, of "''destination''"] opt_component_no_comma [OF _ ns, of "''arg0namespace''"]
    by (auto simp: components_def component_no_comma show_nat_no_comma)
qed

text \<open>C10: Every rule that the builder can make is printed to a text that parses to the same rule, if it has
  any component at all and no string argument has a comma.\<close>

theorem match_rule_roundtrip:
  assumes "rule_builder r" "r \<noteq> rule_new" "\<forall>(i, x) \<in> set (r_args r). CHR '','' \<notin> set x"
  shows "rule_try_from (rule_to_string r) = Ok r"
proof -
  note ok = rule_builder_ok [OF assms(1)]
  have "components r \<noteq> []" using parse_components [OF ok] assms(2) by auto
  then have "split_on (CHR '','') (rule_to_string r) = components r"
    unfolding rule_to_string_def using components_no_comma [OF ok assms(3)] by (intro split_commas) blast+
  then show ?thesis using parse_components [OF ok] by (simp add: rule_try_from_def)
qed

definition sample_rule :: match_rule where
  "sample_rule = \<lparr>r_type = Some Signal, r_sender = Some (WellKnown ''a.b''), r_interface = None, r_member = None,
     r_path_spec = Some (PathNamespace ''/a''), r_destination = None, r_args = [(0, ''x=''), (3, [])],
     r_arg_paths = [], r_arg0ns = None\<rparr>"

lemma sample_rule_built:
  "bind_res (bind_res (bind_res (rule_arg 3 [] (rule_msg_type Signal rule_new)) (rule_arg 0 ''x=''))
     (rule_sender ''a.b'')) (rule_path_namespace ''/a'') = Ok sample_rule"
  by code_simp

lemma sample_rule_builder: "rule_builder sample_rule"
proof -
  obtain a b c where "rule_arg 3 [] (rule_msg_type Signal rule_new) = Ok a" "rule_arg 0 ''x='' a = Ok b"
    "rule_sender ''a.b'' b = Ok c" "rule_path_namespace ''/a'' c = Ok sample_rule"
    using sample_rule_built by (auto simp: bind_res_eq_Ok)
  with rule_builder.path_namespace [OF rule_builder.sender [OF rule_builder.arg [OF rule_builder.arg
      [OF rule_builder.msg_type [OF rule_builder.new]]]]]
  show ?thesis by blast
qed

theorem match_rule_roundtrip_witness: "rule_try_from (rule_to_string sample_rule) = Ok sample_rule"
  by (rule match_rule_roundtrip [OF sample_rule_builder]) (simp_all add: sample_rule_def rule_new_def)

text \<open>A string argument with a comma is printed, but its text is not parsed: the parser splits the text
  at every comma, also between quotes.\<close>

theorem match_rule_comma:
  "rule_arg 0 ''a,b'' rule_new = Ok (rule_new\<lparr>r_args := [(0, ''a,b'')]\<rparr>) \<and>
   rule_try_from (rule_to_string (rule_new\<lparr>r_args := [(0, ''a,b'')]\<rparr>)) = Err InvalidMatchRule"
  by code_simp

text \<open>An argument that is set by its index replaces the one that had this index and leaves the others, in a
  list that stays sorted.\<close>

theorem rule_arg_lookup:
  assumes "rule_builder r" "rule_arg i x r = Ok r'"
  shows "map_of (r_args r') = (map_of (r_args r))(i \<mapsto> x) \<and> sorted_wrt (<) (map fst (r_args r')) \<and> i < 64"
proof -
  have r: "args_ok (r_args r)" "args_ok (r_args r')"
    using rule_builder_ok [OF assms(1)] rule_builder_ok [OF rule_builder.arg [OF assms]] by (simp_all add: rule_ok_def)
  then show ?thesis
    using assms(2) map_of_set_arg [of "r_args r" i x] by (auto simp: rule_arg_def MAX_ARGS_def args_ok_def split: if_splits)
qed

theorem rule_arg_lookup_witness:
  "\<exists>r'. rule_arg 1 ''y'' sample_rule = Ok r' \<and> map_of (r_args r') 1 = Some ''y'' \<and> map_of (r_args r') 3 = Some []"
proof -
  obtain r' where r: "rule_arg 1 ''y'' sample_rule = Ok r'" by (simp add: rule_arg_def MAX_ARGS_def)
  from rule_arg_lookup [OF sample_rule_builder r] r show ?thesis by (simp add: sample_rule_def)
qed

text \<open>Appending an argument to a rule whose arguments are not those from 0 on can replace one of them.\<close>

theorem add_arg_replaces:
  "bind_res (rule_arg 1 ''first'' rule_new) (rule_add_arg ''second'') = Ok (rule_new\<lparr>r_args := [(1, ''second'')]\<rparr>)"
  by code_simp

section \<open>Matching\<close>

lemma case_Str: "(case v of Str y \<Rightarrow> P y | _ \<Rightarrow> False) \<longleftrightarrow> (\<exists>y. v = Str y \<and> P y)"
  "(case v of ObjectPath y \<Rightarrow> P y | _ \<Rightarrow> False) \<longleftrightarrow> (\<exists>y. v = ObjectPath y \<and> P y)"
  by (cases v; simp)+

lemma args_match_iff: "args_match xs args \<longleftrightarrow> (\<forall>(i, x) \<in> set xs. i < length args \<and> args ! i = Str x)"
  by (induction xs args rule: args_match.induct) (auto simp: case_Str split: if_splits)

lemma arg_paths_match_iff:
  "arg_paths_match xs args \<longleftrightarrow> (\<forall>(i, x) \<in> set xs. i < length args \<and> args ! i = ObjectPath x)"
  by (induction xs args rule: arg_paths_match.induct) (auto simp: case_Str split: if_splits)

lemma body_matches_structure:
  "body_deserialize N E B n m = Some (Ok (Structure fs s)) \<Longrightarrow>
     body_matches N E B n r m = Some (Ok (args_match (r_args r) fs \<and> arg_paths_match (r_arg_paths r) fs))"
  by (cases "r_args r = [] \<and> r_arg_paths r = []") (auto simp: body_matches_def)

lemma header_matches_iff:
  "header_matches r h \<longleftrightarrow>
     (\<forall>t. r_type r = Some t \<longrightarrow> msg_type (primary h) = t) \<and>
     (\<forall>u. r_sender r = Some (Unique u) \<longrightarrow> sender (header_fields h) = Some u) \<and>
     (\<forall>i. r_interface r = Some i \<longrightarrow> interface (header_fields h) = Some i) \<and>
     (\<forall>x. r_member r = Some x \<longrightarrow> member (header_fields h) = Some x) \<and>
     (\<forall>d u. r_destination r = Some d \<longrightarrow> destination (header_fields h) = Some (Unique u) \<longrightarrow> d = u) \<and>
     (\<forall>p. r_path_spec r = Some (Path_Spec p) \<longrightarrow> path (header_fields h) = Some p) \<and>
     (\<forall>ns. r_path_spec r = Some (PathNamespace ns) \<longrightarrow> (\<exists>p. path (header_fields h) = Some p \<and> prefix ns p))"
  by (auto simp: header_matches_def Let_def split: option.splits bus_name.splits path_spec.splits)

lemma in_namespace_iff: "in_namespace ns x \<longleftrightarrow> x = ns \<or> prefix (ns @ ''.'') x"
  by (auto simp: in_namespace_def prefix_def)

lemma bus_name_text: "bus_name_try_from x = Ok b \<Longrightarrow> bus_name_as_str b = x"
  by (auto simp: bus_name_try_from_def split: list.splits if_splits res.splits)

lemma element_loop_no_panic: "element_loop mk ok prev no_dot cs \<noteq> Panic"
  by (induction mk ok prev no_dot cs rule: element_loop.induct) auto

lemma unique_loop_no_panic: "unique_loop prev no_dot cs \<noteq> Panic"
  by (induction prev no_dot cs rule: unique_loop.induct) auto

lemma bus_name_no_panic: "bus_name_try_from x \<noteq> Panic"
  by (auto simp: bus_name_try_from_def ensure_correct_unique_name_def ensure_correct_well_known_name_def bind_res_eq_Panic
      element_loop_no_panic unique_loop_no_panic split: list.splits if_splits)

context wire_laws
begin

lemma read_bus_name:
  assumes "enc E (c_endian (data_context dat)) no_depths (Str x) (c_position (data_context dat)) = Ok bs"
    "data_bytes dat = bs @ r" "valid_utf8 x" "byte_of 0 \<notin> set x"
  shows "deserialize_for_signature signature.Str (deserialize_bus_name E) dat =
    Some (case bus_name_try_from x of Ok b \<Rightarrow> Ok (b, length bs) | _ \<Rightarrow> Err (zerror.Message Custom))"
proof -
  let ?d = "new_deserializer (data_bytes dat) (Some (data_fds dat)) signature.Str (data_context dat)"
  have "deserialize_str E ?d = Some (Ok x, adv ?d (length bs))"
    using assms by (intro read_str) (simp_all add: new_deserializer_def de_endian_def de_abs_pos_def upcoming_def)
  then show ?thesis
    using bus_name_no_panic [of x]
    by (simp add: deserialize_for_signature_def deserialize_bus_name_def dbind_Some lift_def new_deserializer_def split: res.splits)
qed

text \<open>The first argument of a message that was built and parsed again, read as a bus name.\<close>

lemma built_arg0:
  assumes "header_ok h" "unix_fds (header_fields h) = None" "\<And>b. code b < 8 \<Longrightarrow> B b = Some b" "10 \<le> n"
    "value_ok (Structure fs s)" "plain (Structure fs s)" "readable (Structure fs s)" "sig_wf s"
    "build N E D s (serialize_inner N E D (Structure fs s)) h = Ok m" "from_raw_parts N E B n (msg_bytes m) seq = Some (Ok m')"
    "r_arg0ns r = None \<or> (\<exists>x rest. body_args fs = Str x # rest)"
  shows "arg0_matches N E B n r m' = Some (Ok (\<forall>ns. r_arg0ns r = Some ns \<longrightarrow>
    (\<exists>x rest b. body_args fs = Str x # rest \<and> bus_name_try_from x = Ok b \<and> (x = ns \<or> prefix (ns @ ''.'') x))))"
proof (cases "r_arg0ns r")
  case None
  then show ?thesis by (simp add: arg0_matches_def)
next
  case (Some ns)
  then obtain x rest where x: "body_args fs = Str x # rest" using assms(11) by auto
  obtain hd dat where m': "message_header N E B n m' = Some (Ok hd)" "msg_bytes m' = msg_bytes m"
    "data_slice_from (msg_bytes m) (msg_body_offset m') = Ok dat"
    "enc E (c_endian (data_context dat)) no_depths (Structure fs s) (c_position (data_context dat)) = Ok (data_bytes dat)"
    "c_position (data_context dat) mod 8 = 0"
    by (rule built_parsed [where B = B, OF assms(1,2) _ assms(4-6) value_signature.simps(16) assms(8,9), of seq])
      (use assms(3,10) in auto)
  have s: "s = signature.Structure (map value_signature fs)" using assms(5) by simp
  note ok = assms(5-7) [unfolded s]
  have "enc E (c_endian (data_context dat)) no_depths (structure_of (Str x # rest)) (c_position (data_context dat)) = Ok (data_bytes dat)"
    using enc_body_args [OF ok(1) m'(4) [unfolded s]] x by simp
  moreover have "padding (c_position (data_context dat)) 8 = 0" using m'(5) by (intro padding_0) simp_all
  ultimately obtain bs r' where b: "enc E (c_endian (data_context dat)) no_depths (Str x) (c_position (data_context dat)) = Ok bs"
    "data_bytes dat = bs @ r'"
    by (auto simp: enc_then_def enc_basic_def map_ok_eq_Ok bind_res_eq_Ok pad_def)
  have "valid_utf8 x" "byte_of 0 \<notin> set x"
    using body_args_ok(3) [OF ok, of "fuel (structure_of fs)"] x by simp_all
  from read_bus_name [OF b this] show ?thesis
    using Some m'(1-3) x bus_name_no_panic [of x] bus_name_text [of x]
    by (auto simp: arg0_matches_def message_body_def in_namespace_iff split: res.splits)
qed

lemma built_matches:
  assumes "header_ok h" "unix_fds (header_fields h) = None" "\<And>b. code b < 8 \<Longrightarrow> B b = Some b" "10 \<le> n" "fuel (Structure fs s) \<le> Suc n"
    "value_ok (Structure fs s)" "plain (Structure fs s)" "readable (Structure fs s)" "sig_wf s"
    "build N E D s (serialize_inner N E D (Structure fs s)) h = Ok m"
    "r_arg0ns r = None \<or> (\<exists>x rest. body_args fs = Str x # rest)"
  obtains m' where "from_raw_parts N E B n (msg_bytes m) seq = Some (Ok m')"
    "matches N E B n r m' = Some (Ok (header_matches r h \<and>
      (\<forall>ns. r_arg0ns r = Some ns \<longrightarrow>
        (\<exists>x rest b. body_args fs = Str x # rest \<and> bus_name_try_from x = Ok b \<and> (x = ns \<or> prefix (ns @ ''.'') x))) \<and>
      args_match (r_args r) (body_args fs) \<and> arg_paths_match (r_arg_paths r) (body_args fs)))"
proof -
  obtain m' hd where m': "from_raw_parts N E B n (msg_bytes m) seq = Some (Ok m')" "message_header N E B n m' = Some (Ok hd)"
    "hd = h\<lparr>primary := msg_primary m, header_fields := (header_fields h)\<lparr>body_signature := wire_signature s\<rparr>\<rparr>"
    "body_deserialize N E B n m' = Some (Ok (structure_of (body_args fs)))"
    by (rule message_roundtrip_aux [where B = B, OF assms(1,2) _ assms(4-10), of seq])
      (use assms(3) in \<open>auto simp del: value_ok.simps plain.simps readable.simps\<close>)
  have w: "writes (serialize_inner N E D (Structure fs s)) s no_depths (\<lambda>e. enc E e no_depths (Structure fs s))"
    using refines_writes [OF plain_refines [OF assms(6,7)]] by simp
  have t: "msg_type (msg_primary m) = msg_type (primary h)" by (rule build_Ok [OF w assms(2,10)]) simp
  have hm: "header_matches r hd = header_matches r h" by (simp add: header_matches_iff m'(3) t)
  let ?arg0 = "\<forall>ns. r_arg0ns r = Some ns \<longrightarrow>
      (\<exists>x rest b. body_args fs = Str x # rest \<and> bus_name_try_from x = Ok b \<and> (x = ns \<or> prefix (ns @ ''.'') x))"
  have "arg0_matches N E B n r m' = Some (Ok ?arg0)"
    by (rule built_arg0 [where B = B, OF assms(1,2) _ assms(4,6-10) m'(1) assms(11)]) (rule assms(3))
  then have "matches N E B n r m' = Some (Ok (header_matches r h \<and> ?arg0 \<and>
      args_match (r_args r) (body_args fs) \<and> arg_paths_match (r_arg_paths r) (body_args fs)))"
    unfolding matches_def m'(2) obind_simps hm body_matches_structure [OF m'(4)] by simp
  with m'(1) show thesis by (rule that)
qed

end

text \<open>C29: A message of the builder whose body is a structure of values that can be read back, without file descriptors, is sent,
  parsed, and compared with a rule. If the rule has an \<^verbatim>\<open>arg0\<close> namespace, the first argument is a string. Comparing gives no error,
  and the answer is yes exactly if: the type is that of the rule; the sender is the unique name of the rule (a well-known name is not
  compared); the interface and the member are those of the rule; a destination that is a unique name is that of the rule; the path is
  that of the rule, or its text starts with the namespace of the rule; the first argument is a bus name that is the
  \<^verbatim>\<open>arg0\<close> namespace or follows it after a dot; every numbered string and path argument of the rule is there with its type. The
  arguments of a body that is a structure of one structure are those of the inner one.\<close>

theorem matches_received:
  assumes "nom_laws N" "endi_laws E" "\<And>b. code b < 8 \<Longrightarrow> B b = Some b"
    and "builder h" "value_ok (Structure fs s)" "plain (Structure fs s)" "readable (Structure fs s)" "sig_wf s"
    and "10 \<le> n" "fuel (Structure fs s) \<le> Suc n"
    and "build N E D s (serialize_inner N E D (Structure fs s)) h = Ok m"
    and "r_arg0ns r = None \<or> (\<exists>x rest. body_args fs = Str x # rest)"
  shows "\<exists>m'. from_raw_parts N E B n (msg_bytes m) seq = Some (Ok m') \<and>
    matches N E B n r m' = Some (Ok (
      (\<forall>t. r_type r = Some t \<longrightarrow> msg_type (primary h) = t) \<and>
      (\<forall>u. r_sender r = Some (Unique u) \<longrightarrow> sender (header_fields h) = Some u) \<and>
      (\<forall>i. r_interface r = Some i \<longrightarrow> interface (header_fields h) = Some i) \<and>
      (\<forall>x. r_member r = Some x \<longrightarrow> member (header_fields h) = Some x) \<and>
      (\<forall>d u. r_destination r = Some d \<longrightarrow> destination (header_fields h) = Some (Unique u) \<longrightarrow> d = u) \<and>
      (\<forall>p. r_path_spec r = Some (Path_Spec p) \<longrightarrow> path (header_fields h) = Some p) \<and>
      (\<forall>ns. r_path_spec r = Some (PathNamespace ns) \<longrightarrow> (\<exists>p. path (header_fields h) = Some p \<and> prefix ns p)) \<and>
      (\<forall>ns. r_arg0ns r = Some ns \<longrightarrow>
        (\<exists>x rest b. body_args fs = Str x # rest \<and> bus_name_try_from x = Ok b \<and> (x = ns \<or> prefix (ns @ ''.'') x))) \<and>
      (\<forall>(i, x) \<in> set (r_args r). i < length (body_args fs) \<and> body_args fs ! i = Str x) \<and>
      (\<forall>(i, x) \<in> set (r_arg_paths r). i < length (body_args fs) \<and> body_args fs ! i = ObjectPath x)))"
proof -
  note h = builder_ok [OF assms(4), THEN conjunct1] builder_ok [OF assms(4), THEN conjunct2]
  show ?thesis
    by (rule wire_laws.built_matches [where B = B, OF wire_laws.intro [OF assms(1,2)] h assms(3,9,10,5-8,11,12), of seq])
      (auto simp: header_matches_iff args_match_iff arg_paths_match_iff simp del: value_ok.simps plain.simps readable.simps)
qed

definition sample_filter :: match_rule where
  "sample_filter = rule_new\<lparr>r_member := Some ''Hi'', r_path_spec := Some (Path_Spec ''/'')\<rparr>"

definition sample_name_filter :: match_rule where
  "sample_name_filter = rule_new\<lparr>r_member := Some ''Hi'', r_path_spec := Some (Path_Spec ''/''), r_args := [(0, ''a.b'')],
     r_arg0ns := Some ''a''\<rparr>"

definition sample_name_body :: zvalue where
  "sample_name_body = Structure [Str ''a.b''] (signature.Structure [signature.Str])"

lemma sample_name_body_facts:
  "value_ok sample_name_body" "plain sample_name_body" "readable sample_name_body"
  "enc endi_ref Little no_depths sample_name_body 0 = Ok (map byte_of [3, 0, 0, 0, 97, 46, 98, 0])"
  "value_signature sample_name_body = signature.Structure [signature.Str]"
  "to_string_no_parens (signature.Structure [signature.Str]) = ''s''"
  "sig_wf (signature.Structure [signature.Str])" "fuel sample_name_body \<le> Suc 20"
  by (simp_all add: sample_name_body_def to_string_no_parens_def enc_then_def enc_basic_def enc_str_def pad_def usize_to_u32_def
      padding_numeral endi_ref_def byte_order_def inc_structure_def inc_array_def inc_variant_def depth_defs
      no_depths_def numeral_nat_bytes map_ok_def cong: bind_res_weak_cong) code_simp+

theorem matches_received_witness:
  "\<exists>m m'. build nom_ref endi_ref (\<lambda>_. Some) (signature.Structure [signature.Str])
     (serialize_inner nom_ref endi_ref (\<lambda>_. Some) sample_name_body) sample_header = Ok m \<and>
    from_raw_parts nom_ref endi_ref from_bits 20 (msg_bytes m) 5 = Some (Ok m') \<and>
    matches nom_ref endi_ref from_bits 20 sample_name_filter m' = Some (Ok True)"
proof -
  note f = sample_name_body_facts
  obtain m where m: "build nom_ref endi_ref (\<lambda>_. Some) (signature.Structure [signature.Str])
     (serialize_inner nom_ref endi_ref (\<lambda>_. Some) sample_name_body) sample_header = Ok m"
    using wr.build_total [OF sample_builder f(1,2), of "map byte_of [3, 0, 0, 0, 97, 46, 98, 0]" 255 "\<lambda>_. Some"] f(4-6)
    by (auto simp: sample_header_def no_fields_def MAX_MESSAGE_SIZE_def endian_of_sig_def)
  have bits: "code b < 8 \<Longrightarrow> from_bits b = Some b" for b by (simp add: from_bits_def)
  have name: "\<exists>b. bus_name_try_from ''a.b'' = Ok b" by (rule exI [of _ "WellKnown ''a.b''"]) code_simp
  have "(10::nat) \<le> 20" "r_arg0ns sample_name_filter = None \<or> (\<exists>x rest. body_args [Str ''a.b''] = Str x # rest)"
    by (simp_all add: body_args_def)
  from matches_received [OF nr.nom_laws_axioms er.endi_laws_axioms bits sample_builder f(1-3) [unfolded sample_name_body_def] f(7)
        this(1) f(8) [unfolded sample_name_body_def] m [unfolded sample_name_body_def] this(2), where seq = 5] m name
  show ?thesis
    by (auto simp: sample_name_body_def sample_name_filter_def rule_new_def body_args_def sample_header_def no_fields_def
        simp del: value_ok.simps plain.simps readable.simps)
qed

text \<open>The namespace of a path is a prefix of its text, not of its elements: a rule for the objects below
  \<^verbatim>\<open>/org/a\<close> matches a message of \<^verbatim>\<open>/org/ab\<close>.\<close>

theorem path_namespace_sibling:
  "rule_path_namespace ''/org/a'' rule_new = Ok (rule_new\<lparr>r_path_spec := Some (PathNamespace ''/org/a'')\<rparr>) \<and>
   header_matches (rule_new\<lparr>r_path_spec := Some (PathNamespace ''/org/a'')\<rparr>)
     (sample_header\<lparr>header_fields := no_fields\<lparr>path := Some ''/org/ab''\<rparr>\<rparr>)"
  by code_simp

end
