(* ===== verification/Socket_Reader.thy ===== *)
theory Socket_Reader
  imports Socket Match_Rule
begin

text \<open>
  The task that reads messages off the socket and hands them to the streams whose rules they match
  (\<^verbatim>\<open>zbus/src/connection/socket_reader.rs\<close>), and the descriptors of the first messages.

  \<open>bc\<close> is \<^verbatim>\<open>broadcast_direct\<close> of the queue behind a stream (\<^verbatim>\<open>async_broadcast\<close>), an error of which is
  only logged. The streams are visited in the order of the list, which stands for that of the hash map.
\<close>

section \<open>The reader\<close>

record 's reader =
  rd_socket :: 's
  rd_bytes :: "byte list"
  rd_fds :: "u32 list"
  rd_prev_seq :: u64

type_synonym item = "(error, message) res"
type_synonym 'q senders = "(match_rule option \<times> 'q) list"

definition reader_new :: "'s \<Rightarrow> byte list \<Rightarrow> u32 list \<Rightarrow> 's reader" where
  "reader_new s buf held = \<lparr>rd_socket = s, rd_bytes = buf, rd_fds = held, rd_prev_seq = 0\<rparr>"

definition read_socket ::
  "nom \<Rightarrow> endi \<Rightarrow> (byte \<Rightarrow> byte option) \<Rightarrow> nat \<Rightarrow> 's recv \<Rightarrow> 's reader \<Rightarrow> (error, message \<times> 's reader) res option" where
  "read_socket N E B n recv rd =
     (let seq = rd_prev_seq rd + 1 in
      obind (receive_message N E B n recv seq (rd_socket rd) (rd_bytes rd) (rd_fds rd)) (\<lambda>(m, buf, held, s).
      Some (Ok (m, \<lparr>rd_socket = s, rd_bytes = buf, rd_fds = held, rd_prev_seq = seq\<rparr>))))"

text \<open>An error goes to all streams; a message to those without a rule or with one that it matches.\<close>

definition wants ::
  "nom \<Rightarrow> endi \<Rightarrow> (byte \<Rightarrow> byte option) \<Rightarrow> nat \<Rightarrow> match_rule option \<Rightarrow> item \<Rightarrow> (error, bool) res option" where
  "wants N E B n rule it =
     (case it of
        Ok m \<Rightarrow>
          (case rule of
             None \<Rightarrow> Some (Ok True)
           | Some r \<Rightarrow>
               (case matches N E B n r m of
                  None \<Rightarrow> None
                | Some Panic \<Rightarrow> Some Panic
                | Some (Err _) \<Rightarrow> Some (Ok False)
                | Some (Ok b) \<Rightarrow> Some (Ok b)))
      | _ \<Rightarrow> Some (Ok True))"

fun broadcast ::
  "nom \<Rightarrow> endi \<Rightarrow> (byte \<Rightarrow> byte option) \<Rightarrow> nat \<Rightarrow> ('q \<Rightarrow> item \<Rightarrow> 'q) \<Rightarrow> item \<Rightarrow> 'q senders \<Rightarrow> (error, 'q senders) res option" where
  "broadcast N E B n bc it [] = Some (Ok [])"
| "broadcast N E B n bc it ((rule, q) # ss) =
     obind (wants N E B n rule it) (\<lambda>b.
     obind (broadcast N E B n bc it ss) (\<lambda>ss. Some (Ok ((rule, if b then bc q it else q) # ss))))"

text \<open>The loop; the streams as they are when it ends, before they are cleared.\<close>

partial_function (option) receive_msg ::
  "nom \<Rightarrow> endi \<Rightarrow> (byte \<Rightarrow> byte option) \<Rightarrow> nat \<Rightarrow> 's recv \<Rightarrow> ('q \<Rightarrow> item \<Rightarrow> 'q) \<Rightarrow> 's reader \<Rightarrow> 'q senders
     \<Rightarrow> (error, 'q senders) res option" where
  "receive_msg N E B n recv bc rd ss =
     (case read_socket N E B n recv rd of
        None \<Rightarrow> None
      | Some Panic \<Rightarrow> Some Panic
      | Some (Err e) \<Rightarrow> broadcast N E B n bc (Err e) ss
      | Some (Ok (m, rd')) \<Rightarrow>
          (case broadcast N E B n bc (Ok m) ss of
             None \<Rightarrow> None
           | Some (Err e) \<Rightarrow> Some (Err e)
           | Some Panic \<Rightarrow> Some Panic
           | Some (Ok ss') \<Rightarrow> receive_msg N E B n recv bc rd' ss'))"

section \<open>Delivery\<close>

text \<open>A message that the builder makes of a header and a structure.\<close>

definition built :: "nom \<Rightarrow> endi \<Rightarrow> dup \<Rightarrow> nat \<Rightarrow> header \<times> zvalue list \<Rightarrow> message \<Rightarrow> bool" where
  "built N E D n hv m =
     (case hv of (h, fs) \<Rightarrow>
        let v = Structure fs (signature.Structure (map value_signature fs)) in
        builder h \<and> value_ok v \<and> plain v \<and> readable v \<and> sig_wf (value_signature v) \<and>
        \<not> nested_single (value_signature v) \<and> fuel v \<le> Suc n \<and>
        build N E D (value_signature v) (serialize_inner N E D v) h = Ok m)"

text \<open>Whether a stream gets it.\<close>

definition selects :: "match_rule option \<Rightarrow> header \<times> zvalue list \<Rightarrow> bool" where
  "selects rule hv =
     (case hv of (h, fs) \<Rightarrow>
      case rule of
        None \<Rightarrow> True
      | Some r \<Rightarrow> header_matches r h \<and> args_match (r_args r) fs \<and> arg_paths_match (r_arg_paths r) fs)"

text \<open>What arrives for it: a message with the same header and body and the sequence number \<open>seq\<close>.\<close>

definition arrives :: "nom \<Rightarrow> endi \<Rightarrow> (byte \<Rightarrow> byte option) \<Rightarrow> nat \<Rightarrow> u64 \<Rightarrow> header \<times> zvalue list \<Rightarrow> message \<Rightarrow> bool" where
  "arrives N E B n seq hv m =
     (case hv of (h, fs) \<Rightarrow>
        let s = signature.Structure (map value_signature fs) in
        msg_recv_seq m = seq \<and> msg_primary m = (primary h)\<lparr>body_len := body_len (msg_primary m)\<rparr> \<and>
        message_header N E B n m = Some (Ok (h\<lparr>primary := msg_primary m,
          header_fields := (header_fields h)\<lparr>body_signature := wire_signature s\<rparr>\<rparr>)) \<and>
        body_deserialize N E B n m = Some (Ok (Structure fs s)))"

lemma broadcast_each:
  assumes "\<And>rule. rule \<in> fst ` set ss \<Longrightarrow> wants N E B n rule it = Some (Ok (f rule))"
  shows "broadcast N E B n bc it ss = Some (Ok (map (\<lambda>(rule, q). (rule, if f rule then bc q it else q)) ss))"
  using assms by (induction ss) auto

lemma broadcast_error: "broadcast N E B n bc (Err e) ss = Some (Ok (map (\<lambda>(rule, q). (rule, bc q (Err e))) ss))"
  using broadcast_each [where f = "\<lambda>_. True" and ss = ss and it = "Err e" and N = N and E = E and B = B and n = n and bc = bc]
  by (simp add: wants_def)

context wire_laws
begin

lemma built_arrives:
  assumes B: "\<And>b. code b < 8 \<Longrightarrow> B b = Some b" and n: "10 \<le> n" and b: "built N E D n hv m"
  obtains m' hl where "frame N E B (data_bytes (msg_bytes m) @ rest) = Some (Ok (msg_primary m, hl, data_bytes (msg_bytes m)))"
    "from_raw_parts N E B n (new_fds (data_bytes (msg_bytes m))
       \<lparr>c_endian = endian_of_sig (endian_sig (msg_primary m)), c_position = 0\<rparr> []) seq = Some (Ok m')"
    "arrives N E B n seq hv m'"
    "\<And>rule. pred_option (\<lambda>r. r_arg0ns r = None) rule \<Longrightarrow> wants N E B n rule (Ok m') = Some (Ok (selects rule hv))"
proof -
  obtain h fs where hv: "hv = (h, fs)" by (cases hv)
  define s where "s = signature.Structure (map value_signature fs)"
  let ?v = "Structure fs s"
  have v: "builder h" "value_ok ?v" "plain ?v" "readable ?v" "sig_wf s" "\<not> nested_single s" "fuel ?v \<le> Suc n"
    "build N E D s (serialize_inner N E D ?v) h = Ok m"
    using b hv by (simp_all add: built_def s_def Let_def)
  note h = builder_ok [OF v(1), THEN conjunct1] builder_ok [OF v(1), THEN conjunct2]
  have w: "writes (serialize_inner N E D ?v) s no_depths (\<lambda>e. enc E e no_depths ?v)"
    using refines_writes [OF plain_refines [OF v(2,3)]] by simp
  obtain hl where fr: "frame N E B (data_bytes (msg_bytes m) @ rest) = Some (Ok (msg_primary m, hl, data_bytes (msg_bytes m)))"
    "msg_bytes m = new_fds (data_bytes (msg_bytes m)) \<lparr>c_endian = endian_of_sig (endian_sig (msg_primary m)), c_position = 0\<rparr> []"
    by (rule frame_built [where B = B, OF w h B v(8)])
  have p: "msg_primary m = (primary h)\<lparr>body_len := body_len (msg_primary m)\<rparr>" by (rule build_Ok [OF w h(2) v(8)]) simp
  have t: "msg_type (msg_primary m) = msg_type (primary h)" by (subst p) simp
  obtain m' hd where m': "from_raw_parts N E B n (msg_bytes m) seq = Some (Ok m')" "msg_primary m' = msg_primary m"
    "msg_recv_seq m' = seq" "message_header N E B n m' = Some (Ok hd)"
    "hd = h\<lparr>primary := msg_primary m, header_fields := (header_fields h)\<lparr>body_signature := wire_signature s\<rparr>\<rparr>"
    "body_deserialize N E B n m' = Some (Ok ?v)"
    by (rule message_roundtrip_aux [where B = B, OF h B n v(7,2-5,8), of seq])
      (use v(2,6) in \<open>simp_all add: body_args_plain s_def del: value_ok.simps plain.simps readable.simps\<close>)
  have "header_matches r hd = header_matches r h" for r
    using t by (simp add: header_matches_def m'(5) Let_def cong: option.case_cong path_spec.case_cong bus_name.case_cong)
  then have "matches N E B n r m' = Some (Ok (selects (Some r) hv))" if "r_arg0ns r = None" for r
    using m'(4) body_matches_structure [OF m'(6)] that
    by (cases "header_matches r h") (simp_all add: matches_def arg0_matches_def selects_def hv)
  then have "wants N E B n rule (Ok m') = Some (Ok (selects rule hv))" if "pred_option (\<lambda>r. r_arg0ns r = None) rule" for rule
    using that by (cases rule) (auto simp: wants_def selects_def hv)
  moreover have "arrives N E B n seq hv m'"
    using m'(2-6) p by (simp add: arrives_def hv Let_def s_def)
  ultimately show thesis using that fr m'(1) by metis
qed

end

context read_half
begin

lemma reader_delivers:
  assumes "wire_laws N E" "\<And>b. code b < 8 \<Longrightarrow> B b = Some b" "10 \<le> n"
    and rules: "\<And>rule. rule \<in> fst ` set ss \<Longrightarrow> pred_option (\<lambda>r. r_arg0ns r = None) rule"
  shows "list_all2 (built N E D n) hvs ms \<Longrightarrow>
    rd_bytes rd @ stream (rd_socket rd) = concat (map (\<lambda>m. data_bytes (msg_bytes m)) ms) \<Longrightarrow>
    stream_fds (rd_socket rd) = [] \<Longrightarrow> rd_fds rd = [] \<Longrightarrow>
    \<exists>ms'. length ms' = length hvs \<and>
      (\<forall>i < length hvs. arrives N E B n (rd_prev_seq rd + 1 + word_of_nat i) (hvs ! i) (ms' ! i)) \<and>
      receive_msg N E B n recv bc rd ss = Some (Ok (map (\<lambda>(rule, q). (rule,
        foldl bc q (map (\<lambda>(_, m). Ok m) (filter (\<lambda>(hv, _). selects rule hv) (zip hvs ms')) @ [Err IoError]))) ss))"
  using rules
proof (induction hvs arbitrary: ms rd ss)
  case Nil
  then have "read_socket N E B n recv rd = Some (Err IoError)"
    using receive_end [of "rd_bytes rd" "rd_socket rd"] by (simp add: read_socket_def Let_def)
  then show ?case by (simp add: receive_msg.simps [of N E B n recv bc rd] broadcast_error)
next
  case (Cons hv hvs)
  then obtain m ms1 where ms: "ms = m # ms1" "built N E D n hv m" "list_all2 (built N E D n) hvs ms1"
    by (auto simp: list_all2_Cons1)
  let ?rest = "concat (map (\<lambda>m. data_bytes (msg_bytes m)) ms1)" and ?seq = "rd_prev_seq rd + 1"
  obtain m' hl where m': "frame N E B (data_bytes (msg_bytes m) @ ?rest) = Some (Ok (msg_primary m, hl, data_bytes (msg_bytes m)))"
    "from_raw_parts N E B n (new_fds (data_bytes (msg_bytes m))
       \<lparr>c_endian = endian_of_sig (endian_sig (msg_primary m)), c_position = 0\<rparr> []) ?seq = Some (Ok m')"
    "arrives N E B n ?seq hv m'"
    "\<And>rule. pred_option (\<lambda>r. r_arg0ns r = None) rule \<Longrightarrow> wants N E B n rule (Ok m') = Some (Ok (selects rule hv))"
    by (rule wire_laws.built_arrives [where B = B and rest = ?rest and seq = ?seq, OF assms(1-3) ms(2)]) (assumption, rule that, assumption+)
  have "rd_bytes rd @ stream (rd_socket rd) = data_bytes (msg_bytes m) @ ?rest" using Cons.prems(2) ms(1) by simp
  from receive_first [OF this Cons.prems(3) m'(1), of n ?seq] m'(2) Cons.prems(4)
  obtain buf' s' where r: "read_socket N E B n recv rd =
      Some (Ok (m', \<lparr>rd_socket = s', rd_bytes = buf', rd_fds = [], rd_prev_seq = ?seq\<rparr>))"
    "buf' @ stream s' = ?rest" "stream_fds s' = []" by (auto simp: read_socket_def Let_def)
  let ?rd = "\<lparr>rd_socket = s', rd_bytes = buf', rd_fds = [], rd_prev_seq = ?seq\<rparr>"
  let ?ss = "map (\<lambda>(rule, q). (rule, if selects rule hv then bc q (Ok m') else q)) ss"
  have bc: "broadcast N E B n bc (Ok m') ss = Some (Ok ?ss)"
    by (rule broadcast_each) (use Cons.prems(5) m'(4) in blast)
  have "fst ` set ?ss = fst ` set ss" by force
  then obtain ms' where IH: "length ms' = length hvs"
      "\<forall>i < length hvs. arrives N E B n (?seq + 1 + word_of_nat i) (hvs ! i) (ms' ! i)"
      "receive_msg N E B n recv bc ?rd ?ss = Some (Ok (map (\<lambda>(rule, q). (rule,
        foldl bc q (map (\<lambda>(_, m). Ok m) (filter (\<lambda>(hv, _). selects rule hv) (zip hvs ms')) @ [Err IoError]))) ?ss))"
    using Cons.IH [OF ms(3), of ?rd ?ss] Cons.prems(5) r(2,3) by auto
  have "arrives N E B n (?seq + word_of_nat i) ((hv # hvs) ! i) ((m' # ms') ! i)" if "i < Suc (length hvs)" for i
    using that IH(2) m'(3) by (cases i) (auto simp: add.assoc)
  then show ?case
    using IH(1,3) r(1) bc
    by (intro exI [of _ "m' # ms'"]) (auto simp: receive_msg.simps [of N E B n recv bc rd])
qed

end

section \<open>Properties\<close>

text \<open>C2: Messages that the builder made and that are sent one after the other arrive, whatever the chunks are in
  which the socket gives their bytes: the reader ends at the end of the stream, and every stream gets,
  in their order and with successive sequence numbers, exactly the messages that its rule selects, with the
  headers and bodies they were built from, and then the error. The messages carry no file descriptors, no body is a structure of one
  structure, and no rule has an \<^verbatim>\<open>arg0\<close> namespace.\<close>

theorem messages_delivered:
  assumes "nom_laws N" "endi_laws E" "\<And>b. code b < 8 \<Longrightarrow> B b = Some b" "10 \<le> n"
    and "read_half recv stream stream_fds" "stream_fds s = []"
    and "list_all2 (built N E D n) hvs ms" "buf @ stream s = concat (map (\<lambda>m. data_bytes (msg_bytes m)) ms)"
    and "\<And>rule. rule \<in> fst ` set ss \<Longrightarrow> pred_option (\<lambda>r. r_arg0ns r = None) rule"
  shows "\<exists>ms'. length ms' = length hvs \<and>
    (\<forall>i < length hvs. arrives N E B n (1 + word_of_nat i) (hvs ! i) (ms' ! i)) \<and>
    receive_msg N E B n recv bc (reader_new s buf []) ss = Some (Ok (map (\<lambda>(rule, q). (rule,
      foldl bc q (map (\<lambda>(_, m). Ok m) (filter (\<lambda>(hv, _). selects rule hv) (zip hvs ms')) @ [Err IoError]))) ss))"
  using read_half.reader_delivers [where B = B and rd = "reader_new s buf []",
      OF assms(5) wire_laws.intro [OF assms(1,2)] assms(3,4,9,7)] assms(6,8)
  by (simp add: reader_new_def)

lemma sample_item_built:
  "\<exists>m. built nom_ref endi_ref (\<lambda>_. Some) 20 (sample_header, [U32 7]) m"
proof -
  obtain m where "build nom_ref endi_ref (\<lambda>_. Some) (signature.Structure [signature.U32])
     (serialize_inner nom_ref endi_ref (\<lambda>_. Some) sample_body) sample_header = Ok m"
    using sample_built by blast
  then show ?thesis
    using sample_body_facts(1-3,7-9) sample_builder by (auto simp: built_def sample_body_def Let_def)
qed

theorem messages_delivered_witness:
  "\<exists>m m'. built nom_ref endi_ref (\<lambda>_. Some) 20 (sample_header, [U32 7]) m \<and>
     arrives nom_ref endi_ref from_bits 20 1 (sample_header, [U32 7]) m' \<and>
     receive_msg nom_ref endi_ref from_bits 20 (fd_recvmsg chunk_sys) (\<lambda>q x. q @ [x])
       (reader_new (data_bytes (msg_bytes m), [], [0, 5, 1]) [] []) [(Some sample_filter, []), (Some (rule_msg_type Signal rule_new), [])] =
     Some (Ok [(Some sample_filter, [Ok m', Err IoError]), (Some (rule_msg_type Signal rule_new), [Err IoError])])"
proof -
  obtain m where m: "built nom_ref endi_ref (\<lambda>_. Some) 20 (sample_header, [U32 7]) m"
    using sample_item_built by blast
  have bits: "code b < 8 \<Longrightarrow> from_bits b = Some b" for b by (simp add: from_bits_def)
  let ?ss = "[(Some sample_filter, []), (Some (rule_msg_type Signal rule_new), [])]"
  have ns: "pred_option (\<lambda>r. r_arg0ns r = None) rule" if "rule \<in> fst ` set ?ss" for rule
    using that by (auto simp: sample_filter_def rule_new_def rule_msg_type_def)
  have sel: "selects (Some sample_filter) (sample_header, [U32 7])"
    "\<not> selects (Some (rule_msg_type Signal rule_new)) (sample_header, [U32 7])"
    by (simp_all add: selects_def sample_filter_def rule_new_def header_matches_def sample_header_def no_fields_def rule_msg_type_def)
  have le: "(10::nat) \<le> 20" by simp
  let ?s = "(data_bytes (msg_bytes m), [], [0, 5, 1])"
  have st: "(\<lambda>(_, fs, _). fs) ?s = []" "list_all2 (built nom_ref endi_ref (\<lambda>_. Some) 20) [(sample_header, [U32 7])] [m]"
    "[] @ fst ?s = concat (map (\<lambda>m. data_bytes (msg_bytes m)) [m])" using m by simp_all
  obtain ms' where "length ms' = length [(sample_header, [U32 7])]"
    "\<forall>i < length [(sample_header, [U32 7])].
       arrives nom_ref endi_ref from_bits 20 (1 + word_of_nat i) ([(sample_header, [U32 7])] ! i) (ms' ! i)"
    "receive_msg nom_ref endi_ref from_bits 20 (fd_recvmsg chunk_sys) (\<lambda>q x. q @ [x])
       (reader_new ?s [] []) ?ss = Some (Ok (map (\<lambda>(rule, q). (rule,
      foldl (\<lambda>q x. q @ [x]) q (map (\<lambda>(_, m). Ok m) (filter (\<lambda>(hv, _). selects rule hv) (zip [(sample_header, [U32 7])] ms')) @
        [Err IoError]))) ?ss))"
    using messages_delivered [OF nr.nom_laws_axioms er.endi_laws_axioms bits le cr.unix.read_half_axioms st ns,
      where bc = "\<lambda>q x. q @ [x]"] by blast
  with m sel show ?thesis
    by (intro exI [of _ m] exI [of _ "ms' ! 0"]) (cases ms', auto)
qed

section \<open>Messages that stop the reader\<close>

context wire_laws
begin

lemma frame_sent:
  assumes "header_sent h" "B (flags (primary h)) = Some (flags (primary h))" "enc_header E h (header_endian h) 0 = Ok hb"
    "unat (body_len (primary h)) = length body" "length hb + padding (length hb) 8 + length body \<le> MAX_MESSAGE_SIZE"
  shows "frame N E B (hb @ pad (length hb) 8 @ body @ rest) = Some (Ok (primary h, length hb, hb @ pad (length hb) 8 @ body))"
proof -
  obtain l where "primary_read N E B (take 16 (hb @ pad (length hb) 8 @ body @ rest)) = Some (Ok (primary h, l))"
      "length hb = 16 + unat l"
    using primary_read_header [where B = B, OF _ assms(2,3)] assms(1) by (auto simp: header_sent_def)
  then show ?thesis
    using assms(4,5) by (simp add: frame_def MIN_MESSAGE_SIZE_def Let_def padding_for_8_bytes_def)
qed

lemma take_fds_sent:
  assumes "header_sent h" "10 \<le> n" "enc_header E h (header_endian h) 0 = Ok hb" "held \<noteq> []"
  shows "take_fds N E n (header_endian h) (length hb) (hb @ r) fs held =
    (let k = required_fds (header_fields h) in
     if k < length fs then Some (Err ExcessData)
     else if k = length fs then Some (Err MissingParameter)
     else if length held < k - length fs then Some Panic
     else Some (Ok (take (k - length fs) held @ fs, drop (k - length fs) held)))"
proof -
  let ?e = "header_endian h"
  obtain pb l arr where hb: "enc_primary E (primary h) ?e 0 = Ok pb"
      "enc_fields E (header_fields h) ?e 12 = Ok (write_u32 E ?e l @ arr)" "hb = pb @ write_u32 E ?e l @ arr"
    using header_bytes [OF assms(3)] by blast
  note pb = primary_bytes [OF hb(1)]
  have bs: "take (length hb - PRIMARY_HEADER_SIZE) (drop PRIMARY_HEADER_SIZE (hb @ r)) = write_u32 E ?e l @ arr"
    using pb(1) hb(3) by (simp add: PRIMARY_HEADER_SIZE_def)
  have req: "required_fds (f\<lparr>body_signature := t\<rparr>) = required_fds f" for f t by (simp add: required_fds_def)
  obtain d1 d2 d3 where dep: "inc_array no_depths = Ok d1" "inc_structure d1 = Ok d2" "inc_variant d2 = Ok d3"
    using fields_depths by metis
  have "deserialize_for_signature FIELDS_SIGNATURE (deserialize_fields N E n)
      (new_fds (write_u32 E ?e l @ arr) \<lparr>c_endian = ?e, c_position = 12\<rparr> []) =
      Some (Ok ((header_fields h)\<lparr>body_signature := wire_signature (body_signature (header_fields h))\<rparr>, length (write_u32 E ?e l @ arr)))"
    using assms(1,2) entries_ok [of "header_fields h"] length_entries [of "header_fields h"] hb(2)
    by (intro deserialize_reads_as [where r = "[]", OF reads_as_fields [OF _ _ dep set_fields_entries, of "header_fields h"]])
      (auto simp: header_sent_def)
  then show ?thesis
    unfolding take_fds_def bs using assms(4) by (simp add: PRIMARY_HEADER_SIZE_def req Let_def)
qed

end

text \<open>If descriptors are left from the handshake, the next message has to need more descriptors than came
  with it, since they go before those: if it needs fewer or just those, it is an error, and if it needs
  more than there are, a panic.\<close>

theorem fds_of_handshake:
  assumes "nom_laws N" "endi_laws E" "header_sent h" "10 \<le> n" "enc_header E h (header_endian h) 0 = Ok hb" "held \<noteq> []"
  shows "take_fds N E n (header_endian h) (length hb) (hb @ r) fs held =
    (let k = required_fds (header_fields h) in
     if k < length fs then Some (Err ExcessData)
     else if k = length fs then Some (Err MissingParameter)
     else if length held < k - length fs then Some Panic
     else Some (Ok (take (k - length fs) held @ fs, drop (k - length fs) held)))"
  by (rule wire_laws.take_fds_sent [OF wire_laws.intro [OF assms(1,2)] assms(3-6)])

definition fds_header :: header where
  "fds_header = sample_header\<lparr>header_fields := no_fields\<lparr>unix_fds := Some 2\<rparr>\<rparr>"

theorem fds_of_handshake_witness:
  "\<exists>hb. enc_header endi_ref fds_header Little 0 = Ok hb \<and>
     take_fds nom_ref endi_ref 20 Little (length hb) hb [] [3] = Some Panic"
proof -
  have sent: "header_sent fds_header"
    by (simp add: header_sent_def fields_sent_def fds_header_def sample_header_def no_fields_def)
  have e: "header_endian fds_header = Little" by (simp add: fds_header_def sample_header_def endian_of_sig_def)
  have "\<exists>b. enc_header endi_ref fds_header Little 0 = Ok b \<and> length b \<le> 310 + 9 * 3"
    by (rule er.header_total) (auto simp: fds_header_def sample_header_def no_fields_def field_entries_def set_opt_entry)
  then obtain hb where hb: "enc_header endi_ref fds_header Little 0 = Ok hb" by blast
  have "required_fds (header_fields fds_header) = 2" by (simp add: required_fds_def fds_header_def sample_header_def no_fields_def)
  with fds_of_handshake [OF nr.nom_laws_axioms er.endi_laws_axioms sent, of 20 hb "[3]" "[]" "[]"] hb e
  show ?thesis by simp
qed

text \<open>C33: A message of a peer whose path, interface, member, error name or sender is not a valid name makes the
  reader panic as soon as one of its streams has a rule, here the first one; without rules the message is handed on.\<close>

theorem reader_panics:
  assumes "nom_laws N" "endi_laws E" "header_sent h" "B (flags (primary h)) = Some (flags (primary h))" "10 \<le> n"
    and "enc_header E h (header_endian h) 0 = Ok hb" "unat (body_len (primary h)) = length body"
    and "length hb + padding (length hb) 8 + length body \<le> MAX_MESSAGE_SIZE"
    and "read_half recv stream stream_fds" "stream_fds s = []" "stream s = hb @ pad (length hb) 8 @ body @ rest"
    and "\<not> fields_ok (header_fields h)"
  shows "receive_msg N E B n recv bc (reader_new s [] []) ((Some r, q) # ss) = Some Panic"
proof -
  let ?bs = "hb @ pad (length hb) 8 @ body"
  note laws = wire_laws.intro [OF assms(1,2)]
  obtain m where m: "from_raw_parts N E B n (new_fds ?bs \<lparr>c_endian = header_endian h, c_position = 0\<rparr> []) 1 = Some (Ok m)"
    "msg_quick_fields m = Some (quick_fields_new ((header_fields h)\<lparr>body_signature := wire_signature (body_signature (header_fields h))\<rparr>))"
    using wire_laws.from_raw_parts_header [where B = B, OF laws assms(3-6), of "pad (length hb) 8 @ body" "[]" 1] by auto
  have panic: "message_header N E B n m = Some Panic"
    using header_panics [OF _ assms(12) m(2)] assms(3) by (simp add: header_sent_def)
  have fr: "frame N E B (?bs @ rest) = Some (Ok (primary h, length hb, ?bs))"
    using wire_laws.frame_sent [where B = B, OF laws assms(3,4,6-8), of rest] by simp
  from read_half.receive_first [OF assms(9) _ assms(10) fr, of "[]" n 1] m(1) assms(11)
  obtain buf' s' where "receive_message N E B n recv 1 s [] [] = Some (Ok (m, buf', [], s'))" by auto
  then show ?thesis
    using panic by (simp add: receive_msg.simps reader_new_def read_socket_def wants_def matches_def)
qed

theorem reader_panics_witness:
  "\<exists>bs. receive_msg nom_ref endi_ref from_bits 20 (fd_recvmsg chunk_sys) (\<lambda>q x. q @ [x])
     (reader_new (bs, [], [0, 5, 1]) [] []) [(Some rule_new, [])] = Some Panic"
proof -
  obtain hb where hb: "enc_header endi_ref peer_header Little 0 = Ok hb" "length hb \<le> 337" using peer_header_facts(4) by blast
  let ?s = "(hb @ pad (length hb) 8, [], [0, 5, 1])"
  have "length hb + padding (length hb) 8 + length [] \<le> MAX_MESSAGE_SIZE"
    using hb(2) padding_bounds(1) [of 8 "length hb"] by (simp add: MAX_MESSAGE_SIZE_def)
  moreover have "unat (body_len (primary peer_header)) = length []" by (simp add: peer_header_def sample_header_def)
  moreover have "(10 :: nat) \<le> 20" by simp
  ultimately have "receive_msg nom_ref endi_ref from_bits 20 (fd_recvmsg chunk_sys) (\<lambda>q x. q @ [x])
     (reader_new ?s [] []) ((Some rule_new, []) # []) = Some Panic"
    using hb(1) peer_header_facts(1-3,5)
    by (intro reader_panics [where h = peer_header and hb = hb and body = "[]" and rest = "[]",
        OF nr.nom_laws_axioms er.endi_laws_axioms _ _ _ _ _ _ cr.unix.read_half_axioms]) simp_all
  then show ?thesis by blast
qed

end
