(* ===== verification/Subscriptions.thy ===== *)
theory Subscriptions
  imports Socket_Reader "HOL-Library.AList" "HOL-Library.Multiset"
begin

text \<open>
  The match rules of a connection (\<^verbatim>\<open>add_match\<close> and \<^verbatim>\<open>remove_match\<close> of \<^verbatim>\<open>zbus/src/connection/mod.rs\<close>) and the streams
  that hold them (\<^verbatim>\<open>zbus/src/message_stream.rs\<close>).

  A queue of \<^verbatim>\<open>async_broadcast\<close> is known by a number, given out in the order of creation, and its capacity.
  \<open>add_rule\<close> and \<open>remove_rule\<close> are the calls of \<^verbatim>\<open>AddMatch\<close> and \<^verbatim>\<open>RemoveMatch\<close> on the bus, whose state is \<open>'b\<close>. The counter
  of a rule has 64 bits; an overflow of it panics. The removals that dropped streams have queued for the executor are part of the state, and
  are run in any order.
\<close>

section \<open>Rules and queues\<close>

definition DEFAULT_MAX_QUEUED :: nat where "DEFAULT_MAX_QUEUED = 64"
definition DEFAULT_MAX_METHOD_RETURN_QUEUED :: nat where "DEFAULT_MAX_METHOD_RETURN_QUEUED = 8"

record 'b subs =
  sb_bus_conn :: bool
  sb_bus :: 'b
  sb_senders :: "nat senders"
  sb_subscriptions :: "match_rule \<rightharpoonup> u64 \<times> nat"
  sb_capacity :: "nat \<Rightarrow> nat"
  sb_next :: nat
  sb_tasks :: "match_rule list"

type_synonym 'b bus_call = "match_rule \<Rightarrow> 'b \<Rightarrow> (error, unit) res \<times> 'b"

definition return_rule :: match_rule where "return_rule = rule_msg_type MethodReturn rule_new"
definition error_rule :: match_rule where "error_rule = rule_msg_type ErrorType rule_new"

text \<open>The queues of a new connection: that without a rule, and one for the returns and errors of all calls.\<close>

definition subs_new :: "bool \<Rightarrow> 'b \<Rightarrow> 'b subs" where
  "subs_new bus_conn b = \<lparr>sb_bus_conn = bus_conn, sb_bus = b,
     sb_senders = [(None, 0), (Some return_rule, 1), (Some error_rule, 1)], sb_subscriptions = Map.empty,
     sb_capacity = (\<lambda>_. 0)(0 := DEFAULT_MAX_QUEUED, 1 := DEFAULT_MAX_METHOD_RETURN_QUEUED), sb_next = 2, sb_tasks = []\<rparr>"

definition bus_rule :: "'b subs \<Rightarrow> match_rule \<Rightarrow> bool" where
  "bus_rule st rule \<longleftrightarrow> sb_bus_conn st \<and> (case r_type rule of Some t \<Rightarrow> t | None \<Rightarrow> Signal) = Signal"

definition ask_bus :: "'b bus_call \<Rightarrow> match_rule \<Rightarrow> 'b subs \<Rightarrow> (error, unit) res \<times> 'b subs" where
  "ask_bus call rule st =
     (if bus_rule st rule then (case call rule (sb_bus st) of (r, b) \<Rightarrow> (r, st\<lparr>sb_bus := b\<rparr>)) else (Ok (), st))"

definition add_match :: "'b bus_call \<Rightarrow> match_rule \<Rightarrow> nat option \<Rightarrow> 'b subs \<Rightarrow> (error, nat) res \<times> 'b subs" where
  "add_match add_rule rule max_queued st =
     (if sb_senders st = [] then (Err IoError, st)
      else
        case sb_subscriptions st rule of
          None \<Rightarrow>
            (case ask_bus add_rule rule st of
               (Err e, st) \<Rightarrow> (Err e, st)
             | (Panic, st) \<Rightarrow> (Panic, st)
             | (Ok _, st) \<Rightarrow>
                 let ch = sb_next st; cap = (case max_queued of Some k \<Rightarrow> k | None \<Rightarrow> DEFAULT_MAX_QUEUED) in
                 (Ok ch, st\<lparr>sb_subscriptions := (sb_subscriptions st)(rule \<mapsto> (1, ch)),
                   sb_senders := AList.update (Some rule) ch (sb_senders st),
                   sb_capacity := (sb_capacity st)(ch := cap), sb_next := Suc ch\<rparr>))
        | Some (k, ch) \<Rightarrow>
            if k = -1 then (Panic, st)
            else
              let cap = (case max_queued of Some j \<Rightarrow> max j (sb_capacity st ch) | None \<Rightarrow> sb_capacity st ch) in
              (Ok ch, st\<lparr>sb_subscriptions := (sb_subscriptions st)(rule \<mapsto> (k + 1, ch)),
                sb_capacity := (sb_capacity st)(ch := cap)\<rparr>))"

text \<open>The counter goes down before the bus is asked; if that fails the entry stays.\<close>

definition remove_match :: "'b bus_call \<Rightarrow> match_rule \<Rightarrow> 'b subs \<Rightarrow> (error, bool) res \<times> 'b subs" where
  "remove_match remove_rule rule st =
     (case sb_subscriptions st rule of
        None \<Rightarrow> (Ok False, st)
      | Some (k, ch) \<Rightarrow>
          if k = 0 then (Panic, st)
          else
            let st = st\<lparr>sb_subscriptions := (sb_subscriptions st)(rule \<mapsto> (k - 1, ch))\<rparr> in
            if k = 1 then
              (case ask_bus remove_rule rule st of
                 (Err e, st) \<Rightarrow> (Err e, st)
               | (Panic, st) \<Rightarrow> (Panic, st)
               | (Ok _, st) \<Rightarrow> (Ok True, st\<lparr>sb_subscriptions := (sb_subscriptions st)(rule := None),
                   sb_senders := AList.delete (Some rule) (sb_senders st)\<rparr>))
            else (Ok True, st))"

section \<open>Streams\<close>

record message_stream =
  ms_receiver :: nat
  ms_match_rule :: "match_rule option"

definition for_match_rule :: "'b bus_call \<Rightarrow> match_rule \<Rightarrow> nat option \<Rightarrow> 'b subs \<Rightarrow> (error, message_stream) res \<times> 'b subs" where
  "for_match_rule add_rule rule max_queued st =
     (case add_match add_rule rule max_queued st of
        (Ok ch, st) \<Rightarrow> (Ok \<lparr>ms_receiver = ch, ms_match_rule = Some rule\<rparr>, st)
      | (Err e, st) \<Rightarrow> (Err e, st)
      | (Panic, st) \<Rightarrow> (Panic, st))"

definition stream_of_connection :: "'b subs \<Rightarrow> message_stream" where
  "stream_of_connection st = \<lparr>ms_receiver = 0, ms_match_rule = None\<rparr>"

text \<open>\<^verbatim>\<open>queue_remove_match\<close> spawns a task of the executor that removes the rule, and nobody looks at its result. \<open>run_removal\<close> runs one of
  these tasks.\<close>

definition queue_remove_match :: "match_rule \<Rightarrow> 'b subs \<Rightarrow> 'b subs" where
  "queue_remove_match rule st = st\<lparr>sb_tasks := sb_tasks st @ [rule]\<rparr>"

definition remove_nth :: "nat \<Rightarrow> 'a list \<Rightarrow> 'a list" where
  "remove_nth i xs = take i xs @ drop (Suc i) xs"

definition removal_done :: "(error, bool) res \<times> 'b subs \<Rightarrow> (error, unit) res \<times> 'b subs" where
  "removal_done x = (case x of (Panic, st) \<Rightarrow> (Panic, st) | (_, st) \<Rightarrow> (Ok (), st))"

definition run_removal :: "'b bus_call \<Rightarrow> nat \<Rightarrow> 'b subs \<Rightarrow> (error, unit) res \<times> 'b subs" where
  "run_removal remove_rule k st =
     removal_done (remove_match remove_rule (sb_tasks st ! k) (st\<lparr>sb_tasks := remove_nth k (sb_tasks st)\<rparr>))"

text \<open>Dropping a stream queues the removal of its rule; \<^verbatim>\<open>async_drop\<close> removes it at once, and an error is only logged.\<close>

definition stream_drop :: "message_stream \<Rightarrow> 'b subs \<Rightarrow> 'b subs" where
  "stream_drop s st = (case ms_match_rule s of None \<Rightarrow> st | Some rule \<Rightarrow> queue_remove_match rule st)"

definition stream_async_drop :: "'b bus_call \<Rightarrow> message_stream \<Rightarrow> 'b subs \<Rightarrow> (error, unit) res \<times> 'b subs" where
  "stream_async_drop remove_rule s st =
     (case ms_match_rule s of None \<Rightarrow> (Ok (), st) | Some rule \<Rightarrow> removal_done (remove_match remove_rule rule st))"

definition set_max_queued :: "message_stream \<Rightarrow> nat \<Rightarrow> 'b subs \<Rightarrow> 'b subs" where
  "set_max_queued s k st =
     (if k \<le> sb_capacity st (ms_receiver s) then st else st\<lparr>sb_capacity := (sb_capacity st)(ms_receiver s := k)\<rparr>)"

text \<open>The history of a connection: its queues and the streams that are open. Streams are opened for rules and
  dropped, in either way, the executor runs a queued removal, and the socket reader may end and clear the senders. \<open>clone_stream\<close> is what the derived \<^verbatim>\<open>Clone\<close> of a
  stream does: the same receiver and rule once more, without a look at the connection.\<close>

datatype stream_event =
    Open match_rule "nat option"
  | Drop nat
  | Async_Drop nat
  | Run nat
  | Clone_Stream nat
  | Reader_End

definition clone_stream :: "message_stream \<Rightarrow> message_stream" where
  "clone_stream s = s"

inductive stream_step ::
  "'b bus_call \<Rightarrow> 'b bus_call \<Rightarrow> stream_event \<Rightarrow> 'b subs \<times> message_stream list \<Rightarrow> 'b subs \<times> message_stream list \<Rightarrow> bool"
  for add_rule remove_rule where
  open_ok: "for_match_rule add_rule rule q st = (Ok s, st') \<Longrightarrow>
    stream_step add_rule remove_rule (Open rule q) (st, ss) (st', s # ss)"
| open_err: "for_match_rule add_rule rule q st = (Err e, st') \<Longrightarrow>
    stream_step add_rule remove_rule (Open rule q) (st, ss) (st', ss)"
| dropped: "i < length ss \<Longrightarrow>
    stream_step add_rule remove_rule (Drop i) (st, ss) (stream_drop (ss ! i) st, remove_nth i ss)"
| async_dropped: "i < length ss \<Longrightarrow> stream_async_drop remove_rule (ss ! i) st = (Ok (), st') \<Longrightarrow>
    stream_step add_rule remove_rule (Async_Drop i) (st, ss) (st', remove_nth i ss)"
| run: "k < length (sb_tasks st) \<Longrightarrow> run_removal remove_rule k st = (Ok (), st') \<Longrightarrow>
    stream_step add_rule remove_rule (Run k) (st, ss) (st', ss)"
| cloned: "i < length ss \<Longrightarrow>
    stream_step add_rule remove_rule (Clone_Stream i) (st, ss) (st, clone_stream (ss ! i) # ss)"
| ended: "stream_step add_rule remove_rule Reader_End (st, ss) (st\<lparr>sb_senders := []\<rparr>, ss)"

inductive stream_steps ::
  "'b bus_call \<Rightarrow> 'b bus_call \<Rightarrow> 'b subs \<times> message_stream list \<Rightarrow> stream_event list \<Rightarrow> 'b subs \<times> message_stream list \<Rightarrow> bool"
  for add_rule remove_rule where
  none: "stream_steps add_rule remove_rule x [] x"
| snoc: "stream_steps add_rule remove_rule x es y \<Longrightarrow> stream_step add_rule remove_rule e y z \<Longrightarrow>
    stream_steps add_rule remove_rule x (es @ [e]) z"

inductive_cases stream_stepE: "stream_step add_rule remove_rule e x y"

section \<open>The bus\<close>

text \<open>What the bus is documented to do: it keeps the rules of a connection with their multiplicities. A call that
  fails changes nothing.\<close>

locale match_bus =
  fixes add_rule remove_rule :: "'b bus_call" and rules :: "'b \<Rightarrow> match_rule multiset"
  assumes add_rule_laws: "add_rule r b = (res, b') \<Longrightarrow>
      res \<noteq> Panic \<and> rules b' = (if res = Ok () then add_mset r (rules b) else rules b)"
    and remove_rule_laws: "remove_rule r b = (res, b') \<Longrightarrow>
      res \<noteq> Panic \<and> (res = Ok () \<longrightarrow> r \<in># rules b) \<and> rules b' = (if res = Ok () then rules b - {#r#} else rules b)"

text \<open>What the state of a connection says of the streams that have not given back their rule: the counter of a rule is the number of its
  streams, each of them has the queue of the rule, and the bus has exactly the rules for signals.\<close>

definition stream_count :: "message_stream list \<Rightarrow> match_rule \<Rightarrow> nat" where
  "stream_count ss rule = length (filter (\<lambda>s. ms_match_rule s = Some rule) ss)"

definition rule_count :: "'b subs \<Rightarrow> match_rule \<Rightarrow> nat" where
  "rule_count st rule = (case sb_subscriptions st rule of None \<Rightarrow> 0 | Some (k, _) \<Rightarrow> unat k)"

definition counters_ok :: "'b subs \<Rightarrow> message_stream list \<Rightarrow> bool" where
  "counters_ok st ss \<longleftrightarrow>
     (\<forall>rule. rule_count st rule = stream_count ss rule) \<and>
     (\<forall>rule k ch. sb_subscriptions st rule = Some (k, ch) \<longrightarrow> 2 \<le> ch \<and> ch < sb_next st) \<and>
     (\<forall>s \<in> set ss. \<forall>rule. ms_match_rule s = Some rule \<longrightarrow> (\<exists>k. sb_subscriptions st rule = Some (k, ms_receiver s))) \<and>
     2 \<le> sb_next st"

definition senders_ok :: "'b subs \<Rightarrow> bool" where
  "senders_ok st \<longleftrightarrow> sb_senders st = [] \<or>
     (map_of (sb_senders st) None = Some 0 \<and>
      (\<forall>rule. map_of (sb_senders st) (Some rule) =
         (if rule = return_rule \<or> rule = error_rule then Some 1 else map_option snd (sb_subscriptions st rule))))"

definition queues_distinct :: "'b subs \<Rightarrow> bool" where
  "queues_distinct st \<longleftrightarrow>
     (\<forall>rule rule' k k' ch. sb_subscriptions st rule = Some (k, ch) \<longrightarrow> sb_subscriptions st rule' = Some (k', ch) \<longrightarrow> rule = rule')"

definition bus_ok :: "('b \<Rightarrow> match_rule multiset) \<Rightarrow> 'b subs \<Rightarrow> bool" where
  "bus_ok rules st \<longleftrightarrow>
     (\<forall>rule. count (rules (sb_bus st)) rule = (if bus_rule st rule \<and> sb_subscriptions st rule \<noteq> None then 1 else 0))"

definition subs_ok :: "('b \<Rightarrow> match_rule multiset) \<Rightarrow> 'b subs \<Rightarrow> message_stream list \<Rightarrow> bool" where
  "subs_ok rules st ss \<longleftrightarrow> counters_ok st ss \<and> senders_ok st \<and> queues_distinct st \<and> bus_ok rules st"

text \<open>These are the open streams and, one for each queued removal, those that were dropped.\<close>

definition streams_ok :: "('b \<Rightarrow> match_rule multiset) \<Rightarrow> 'b subs \<Rightarrow> message_stream list \<Rightarrow> bool" where
  "streams_ok rules st ss \<longleftrightarrow> (\<exists>gone. map ms_match_rule gone = map Some (sb_tasks st) \<and> subs_ok rules st (ss @ gone))"

lemma bus_rule_simps [simp]:
  "bus_rule (st\<lparr>sb_bus := b\<rparr>) = bus_rule st" "bus_rule (st\<lparr>sb_senders := x\<rparr>) = bus_rule st"
  "bus_rule (st\<lparr>sb_subscriptions := y\<rparr>) = bus_rule st" "bus_rule (st\<lparr>sb_capacity := z\<rparr>) = bus_rule st"
  "bus_rule (st\<lparr>sb_next := n\<rparr>) = bus_rule st" "bus_rule (st\<lparr>sb_tasks := t\<rparr>) = bus_rule st"
  by (simp_all add: bus_rule_def fun_eq_iff)

lemma stream_count_Cons [simp]:
  "stream_count (s # ss) rule = (if ms_match_rule s = Some rule then 1 else 0) + stream_count ss rule"
  by (simp add: stream_count_def)

lemma remove_nth_split:
  assumes "i < length ss"
  obtains a b where "ss = a @ ss ! i # b" "remove_nth i ss = a @ b"
  using assms id_take_nth_drop [OF assms] unfolding remove_nth_def by blast

lemma stream_count_remove:
  assumes "i < length ss"
  shows "stream_count ss rule = (if ms_match_rule (ss ! i) = Some rule then 1 else 0) + stream_count (remove_nth i ss) rule"
    "set (remove_nth i ss) \<subseteq> set ss"
proof -
  obtain a b where ab: "ss = a @ ss ! i # b" "remove_nth i ss = a @ b" using remove_nth_split [OF assms] .
  have "stream_count (a @ ss ! i # b) rule = (if ms_match_rule (ss ! i) = Some rule then 1 else 0) + stream_count (a @ b) rule"
    by (simp add: stream_count_def)
  then show "stream_count ss rule = (if ms_match_rule (ss ! i) = Some rule then 1 else 0) + stream_count (remove_nth i ss) rule"
    using ab by simp
  have "set (a @ b) \<subseteq> set (a @ ss ! i # b)" by auto
  then show "set (remove_nth i ss) \<subseteq> set ss" using ab by simp
qed

lemma subs_new_ok:
  assumes "rules b = {#}"
  shows "subs_ok rules (subs_new bus_conn b) []"
proof -
  have "return_rule \<noteq> error_rule" by (simp add: return_rule_def error_rule_def rule_msg_type_def rule_new_def)
  then show ?thesis
    using assms
    by (simp add: subs_ok_def counters_ok_def senders_ok_def queues_distinct_def bus_ok_def subs_new_def stream_count_def rule_count_def)
qed

lemma ok_bus_irrelevant [simp]:
  "counters_ok (st\<lparr>sb_bus := b\<rparr>) ss = counters_ok st ss" "senders_ok (st\<lparr>sb_bus := b\<rparr>) = senders_ok st"
  "queues_distinct (st\<lparr>sb_bus := b\<rparr>) = queues_distinct st"
  by (simp_all add: counters_ok_def senders_ok_def queues_distinct_def rule_count_def)

lemma ok_tasks_irrelevant [simp]: "subs_ok rules (st\<lparr>sb_tasks := t\<rparr>) ss = subs_ok rules st ss"
  by (simp add: subs_ok_def counters_ok_def senders_ok_def queues_distinct_def bus_ok_def rule_count_def)

lemma subs_ok_permuted:
  assumes "mset ss = mset ss'"
  shows "subs_ok rules st ss = subs_ok rules st ss'"
proof -
  have "stream_count ss = stream_count ss'"
    using arg_cong [OF assms, where f = "\<lambda>m. size (filter_mset _ m)"] by (simp add: stream_count_def fun_eq_iff flip: mset_filter)
  moreover have "set ss = set ss'" using assms by (rule mset_eq_setD)
  ultimately show ?thesis by (simp add: subs_ok_def counters_ok_def)
qed

lemma tasks_kept:
  "sb_tasks (snd (add_match add_rule rule q st)) = sb_tasks st" "sb_tasks (snd (remove_match remove_rule rule st)) = sb_tasks st"
  by (auto simp: add_match_def remove_match_def ask_bus_def Let_def split: option.splits prod.splits res.splits)

text \<open>The counters after a change of one entry.\<close>

lemma counters_ok_set:
  assumes "counters_ok st ss" "sb_subscriptions st' = (sb_subscriptions st)(rule \<mapsto> (k, ch))" "2 \<le> ch" "ch < sb_next st'"
    "sb_next st \<le> sb_next st'" "unat k = stream_count ss' rule" "\<And>r. r \<noteq> rule \<Longrightarrow> stream_count ss' r = stream_count ss r"
    "\<And>s. s \<in> set ss' \<Longrightarrow> ms_match_rule s = Some rule \<Longrightarrow> ms_receiver s = ch"
    "\<And>s. s \<in> set ss' \<Longrightarrow> ms_match_rule s \<noteq> Some rule \<Longrightarrow> s \<in> set ss"
  shows "counters_ok st' ss'"
  unfolding counters_ok_def
proof (intro conjI allI ballI impI)
  fix r
  show "rule_count st' r = stream_count ss' r"
    using assms(1,2,6,7) by (cases "r = rule") (auto simp: counters_ok_def rule_count_def)
next
  fix r k' ch'
  assume "sb_subscriptions st' r = Some (k', ch')"
  then show "2 \<le> ch'" "ch' < sb_next st'"
    using assms(1-5) by (auto simp: counters_ok_def split: if_splits) (meson less_le_trans)
next
  fix s r
  assume "s \<in> set ss'" "ms_match_rule s = Some r"
  then show "\<exists>k. sb_subscriptions st' r = Some (k, ms_receiver s)"
    using assms(1,2,8,9) by (cases "r = rule") (auto simp: counters_ok_def)
next
  show "2 \<le> sb_next st'" using assms(1,5) by (simp add: counters_ok_def)
qed

lemma counters_ok_clear:
  assumes "counters_ok st ss" "sb_subscriptions st' = (sb_subscriptions st)(rule := None)" "sb_next st' = sb_next st"
    "stream_count ss rule = 0"
  shows "counters_ok st' ss"
proof -
  have none: "ms_match_rule s \<noteq> Some rule" if "s \<in> set ss" for s
    using assms(4) that by (auto simp: stream_count_def filter_empty_conv)
  have "rule_count st' r = stream_count ss r" for r
    using assms by (cases "r = rule") (simp_all add: counters_ok_def rule_count_def)
  with assms(1-3) none show ?thesis by (auto simp: counters_ok_def)
qed

lemma counters_ok_receiver:
  "counters_ok st ss \<Longrightarrow> s \<in> set ss \<Longrightarrow> ms_match_rule s = Some rule \<Longrightarrow> \<exists>k. sb_subscriptions st rule = Some (k, ms_receiver s)"
  by (auto simp: counters_ok_def)

lemma counters_ok_none: "counters_ok st ss \<Longrightarrow> sb_subscriptions st rule = None \<Longrightarrow> stream_count ss rule = 0"
  by (metis counters_ok_def option.simps(4) rule_count_def)

lemma counters_ok_some: "counters_ok st ss \<Longrightarrow> sb_subscriptions st rule = Some (k, ch) \<Longrightarrow> stream_count ss rule = unat k \<and> 2 \<le> ch \<and> ch < sb_next st"
  by (metis counters_ok_def option.simps(5) prod.case rule_count_def)

text \<open>A stream without a rule does not count.\<close>

lemma without_rule:
  "subs_ok rules st ss \<Longrightarrow> ss = a @ s # b \<Longrightarrow> ms_match_rule s = None \<Longrightarrow> subs_ok rules st (a @ b)"
  by (auto simp: subs_ok_def counters_ok_def stream_count_def)

text \<open>No stream, open or dropped, is for the two rules of the connection itself.\<close>

definition not_reserved :: "'b subs \<times> message_stream list \<Rightarrow> bool" where
  "not_reserved x \<longleftrightarrow> (\<forall>s \<in> set (snd x). ms_match_rule s \<notin> {Some return_rule, Some error_rule}) \<and>
     return_rule \<notin> set (sb_tasks (fst x)) \<and> error_rule \<notin> set (sb_tasks (fst x))"

context match_bus
begin

lemma ask_bus_add:
  obtains r b' where "ask_bus add_rule rule st = (r, st\<lparr>sb_bus := b'\<rparr>)" "r \<noteq> Panic"
    "rules b' = (if bus_rule st rule \<and> r = Ok () then add_mset rule (rules (sb_bus st)) else rules (sb_bus st))"
proof (cases "bus_rule st rule")
  case True
  then show ?thesis
    using that add_rule_laws [of rule "sb_bus st"] by (cases "add_rule rule (sb_bus st)") (auto simp: ask_bus_def)
next
  case False
  then show ?thesis using that [of "Ok ()" "sb_bus st"] by (simp add: ask_bus_def)
qed

lemma ask_bus_remove:
  obtains r b' where "ask_bus remove_rule rule st = (r, st\<lparr>sb_bus := b'\<rparr>)" "r \<noteq> Panic"
    "rules b' = (if bus_rule st rule \<and> r = Ok () then rules (sb_bus st) - {#rule#} else rules (sb_bus st))"
proof (cases "bus_rule st rule")
  case True
  then show ?thesis
    using that remove_rule_laws [of rule "sb_bus st"] by (cases "remove_rule rule (sb_bus st)") (auto simp: ask_bus_def)
next
  case False
  then show ?thesis using that [of "Ok ()" "sb_bus st"] by (simp add: ask_bus_def)
qed

lemma add_match_fresh:
  assumes "subs_ok rules st ss" "sb_senders st \<noteq> []" "sb_subscriptions st rule = None" "rule \<noteq> return_rule" "rule \<noteq> error_rule"
  shows "(\<exists>e st'. add_match add_rule rule q st = (Err e, st') \<and> subs_ok rules st' ss) \<or>
    (\<exists>ch st'. add_match add_rule rule q st = (Ok ch, st') \<and> subs_ok rules st' (\<lparr>ms_receiver = ch, ms_match_rule = Some rule\<rparr> # ss))"
proof -
  obtain r b1 where a: "ask_bus add_rule rule st = (r, st\<lparr>sb_bus := b1\<rparr>)" "r \<noteq> Panic"
      "rules b1 = (if bus_rule st rule \<and> r = Ok () then add_mset rule (rules (sb_bus st)) else rules (sb_bus st))"
    by (rule ask_bus_add)
  note ok = assms(1) [unfolded subs_ok_def]
  show ?thesis
  proof (cases r)
    case (Err e)
    then show ?thesis
      using ok assms(2,3) a by (simp add: add_match_def subs_ok_def bus_ok_def)
  next
    case (Ok u)
    let ?ch = "sb_next st" and ?s = "\<lparr>ms_receiver = sb_next st, ms_match_rule = Some rule\<rparr>"
    let ?cap = "case q of Some k \<Rightarrow> k | None \<Rightarrow> DEFAULT_MAX_QUEUED"
    let ?st = "st\<lparr>sb_bus := b1, sb_subscriptions := (sb_subscriptions st)(rule \<mapsto> (1, ?ch)),
      sb_senders := AList.update (Some rule) ?ch (sb_senders st), sb_capacity := (sb_capacity st)(?ch := ?cap), sb_next := Suc ?ch\<rparr>"
    have "add_match add_rule rule q st = (Ok ?ch, ?st)"
      using assms(2,3) a(1) Ok by (simp add: add_match_def Let_def)
    moreover have "counters_ok ?st (?s # ss)"
    proof (rule counters_ok_set)
      show "counters_ok st ss" "2 \<le> ?ch" using ok by (simp_all add: counters_ok_def)
    qed (use ok assms(3) counters_ok_none [of st ss rule] in \<open>auto dest: counters_ok_receiver split: if_splits\<close>)
    moreover have "senders_ok ?st"
      using ok assms(2,4,5) by (auto simp: senders_ok_def update_conv')
    moreover have "queues_distinct ?st"
      using ok assms(3) by (fastforce simp: queues_distinct_def counters_ok_def)
    moreover have "bus_ok rules ?st"
      using ok a(3) assms(3) Ok by (auto simp: bus_ok_def)
    ultimately show ?thesis by (auto simp: subs_ok_def)
  qed (use a in simp)
qed

lemma add_match_again:
  assumes "subs_ok rules st ss" "sb_senders st \<noteq> []" "sb_subscriptions st rule = Some (k, ch)" "k \<noteq> -1"
  shows "\<exists>st'. add_match add_rule rule q st = (Ok ch, st') \<and> subs_ok rules st' (\<lparr>ms_receiver = ch, ms_match_rule = Some rule\<rparr> # ss)"
proof -
  note ok = assms(1) [unfolded subs_ok_def]
  let ?cap = "case q of Some j \<Rightarrow> max j (sb_capacity st ch) | None \<Rightarrow> sb_capacity st ch"
  let ?st = "st\<lparr>sb_subscriptions := (sb_subscriptions st)(rule \<mapsto> (k + 1, ch)), sb_capacity := (sb_capacity st)(ch := ?cap)\<rparr>"
  have k: "unat (k + 1) = Suc (unat k)" using assms(4) by (metis Suc_eq_plus1 add.commute add_eq_0_iff unatSuc)
  have "add_match add_rule rule q st = (Ok ch, ?st)" using assms(2-4) by (simp add: add_match_def Let_def)
  moreover have "counters_ok ?st (\<lparr>ms_receiver = ch, ms_match_rule = Some rule\<rparr> # ss)"
  proof (rule counters_ok_set)
    show "counters_ok st ss" using ok by simp
  qed (use ok assms(3) k counters_ok_some [of st ss rule k ch] in \<open>auto dest: counters_ok_receiver split: if_splits\<close>)
  moreover have "senders_ok ?st" using ok assms(3) by (auto simp: senders_ok_def)
  moreover have "queues_distinct ?st" using ok assms(3) by (auto simp: queues_distinct_def)
  moreover have "bus_ok rules ?st" using ok assms(3) by (auto simp: bus_ok_def)
  ultimately show ?thesis by (auto simp: subs_ok_def)
qed

lemma remove_match_open:
  assumes "subs_ok rules st ss" "i < length ss" "ms_match_rule (ss ! i) = Some rule" "rule \<noteq> return_rule" "rule \<noteq> error_rule"
  shows "\<exists>r st'. remove_match remove_rule rule st = (r, st') \<and> r \<noteq> Panic \<and> subs_ok rules st' (remove_nth i ss)"
proof -
  note ok = assms(1) [unfolded subs_ok_def]
  obtain k ch where e: "sb_subscriptions st rule = Some (k, ch)" "2 \<le> ch" "ch < sb_next st" "stream_count ss rule = unat k"
    using ok assms(2,3) counters_ok_receiver [of st ss "ss ! i" rule] counters_ok_some [of st ss rule] by fastforce
  note c = stream_count_remove [OF assms(2)]
  have "k \<noteq> 0" using e(4) c(1) [of rule] assms(3) by auto
  then have k: "k \<noteq> 0" "unat (k - 1) = stream_count (remove_nth i ss) rule"
    using e(4) c(1) [of rule] assms(3) by (simp_all add: unat_minus_one)
  let ?st = "st\<lparr>sb_subscriptions := (sb_subscriptions st)(rule \<mapsto> (k - 1, ch))\<rparr>"
  have st: "subs_ok rules ?st (remove_nth i ss)"
  proof -
    have "counters_ok ?st (remove_nth i ss)"
    proof (rule counters_ok_set)
      show "counters_ok st ss" using ok by simp
    qed (use ok e k c assms(3) in \<open>auto dest: counters_ok_receiver split: if_splits\<close>)
    then show ?thesis
      using ok e(1) by (auto simp: subs_ok_def senders_ok_def queues_distinct_def bus_ok_def)
  qed
  show ?thesis
  proof (cases "k = 1")
    case False
    then show ?thesis using e(1) k(1) st by (simp add: remove_match_def Let_def)
  next
    case True
    obtain r b1 where a: "ask_bus remove_rule rule ?st = (r, ?st\<lparr>sb_bus := b1\<rparr>)" "r \<noteq> Panic"
        "rules b1 = (if bus_rule ?st rule \<and> r = Ok () then rules (sb_bus ?st) - {#rule#} else rules (sb_bus ?st))"
      by (rule ask_bus_remove)
    show ?thesis
    proof (cases r)
      case (Err e)
      then show ?thesis
        using a st \<open>sb_subscriptions st rule = Some (k, ch)\<close> k(1) True by (simp add: remove_match_def subs_ok_def bus_ok_def)
    next
      case (Ok u)
      let ?st1 = "st\<lparr>sb_subscriptions := (sb_subscriptions st)(rule := None), sb_bus := b1,
        sb_senders := AList.delete (Some rule) (sb_senders st)\<rparr>"
      have none: "stream_count (remove_nth i ss) rule = 0" using k(2) True by simp
      have "remove_match remove_rule rule st = (Ok True, ?st1)"
        using e(1) k(1) True a(1) Ok by (simp add: remove_match_def)
      moreover have "counters_ok ?st1 (remove_nth i ss)"
        by (rule counters_ok_clear [of ?st _ _ rule]) (use st none in \<open>simp_all add: subs_ok_def\<close>)
      moreover have "senders_ok ?st1"
        using ok assms(4,5) by (cases "sb_senders st = []") (simp_all add: senders_ok_def delete_conv')
      moreover have "queues_distinct ?st1" using ok by (auto simp: queues_distinct_def)
      moreover have "bus_ok rules ?st1"
        using ok a(3) Ok e(1) by (auto simp: bus_ok_def)
      ultimately show ?thesis by (simp add: subs_ok_def)
    qed (use a(2) in simp)
  qed
qed

lemma for_match_rule_ok:
  assumes "for_match_rule add_rule rule q st = (r, st')" "subs_ok rules st ss" "rule \<noteq> return_rule" "rule \<noteq> error_rule"
  shows "case r of Ok s \<Rightarrow> ms_match_rule s = Some rule \<and> subs_ok rules st' (s # ss) | Err e \<Rightarrow> subs_ok rules st' ss | Panic \<Rightarrow> True"
proof (cases "sb_senders st = []")
  case True
  then show ?thesis using assms(1,2) by (auto simp: for_match_rule_def add_match_def)
next
  case n: False
  show ?thesis
  proof (cases "sb_subscriptions st rule")
    case None
    then show ?thesis
      using add_match_fresh [OF assms(2) n None assms(3,4), of q] assms(1) by (auto simp: for_match_rule_def)
  next
    case (Some e)
    obtain k ch where e: "sb_subscriptions st rule = Some (k, ch)" using Some by (cases e) auto
    then show ?thesis
      using add_match_again [OF assms(2) n e, of q] assms(1) n
      by (cases "k = -1") (auto simp: for_match_rule_def add_match_def)
  qed
qed

lemma for_match_rule_tasks: "for_match_rule add_rule rule q st = (r, st') \<Longrightarrow> sb_tasks st' = sb_tasks st"
  using tasks_kept(1) [of add_rule rule q st] by (auto simp: for_match_rule_def split: prod.splits res.splits)

text \<open>A stream, open or dropped, gives back its rule.\<close>

lemma removed_ok:
  assumes "subs_ok rules st ss" "i < length ss" "ms_match_rule (ss ! i) = Some rule" "rule \<noteq> return_rule" "rule \<noteq> error_rule"
  shows "\<exists>st'. removal_done (remove_match remove_rule rule st) = (Ok (), st') \<and> sb_tasks st' = sb_tasks st \<and> subs_ok rules st' (remove_nth i ss)"
proof -
  obtain r st' where "remove_match remove_rule rule st = (r, st')" "r \<noteq> Panic" "subs_ok rules st' (remove_nth i ss)"
    using remove_match_open [OF assms] by blast
  then show ?thesis
    using tasks_kept(2) [of remove_rule rule st] by (cases r) (auto simp: removal_done_def)
qed

lemma stream_step_ok:
  assumes "stream_step add_rule remove_rule e x y" "streams_ok rules (fst x) (snd x)" "not_reserved x"
    "case e of Open rule _ \<Rightarrow> rule \<notin> {return_rule, error_rule} | Clone_Stream _ \<Rightarrow> False | _ \<Rightarrow> True"
  shows "streams_ok rules (fst y) (snd y) \<and> not_reserved y"
  using assms(1)
proof (cases rule: stream_step.cases)
  case (open_ok rule q st s st' ss)
  then obtain gone where g: "map ms_match_rule gone = map Some (sb_tasks st)" "subs_ok rules st (ss @ gone)"
    using assms(2) by (auto simp: streams_ok_def)
  have "rule \<noteq> return_rule" "rule \<noteq> error_rule" using assms(4) open_ok by auto
  with for_match_rule_ok [OF open_ok(4) g(2)] for_match_rule_tasks [OF open_ok(4)] show ?thesis
    using open_ok g assms(3) by (auto simp: streams_ok_def not_reserved_def intro!: exI [of _ gone])
next
  case (open_err rule q st e st' ss)
  then obtain gone where g: "map ms_match_rule gone = map Some (sb_tasks st)" "subs_ok rules st (ss @ gone)"
    using assms(2) by (auto simp: streams_ok_def)
  have "rule \<noteq> return_rule" "rule \<noteq> error_rule" using assms(4) open_err by auto
  with for_match_rule_ok [OF open_err(4) g(2)] for_match_rule_tasks [OF open_err(4)] show ?thesis
    using open_err g assms(3) by (auto simp: streams_ok_def not_reserved_def intro!: exI [of _ gone])
next
  case (dropped i ss st)
  then obtain gone where g: "map ms_match_rule gone = map Some (sb_tasks st)" "subs_ok rules st (ss @ gone)"
    using assms(2) by (auto simp: streams_ok_def)
  obtain a b where ab: "ss = a @ ss ! i # b" "remove_nth i ss = a @ b" using remove_nth_split [OF dropped(4)] .
  have perm: "mset (ss @ gone) = mset (remove_nth i ss @ gone @ [ss ! i])" by (subst ab(1)) (simp add: ab(2))
  have sub: "set (remove_nth i ss) \<subseteq> set ss" "ss ! i \<in> set ss" using stream_count_remove(2) [OF dropped(4)] dropped(4) by auto
  show ?thesis
  proof (cases "ms_match_rule (ss ! i)")
    case None
    have "ss @ gone = a @ ss ! i # b @ gone" using ab(1) by simp
    then have "subs_ok rules st (remove_nth i ss @ gone)"
      using without_rule [OF g(2), of a "ss ! i" "b @ gone"] None ab(2) by simp
    then show ?thesis
      using None dropped g(1) sub assms(3) by (auto simp: stream_drop_def streams_ok_def not_reserved_def)
  next
    case (Some rule)
    then show ?thesis
      using dropped g sub assms(3) subs_ok_permuted [OF perm, of rules st]
      by (force simp: stream_drop_def queue_remove_match_def streams_ok_def not_reserved_def intro!: exI [of _ "gone @ [ss ! i]"])
  qed
next
  case (async_dropped i ss st st')
  then obtain gone where g: "map ms_match_rule gone = map Some (sb_tasks st)" "subs_ok rules st (ss @ gone)"
    using assms(2) by (auto simp: streams_ok_def)
  obtain a b where ab: "ss = a @ ss ! i # b" "remove_nth i ss = a @ b" using remove_nth_split [OF async_dropped(4)] .
  have rem: "remove_nth i (ss @ gone) = remove_nth i ss @ gone" using async_dropped(4) by (simp add: remove_nth_def)
  have sub: "set (remove_nth i ss) \<subseteq> set ss" using stream_count_remove(2) [OF async_dropped(4)] .
  show ?thesis
  proof (cases "ms_match_rule (ss ! i)")
    case None
    have "ss @ gone = a @ ss ! i # b @ gone" using ab(1) by simp
    then have "subs_ok rules st (remove_nth i ss @ gone)"
      using without_rule [OF g(2), of a "ss ! i" "b @ gone"] None ab(2) by simp
    then show ?thesis
      using None async_dropped g(1) sub assms(3) by (auto simp: stream_async_drop_def streams_ok_def not_reserved_def)
  next
    case (Some rule)
    then have "rule \<noteq> return_rule" "rule \<noteq> error_rule" using assms(3) async_dropped by (auto simp: not_reserved_def dest!: nth_mem)
    with removed_ok [OF g(2), of i rule] Some async_dropped rem show ?thesis
      using g(1) sub assms(3) by (auto simp: stream_async_drop_def streams_ok_def not_reserved_def nth_append)
  qed
next
  case (run k st st' ss)
  then obtain gone where g: "map ms_match_rule gone = map Some (sb_tasks st)" "subs_ok rules st (ss @ gone)"
    using assms(2) by (auto simp: streams_ok_def)
  then have len: "length gone = length (sb_tasks st)" by (metis length_map)
  have k: "ms_match_rule ((ss @ gone) ! (length ss + k)) = Some (sb_tasks st ! k)" "length ss + k < length (ss @ gone)"
    using g(1) run(4) len by (simp_all add: nth_append) (metis nth_map)
  have rem: "remove_nth (length ss + k) (ss @ gone) = ss @ remove_nth k gone" by (simp add: remove_nth_def)
  have "sb_tasks st ! k \<noteq> return_rule" "sb_tasks st ! k \<noteq> error_rule" using assms(3) run(2,4) nth_mem by (fastforce simp: not_reserved_def)+
  moreover have "subs_ok rules (st\<lparr>sb_tasks := remove_nth k (sb_tasks st)\<rparr>) (ss @ gone)" using g(2) by simp
  ultimately have "sb_tasks st' = remove_nth k (sb_tasks st)" "subs_ok rules st' (ss @ remove_nth k gone)"
    using removed_ok [OF _ k(2,1)] run(5) rem by (fastforce simp: run_removal_def)+
  moreover have "map ms_match_rule (remove_nth k gone) = map Some (remove_nth k (sb_tasks st))"
    using g(1) by (simp add: remove_nth_def take_map [symmetric] drop_map [symmetric])
  moreover have "set (remove_nth k (sb_tasks st)) \<subseteq> set (sb_tasks st)"
    by (auto simp: remove_nth_def dest: in_set_takeD in_set_dropD)
  ultimately show ?thesis
    using run assms(3) by (auto simp: streams_ok_def not_reserved_def intro!: exI [of _ "remove_nth k gone"])
next
  case (ended st ss)
  then show ?thesis
    using assms(2,3) by (auto simp: streams_ok_def subs_ok_def senders_ok_def counters_ok_def rule_count_def queues_distinct_def
        bus_ok_def not_reserved_def)
qed (use assms(4) in auto)

lemma stream_steps_ok:
  assumes "stream_steps add_rule remove_rule x es y" "streams_ok rules (fst x) (snd x)" "not_reserved x"
    "\<And>e. e \<in> set es \<Longrightarrow> case e of Open rule _ \<Rightarrow> rule \<notin> {return_rule, error_rule} | Clone_Stream _ \<Rightarrow> False | _ \<Rightarrow> True"
  shows "streams_ok rules (fst y) (snd y) \<and> not_reserved y"
  using assms
proof (induction rule: stream_steps.induct)
  case (snoc x es y e z)
  have IH: "streams_ok rules (fst y) (snd y)" "not_reserved y"
    using snoc.IH [OF snoc.prems(1,2)] snoc.prems(3) by simp_all
  show ?case
    by (rule stream_step_ok [OF snoc.hyps(2) IH]) (use snoc.prems(3) [of e] in simp)
qed simp

text \<open>No removal panics, neither of an open stream nor of a queued one.\<close>

lemma removals_run:
  assumes "streams_ok rules st ss" "not_reserved (st, ss)"
  shows "i < length ss \<Longrightarrow> fst (stream_async_drop remove_rule (ss ! i) st) = Ok ()"
    "k < length (sb_tasks st) \<Longrightarrow> fst (run_removal remove_rule k st) = Ok ()"
proof -
  obtain gone where g: "map ms_match_rule gone = map Some (sb_tasks st)" "subs_ok rules st (ss @ gone)"
    using assms(1) by (auto simp: streams_ok_def)
  then have len: "length gone = length (sb_tasks st)" by (metis length_map)
  show "fst (stream_async_drop remove_rule (ss ! i) st) = Ok ()" if "i < length ss"
  proof (cases "ms_match_rule (ss ! i)")
    case (Some rule)
    then have "rule \<noteq> return_rule" "rule \<noteq> error_rule" using assms(2) that by (auto simp: not_reserved_def dest!: nth_mem)
    with removed_ok [OF g(2), of i rule] Some that show ?thesis by (auto simp: stream_async_drop_def nth_append)
  qed (simp add: stream_async_drop_def)
  show "fst (run_removal remove_rule k st) = Ok ()" if "k < length (sb_tasks st)"
  proof -
    have k: "ms_match_rule ((ss @ gone) ! (length ss + k)) = Some (sb_tasks st ! k)" "length ss + k < length (ss @ gone)"
      using g(1) that len by (simp_all add: nth_append) (metis nth_map)
    have "sb_tasks st ! k \<noteq> return_rule" "sb_tasks st ! k \<noteq> error_rule"
      using assms(2) that by (auto simp: not_reserved_def dest!: nth_mem)
    with removed_ok [of "st\<lparr>sb_tasks := remove_nth k (sb_tasks st)\<rparr>", OF _ k(2,1)] g(2) show ?thesis
      by (auto simp: run_removal_def)
  qed
qed

end

section \<open>A bus\<close>

text \<open>A bus that keeps at most a number of rules and rejects the removal of one that it does not have.\<close>

definition bus_add :: "(match_rule list \<times> nat) bus_call" where
  "bus_add r b = (if length (fst b) < snd b then (Ok (), (r # fst b, snd b)) else (Err IoError, b))"

definition bus_remove :: "(match_rule list \<times> nat) bus_call" where
  "bus_remove r b = (if r \<in> set (fst b) then (Ok (), (remove1 r (fst b), snd b)) else (Err IoError, b))"

interpretation mb: match_bus bus_add bus_remove "\<lambda>b. mset (fst b)"
  by unfold_locales (auto simp: bus_add_def bus_remove_def split: if_splits)

section \<open>Properties\<close>

text \<open>C18: However streams are opened for rules and dropped, at once or by a task that runs at any later time, also if the bus refuses to add or to
  remove a rule and if the reader ends in between: the counter of every rule is the number of its streams that are open or whose removal is
  still queued, each of them has the queue of its rule, different rules have different queues, the senders are those of the rules with a
  counter, and the bus has each rule for signals exactly once. No removal panics. Excluded are clones of streams and streams for the two
  rules of the connection itself.\<close>
theorem streams_invariant:
  assumes "match_bus add_rule remove_rule rules" "rules b = {#}"
    "stream_steps add_rule remove_rule (subs_new bus_conn b, []) es (st, ss)"
    "\<And>e. e \<in> set es \<Longrightarrow> case e of Open rule _ \<Rightarrow> rule \<notin> {return_rule, error_rule} | Clone_Stream _ \<Rightarrow> False | _ \<Rightarrow> True"
  shows "streams_ok rules st ss \<and> (\<forall>i < length ss. fst (stream_async_drop remove_rule (ss ! i) st) = Ok ()) \<and>
    (\<forall>k < length (sb_tasks st). fst (run_removal remove_rule k st) = Ok ())"
proof -
  have "sb_tasks (subs_new bus_conn b) = []" by (simp add: subs_new_def)
  then have "streams_ok rules (subs_new bus_conn b) []" "not_reserved (subs_new bus_conn b, [])"
    using subs_new_ok [of rules b bus_conn] assms(2) by (simp_all add: streams_ok_def not_reserved_def)
  then have "streams_ok rules st ss \<and> not_reserved (st, ss)"
    using match_bus.stream_steps_ok [OF assms(1,3), OF _ _ assms(4)] by simp
  then show ?thesis using match_bus.removals_run [OF assms(1)] by blast
qed

theorem streams_invariant_witness:
  "\<exists>st s. stream_steps bus_add bus_remove (subs_new True ([], 5), [])
       [Open rule_new None, Open rule_new (Some 100), Drop 0, Run 0] (st, [s]) \<and>
     streams_ok (\<lambda>b. mset (fst b)) st [s] \<and> rule_count st rule_new = 1 \<and> fst (stream_async_drop bus_remove s st) = Ok ()"
proof -
  let ?o = "\<lambda>q st. snd (for_match_rule bus_add rule_new q st)" and ?s = "\<lparr>ms_receiver = 2, ms_match_rule = Some rule_new\<rparr>"
  let ?st0 = "subs_new True ([], 5)"
  let ?st1 = "?o None ?st0" let ?st2 = "?o (Some 100) ?st1" let ?st3 = "stream_drop ?s ?st2" let ?st4 = "snd (run_removal bus_remove 0 ?st3)"
  note defs = for_match_rule_def add_match_def ask_bus_def bus_rule_def subs_new_def bus_add_def rule_new_def Let_def
  have e: "for_match_rule bus_add rule_new None ?st0 = (Ok ?s, ?st1)" "for_match_rule bus_add rule_new (Some 100) ?st1 = (Ok ?s, ?st2)"
    "run_removal bus_remove 0 ?st3 = (Ok (), ?st4)" "rule_count ?st4 rule_new = 1" "0 < length (sb_tasks ?st3)"
    by (simp_all add: defs stream_drop_def queue_remove_match_def run_removal_def removal_done_def remove_match_def rule_count_def)
  let ?es = "[Open rule_new None, Open rule_new (Some 100), Drop 0, Run 0]"
  have "stream_steps bus_add bus_remove (?st0, []) ([] @ [Open rule_new None]) (?st1, [?s])"
    by (rule stream_steps.snoc [OF stream_steps.none stream_step.open_ok [OF e(1)]])
  from stream_steps.snoc [OF this stream_step.open_ok [OF e(2)]]
  have "stream_steps bus_add bus_remove (?st0, []) (([] @ [Open rule_new None]) @ [Open rule_new (Some 100)]) (?st2, [?s, ?s])" .
  from stream_steps.snoc [OF this stream_step.dropped [of 0 "[?s, ?s]"]]
  have "stream_steps bus_add bus_remove (?st0, []) ((([] @ [Open rule_new None]) @ [Open rule_new (Some 100)]) @ [Drop 0]) (?st3, remove_nth 0 [?s, ?s])"
    by simp
  from stream_steps.snoc [OF this stream_step.run [OF e(5,3)]]
  have steps: "stream_steps bus_add bus_remove (?st0, []) ?es (?st4, [?s])" by (simp add: remove_nth_def)
  have "rule_new \<noteq> return_rule" "rule_new \<noteq> error_rule"
    by (simp_all add: return_rule_def error_rule_def rule_msg_type_def rule_new_def)
  then have ev: "case e of Open rule _ \<Rightarrow> rule \<notin> {return_rule, error_rule} | Clone_Stream _ \<Rightarrow> False | _ \<Rightarrow> True"
    if "e \<in> set ?es" for e
    using that by auto
  show ?thesis
    using streams_invariant [OF mb.match_bus_axioms _ steps ev] steps e(4) by (intro exI [of _ ?st4] exI [of _ ?s]) auto
qed

text \<open>C35: A clone of the only stream for a rule, when it is dropped and the task that its drop queues has run, ends the subscription of the
  stream it was cloned from: the stream is still open, but no sender has its queue, so it gets no message any more, and the rule
  is gone from the bus.\<close>
theorem cloned_stream_unsubscribes:
  assumes "match_bus add_rule remove_rule rules" "streams_ok rules st ss" "sb_subscriptions st rule = None" "rule \<notin> {return_rule, error_rule}"
    "for_match_rule add_rule rule q st = (Ok s, st1)" "bus_rule st1 rule \<Longrightarrow> fst (remove_rule rule (sb_bus st1)) = Ok ()"
  shows "\<exists>st2. run_removal remove_rule (length (sb_tasks st1)) (stream_drop (clone_stream s) st1) = (Ok (), st2) \<and>
    ms_match_rule s = Some rule \<and> sb_subscriptions st2 rule = None \<and>
    (\<forall>r. map_of (sb_senders st2) r \<noteq> Some (ms_receiver s)) \<and> rule \<notin># rules (sb_bus st2)"
proof -
  obtain gone where g: "subs_ok rules st (ss @ gone)" using assms(2) by (auto simp: streams_ok_def)
  have ok: "subs_ok rules st1 (s # ss @ gone)" and s: "ms_match_rule s = Some rule"
    using match_bus.for_match_rule_ok [OF assms(1,5) g] assms(4) by auto
  have c: "counters_ok st1 (s # ss @ gone)" "counters_ok st (ss @ gone)" using ok g by (simp_all add: subs_ok_def)
  obtain k where k1: "sb_subscriptions st1 rule = Some (k, ms_receiver s)" using counters_ok_receiver [OF c(1) _ s] by auto
  then have k: "sb_subscriptions st1 rule = Some (k, ms_receiver s)" "unat k = 1" "2 \<le> ms_receiver s"
    using counters_ok_some [OF c(1) k1] counters_ok_none [OF c(2) assms(3)] s by simp_all
  then have "k = 1" by (simp add: word_unat_eq_iff)
  let ?st = "st1\<lparr>sb_subscriptions := (sb_subscriptions st1)(rule \<mapsto> (0, ms_receiver s))\<rparr>"
  obtain r b where r: "ask_bus remove_rule rule ?st = (r, ?st\<lparr>sb_bus := b\<rparr>)"
      "rules b = (if bus_rule ?st rule \<and> r = Ok () then rules (sb_bus ?st) - {#rule#} else rules (sb_bus ?st))"
    by (rule match_bus.ask_bus_remove [OF assms(1)])
  moreover have "fst (ask_bus remove_rule rule ?st) = Ok ()" using assms(6) by (simp add: ask_bus_def split_beta)
  ultimately have b: "ask_bus remove_rule rule ?st = (Ok (), ?st\<lparr>sb_bus := b\<rparr>)"
      "rules b = (if bus_rule st1 rule then rules (sb_bus st1) - {#rule#} else rules (sb_bus st1))"
    by simp_all
  let ?st2 = "st1\<lparr>sb_subscriptions := (sb_subscriptions st1)(rule := None), sb_bus := b,
    sb_senders := AList.delete (Some rule) (sb_senders st1)\<rparr>"
  have "run_removal remove_rule (length (sb_tasks st1)) (stream_drop (clone_stream s) st1) = removal_done (remove_match remove_rule rule st1)"
    using s by (simp add: run_removal_def stream_drop_def clone_stream_def queue_remove_match_def remove_nth_def)
  also have "\<dots> = (Ok (), ?st2)"
    using k(1) \<open>k = 1\<close> b(1) by (simp add: remove_match_def removal_done_def)
  finally have "run_removal remove_rule (length (sb_tasks st1)) (stream_drop (clone_stream s) st1) = (Ok (), ?st2)" .
  moreover have "map_of (AList.delete (Some rule) (sb_senders st1)) r \<noteq> Some (ms_receiver s)" for r
    using ok k(1,3) by (cases r; cases "sb_senders st1 = []") (auto simp: subs_ok_def senders_ok_def queues_distinct_def delete_conv')
  moreover have "rule \<notin># rules b"
    using ok b(2) k(1) by (auto simp: subs_ok_def bus_ok_def not_in_iff)
  ultimately show ?thesis using s by auto
qed

theorem cloned_stream_unsubscribes_witness:
  "\<exists>s st1 st2. for_match_rule bus_add rule_new None (subs_new True ([], 5)) = (Ok s, st1) \<and>
     run_removal bus_remove 0 (stream_drop (clone_stream s) st1) = (Ok (), st2) \<and>
     map_of (sb_senders st1) (Some rule_new) = Some (ms_receiver s) \<and> map_of (sb_senders st2) (Some rule_new) \<noteq> Some (ms_receiver s)"
proof -
  let ?st0 = "subs_new True ([], 5) :: (match_rule list \<times> nat) subs" and ?s = "\<lparr>ms_receiver = 2, ms_match_rule = Some rule_new\<rparr>"
  let ?st1 = "snd (for_match_rule bus_add rule_new None ?st0)"
  note defs = for_match_rule_def add_match_def ask_bus_def bus_rule_def subs_new_def bus_add_def bus_remove_def rule_new_def Let_def
  have e: "for_match_rule bus_add rule_new None ?st0 = (Ok ?s, ?st1)" "fst (bus_remove rule_new (sb_bus ?st1)) = Ok ()"
    "map_of (sb_senders ?st1) (Some rule_new) = Some (ms_receiver ?s)" "length (sb_tasks ?st1) = 0"
    by (simp_all add: defs update_conv')
  have r: "rule_new \<notin> {return_rule, error_rule}" "sb_subscriptions ?st0 rule_new = None" "sb_tasks ?st0 = []"
    by (simp_all add: return_rule_def error_rule_def rule_msg_type_def rule_new_def subs_new_def)
  have "subs_ok (\<lambda>b. mset (fst b)) ?st0 []" by (rule subs_new_ok) simp
  then have ok: "streams_ok (\<lambda>b. mset (fst b)) ?st0 []" using r(3) by (simp add: streams_ok_def)
  from cloned_stream_unsubscribes [OF mb.match_bus_axioms ok r(2,1) e(1)] e(2)
  obtain st2 where "run_removal bus_remove (length (sb_tasks ?st1)) (stream_drop (clone_stream ?s) ?st1) = (Ok (), st2)"
      "\<forall>r. map_of (sb_senders st2) r \<noteq> Some (ms_receiver ?s)" by auto
  with e(1,3) show ?thesis unfolding e(4) by blast
qed

text \<open>C36: A stream for the returns of calls takes the place of the queue of the connection for them: from then on
  only errors go to the queue from which calls take their replies, and when the stream is dropped and its removal has run, no queue is
  left for returns.\<close>
theorem return_stream_hijacks:
  assumes "for_match_rule add_rule return_rule q (subs_new bus_conn b) = (Ok s, st1)"
  shows "map_of (sb_senders st1) (Some return_rule) = Some (ms_receiver s) \<and> ms_receiver s \<noteq> 1 \<and>
    (\<forall>r. map_of (sb_senders st1) r = Some 1 \<longrightarrow> r = Some error_rule) \<and>
    map_of (sb_senders (snd (run_removal remove_rule 0 (stream_drop s st1)))) (Some return_rule) = None"
proof -
  have t: "r_type return_rule = Some MethodReturn" "return_rule \<noteq> error_rule"
    by (simp_all add: return_rule_def error_rule_def rule_msg_type_def rule_new_def)
  then have nb: "\<not> bus_rule st return_rule" for st :: "'a subs" by (simp add: bus_rule_def)
  have e: "s = \<lparr>ms_receiver = 2, ms_match_rule = Some return_rule\<rparr>" "sb_tasks st1 = []"
      "sb_senders st1 = [(None, 0), (Some return_rule, 2), (Some error_rule, 1)]" "sb_subscriptions st1 = [return_rule \<mapsto> (1, 2)]"
    using assms nb t(2) by (auto simp: for_match_rule_def add_match_def ask_bus_def subs_new_def Let_def)
  then show ?thesis
    using t(2) nb by (auto simp: stream_drop_def queue_remove_match_def run_removal_def removal_done_def remove_nth_def remove_match_def ask_bus_def)
qed

theorem return_stream_hijacks_witness:
  "\<exists>s st1. for_match_rule bus_add return_rule None (subs_new True ([], 5)) = (Ok s, st1) \<and>
     map_of (sb_senders st1) (Some return_rule) \<noteq> map_of (sb_senders (subs_new True ([], 5) :: (match_rule list \<times> nat) subs)) (Some return_rule)"
proof -
  let ?s = "\<lparr>ms_receiver = 2, ms_match_rule = Some return_rule\<rparr>"
  have "for_match_rule bus_add return_rule None (subs_new True ([], 5)) =
      (Ok ?s, snd (for_match_rule bus_add return_rule None (subs_new True ([], 5))))"
    by (simp add: for_match_rule_def add_match_def ask_bus_def bus_rule_def subs_new_def Let_def return_rule_def rule_msg_type_def)
  from return_stream_hijacks [OF this, of bus_remove] this show ?thesis
    by (intro exI) (auto simp: subs_new_def)
qed

end
