(* ===== verification/Handshake.thy ===== *)
theory Handshake
  imports Socket
begin

text \<open>
  The SASL handshake before the first message (\<^verbatim>\<open>zbus/src/connection/handshake\<close>): the commands and
  their text, reading and writing them in lines over a socket, and the two sides, client and server, on Unix.

  \<open>H\<close> is the \<^verbatim>\<open>hex\<close> crate. \<open>recv\<close>, \<open>send\<close> and \<open>can_pass\<close> belong to the socket; \<open>uid\<close> is the text of the
  effective user of the client and \<open>flatpak\<close> says whether it runs in a sandbox.
\<close>

section \<open>Commands\<close>

datatype mechanism = External | Anonymous

definition mechanism_str :: "mechanism \<Rightarrow> string" where
  "mechanism_str m = (case m of External \<Rightarrow> ''EXTERNAL'' | Anonymous \<Rightarrow> ''ANONYMOUS'')"

definition mechanism_from_str :: "string \<Rightarrow> (error, mechanism) res" where
  "mechanism_from_str s =
     (if s = ''EXTERNAL'' then Ok External else if s = ''ANONYMOUS'' then Ok Anonymous else Err HandshakeError)"

datatype command =
    Auth "mechanism option" "byte list option"
  | Cancel
  | Begin
  | Data "byte list option"
  | Error_Command string
  | NegotiateUnixFD
  | Rejected string
  | Ok_Command string
  | AgreeUnixFD

record hex =
  encode :: "byte list \<Rightarrow> string"
  decode :: "string \<Rightarrow> byte list option"

text \<open>What the crate documents: lower-case digits, two for each byte, and that decoding inverts encoding.\<close>

definition hex_digit :: "byte \<Rightarrow> bool" where
  "hex_digit c \<longleftrightarrow> 48 \<le> code c \<and> code c \<le> 57 \<or> 97 \<le> code c \<and> code c \<le> 102"

locale hex_laws =
  fixes H :: hex
  assumes decode_encode: "decode H (encode H b) = Some b"
    and encode_digits: "list_all hex_digit (encode H b)"
    and length_encode: "length (encode H b) = 2 * length b"

text \<open>\<^verbatim>\<open>validate_guid\<close> of \<^verbatim>\<open>guid.rs\<close>.\<close>

definition guid_hexdigit :: "byte \<Rightarrow> bool" where
  "guid_hexdigit c \<longleftrightarrow> is_ascii_digit c \<or> 97 \<le> code c \<and> code c \<le> 102 \<or> 65 \<le> code c \<and> code c \<le> 70"

definition guid_try_from :: "string \<Rightarrow> (error, string) res" where
  "guid_try_from v = (if length v \<noteq> 32 \<or> \<not> list_all guid_hexdigit v then Err InvalidGUID else Ok v)"

text \<open>\<^verbatim>\<open>Display for Command\<close>.\<close>

definition command_str :: "hex \<Rightarrow> command \<Rightarrow> string" where
  "command_str H c =
     (case c of
        Auth mech resp \<Rightarrow>
          (case (mech, resp) of
             (Some mech, Some resp) \<Rightarrow> ''AUTH '' @ mechanism_str mech @ '' '' @ encode H resp
           | (Some mech, None) \<Rightarrow> ''AUTH '' @ mechanism_str mech
           | _ \<Rightarrow> ''AUTH'')
      | Cancel \<Rightarrow> ''CANCEL''
      | Begin \<Rightarrow> ''BEGIN''
      | Data None \<Rightarrow> ''DATA''
      | Data (Some d) \<Rightarrow> ''DATA '' @ encode H d
      | Error_Command expl \<Rightarrow> ''ERROR '' @ expl
      | NegotiateUnixFD \<Rightarrow> ''NEGOTIATE_UNIX_FD''
      | Rejected mechs \<Rightarrow> ''REJECTED '' @ mechs
      | Ok_Command g \<Rightarrow> ''OK '' @ g
      | AgreeUnixFD \<Rightarrow> ''AGREE_UNIX_FD'')"

text \<open>\<^verbatim>\<open>split_ascii_whitespace\<close>.\<close>

definition is_ascii_whitespace :: "byte \<Rightarrow> bool" where
  "is_ascii_whitespace c \<longleftrightarrow> code c \<in> {9, 10, 12, 13, 32}"

fun words_from :: "string \<Rightarrow> string \<Rightarrow> string list" where
  "words_from w [] = (if w = [] then [] else [w])"
| "words_from w (c # cs) =
     (if is_ascii_whitespace c then (if w = [] then words_from [] cs else w # words_from [] cs)
      else words_from (w @ [c]) cs)"

definition split_words :: "string \<Rightarrow> string list" where
  "split_words s = words_from [] s"

definition decode_word :: "hex \<Rightarrow> string list \<Rightarrow> (error, byte list option) res" where
  "decode_word H ws =
     (case ws of [] \<Rightarrow> Ok None | w # _ \<Rightarrow> bind_res (ok_or (decode H w) HandshakeError) (\<lambda>b. Ok (Some b)))"

definition command_from_str :: "hex \<Rightarrow> string \<Rightarrow> (error, command) res" where
  "command_from_str H s =
     (case split_words s of
        [] \<Rightarrow> Err HandshakeError
      | cmd # ws \<Rightarrow>
          if cmd = ''AUTH'' then
            (case ws of
               [] \<Rightarrow> Ok (Auth None None)
             | m # ws \<Rightarrow> bind_res (mechanism_from_str m) (\<lambda>m.
                 bind_res (decode_word H ws) (\<lambda>resp. Ok (Auth (Some m) resp))))
          else if cmd = ''CANCEL'' then Ok Cancel
          else if cmd = ''BEGIN'' then Ok Begin
          else if cmd = ''DATA'' then bind_res (decode_word H ws) (\<lambda>d. Ok (Data d))
          else if cmd = ''ERROR'' then Ok (Error_Command s)
          else if cmd = ''NEGOTIATE_UNIX_FD'' then Ok NegotiateUnixFD
          else if cmd = ''REJECTED'' then Ok (Rejected (concat ws))
          else if cmd = ''OK'' then
            (case ws of [] \<Rightarrow> Err HandshakeError | g # _ \<Rightarrow> bind_res (guid_try_from g) (\<lambda>g. Ok (Ok_Command g)))
          else if cmd = ''AGREE_UNIX_FD'' then Ok AgreeUnixFD
          else Err HandshakeError)"

section \<open>Lines\<close>

record ('s, 'w) common =
  h_read :: 's
  h_write :: 'w
  h_buffer :: "byte list"
  h_fds :: "u32 list"
  h_cap_unix_fd :: bool
  h_mechanism :: mechanism
  h_first :: bool

definition common_new :: "'s \<Rightarrow> 'w \<Rightarrow> mechanism \<Rightarrow> ('s, 'w) common" where
  "common_new s w m = \<lparr>h_read = s, h_write = w, h_buffer = [], h_fds = [], h_cap_unix_fd = False, h_mechanism = m,
     h_first = True\<rparr>"

text \<open>The loop that writes a buffer; a \<^verbatim>\<open>sendmsg\<close> that writes nothing would keep it running.\<close>

partial_function (option) flush_loop :: "'w send \<Rightarrow> byte list \<Rightarrow> 'w \<Rightarrow> (error, 'w) res option" where
  "flush_loop send buf w =
     (if buf = [] then Some (Ok w)
      else
        case send w buf [] of
          Err e \<Rightarrow> Some (Err e)
        | Panic \<Rightarrow> Some Panic
        | Ok (k, w') \<Rightarrow> if length buf < k then Some Panic else flush_loop send (drop k buf) w')"

definition crlf :: string where "crlf = [byte_of 13, byte_of 10]"

fun command_lines :: "hex \<Rightarrow> bool \<Rightarrow> command list \<Rightarrow> byte list" where
  "command_lines H first [] = []"
| "command_lines H first (c # cs) = (if first then [byte_of 0] else []) @ command_str H c @ crlf @ command_lines H False cs"

definition write_commands ::
  "hex \<Rightarrow> 'w send \<Rightarrow> command list \<Rightarrow> byte list option \<Rightarrow> ('s, 'w) common \<Rightarrow> (error, ('s, 'w) common) res option" where
  "write_commands H send cmds extra c =
     obind (flush_loop send (command_lines H (h_first c) cmds @ (case extra of Some x \<Rightarrow> x | None \<Rightarrow> [])) (h_write c)) (\<lambda>w.
     Some (Ok (c\<lparr>h_write := w, h_first := h_first c \<and> cmds = []\<rparr>)))"

definition write_command :: "hex \<Rightarrow> 'w send \<Rightarrow> command \<Rightarrow> ('s, 'w) common \<Rightarrow> (error, ('s, 'w) common) res option" where
  "write_command H send cmd c = write_commands H send [cmd] None c"

text \<open>The next line of the buffer, if it has one. The byte before a line feed is looked at also if there is none.\<close>

fun position :: "byte \<Rightarrow> byte list \<Rightarrow> nat option" where
  "position b [] = None"
| "position b (c # cs) = (if c = b then Some 0 else map_option Suc (position b cs))"

definition next_line :: "bool \<Rightarrow> byte list \<Rightarrow> (error, (string \<times> byte list) option) res" where
  "next_line first buf =
     (case position (byte_of 10) buf of
        None \<Rightarrow> Ok None
      | Some i \<Rightarrow>
          if i = 0 then Panic
          else if buf ! (i - 1) \<noteq> byte_of 13 then Err HandshakeError
          else if first \<and> buf ! 0 \<noteq> byte_of 0 then Err HandshakeError
          else
            let line = drop (if first then 1 else 0) (take (i + 1) buf) in
            if valid_utf8 line then Ok (Some (line, drop (i + 1) buf)) else Err HandshakeError)"

partial_function (option) read_loop ::
  "hex \<Rightarrow> 's recv \<Rightarrow> nat \<Rightarrow> command list \<Rightarrow> ('s, 'w) common \<Rightarrow> (error, command list \<times> ('s, 'w) common) res option" where
  "read_loop H recv n cmds c =
     (case next_line (h_first c) (h_buffer c) of
        Err e \<Rightarrow> Some (Err e)
      | Panic \<Rightarrow> Some Panic
      | Ok (Some (line, rest)) \<Rightarrow>
          (case command_from_str H line of
             Err e \<Rightarrow> Some (Err e)
           | Panic \<Rightarrow> Some Panic
           | Ok cmd \<Rightarrow>
               if length cmds + 1 = n then Some (Ok (cmds @ [cmd], c\<lparr>h_buffer := rest, h_first := False\<rparr>))
               else read_loop H recv n (cmds @ [cmd]) (c\<lparr>h_buffer := rest, h_first := False\<rparr>))
      | Ok None \<Rightarrow>
          (case recv (h_read c) 1024 of
             Err e \<Rightarrow> Some (Err e)
           | Panic \<Rightarrow> Some Panic
           | Ok ((bs, fs), s) \<Rightarrow>
               if bs = [] then Some (Err HandshakeError)
               else read_loop H recv n cmds (c\<lparr>h_buffer := h_buffer c @ bs, h_fds := h_fds c @ fs, h_read := s\<rparr>)))"

definition read_commands ::
  "hex \<Rightarrow> 's recv \<Rightarrow> nat \<Rightarrow> ('s, 'w) common \<Rightarrow> (error, command list \<times> ('s, 'w) common) res option" where
  "read_commands H recv n c = read_loop H recv n [] c"

definition read_command :: "hex \<Rightarrow> 's recv \<Rightarrow> ('s, 'w) common \<Rightarrow> (error, command \<times> ('s, 'w) common) res option" where
  "read_command H recv c =
     obind (read_commands H recv 1 c) (\<lambda>(cmds, c). case cmds of [] \<Rightarrow> Some Panic | cmd # _ \<Rightarrow> Some (Ok (cmd, c)))"

section \<open>The server\<close>

datatype server_step = WaitingForAuth | WaitingForData mechanism | WaitingForBegin | Done

record ('s, 'w) server =
  sv_common :: "('s, 'w) common"
  sv_step :: server_step
  sv_guid :: string
  sv_client_uid :: "u32 option"
  sv_unique_name :: "string option"

record ('s, 'w) authenticated =
  a_write :: 'w
  a_server_guid :: string
  a_cap_unix_fd :: bool
  a_read :: 's
  a_received_bytes :: "byte list"
  a_received_fds :: "u32 list"
  a_unique_name :: "string option"

definition server_new :: "'s \<Rightarrow> 'w \<Rightarrow> string \<Rightarrow> u32 option \<Rightarrow> mechanism \<Rightarrow> string option \<Rightarrow> ('s, 'w) server" where
  "server_new s w g uid m name =
     \<lparr>sv_common = common_new s w m, sv_step = WaitingForAuth, sv_guid = g, sv_client_uid = uid, sv_unique_name = name\<rparr>"

definition server_write :: "hex \<Rightarrow> 'w send \<Rightarrow> command \<Rightarrow> ('s, 'w) server \<Rightarrow> (error, ('s, 'w) server) res option" where
  "server_write H send cmd sv = obind (write_command H send cmd (sv_common sv)) (\<lambda>c. Some (Ok (sv\<lparr>sv_common := c\<rparr>)))"

definition auth_ok :: "hex \<Rightarrow> 'w send \<Rightarrow> ('s, 'w) server \<Rightarrow> (error, ('s, 'w) server) res option" where
  "auth_ok H send sv =
     obind (server_write H send (Ok_Command (sv_guid sv)) sv) (\<lambda>sv. Some (Ok (sv\<lparr>sv_step := WaitingForBegin\<rparr>)))"

definition unsupported_command_error :: "hex \<Rightarrow> 'w send \<Rightarrow> ('s, 'w) server \<Rightarrow> (error, ('s, 'w) server) res option" where
  "unsupported_command_error H send sv = server_write H send (Error_Command ''Unsupported or misplaced command'') sv"

definition rejected_error :: "hex \<Rightarrow> 'w send \<Rightarrow> ('s, 'w) server \<Rightarrow> (error, ('s, 'w) server) res option" where
  "rejected_error H send sv =
     obind (server_write H send (Rejected (mechanism_str (h_mechanism (sv_common sv)))) sv) (\<lambda>sv.
     Some (Ok (sv\<lparr>sv_step := WaitingForAuth\<rparr>)))"

definition parse_uid :: "byte list \<Rightarrow> (error, u32) res" where
  "parse_uid sasl_id =
     (if valid_utf8 sasl_id then
        (case parse_uint (2 ^ 32 - 1) sasl_id of Some n \<Rightarrow> Ok (word_of_nat n) | None \<Rightarrow> Err HandshakeError)
      else Err HandshakeError)"

definition check_external_auth ::
  "hex \<Rightarrow> 'w send \<Rightarrow> byte list \<Rightarrow> ('s, 'w) server \<Rightarrow> (error, ('s, 'w) server) res option" where
  "check_external_auth H send sasl_id sv =
     obind (Some (parse_uid sasl_id)) (\<lambda>uid.
     if sv_client_uid sv = Some uid then auth_ok H send sv else rejected_error H send sv)"

definition server_read :: "hex \<Rightarrow> 's recv \<Rightarrow> ('s, 'w) server \<Rightarrow> (error, command \<times> ('s, 'w) server) res option" where
  "server_read H recv sv = obind (read_command H recv (sv_common sv)) (\<lambda>(cmd, c). Some (Ok (cmd, sv\<lparr>sv_common := c\<rparr>)))"

definition handle_auth :: "hex \<Rightarrow> 's recv \<Rightarrow> 'w send \<Rightarrow> ('s, 'w) server \<Rightarrow> (error, ('s, 'w) server) res option" where
  "handle_auth H recv send sv =
     (if sv_step sv \<noteq> WaitingForAuth then Some Panic
      else
        obind (server_read H recv sv) (\<lambda>(reply, sv).
        case reply of
          Auth requested resp \<Rightarrow>
            let mech = h_mechanism (sv_common sv) in
            if requested \<noteq> Some mech then rejected_error H send sv
            else
              (case resp of
                 None \<Rightarrow> obind (server_write H send (Data None) sv) (\<lambda>sv. Some (Ok (sv\<lparr>sv_step := WaitingForData mech\<rparr>)))
               | Some sasl_id \<Rightarrow>
                   (case mech of Anonymous \<Rightarrow> auth_ok H send sv | External \<Rightarrow> check_external_auth H send sasl_id sv))
        | Cancel \<Rightarrow> rejected_error H send sv
        | Error_Command _ \<Rightarrow> rejected_error H send sv
        | _ \<Rightarrow> unsupported_command_error H send sv))"

definition handle_auth_data ::
  "hex \<Rightarrow> 's recv \<Rightarrow> 'w send \<Rightarrow> mechanism \<Rightarrow> ('s, 'w) server \<Rightarrow> (error, ('s, 'w) server) res option" where
  "handle_auth_data H recv send mech sv =
     (case sv_step sv of
        WaitingForData _ \<Rightarrow>
          obind (server_read H recv sv) (\<lambda>(reply, sv).
          case (mech, reply) of
            (External, Data None) \<Rightarrow> auth_ok H send sv
          | (External, Data (Some d)) \<Rightarrow> check_external_auth H send d sv
          | (Anonymous, Data _) \<Rightarrow> auth_ok H send sv
          | _ \<Rightarrow> unsupported_command_error H send sv)
      | _ \<Rightarrow> Some Panic)"

definition finalize ::
  "hex \<Rightarrow> 's recv \<Rightarrow> 'w send \<Rightarrow> bool \<Rightarrow> ('s, 'w) server \<Rightarrow> (error, ('s, 'w) server) res option" where
  "finalize H recv send can_pass sv =
     (if sv_step sv \<noteq> WaitingForBegin then Some Panic
      else
        obind (server_read H recv sv) (\<lambda>(reply, sv).
        case reply of
          Begin \<Rightarrow> Some (Ok (sv\<lparr>sv_step := Done\<rparr>))
        | Cancel \<Rightarrow> rejected_error H send sv
        | Error_Command _ \<Rightarrow> rejected_error H send sv
        | NegotiateUnixFD \<Rightarrow>
            if can_pass
            then server_write H send AgreeUnixFD (sv\<lparr>sv_common := (sv_common sv)\<lparr>h_cap_unix_fd := True\<rparr>\<rparr>)
            else server_write H send (Error_Command ''FD-passing not possible on this socket type'') sv
        | _ \<Rightarrow> unsupported_command_error H send sv))"

definition next_step ::
  "hex \<Rightarrow> 's recv \<Rightarrow> 'w send \<Rightarrow> bool \<Rightarrow> ('s, 'w) server \<Rightarrow> (error, bool \<times> ('s, 'w) server) res option" where
  "next_step H recv send can_pass sv =
     (case sv_step sv of
        WaitingForAuth \<Rightarrow> obind (handle_auth H recv send sv) (\<lambda>sv. Some (Ok (False, sv)))
      | WaitingForData mech \<Rightarrow> obind (handle_auth_data H recv send mech sv) (\<lambda>sv. Some (Ok (False, sv)))
      | WaitingForBegin \<Rightarrow> obind (finalize H recv send can_pass sv) (\<lambda>sv. Some (Ok (False, sv)))
      | Done \<Rightarrow> Some (Ok (True, sv)))"

partial_function (option) server_loop ::
  "hex \<Rightarrow> 's recv \<Rightarrow> 'w send \<Rightarrow> bool \<Rightarrow> ('s, 'w) server \<Rightarrow> (error, ('s, 'w) server) res option" where
  "server_loop H recv send can_pass sv =
     (case next_step H recv send can_pass sv of
        None \<Rightarrow> None
      | Some (Err e) \<Rightarrow> Some (Err e)
      | Some Panic \<Rightarrow> Some Panic
      | Some (Ok (done, sv')) \<Rightarrow> if done then Some (Ok sv') else server_loop H recv send can_pass sv')"

definition server_perform ::
  "hex \<Rightarrow> 's recv \<Rightarrow> 'w send \<Rightarrow> bool \<Rightarrow> ('s, 'w) server \<Rightarrow> (error, ('s, 'w) authenticated) res option" where
  "server_perform H recv send can_pass sv =
     obind (server_loop H recv send can_pass sv) (\<lambda>sv.
     let c = sv_common sv in
     Some (Ok \<lparr>a_write = h_write c, a_server_guid = sv_guid sv, a_cap_unix_fd = h_cap_unix_fd c, a_read = h_read c,
       a_received_bytes = h_buffer c, a_received_fds = h_fds c, a_unique_name = sv_unique_name sv\<rparr>))"

section \<open>The client\<close>

record ('s, 'w) client =
  cl_common :: "('s, 'w) common"
  cl_server_guid :: "string option"
  cl_bus :: bool

definition client_new :: "'s \<Rightarrow> 'w \<Rightarrow> mechanism \<Rightarrow> string option \<Rightarrow> bool \<Rightarrow> ('s, 'w) client" where
  "client_new s w m g bus = \<lparr>cl_common = common_new s w m, cl_server_guid = g, cl_bus = bus\<rparr>"

definition set_guid :: "string \<Rightarrow> ('s, 'w) client \<Rightarrow> (error, ('s, 'w) client) res" where
  "set_guid g cl =
     (case cl_server_guid cl of
        Some g' \<Rightarrow> if g' \<noteq> g then Err HandshakeError else Ok cl
      | None \<Rightarrow> Ok (cl\<lparr>cl_server_guid := Some g\<rparr>))"

definition authenticate ::
  "hex \<Rightarrow> 's recv \<Rightarrow> 'w send \<Rightarrow> string \<Rightarrow> ('s, 'w) client \<Rightarrow> (error, ('s, 'w) client) res option" where
  "authenticate H recv send uid cl =
     (let mech = h_mechanism (cl_common cl);
          auth_cmd = (case mech of Anonymous \<Rightarrow> Auth (Some mech) (Some ''zbus'') | External \<Rightarrow> Auth (Some mech) (Some uid)) in
      obind (write_command H send auth_cmd (cl_common cl)) (\<lambda>c.
      obind (read_command H recv c) (\<lambda>(cmd, c).
      case cmd of
        Ok_Command g \<Rightarrow> Some (set_guid g (cl\<lparr>cl_common := c\<rparr>))
      | _ \<Rightarrow> Some (Err HandshakeError))))"

text \<open>The commands after the authentication, and the number of replies to expect. In a sandbox the negotiation
  is done before; \<open>hello\<close> are the bytes of the first call to a bus.\<close>

definition negotiate ::
  "hex \<Rightarrow> 's recv \<Rightarrow> 'w send \<Rightarrow> ('s, 'w) common \<Rightarrow> (error, ('s, 'w) common) res option" where
  "negotiate H recv send c =
     obind (write_command H send NegotiateUnixFD c) (\<lambda>c.
     obind (read_command H recv c) (\<lambda>(cmd, c).
     case cmd of
       AgreeUnixFD \<Rightarrow> Some (Ok (c\<lparr>h_cap_unix_fd := True\<rparr>))
     | Error_Command _ \<Rightarrow> Some (Ok c)
     | _ \<Rightarrow> Some (Err HandshakeError)))"

definition send_secondary_commands ::
  "hex \<Rightarrow> 's recv \<Rightarrow> 'w send \<Rightarrow> bool \<Rightarrow> bool \<Rightarrow> byte list \<Rightarrow> ('s, 'w) client \<Rightarrow> (error, nat \<times> ('s, 'w) client) res option" where
  "send_secondary_commands H recv send can_pass flatpak hello cl =
     obind (if can_pass then
              (if flatpak then obind (negotiate H recv send (cl_common cl)) (\<lambda>c. Some (Ok (c, [])))
               else Some (Ok (cl_common cl, [NegotiateUnixFD])))
            else Some (Ok (cl_common cl, []))) (\<lambda>(c, commands).
     let commands = commands @ [Begin] in
     obind (write_commands H send commands (if cl_bus cl then Some hello else None) c) (\<lambda>c.
     Some (Ok (length commands - 1, cl\<lparr>cl_common := c\<rparr>))))"

definition secondary_response :: "command \<Rightarrow> ('s, 'w) client \<Rightarrow> (error, ('s, 'w) client) res" where
  "secondary_response r cl =
     (case r of
        Ok_Command g \<Rightarrow> set_guid g cl
      | AgreeUnixFD \<Rightarrow> Ok (cl\<lparr>cl_common := (cl_common cl)\<lparr>h_cap_unix_fd := True\<rparr>\<rparr>)
      | Error_Command _ \<Rightarrow> Ok cl
      | _ \<Rightarrow> Err HandshakeError)"

definition receive_secondary_responses ::
  "hex \<Rightarrow> 's recv \<Rightarrow> nat \<Rightarrow> ('s, 'w) client \<Rightarrow> (error, ('s, 'w) client) res option" where
  "receive_secondary_responses H recv n cl =
     obind (read_commands H recv n (cl_common cl)) (\<lambda>(cmds, c).
     Some (fold_res secondary_response cmds (cl\<lparr>cl_common := c\<rparr>)))"

text \<open>The call of \<^verbatim>\<open>Hello\<close>, which has no body, and its reply: the body has to be one string, a unique name.\<close>

definition create_hello_method_call :: "nom \<Rightarrow> endi \<Rightarrow> dup \<Rightarrow> endian_sig \<Rightarrow> u32 \<Rightarrow> (error, message) res" where
  "create_hello_method_call N E D ne counter =
     bind_res (method_call ne counter ''/org/freedesktop/DBus'' ''Hello'') (\<lambda>(h, _).
     bind_res (set_destination ''org.freedesktop.DBus'' h) (\<lambda>h.
     bind_res (set_interface ''org.freedesktop.DBus'' h) (\<lambda>h.
     build N E D signature.Unit (\<lambda>s. Ok s) h)))"

definition deserialize_unique_name :: "endi \<Rightarrow> string dm" where
  "deserialize_unique_name E = dbind (deserialize_str E) (\<lambda>s.
     lift (map_err (\<lambda>_. zerror.Message Custom) (checked ensure_correct_unique_name s)))"

definition receive_hello_response ::
  "nom \<Rightarrow> endi \<Rightarrow> (byte \<Rightarrow> byte option) \<Rightarrow> nat \<Rightarrow> 's recv \<Rightarrow> 's \<Rightarrow> byte list
     \<Rightarrow> (error, string \<times> byte list \<times> 's) res option" where
  "receive_hello_response N E B n recv s buf =
     obind (receive_message N E B n recv 0 s buf []) (\<lambda>(reply, buf, _, s).
     case msg_type (msg_primary reply) of
       MethodReturn \<Rightarrow>
         obind (message_body N E B n reply) (\<lambda>(dat, sg).
         if sg \<noteq> signature.Str then Some (Err (VariantError (SignatureMismatch sg ''`s`'')))
         else obind (omap_err VariantError (deserialize_for_signature signature.Str (deserialize_unique_name E) dat))
           (\<lambda>(name, _). Some (Ok (name, buf, s))))
     | ErrorType \<Rightarrow> obind (error_of_message N E B n reply) (\<lambda>e. Some (Err e))
     | _ \<Rightarrow> Some (Err HandshakeError))"

definition client_perform ::
  "nom \<Rightarrow> endi \<Rightarrow> (byte \<Rightarrow> byte option) \<Rightarrow> nat \<Rightarrow> hex \<Rightarrow> 's recv \<Rightarrow> 'w send \<Rightarrow> string \<Rightarrow> bool \<Rightarrow> bool \<Rightarrow> byte list \<Rightarrow> ('s, 'w) client
     \<Rightarrow> (error, ('s, 'w) authenticated) res option" where
  "client_perform N E B n H recv send uid can_pass flatpak hello cl =
     obind (authenticate H recv send uid cl) (\<lambda>cl.
     obind (send_secondary_commands H recv send can_pass flatpak hello cl) (\<lambda>(expected, cl).
     obind (if 0 < expected then receive_secondary_responses H recv expected cl else Some (Ok cl)) (\<lambda>cl.
     let c = cl_common cl in
     obind (if cl_bus cl
            then obind (receive_hello_response N E B n recv (h_read c) (h_buffer c)) (\<lambda>(name, buf, s). Some (Ok (Some name, buf, s)))
            else Some (Ok (None, h_buffer c, h_read c))) (\<lambda>(name, buf, s).
     case cl_server_guid cl of
       None \<Rightarrow> Some Panic
     | Some g \<Rightarrow> Some (Ok \<lparr>a_write = h_write c, a_server_guid = g, a_cap_unix_fd = h_cap_unix_fd c, a_read = s,
         a_received_bytes = buf, a_received_fds = h_fds c, a_unique_name = name\<rparr>)))))"

end
