(* ===== verification/Connection.thy ===== *)
theory Connection
  imports Subscriptions Handshake
begin

text \<open>
  A connection after the handshake (\<^verbatim>\<open>zbus/src/connection/mod.rs\<close>): sending messages, calls and their replies, the names
  it owns, and the errors of the D-Bus specification (\<^verbatim>\<open>zbus/src/fdo/error.rs\<close>, with what its \<^verbatim>\<open>derive\<close> in
  \<^verbatim>\<open>zbus_macros/src/error.rs\<close> makes of it).

  \<open>sg\<close> and \<open>f\<close> are the signature and the \<^verbatim>\<open>Serialize\<close> of a body. The counter of serial numbers, which is global, is kept in the
  connection.
\<close>

section \<open>Sending\<close>

datatype name_status = Owner bool | Queued bool

record 'w connection =
  cn_server_guid :: string
  cn_cap_unix_fd :: bool
  cn_bus_conn :: bool
  cn_unique_name :: "string option"
  cn_registered_names :: "(string \<times> name_status) list"
  cn_write :: 'w
  cn_serial :: u32

definition connection_new :: "('s, 'w) authenticated \<Rightarrow> bool \<Rightarrow> u32 \<Rightarrow> 'w connection" where
  "connection_new auth bus_conn serial = \<lparr>cn_server_guid = a_server_guid auth, cn_cap_unix_fd = a_cap_unix_fd auth,
     cn_bus_conn = bus_conn, cn_unique_name = a_unique_name auth, cn_registered_names = [], cn_write = a_write auth,
     cn_serial = serial\<rparr>"

text \<open>Code that changes a state of its own and may fail: what it returns, and the state afterwards. \<open>None\<close> if it does not return.\<close>

type_synonym ('s, 'e, 'a) sm = "'s \<Rightarrow> (('e, 'a) res \<times> 's) option"

definition sm_bind :: "('s, 'e, 'a) sm \<Rightarrow> ('a \<Rightarrow> ('s, 'e, 'b) sm) \<Rightarrow> ('s, 'e, 'b) sm" where
  "sm_bind m f s =
     (case m s of
        None \<Rightarrow> None
      | Some (r, s) \<Rightarrow> (case r of Ok x \<Rightarrow> f x s | Err e \<Rightarrow> Some (Err e, s) | Panic \<Rightarrow> Some (Panic, s)))"

definition sm_res :: "('e, 'a) res \<Rightarrow> ('s, 'e, 'a) sm" where
  "sm_res r s = Some (r, s)"

definition sm_opt :: "('e, 'a) res option \<Rightarrow> ('s, 'e, 'a) sm" where
  "sm_opt r s = map_option (\<lambda>r. (r, s)) r"

text \<open>The environment of a connection: the crates it relies on, the fuel of the deserializer, the byte order of the machine, the socket, the state of the
  socket after a send that failed, and the \<^verbatim>\<open>Display\<close> of errors.\<close>

record 'w env =
  v_nom :: nom
  v_endi :: endi
  v_dup :: dup
  v_bits :: "byte \<Rightarrow> byte option"
  v_fuel :: nat
  v_ne :: endian_sig
  v_send :: "'w send"
  v_lost :: "'w \<Rightarrow> 'w"
  v_shown :: "error \<Rightarrow> string"

definition conn_send :: "'w env \<Rightarrow> message \<Rightarrow> ('w connection, error, unit) sm" where
  "conn_send V m c =
     (if data_fds (msg_bytes m) \<noteq> [] \<and> \<not> cn_cap_unix_fd c then Some (Err Unsupported, c)
      else
        case send_message (v_send V) m (cn_write c) of
          None \<Rightarrow> None
        | Some (Ok w) \<Rightarrow> Some (Ok (), c\<lparr>cn_write := w\<rparr>)
        | Some (Err e) \<Rightarrow> Some (Err e, c\<lparr>cn_write := v_lost V (cn_write c)\<rparr>)
        | Some Panic \<Rightarrow> Some (Panic, c\<lparr>cn_write := v_lost V (cn_write c)\<rparr>))"

text \<open>A message that is begun takes the next serial number, also if it cannot be completed.\<close>

definition begin_msg :: "(u32 \<Rightarrow> (error, 'a \<times> u32) res) \<Rightarrow> ('w connection, error, 'a) sm" where
  "begin_msg mk c =
     Some (bind_res (mk (cn_serial c)) (\<lambda>(h, _). Ok h), c\<lparr>cn_serial := snd (next_serial (cn_serial c))\<rparr>)"

text \<open>The unique name of the connection needs no check.\<close>

definition with_sender :: "'w connection \<Rightarrow> header \<Rightarrow> header" where
  "with_sender c h = (case cn_unique_name c of Some s \<Rightarrow> set_fields (\<lambda>f. f\<lparr>sender := Some s\<rparr>) h | None \<Rightarrow> h)"

definition with_opt :: "('a \<Rightarrow> header \<Rightarrow> (error, header) res) \<Rightarrow> 'a option \<Rightarrow> header \<Rightarrow> (error, header) res" where
  "with_opt set_it x h = (case x of Some y \<Rightarrow> set_it y h | None \<Rightarrow> Ok h)"

definition send_built ::
  "'w env \<Rightarrow> signature \<Rightarrow> (ser \<Rightarrow> (zerror, ser) res) \<Rightarrow> header \<Rightarrow> ('w connection, error, message) sm" where
  "send_built V sg f h =
     sm_bind (sm_res (build (v_nom V) (v_endi V) (v_dup V) sg f h)) (\<lambda>m. sm_bind (conn_send V m) (\<lambda>_. sm_res (Ok m)))"

text \<open>\<^verbatim>\<open>call_method_raw\<close> gives the serial for which a reply is to be awaited, if one is expected.\<close>

definition call_method_raw ::
  "'w env \<Rightarrow> string option \<Rightarrow> string \<Rightarrow> string option \<Rightarrow> string \<Rightarrow> flag list \<Rightarrow> signature \<Rightarrow> (ser \<Rightarrow> (zerror, ser) res)
     \<Rightarrow> ('w connection, error, u32 option) sm" where
  "call_method_raw V dest p i m fls sg f =
     sm_bind (begin_msg (\<lambda>k. method_call (v_ne V) k p m)) (\<lambda>h c.
     sm_bind (sm_res (bind_res (with_opt set_destination dest (with_sender c h)) (\<lambda>h.
        bind_res (with_opt set_interface i h) (\<lambda>h.
        fold_res (\<lambda>fl h. with_flags h fl) fls h)))) (\<lambda>h.
     sm_bind (send_built V sg f h) (\<lambda>msg.
     sm_res (Ok (if NoReplyExpected \<in> set fls then None else Some (serial_num (msg_primary msg)))))) c)"

definition emit_signal ::
  "'w env \<Rightarrow> string option \<Rightarrow> string \<Rightarrow> string \<Rightarrow> string \<Rightarrow> signature \<Rightarrow> (ser \<Rightarrow> (zerror, ser) res)
     \<Rightarrow> ('w connection, error, unit) sm" where
  "emit_signal V dest p i m sg f =
     sm_bind (begin_msg (\<lambda>k. signal (v_ne V) k p i m)) (\<lambda>h c.
     sm_bind (sm_res (with_opt set_destination dest (with_sender c h))) (\<lambda>h.
     sm_bind (send_built V sg f h) (\<lambda>_. sm_res (Ok ()))) c)"

definition reply ::
  "'w env \<Rightarrow> header \<Rightarrow> signature \<Rightarrow> (ser \<Rightarrow> (zerror, ser) res) \<Rightarrow> ('w connection, error, unit) sm" where
  "reply V call sg f =
     sm_bind (begin_msg (\<lambda>k. method_return (v_ne V) k call)) (\<lambda>h c.
     sm_bind (send_built V sg f (with_sender c h)) (\<lambda>_. sm_res (Ok ())) c)"

definition reply_error ::
  "'w env \<Rightarrow> header \<Rightarrow> string \<Rightarrow> signature \<Rightarrow> (ser \<Rightarrow> (zerror, ser) res) \<Rightarrow> ('w connection, error, unit) sm" where
  "reply_error V call name sg f =
     sm_bind (begin_msg (\<lambda>k. error_reply (v_ne V) k call name)) (\<lambda>h c.
     sm_bind (send_built V sg f (with_sender c h)) (\<lambda>_. sm_res (Ok ())) c)"

section \<open>The standard errors\<close>

definition fdo_suffix :: "fdo_kind \<Rightarrow> string" where
  "fdo_suffix k =
     (case k of
        Failed \<Rightarrow> ''Failed''
      | NoMemory \<Rightarrow> ''NoMemory''
      | ServiceUnknown \<Rightarrow> ''ServiceUnknown''
      | NameHasNoOwner \<Rightarrow> ''NameHasNoOwner''
      | NoReply \<Rightarrow> ''NoReply''
      | IOError \<Rightarrow> ''IOError''
      | BadAddress \<Rightarrow> ''BadAddress''
      | NotSupported \<Rightarrow> ''NotSupported''
      | LimitsExceeded \<Rightarrow> ''LimitsExceeded''
      | AccessDenied \<Rightarrow> ''AccessDenied''
      | AuthFailed \<Rightarrow> ''AuthFailed''
      | NoServer \<Rightarrow> ''NoServer''
      | Timeout \<Rightarrow> ''Timeout''
      | NoNetwork \<Rightarrow> ''NoNetwork''
      | AddressInUse \<Rightarrow> ''AddressInUse''
      | Disconnected \<Rightarrow> ''Disconnected''
      | InvalidArgs \<Rightarrow> ''InvalidArgs''
      | FileNotFound \<Rightarrow> ''FileNotFound''
      | FileExists \<Rightarrow> ''FileExists''
      | UnknownMethod \<Rightarrow> ''UnknownMethod''
      | UnknownObject \<Rightarrow> ''UnknownObject''
      | UnknownInterface \<Rightarrow> ''UnknownInterface''
      | UnknownProperty \<Rightarrow> ''UnknownProperty''
      | PropertyReadOnly \<Rightarrow> ''PropertyReadOnly''
      | TimedOut \<Rightarrow> ''TimedOut''
      | MatchRuleNotFound \<Rightarrow> ''MatchRuleNotFound''
      | MatchRuleInvalid \<Rightarrow> ''MatchRuleInvalid''
      | SpawnExecFailed \<Rightarrow> ''Spawn.ExecFailed''
      | SpawnForkFailed \<Rightarrow> ''Spawn.ForkFailed''
      | SpawnChildExited \<Rightarrow> ''Spawn.ChildExited''
      | SpawnChildSignaled \<Rightarrow> ''Spawn.ChildSignaled''
      | SpawnFailed \<Rightarrow> ''Spawn.Failed''
      | SpawnFailedToSetup \<Rightarrow> ''Spawn.FailedToSetup''
      | SpawnConfigInvalid \<Rightarrow> ''Spawn.ConfigInvalid''
      | SpawnServiceNotValid \<Rightarrow> ''Spawn.ServiceNotValid''
      | SpawnServiceNotFound \<Rightarrow> ''Spawn.ServiceNotFound''
      | SpawnPermissionsInvalid \<Rightarrow> ''Spawn.PermissionsInvalid''
      | SpawnFileInvalid \<Rightarrow> ''Spawn.FileInvalid''
      | SpawnNoMemory \<Rightarrow> ''Spawn.NoMemory''
      | UnixProcessIdUnknown \<Rightarrow> ''UnixProcessIdUnknown''
      | InvalidSignature \<Rightarrow> ''InvalidSignature''
      | InvalidFileContent \<Rightarrow> ''InvalidFileContent''
      | SELinuxSecurityContextUnknown \<Rightarrow> ''SELinuxSecurityContextUnknown''
      | AdtAuditDataUnknown \<Rightarrow> ''AdtAuditDataUnknown''
      | ObjectPathInUse \<Rightarrow> ''ObjectPathInUse''
      | InconsistentMessage \<Rightarrow> ''InconsistentMessage''
      | InteractiveAuthorizationRequired \<Rightarrow> ''InteractiveAuthorizationRequired''
      | NotContainer \<Rightarrow> ''NotContainer'')"

definition fdo_kinds :: "fdo_kind list" where
  "fdo_kinds = [Failed, NoMemory, ServiceUnknown, NameHasNoOwner, NoReply, IOError, BadAddress, NotSupported,
     LimitsExceeded, AccessDenied, AuthFailed, NoServer, Timeout, NoNetwork, AddressInUse,
     Disconnected, InvalidArgs, FileNotFound, FileExists, UnknownMethod, UnknownObject,
     UnknownInterface, UnknownProperty, PropertyReadOnly, TimedOut, MatchRuleNotFound,
     MatchRuleInvalid, SpawnExecFailed, SpawnForkFailed, SpawnChildExited, SpawnChildSignaled,
     SpawnFailed, SpawnFailedToSetup, SpawnConfigInvalid, SpawnServiceNotValid,
     SpawnServiceNotFound, SpawnPermissionsInvalid, SpawnFileInvalid, SpawnNoMemory,
     UnixProcessIdUnknown, InvalidSignature, InvalidFileContent, SELinuxSecurityContextUnknown,
     AdtAuditDataUnknown, ObjectPathInUse, InconsistentMessage, InteractiveAuthorizationRequired,
     NotContainer]"

datatype fdo_error = ZBus error | Fdo fdo_kind string

definition fdo_prefix :: string where "fdo_prefix = ''org.freedesktop.DBus.Error''"

definition fdo_name :: "fdo_error \<Rightarrow> string" where
  "fdo_name e = (case e of ZBus _ \<Rightarrow> ''org.freedesktop.zbus.Error'' | Fdo k _ \<Rightarrow> fdo_prefix @ ''.'' @ fdo_suffix k)"

text \<open>The argument of the reply for an error; \<open>shown\<close> is its \<^verbatim>\<open>Display\<close>.\<close>

definition fdo_argument :: "(error \<Rightarrow> string) \<Rightarrow> fdo_error \<Rightarrow> string" where
  "fdo_argument shown e =
     (case e of
        Fdo _ desc \<Rightarrow> desc
      | ZBus (MethodError _ (Some desc)) \<Rightarrow> desc
      | ZBus err \<Rightarrow> shown err)"

definition create_reply ::
  "nom \<Rightarrow> endi \<Rightarrow> dup \<Rightarrow> endian_sig \<Rightarrow> (error \<Rightarrow> string) \<Rightarrow> u32 \<Rightarrow> header \<Rightarrow> fdo_error \<Rightarrow> (error, message \<times> u32) res" where
  "create_reply N E D ne shown serial call e =
     bind_res (error_reply ne serial call (fdo_name e)) (\<lambda>(h, k).
     bind_res (build N E D signature.Str (serialize_inner N E D (Str (fdo_argument shown e))) h) (\<lambda>m. Ok (m, k)))"

text \<open>\<^verbatim>\<open>From<zbus::Error> for fdo::Error\<close>: by the name, with an empty description if there is none.\<close>

definition fdo_of_error :: "error \<Rightarrow> fdo_error" where
  "fdo_of_error e =
     (case e of
        MethodError name desc \<Rightarrow>
          (case find (\<lambda>k. fdo_prefix @ ''.'' @ fdo_suffix k = name) fdo_kinds of
             Some k \<Rightarrow> Fdo k (case desc of Some d \<Rightarrow> d | None \<Rightarrow> [])
           | None \<Rightarrow> ZBus e)
      | _ \<Rightarrow> ZBus e)"

text \<open>\<^verbatim>\<open>From<fdo::Error> for zbus::Error\<close>.\<close>

definition error_of_fdo :: "fdo_error \<Rightarrow> error" where
  "error_of_fdo e = (case e of ZBus err \<Rightarrow> err | Fdo k desc \<Rightarrow> FDO k desc)"

definition reply_dbus_error :: "'w env \<Rightarrow> header \<Rightarrow> fdo_error \<Rightarrow> ('w connection, error, unit) sm" where
  "reply_dbus_error V call e =
     sm_bind (begin_msg (\<lambda>k. create_reply (v_nom V) (v_endi V) (v_dup V) (v_ne V) (v_shown V) k call e)) (conn_send V)"

section \<open>Waiting for a reply\<close>

text \<open>\<^verbatim>\<open>PendingMethodCall\<close>, polled on what is in its queue: \<open>None\<close> as long as there is no reply, with what is left of the queue. Once the
  queue is closed the call ends with an error.\<close>

fun poll_reply ::
  "nom \<Rightarrow> endi \<Rightarrow> (byte \<Rightarrow> byte option) \<Rightarrow> nat \<Rightarrow> u32 \<Rightarrow> bool \<Rightarrow> item list \<Rightarrow> (error, item option \<times> item list) res option" where
  "poll_reply N E B n serial closed [] = Some (Ok (if closed then Some (Err IoError) else None, []))"
| "poll_reply N E B n serial closed (Err e # its) = Some (Ok (Some (Err e), its))"
| "poll_reply N E B n serial closed (Panic # its) = Some Panic"
| "poll_reply N E B n serial closed (Ok m # its) =
     obind (message_header N E B n m) (\<lambda>h.
     if reply_serial (header_fields h) \<noteq> Some serial then poll_reply N E B n serial closed its
     else
       case msg_type (msg_primary m) of
         ErrorType \<Rightarrow> obind (error_of_message N E B n m) (\<lambda>e. Some (Ok (Some (Err e), its)))
       | MethodReturn \<Rightarrow> Some (Ok (Some (Ok m), its))
       | _ \<Rightarrow> poll_reply N E B n serial closed its)"

section \<open>Names\<close>

datatype name_flag = AllowReplacement | ReplaceExisting | DoNotQueue

datatype name_reply = PrimaryOwner | InQueue | Exists | AlreadyOwner

text \<open>\<open>ask\<close> is the call of \<^verbatim>\<open>RequestName\<close> on the bus. The flag of a status says whether a task waits for the loss of the name.\<close>

definition request_name_with_flags ::
  "(string \<Rightarrow> name_flag list \<Rightarrow> (error, name_reply) res) \<Rightarrow> string \<Rightarrow> name_flag list \<Rightarrow> 'w connection
     \<Rightarrow> (error, name_reply \<times> 'w connection) res" where
  "request_name_with_flags ask name fls c =
     bind_res (names_check (ensure_correct_well_known_name name)) (\<lambda>_.
     let names = cn_registered_names c; add = \<lambda>st. c\<lparr>cn_registered_names := AList.update name st names\<rparr> in
     case map_of names name of
       Some (Owner _) \<Rightarrow> Ok (AlreadyOwner, c)
     | Some (Queued _) \<Rightarrow> Ok (InQueue, c)
     | None \<Rightarrow>
         if \<not> cn_bus_conn c then Ok (PrimaryOwner, add (Owner False))
         else
           bind_res (ask name fls) (\<lambda>r.
           let lost = AllowReplacement \<in> set fls in
           case r of
             InQueue \<Rightarrow> Ok (r, add (Queued lost))
           | PrimaryOwner \<Rightarrow> Ok (r, add (Owner lost))
           | AlreadyOwner \<Rightarrow> Ok (r, add (Owner lost))
           | Exists \<Rightarrow> Err NameTaken))"

definition request_name ::
  "(string \<Rightarrow> name_flag list \<Rightarrow> (error, name_reply) res) \<Rightarrow> string \<Rightarrow> 'w connection \<Rightarrow> (error, 'w connection) res" where
  "request_name ask name c =
     bind_res (request_name_with_flags ask name [ReplaceExisting, DoNotQueue] c) (\<lambda>(_, c). Ok c)"

text \<open>\<open>ask\<close> is the call of \<^verbatim>\<open>ReleaseName\<close>; the name is forgotten before.\<close>

definition release_name ::
  "(string \<Rightarrow> (error, unit) res) \<Rightarrow> string \<Rightarrow> 'w connection \<Rightarrow> (error, bool) res \<times> 'w connection" where
  "release_name ask name c =
     (case names_check (ensure_correct_well_known_name name) of
        Err e \<Rightarrow> (Err e, c)
      | Panic \<Rightarrow> (Panic, c)
      | Ok _ \<Rightarrow>
          if map_of (cn_registered_names c) name = None then (Ok False, c)
          else
            let c = c\<lparr>cn_registered_names := AList.delete name (cn_registered_names c)\<rparr> in
            (if cn_bus_conn c then bind_res (ask name) (\<lambda>_. Ok True) else Ok True, c))"

text \<open>The tasks that wait for the signals of the bus.\<close>

definition name_acquired :: "string \<Rightarrow> 'w connection \<Rightarrow> 'w connection" where
  "name_acquired name c =
     (case map_of (cn_registered_names c) name of
        Some (Queued lost) \<Rightarrow> c\<lparr>cn_registered_names := AList.update name (Owner lost) (cn_registered_names c)\<rparr>
      | _ \<Rightarrow> c)"

definition name_lost :: "string \<Rightarrow> 'w connection \<Rightarrow> 'w connection" where
  "name_lost name c =
     (case map_of (cn_registered_names c) name of
        Some (Owner True) \<Rightarrow> c\<lparr>cn_registered_names := AList.delete name (cn_registered_names c)\<rparr>
      | _ \<Rightarrow> c)"

text \<open>Whether the task of the object server takes a call: on a bus any, else those for one of its names.\<close>

definition call_accepted :: "'w connection \<Rightarrow> header \<Rightarrow> bool" where
  "call_accepted c h =
     (cn_bus_conn c \<or>
      (case destination (header_fields h) of
         Some (WellKnown dest) \<Rightarrow> cn_registered_names c = [] \<or> dest \<in> fst ` set (cn_registered_names c)
       | _ \<Rightarrow> True))"

end
