(* ===== verification/Object_Tree.thy ===== *)
theory Object_Tree
  imports Connection
begin

text \<open>
  The tree of objects of an object server (\<^verbatim>\<open>zbus/src/object_server/node.rs\<close>).

  A \<^verbatim>\<open>HashMap\<close> is an association list; the order of its entries stands for the order in which the map is iterated. An
  instance of an interface is shared and has an address. \<open>G\<close> is the \<^verbatim>\<open>get_all\<close> of an instance and \<open>X\<close> its
  \<^verbatim>\<open>introspect_to_writer\<close>.
\<close>

section \<open>Nodes\<close>

datatype iface_instance = Peer | Introspectable | Properties | ObjectManager | Iface nat

record arc_interface =
  ai_instance :: iface_instance
  ai_spawn :: bool

datatype node = Node (node_path: string) (children: "(string \<times> node) list") (interfaces: "(string \<times> arc_interface) list")

definition peer_name :: string where "peer_name = ''org.freedesktop.DBus.Peer''"
definition introspectable_name :: string where "introspectable_name = ''org.freedesktop.DBus.Introspectable''"
definition properties_name :: string where "properties_name = ''org.freedesktop.DBus.Properties''"
definition manager_name :: string where "manager_name = ''org.freedesktop.DBus.ObjectManager''"

definition add_arc_interface :: "string \<Rightarrow> arc_interface \<Rightarrow> node \<Rightarrow> bool \<times> node" where
  "add_arc_interface name a nd =
     (if map_of (interfaces nd) name = None
      then (True, Node (node_path nd) (children nd) (AList.update name a (interfaces nd)))
      else (False, nd))"

text \<open>\<^verbatim>\<open>Node::add_interface\<close>, under an \<^verbatim>\<open>assert!\<close>.\<close>

definition assert_interface :: "string \<times> iface_instance \<Rightarrow> node \<Rightarrow> ('e, node) res" where
  "assert_interface ni nd =
     (case add_arc_interface (fst ni) \<lparr>ai_instance = snd ni, ai_spawn = True\<rparr> nd of
        (True, nd) \<Rightarrow> Ok nd
      | (False, _) \<Rightarrow> Panic)"

definition node_new :: "string \<Rightarrow> ('e, node) res" where
  "node_new p =
     fold_res assert_interface [(peer_name, Peer), (introspectable_name, Introspectable), (properties_name, Properties)]
       (Node p [] [])"

fun child_at :: "node \<Rightarrow> string list \<Rightarrow> node option" where
  "child_at nd [] = Some nd"
| "child_at nd (i # is) =
     (if i = [] then child_at nd is
      else case map_of (children nd) i of Some ch \<Rightarrow> child_at ch is | None \<Rightarrow> None)"

definition path_parts :: "string \<Rightarrow> string list" where
  "path_parts p = drop 1 (split_on (CHR ''/'') p)"

definition get_child :: "node \<Rightarrow> string \<Rightarrow> node option" where
  "get_child nd p = child_at nd (path_parts p)"

definition set_child :: "string \<Rightarrow> node \<Rightarrow> node \<Rightarrow> node" where
  "set_child i ch nd = Node (node_path nd) (AList.update i ch (children nd)) (interfaces nd)"

text \<open>\<^verbatim>\<open>get_child_mut\<close> and what is done with the node it lends, \<open>f\<close>: the result of \<open>f\<close> if there is such a node, the path of
  the closest object manager above it, and the tree after it. \<open>np\<close> is the path of the current node.\<close>

fun child_mut ::
  "(node \<Rightarrow> 'r \<times> node) \<Rightarrow> bool \<Rightarrow> string \<Rightarrow> string option \<Rightarrow> node \<Rightarrow> string list \<Rightarrow> ('e, ('r option \<times> string option) \<times> node) res" where
  "child_mut f create np mgr nd [] = (case f nd of (r, nd') \<Rightarrow> Ok ((Some r, mgr), nd'))"
| "child_mut f create np mgr nd (i # is) =
     (if i = [] then child_mut f create np mgr nd is
      else
        let mgr = (if map_of (interfaces nd) manager_name \<noteq> None then Some (node_path nd) else mgr); np = np @ ''/'' @ i in
        case map_of (children nd) i of
          Some ch \<Rightarrow> bind_res (child_mut f create np mgr ch is) (\<lambda>(r, ch). Ok (r, set_child i ch nd))
        | None \<Rightarrow>
            if create then
              (case ensure_correct_object_path_str np of
                 Ok _ \<Rightarrow>
                   bind_res (node_new np) (\<lambda>ch.
                   bind_res (child_mut f create np mgr ch is) (\<lambda>(r, ch). Ok (r, set_child i ch nd)))
               | _ \<Rightarrow> Panic)
            else Ok ((None, mgr), nd))"

definition get_child_mut ::
  "(node \<Rightarrow> 'r \<times> node) \<Rightarrow> bool \<Rightarrow> node \<Rightarrow> string \<Rightarrow> ('e, ('r option \<times> string option) \<times> node) res" where
  "get_child_mut f create nd p = child_mut f create [] None nd (path_parts p)"

definition interface_lock :: "node \<Rightarrow> string \<Rightarrow> arc_interface option" where
  "interface_lock nd name = map_of (interfaces nd) name"

definition remove_interface :: "string \<Rightarrow> node \<Rightarrow> bool \<times> node" where
  "remove_interface name nd =
     (map_of (interfaces nd) name \<noteq> None, Node (node_path nd) (children nd) (AList.delete name (interfaces nd)))"

definition standard_names :: "string list" where
  "standard_names = [peer_name, introspectable_name, properties_name, manager_name]"

definition node_is_empty :: "node \<Rightarrow> bool" where
  "node_is_empty nd \<longleftrightarrow> \<not> list_ex (\<lambda>(name, _). name \<notin> set standard_names) (interfaces nd)"

definition remove_node :: "string \<Rightarrow> node \<Rightarrow> bool \<times> node" where
  "remove_node i nd = (map_of (children nd) i \<noteq> None, Node (node_path nd) (AList.delete i (children nd)) (interfaces nd))"

section \<open>Managed objects\<close>

type_synonym props = "(string \<times> zvalue) list"
type_synonym managed_objects = "(string \<times> (string \<times> props) list) list"

definition get_properties :: "(arc_interface \<Rightarrow> (fdo_error, props) res) \<Rightarrow> string \<Rightarrow> node \<Rightarrow> (fdo_error, props) res" where
  "get_properties G name nd = (case interface_lock nd name of Some a \<Rightarrow> G a | None \<Rightarrow> Panic)"

definition managed_interfaces :: "(arc_interface \<Rightarrow> (fdo_error, props) res) \<Rightarrow> node \<Rightarrow> (fdo_error, (string \<times> props) list) res" where
  "managed_interfaces G nd =
     fold_res (\<lambda>name ifs. bind_res (get_properties G name nd) (\<lambda>ps. Ok (AList.update name ps ifs)))
       (filter (\<lambda>name. name \<notin> set standard_names) (map fst (interfaces nd))) []"

text \<open>The loop over the stack of nodes; its top is the head of the list.\<close>

lemma size_children: "sum_list (map size (map snd cs)) \<le> size_list (size_prod (\<lambda>_. 0) size) cs"
  by (induction cs) auto

lemma size_node: "sum_list (map size (map snd (children nd))) < size nd"
  by (cases nd) (use size_children in \<open>force simp: less_Suc_eq_le intro: trans_le_add1\<close>)

function managed_loop ::
  "(arc_interface \<Rightarrow> (fdo_error, props) res) \<Rightarrow> node list \<Rightarrow> managed_objects \<Rightarrow> (fdo_error, managed_objects) res" where
  "managed_loop G [] objs = Ok objs"
| "managed_loop G (nd # nds) objs =
     bind_res (managed_interfaces G nd) (\<lambda>ifs.
     managed_loop G (rev (map snd (children nd)) @ nds) (AList.update (node_path nd) ifs objs))"
  by pat_completeness auto
termination
  by (relation "measure (\<lambda>(G, nds, objs). sum_list (map size nds))") (use size_node in \<open>auto simp: rev_map [symmetric] sum_list_rev\<close>)

definition get_managed_objects :: "(arc_interface \<Rightarrow> (fdo_error, props) res) \<Rightarrow> node \<Rightarrow> (fdo_error, managed_objects) res" where
  "get_managed_objects G nd = managed_loop G (rev (map snd (children nd))) []"

section \<open>Introspection\<close>

datatype fragment = Fragment_Node string node nat | Fragment_End nat

definition writeln :: "nat \<Rightarrow> string \<Rightarrow> string" where
  "writeln level s = replicate level (CHR '' '') @ s @ [CHR 0x0A]"

definition doctype :: string where
  \<open>doctype = [CHR 0x0A] @ ''<!DOCTYPE node PUBLIC "-//freedesktop//DTD D-BUS Object Introspection 1.0//EN"'' @ [CHR 0x0A] @
     '' "http://www.freedesktop.org/standards/dbus/1.0/introspect.dtd">'' @ [CHR 0x0A]\<close>

definition open_node :: "nat \<Rightarrow> string \<Rightarrow> string" where
  \<open>open_node level name =
     (if level = 0 then doctype @ writeln 0 ''<node>'' else writeln level (''<node name="'' @ name @ ''">''))\<close>

fun fragment_size :: "fragment \<Rightarrow> nat" where
  "fragment_size (Fragment_Node name nd level) = 2 * size nd"
| "fragment_size (Fragment_End level) = 1"

lemma fragment_sizes:
  "sum_list (map fragment_size (map (\<lambda>(name, ch). Fragment_Node name ch k) cs)) = 2 * sum_list (map size (map snd cs))"
  by (induction cs) auto

lemma fragments_less:
  "Suc (sum_list (map fragment_size (map (\<lambda>(name, ch). Fragment_Node name ch k) (children nd)))) < 2 * size nd"
  using size_node [of nd] unfolding fragment_sizes by simp

function introspect_loop :: "(arc_interface \<Rightarrow> nat \<Rightarrow> string) \<Rightarrow> fragment list \<Rightarrow> string" where
  "introspect_loop X [] = []"
| "introspect_loop X (Fragment_Node name nd level # fs) =
     open_node level name @ concat (map (\<lambda>(_, a). X a (level + 2)) (interfaces nd)) @
     introspect_loop X (rev (map (\<lambda>(name, ch). Fragment_Node name ch (level + 2)) (children nd)) @ Fragment_End level # fs)"
| "introspect_loop X (Fragment_End level # fs) = writeln level ''</node>'' @ introspect_loop X fs"
  by pat_completeness auto

termination
  by (relation "measure (\<lambda>(X, fs). sum_list (map fragment_size fs))")
    (simp_all add: rev_map [symmetric] sum_list_rev fragments_less del: map_map)

definition introspect :: "(arc_interface \<Rightarrow> nat \<Rightarrow> string) \<Rightarrow> node \<Rightarrow> string" where
  "introspect X nd = introspect_loop X [Fragment_Node [] nd 0]"

section \<open>Paths\<close>

definition path_of :: "string list \<Rightarrow> string" where
  "path_of es = (if es = [] then ''/'' else concat (map (\<lambda>e. CHR ''/'' # e) es))"

lemma path_elements_ok_simps [simp]:
  "path_elements_ok []" "path_elements_ok (e # es) \<longleftrightarrow> e \<noteq> [] \<and> list_all name_char e \<and> path_elements_ok es"
  "path_elements_ok (es @ fs) \<longleftrightarrow> path_elements_ok es \<and> path_elements_ok fs"
  by (auto simp: path_elements_ok_def)

lemma name_char_no_slash: "list_all name_char e \<Longrightarrow> CHR ''/'' \<notin> set e"
  by (auto simp: list_all_iff)

lemma split_path: "path_elements_ok es \<Longrightarrow> es \<noteq> [] \<Longrightarrow> split_on (CHR ''/'') (concat (map (\<lambda>e. CHR ''/'' # e) es)) = [] # es"
proof (induction es)
  case (Cons e es)
  then show ?case
    by (cases es) (simp_all add: name_char_no_slash split_on_absent split_on_append)
qed simp

lemma concat_split: "concat (map (\<lambda>e. CHR ''/'' # e) (split_on (CHR ''/'') cs)) = CHR ''/'' # cs"
proof (induction cs)
  case (Cons c cs)
  then show ?case by (cases "split_on (CHR ''/'') cs") auto
qed simp

lemma path_of_inj: "path_elements_ok es \<Longrightarrow> path_elements_ok fs \<Longrightarrow> path_of es = path_of fs \<longleftrightarrow> es = fs"
proof
  assume *: "path_elements_ok es" "path_elements_ok fs" "path_of es = path_of fs"
  have "es = [] \<longleftrightarrow> fs = []"
    using * by (cases es; cases fs) (auto simp: path_of_def)
  then consider "es = []" "fs = []" | "es \<noteq> []" "fs \<noteq> []" by blast
  then show "es = fs"
  proof cases
    case 2
    have "concat (map (\<lambda>e. CHR ''/'' # e) es) = concat (map (\<lambda>e. CHR ''/'' # e) fs)" using *(3) 2 by (simp add: path_of_def)
    with split_path [OF *(1) 2(1)] split_path [OF *(2) 2(2)] show ?thesis by (metis list.inject)
  qed simp
qed simp

lemma valid_path_elements:
  "ensure_correct_object_path_str p = Ok () \<longleftrightarrow> (\<exists>es. path_elements_ok es \<and> p = path_of es)"
proof
  assume "ensure_correct_object_path_str p = Ok ()"
  then consider "p = ''/''" | cs where "p = CHR ''/'' # cs" "path_elements_ok (split_on (CHR ''/'') cs)"
    by (auto simp: object_path_Ok)
  then show "\<exists>es. path_elements_ok es \<and> p = path_of es"
  proof cases
    case 1
    then show ?thesis by (intro exI [of _ "[]"]) (simp add: path_of_def)
  next
    case 2
    then show ?thesis
      by (intro exI [of _ "split_on (CHR ''/'') cs"]) (simp add: path_of_def concat_split)
  qed
next
  assume "\<exists>es. path_elements_ok es \<and> p = path_of es"
  then obtain es where es: "path_elements_ok es" "p = path_of es" by blast
  show "ensure_correct_object_path_str p = Ok ()"
  proof (cases es)
    case Nil
    then show ?thesis using es by (simp add: object_path_Ok path_of_def)
  next
    case (Cons e fs)
    then have "split_on (CHR ''/'') (e @ concat (map (\<lambda>e. CHR ''/'' # e) fs)) = es"
      using split_path [of es] es by simp
    then show ?thesis using es Cons by (simp add: object_path_Ok path_of_def del: path_elements_ok_simps(2))
  qed
qed

lemma path_parts_of: "path_elements_ok es \<Longrightarrow> path_parts (path_of es) = (if es = [] then [[]] else es)"
  using split_path [of es] by (simp add: path_parts_def path_of_def)

lemma get_child_path [simp]: "path_elements_ok es \<Longrightarrow> get_child nd (path_of es) = child_at nd es"
  by (simp add: get_child_def path_parts_of)

lemma get_child_mut_path [simp]:
  "path_elements_ok es \<Longrightarrow> get_child_mut f create nd (path_of es) = child_mut f create [] None nd es"
  by (simp add: get_child_mut_def path_parts_of)

section \<open>Lookups after changes\<close>

definition standard :: "(string \<times> arc_interface) list" where
  "standard = map (\<lambda>(name, i). (name, \<lparr>ai_instance = i, ai_spawn = True\<rparr>))
     [(peer_name, Peer), (introspectable_name, Introspectable), (properties_name, Properties)]"

lemmas iface_names = peer_name_def introspectable_name_def properties_name_def manager_name_def

lemma node_new_Ok [simp]: "node_new p = Ok (Node p [] standard)"
  by (simp add: node_new_def assert_interface_def add_arc_interface_def standard_def iface_names)

lemma standard_manager [simp]: "map_of standard manager_name = None"
  by (simp add: standard_def iface_names)

lemma standard_distinct [simp]: "distinct (map fst standard)"
  by (simp add: standard_def iface_names)

lemma standard_only: "name \<notin> set standard_names \<Longrightarrow> map_of standard name = None"
  by (auto simp: standard_def standard_names_def)

text \<open>Every node has the path at which it is found, and every name once.\<close>

fun node_ok :: "string list \<Rightarrow> node \<Rightarrow> bool" where
  "node_ok es (Node p cs is) \<longleftrightarrow>
     p = path_of es \<and> distinct (map fst cs) \<and> distinct (map fst is) \<and>
     list_all (\<lambda>(i, ch). i \<noteq> [] \<and> list_all name_char i \<and> node_ok (es @ [i]) ch) cs"

definition iface_at :: "node \<Rightarrow> string list \<Rightarrow> string \<Rightarrow> arc_interface option" where
  "iface_at nd es name = (case child_at nd es of Some ch \<Rightarrow> map_of (interfaces ch) name | None \<Rightarrow> None)"

lemma iface_at_Nil [simp]: "iface_at nd [] = map_of (interfaces nd)"
  by (simp add: iface_at_def fun_eq_iff)

lemma iface_at_Cons [simp]:
  "i \<noteq> [] \<Longrightarrow> iface_at nd (i # es) = (case map_of (children nd) i of Some ch \<Rightarrow> iface_at ch es | None \<Rightarrow> (\<lambda>_. None))"
  by (simp add: iface_at_def fun_eq_iff split: option.splits)

lemma set_child_simps [simp]:
  "node_path (set_child i ch nd) = node_path nd" "interfaces (set_child i ch nd) = interfaces nd"
  "map_of (children (set_child i ch nd)) = (map_of (children nd))(i \<mapsto> ch)"
  by (simp_all add: set_child_def update_conv')

lemma node_ok_path: "node_ok es nd \<Longrightarrow> node_path nd = path_of es"
  by (cases nd) simp

lemma node_ok_child: "node_ok es nd \<Longrightarrow> map_of (children nd) i = Some ch \<Longrightarrow> node_ok (es @ [i]) ch"
  by (cases nd) (auto simp: list_all_iff dest: map_of_SomeD)

lemma node_ok_child_at: "node_ok es nd \<Longrightarrow> path_elements_ok is \<Longrightarrow> child_at nd is = Some ch \<Longrightarrow> node_ok (es @ is) ch"
proof (induction "is" arbitrary: es nd)
  case (Cons i "is")
  then obtain c where "map_of (children nd) i = Some c" "child_at c is = Some ch" by (auto split: option.splits if_splits)
  with Cons.IH [of "es @ [i]" c] Cons.prems node_ok_child [of es nd i c] show ?case by simp
qed simp

lemma node_ok_fresh [simp]: "node_ok es (Node (path_of es) [] standard)"
  by simp

lemma set_update: "x \<in> set (AList.update k v xs) \<Longrightarrow> x = (k, v) \<or> x \<in> set xs"
  by (induction xs) (auto split: if_splits)

lemma node_ok_set_child:
  "node_ok es nd \<Longrightarrow> i \<noteq> [] \<Longrightarrow> list_all name_char i \<Longrightarrow> node_ok (es @ [i]) ch \<Longrightarrow> node_ok es (set_child i ch nd)"
  by (cases nd) (auto simp: set_child_def list_all_iff distinct_update dest!: set_update)

text \<open>The path of the node that is created below a node.\<close>

lemma path_of_snoc: "(if es = [] then [] else path_of es) @ ''/'' @ i = path_of (es @ [i])"
  by (simp add: path_of_def)

definition child_or_new :: "string list \<Rightarrow> node \<Rightarrow> string list \<Rightarrow> node" where
  "child_or_new es nd is = (case child_at nd is of Some ch \<Rightarrow> ch | None \<Rightarrow> Node (path_of (es @ is)) [] standard)"

lemma child_at_empty: "children nd = [] \<Longrightarrow> path_elements_ok is \<Longrightarrow> is \<noteq> [] \<Longrightarrow> child_at nd is = None"
  by (cases "is") auto

lemma child_or_new_Cons:
  "path_elements_ok (i # is) \<Longrightarrow> child_or_new es nd (i # is) = child_or_new (es @ [i])
     (case map_of (children nd) i of Some ch \<Rightarrow> ch | None \<Rightarrow> Node (path_of (es @ [i])) [] standard) is"
  by (cases "is = []") (auto simp: child_or_new_def child_at_empty split: option.splits)

lemma child_or_new_ok: "node_ok es nd \<Longrightarrow> path_elements_ok is \<Longrightarrow> node_ok (es @ is) (child_or_new es nd is)"
  by (auto simp: child_or_new_def intro: node_ok_child_at split: option.splits)

text \<open>The closest manager strictly above a node.\<close>

definition closest_manager :: "string list \<Rightarrow> node \<Rightarrow> string list \<Rightarrow> string option \<Rightarrow> string option" where
  "closest_manager es nd is mgr =
     (case filter (\<lambda>k. iface_at nd (take k is) manager_name \<noteq> None) (rev [0..<length is]) of
        [] \<Rightarrow> mgr
      | k # _ \<Rightarrow> Some (path_of (es @ take k is)))"

lemma upt_Suc_rev: "rev [0..<Suc n] = map Suc (rev [0..<n]) @ [0]"
  by (simp add: rev_map [symmetric] map_Suc_upt upt_conv_Cons del: upt_Suc)

lemma closest_manager_Cons:
  assumes "node_ok es nd" "path_elements_ok (i # is)"
  shows "closest_manager es nd (i # is) mgr =
    (let mgr = (if map_of (interfaces nd) manager_name \<noteq> None then Some (node_path nd) else mgr) in
     case map_of (children nd) i of Some ch \<Rightarrow> closest_manager (es @ [i]) ch is mgr | None \<Rightarrow> mgr)"
proof -
  have "filter (\<lambda>k. iface_at nd (take k (i # is)) manager_name \<noteq> None) (map Suc (rev [0..<length is])) =
      (case map_of (children nd) i of
         Some ch \<Rightarrow> map Suc (filter (\<lambda>k. iface_at ch (take k is) manager_name \<noteq> None) (rev [0..<length is]))
       | None \<Rightarrow> [])"
    using assms(2) by (auto simp: filter_map comp_def split: option.splits)
  then show ?thesis
    using node_ok_path [OF assms(1)]
    by (auto simp: closest_manager_def upt_Suc_rev Let_def split: option.splits list.splits simp del: upt_Suc)
qed

lemma iface_at_fresh:
  assumes "path_elements_ok es"
  shows "iface_at (Node p [] standard) es = (if es = [] then map_of standard else (\<lambda>_. None))"
  using child_at_empty [of "Node p [] standard" es] assms by (auto simp: iface_at_def fun_eq_iff)

lemma closest_manager_fresh:
  assumes "path_elements_ok is"
  shows "closest_manager es (Node p [] standard) is mgr = mgr"
proof -
  have "path_elements_ok (take k is)" for k
    using assms append_take_drop_id [of k "is"] by (metis path_elements_ok_simps(3))
  then show ?thesis by (simp add: closest_manager_def iface_at_fresh)
qed

text \<open>What \<^verbatim>\<open>get_child_mut\<close> does to the tree, when it creates the nodes that are missing.\<close>

lemma child_mut_create:
  fixes f :: "node \<Rightarrow> 'r \<times> node"
  assumes "node_ok es nd" "path_elements_ok is" "path_elements_ok es"
    and "\<And>ch. node_ok (es @ is) ch \<Longrightarrow> node_ok (es @ is) (snd (f ch))"
  shows "\<exists>nd'. child_mut f True (if es = [] then [] else path_of es) mgr nd is =
      (Ok ((Some (fst (f (child_or_new es nd is))), closest_manager es nd is mgr), nd') :: ('e, _) res) \<and> node_ok es nd' \<and>
    (\<forall>qs. prefix qs is \<longrightarrow> child_at nd' qs \<noteq> None) \<and>
    (\<forall>qs. path_elements_ok qs \<longrightarrow> iface_at nd' qs =
      (if prefix is qs then iface_at (snd (f (child_or_new es nd is))) (drop (length is) qs)
       else if prefix qs is \<and> child_at nd qs = None then map_of standard else iface_at nd qs))"
  using assms
proof (induction "is" arbitrary: es nd mgr)
  case Nil
  then show ?case using Nil.prems(4) [of nd] by (cases "f nd") (auto simp: child_or_new_def closest_manager_def)
next
  case (Cons i "is")
  let ?mgr = "if map_of (interfaces nd) manager_name \<noteq> None then Some (node_path nd) else mgr"
  define ch where "ch = (case map_of (children nd) i of Some ch \<Rightarrow> ch | None \<Rightarrow> Node (path_of (es @ [i])) [] standard)"
  have i: "i \<noteq> []" "list_all name_char i" "path_elements_ok is" "path_elements_ok (es @ [i])" using Cons.prems by auto
  have ok: "node_ok (es @ [i]) ch"
    using node_ok_child [OF Cons.prems(1)] node_ok_fresh unfolding ch_def by (auto split: option.splits)
  have child: "child_or_new es nd (i # is) = child_or_new (es @ [i]) ch is"
    using child_or_new_Cons [of i "is" es nd] Cons.prems(2) by (simp add: ch_def)
  have mgr: "closest_manager es nd (i # is) mgr = closest_manager (es @ [i]) ch is ?mgr"
    unfolding closest_manager_Cons [OF Cons.prems(1,2)] ch_def
    using i(3) by (auto simp: Let_def closest_manager_fresh split: option.splits)
  obtain ch' where ch': "child_mut f True (path_of (es @ [i])) ?mgr ch is =
      (Ok ((Some (fst (f (child_or_new (es @ [i]) ch is))), closest_manager (es @ [i]) ch is ?mgr), ch') :: ('e, _) res)"
    "node_ok (es @ [i]) ch'" "\<And>qs. prefix qs is \<Longrightarrow> child_at ch' qs \<noteq> None"
    "\<And>qs. path_elements_ok qs \<Longrightarrow> iface_at ch' qs =
      (if prefix is qs then iface_at (snd (f (child_or_new (es @ [i]) ch is))) (drop (length is) qs)
       else if prefix qs is \<and> child_at ch qs = None then map_of standard else iface_at ch qs)"
    using Cons.IH [OF ok i(3,4), of ?mgr] Cons.prems(4) by auto
  have "ensure_correct_object_path_str (path_of (es @ [i])) = Ok ()" using valid_path_elements i(4) by blast
  then have "child_mut f True (if es = [] then [] else path_of es) mgr nd (i # is) =
      (Ok ((Some (fst (f (child_or_new es nd (i # is)))), closest_manager es nd (i # is) mgr), set_child i ch' nd) :: ('e, _) res)"
    using ch'(1) i(1) unfolding child mgr
    by (auto simp: ch_def Let_def path_of_snoc [simplified] split: option.splits)
  moreover have "node_ok es (set_child i ch' nd)" using node_ok_set_child Cons.prems(1) i ch'(2) by blast
  moreover have "child_at (set_child i ch' nd) qs \<noteq> None" if "prefix qs (i # is)" for qs
    using that ch'(3) i(1) by (cases qs) auto
  moreover have "iface_at (set_child i ch' nd) qs =
      (if prefix (i # is) qs then iface_at (snd (f (child_or_new es nd (i # is)))) (drop (length (i # is)) qs)
       else if prefix qs (i # is) \<and> child_at nd qs = None then map_of standard else iface_at nd qs)" if "path_elements_ok qs" for qs
  proof (cases qs)
    case (Cons q qs')
    with that show ?thesis
      using ch'(4) [of qs'] i(1) unfolding child
      by (cases "q = i"; cases "qs' = []"; cases "map_of (children nd) i") (auto simp: ch_def iface_at_def child_at_empty)
  qed (use i(1) in simp)
  ultimately show ?case by blast
qed

lemma child_mut_present:
  "path_elements_ok is \<Longrightarrow> child_at nd is \<noteq> None \<Longrightarrow> child_mut f False np mgr nd is = child_mut f True np mgr nd is"
  by (induction "is" arbitrary: nd np mgr) (auto simp: Let_def split: option.splits)

lemma child_mut_absent:
  "path_elements_ok is \<Longrightarrow> child_at nd is = None \<Longrightarrow> \<exists>m. child_mut f False np mgr nd is = (Ok ((None, m), nd) :: ('e, _) res)"
proof (induction "is" arbitrary: nd np mgr)
  case (Cons i "is")
  let ?mgr = "if map_of (interfaces nd) manager_name \<noteq> None then Some (node_path nd) else mgr"
  show ?case
  proof (cases "map_of (children nd) i")
    case (Some ch)
    have ch: "path_elements_ok is" "child_at ch is = None" using Cons.prems Some by simp_all
    obtain m where "child_mut f False (np @ ''/'' @ i) ?mgr ch is = (Ok ((None, m), ch) :: ('e, _) res)"
      using Cons.IH [OF ch] by blast
    then show ?thesis using Cons.prems Some by (cases nd) (auto simp: Let_def set_child_def update_triv)
  qed (use Cons.prems in \<open>auto simp: Let_def\<close>)
qed simp

section \<open>The nodes of a tree\<close>

fun nodes :: "node \<Rightarrow> node set" where
  "nodes (Node p cs is) = insert (Node p cs is) (\<Union>x \<in> set cs. nodes (snd x))"

lemma nodes_eq: "nodes nd = insert nd (\<Union>x \<in> set (children nd). nodes (snd x))"
  by (cases nd) simp

lemma node_in_nodes [simp]: "nd \<in> nodes nd"
  by (cases nd) simp

lemma map_of_children: "node_ok es nd \<Longrightarrow> map_of (children nd) i = Some ch \<longleftrightarrow> (i, ch) \<in> set (children nd)"
  by (cases nd) simp

lemma child_in_nodes: "path_elements_ok es \<Longrightarrow> child_at nd es = Some n \<Longrightarrow> n \<in> nodes nd"
proof (induction es arbitrary: nd)
  case Nil
  then show ?case by simp
next
  case (Cons e es)
  then obtain ch where "map_of (children nd) e = Some ch" "n \<in> nodes ch" by (auto split: option.splits)
  then show ?case by (auto simp: nodes_eq [of nd] dest!: map_of_SomeD intro!: bexI [of _ "(e, ch)"])
qed

lemma nodes_child: "n \<in> nodes nd \<Longrightarrow> node_ok base nd \<Longrightarrow> \<exists>es. path_elements_ok es \<and> child_at nd es = Some n"
proof (induction nd arbitrary: base rule: nodes.induct)
  case (1 p cs "is")
  show ?case
  proof (cases "n = Node p cs is")
    case True
    then show ?thesis by (intro exI [of _ "[]"]) simp
  next
    case False
    then obtain i ch where ch: "(i, ch) \<in> set cs" "n \<in> nodes ch" using "1.prems"(1) by auto
    have i: "i \<noteq> []" "list_all name_char i" "node_ok (base @ [i]) ch" using "1.prems"(2) ch(1) by (auto simp: list_all_iff)
    obtain es where "path_elements_ok es" "child_at ch es = Some n" using "1.IH" [OF ch(1), of "base @ [i]"] ch(2) i(3) by auto
    moreover have "map_of cs i = Some ch" using "1.prems"(2) ch(1) by simp
    ultimately show ?thesis using i by (intro exI [of _ "i # es"]) simp
  qed
qed

text \<open>The objects below a node, by their paths.\<close>

definition below :: "node \<Rightarrow> node set" where
  "below nd = (\<Union>x \<in> set (children nd). nodes (snd x))"

lemma below_iff:
  assumes "node_ok base nd"
  shows "n \<in> below nd \<longleftrightarrow> (\<exists>es. es \<noteq> [] \<and> path_elements_ok es \<and> child_at nd es = Some n)"
proof
  assume "n \<in> below nd"
  then obtain i ch where ch: "(i, ch) \<in> set (children nd)" "n \<in> nodes ch" by (auto simp: below_def)
  have i: "i \<noteq> []" "list_all name_char i" "node_ok (base @ [i]) ch" using assms ch(1) by (cases nd; auto simp: list_all_iff)+
  obtain es where "path_elements_ok es" "child_at ch es = Some n" using nodes_child [OF ch(2) i(3)] by auto
  then show "\<exists>es. es \<noteq> [] \<and> path_elements_ok es \<and> child_at nd es = Some n"
    using i map_of_children [OF assms, of i ch] ch(1) by (intro exI [of _ "i # es"]) simp
next
  assume "\<exists>es. es \<noteq> [] \<and> path_elements_ok es \<and> child_at nd es = Some n"
  then obtain e es where "path_elements_ok (e # es)" "child_at nd (e # es) = Some n" by (metis list.exhaust)
  then obtain ch where "map_of (children nd) e = Some ch" "n \<in> nodes ch"
    using child_in_nodes by (auto split: option.splits)
  then show "n \<in> below nd" by (auto simp: below_def dest!: map_of_SomeD intro!: bexI [of _ "(e, ch)"])
qed

section \<open>Managed objects\<close>

lemma managed_interfaces_total:
  assumes "\<And>a. G a = Ok (pr a)"
  shows "\<exists>ifs. managed_interfaces G nd = Ok ifs \<and>
    (\<forall>name. map_of ifs name = (if name \<in> set standard_names then None else map_option pr (map_of (interfaces nd) name)))"
proof -
  let ?f = "\<lambda>name ifs. bind_res (get_properties G name nd) (\<lambda>ps. Ok (AList.update name ps ifs))"
  have "\<exists>ifs. fold_res ?f ns acc = (Ok ifs :: (fdo_error, _) res) \<and>
      (\<forall>name. map_of ifs name = (if name \<in> set ns then map_option pr (map_of (interfaces nd) name) else map_of acc name))"
    if "\<forall>name \<in> set ns. map_of (interfaces nd) name \<noteq> None" for ns acc
    using that
  proof (induction ns arbitrary: acc)
    case (Cons k ns)
    then obtain a where "map_of (interfaces nd) k = Some a" by auto
    with Cons.IH [of "AList.update k (pr a) acc"] Cons.prems assms show ?case
      by (auto simp: get_properties_def interface_lock_def update_conv')
  qed simp
  note user = this [of "filter (\<lambda>name. name \<notin> set standard_names) (map fst (interfaces nd))" "[]"]
  have "\<forall>name \<in> set (filter (\<lambda>name. name \<notin> set standard_names) (map fst (interfaces nd))). map_of (interfaces nd) name \<noteq> None"
    by (auto simp: map_of_eq_None_iff simp flip: not_None_eq)
  from user [OF this] obtain ifs where ifs: "managed_interfaces G nd = Ok ifs"
    "\<forall>name. map_of ifs name = (if name \<in> set (filter (\<lambda>name. name \<notin> set standard_names) (map fst (interfaces nd)))
       then map_option pr (map_of (interfaces nd) name) else map_of [] name)"
    unfolding managed_interfaces_def by blast
  have "map_of ifs name = (if name \<in> set standard_names then None else map_option pr (map_of (interfaces nd) name))" for name
  proof (cases "name \<in> fst ` set (interfaces nd)")
    case False
    then have "map_of (interfaces nd) name = None" by (simp add: map_of_eq_None_iff)
    with False ifs(2) show ?thesis by auto
  qed (use ifs(2) in simp)
  with ifs(1) show ?thesis by blast
qed

text \<open>The loop visits every node below those on its stack.\<close>

lemma managed_loop_visits:
  assumes "\<And>n. n \<in> (\<Union>nd \<in> set nds. nodes nd) \<Longrightarrow> managed_interfaces G n = Ok (F (node_path n))"
  shows "\<exists>objs'. managed_loop G nds objs = Ok objs' \<and>
    (\<forall>p. map_of objs' p = (if p \<in> node_path ` (\<Union>nd \<in> set nds. nodes nd) then Some (F p) else map_of objs p))"
  using assms
proof (induction G nds objs rule: managed_loop.induct)
  case (2 G nd nds objs)
  have "nodes nd = insert nd (\<Union>ch \<in> set (map snd (children nd)). nodes ch)" by (simp add: nodes_eq [of nd])
  then have visit: "(\<Union>nd \<in> set (nd # nds). nodes nd) = insert nd (\<Union>nd \<in> set (rev (map snd (children nd)) @ nds). nodes nd)" by auto
  have "managed_interfaces G nd = Ok (F (node_path nd))" using "2.prems" [of nd] by simp
  moreover obtain objs' where "managed_loop G (rev (map snd (children nd)) @ nds) (AList.update (node_path nd) (F (node_path nd)) objs) = Ok objs'"
    "\<forall>p. map_of objs' p = (if p \<in> node_path ` (\<Union>nd \<in> set (rev (map snd (children nd)) @ nds). nodes nd) then Some (F p)
       else map_of (AList.update (node_path nd) (F (node_path nd)) objs) p)"
    using "2.IH" [of "F (node_path nd)"] "2.prems" visit by blast
  ultimately show ?case unfolding visit by (simp add: update_conv')
qed simp

text \<open>C22: \<^verbatim>\<open>get_managed_objects\<close> ends, and if the interfaces below a node give their properties, its result has exactly the paths of
  the objects below the node, however deep, and for each the interfaces that are not standard ones, with their properties.\<close>
theorem managed_objects_complete:
  assumes "node_ok base nd" "path_elements_ok base" "\<And>a. G a = Ok (pr a)"
  shows "\<exists>objs. get_managed_objects G nd = Ok objs \<and>
    (\<forall>p. map_of objs p \<noteq> None \<longrightarrow> (\<exists>es. es \<noteq> [] \<and> path_elements_ok es \<and> p = path_of (base @ es))) \<and>
    (\<forall>es. es \<noteq> [] \<longrightarrow> path_elements_ok es \<longrightarrow>
      (case child_at nd es of
         None \<Rightarrow> map_of objs (path_of (base @ es)) = None
       | Some n \<Rightarrow> \<exists>ifs. map_of objs (path_of (base @ es)) = Some ifs \<and>
           (\<forall>name. map_of ifs name =
             (if name \<in> set standard_names then None else map_option pr (interface_lock n name)))))"
proof -
  have path: "node_path n = path_of (base @ es)" if "path_elements_ok es" "child_at nd es = Some n" for es n
    using node_ok_path [OF node_ok_child_at [OF assms(1) that]] .
  define F where "F p = (THE ifs. \<forall>es n. path_elements_ok es \<longrightarrow> child_at nd es = Some n \<longrightarrow> p = path_of (base @ es) \<longrightarrow> managed_interfaces G n = Ok ifs)" for p
  have F: "managed_interfaces G n = Ok (F (path_of (base @ es)))" if n: "path_elements_ok es" "child_at nd es = Some n" for es n
  proof -
    obtain ifs where ifs: "managed_interfaces G n = Ok ifs" using managed_interfaces_total [of G pr, OF assms(3)] by blast
    have "es' = es" if "path_elements_ok es'" "path_of (base @ es) = path_of (base @ es')" for es'
      using that n(1) assms(2) by (simp add: path_of_inj)
    then have "F (path_of (base @ es)) = ifs" unfolding F_def using ifs n by (intro the_equality) auto
    with ifs show ?thesis by simp
  qed
  have all: "(\<Union>n \<in> set (rev (map snd (children nd))). nodes n) = below nd" by (simp add: below_def)
  obtain objs where objs: "get_managed_objects G nd = Ok objs"
    "\<forall>p. map_of objs p = (if p \<in> node_path ` below nd then Some (F p) else None)"
    using managed_loop_visits [of "rev (map snd (children nd))" G F "[]"] F path
    unfolding all get_managed_objects_def below_iff [OF assms(1)] by fastforce
  have dom: "path_of (base @ es) \<in> node_path ` below nd \<longleftrightarrow> child_at nd es \<noteq> None" if "es \<noteq> []" "path_elements_ok es" for es
  proof
    assume "path_of (base @ es) \<in> node_path ` below nd"
    then obtain es' n where n: "path_elements_ok es'" "child_at nd es' = Some n" "path_of (base @ es) = node_path n"
      by (auto simp: below_iff [OF assms(1)])
    then have "path_of (base @ es) = path_of (base @ es')" using path by simp
    then have "es = es'" using path_of_inj [of "base @ es" "base @ es'"] assms(2) that(2) n(1) by simp
    with n(2) show "child_at nd es \<noteq> None" by simp
  next
    assume "child_at nd es \<noteq> None"
    then obtain n where n: "child_at nd es = Some n" by blast
    then have "n \<in> below nd" using that below_iff [OF assms(1)] by blast
    with path [OF that(2) n] show "path_of (base @ es) \<in> node_path ` below nd" by force
  qed
  show ?thesis
  proof (rule exI [of _ objs], intro conjI allI impI)
    fix es assume es: "es \<noteq> []" "path_elements_ok es"
    show "case child_at nd es of None \<Rightarrow> map_of objs (path_of (base @ es)) = None
       | Some n \<Rightarrow> \<exists>ifs. map_of objs (path_of (base @ es)) = Some ifs \<and>
           (\<forall>name. map_of ifs name = (if name \<in> set standard_names then None else map_option pr (interface_lock n name)))"
    proof (cases "child_at nd es")
      case (Some n)
      obtain ifs where "managed_interfaces G n = Ok ifs"
        "\<forall>name. map_of ifs name = (if name \<in> set standard_names then None else map_option pr (map_of (interfaces n) name))"
        using managed_interfaces_total [of G pr n, OF assms(3)] by blast
      with Some objs(2) dom [OF es] F [OF es(2) Some] show ?thesis by (simp add: interface_lock_def)
    qed (use objs(2) dom [OF es] in simp)
  next
    fix p assume "map_of objs p \<noteq> None"
    then have "p \<in> node_path ` below nd" using objs(2) by (auto split: if_splits)
    then obtain n es where "p = node_path n" "es \<noteq> []" "path_elements_ok es" "child_at nd es = Some n"
      by (auto simp: below_iff [OF assms(1)])
    with path show "\<exists>es. es \<noteq> [] \<and> path_elements_ok es \<and> p = path_of (base @ es)" by blast
  qed (fact objs(1))
qed

definition sample_tree :: node where
  "sample_tree = Node ''/'' [(''a'', Node ''/a'' [(''b'', Node ''/a/b'' []
     [(''org.x.Y'', \<lparr>ai_instance = Iface 0, ai_spawn = True\<rparr>)])] [])] []"

lemma sample_tree_ok: "node_ok [] sample_tree"
  by code_simp

theorem managed_objects_complete_witness:
  "\<exists>objs ifs. get_managed_objects (\<lambda>_. Ok []) sample_tree = Ok objs \<and> map_of objs ''/a/b'' = Some ifs \<and>
    map_of ifs ''org.x.Y'' = Some []"
proof -
  obtain objs where objs: "get_managed_objects (\<lambda>_. Ok []) sample_tree = Ok objs"
    "\<And>es. es \<noteq> [] \<Longrightarrow> path_elements_ok es \<Longrightarrow>
      (case child_at sample_tree es of
         None \<Rightarrow> map_of objs (path_of ([] @ es)) = None
       | Some n \<Rightarrow> \<exists>ifs. map_of objs (path_of ([] @ es)) = Some ifs \<and>
           (\<forall>name. map_of ifs name =
             (if name \<in> set standard_names then None else map_option (\<lambda>_. []) (interface_lock n name))))"
    using managed_objects_complete [OF sample_tree_ok path_elements_ok_simps(1), of "\<lambda>_. Ok []" "\<lambda>_. []"] by blast
  from objs(2) [of "[''a'', ''b'']"] objs(1) show ?thesis
    by (auto simp: sample_tree_def path_of_def interface_lock_def standard_names_def iface_names name_char_def ascii_defs)
qed

section \<open>The text of a tree\<close>

text \<open>The nested text that the loop over fragments is meant to write.\<close>

fun node_xml :: "(arc_interface \<Rightarrow> nat \<Rightarrow> string) \<Rightarrow> nat \<Rightarrow> string \<Rightarrow> node \<Rightarrow> string" where
  "node_xml X level name (Node p cs is) =
     open_node level name @ concat (map (\<lambda>(_, a). X a (level + 2)) is) @
     concat (map (\<lambda>(i, ch). node_xml X (level + 2) i ch) (rev cs)) @ writeln level ''</node>''"

fun fragment_xml :: "(arc_interface \<Rightarrow> nat \<Rightarrow> string) \<Rightarrow> fragment \<Rightarrow> string" where
  "fragment_xml X (Fragment_Node name nd level) = node_xml X level name nd"
| "fragment_xml X (Fragment_End level) = writeln level ''</node>''"

lemma introspect_loop_nested: "introspect_loop X fs = concat (map (fragment_xml X) fs)"
proof (induction X fs rule: introspect_loop.induct)
  case (2 X name nd level fs)
  then show ?case by (cases nd) (simp add: rev_map split_def comp_def)
qed simp_all

text \<open>The loop of \<^verbatim>\<open>introspect\<close>, which keeps a stack of nodes and closing tags, writes the nested text of the tree: for every
  node its opening tag, its interfaces, the text of its children and its closing tag, indented by its depth.\<close>
theorem introspect_nested: "introspect X nd = node_xml X 0 [] nd"
  by (simp add: introspect_def introspect_loop_nested)

end
