(* ===== verification/Object_Server.thy ===== *)
theory Object_Server
  imports Object_Tree
begin

text \<open>
  The object server (\<^verbatim>\<open>zbus/src/object_server\<close>), what the macro \<^verbatim>\<open>interface\<close> makes of the methods and properties of a type
  (\<^verbatim>\<open>zbus_macros/src/iface.rs\<close>), and the standard interfaces (\<^verbatim>\<open>zbus/src/fdo\<close>).

  The instances of interfaces are kept in a list and known by their index. The code of a method or setter is a parameter, which may change the
  instance, the server and the connection, and is taken to return; the locks around an instance are not modelled. A task that is spawned for a call waits in a list until it is run.
\<close>

section \<open>Interfaces\<close>

record ('i, 'w) object_server =
  sv_root :: node
  sv_heap :: "'i list"
  sv_tasks :: "(iface_instance \<times> message) list"
  sv_conn :: "'w connection"

datatype 'f dispatch_result = NotFound | RequiresMut | Async 'f

record ('i, 'w) iface_ops =
  io_get :: "'i \<Rightarrow> string \<Rightarrow> (fdo_error, zvalue) res option"
  io_get_all :: "'i \<Rightarrow> (fdo_error, props) res"
  io_set :: "'i \<Rightarrow> string \<Rightarrow> zvalue \<Rightarrow> string \<Rightarrow> (('i, 'w) object_server, error, unit) sm dispatch_result"
  io_set_mut :: "'i \<Rightarrow> string \<Rightarrow> zvalue \<Rightarrow> string \<Rightarrow> ('i \<times> ('i, 'w) object_server, fdo_error, unit) sm option"
  io_call :: "'i \<Rightarrow> message \<Rightarrow> string \<Rightarrow> (('i, 'w) object_server, error, unit) sm dispatch_result"
  io_call_mut :: "'i \<Rightarrow> message \<Rightarrow> string \<Rightarrow> ('i \<times> ('i, 'w) object_server, error, unit) sm dispatch_result"
  io_introspect :: "'i \<Rightarrow> nat \<Rightarrow> string"
  io_standard_xml :: "iface_instance \<Rightarrow> nat \<Rightarrow> string"

text \<open>Code of the connection, and code without a state, inside code of the server.\<close>

definition on_conn :: "('w connection, 'e, 'a) sm \<Rightarrow> (('i, 'w) object_server, 'e, 'a) sm" where
  "on_conn m s = map_option (\<lambda>(r, c). (r, s\<lparr>sv_conn := c\<rparr>)) (m (sv_conn s))"

definition on_server :: "('s, 'e, 'a) sm \<Rightarrow> ('self \<times> 's, 'e, 'a) sm" where
  "on_server m x = map_option (\<lambda>(r, s). (r, (fst x, s))) (m (snd x))"

definition read_only :: "('self \<times> 's, 'e, 'a) sm \<Rightarrow> 'self \<Rightarrow> ('s, 'e, 'a) sm" where
  "read_only m self s = map_option (\<lambda>(r, (_, s)). (r, s)) (m (self, s))"

definition sm_map_err :: "('e \<Rightarrow> 'f) \<Rightarrow> ('s, 'e, 'a) sm \<Rightarrow> ('s, 'f, 'a) sm" where
  "sm_map_err g m s = map_option (\<lambda>(r, s). (map_err g r, s)) (m s)"

definition sm_try :: "('s, 'e, 'a) sm \<Rightarrow> ('s, 'f, ('e, 'a) res) sm" where
  "sm_try m s = map_option (\<lambda>(r, s). (case r of Panic \<Rightarrow> Panic | _ \<Rightarrow> Ok r, s)) (m s)"

fun sm_each :: "('a \<Rightarrow> ('s, 'e, unit) sm) \<Rightarrow> 'a list \<Rightarrow> ('s, 'e, unit) sm" where
  "sm_each f [] = sm_res (Ok ())"
| "sm_each f (x # xs) = sm_bind (f x) (\<lambda>_. sm_each f xs)"

abbreviation header_of :: "'w env \<Rightarrow> message \<Rightarrow> (error, header) res option" where
  "header_of V msg \<equiv> message_header (v_nom V) (v_endi V) (v_bits V) (v_fuel V) msg"

section \<open>What the macro makes of a method\<close>

record ('self, 'i, 'w) method_desc =
  md_name :: string
  md_mut :: bool
  md_inputs :: bool
  md_emitter :: bool
  md_args :: "message \<Rightarrow> (error, zvalue list) res option"
  md_run :: "header \<Rightarrow> zvalue list \<Rightarrow> ('self \<times> ('i, 'w) object_server, fdo_error, zvalue option) sm"

text \<open>The type of the arguments is compared with the signature of the body, then the body is read; \<open>conv\<close> is what the \<^verbatim>\<open>Deserialize\<close> of the
  types checks beyond the signature.\<close>

definition args_signature :: "signature list \<Rightarrow> signature" where
  "args_signature sgs = (case sgs of [] \<Rightarrow> signature.Unit | [s] \<Rightarrow> s | _ \<Rightarrow> signature.Structure sgs)"

definition deserializer_for_signature :: "signature \<Rightarrow> signature \<Rightarrow> (zerror, unit) res" where
  "deserializer_for_signature expected s =
     (if sig_eq expected s then Ok ()
      else
        case expected of
          signature.Structure [f] \<Rightarrow> if sig_eq f s then Ok () else Err (SignatureMismatch s (to_string expected))
        | _ \<Rightarrow> Err (SignatureMismatch s (to_string expected)))"

definition typed_args ::
  "'w env \<Rightarrow> signature list \<Rightarrow> (zvalue list \<Rightarrow> (error, zvalue list) res) \<Rightarrow> message \<Rightarrow> (error, zvalue list) res option" where
  "typed_args V sgs conv msg =
     obind (message_body (v_nom V) (v_endi V) (v_bits V) (v_fuel V) msg) (\<lambda>(_, s).
     obind (Some (map_err VariantError (deserializer_for_signature (args_signature sgs) s))) (\<lambda>_.
     if sgs = [] then Some (conv [])
     else
       obind (body_deserialize (v_nom V) (v_endi V) (v_bits V) (v_fuel V) msg) (\<lambda>v.
       case v of Structure vs _ \<Rightarrow> Some (conv vs) | _ \<Rightarrow> Some (conv [v]))))"

definition reply_value :: "'w env \<Rightarrow> header \<Rightarrow> zvalue option \<Rightarrow> ('w connection, error, unit) sm" where
  "reply_value V h v =
     (case v of
        None \<Rightarrow> reply V h signature.Unit Ok
      | Some v \<Rightarrow> reply V h (value_signature v) (serialize_inner (v_nom V) (v_endi V) (v_dup V) v))"

text \<open>\<open>None\<close>: the call was answered with an error already.\<close>

definition method_args ::
  "'w env \<Rightarrow> ('self, 'i, 'w) method_desc \<Rightarrow> message \<Rightarrow> (('i, 'w) object_server, error, (header \<times> zvalue list) option) sm" where
  "method_args V m msg =
     sm_bind (sm_opt (header_of V msg)) (\<lambda>h.
     if \<not> md_inputs m then sm_res (Ok (Some (h, [])))
     else if md_emitter m \<and> path (header_fields h) = None then
       sm_bind (on_conn (reply_dbus_error V h (Fdo UnknownObject ''Path Required''))) (\<lambda>_. sm_res (Ok None))
     else
       case md_args m msg of
         None \<Rightarrow> (\<lambda>_. None)
       | Some Panic \<Rightarrow> sm_res Panic
       | Some (Ok args) \<Rightarrow> sm_res (Ok (Some (h, args)))
       | Some (Err e) \<Rightarrow> sm_bind (on_conn (reply_dbus_error V h (fdo_of_error e))) (\<lambda>_. sm_res (Ok None)))"

definition method_future ::
  "'w env \<Rightarrow> ('self, 'i, 'w) method_desc \<Rightarrow> message \<Rightarrow> ('self \<times> ('i, 'w) object_server, error, unit) sm" where
  "method_future V m msg =
     sm_bind (on_server (method_args V m msg)) (\<lambda>x.
     case x of
       None \<Rightarrow> sm_res (Ok ())
     | Some (h, args) \<Rightarrow>
         sm_bind (sm_try (md_run m h args)) (\<lambda>r.
         sm_bind (sm_opt (header_of V msg)) (\<lambda>h.
         on_server (on_conn (case r of Ok v \<Rightarrow> reply_value V h v | Err e \<Rightarrow> reply_dbus_error V h e | Panic \<Rightarrow> sm_res Panic)))))"

definition expand_call ::
  "'w env \<Rightarrow> ('self, 'i, 'w) method_desc list \<Rightarrow> 'self \<Rightarrow> message \<Rightarrow> string \<Rightarrow> (('i, 'w) object_server, error, unit) sm dispatch_result" where
  "expand_call V ms self msg name =
     (case find (\<lambda>m. md_name m = name) ms of
        None \<Rightarrow> NotFound
      | Some m \<Rightarrow> if md_mut m then RequiresMut else Async (read_only (method_future V m msg) self))"

definition expand_call_mut ::
  "'w env \<Rightarrow> ('self, 'i, 'w) method_desc list \<Rightarrow> message \<Rightarrow> string \<Rightarrow> ('self \<times> ('i, 'w) object_server, error, unit) sm dispatch_result" where
  "expand_call_mut V ms msg name =
     (case find (\<lambda>m. md_mut m \<and> md_name m = name) ms of
        None \<Rightarrow> NotFound
      | Some m \<Rightarrow> Async (method_future V m msg))"

section \<open>What the macro makes of a property\<close>

datatype emits_changed = Emits_True | Emits_Invalidates | Emits_Const | Emits_False

text \<open>A setter: whether it takes the instance as mutable, the conversion of the value, and its code, once for either type of error.\<close>

record ('i, 'w) setter_desc =
  sd_mut :: bool
  sd_convert :: "zvalue \<Rightarrow> (zerror, zvalue) res"
  sd_run :: "zvalue \<Rightarrow> ('i \<times> ('i, 'w) object_server, error, unit) sm"
  sd_run_mut :: "zvalue \<Rightarrow> ('i \<times> ('i, 'w) object_server, fdo_error, unit) sm"

record ('i, 'w) prop_desc =
  pd_name :: string
  pd_emits :: emits_changed
  pd_get :: "'i \<Rightarrow> (fdo_error, zvalue) res"
  pd_set :: "('i, 'w) setter_desc option"

definition props_value :: "props \<Rightarrow> zvalue" where
  "props_value ps = Dict (map (\<lambda>(k, v). (Str k, Value v)) ps) (signature.Dict signature.Str signature.Variant)"

definition tuple :: "zvalue list \<Rightarrow> zvalue" where
  "tuple vs = Structure vs (signature.Structure (map value_signature vs))"

definition emit_on ::
  "'w env \<Rightarrow> string \<Rightarrow> string \<Rightarrow> string \<Rightarrow> zvalue list \<Rightarrow> ('w connection, error, unit) sm" where
  "emit_on V p i m vs =
     emit_signal V None p i m (signature.Structure (map value_signature vs)) (serialize_inner (v_nom V) (v_endi V) (v_dup V) (tuple vs))"

definition properties_changed :: "'w env \<Rightarrow> string \<Rightarrow> string \<Rightarrow> props \<Rightarrow> string list \<Rightarrow> ('w connection, error, unit) sm" where
  "properties_changed V p i changed invalidated =
     emit_on V p properties_name ''PropertiesChanged''
       [Str i, props_value changed, Array (map Str invalidated) (signature.Array signature.Str)]"

text \<open>The generated methods \<^verbatim>\<open><property>_changed\<close> and \<^verbatim>\<open><property>_invalidate\<close>.\<close>

definition prop_changed ::
  "'w env \<Rightarrow> string \<Rightarrow> ('i, 'w) prop_desc \<Rightarrow> string \<Rightarrow> ('i \<times> ('i, 'w) object_server, error, unit) sm" where
  "prop_changed V iface p emitter x =
     sm_bind (sm_res (map_err error_of_fdo (pd_get p (fst x)))) (\<lambda>v.
     on_server (on_conn (properties_changed V emitter iface [(pd_name p, v)] []))) x"

definition prop_invalidate ::
  "'w env \<Rightarrow> string \<Rightarrow> ('i, 'w) prop_desc \<Rightarrow> string \<Rightarrow> ('i \<times> ('i, 'w) object_server, error, unit) sm" where
  "prop_invalidate V iface p emitter = on_server (on_conn (properties_changed V emitter iface [] [pd_name p]))"

definition after_set ::
  "'w env \<Rightarrow> string \<Rightarrow> ('i, 'w) prop_desc \<Rightarrow> string \<Rightarrow> ('i \<times> ('i, 'w) object_server, error, unit) sm" where
  "after_set V iface p emitter =
     (case pd_emits p of
        Emits_True \<Rightarrow> prop_changed V iface p emitter
      | Emits_Invalidates \<Rightarrow> prop_invalidate V iface p emitter
      | _ \<Rightarrow> sm_res (Ok ()))"

text \<open>\<open>into\<close> is the conversion to the type of error of the setter.\<close>

definition do_set ::
  "(error \<Rightarrow> 'e) \<Rightarrow> (zvalue \<Rightarrow> (zerror, zvalue) res) \<Rightarrow> (zvalue \<Rightarrow> ('s, 'e, unit) sm) \<Rightarrow> ('s, error, unit) sm \<Rightarrow> zvalue \<Rightarrow> ('s, 'e, unit) sm" where
  "do_set into convert run after v =
     sm_bind (sm_res (map_err (\<lambda>e. into (VariantError e)) (convert v))) (\<lambda>val.
     sm_bind (run val) (\<lambda>_. sm_map_err into after))"

definition expand_get :: "('i, 'w) prop_desc list \<Rightarrow> 'i \<Rightarrow> string \<Rightarrow> (fdo_error, zvalue) res option" where
  "expand_get ps i name = map_option (\<lambda>p. pd_get p i) (find (\<lambda>p. pd_name p = name) ps)"

text \<open>A property whose getter fails is left out.\<close>

definition expand_get_all :: "('i, 'w) prop_desc list \<Rightarrow> 'i \<Rightarrow> (fdo_error, props) res" where
  "expand_get_all ps i =
     fold_res (\<lambda>p props.
       case pd_get p i of Ok v \<Rightarrow> Ok (AList.update (pd_name p) v props) | Err _ \<Rightarrow> Ok props | Panic \<Rightarrow> Panic) ps []"

definition find_setter :: "('i, 'w) prop_desc list \<Rightarrow> string \<Rightarrow> (('i, 'w) prop_desc \<times> ('i, 'w) setter_desc) option" where
  "find_setter ps name =
     (case find (\<lambda>p. pd_name p = name \<and> pd_set p \<noteq> None) ps of None \<Rightarrow> None | Some p \<Rightarrow> Some (p, the (pd_set p)))"

definition expand_set ::
  "'w env \<Rightarrow> string \<Rightarrow> ('i, 'w) prop_desc list \<Rightarrow> 'i \<Rightarrow> string \<Rightarrow> zvalue \<Rightarrow> string \<Rightarrow> (('i, 'w) object_server, error, unit) sm dispatch_result" where
  "expand_set V iface ps i name v emitter =
     (case find_setter ps name of
        None \<Rightarrow> NotFound
      | Some (p, sd) \<Rightarrow>
          if sd_mut sd then RequiresMut
          else Async (read_only (do_set (\<lambda>e. e) (sd_convert sd) (sd_run sd) (after_set V iface p emitter) v) i))"

definition expand_set_mut ::
  "'w env \<Rightarrow> string \<Rightarrow> ('i, 'w) prop_desc list \<Rightarrow> string \<Rightarrow> zvalue \<Rightarrow> string \<Rightarrow> ('i \<times> ('i, 'w) object_server, fdo_error, unit) sm option" where
  "expand_set_mut V iface ps name v emitter =
     (case find_setter ps name of
        None \<Rightarrow> None
      | Some (p, sd) \<Rightarrow>
          if sd_mut sd then Some (do_set fdo_of_error (sd_convert sd) (sd_run_mut sd) (after_set V iface p emitter) v) else None)"

text \<open>The interface of a type: its name, methods and properties; \<open>desc\<close> says which it is for an instance, and \<open>text\<close> gives the
  text of its introspection.\<close>

record ('i, 'w) iface_desc =
  id_name :: string
  id_methods :: "('i, 'i, 'w) method_desc list"
  id_props :: "('i, 'w) prop_desc list"

definition expand ::
  "'w env \<Rightarrow> ('i \<Rightarrow> ('i, 'w) iface_desc) \<Rightarrow> ('i \<Rightarrow> nat \<Rightarrow> string) \<Rightarrow> (iface_instance \<Rightarrow> nat \<Rightarrow> string) \<Rightarrow> ('i, 'w) iface_ops" where
  "expand V desc text std = \<lparr>
     io_get = (\<lambda>i. expand_get (id_props (desc i)) i),
     io_get_all = (\<lambda>i. expand_get_all (id_props (desc i)) i),
     io_set = (\<lambda>i. expand_set V (id_name (desc i)) (id_props (desc i)) i),
     io_set_mut = (\<lambda>i. expand_set_mut V (id_name (desc i)) (id_props (desc i))),
     io_call = (\<lambda>i. expand_call V (id_methods (desc i)) i),
     io_call_mut = (\<lambda>i. expand_call_mut V (id_methods (desc i))),
     io_introspect = text, io_standard_xml = std\<rparr>"

section \<open>Instances in the tree\<close>

definition inst_get :: "('i, 'w) iface_ops \<Rightarrow> ('i, 'w) object_server \<Rightarrow> iface_instance \<Rightarrow> string \<Rightarrow> (fdo_error, zvalue) res option" where
  "inst_get Q s inst name = (case inst of Iface a \<Rightarrow> io_get Q (sv_heap s ! a) name | _ \<Rightarrow> None)"

definition inst_get_all :: "('i, 'w) iface_ops \<Rightarrow> ('i, 'w) object_server \<Rightarrow> arc_interface \<Rightarrow> (fdo_error, props) res" where
  "inst_get_all Q s arc = (case ai_instance arc of Iface a \<Rightarrow> io_get_all Q (sv_heap s ! a) | _ \<Rightarrow> Ok [])"

definition inst_introspect :: "('i, 'w) iface_ops \<Rightarrow> ('i, 'w) object_server \<Rightarrow> arc_interface \<Rightarrow> nat \<Rightarrow> string" where
  "inst_introspect Q s arc level =
     (case ai_instance arc of Iface a \<Rightarrow> io_introspect Q (sv_heap s ! a) level | std \<Rightarrow> io_standard_xml Q std level)"

text \<open>Code that takes an instance as mutable.\<close>

definition with_mut :: "nat \<Rightarrow> ('i \<times> ('i, 'w) object_server, 'e, 'a) sm \<Rightarrow> (('i, 'w) object_server, 'e, 'a) sm" where
  "with_mut a f s =
     map_option (\<lambda>(r, (i, s)). (r, s\<lparr>sv_heap := (sv_heap s)[a := i]\<rparr>)) (f (sv_heap s ! a, s))"

definition lookup_iface :: "('i, 'w) object_server \<Rightarrow> string \<Rightarrow> string \<Rightarrow> arc_interface option" where
  "lookup_iface s p name = (case get_child (sv_root s) p of Some nd \<Rightarrow> interface_lock nd name | None \<Rightarrow> None)"

section \<open>The standard interfaces\<close>

definition quoted :: "string \<Rightarrow> string \<Rightarrow> string" where
  "quoted what name = what @ '' '' @ [CHR 0x27] @ name @ [CHR 0x27]"

definition unknown_interface :: "string \<Rightarrow> fdo_error" where
  "unknown_interface name = Fdo UnknownInterface (quoted ''Unknown interface'' name)"
definition unknown_property :: "string \<Rightarrow> fdo_error" where
  "unknown_property name = Fdo UnknownProperty (quoted ''Unknown property'' name)"
definition unknown_object :: "string \<Rightarrow> fdo_error" where
  "unknown_object p = Fdo UnknownObject (quoted ''Unknown object'' p)"
definition unknown_method :: "string \<Rightarrow> fdo_error" where
  "unknown_method name = Fdo UnknownMethod (quoted ''Unknown method'' name)"

definition header_path :: "header \<Rightarrow> (fdo_error, string) res" where
  "header_path h = ok_or (path (header_fields h)) (fdo_of_error MissingField)"

definition properties_get ::
  "('i, 'w) iface_ops \<Rightarrow> header \<Rightarrow> string \<Rightarrow> string \<Rightarrow> (('i, 'w) object_server, fdo_error, zvalue) sm" where
  "properties_get Q h i name s =
     sm_bind (sm_res (header_path h)) (\<lambda>p.
     sm_bind (sm_res (ok_or (lookup_iface s p i) (unknown_interface i))) (\<lambda>arc.
     sm_res (case inst_get Q s (ai_instance arc) name of Some r \<Rightarrow> r | None \<Rightarrow> Err (unknown_property name)))) s"

definition properties_set ::
  "('i, 'w) iface_ops \<Rightarrow> header \<Rightarrow> string \<Rightarrow> string \<Rightarrow> zvalue \<Rightarrow> (('i, 'w) object_server, fdo_error, unit) sm" where
  "properties_set Q h i name v s =
     sm_bind (sm_res (header_path h)) (\<lambda>p.
     sm_bind (sm_res (ok_or (lookup_iface s p i) (unknown_interface i))) (\<lambda>arc.
     case ai_instance arc of
       Iface a \<Rightarrow>
         (case io_set Q (sv_heap s ! a) name v p of
            NotFound \<Rightarrow> sm_res (Err (unknown_property name))
          | Async f \<Rightarrow> sm_map_err fdo_of_error f
          | RequiresMut \<Rightarrow>
              (case io_set_mut Q (sv_heap s ! a) name v p of
                 None \<Rightarrow> sm_res (Err (unknown_property name))
               | Some f \<Rightarrow> with_mut a f))
     | _ \<Rightarrow> sm_res (Err (unknown_property name)))) s"

definition properties_get_all :: "('i, 'w) iface_ops \<Rightarrow> header \<Rightarrow> string \<Rightarrow> (('i, 'w) object_server, fdo_error, props) sm" where
  "properties_get_all Q h i s =
     sm_bind (sm_res (header_path h)) (\<lambda>p.
     sm_bind (sm_res (ok_or (lookup_iface s p i) (unknown_interface i))) (\<lambda>arc.
     sm_res (inst_get_all Q s arc))) s"

definition introspect_method :: "('i, 'w) iface_ops \<Rightarrow> header \<Rightarrow> (('i, 'w) object_server, fdo_error, string) sm" where
  "introspect_method Q h s =
     sm_bind (sm_res (header_path h)) (\<lambda>p.
     sm_bind (sm_res (ok_or (get_child (sv_root s) p) (unknown_object p))) (\<lambda>nd.
     sm_res (Ok (introspect (inst_introspect Q s) nd)))) s"

definition managed_objects_method :: "('i, 'w) iface_ops \<Rightarrow> header \<Rightarrow> (('i, 'w) object_server, fdo_error, managed_objects) sm" where
  "managed_objects_method Q h s =
     sm_bind (sm_res (header_path h)) (\<lambda>p.
     sm_bind (sm_res (ok_or (get_child (sv_root s) p) (unknown_object p))) (\<lambda>nd.
     sm_res (get_managed_objects (inst_get_all Q s) nd))) s"

definition props_signature :: signature where
  "props_signature = signature.Dict signature.Str signature.Variant"

definition ifaces_value :: "(string \<times> props) list \<Rightarrow> zvalue" where
  "ifaces_value ifs = Dict (map (\<lambda>(i, ps). (Str i, props_value ps)) ifs) (signature.Dict signature.Str props_signature)"

definition managed_value :: "managed_objects \<Rightarrow> zvalue" where
  "managed_value objs = Dict (map (\<lambda>(p, ifs). (ObjectPath p, ifaces_value ifs)) objs)
     (signature.Dict signature.ObjectPath (signature.Dict signature.Str props_signature))"

text \<open>Arguments of which the first is an \<^verbatim>\<open>InterfaceName\<close>.\<close>

definition iface_first :: "zvalue list \<Rightarrow> (error, zvalue list) res" where
  "iface_first vs =
     (case vs of
        Str i # _ \<Rightarrow> bind_res (map_err (\<lambda>_. VariantError (Message Custom)) (ensure_correct_interface_name i)) (\<lambda>_. Ok vs)
      | _ \<Rightarrow> Ok vs)"

definition std_method ::
  "string \<Rightarrow> bool \<Rightarrow> bool \<Rightarrow> (message \<Rightarrow> (error, zvalue list) res option)
     \<Rightarrow> (header \<Rightarrow> zvalue list \<Rightarrow> (('i, 'w) object_server, fdo_error, zvalue option) sm) \<Rightarrow> (unit, 'i, 'w) method_desc" where
  "std_method name inputs emitter args run = \<lparr>md_name = name, md_mut = False, md_inputs = inputs, md_emitter = emitter,
     md_args = args, md_run = (\<lambda>h vs. on_server (run h vs))\<rparr>"

definition result_value :: "('a \<Rightarrow> zvalue) \<Rightarrow> ('s, 'e, 'a) sm \<Rightarrow> ('s, 'e, zvalue option) sm" where
  "result_value g m = sm_bind m (\<lambda>x. sm_res (Ok (Some (g x))))"

text \<open>The methods of the standard interfaces; \<open>machine_id\<close> is what \<^verbatim>\<open>GetMachineId\<close> finds in the files of the machine. The last cases do not
  occur, since the arguments have the types that were asked for.\<close>

definition std_methods ::
  "'w env \<Rightarrow> ('i, 'w) iface_ops \<Rightarrow> (fdo_error, string) res \<Rightarrow> iface_instance \<Rightarrow> (unit, 'i, 'w) method_desc list" where
  "std_methods V Q machine_id inst =
     (case inst of
        Peer \<Rightarrow>
          [std_method ''Ping'' False False (\<lambda>_. Some (Ok [])) (\<lambda>_ _. sm_res (Ok None)),
           std_method ''GetMachineId'' False False (\<lambda>_. Some (Ok [])) (\<lambda>_ _. result_value Str (sm_res machine_id))]
      | Introspectable \<Rightarrow>
          [std_method ''Introspect'' True False (typed_args V [] Ok) (\<lambda>h _. result_value Str (introspect_method Q h))]
      | Properties \<Rightarrow>
          [std_method ''Get'' True False (typed_args V [signature.Str, signature.Str] iface_first)
             (\<lambda>h vs. case vs of [Str i, Str name] \<Rightarrow> result_value Value (properties_get Q h i name) | _ \<Rightarrow> sm_res Panic),
           std_method ''Set'' True True (typed_args V [signature.Str, signature.Str, signature.Variant] iface_first)
             (\<lambda>h vs. case vs of [Str i, Str name, Value v] \<Rightarrow> sm_bind (properties_set Q h i name v) (\<lambda>_. sm_res (Ok None)) | _ \<Rightarrow> sm_res Panic),
           std_method ''GetAll'' True False (typed_args V [signature.Str] iface_first)
             (\<lambda>h vs. case vs of [Str i] \<Rightarrow> result_value props_value (properties_get_all Q h i) | _ \<Rightarrow> sm_res Panic)]
      | ObjectManager \<Rightarrow>
          [std_method ''GetManagedObjects'' True False (typed_args V [] Ok)
             (\<lambda>h _. result_value managed_value (managed_objects_method Q h))]
      | Iface a \<Rightarrow> [])"

section \<open>Adding and removing interfaces\<close>

definition interfaces_added ::
  "'w env \<Rightarrow> string \<Rightarrow> string \<Rightarrow> (string \<times> props) list \<Rightarrow> (('i, 'w) object_server, error, unit) sm" where
  "interfaces_added V emitter p ifs = on_conn (emit_on V emitter manager_name ''InterfacesAdded'' [ObjectPath p, ifaces_value ifs])"

definition interfaces_removed ::
  "'w env \<Rightarrow> string \<Rightarrow> string \<Rightarrow> string list \<Rightarrow> (('i, 'w) object_server, error, unit) sm" where
  "interfaces_removed V emitter p names =
     on_conn (emit_on V emitter manager_name ''InterfacesRemoved'' [ObjectPath p, Array (map Str names) (signature.Array signature.Str)])"

definition server_new :: "'w connection \<Rightarrow> (error, ('i, 'w) object_server) res" where
  "server_new c = bind_res (node_new ''/'') (\<lambda>root. Ok \<lparr>sv_root = root, sv_heap = [], sv_tasks = [], sv_conn = c\<rparr>)"

definition valid_path :: "string \<Rightarrow> (error, unit) res" where
  "valid_path p = map_err VariantError (ensure_correct_object_path_str p)"

text \<open>The signals after an interface was added to the node \<open>nd\<close>.\<close>

definition announce ::
  "'w env \<Rightarrow> ('i, 'w) iface_ops \<Rightarrow> string \<Rightarrow> string \<Rightarrow> node \<Rightarrow> string option \<Rightarrow> (('i, 'w) object_server, error, unit) sm" where
  "announce V Q p name nd mgr s =
     (if name = manager_name then
        sm_bind (sm_res (map_err error_of_fdo (get_managed_objects (inst_get_all Q s) nd)))
          (sm_each (\<lambda>(obj, ifs). interfaces_added V p obj ifs)) s
      else
        case mgr of
          None \<Rightarrow> Some (Ok (), s)
        | Some mp \<Rightarrow>
            sm_bind (sm_res (map_err error_of_fdo (get_properties (inst_get_all Q s) name nd)))
              (\<lambda>ps. interfaces_added V mp p [(name, ps)]) s)"

definition server_add_arc_interface ::
  "'w env \<Rightarrow> ('i, 'w) iface_ops \<Rightarrow> string \<Rightarrow> string \<Rightarrow> arc_interface \<Rightarrow> (('i, 'w) object_server, error, bool) sm" where
  "server_add_arc_interface V Q p name arc =
     sm_bind (sm_res (valid_path p)) (\<lambda>_ s.
     case get_child_mut (\<lambda>nd. case add_arc_interface name arc nd of (added, nd) \<Rightarrow> ((added, nd), nd)) True (sv_root s) p of
       Ok ((Some (added, nd), mgr), root) \<Rightarrow>
         sm_bind (if added then announce V Q p name nd mgr else sm_res (Ok ())) (\<lambda>_. sm_res (Ok added)) (s\<lparr>sv_root := root\<rparr>)
     | Err e \<Rightarrow> Some (Err e, s)
     | _ \<Rightarrow> Some (Panic, s))"

definition server_at ::
  "'w env \<Rightarrow> ('i, 'w) iface_ops \<Rightarrow> string \<Rightarrow> string \<Rightarrow> bool \<Rightarrow> 'i \<Rightarrow> (('i, 'w) object_server, error, bool) sm" where
  "server_at V Q p name spawn i s =
     server_add_arc_interface V Q p name \<lparr>ai_instance = Iface (length (sv_heap s)), ai_spawn = spawn\<rparr>
       (s\<lparr>sv_heap := sv_heap s @ [i]\<rparr>)"

definition drop_node :: "node \<Rightarrow> string \<Rightarrow> (error, node) res" where
  "drop_node root p =
     (case filter (\<lambda>i. i \<noteq> []) (rev (split_on (CHR ''/'') p)) of
        [] \<Rightarrow> Panic
      | i # is \<Rightarrow>
          bind_res (get_child_mut (remove_node i) False root (foldl (\<lambda>a p. ''/'' @ p @ a) [] is)) (\<lambda>((r, _), root).
          case r of None \<Rightarrow> Panic | Some _ \<Rightarrow> Ok root))"

definition server_remove ::
  "'w env \<Rightarrow> string \<Rightarrow> string \<Rightarrow> (('i, 'w) object_server, error, bool) sm" where
  "server_remove V p name =
     sm_bind (sm_res (valid_path p)) (\<lambda>_ s.
     case get_child_mut (\<lambda>nd. case remove_interface name nd of (removed, nd) \<Rightarrow> ((removed, node_is_empty nd), nd)) False (sv_root s) p of
       Ok ((Some (True, is_empty), mgr), root) \<Rightarrow>
         sm_bind (case mgr of None \<Rightarrow> sm_res (Ok ()) | Some mp \<Rightarrow> interfaces_removed V mp p [name]) (\<lambda>_ s.
         if \<not> is_empty then Some (Ok False, s)
         else
           case drop_node (sv_root s) p of
             Ok root \<Rightarrow> Some (Ok True, s\<lparr>sv_root := root\<rparr>)
           | _ \<Rightarrow> Some (Panic, s)) (s\<lparr>sv_root := root\<rparr>)
     | Ok (_, _) \<Rightarrow> Some (Err InterfaceNotFound, s)
     | Err e \<Rightarrow> Some (Err e, s)
     | Panic \<Rightarrow> Some (Panic, s))"

text \<open>\<open>is_type\<close> says whether an instance has the type that is asked for.\<close>

definition server_interface :: "string \<Rightarrow> string \<Rightarrow> ('i \<Rightarrow> bool) \<Rightarrow> ('i, 'w) object_server \<Rightarrow> (error, nat) res" where
  "server_interface p name is_type s =
     bind_res (valid_path p) (\<lambda>_.
     bind_res (ok_or (lookup_iface s p name) InterfaceNotFound) (\<lambda>arc.
     case ai_instance arc of
       Iface a \<Rightarrow> if is_type (sv_heap s ! a) then Ok a else Err InterfaceNotFound
     | _ \<Rightarrow> Err InterfaceNotFound))"

section \<open>Dispatching calls\<close>

definition failed_error :: "'w env \<Rightarrow> error \<Rightarrow> fdo_error" where
  "failed_error V e = (case e of FDO k desc \<Rightarrow> Fdo k desc | _ \<Rightarrow> Fdo Failed (v_shown V e))"

definition dispatch_call_to_iface ::
  "'w env \<Rightarrow> ('i, 'w) iface_ops \<Rightarrow> (fdo_error, string) res \<Rightarrow> iface_instance \<Rightarrow> message \<Rightarrow> header \<Rightarrow> (('i, 'w) object_server, fdo_error, unit) sm" where
  "dispatch_call_to_iface V Q mid inst msg h =
     sm_bind (sm_res (ok_or (member (header_fields h)) (Fdo Failed ''Missing member''))) (\<lambda>name.
     sm_bind (sm_res (ok_or (interface (header_fields h)) (Fdo Failed ''Missing interface''))) (\<lambda>_ s.
     case inst of
       Iface a \<Rightarrow>
         (case io_call Q (sv_heap s ! a) msg name of
            NotFound \<Rightarrow> Some (Err (unknown_method name), s)
          | Async f \<Rightarrow> sm_map_err (failed_error V) f s
          | RequiresMut \<Rightarrow>
              (case io_call_mut Q (sv_heap s ! a) msg name of
                 Async f \<Rightarrow> sm_map_err (failed_error V) (with_mut a f) s
               | _ \<Rightarrow> Some (Err (unknown_method name), s)))
     | _ \<Rightarrow>
         (case expand_call V (std_methods V Q mid inst) () msg name of
            Async f \<Rightarrow> sm_map_err (failed_error V) f s
          | _ \<Rightarrow> Some (Err (unknown_method name), s))))"

definition dispatch_method_call_try ::
  "'w env \<Rightarrow> ('i, 'w) iface_ops \<Rightarrow> (fdo_error, string) res \<Rightarrow> message \<Rightarrow> header \<Rightarrow> (('i, 'w) object_server, fdo_error, unit) sm" where
  "dispatch_method_call_try V Q mid msg h =
     sm_bind (sm_res (ok_or (path (header_fields h)) (Fdo Failed ''Missing object path''))) (\<lambda>p.
     sm_bind (sm_res (ok_or (interface (header_fields h)) (Fdo Failed ''Missing interface''))) (\<lambda>i.
     sm_bind (sm_res (ok_or (member (header_fields h)) (Fdo Failed ''Missing member''))) (\<lambda>_ s.
     case get_child (sv_root s) p of
       None \<Rightarrow> Some (Err (unknown_object p), s)
     | Some nd \<Rightarrow>
         (case interface_lock nd i of
            None \<Rightarrow> Some (Err (unknown_interface i), s)
          | Some arc \<Rightarrow>
              if ai_spawn arc then Some (Ok (), s\<lparr>sv_tasks := sv_tasks s @ [(ai_instance arc, msg)]\<rparr>)
              else dispatch_call_to_iface V Q mid (ai_instance arc) msg h s))))"

definition dispatch_call ::
  "'w env \<Rightarrow> ('i, 'w) iface_ops \<Rightarrow> (fdo_error, string) res \<Rightarrow> message \<Rightarrow> header \<Rightarrow> (('i, 'w) object_server, error, unit) sm" where
  "dispatch_call V Q mid msg h =
     sm_bind (sm_try (dispatch_method_call_try V Q mid msg h)) (\<lambda>r.
     case r of Err e \<Rightarrow> on_conn (reply_dbus_error V h e) | _ \<Rightarrow> sm_res (Ok ()))"

text \<open>A spawned task; the error of a reply is only logged.\<close>

definition call_task ::
  "'w env \<Rightarrow> ('i, 'w) iface_ops \<Rightarrow> (fdo_error, string) res \<Rightarrow> iface_instance \<Rightarrow> message \<Rightarrow> (('i, 'w) object_server, error, unit) sm" where
  "call_task V Q mid inst msg =
     sm_bind (sm_opt (header_of V msg)) (\<lambda>h.
     sm_bind (sm_try (dispatch_call_to_iface V Q mid inst msg h)) (\<lambda>r.
     case r of
       Err e \<Rightarrow> sm_bind (sm_try (on_conn (reply_dbus_error V h e))) (\<lambda>_. sm_res (Ok ()))
     | _ \<Rightarrow> sm_res (Ok ())))"

definition run_task :: "'w env \<Rightarrow> ('i, 'w) iface_ops \<Rightarrow> (fdo_error, string) res \<Rightarrow> nat \<Rightarrow> (('i, 'w) object_server, error, unit) sm" where
  "run_task V Q mid k s =
     (case sv_tasks s ! k of (inst, msg) \<Rightarrow>
        call_task V Q mid inst msg (s\<lparr>sv_tasks := take k (sv_tasks s) @ drop (Suc k) (sv_tasks s)\<rparr>))"

text \<open>The task of the server for one message.\<close>

definition serve_message ::
  "'w env \<Rightarrow> ('i, 'w) iface_ops \<Rightarrow> (fdo_error, string) res \<Rightarrow> message \<Rightarrow> (('i, 'w) object_server, error, unit) sm" where
  "serve_message V Q mid msg s =
     sm_bind (sm_opt (header_of V msg)) (\<lambda>h.
     if call_accepted (sv_conn s) h
     then sm_bind (sm_try (dispatch_call V Q mid msg h)) (\<lambda>_. sm_res (Ok ()))
     else sm_res (Ok ())) s"

end
