(* ===== verification/Handshake_Props.thy ===== *)
theory Handshake_Props
  imports Handshake
begin

text \<open>
  Properties of the handshake: what is received of a command that is sent, that lines do not depend on
  the chunks of the socket, that the server only lets in clients that authenticate themselves, and
  that client and server agree.
\<close>

section \<open>Words\<close>

definition plain_word :: "string \<Rightarrow> bool" where
  "plain_word w \<longleftrightarrow> w \<noteq> [] \<and> (\<forall>c \<in> set w. \<not> is_ascii_whitespace c)"

lemma words_from_plain: "\<forall>c \<in> set v. \<not> is_ascii_whitespace c \<Longrightarrow> words_from w (v @ r) = words_from (w @ v) r"
  by (induction v arbitrary: w) auto

lemma split_words_simps:
  "split_words [] = []"
  "is_ascii_whitespace c \<Longrightarrow> split_words (c # r) = split_words r"
  "plain_word w \<Longrightarrow> is_ascii_whitespace c \<Longrightarrow> split_words (w @ c # r) = w # split_words r"
  by (auto simp: split_words_def plain_word_def words_from_plain)

lemma whitespace [simp]:
  "is_ascii_whitespace (CHR '' '')" "is_ascii_whitespace (byte_of 13)" "is_ascii_whitespace (byte_of 10)"
  by (simp_all add: is_ascii_whitespace_def)

lemma split_words_crlf:
  "split_words crlf = []" "plain_word w \<Longrightarrow> split_words (w @ crlf) = [w]"
  using split_words_simps(3) [of w "byte_of 13" "[byte_of 10]"]
  by (simp_all add: crlf_def split_words_simps)

lemma split_words_space:
  "plain_word w \<Longrightarrow> split_words (w @ CHR '' '' # r) = w # split_words r"
  by (simp add: split_words_simps)

lemma keywords_plain:
  "plain_word ''AUTH''" "plain_word ''CANCEL''" "plain_word ''BEGIN''" "plain_word ''DATA''" "plain_word ''ERROR''"
  "plain_word ''NEGOTIATE_UNIX_FD''" "plain_word ''REJECTED''" "plain_word ''OK''" "plain_word ''AGREE_UNIX_FD''"
  "plain_word (mechanism_str m)"
  by (cases m, simp_all add: plain_word_def is_ascii_whitespace_def mechanism_str_def)+

lemma digits_plain:
  "list_all hex_digit w \<Longrightarrow> w \<noteq> [] \<Longrightarrow> plain_word w" "list_all guid_hexdigit w \<Longrightarrow> w \<noteq> [] \<Longrightarrow> plain_word w"
  by (auto simp: plain_word_def list_all_iff hex_digit_def guid_hexdigit_def is_ascii_whitespace_def ascii_defs)

lemma mechanism_roundtrip: "mechanism_from_str (mechanism_str m) = Ok m"
  by (cases m) (simp_all add: mechanism_from_str_def mechanism_str_def)

section \<open>What is received of a command\<close>

text \<open>Empty data is as none, the text of an error comes with its keyword and line end, and the mechanisms that
  are offered come without the spaces between them.\<close>

fun received :: "command \<Rightarrow> command" where
  "received (Auth None resp) = Auth None None"
| "received (Auth (Some m) (Some [])) = Auth (Some m) None"
| "received (Data (Some [])) = Data None"
| "received (Error_Command e) = Error_Command (''ERROR '' @ e @ crlf)"
| "received (Rejected ms) = Rejected (concat (split_words ms))"
| "received c = c"

definition guid_ok :: "string \<Rightarrow> bool" where
  "guid_ok g \<longleftrightarrow> guid_try_from g = Ok g"

fun command_ok :: "command \<Rightarrow> bool" where
  "command_ok (Ok_Command g) = guid_ok g"
| "command_ok c = True"

lemma guid_ok_plain: "guid_ok g \<Longrightarrow> plain_word g \<and> guid_try_from g = Ok g \<and> list_all guid_hexdigit g"
  using digits_plain(2) [of g] by (cases "g = []") (auto simp: guid_ok_def guid_try_from_def split: if_splits)

lemma split_words_append_crlf: "split_words (s @ crlf) = split_words s"
proof -
  have "words_from w (s @ crlf) = words_from w s" for w
    by (induction s arbitrary: w) (auto simp: crlf_def)
  then show ?thesis by (simp add: split_words_def)
qed

context hex_laws
begin

lemma encode_Nil: "encode H b = [] \<longleftrightarrow> b = []"
  using length_encode [of b] by (cases "encode H b"; cases b) auto

lemma encode_word: "b \<noteq> [] \<Longrightarrow> plain_word (encode H b)"
  using digits_plain(1) [OF encode_digits] encode_Nil by blast

lemma decode_encoded: "decode_word H (split_words (encode H b @ crlf)) = Ok (if b = [] then None else Some b)"
  using encode_Nil [of b] encode_word [of b] decode_encode [of b]
  by (cases "b = []") (simp_all add: decode_word_def split_words_crlf ok_or_def)

lemma split_keyword:
  "plain_word k \<Longrightarrow> split_words (k @ CHR '' '' # r @ crlf) = k # split_words (r @ crlf)"
  by (simp add: split_words_space)

lemma command_received:
  assumes "command_ok c"
  shows "command_from_str H (command_str H c @ crlf) = Ok (received c)"
proof (cases c)
  case (Auth mech resp)
  show ?thesis
  proof (cases mech)
    case None
    then show ?thesis
      using Auth split_words_crlf(2) [OF keywords_plain(1)] by (simp add: command_from_str_def command_str_def)
  next
    case (Some m)
    note kw = split_keyword [OF keywords_plain(1), of "mechanism_str m"]
      split_keyword [OF keywords_plain(1), of "mechanism_str m @ '' '' @ encode H b" for b]
      split_keyword [OF keywords_plain(10), of m "encode H b" for b] split_words_crlf(2) [OF keywords_plain(10), of m]
    show ?thesis
    proof (cases resp)
      case None
      then show ?thesis
        using Auth Some kw by (simp add: command_from_str_def command_str_def mechanism_roundtrip decode_word_def)
    next
      case r: (Some b)
      then show ?thesis
        using Auth Some kw decode_encoded [of b]
        by (cases b) (simp_all add: command_from_str_def command_str_def mechanism_roundtrip)
    qed
  qed
next
  case (Data d)
  show ?thesis
  proof (cases d)
    case None
    then show ?thesis
      using Data split_words_crlf(2) [OF keywords_plain(4)]
      by (simp add: command_from_str_def command_str_def decode_word_def)
  next
    case (Some b)
    then show ?thesis
      using Data split_keyword [OF keywords_plain(4), of "encode H b"] decode_encoded [of b]
      by (cases b) (simp_all add: command_from_str_def command_str_def)
  qed
next
  case (Error_Command e)
  then show ?thesis
    using split_keyword [OF keywords_plain(5), of e] by (simp add: command_from_str_def command_str_def)
next
  case (Rejected ms)
  then show ?thesis
    using split_keyword [OF keywords_plain(7), of ms] split_words_append_crlf [of ms]
    by (simp add: command_from_str_def command_str_def)
next
  case (Ok_Command g)
  then show ?thesis
    using split_keyword [OF keywords_plain(8), of g] guid_ok_plain [of g] assms split_words_crlf(2) [of g]
    by (simp add: command_from_str_def command_str_def)
qed (use split_words_crlf(2) [OF keywords_plain(2)] split_words_crlf(2) [OF keywords_plain(3)]
    split_words_crlf(2) [OF keywords_plain(6)] split_words_crlf(2) [OF keywords_plain(9)]
    in \<open>simp_all add: command_from_str_def command_str_def\<close>)

end

section \<open>Lines\<close>

text \<open>The first \<open>n\<close> commands of a string of bytes, and what follows them.\<close>

fun take_commands :: "hex \<Rightarrow> nat \<Rightarrow> bool \<Rightarrow> byte list \<Rightarrow> (error, command list \<times> byte list) res" where
  "take_commands H 0 first x = Ok ([], x)"
| "take_commands H (Suc n) first x =
     bind_res (next_line first x) (\<lambda>l.
     case l of
       None \<Rightarrow> Err HandshakeError
     | Some (line, rest) \<Rightarrow>
         bind_res (command_from_str H line) (\<lambda>cmd.
         bind_res (take_commands H n False rest) (\<lambda>(cmds, rest). Ok (cmd # cmds, rest))))"

lemma position_append:
  "position b (x @ y) = (case position b x of Some i \<Rightarrow> Some i | None \<Rightarrow> map_option (\<lambda>i. i + length x) (position b y))"
  by (induction x) (auto split: option.splits simp: option.map_comp comp_def option.map_ident)

lemma position_Some: "position b x = Some i \<Longrightarrow> i < length x"
  by (induction x arbitrary: i) (auto split: if_splits)

lemma position_absent: "b \<notin> set x \<Longrightarrow> position b x = None"
  by (induction x) auto

lemma position_at: "b \<notin> set x \<Longrightarrow> position b (x @ b # y) = Some (length x)"
  by (induction x) auto

lemma byte_of_eq: "n < 256 \<Longrightarrow> byte_of n = c \<longleftrightarrow> code c = n"
  by auto

lemma next_line_append:
  "next_line f x = Ok (Some (l, r)) \<Longrightarrow> next_line f (x @ y) = Ok (Some (l, r @ y))"
  "next_line f x = Err e \<Longrightarrow> next_line f (x @ y) = Err e" "next_line f x = Panic \<Longrightarrow> next_line f (x @ y) = Panic"
proof -
  have *: "position (byte_of 10) x = Some i \<Longrightarrow> position (byte_of 10) (x @ y) = Some i \<and> (x @ y) ! (i - 1) = x ! (i - 1) \<and>
      (x @ y) ! 0 = x ! 0 \<and> take (i + 1) (x @ y) = take (i + 1) x \<and> drop (i + 1) (x @ y) = drop (i + 1) x @ y" for i
    using position_Some [of "byte_of 10" x i] by (auto simp: position_append nth_append)
  show "next_line f x = Ok (Some (l, r)) \<Longrightarrow> next_line f (x @ y) = Ok (Some (l, r @ y))"
    "next_line f x = Err e \<Longrightarrow> next_line f (x @ y) = Err e" "next_line f x = Panic \<Longrightarrow> next_line f (x @ y) = Panic"
    using * by (auto simp: next_line_def Let_def split: option.splits if_splits)
qed

lemma next_line_length: "next_line f x = Ok (Some (l, r)) \<Longrightarrow> length r < length x"
  by (auto simp: next_line_def Let_def split: option.splits if_splits dest!: position_Some)

text \<open>The bytes and descriptors that a side has still to read, and the state after reading: what follows
  is all there.\<close>

definition left :: "('s \<Rightarrow> byte list) \<Rightarrow> ('s, 'w) common \<Rightarrow> byte list" where
  "left stream c = h_buffer c @ stream (h_read c)"

definition left_fds :: "('s \<Rightarrow> u32 list) \<Rightarrow> ('s, 'w) common \<Rightarrow> u32 list" where
  "left_fds stream_fds c = h_fds c @ stream_fds (h_read c)"

definition after ::
  "('s \<Rightarrow> byte list) \<Rightarrow> ('s \<Rightarrow> u32 list) \<Rightarrow> ('s, 'w) common \<Rightarrow> byte list \<Rightarrow> ('s, 'w) common \<Rightarrow> bool" where
  "after stream stream_fds c rest c' \<longleftrightarrow> left stream c' = rest \<and> left_fds stream_fds c' = left_fds stream_fds c \<and>
     \<not> h_first c' \<and> h_write c' = h_write c \<and> h_cap_unix_fd c' = h_cap_unix_fd c \<and> h_mechanism c' = h_mechanism c"

context read_half
begin

definition reads :: "hex \<Rightarrow> nat \<Rightarrow> command list \<Rightarrow> ('s, 'w) common \<Rightarrow> bool" where
  "reads H n cmds c \<longleftrightarrow>
     (case take_commands H (n - length cmds) (h_first c) (left stream c) of
        Ok (cs, rest) \<Rightarrow> \<exists>c'. read_loop H recv n cmds c = Some (Ok (cmds @ cs, c')) \<and> after stream stream_fds c rest c'
      | Err e \<Rightarrow> \<exists>e. read_loop H recv n cmds c = Some (Err e)
      | Panic \<Rightarrow> read_loop H recv n cmds c = Some Panic)"

lemma reads_more:
  assumes "next_line (h_first c) (h_buffer c) = Ok None" "recv (h_read c) 1024 = Ok ((bs, fs), s)" "bs \<noteq> []"
    "stream (h_read c) = bs @ stream s" "stream_fds (h_read c) = fs @ stream_fds s"
    "reads H n cmds (c\<lparr>h_buffer := h_buffer c @ bs, h_fds := h_fds c @ fs, h_read := s\<rparr>)"
  shows "reads H n cmds c"
  using assms
  by (auto simp: reads_def left_def left_fds_def after_def read_loop.simps [of H recv n cmds c] split: res.splits)

lemma reads_line:
  assumes "next_line (h_first c) (h_buffer c) = Ok (Some (line, rest))" "length cmds < n"
    "\<And>cmd. length cmds + 1 < n \<Longrightarrow> reads H n (cmds @ [cmd]) (c\<lparr>h_buffer := rest, h_first := False\<rparr>)"
  shows "reads H n cmds c"
proof -
  obtain k where k: "n - length cmds = Suc k" "n - length (cmds @ [cmd]) = k" for cmd
    using assms(2) by (metis Suc_diff_Suc diff_Suc_Suc length_append_singleton)
  have line: "next_line (h_first c) (left stream c) = Ok (Some (line, rest @ stream (h_read c)))"
    unfolding left_def by (rule next_line_append(1) [OF assms(1)])
  show ?thesis
  proof (cases "command_from_str H line")
    case (Ok cmd)
    show ?thesis
    proof (cases "length cmds + 1 = n")
      case True
      then have "k = 0" using k by simp
      then show ?thesis
        using True Ok line assms(1) k(1)
        by (simp add: reads_def after_def left_def left_fds_def read_loop.simps [of H recv n cmds c])
    next
      case False
      then have "reads H n (cmds @ [cmd]) (c\<lparr>h_buffer := rest, h_first := False\<rparr>)" using assms(2,3) by simp
      then show ?thesis
        using False Ok line assms(1) k
        by (auto simp: reads_def after_def left_def left_fds_def read_loop.simps [of H recv n cmds c] split: res.splits)
    qed
  qed (use line assms(1) k(1) in \<open>simp_all add: reads_def read_loop.simps [of H recv n cmds c]\<close>)
qed

lemma reads_all: "length cmds < n \<Longrightarrow> reads H n cmds c"
proof (induction "2 * length (stream (h_read c)) + length (h_buffer c)" arbitrary: c cmds rule: less_induct)
  case less
  obtain k where k: "n - length cmds = Suc k" using less.prems by (metis Suc_diff_Suc)
  show ?case
  proof (cases "next_line (h_first c) (h_buffer c)")
    case (Ok l)
    show ?thesis
    proof (cases l)
      case None
      show ?thesis
      proof (cases "stream (h_read c) = []")
        case True
        then show ?thesis
          using recv_eof [of 1024 "h_read c"] Ok None k
          by (auto simp: reads_def left_def read_loop.simps [of H recv n cmds c])
      next
        case False
        then obtain bs fs s where r: "recv (h_read c) 1024 = Ok ((bs, fs), s)" "bs \<noteq> []"
            "stream (h_read c) = bs @ stream s" "stream_fds (h_read c) = fs @ stream_fds s"
          using recv_more [of 1024 "h_read c"] by auto
        have "length bs \<noteq> 0" using r(2) by simp
        then show ?thesis using Ok None less by (intro reads_more [OF _ r]) (simp_all add: r(3))
      qed
    next
      case (Some lr)
      then obtain line rest where l: "next_line (h_first c) (h_buffer c) = Ok (Some (line, rest))" using Ok by (cases lr) auto
      then show ?thesis using less next_line_length [OF l] by (intro reads_line [OF l]) simp_all
    qed
  qed (use k in \<open>auto simp: reads_def left_def next_line_append read_loop.simps [of H recv n cmds c]\<close>)
qed

text \<open>Reading one command.\<close>

lemma read_command_one:
  "case take_commands H 1 (h_first c) (left stream c) of
     Ok (cs, rest) \<Rightarrow> \<exists>c'. read_command H recv c = Some (Ok (hd cs, c')) \<and> after stream stream_fds c rest c'
   | Err e \<Rightarrow> \<exists>e. read_command H recv c = Some (Err e)
   | Panic \<Rightarrow> read_command H recv c = Some Panic"
proof -
  have "reads H 1 [] c" by (rule reads_all) simp
  moreover have "take_commands H 1 (h_first c) (left stream c) = Ok (cs, rest) \<Longrightarrow> \<exists>x. cs = [x]" for cs rest
    by (auto split: option.splits)
  ultimately show ?thesis
    by (auto simp: reads_def read_command_def read_commands_def split: res.splits)
qed

end

section \<open>Writing\<close>

context write_half
begin

lemma flush_all: "\<exists>w'. flush_loop send buf w = Some (Ok w') \<and> sent w' = sent w @ buf \<and> sent_fds w' = sent_fds w"
proof (induction "length buf" arbitrary: buf w rule: less_induct)
  case less
  show ?case
  proof (cases "buf = []")
    case True
    then show ?thesis by (simp add: flush_loop.simps)
  next
    case False
    then obtain k w1 where r: "send w buf [] = Ok (k, w1)" "0 < k" "k \<le> length buf" "sent w1 = sent w @ take k buf"
        "sent_fds w1 = sent_fds w"
      using send_some [OF False fds_ok_Nil, of w] by auto
    have "length (drop k buf) < length buf" using r(2,3) by simp
    then obtain w2 where "flush_loop send (drop k buf) w1 = Some (Ok w2)" "sent w2 = sent w1 @ drop k buf" "sent_fds w2 = sent_fds w1"
      using less by blast
    with r False show ?thesis by (simp add: flush_loop.simps [of send buf w])
  qed
qed

lemma write_commands_all:
  "\<exists>w'. write_commands H send cmds extra c = Some (Ok (c\<lparr>h_write := w', h_first := h_first c \<and> cmds = []\<rparr>)) \<and>
     sent w' = sent (h_write c) @ command_lines H (h_first c) cmds @ (case extra of Some x \<Rightarrow> x | None \<Rightarrow> [])"
  using flush_all [of "command_lines H (h_first c) cmds @ (case extra of Some x \<Rightarrow> x | None \<Rightarrow> [])" "h_write c"]
  by (auto simp: write_commands_def)

end

section \<open>Commands in lines\<close>

fun sendable :: "command \<Rightarrow> bool" where
  "sendable (Ok_Command g) = guid_ok g"
| "sendable (Error_Command e) = (is_ascii e \<and> byte_of 10 \<notin> set e)"
| "sendable (Rejected ms) = (is_ascii ms \<and> byte_of 10 \<notin> set ms)"
| "sendable c = True"

lemma sendable_ok: "sendable c \<Longrightarrow> command_ok c"
  by (cases c) auto

lemma digits_text:
  "list_all hex_digit w \<Longrightarrow> is_ascii w \<and> byte_of 10 \<notin> set w"
  "list_all guid_hexdigit w \<Longrightarrow> is_ascii w \<and> byte_of 10 \<notin> set w"
  by (fastforce simp: list_all_iff is_ascii_def hex_digit_def guid_hexdigit_def ascii_defs)+

lemma mechanism_text: "is_ascii (mechanism_str m) \<and> byte_of 10 \<notin> set (mechanism_str m)"
  by (cases m) (simp_all add: mechanism_str_def is_ascii_def byte_of_eq)

definition clean :: "string \<Rightarrow> bool" where
  "clean s \<longleftrightarrow> is_ascii s \<and> byte_of 10 \<notin> set s"

lemma clean_append: "clean (x @ y) \<longleftrightarrow> clean x \<and> clean y"
  by (auto simp: clean_def is_ascii_def)

lemma clean_literals:
  "clean ''AUTH ''" "clean ''AUTH''" "clean '' ''" "clean ''CANCEL''" "clean ''BEGIN''" "clean ''DATA ''" "clean ''DATA''"
  "clean ''ERROR ''" "clean ''NEGOTIATE_UNIX_FD''" "clean ''REJECTED ''" "clean ''OK ''" "clean ''AGREE_UNIX_FD''"
  by (simp_all add: clean_def is_ascii_def byte_of_eq)

lemma next_line_command:
  assumes "clean s"
  shows "next_line first ((if first then [byte_of 0] else []) @ s @ crlf @ rest) = Ok (Some (s @ crlf, rest))"
proof -
  let ?p = "(if first then [byte_of 0] else []) @ s"
  have n: "byte_of 10 \<noteq> byte_of 0" "byte_of 10 \<noteq> byte_of 13" by simp_all
  then have "byte_of 10 \<notin> set (?p @ [byte_of 13])" using assms by (auto simp: clean_def)
  from position_at [OF this, of rest] have pos: "position (byte_of 10) (?p @ crlf @ rest) = Some (length ?p + 1)"
    by (simp add: crlf_def)
  have utf: "valid_utf8 (s @ crlf)"
    by (rule valid_utf8_ascii) (use assms in \<open>auto simp: clean_def crlf_def is_ascii_def\<close>)
  have "(?p @ crlf @ rest) ! (length ?p + 1 - 1) = byte_of 13" by (simp add: nth_append crlf_def)
  moreover have "first \<Longrightarrow> (?p @ crlf @ rest) ! 0 = byte_of 0" by simp
  moreover have "take (length ?p + 1 + 1) (?p @ crlf @ rest) = ?p @ crlf" "drop (length ?p + 1 + 1) (?p @ crlf @ rest) = rest"
    by (simp_all add: crlf_def)
  ultimately show ?thesis
    using pos utf by (auto simp: next_line_def Let_def)
qed

context hex_laws
begin

lemma command_text:
  assumes "sendable c"
  shows "clean (command_str H c)"
proof -
  have en: "clean (encode H b)" for b using digits_text(1) [OF encode_digits] by (simp add: clean_def)
  have me: "clean (mechanism_str m)" for m using mechanism_text by (simp add: clean_def)
  have gu: "clean g" if "guid_ok g" for g using digits_text(2) guid_ok_plain [OF that] by (simp add: clean_def)
  show ?thesis
  proof (cases c)
    case (Auth m r)
    then show ?thesis
      using en me by (cases m; cases r) (simp_all only: command_str_def command.case prod.case option.case clean_append clean_literals)
  next
    case (Data d)
    then show ?thesis
      using en by (cases d) (simp_all only: command_str_def command.case option.case clean_append clean_literals)
  qed (use assms gu in \<open>simp_all only: command_str_def command.case clean_append clean_literals sendable.simps clean_def [symmetric]\<close>)
qed

lemma take_command_lines:
  "\<forall>c \<in> set cmds. sendable c \<Longrightarrow>
     take_commands H (length cmds) first (command_lines H first cmds @ rest) = Ok (map received cmds, rest)"
proof (induction cmds arbitrary: first)
  case (Cons c cmds)
  then show ?case
    using next_line_command [of "command_str H c" first "command_lines H False cmds @ rest"] command_text [of c]
      command_received [OF sendable_ok, of c] by simp
qed simp

lemma take_commands_prefix:
  assumes "\<forall>c \<in> set cs. sendable c" "take_commands H n first (command_lines H first cs) = Ok (cmds, rest)"
  shows "cmds = map received (take n cs)"
  using assms
proof (induction cs arbitrary: n first cmds)
  case Nil
  then show ?case by (cases n) (simp_all add: next_line_def)
next
  case (Cons c cs)
  show ?case
  proof (cases n)
    case (Suc m)
    have "bind_res (take_commands H m False (command_lines H False cs)) (\<lambda>(cmds, rest). Ok (received c # cmds, rest)) = Ok (cmds, rest)"
      using Cons.prems next_line_command [of "command_str H c" first "command_lines H False cs"] command_text [of c]
        command_received [OF sendable_ok, of c] Suc by simp
    then show ?thesis
      using Cons.IH [of m False] Cons.prems(1) Suc by (cases "take_commands H m False (command_lines H False cs)") auto
  qed (use Cons.prems in simp)
qed

end

lemma take_two: "take n [x, y] = [] \<or> take n [x, y] = [x] \<or> take n [x, y] = [x, y]"
  by (cases n; cases "n - 1") auto

section \<open>The server as a machine on commands\<close>

type_synonym reaction = "server_step \<times> command list \<times> bool"

text \<open>The next step, the replies, and whether descriptors can be passed from now on.\<close>

definition rejects :: "mechanism \<Rightarrow> reaction" where
  "rejects mech = (WaitingForAuth, [Rejected (mechanism_str mech)], False)"

definition unsupported :: "server_step \<Rightarrow> reaction" where
  "unsupported st = (st, [Error_Command ''Unsupported or misplaced command''], False)"

definition accepts :: "string \<Rightarrow> reaction" where
  "accepts g = (WaitingForBegin, [Ok_Command g], False)"

definition react_external :: "string \<Rightarrow> mechanism \<Rightarrow> u32 option \<Rightarrow> byte list \<Rightarrow> (error, reaction) res" where
  "react_external g mech uid sasl_id =
     bind_res (parse_uid sasl_id) (\<lambda>u. Ok (if uid = Some u then accepts g else rejects mech))"

fun react :: "bool \<Rightarrow> string \<Rightarrow> mechanism \<Rightarrow> u32 option \<Rightarrow> server_step \<Rightarrow> command \<Rightarrow> (error, reaction) res" where
  "react can_pass g mech uid WaitingForAuth (Auth m resp) =
     (if m \<noteq> Some mech then Ok (rejects mech)
      else case resp of
          None \<Rightarrow> Ok (WaitingForData mech, [Data None], False)
        | Some sasl_id \<Rightarrow> (case mech of Anonymous \<Rightarrow> Ok (accepts g) | External \<Rightarrow> react_external g mech uid sasl_id))"
| "react can_pass g mech uid WaitingForAuth Cancel = Ok (rejects mech)"
| "react can_pass g mech uid WaitingForAuth (Error_Command _) = Ok (rejects mech)"
| "react can_pass g mech uid WaitingForAuth c = Ok (unsupported WaitingForAuth)"
| "react can_pass g mech uid (WaitingForData External) (Data (Some d)) = react_external g mech uid d"
| "react can_pass g mech uid (WaitingForData m) (Data d) = Ok (accepts g)"
| "react can_pass g mech uid (WaitingForData m) c = Ok (unsupported (WaitingForData m))"
| "react can_pass g mech uid WaitingForBegin Begin = Ok (Done, [], False)"
| "react can_pass g mech uid WaitingForBegin Cancel = Ok (rejects mech)"
| "react can_pass g mech uid WaitingForBegin (Error_Command _) = Ok (rejects mech)"
| "react can_pass g mech uid WaitingForBegin NegotiateUnixFD =
     Ok (if can_pass then (WaitingForBegin, [AgreeUnixFD], True)
         else (WaitingForBegin, [Error_Command ''FD-passing not possible on this socket type''], False))"
| "react can_pass g mech uid WaitingForBegin c = Ok (unsupported WaitingForBegin)"
| "react can_pass g mech uid Done c = Ok (Done, [], False)"

text \<open>The commands that take the server from a step to the end.\<close>

inductive serves :: "bool \<Rightarrow> string \<Rightarrow> mechanism \<Rightarrow> u32 option \<Rightarrow> server_step \<Rightarrow> command list \<Rightarrow> reaction \<Rightarrow> bool"
  for can_pass g mech uid where
  finished: "serves can_pass g mech uid Done [] (Done, [], False)"
| step: "st \<noteq> Done \<Longrightarrow> react can_pass g mech uid st c = Ok (st1, rs1, cap1) \<Longrightarrow>
    serves can_pass g mech uid st1 cs (st2, rs2, cap2) \<Longrightarrow>
    serves can_pass g mech uid st (c # cs) (st2, rs1 @ rs2, cap1 \<or> cap2)"

text \<open>The server after some commands.\<close>

definition server_after ::
  "hex \<Rightarrow> ('s \<Rightarrow> byte list) \<Rightarrow> ('s \<Rightarrow> u32 list) \<Rightarrow> ('w \<Rightarrow> byte list) \<Rightarrow> ('s, 'w) server \<Rightarrow> byte list \<Rightarrow> reaction
     \<Rightarrow> ('s, 'w) server \<Rightarrow> bool" where
  "server_after H stream stream_fds sent sv rest r sv' \<longleftrightarrow>
     (case r of (st, replies, cap) \<Rightarrow>
        let c = sv_common sv; c' = sv_common sv' in
        sv_step sv' = st \<and> sv_guid sv' = sv_guid sv \<and> sv_client_uid sv' = sv_client_uid sv \<and>
        sv_unique_name sv' = sv_unique_name sv \<and> left stream c' = rest \<and> left_fds stream_fds c' = left_fds stream_fds c \<and>
        \<not> h_first c' \<and> h_mechanism c' = h_mechanism c \<and> h_cap_unix_fd c' = (h_cap_unix_fd c \<or> cap) \<and>
        sent (h_write c') = sent (h_write c) @ command_lines H False replies)"

lemma command_lines_append: "command_lines H False (xs @ ys) = command_lines H False xs @ command_lines H False ys"
  by (induction xs) auto

lemma server_after_trans:
  assumes "server_after H stream stream_fds sent sv rest (st, rs, cap) sv1"
    "server_after H stream stream_fds sent sv1 rest' (st', rs', cap') sv2"
  shows "server_after H stream stream_fds sent sv rest' (st', rs @ rs', cap \<or> cap') sv2"
  using assms by (auto simp: server_after_def Let_def command_lines_append)

lemma server_after_read:
  assumes "after stream stream_fds (sv_common sv) rest c'"
    "server_after H stream stream_fds sent (sv\<lparr>sv_common := c'\<rparr>) rest r sv'"
  shows "server_after H stream stream_fds sent sv rest r sv'"
  using assms by (auto simp: server_after_def after_def Let_def split: prod.splits)

lemma parse_uid_no_panic: "parse_uid x \<noteq> Panic"
  by (simp add: parse_uid_def split: option.splits)

locale duplex = read_half recv stream stream_fds + write_half send sent sent_fds fds_ok
  for recv :: "'s recv" and stream stream_fds and send :: "'w send" and sent sent_fds fds_ok
begin

lemma server_write_all:
  assumes "\<not> h_first (sv_common sv)"
  shows "\<exists>w'. server_write H send cmd sv = Some (Ok (sv\<lparr>sv_common := (sv_common sv)\<lparr>h_write := w', h_first := False\<rparr>\<rparr>)) \<and>
    sent w' = sent (h_write (sv_common sv)) @ command_lines H False [cmd]"
  using write_commands_all [of H "[cmd]" None "sv_common sv"] assms
  by (auto simp: server_write_def write_command_def)

text \<open>An action of the server after reading a command has the effect of a reaction.\<close>

definition does :: "hex \<Rightarrow> (error, ('s, 'w) server) res option \<Rightarrow> ('s, 'w) server \<Rightarrow> (error, reaction) res \<Rightarrow> bool" where
  "does H act sv r \<longleftrightarrow>
     (case r of
        Ok r \<Rightarrow> \<exists>sv'. act = Some (Ok sv') \<and> server_after H stream stream_fds sent sv (left stream (sv_common sv)) r sv'
      | Err e \<Rightarrow> act = Some (Err e)
      | Panic \<Rightarrow> False)"

lemma does_replies:
  assumes "\<not> h_first (sv_common sv)"
  shows "does H (auth_ok H send sv) sv (Ok (accepts (sv_guid sv)))"
    "does H (rejected_error H send sv) sv (Ok (rejects (h_mechanism (sv_common sv))))"
    "does H (unsupported_command_error H send sv) sv (Ok (unsupported (sv_step sv)))"
    "does H (obind (server_write H send cmd sv) (\<lambda>sv. Some (Ok (sv\<lparr>sv_step := st\<rparr>)))) sv (Ok (st, [cmd], False))"
    "does H (server_write H send cmd sv) sv (Ok (sv_step sv, [cmd], False))"
    "does H (server_write H send cmd (sv\<lparr>sv_common := (sv_common sv)\<lparr>h_cap_unix_fd := True\<rparr>\<rparr>)) sv (Ok (sv_step sv, [cmd], True))"
    "does H (Some (Ok (sv\<lparr>sv_step := st\<rparr>))) sv (Ok (st, [], False))"
proof -
  note reply_defs = does_def auth_ok_def rejected_error_def unsupported_command_error_def server_after_def left_def left_fds_def
    accepts_def rejects_def unsupported_def
  show "does H (auth_ok H send sv) sv (Ok (accepts (sv_guid sv)))"
    using server_write_all [OF assms, of H "Ok_Command (sv_guid sv)"] by (auto simp: reply_defs)
  show "does H (rejected_error H send sv) sv (Ok (rejects (h_mechanism (sv_common sv))))"
    using server_write_all [OF assms, of H "Rejected (mechanism_str (h_mechanism (sv_common sv)))"] by (auto simp: reply_defs)
  show "does H (unsupported_command_error H send sv) sv (Ok (unsupported (sv_step sv)))"
    using server_write_all [OF assms, of H "Error_Command ''Unsupported or misplaced command''"] by (auto simp: reply_defs)
  show "does H (obind (server_write H send cmd sv) (\<lambda>sv. Some (Ok (sv\<lparr>sv_step := st\<rparr>)))) sv (Ok (st, [cmd], False))"
    "does H (server_write H send cmd sv) sv (Ok (sv_step sv, [cmd], False))"
    using server_write_all [OF assms, of H cmd] by (auto simp: reply_defs)
  show "does H (server_write H send cmd (sv\<lparr>sv_common := (sv_common sv)\<lparr>h_cap_unix_fd := True\<rparr>\<rparr>)) sv (Ok (sv_step sv, [cmd], True))"
    using server_write_all [of "sv\<lparr>sv_common := (sv_common sv)\<lparr>h_cap_unix_fd := True\<rparr>\<rparr>" H cmd] assms by (auto simp: reply_defs)
  show "does H (Some (Ok (sv\<lparr>sv_step := st\<rparr>))) sv (Ok (st, [], False))"
    using assms by (simp add: reply_defs)
qed

lemma does_external:
  assumes "\<not> h_first (sv_common sv)"
  shows "does H (check_external_auth H send x sv) sv
    (react_external (sv_guid sv) (h_mechanism (sv_common sv)) (sv_client_uid sv) x)"
  using does_replies(1,2) [OF assms, of H] parse_uid_no_panic [of x]
  by (cases "parse_uid x") (simp_all add: check_external_auth_def react_external_def does_def [of _ "Some (Err _)"])

text \<open>The effect of a whole step.\<close>

lemma next_step_reads:
  assumes "server_read H recv sv = Some (Ok (cmd, sv1))" "sv_step sv1 = sv_step sv" "\<not> h_first (sv_common sv1)"
    "sv_step sv \<noteq> Done" "r = react can_pass (sv_guid sv1) (h_mechanism (sv_common sv1)) (sv_client_uid sv1) (sv_step sv) cmd"
  obtains act where "next_step H recv send can_pass sv = obind act (\<lambda>sv. Some (Ok (False, sv)))" "does H act sv1 r"
proof -
  note d = does_replies [OF assms(3), of H] does_external [OF assms(3), of H]
  show thesis
  proof (cases "sv_step sv")
    case WaitingForAuth
    have "does H (handle_auth H recv send sv) sv1 r"
      using WaitingForAuth assms(1,2) d
      by (cases cmd) (auto simp: handle_auth_def assms(5) Let_def split: option.split mechanism.split)
    then show thesis using that WaitingForAuth by (simp add: next_step_def)
  next
    case (WaitingForData m)
    have "does H (handle_auth_data H recv send m sv) sv1 r"
      using WaitingForData assms(1,2) d
      by (cases cmd; cases m) (auto simp: handle_auth_data_def assms(5) split: option.split)
    then show thesis using that WaitingForData by (simp add: next_step_def)
  next
    case WaitingForBegin
    have "does H (finalize H recv send can_pass sv) sv1 r"
      using WaitingForBegin assms(1,2) d by (cases cmd) (auto simp: finalize_def assms(5))
    then show thesis using that WaitingForBegin by (simp add: next_step_def)
  qed (use assms(4) in simp)
qed

lemma next_step_reacts:
  assumes "sv_step sv \<noteq> Done"
  shows "case take_commands H 1 (h_first (sv_common sv)) (left stream (sv_common sv)) of
     Ok (cs, rest) \<Rightarrow>
       (case react can_pass (sv_guid sv) (h_mechanism (sv_common sv)) (sv_client_uid sv) (sv_step sv) (hd cs) of
          Ok r \<Rightarrow> \<exists>sv'. next_step H recv send can_pass sv = Some (Ok (False, sv')) \<and>
            server_after H stream stream_fds sent sv rest r sv'
        | Err e \<Rightarrow> next_step H recv send can_pass sv = Some (Err e)
        | Panic \<Rightarrow> False)
   | Err e \<Rightarrow> \<exists>e. next_step H recv send can_pass sv = Some (Err e)
   | Panic \<Rightarrow> next_step H recv send can_pass sv = Some Panic"
proof (cases "take_commands H 1 (h_first (sv_common sv)) (left stream (sv_common sv))")
  case (Ok x)
  obtain cs rest where x: "x = (cs, rest)" by (cases x)
  obtain c' where c': "read_command H recv (sv_common sv) = Some (Ok (hd cs, c'))" "after stream stream_fds (sv_common sv) rest c'"
    using read_command_one [of H "sv_common sv"] Ok x by auto
  let ?sv = "sv\<lparr>sv_common := c'\<rparr>"
  have s: "server_read H recv sv = Some (Ok (hd cs, ?sv))" using c'(1) by (simp add: server_read_def)
  have a: "left stream (sv_common ?sv) = rest" "\<not> h_first (sv_common ?sv)" "h_mechanism (sv_common ?sv) = h_mechanism (sv_common sv)"
    using c'(2) by (simp_all add: after_def)
  obtain act where act: "next_step H recv send can_pass sv = obind act (\<lambda>sv. Some (Ok (False, sv)))"
    "does H act ?sv (react can_pass (sv_guid sv) (h_mechanism (sv_common sv)) (sv_client_uid sv) (sv_step sv) (hd cs))"
    using next_step_reads [OF s _ a(2) assms refl, of can_pass] a(3) by (metis server.select_convs(2-4) server.surjective server.update_convs(1))
  then show ?thesis
    using Ok x a(1) server_after_read [OF c'(2)]
    by (fastforce simp: does_def split: res.splits)
next
  case (Err e)
  then show ?thesis
    using read_command_one [of H "sv_common sv"] assms
    by (cases "sv_step sv") (auto simp: next_step_def handle_auth_def handle_auth_data_def finalize_def server_read_def)
next
  case Panic
  then show ?thesis
    using read_command_one [of H "sv_common sv"] assms
    by (cases "sv_step sv") (auto simp: next_step_def handle_auth_def handle_auth_data_def finalize_def server_read_def)
qed

lemma step_cases:
  assumes "case T of
     Ok (cs, rest) \<Rightarrow>
       (case R cs of Ok r \<Rightarrow> \<exists>sv'. n = Some (Ok (False, sv')) \<and> Q rest r sv' | Err e \<Rightarrow> n = Some (Err e) | Panic \<Rightarrow> False)
   | Err e \<Rightarrow> \<exists>e. n = Some (Err e)
   | Panic \<Rightarrow> n = Some Panic"
  shows "(\<exists>cs rest st rs cap sv'. T = Ok (cs, rest) \<and> R cs = Ok (st, rs, cap) \<and> n = Some (Ok (False, sv')) \<and> Q rest (st, rs, cap) sv') \<or>
      (\<exists>e. n = Some (Err e)) \<or> n = Some Panic"
    "T = Ok (cs, rest) \<Longrightarrow> R cs = Ok r \<Longrightarrow> \<exists>sv'. n = Some (Ok (False, sv')) \<and> Q rest r sv'"
  subgoal using assms by (cases T; clarsimp) (rename_tac cs rest, case_tac "R cs"; fastforce)
  subgoal using assms by simp
  done

lemmas next_step_cases = step_cases [OF next_step_reacts]

lemma take_first:
  assumes "take_commands H 1 f x = Ok (cs, rest)"
  shows "take_commands H (Suc n) f x = bind_res (take_commands H n False rest) (\<lambda>(cs', r). Ok (hd cs # cs', r))"
    "length rest < length x"
  using assms next_line_length [of f x] by (auto split: option.splits)

lemma server_loop_sound:
  "sv_step sv \<noteq> Done \<or> \<not> h_first (sv_common sv) \<Longrightarrow>
   (\<exists>cmds rest r sv'. server_loop H recv send can_pass sv = Some (Ok sv') \<and>
      take_commands H (length cmds) (h_first (sv_common sv)) (left stream (sv_common sv)) = Ok (cmds, rest) \<and>
      serves can_pass (sv_guid sv) (h_mechanism (sv_common sv)) (sv_client_uid sv) (sv_step sv) cmds r \<and>
      server_after H stream stream_fds sent sv rest r sv') \<or>
   (\<exists>e. server_loop H recv send can_pass sv = Some (Err e)) \<or> server_loop H recv send can_pass sv = Some Panic"
proof (induction "length (left stream (sv_common sv))" arbitrary: sv rule: less_induct)
  case less
  let ?m = "h_mechanism (sv_common sv)" and ?g = "sv_guid sv" and ?u = "sv_client_uid sv"
  show ?case
  proof (cases "sv_step sv = Done")
    case True
    then have "server_loop H recv send can_pass sv = Some (Ok sv)" by (simp add: server_loop.simps next_step_def)
    moreover have "server_after H stream stream_fds sent sv (left stream (sv_common sv)) (Done, [], False) sv"
      using True less.prems by (simp add: server_after_def)
    ultimately show ?thesis
      using True serves.finished [of can_pass ?g ?m ?u]
      by (intro disjI1 exI [of _ "[]"] exI [of _ "left stream (sv_common sv)"] exI [of _ "(Done, [], False)"] exI [of _ sv]) simp
  next
    case False
    from next_step_cases(1) [OF False, of H can_pass] show ?thesis
    proof (elim disjE exE conjE, goal_cases)
      case c: (1 cs rest1 st1 rs1 cap1 sv1)
      note t = take_first [OF c(1)]
      have e: "sv_step sv1 = st1" "sv_guid sv1 = ?g" "sv_client_uid sv1 = ?u" "h_mechanism (sv_common sv1) = ?m"
          "left stream (sv_common sv1) = rest1" "\<not> h_first (sv_common sv1)"
        using c(4) by (simp_all add: server_after_def Let_def)
      have l: "server_loop H recv send can_pass sv = server_loop H recv send can_pass sv1"
        using c(3) by (simp add: server_loop.simps [of H recv send can_pass sv])
      have "length (left stream (sv_common sv1)) < length (left stream (sv_common sv))" using t(2) e by simp
      from less.hyps [OF this disjI2 [OF e(6)]] show ?case
      proof (elim disjE exE conjE, goal_cases)
        case (1 cmds rest r sv')
        obtain st2 rs2 cap2 where r2: "r = (st2, rs2, cap2)" by (cases r)
        have "take_commands H (length (hd cs # cmds)) (h_first (sv_common sv)) (left stream (sv_common sv)) = Ok (hd cs # cmds, rest)"
          using 1 e t(1) [of "length cmds"] by simp
        moreover have "serves can_pass ?g ?m ?u (sv_step sv) (hd cs # cmds) (st2, rs1 @ rs2, cap1 \<or> cap2)"
          by (rule serves.step [OF False c(2)]) (use 1 e r2 in simp)
        moreover have "server_after H stream stream_fds sent sv rest (st2, rs1 @ rs2, cap1 \<or> cap2) sv'"
          by (rule server_after_trans [OF c(4)]) (use 1 r2 in simp)
        ultimately show ?case using 1 l by metis
      qed (use l in auto)
    qed (simp_all add: server_loop.simps [of H recv send can_pass sv])
  qed
qed

lemma server_loop_complete:
  assumes "serves can_pass g mech uid st cmds r"
    "sv_guid sv = g" "h_mechanism (sv_common sv) = mech" "sv_client_uid sv = uid" "sv_step sv = st"
    "st = Done \<Longrightarrow> \<not> h_first (sv_common sv)"
    "take_commands H (length cmds) (h_first (sv_common sv)) (left stream (sv_common sv)) = Ok (cmds, rest)"
  shows "\<exists>sv'. server_loop H recv send can_pass sv = Some (Ok sv') \<and> server_after H stream stream_fds sent sv rest r sv'"
  using assms
proof (induction arbitrary: sv rule: serves.induct)
  case finished
  then have "server_loop H recv send can_pass sv = Some (Ok sv)" by (simp add: server_loop.simps next_step_def)
  with finished show ?case by (auto simp: server_after_def)
next
  case (step st c st1 rs1 cap1 cs st2 rs2 cap2)
  note p = step.prems(1-4)
  have n: "sv_step sv \<noteq> Done" using step.hyps(1) p(4) by simp
  obtain cs1 rest1 where t: "take_commands H 1 (h_first (sv_common sv)) (left stream (sv_common sv)) = Ok (cs1, rest1)"
      "take_commands H (length cs) False rest1 = Ok (cs, rest)" "hd cs1 = c"
    using step.prems(6) by (auto split: option.splits)
  obtain sv1 where 1: "next_step H recv send can_pass sv = Some (Ok (False, sv1))"
      "server_after H stream stream_fds sent sv rest1 (st1, rs1, cap1) sv1"
    using next_step_cases(2) [OF n t(1), unfolded t(3) p, OF step.hyps(2)] by blast
  have e: "sv_step sv1 = st1" "sv_guid sv1 = g" "sv_client_uid sv1 = uid"
      "h_mechanism (sv_common sv1) = mech" "left stream (sv_common sv1) = rest1" "\<not> h_first (sv_common sv1)"
    using 1(2) p by (simp_all add: server_after_def Let_def)
  have "\<exists>sv'. server_loop H recv send can_pass sv1 = Some (Ok sv') \<and>
      server_after H stream stream_fds sent sv1 rest (st2, rs2, cap2) sv'"
    using step.IH e t(2) by simp
  then show ?case
    using 1 server_after_trans [OF 1(2)] by (auto simp: server_loop.simps [of H recv send can_pass sv])
qed

end

section \<open>Who is let in\<close>

text \<open>The identity that a client gives with \<^verbatim>\<open>EXTERNAL\<close> is that of its socket; with \<^verbatim>\<open>ANONYMOUS\<close> any is good.\<close>

definition identifies :: "mechanism \<Rightarrow> u32 option \<Rightarrow> byte list \<Rightarrow> bool" where
  "identifies mech uid x \<longleftrightarrow> mech = Anonymous \<or> (\<exists>u. parse_uid x = Ok u \<and> uid = Some u)"

fun authorises :: "mechanism \<Rightarrow> u32 option \<Rightarrow> bool \<Rightarrow> command \<Rightarrow> bool" where
  "authorises mech uid asked (Auth m (Some x)) = (m = Some mech \<and> identifies mech uid x)"
| "authorises mech uid asked (Data None) = asked"
| "authorises mech uid asked (Data (Some x)) = (asked \<and> identifies mech uid x)"
| "authorises mech uid asked c = False"

fun calm :: "command \<Rightarrow> bool" where
  "calm Cancel = False"
| "calm Begin = False"
| "calm (Error_Command _) = False"
| "calm c = True"

text \<open>A client was let in by a command after which it did not withdraw before \<^verbatim>\<open>BEGIN\<close>; \<^verbatim>\<open>DATA\<close> counts if the
  server asked for it.\<close>

definition let_in :: "mechanism \<Rightarrow> u32 option \<Rightarrow> bool \<Rightarrow> command list \<Rightarrow> bool" where
  "let_in mech uid asked cmds \<longleftrightarrow>
     (\<exists>pre c mid. cmds = pre @ c # mid @ [Begin] \<and> list_all calm mid \<and>
        authorises mech uid (asked \<or> Auth (Some mech) None \<in> set pre) c)"

lemma authorises_mono: "authorises mech uid a c \<Longrightarrow> (a \<Longrightarrow> b) \<Longrightarrow> authorises mech uid b c"
  by (induction mech uid a c rule: authorises.induct) auto

lemma let_in_Cons:
  assumes "let_in mech uid asked cmds" "asked \<Longrightarrow> asked' \<or> c = Auth (Some mech) None"
  shows "let_in mech uid asked' (c # cmds)"
proof -
  obtain pre c' mid where l: "cmds = pre @ c' # mid @ [Begin]" "list_all calm mid"
      "authorises mech uid (asked \<or> Auth (Some mech) None \<in> set pre) c'"
    using assms(1) by (auto simp: let_in_def)
  have "authorises mech uid (asked' \<or> Auth (Some mech) None \<in> set (c # pre)) c'"
    by (rule authorises_mono [OF l(3)]) (use assms(2) in auto)
  then show ?thesis using l(1,2) unfolding let_in_def by (intro exI [of _ "c # pre"]) auto
qed

lemma let_in_Cons_authorises: "authorises mech uid asked c \<Longrightarrow> list_all calm mid \<Longrightarrow> let_in mech uid asked (c # mid @ [Begin])"
  by (force simp: let_in_def)

text \<open>What the rest of the commands is, by the step the server is in.\<close>

fun rest_lets_in :: "mechanism \<Rightarrow> u32 option \<Rightarrow> server_step \<Rightarrow> command list \<Rightarrow> bool" where
  "rest_lets_in mech uid Done cmds = (cmds = [])"
| "rest_lets_in mech uid WaitingForBegin cmds =
     ((\<exists>mid. cmds = mid @ [Begin] \<and> list_all calm mid) \<or> let_in mech uid False cmds)"
| "rest_lets_in mech uid (WaitingForData m) cmds = (m = mech \<longrightarrow> let_in mech uid True cmds)"
| "rest_lets_in mech uid WaitingForAuth cmds = let_in mech uid False cmds"

lemma rest_lets_in_begin:
  assumes "rest_lets_in mech uid WaitingForBegin cs" "authorises mech uid asked c"
  shows "let_in mech uid asked (c # cs)"
  using assms let_in_Cons_authorises [OF assms(2)] let_in_Cons [of mech uid False cs asked c] by auto

lemma rest_lets_in_calm:
  assumes "rest_lets_in mech uid WaitingForBegin cs" "calm c"
  shows "rest_lets_in mech uid WaitingForBegin (c # cs)"
  using assms let_in_Cons [of mech uid False cs False c] by (force intro: exI [of _ "c # _"])

lemma react_external_cases:
  assumes "react_external g mech uid x = Ok r"
  obtains u where "parse_uid x = Ok u" "uid = Some u" "r = accepts g" | "r = rejects mech"
  using assms that by (cases "parse_uid x") (auto simp: react_external_def split: if_splits)

lemma serves_lets_in: "serves can_pass g mech uid st cmds r \<Longrightarrow> fst r = Done \<and> rest_lets_in mech uid st cmds"
proof (induction rule: serves.induct)
  case (step st c st1 rs1 cap1 cs st2 rs2 cap2)
  note defs = accepts_def rejects_def unsupported_def
  have IH: "st2 = Done" "rest_lets_in mech uid st1 cs" using step.IH by simp_all
  note b = rest_lets_in_begin [of mech uid cs _ c] and l = let_in_Cons [of mech uid _ cs _ c]
  have "rest_lets_in mech uid st (c # cs)"
  proof (cases st)
    case WaitingForAuth
    show ?thesis
    proof (cases c)
      case (Auth m resp)
      show ?thesis
      proof (cases "m = Some mech")
        case True
        show ?thesis
          using step.hyps(2) IH(2) WaitingForAuth Auth True b [of False] l [of False False] l [of True False]
          by (cases resp; cases mech) (auto simp: defs identifies_def elim!: react_external_cases)
      qed (use step.hyps(2) IH(2) WaitingForAuth Auth l [of False False] in \<open>auto simp: defs\<close>)
    qed (use step.hyps(2) IH(2) WaitingForAuth l [of False False] in \<open>auto simp: defs\<close>)
  next
    case (WaitingForData m)
    show ?thesis
    proof (cases c)
      case (Data d)
      then show ?thesis
        using step.hyps(2) IH(2) WaitingForData b [of True] l [of False True]
        by (cases d; cases m) (auto simp: defs identifies_def elim!: react_external_cases)
    qed (use step.hyps(2) IH(2) WaitingForData l [of True True] in \<open>cases m; auto simp: defs\<close>)+
  next
    case WaitingForBegin
    show ?thesis
      using step.hyps(2) IH(2) WaitingForBegin l [of False False] rest_lets_in_calm [of mech uid cs c]
      by (cases c) (auto simp: defs split: if_splits)
  qed (use step.hyps(1) in simp)
  then show ?case using IH(1) by simp
qed simp

section \<open>Both sides\<close>

text \<open>What a client says to a server that lets it in, and what the server replies.\<close>

definition client_script :: "mechanism \<Rightarrow> string \<Rightarrow> bool \<Rightarrow> command list" where
  "client_script mech uid can_pass =
     [Auth (Some mech) (Some (case mech of Anonymous \<Rightarrow> ''zbus'' | External \<Rightarrow> uid))] @
     (if can_pass then [NegotiateUnixFD] else []) @ [Begin]"

definition negotiation_reply :: "bool \<Rightarrow> command" where
  "negotiation_reply can_pass =
     (if can_pass then AgreeUnixFD else Error_Command ''FD-passing not possible on this socket type'')"

definition server_script :: "string \<Rightarrow> bool \<Rightarrow> bool \<Rightarrow> command list" where
  "server_script g can_pass can_pass' = [Ok_Command g] @ (if can_pass then [negotiation_reply can_pass'] else [])"

lemma received_scripts:
  assumes "mech = External \<Longrightarrow> uid \<noteq> []"
  shows "map received (client_script mech uid can_pass) = client_script mech uid can_pass"
    "received (negotiation_reply True) = AgreeUnixFD" "\<exists>e. received (negotiation_reply False) = Error_Command e"
  using assms by (cases mech; cases uid; simp add: client_script_def negotiation_reply_def)+

lemma sendable_scripts:
  "c \<in> set (client_script mech uid can_pass) \<Longrightarrow> sendable c"
  "guid_ok g \<Longrightarrow> c \<in> set (server_script g can_pass can_pass') \<Longrightarrow> sendable c"
  by (auto simp: client_script_def server_script_def negotiation_reply_def is_ascii_def byte_of_eq split: if_splits)

lemma identifies_nonempty: "identifies External uid x \<Longrightarrow> x \<noteq> []"
  by (auto simp: identifies_def parse_uid_def parse_uint_def split: if_splits)

lemma server_script_serves:
  assumes "identifies mech (sid) (case mech of Anonymous \<Rightarrow> ''zbus'' | External \<Rightarrow> uid)"
  shows "serves can_pass' g mech sid WaitingForAuth (client_script mech uid can_pass)
     (Done, server_script g can_pass can_pass', can_pass \<and> can_pass')"
proof -
  have b: "serves can_pass' g mech sid WaitingForBegin [Begin] (Done, [] @ [], False \<or> False)"
    by (rule serves.step [OF _ _ serves.finished]) simp_all
  have "serves can_pass' g mech sid WaitingForBegin (NegotiateUnixFD # [Begin])
      (Done, [negotiation_reply can_pass'] @ ([] @ []), can_pass' \<or> (False \<or> False))"
    by (rule serves.step [OF _ _ b]) (simp_all add: negotiation_reply_def)
  with b have n: "serves can_pass' g mech sid WaitingForBegin ((if can_pass then [NegotiateUnixFD] else []) @ [Begin])
      (Done, if can_pass then [negotiation_reply can_pass'] else [], can_pass \<and> can_pass')"
    by simp
  show ?thesis
    using serves.step [OF _ _ n, of WaitingForAuth "Auth (Some mech) (Some (case mech of Anonymous \<Rightarrow> ''zbus'' | External \<Rightarrow> uid))"
        "[Ok_Command g]" False] assms
    by (cases mech) (auto simp: client_script_def server_script_def accepts_def react_external_def identifies_def)
qed

lemma obind_assoc: "obind (obind x (\<lambda>(a, b). f a b)) g = obind x (\<lambda>(a, b). obind (f a b) g)"
  by (auto simp: obind_def split: option.splits res.splits)

locale handshake_side = duplex recv stream stream_fds send sent sent_fds fds_ok + hex_laws H
  for recv :: "'s recv" and stream stream_fds and send :: "'w send" and sent sent_fds fds_ok and H
begin

lemma server_accepts:
  assumes "identifies mech sid (case mech of Anonymous \<Rightarrow> ''zbus'' | External \<Rightarrow> uid)"
    "stream s = command_lines H True (client_script mech uid can_pass) @ rest"
  shows "\<exists>a. server_perform H recv send can_pass' (server_new s w g sid mech name) = Some (Ok a) \<and>
    a_server_guid a = g \<and> a_cap_unix_fd a = (can_pass \<and> can_pass') \<and> a_unique_name a = name \<and>
    sent (a_write a) = sent w @ command_lines H False (server_script g can_pass can_pass') \<and>
    a_received_bytes a @ stream (a_read a) = rest \<and> a_received_fds a @ stream_fds (a_read a) = stream_fds s"
proof -
  let ?sv = "server_new s w g sid mech name" and ?cmds = "client_script mech uid can_pass"
  have "mech = External \<Longrightarrow> uid \<noteq> []" using assms(1) identifies_nonempty by auto
  then have "take_commands H (length ?cmds) True (stream s) = Ok (?cmds, rest)"
    using take_command_lines [of ?cmds True rest] received_scripts(1) [of mech uid can_pass] assms(2)
    by (simp add: sendable_scripts(1))
  then obtain sv' where "server_loop H recv send can_pass' ?sv = Some (Ok sv')"
      "server_after H stream stream_fds sent ?sv rest (Done, server_script g can_pass can_pass', can_pass \<and> can_pass') sv'"
    using server_loop_complete [OF server_script_serves [OF assms(1)], of ?sv g H can_pass rest can_pass']
    by (auto simp: server_new_def common_new_def left_def)
  then show ?thesis
    by (auto simp: server_perform_def server_after_def Let_def server_new_def common_new_def left_def left_fds_def)
qed

lemma read_commands_lines:
  assumes "left stream c = command_lines H (h_first c) cmds @ rest" "cmds \<noteq> []" "\<And>c. c \<in> set cmds \<Longrightarrow> sendable c"
  shows "\<exists>c'. read_commands H recv (length cmds) c = Some (Ok (map received cmds, c')) \<and> after stream stream_fds c rest c'"
  using reads_all [of "[]" "length cmds" H c] take_command_lines [of cmds "h_first c" rest] assms
  by (simp add: reads_def read_commands_def)

lemma read_command_line:
  assumes "left stream c = command_lines H (h_first c) [cmd] @ rest" "sendable cmd"
  shows "\<exists>c'. read_command H recv c = Some (Ok (received cmd, c')) \<and> after stream stream_fds c rest c'"
  using read_commands_lines [OF assms(1)] assms(2) by (auto simp: read_command_def)

lemma authenticate_accepted:
  assumes "h_first (cl_common cl)" "left stream (cl_common cl) = command_lines H False [Ok_Command g] @ rest" "guid_ok g"
    "cl_server_guid cl \<in> {None, Some g}"
  shows "\<exists>c'. authenticate H recv send uid cl = Some (Ok (cl\<lparr>cl_common := c', cl_server_guid := Some g\<rparr>)) \<and>
    left stream c' = rest \<and> left_fds stream_fds c' = left_fds stream_fds (cl_common cl) \<and> \<not> h_first c' \<and>
    h_cap_unix_fd c' = h_cap_unix_fd (cl_common cl) \<and> sent (h_write c') = sent (h_write (cl_common cl)) @
      command_lines H True [Auth (Some (h_mechanism (cl_common cl)))
        (Some (case h_mechanism (cl_common cl) of Anonymous \<Rightarrow> ''zbus'' | External \<Rightarrow> uid))]"
proof -
  let ?cmd = "Auth (Some (h_mechanism (cl_common cl))) (Some (case h_mechanism (cl_common cl) of Anonymous \<Rightarrow> ''zbus'' | External \<Rightarrow> uid))"
  obtain w where w: "write_command H send ?cmd (cl_common cl) = Some (Ok ((cl_common cl)\<lparr>h_write := w, h_first := False\<rparr>))"
      "sent w = sent (h_write (cl_common cl)) @ command_lines H True [?cmd]"
    using write_commands_all [of H "[?cmd]" None "cl_common cl"] assms(1) by (auto simp: write_command_def)
  obtain c' where c': "read_command H recv ((cl_common cl)\<lparr>h_write := w, h_first := False\<rparr>) = Some (Ok (Ok_Command g, c'))"
      "after stream stream_fds ((cl_common cl)\<lparr>h_write := w, h_first := False\<rparr>) rest c'"
    using read_command_line [of "(cl_common cl)\<lparr>h_write := w, h_first := False\<rparr>" "Ok_Command g" rest] assms(2,3)
    by (auto simp: left_def)
  have "set_guid g (cl\<lparr>cl_common := c'\<rparr>) = Ok (cl\<lparr>cl_common := c', cl_server_guid := Some g\<rparr>)"
    using assms(4) by (auto simp: set_guid_def)
  moreover have "(case h_mechanism (cl_common cl) of External \<Rightarrow> Auth (Some (h_mechanism (cl_common cl))) (Some uid)
      | Anonymous \<Rightarrow> Auth (Some (h_mechanism (cl_common cl))) (Some ''zbus'')) = ?cmd"
    by (cases "h_mechanism (cl_common cl)") simp_all
  ultimately show ?thesis
    using w c' by (auto simp: authenticate_def Let_def after_def left_fds_def)
qed

lemma negotiate_reply:
  assumes "\<not> h_first c" "left stream c = command_lines H False [negotiation_reply can_pass'] @ rest"
  shows "\<exists>c'. negotiate H recv send c = Some (Ok c') \<and> left stream c' = rest \<and> left_fds stream_fds c' = left_fds stream_fds c \<and>
    \<not> h_first c' \<and> h_cap_unix_fd c' = (h_cap_unix_fd c \<or> can_pass') \<and>
    sent (h_write c') = sent (h_write c) @ command_lines H False [NegotiateUnixFD]"
proof -
  obtain w where w: "write_command H send NegotiateUnixFD c = Some (Ok (c\<lparr>h_write := w, h_first := False\<rparr>))"
      "sent w = sent (h_write c) @ command_lines H False [NegotiateUnixFD]"
    using write_commands_all [of H "[NegotiateUnixFD]" None c] assms(1) by (auto simp: write_command_def)
  have sd: "sendable (negotiation_reply can_pass')" by (simp add: negotiation_reply_def is_ascii_def byte_of_eq)
  obtain c' where c': "read_command H recv (c\<lparr>h_write := w, h_first := False\<rparr>) = Some (Ok (received (negotiation_reply can_pass'), c'))"
      "after stream stream_fds (c\<lparr>h_write := w, h_first := False\<rparr>) rest c'"
    using read_command_line [OF _ sd, of "c\<lparr>h_write := w, h_first := False\<rparr>" rest] assms(2) by (auto simp: left_def)
  show ?thesis
    using w c' by (cases can_pass') (auto simp: negotiate_def negotiation_reply_def after_def left_def left_fds_def)
qed

text \<open>The commands after the authentication, with the replies to those that have one.\<close>

lemma secondary_done:
  assumes "\<not> h_first (cl_common cl)" "\<not> h_cap_unix_fd (cl_common cl)" "\<not> cl_bus cl"
    "left stream (cl_common cl) = command_lines H False (if can_pass then [negotiation_reply can_pass'] else []) @ rest"
  shows "\<exists>c'. obind (send_secondary_commands H recv send can_pass flatpak hello cl) (\<lambda>(expected, cl).
      if 0 < expected then receive_secondary_responses H recv expected cl else Some (Ok cl)) = Some (Ok (cl\<lparr>cl_common := c'\<rparr>)) \<and>
    left stream c' = rest \<and> left_fds stream_fds c' = left_fds stream_fds (cl_common cl) \<and>
    h_cap_unix_fd c' = (can_pass \<and> can_pass') \<and>
    sent (h_write c') = sent (h_write (cl_common cl)) @ command_lines H False ((if can_pass then [NegotiateUnixFD] else []) @ [Begin])"
proof (cases "can_pass \<and> flatpak")
  case True
  then obtain c1 where c1: "negotiate H recv send (cl_common cl) = Some (Ok c1)" "left stream c1 = rest"
      "left_fds stream_fds c1 = left_fds stream_fds (cl_common cl)" "\<not> h_first c1" "h_cap_unix_fd c1 = can_pass'"
      "sent (h_write c1) = sent (h_write (cl_common cl)) @ command_lines H False [NegotiateUnixFD]"
    using negotiate_reply [of "cl_common cl" can_pass' rest] assms by auto
  then show ?thesis
    using write_commands_all [of H "[Begin]" None c1] True assms(3)
    by (auto simp: send_secondary_commands_def Let_def left_def left_fds_def)
next
  case False
  let ?cmds = "(if can_pass then [NegotiateUnixFD] else []) @ [Begin]"
  obtain w where w: "write_commands H send ?cmds None (cl_common cl) = Some (Ok ((cl_common cl)\<lparr>h_write := w, h_first := False\<rparr>))"
      "sent w = sent (h_write (cl_common cl)) @ command_lines H False ?cmds"
    using write_commands_all [of H ?cmds None "cl_common cl"] assms(1) by auto
  let ?c = "(cl_common cl)\<lparr>h_write := w, h_first := False\<rparr>"
  show ?thesis
  proof (cases can_pass)
    case True
    have sd: "sendable (negotiation_reply can_pass')" by (simp add: negotiation_reply_def is_ascii_def byte_of_eq)
    obtain c' where c': "read_commands H recv 1 ?c = Some (Ok ([received (negotiation_reply can_pass')], c'))"
        "after stream stream_fds ?c rest c'"
      using read_commands_lines [of ?c "[negotiation_reply can_pass']" rest] assms(4) sd True by (auto simp: left_def)
    then show ?thesis
      using w True False assms(2,3)
      by (cases can_pass') (auto simp: send_secondary_commands_def receive_secondary_responses_def secondary_response_def
          negotiation_reply_def Let_def left_def left_fds_def after_def)
  next
    case no: False
    then show ?thesis
      using w assms by (auto simp: send_secondary_commands_def Let_def left_def left_fds_def)
  qed
qed

lemma client_accepted:
  assumes "guid_ok g" "g0 \<in> {None, Some g}" "stream s = command_lines H False (server_script g can_pass can_pass') @ rest"
  shows "\<exists>a. client_perform N E B n H recv send uid can_pass flatpak hello (client_new s w mech g0 False) = Some (Ok a) \<and>
    a_server_guid a = g \<and> a_cap_unix_fd a = (can_pass \<and> can_pass') \<and> a_unique_name a = None \<and>
    sent (a_write a) = sent w @ command_lines H True (client_script mech uid can_pass) \<and>
    a_received_bytes a @ stream (a_read a) = rest \<and> a_received_fds a @ stream_fds (a_read a) = stream_fds s"
proof -
  let ?cl = "client_new s w mech g0 False" and ?rep = "if can_pass then [negotiation_reply can_pass'] else []"
  have cl: "cl_common ?cl = common_new s w mech" "cl_server_guid ?cl = g0" "\<not> cl_bus ?cl"
    by (simp_all add: client_new_def)
  obtain c1 where 1: "authenticate H recv send uid ?cl = Some (Ok (?cl\<lparr>cl_common := c1, cl_server_guid := Some g\<rparr>))"
      "left stream c1 = command_lines H False ?rep @ rest" "left_fds stream_fds c1 = stream_fds s" "\<not> h_first c1" "\<not> h_cap_unix_fd c1"
      "sent (h_write c1) = sent w @ command_lines H True [Auth (Some mech) (Some (case mech of Anonymous \<Rightarrow> ''zbus'' | External \<Rightarrow> uid))]"
    using authenticate_accepted [of ?cl g "command_lines H False ?rep @ rest" uid] assms
    by (auto simp: cl common_new_def left_def left_fds_def server_script_def command_lines_append [of H "[Ok_Command g]", simplified])
  let ?cl1 = "?cl\<lparr>cl_common := c1, cl_server_guid := Some g\<rparr>"
  obtain c2 where 2: "obind (send_secondary_commands H recv send can_pass flatpak hello ?cl1) (\<lambda>(expected, cl).
        if 0 < expected then receive_secondary_responses H recv expected cl else Some (Ok cl)) = Some (Ok (?cl1\<lparr>cl_common := c2\<rparr>))"
      "left stream c2 = rest" "left_fds stream_fds c2 = stream_fds s" "h_cap_unix_fd c2 = (can_pass \<and> can_pass')"
      "sent (h_write c2) = sent (h_write c1) @ command_lines H False ((if can_pass then [NegotiateUnixFD] else []) @ [Begin])"
    using secondary_done [of ?cl1 can_pass can_pass' rest flatpak hello] 1 cl(3) by auto
  have "client_perform N E B n H recv send uid can_pass flatpak hello ?cl =
      obind (obind (send_secondary_commands H recv send can_pass flatpak hello ?cl1) (\<lambda>(expected, cl).
        if 0 < expected then receive_secondary_responses H recv expected cl else Some (Ok cl))) (\<lambda>cl.
      let c = cl_common cl in
      obind (if cl_bus cl
            then obind (receive_hello_response N E B n recv (h_read c) (h_buffer c)) (\<lambda>(name, buf, s). Some (Ok (Some name, buf, s)))
            else Some (Ok (None, h_buffer c, h_read c))) (\<lambda>(name, buf, s).
      case cl_server_guid cl of
        None \<Rightarrow> Some Panic
      | Some g \<Rightarrow> Some (Ok \<lparr>a_write = h_write c, a_server_guid = g, a_cap_unix_fd = h_cap_unix_fd c, a_read = s,
         a_received_bytes = buf, a_received_fds = h_fds c, a_unique_name = name\<rparr>)))"
    using 1(1) by (simp add: client_perform_def obind_assoc)
  then show ?thesis
    unfolding 2(1) using 2 1(6) cl(3)
    by (auto simp: Let_def left_def left_fds_def client_script_def command_lines_append)
qed

end

section \<open>A hex codec and the socket of the model\<close>

definition hex_char :: "nat \<Rightarrow> byte" where
  "hex_char n = byte_of (if n < 10 then 48 + n else 87 + n)"

definition hex_value :: "byte \<Rightarrow> nat option" where
  "hex_value c =
     (let n = code c in
      if 48 \<le> n \<and> n \<le> 57 then Some (n - 48) else if 97 \<le> n \<and> n \<le> 102 then Some (n - 87)
      else if 65 \<le> n \<and> n \<le> 70 then Some (n - 55) else None)"

fun hex_decode :: "string \<Rightarrow> byte list option" where
  "hex_decode [] = Some []"
| "hex_decode [c] = None"
| "hex_decode (c # d # s) =
     (case (hex_value c, hex_value d, hex_decode s) of
        (Some i, Some j, Some bs) \<Rightarrow> Some (byte_of (16 * i + j) # bs)
      | _ \<Rightarrow> None)"

definition hex_ref :: hex where
  "hex_ref = \<lparr>encode = \<lambda>b. concat (map (\<lambda>c. [hex_char (code c div 16), hex_char (code c mod 16)]) b), decode = hex_decode\<rparr>"

lemma hex_char_laws: "n < 16 \<Longrightarrow> hex_value (hex_char n) = Some n \<and> hex_digit (hex_char n)"
  by (auto simp: hex_value_def hex_char_def hex_digit_def)

interpretation hr: hex_laws hex_ref
proof (unfold_locales, goal_cases)
  case (1 b)
  show ?case
    by (induction b) (simp_all add: hex_ref_def hex_char_laws code_less [THEN less_mult_imp_div_less [of _ 16 16, simplified]])
next
  case (2 b)
  show ?case
    by (induction b) (simp_all add: hex_ref_def hex_char_laws code_less [THEN less_mult_imp_div_less [of _ 16 16, simplified]])
next
  case (3 b)
  show ?case by (induction b) (simp_all add: hex_ref_def)
qed

interpretation cd: duplex "fd_recvmsg chunk_sys" fst "\<lambda>(_, fs, _). fs" "fd_sendmsg chunk_write" fst
  "\<lambda>w. cmsg_fds ((\<lambda>(_, cs, _). cs) w)" "\<lambda>_. True"
  by unfold_locales

interpretation hs: handshake_side "fd_recvmsg chunk_sys" fst "\<lambda>(_, fs, _). fs" "fd_sendmsg chunk_write" fst
  "\<lambda>w. cmsg_fds ((\<lambda>(_, cs, _). cs) w)" "\<lambda>_. True" hex_ref
  by unfold_locales

section \<open>Properties\<close>

text \<open>C5: A client and a server that can reach each other complete the handshake. The client's socket gives it
  the replies of the server, the server's gives it the commands of the client, each in chunks of any size; with
  \<^verbatim>\<open>ANONYMOUS\<close>, or \<^verbatim>\<open>EXTERNAL\<close> and a user the server knows from the socket, each writes exactly what the other
  was said to receive. Both end with the guid of the server, agree on whether descriptors can be passed, and
  keep every byte and descriptor after the handshake.\<close>
theorem handshake_agreement:
  assumes "handshake_side recv stream stream_fds send sent sent_fds fds_ok H"
    "handshake_side recv' stream' stream_fds' send' sent' sent_fds' fds_ok' H"
    "guid_ok g" "expected \<in> {None, Some g}" "identifies mech sid (case mech of Anonymous \<Rightarrow> ''zbus'' | External \<Rightarrow> uid)"
    "stream s = command_lines H False (server_script g can_pass can_pass') @ rest"
    "stream' s' = command_lines H True (client_script mech uid can_pass) @ rest'"
  shows "\<exists>a a'.
    client_perform N E B n H recv send uid can_pass flatpak hello (client_new s w mech expected False) = Some (Ok a) \<and>
    server_perform H recv' send' can_pass' (server_new s' w' g sid mech name) = Some (Ok a') \<and>
    sent (a_write a) = sent w @ command_lines H True (client_script mech uid can_pass) \<and>
    sent' (a_write a') = sent' w' @ command_lines H False (server_script g can_pass can_pass') \<and>
    a_server_guid a = g \<and> a_server_guid a' = g \<and>
    a_cap_unix_fd a = (can_pass \<and> can_pass') \<and> a_cap_unix_fd a' = (can_pass \<and> can_pass') \<and>
    a_received_bytes a @ stream (a_read a) = rest \<and> a_received_bytes a' @ stream' (a_read a') = rest' \<and>
    a_received_fds a @ stream_fds (a_read a) = stream_fds s \<and> a_received_fds a' @ stream_fds' (a_read a') = stream_fds' s'"
  using handshake_side.client_accepted [OF assms(1,3,4,6), of N E B n uid flatpak hello w mech]
    handshake_side.server_accepts [OF assms(2,5,7), of can_pass' w' g name]
  by blast

definition sample_guid :: string where "sample_guid = ''0123456789abcdef0123456789ABCDEF''"

theorem handshake_agreement_witness:
  "\<exists>a a'.
     client_perform nom_ref endi_ref from_bits 20 hex_ref (fd_recvmsg chunk_sys) (fd_sendmsg chunk_write) ''1000'' True False []
       (client_new (command_lines hex_ref False (server_script sample_guid True True) @ ''l'', [], [0, 30]) ([], [], [3]) External None False) = Some (Ok a) \<and>
     server_perform hex_ref (fd_recvmsg chunk_sys) (fd_sendmsg chunk_write) True
       (server_new (command_lines hex_ref True (client_script External ''1000'' True) @ ''B'', [7], [5, 0, 9]) ([], [], []) sample_guid (Some 1000) External None) = Some (Ok a') \<and>
     a_cap_unix_fd a \<and> a_cap_unix_fd a' \<and> a_received_fds a' @ (case a_read a' of (_, fs, _) \<Rightarrow> fs) = [7]"
proof -
  have g: "guid_ok sample_guid" by (simp add: guid_ok_def guid_try_from_def sample_guid_def guid_hexdigit_def is_ascii_digit_def)
  have i: "identifies External (Some 1000) (case External of Anonymous \<Rightarrow> ''zbus'' | External \<Rightarrow> ''1000'')"
    by (simp add: identifies_def parse_uid_def parse_uint_def) code_simp
  have m: "None \<in> {None, Some sample_guid}" by simp
  show ?thesis
    using handshake_agreement [OF hs.handshake_side_axioms hs.handshake_side_axioms g m i,
        of "(command_lines hex_ref False (server_script sample_guid True True) @ ''l'', [], [0, 30])" True True "''l''"
          "(command_lines hex_ref True (client_script External ''1000'' True) @ ''B'', [7], [5, 0, 9])" "''B''"
          nom_ref endi_ref from_bits 20 False "[]" "([], [], [3])" "([], [], [])" None]
    by (simp add: split_beta) blast
qed

text \<open>C6: The handshake of the server ends on every input, and it ends well only if the client was let in. Then
  the lines of the client are commands of which one authorises it: \<^verbatim>\<open>AUTH\<close> with the mechanism of the server and, for
  \<^verbatim>\<open>EXTERNAL\<close>, the user the server knows from the socket, or such \<^verbatim>\<open>DATA\<close>, or empty \<^verbatim>\<open>DATA\<close>, after \<^verbatim>\<open>AUTH\<close> without an identity.
  Between it and the final \<^verbatim>\<open>BEGIN\<close> the client does not cancel, and what follows \<^verbatim>\<open>BEGIN\<close> is not lost.\<close>
theorem server_lets_in_only:
  assumes "duplex recv stream stream_fds send sent sent_fds fds_ok"
  shows "(\<exists>a cmds rest. server_perform H recv send can_pass (server_new s w g uid mech name) = Some (Ok a) \<and>
       take_commands H (length cmds) True (stream s) = Ok (cmds, rest) \<and> let_in mech uid False cmds \<and>
       a_server_guid a = g \<and> a_received_bytes a @ stream (a_read a) = rest) \<or>
     (\<exists>e. server_perform H recv send can_pass (server_new s w g uid mech name) = Some (Err e)) \<or>
     server_perform H recv send can_pass (server_new s w g uid mech name) = Some Panic"
proof -
  let ?sv = "server_new s w g uid mech name"
  have new: "sv_step ?sv = WaitingForAuth" "sv_common ?sv = common_new s w mech" "sv_guid ?sv = g" "sv_client_uid ?sv = uid"
    by (simp_all add: server_new_def)
  have "sv_step ?sv \<noteq> Done" using new(1) by simp
  from duplex.server_loop_sound [OF assms disjI1 [OF this], of H can_pass] show ?thesis
  proof (elim disjE exE conjE, goal_cases)
    case (1 cmds rest r sv')
    have "let_in mech uid False cmds"
      using serves_lets_in [OF 1(3)] new by (simp add: common_new_def)
    then show ?case
      using 1 new by (auto simp: server_perform_def server_after_def Let_def common_new_def left_def split: prod.splits)
  qed (simp_all add: server_perform_def)
qed

theorem server_lets_in_only_witness:
  "\<nexists>a. server_perform hex_ref (fd_recvmsg chunk_sys) (fd_sendmsg chunk_write) True
     (server_new (command_lines hex_ref True [Auth (Some Anonymous) (Some ''zbus''), Begin], [], [2]) ([], [], []) sample_guid (Some 1000)
       External None) = Some (Ok a)"
proof -
  let ?cs = "[Auth (Some Anonymous) (Some ''zbus''), Begin]"
  have "\<not> let_in External (Some 1000) False cmds"
    if "take_commands hex_ref (length cmds) True (command_lines hex_ref True ?cs) = Ok (cmds, rest)" for cmds rest
    using hr.take_commands_prefix [OF _ that] take_two [of "length cmds" "hd ?cs" Begin] by (auto simp: let_in_def Cons_eq_append_conv append_eq_Cons_conv)
  then show ?thesis
    using server_lets_in_only [OF cd.duplex_axioms, of hex_ref True "(command_lines hex_ref True ?cs, [], [2])" "([], [], [])" sample_guid
        "Some 1000" External None]
    by (metis fst_conv option.inject res.distinct(1,3) res.inject(1))
qed

text \<open>What a peer reads of the line that is written for a command: the command itself but for these cases. A response
  needs a mechanism; empty data is no data; the text of an error is its whole line; and the mechanisms
  in \<^verbatim>\<open>REJECTED\<close> come without the spaces between them.\<close>
theorem handshake_command_received:
  assumes "hex_laws H" "command_ok c"
  shows "command_from_str H (command_str H c @ crlf) = Ok (received c)"
  by (rule hex_laws.command_received [OF assms])

theorem handshake_command_received_witness:
  "command_from_str hex_ref (command_str hex_ref (Auth (Some External) (Some ''0'')) @ crlf) = Ok (Auth (Some External) (Some ''0'')) \<and>
   command_str hex_ref (Auth (Some External) (Some ''0'')) = ''AUTH EXTERNAL 30''"
  using handshake_command_received [OF hr.hex_laws_axioms, of "Auth (Some External) (Some ''0'')"]
  by (simp add: command_str_def mechanism_str_def hex_ref_def hex_char_def byte_of_eq)

text \<open>C34: With \<^verbatim>\<open>EXTERNAL\<close> the server lets in a client of which it does not know the user, if that asks for a
  challenge and answers it with empty data. The same client with any identity would be rejected.\<close>
theorem external_without_identity:
  assumes "handshake_side recv stream stream_fds send sent sent_fds fds_ok H"
    "stream s = command_lines H True [Auth (Some External) None, Data None, Begin] @ rest"
  shows "(\<exists>a. server_perform H recv send can_pass (server_new s w g None External name) = Some (Ok a)) \<and>
    \<not> authorises External None True (Auth (Some External) (Some x)) \<and> \<not> authorises External None True (Data (Some x))"
proof -
  let ?sv = "server_new s w g None External name" and ?cmds = "[Auth (Some External) None, Data None, Begin]"
  note axs = handshake_side.axioms [OF assms(1)]
  have "serves can_pass g External None WaitingForBegin [Begin] (Done, [] @ [], False \<or> False)"
    by (rule serves.step [OF _ _ serves.finished]) simp_all
  from serves.step [OF _ _ this, of "WaitingForData External" "Data None" "[Ok_Command g]" False]
  have "serves can_pass g External None (WaitingForData External) [Data None, Begin] (Done, [Ok_Command g], False)"
    by (simp add: accepts_def)
  from serves.step [OF _ _ this, of WaitingForAuth "Auth (Some External) None" "[Data None]" False]
  have "serves can_pass g External None WaitingForAuth ?cmds (Done, [Data None, Ok_Command g], False)" by simp
  moreover have "take_commands H (length ?cmds) True (stream s) = Ok (?cmds, rest)"
    using hex_laws.take_command_lines [OF axs(2), of ?cmds True rest] assms(2) by simp
  ultimately obtain sv' where "server_loop H recv send can_pass ?sv = Some (Ok sv')"
    using duplex.server_loop_complete [OF axs(1), of can_pass g External None WaitingForAuth ?cmds _ ?sv H rest]
    by (fastforce simp: server_new_def common_new_def left_def)
  then show ?thesis by (auto simp: server_perform_def Let_def identifies_def)
qed

theorem external_without_identity_witness:
  "\<exists>a. server_perform hex_ref (fd_recvmsg chunk_sys) (fd_sendmsg chunk_write) True
     (server_new (command_lines hex_ref True [Auth (Some External) None, Data None, Begin], [], [2]) ([], [], []) sample_guid None
       External None) = Some (Ok a)"
  using external_without_identity [OF hs.handshake_side_axioms,
      of "(command_lines hex_ref True [Auth (Some External) None, Data None, Begin], [], [2])" "[]" True "([], [], [])" sample_guid None]
  by simp

text \<open>A line feed at the start of the input makes the server panic: it looks at the byte before it.\<close>

theorem leading_line_feed_panics:
  assumes "duplex recv stream stream_fds send sent sent_fds fds_ok" "stream s = byte_of 10 # x"
  shows "server_perform H recv send can_pass (server_new s w g uid mech name) = Some Panic"
proof -
  let ?sv = "server_new s w g uid mech name"
  have "sv_step ?sv \<noteq> Done" by (simp add: server_new_def)
  from duplex.next_step_reacts [OF assms(1) this, of H can_pass]
  have "next_step H recv send can_pass ?sv = Some Panic"
    using assms(2) by (simp add: server_new_def common_new_def left_def next_line_def)
  then show ?thesis by (simp add: server_perform_def server_loop.simps [of H recv send can_pass ?sv])
qed

end
