(* ===== verification/Connection_Props.thy ===== *)
theory Connection_Props
  imports Connection Handshake_Props
begin

text \<open>
  Calls and their replies: which message ends a call, what becomes of a call whose reply arrives through the socket
  reader, and that an error of the D-Bus specification is the same at both ends.
\<close>

section \<open>The reply of a call\<close>

definition answers :: "nom \<Rightarrow> endi \<Rightarrow> (byte \<Rightarrow> byte option) \<Rightarrow> nat \<Rightarrow> u32 \<Rightarrow> message \<Rightarrow> bool" where
  "answers N E B n serial m \<longleftrightarrow>
     (\<exists>h. message_header N E B n m = Some (Ok h) \<and> reply_serial (header_fields h) = Some serial) \<and>
     msg_type (msg_primary m) \<in> {MethodReturn, ErrorType}"

lemma poll_skips:
  assumes "\<And>m. m \<in> set ms \<Longrightarrow> (\<exists>h. message_header N E B n m = Some (Ok h)) \<and> \<not> answers N E B n serial m"
  shows "poll_reply N E B n serial closed (map Ok ms @ its) = poll_reply N E B n serial closed its"
  using assms
proof (induction ms)
  case (Cons m ms)
  obtain h where h: "message_header N E B n m = Some (Ok h)" "\<not> answers N E B n serial m" using Cons.prems by auto
  then have "poll_reply N E B n serial closed (Ok m # its') = poll_reply N E B n serial closed its'" for its'
    by (cases "msg_type (msg_primary m)") (auto simp: answers_def)
  with Cons show ?case by simp
qed simp

text \<open>A call ends with the first message in its queue that is a return or an error for its serial, whatever
  other messages, for instance the replies of other calls, come before; what follows stays in the queue. As long as there is no
  such message, the call is pending, and it fails if the queue is closed.\<close>

lemma call_takes_first_answer:
  assumes "\<And>m. m \<in> set ms \<Longrightarrow> (\<exists>h. message_header N E B n m = Some (Ok h)) \<and> \<not> answers N E B n serial m"
  shows "poll_reply N E B n serial closed (map Ok ms) = Some (Ok (if closed then Some (Err IoError) else None, []))"
    "answers N E B n serial m \<Longrightarrow>
      poll_reply N E B n serial closed (map Ok ms @ Ok m # its) =
        (if msg_type (msg_primary m) = MethodReturn then Some (Ok (Some (Ok m), its))
         else obind (error_of_message N E B n m) (\<lambda>e. Some (Ok (Some (Err e), its))))"
  using poll_skips [where ms = ms and its = "[]", OF assms, of closed]
    poll_skips [where ms = ms and its = "Ok m # its", OF assms, of closed]
  by (auto simp: answers_def)

lemma selects_return: "selects (Some return_rule) (h, fs) \<longleftrightarrow> msg_type (primary h) = MethodReturn"
  by (auto simp: selects_def return_rule_def rule_msg_type_def rule_new_def header_matches_def)

lemma arrives_answers:
  assumes "arrives N E B n seq (h, fs) m"
  shows "\<exists>h. message_header N E B n m = Some (Ok h)"
    "answers N E B n serial m \<longleftrightarrow> reply_serial (header_fields h) = Some serial \<and> msg_type (primary h) \<in> {MethodReturn, ErrorType}"
proof -
  have p: "msg_primary m = (primary h)\<lparr>body_len := body_len (msg_primary m)\<rparr>" using assms by (simp add: arrives_def Let_def)
  have "msg_type (msg_primary m) = msg_type (primary h)" by (subst p) simp
  with assms show "\<exists>h. message_header N E B n m = Some (Ok h)"
    "answers N E B n serial m \<longleftrightarrow> reply_serial (header_fields h) = Some serial \<and> msg_type (primary h) \<in> {MethodReturn, ErrorType}"
    by (auto simp: arrives_def answers_def Let_def)
qed

lemma foldl_snoc: "foldl (\<lambda>q x. q @ [x]) q xs = q @ xs"
  by (induction xs arbitrary: q) simp_all

text \<open>The queue for returns after some messages arrived, up to the one at \<open>i\<close>.\<close>

lemma return_queue:
  assumes "length ms = length hvs" "i < length hvs" "selects rule (hvs ! i)"
  shows "map (\<lambda>(_, m). Ok m) (filter (\<lambda>(hv, _). selects rule hv) (zip hvs ms)) =
    map Ok (map snd (filter (\<lambda>(hv, _). selects rule hv) (zip (take i hvs) (take i ms)))) @ Ok (ms ! i) #
    map (\<lambda>(_, m). Ok m) (filter (\<lambda>(hv, _). selects rule hv) (zip (drop (Suc i) hvs) (drop (Suc i) ms)))"
proof -
  have "zip hvs ms = zip (take i hvs @ hvs ! i # drop (Suc i) hvs) (take i ms @ ms ! i # drop (Suc i) ms)"
    using assms(1,2) by (simp add: id_take_nth_drop [symmetric])
  also have "\<dots> = zip (take i hvs) (take i ms) @ (hvs ! i, ms ! i) # zip (drop (Suc i) hvs) (drop (Suc i) ms)"
    using assms(1,2) by (simp add: zip_append)
  finally show ?thesis using assms(3) by (simp add: split_beta comp_def)
qed

text \<open>C12: A call completes: among the messages that the peer sends is a return for the serial of the call, the first one. The
  messages arrive in chunks of any size, between others; the socket reader puts the returns into the queue for them,
  and the pending call takes from it the message that was sent, with its header and body, and leaves the messages that follow.\<close>
theorem call_completes:
  assumes "nom_laws N" "endi_laws E" "\<And>b. code b < 8 \<Longrightarrow> B b = Some b" "10 \<le> n"
    and "read_half recv stream stream_fds" "stream_fds s = []"
    and "list_all2 (built N E D n) hvs ms" "buf @ stream s = concat (map (\<lambda>m. data_bytes (msg_bytes m)) ms)"
    and "i < length hvs" "hvs ! i = (h, fs)" "msg_type (primary h) = MethodReturn" "reply_serial (header_fields h) = Some serial"
    and "\<And>j h' fs'. j < i \<Longrightarrow> hvs ! j = (h', fs') \<Longrightarrow> reply_serial (header_fields h') \<noteq> Some serial"
  shows "\<exists>q m its. receive_msg N E B n recv (\<lambda>q x. q @ [x]) (reader_new s buf []) [(Some return_rule, [])] = Some (Ok [(Some return_rule, q)]) \<and>
    poll_reply N E B n serial closed q = Some (Ok (Some (Ok m), its)) \<and> arrives N E B n (1 + word_of_nat i) (h, fs) m"
proof -
  let ?sel = "\<lambda>(hv, _). selects (Some return_rule) hv"
  have ns: "pred_option (\<lambda>r. r_arg0ns r = None) rule" if "rule \<in> fst ` set [(Some return_rule, [])]" for rule
    using that by (simp add: return_rule_def rule_msg_type_def rule_new_def)
  obtain ms' where ms': "length ms' = length hvs" "\<forall>i < length hvs. arrives N E B n (1 + word_of_nat i) (hvs ! i) (ms' ! i)"
      "receive_msg N E B n recv (\<lambda>q x. q @ [x]) (reader_new s buf []) [(Some return_rule, [])] =
        Some (Ok [(Some return_rule, map (\<lambda>(_, m). Ok m) (filter ?sel (zip hvs ms')) @ [Err IoError])])"
    using read_half.reader_delivers [where B = B and rd = "reader_new s buf []" and bc = "\<lambda>q x. q @ [x]" and ss = "[(Some return_rule, [])]",
        OF assms(5) wire_laws.intro [OF assms(1,2)] _ assms(4) _ assms(7)] assms(3,6,8) ns
    by (auto simp: reader_new_def foldl_snoc)
  let ?pre = "map snd (filter ?sel (zip (take i hvs) (take i ms')))"
  have "(\<exists>h. message_header N E B n m = Some (Ok h)) \<and> \<not> answers N E B n serial m" if "m \<in> set ?pre" for m
  proof -
    have "m \<in> set (take i ms')" using that by (auto dest: set_zip_rightD)
    then obtain j where j: "j < i" "m = ms' ! j" by (auto simp: in_set_conv_nth)
    obtain h' fs' where hv: "hvs ! j = (h', fs')" by (cases "hvs ! j")
    have "arrives N E B n (1 + word_of_nat j) (h', fs') m" using ms'(2) [rule_format, of j] j assms(9) hv by simp
    from arrives_answers [OF this] assms(13) [OF j(1) hv] show ?thesis by blast
  qed
  then have first: "answers N E B n serial m \<Longrightarrow> poll_reply N E B n serial closed (map Ok ?pre @ Ok m # its) =
      (if msg_type (msg_primary m) = MethodReturn then Some (Ok (Some (Ok m), its))
       else obind (error_of_message N E B n m) (\<lambda>e. Some (Ok (Some (Err e), its))))" for m its
    by (rule call_takes_first_answer(2))
  have a: "arrives N E B n (1 + word_of_nat i) (h, fs) (ms' ! i)" using ms'(2) assms(9,10) by auto
  have ans: "answers N E B n serial (ms' ! i)" using arrives_answers(2) [OF a] assms(11,12) by simp
  have ret: "msg_type (msg_primary (ms' ! i)) = MethodReturn"
    using a assms(11) by (auto simp: arrives_def Let_def) (metis primary_header.select_convs(2) primary_header.surjective primary_header.update_convs(5))
  have r: "poll_reply N E B n serial closed (map Ok ?pre @ Ok (ms' ! i) # its) = Some (Ok (Some (Ok (ms' ! i)), its))" for its
    unfolding first [OF ans] by (simp add: ret)
  have "selects (Some return_rule) (hvs ! i)" using selects_return assms(10,11) by simp
  note q = return_queue [OF ms'(1) assms(9) this]
  show ?thesis using ms'(3) a unfolding q append.assoc append_Cons by (blast intro: r)
qed

definition sample_return :: header where
  "sample_return = \<lparr>primary = \<lparr>endian_sig = LittleSig, msg_type = MethodReturn, flags = byte_of 0,
     protocol_version = byte_of 1, body_len = 0, serial_num = 3\<rparr>,
     header_fields = no_fields\<lparr>reply_serial := Some 1\<rparr>\<rparr>"

lemma sample_return_built: "\<exists>m. built nom_ref endi_ref (\<lambda>_. Some) 20 (sample_return, [U32 7]) m"
proof -
  have h: "header_ok sample_header" using builder_ok [OF sample_builder] by simp
  obtain h0 where h0: "builder_new LittleSig MethodReturn 3 = Ok (h0, 4)" "reply_to sample_header h0 = sample_return"
    by (simp add: builder_new_def primary_new_def next_serial_def reply_to_def set_fields_def set_endian_def sample_header_def sample_return_def
        no_fields_def endian_of_sig_def endian_sig_of_def)
  then have b: "builder sample_return" using builder.reply_to [OF builder.new [OF h0(1)] h] by simp
  have "\<exists>m. build nom_ref endi_ref (\<lambda>_. Some) (value_signature sample_body) (serialize_inner nom_ref endi_ref (\<lambda>_. Some) sample_body) sample_return = Ok m"
    using sample_body_facts
    by (intro wr.build_total [OF b, of sample_body "map byte_of [7, 0, 0, 0]" 255])
      (simp_all add: sample_return_def no_fields_def MAX_MESSAGE_SIZE_def endian_of_sig_def)
  then show ?thesis
    using b sample_body_facts(1-3,5,7-9) by (auto simp: built_def sample_body_def Let_def)
qed

theorem call_completes_witness:
  "\<exists>bs q m its. receive_msg nom_ref endi_ref from_bits 20 (fd_recvmsg chunk_sys) (\<lambda>q x. q @ [x]) (reader_new (bs, [], [3, 0]) [] [])
      [(Some return_rule, [])] = Some (Ok [(Some return_rule, q)]) \<and>
    poll_reply nom_ref endi_ref from_bits 20 1 False q = Some (Ok (Some (Ok m), its)) \<and>
    body_deserialize nom_ref endi_ref from_bits 20 m = Some (Ok sample_body)"
proof -
  obtain m where m: "built nom_ref endi_ref (\<lambda>_. Some) 20 (sample_return, [U32 7]) m" using sample_return_built by blast
  obtain m0 where m0: "built nom_ref endi_ref (\<lambda>_. Some) 20 (sample_header, [U32 7]) m0" using sample_item_built by blast
  let ?hvs = "[(sample_header, [U32 7]), (sample_return, [U32 7])]"
  let ?s = "(concat (map (\<lambda>m. data_bytes (msg_bytes m)) [m0, m]), [], [3, 0])"
  have bits: "code b < 8 \<Longrightarrow> from_bits b = Some b" for b by (simp add: from_bits_def)
  have st: "(\<lambda>(_, fs, _). fs) ?s = []" "list_all2 (built nom_ref endi_ref (\<lambda>_. Some) 20) ?hvs [m0, m]"
    "[] @ fst ?s = concat (map (\<lambda>m. data_bytes (msg_bytes m)) [m0, m])" "(10 :: nat) \<le> 20" "1 < length ?hvs"
    "?hvs ! 1 = (sample_return, [U32 7])" "msg_type (primary sample_return) = MethodReturn"
    "reply_serial (header_fields sample_return) = Some 1"
    using m m0 by (simp_all add: sample_return_def)
  have pre: "reply_serial (header_fields h') \<noteq> Some 1" if "j < 1" "?hvs ! j = (h', fs')" for j h' fs'
    using that by (auto simp: sample_header_def no_fields_def)
  obtain q m' its where "receive_msg nom_ref endi_ref from_bits 20 (fd_recvmsg chunk_sys) (\<lambda>q x. q @ [x]) (reader_new ?s [] [])
      [(Some return_rule, [])] = Some (Ok [(Some return_rule, q)])"
    "poll_reply nom_ref endi_ref from_bits 20 1 False q = Some (Ok (Some (Ok m'), its))"
    "arrives nom_ref endi_ref from_bits 20 (1 + word_of_nat 1) (sample_return, [U32 7]) m'"
    using call_completes [where i = 1 and closed = False and hvs = ?hvs and B = from_bits,
        OF nr.nom_laws_axioms er.endi_laws_axioms _ st(4) cr.unix.read_half_axioms st(1-3,5-8)] bits pre
    by blast
  then show ?thesis by (auto simp: arrives_def sample_body_def Let_def)
qed

section \<open>Standard errors\<close>

lemma find_distinct: "distinct (map f xs) \<Longrightarrow> k \<in> set xs \<Longrightarrow> find (\<lambda>x. f x = f k) xs = Some k"
  by (induction xs) auto

lemma fdo_suffix_distinct: "distinct (map fdo_suffix fdo_kinds)"
  by code_simp

lemma fdo_kinds_all: "k \<in> set fdo_kinds"
  by (cases k) (simp_all add: fdo_kinds_def)

lemma fdo_of_error_name: "fdo_of_error (MethodError (fdo_name (Fdo k x)) desc) = Fdo k (case desc of Some d \<Rightarrow> d | None \<Rightarrow> [])"
  using find_distinct [OF fdo_suffix_distinct fdo_kinds_all, of k] by (simp add: fdo_of_error_def fdo_name_def)

lemma error_reply_ok:
  assumes "error_reply ne serial call name = Ok (h, k)" "header_ok call"
  shows "builder h" "msg_type (primary h) = ErrorType" "error_name (header_fields h) = Some name"
    "reply_serial (header_fields h) = Some (serial_num (primary call))"
proof -
  obtain h0 where h0: "builder_new ne ErrorType serial = Ok (h0, k)" "set_error_name name (reply_to call h0) = Ok h"
    using assms(1) by (auto simp: error_reply_def bind_res_eq_Ok)
  show "builder h" by (rule builder.error_name [OF builder.reply_to [OF builder.new [OF h0(1)] assms(2)] h0(2)])
  show "msg_type (primary h) = ErrorType" "error_name (header_fields h) = Some name"
    "reply_serial (header_fields h) = Some (serial_num (primary call))"
    using h0 by (auto simp: builder_new_def primary_new_def set_error_name_def set_fields_def reply_to_def set_endian_def
        bind_res_eq_Ok Let_def split: prod.splits option.splits if_splits)
qed

context wire_laws
begin

lemma read_string_data:
  assumes "enc E (c_endian (data_context dat)) no_depths (Str x) (c_position (data_context dat)) = Ok (data_bytes dat)"
    "valid_utf8 x" "byte_of 0 \<notin> set x"
  shows "deserialize_for_signature signature.Str (deserialize_str E) dat = Some (Ok (x, length (data_bytes dat)))"
proof -
  have "reads_as (deserialize_str E) signature.Str no_depths (\<lambda>e. enc E e no_depths (Str x)) x"
    by (rule reads_asI) (use assms(2,3) in \<open>auto intro: read_str\<close>)
  from deserialize_reads_as [OF this assms(1), of "[]"] show ?thesis by simp
qed

lemma error_reply_parsed:
  assumes "\<And>b. code b < 8 \<Longrightarrow> B b = Some b" "10 \<le> n" "header_ok call"
    "create_reply N E D ne shown serial call e = Ok (m, k)" "valid_utf8 (fdo_argument shown e)" "byte_of 0 \<notin> set (fdo_argument shown e)"
  obtains m' where "from_raw_parts N E B n (msg_bytes m) seq = Some (Ok m')" "answers N E B n (serial_num (primary call)) m'"
    "msg_type (msg_primary m') = ErrorType"
    "error_of_message N E B n m' = Some (Ok (MethodError (fdo_name e) (Some (fdo_argument shown e))))"
    "data_bytes (msg_bytes m) \<noteq> []" "data_fds (msg_bytes m) = []"
proof -
  let ?v = "Str (fdo_argument shown e)"
  obtain h where h: "error_reply ne serial call (fdo_name e) = Ok (h, k)" "build N E D signature.Str (serialize_inner N E D ?v) h = Ok m"
    using assms(4) by (auto simp: create_reply_def bind_res_eq_Ok)
  note ok = error_reply_ok [OF h(1) assms(3)]
  note bo = builder_ok [OF ok(1), THEN conjunct1] builder_ok [OF ok(1), THEN conjunct2]
  have v: "value_ok ?v" "plain ?v" "value_signature ?v = signature.Str" "sig_wf signature.Str" by simp_all
  obtain m' hd dat where m': "from_raw_parts N E B n (msg_bytes m) seq = Some (Ok m')" "msg_primary m' = msg_primary m"
    "msg_bytes m' = msg_bytes m" "message_header N E B n m' = Some (Ok hd)"
    "hd = h\<lparr>primary := msg_primary m, header_fields := (header_fields h)\<lparr>body_signature := wire_signature signature.Str\<rparr>\<rparr>"
    "msg_primary m = (primary h)\<lparr>body_len := body_len (msg_primary m)\<rparr>"
    "data_slice_from (msg_bytes m) (msg_body_offset m') = Ok dat"
    "enc E (c_endian (data_context dat)) no_depths ?v (c_position (data_context dat)) = Ok (data_bytes dat)"
    by (rule built_parsed [where B = B, OF bo _ assms(2) v h(2), of seq]) (use assms(1) in blast)
  have t: "msg_type (msg_primary m) = ErrorType" by (subst m'(6)) (simp add: ok(2))
  have "answers N E B n (serial_num (primary call)) m'"
    using m'(2,4,5) ok(4) t by (simp add: answers_def)
  moreover have "error_of_message N E B n m' = Some (Ok (MethodError (fdo_name e) (Some (fdo_argument shown e))))"
    using m'(3,4,5,7) t ok(3) read_string_data [OF m'(8) assms(5,6)] by (simp add: error_of_message_def message_body_def)
  moreover have "data_bytes (msg_bytes m) \<noteq> [] \<and> data_fds (msg_bytes m) = []"
  proof -
    have "writes (serialize_inner N E D ?v) signature.Str no_depths (\<lambda>e. enc E e no_depths ?v)"
      using refines_writes [OF plain_refines [OF v(1,2)]] by simp
    from build_Ok [OF this bo(2) h(2)] obtain body hb where "enc E (header_endian h) no_depths ?v 0 = Ok body"
      "m = \<lparr>msg_primary = primary (built_header signature.Str (length body) h), msg_quick_fields = None,
        msg_bytes = new_fds (hb @ pad (length hb) 8 @ body) (header_ctxt h) [],
        msg_body_offset = length hb + padding (length hb) 8, msg_recv_seq = 0\<rparr>" by blast
    then show ?thesis
      by (cases "usize_to_u32 (length (fdo_argument shown e)) :: (zerror, u32) res") (auto simp: enc_str_def)
  qed
  ultimately show thesis using that m'(1,2) t by simp
qed

end

lemma fdo_suffix_valid:
  "element_loop InvalidErrorName name_char (Some (CHR ''.'')) False (fdo_suffix k) = Ok False" "length (fdo_suffix k) \<le> 100"
proof -
  have "list_all (\<lambda>k. element_loop InvalidErrorName name_char (Some (CHR ''.'')) False (fdo_suffix k) = Ok False) fdo_kinds"
    by code_simp
  with fdo_kinds_all [of k] show "element_loop InvalidErrorName name_char (Some (CHR ''.'')) False (fdo_suffix k) = Ok False"
    by (simp add: list_all_iff)
  show "length (fdo_suffix k) \<le> 100" by (cases k) (simp_all add: fdo_suffix_def)
qed

lemma fdo_name_valid: "ensure_correct_error_name (fdo_name (Fdo k desc)) = Ok ()"
proof -
  have "element_loop InvalidErrorName name_char None True (fdo_prefix @ ''.'' @ s) =
      element_loop InvalidErrorName name_char (Some (CHR ''.'')) False s" for s
    by code_simp
  with fdo_suffix_valid [of k] show ?thesis by (simp add: ensure_correct_error_name_def fdo_name_def fdo_prefix_def)
qed

lemma error_reply_total:
  assumes "ensure_correct_error_name name = Ok ()"
  obtains h serial' where "error_reply ne serial call name = Ok (h, serial')"
proof -
  obtain h0 k where "builder_new ne ErrorType serial = Ok (h0, k)"
    using next_serial_nonzero [of serial] by (cases "next_serial serial") (auto simp: builder_new_def primary_new_def)
  then show thesis
    using that assms by (auto simp: error_reply_def set_error_name_def names_check_def)
qed

lemma fdo_error_arrives:
  assumes "nom_laws N" "endi_laws E" "\<And>b. code b < 8 \<Longrightarrow> B b = Some b" "10 \<le> n" "header_ok call"
    and "valid_utf8 desc" "byte_of 0 \<notin> set desc" "length desc + 3000 \<le> MAX_MESSAGE_SIZE"
  shows "\<exists>m serial' m' e. create_reply N E D ne shown serial call (Fdo k desc) = Ok (m, serial') \<and>
    from_raw_parts N E B n (msg_bytes m) seq = Some (Ok m') \<and>
    poll_reply N E B n (serial_num (primary call)) closed (Ok m' # its) = Some (Ok (Some (Err e), its)) \<and> fdo_of_error e = Fdo k desc \<and>
    data_bytes (msg_bytes m) \<noteq> [] \<and> data_fds (msg_bytes m) = [] \<and> serial' = snd (next_serial serial)"
proof -
  note wl = wire_laws.intro [OF assms(1,2)]
  have a: "fdo_argument shown (Fdo k desc) = desc" by (simp add: fdo_argument_def)
  obtain h serial' where h: "error_reply ne serial call (fdo_name (Fdo k desc)) = Ok (h, serial')"
    by (rule error_reply_total [OF fdo_name_valid])
  note ok = error_reply_ok [OF h assms(5)]
  have p: "path (header_fields h) = None"
    using h by (auto simp: error_reply_def builder_new_def primary_new_def set_error_name_def set_fields_def reply_to_def set_endian_def
        bind_res_eq_Ok Let_def no_fields_def split: prod.splits option.splits if_splits)
  have "length desc < 2 ^ 32" using assms(8) by (simp add: MAX_MESSAGE_SIZE_def)
  then obtain l :: u32 where "usize_to_u32 (length desc) = (Ok l :: (zerror, u32) res)" by (auto simp: usize_to_u32_def)
  then have "enc E (header_endian h) no_depths (Str desc) 0 = Ok (write_u32 E (header_endian h) l @ desc @ [byte_of 0])"
    by (simp add: enc_str_def pad_def padding_numeral)
  from wire_laws.build_total [OF wl ok(1) _ _ this, of 255 D] p assms(8)
  obtain m where m: "build N E D signature.Str (serialize_inner N E D (Str desc)) h = Ok m"
    using endi_laws.write_u32_length [OF assms(2)] by (auto simp: MAX_MESSAGE_SIZE_def to_string_no_parens_def)
  then have cr: "create_reply N E D ne shown serial call (Fdo k desc) = Ok (m, serial')"
    using h a by (simp add: create_reply_def)
  obtain m' where m': "from_raw_parts N E B n (msg_bytes m) seq = Some (Ok m')" "answers N E B n (serial_num (primary call)) m'"
      "msg_type (msg_primary m') = ErrorType" "error_of_message N E B n m' = Some (Ok (MethodError (fdo_name (Fdo k desc)) (Some desc)))"
      "data_bytes (msg_bytes m) \<noteq> []" "data_fds (msg_bytes m) = []"
    by (rule wire_laws.error_reply_parsed [where B = B and e = "Fdo k desc" and shown = shown, unfolded a, OF wl _ assms(4,5) cr assms(6,7)])
      (use assms(3) in blast)
  then have "poll_reply N E B n (serial_num (primary call)) closed (Ok m' # its) =
      Some (Ok (Some (Err (MethodError (fdo_name (Fdo k desc)) (Some desc))), its))"
    by (auto simp: answers_def)
  moreover have "serial' = snd (next_serial serial)"
    using h by (auto simp: error_reply_def builder_new_def primary_new_def bind_res_eq_Ok split: prod.splits if_splits)
  ultimately show ?thesis using cr m'(1,5,6) fdo_of_error_name [of k desc "Some desc"] by auto
qed

text \<open>C21: An error of the D-Bus specification that a service replies with arrives as that error: for every error and every
  call a reply can be made, unless the description makes it too long; it is parsed by the caller, ends the call it was made
  for, and is converted to the same error with the same description.\<close>
theorem fdo_error_roundtrip:
  assumes "nom_laws N" "endi_laws E" "\<And>b. code b < 8 \<Longrightarrow> B b = Some b" "10 \<le> n" "header_ok call"
    and "valid_utf8 desc" "byte_of 0 \<notin> set desc" "length desc + 3000 \<le> MAX_MESSAGE_SIZE"
  shows "\<exists>m serial' m' e. create_reply N E D ne shown serial call (Fdo k desc) = Ok (m, serial') \<and>
    from_raw_parts N E B n (msg_bytes m) seq = Some (Ok m') \<and>
    poll_reply N E B n (serial_num (primary call)) closed (Ok m' # its) = Some (Ok (Some (Err e), its)) \<and> fdo_of_error e = Fdo k desc"
  using fdo_error_arrives [OF assms, of D ne shown serial k seq closed its] by blast

theorem fdo_error_roundtrip_witness:
  "\<exists>m serial' m' e. create_reply nom_ref endi_ref (\<lambda>_. Some) LittleSig (\<lambda>_. []) 4 sample_header (Fdo UnknownMethod ''Hi'') = Ok (m, serial') \<and>
    from_raw_parts nom_ref endi_ref from_bits 20 (msg_bytes m) 9 = Some (Ok m') \<and>
    poll_reply nom_ref endi_ref from_bits 20 1 False [Ok m'] = Some (Ok (Some (Err e), [])) \<and> fdo_of_error e = Fdo UnknownMethod ''Hi''"
proof -
  have bits: "code b < 8 \<Longrightarrow> from_bits b = Some b" for b by (simp add: from_bits_def)
  have h: "header_ok sample_header" using builder_ok [OF sample_builder] by simp
  have d: "valid_utf8 ''Hi''" "byte_of 0 \<notin> set ''Hi''" "length ''Hi'' + 3000 \<le> MAX_MESSAGE_SIZE" "(10 :: nat) \<le> 20"
    "serial_num (primary sample_header) = 1"
    by (code_simp, simp_all add: MAX_MESSAGE_SIZE_def sample_header_def byte_of_eq)
  show ?thesis
    using fdo_error_roundtrip [OF nr.nom_laws_axioms er.endi_laws_axioms bits d(4) h d(1-3),
        of "\<lambda>_. Some" LittleSig "\<lambda>_. []" 4 UnknownMethod 9 False "[]"] unfolding d(5) .
qed

end
