(* ===== verification/Object_Server_Props.thy ===== *)
theory Object_Server_Props
  imports Object_Server Connection_Props
begin

text \<open>
  The object server as a registry of interfaces: what is found after an interface was added or removed, and the answers
  to calls.
\<close>

section \<open>The tree after an interface was added or removed\<close>

lemma add_arc_interface_ok: "node_ok es nd \<Longrightarrow> node_ok es (snd (add_arc_interface name arc nd))"
  by (cases nd) (simp add: add_arc_interface_def distinct_update)

lemma remove_interface_ok: "node_ok es nd \<Longrightarrow> node_ok es (snd (remove_interface name nd))"
  by (cases nd) (simp add: remove_interface_def distinct_delete)

lemma set_delete: "x \<in> set (AList.delete k xs) \<Longrightarrow> x \<in> set xs"
  by (auto simp: AList.delete_eq)

lemma remove_node_ok: "node_ok es nd \<Longrightarrow> node_ok es (snd (remove_node i nd))"
  by (cases nd) (fastforce simp: remove_node_def list_all_iff distinct_delete dest: set_delete)

lemma iface_at_children: "children nd = children nd' \<Longrightarrow> i \<noteq> [] \<Longrightarrow> iface_at nd (i # es) = iface_at nd' (i # es)"
  by (simp add: iface_at_def fun_eq_iff)

lemma iface_at_split:
  assumes "path_elements_ok (es @ fs)" "child_at nd es = Some ch"
  shows "iface_at nd (es @ fs) = iface_at ch fs"
  using assms
proof (induction es arbitrary: nd)
  case (Cons e es)
  then obtain c where "map_of (children nd) e = Some c" "child_at c es = Some ch" by (auto split: option.splits)
  with Cons show ?case by simp
qed simp

lemma child_at_split:
  assumes "path_elements_ok (es @ fs)" "child_at nd (es @ fs) = Some ch"
  obtains c where "child_at nd es = Some c" "child_at c fs = Some ch"
  using assms
proof (induction es arbitrary: nd thesis)
  case (Cons e es)
  then obtain c where c: "map_of (children nd) e = Some c" "child_at c (es @ fs) = Some ch" by (auto split: option.splits)
  show thesis
    by (rule Cons.IH [OF _ _ c(2)]) (use Cons.prems c in auto)
qed simp

lemma child_or_new_present: "child_at nd es = Some ch \<Longrightarrow> child_or_new base nd es = ch"
  by (simp add: child_or_new_def)

text \<open>A node that is missing has no interface of its own, and nothing below it.\<close>

lemma iface_at_missing: "child_at nd es = None \<Longrightarrow> iface_at nd es = (\<lambda>_. None)"
  by (simp add: iface_at_def fun_eq_iff)

lemma iface_at_below_missing:
  assumes "child_at nd es = None" "prefix es qs" "path_elements_ok qs"
  shows "iface_at nd qs = (\<lambda>_. None)"
proof -
  obtain fs where qs: "qs = es @ fs" using assms(2) by (auto simp: prefix_def)
  have "child_at nd qs = None"
  proof (rule ccontr)
    assume "child_at nd qs \<noteq> None"
    then obtain ch where "child_at nd (es @ fs) = Some ch" using qs by blast
    from child_at_split [OF _ this] assms(1,3) qs show False by fastforce
  qed
  then show ?thesis by (rule iface_at_missing)
qed

lemma iface_at_or_new:
  assumes "path_elements_ok es" "path_elements_ok fs" "fs \<noteq> []"
  shows "iface_at (child_or_new [] nd es) fs = iface_at nd (es @ fs)"
proof (cases "child_at nd es")
  case None
  then show ?thesis
    using iface_at_below_missing [OF None, of "es @ fs"] iface_at_fresh [OF assms(2)] assms by (simp add: child_or_new_def)
next
  case (Some ch)
  then show ?thesis using iface_at_split [of es fs nd ch] assms by (simp add: child_or_new_def)
qed

lemma iface_at_or_new_Nil:
  "name \<notin> set standard_names \<Longrightarrow> map_of (interfaces (child_or_new [] nd es)) name = iface_at nd es name"
  by (auto simp: child_or_new_def iface_at_def standard_only split: option.splits)

lemma tree_add:
  assumes "node_ok [] root" "path_elements_ok es" "name \<notin> set standard_names"
  obtains nd root' where
    "get_child_mut (\<lambda>nd. case add_arc_interface name arc nd of (added, nd) \<Rightarrow> ((added, nd), nd)) True root (path_of es) =
      (Ok ((Some (iface_at root es name = None, nd), closest_manager [] root es None), root') :: ('e, _) res)"
    "node_ok [] root'" "interface_lock nd name \<noteq> None"
    "\<And>qs m. path_elements_ok qs \<Longrightarrow> m \<notin> set standard_names \<Longrightarrow>
      iface_at root' qs m = (if qs = es \<and> m = name \<and> iface_at root es name = None then Some arc else iface_at root qs m)"
    "\<And>qs m arc'. path_elements_ok qs \<Longrightarrow> m \<in> set standard_names \<Longrightarrow> iface_at root' qs m = Some arc' \<Longrightarrow>
      iface_at root qs m = Some arc' \<or> map_of standard m = Some arc'"
proof -
  let ?f = "\<lambda>nd. case add_arc_interface name arc nd of (added, nd) \<Rightarrow> ((added, nd), nd)"
  let ?nd = "child_or_new [] root es"
  have snd_f: "snd (?f nd) = snd (add_arc_interface name arc nd)" for nd by (simp split: prod.splits)
  have ok: "node_ok ([] @ es) ch \<Longrightarrow> node_ok ([] @ es) (snd (?f ch))" for ch
    unfolding snd_f by (rule add_arc_interface_ok)
  obtain root' where root': "child_mut ?f True [] None root es =
      (Ok ((Some (fst (?f ?nd)), closest_manager [] root es None), root') :: ('e, _) res)" "node_ok [] root'"
    "\<And>qs. path_elements_ok qs \<Longrightarrow> iface_at root' qs =
      (if prefix es qs then iface_at (snd (?f ?nd)) (drop (length es) qs)
       else if prefix qs es \<and> child_at root qs = None then map_of standard else iface_at root qs)"
    using child_mut_create [where f = ?f and mgr = None, OF assms(1,2) path_elements_ok_simps(1) ok] by auto
  have none: "map_of (interfaces ?nd) name = iface_at root es name" using iface_at_or_new_Nil [OF assms(3)] .
  have added: "fst (?f ?nd) = (iface_at root es name = None, snd (add_arc_interface name arc ?nd))"
    using none by (auto simp: add_arc_interface_def)
  have iface: "iface_at (snd (?f ?nd)) fs m =
      (if fs = [] then (if m = name \<and> iface_at root es name = None then Some arc else map_of (interfaces ?nd) m)
       else iface_at root (es @ fs) m)" if "path_elements_ok fs" for fs m
  proof (cases fs)
    case Nil
    then show ?thesis using none unfolding snd_f by (auto simp: add_arc_interface_def update_conv')
  next
    case (Cons i is')
    then have "iface_at (snd (?f ?nd)) fs = iface_at ?nd fs"
      unfolding snd_f using that by (auto simp: add_arc_interface_def intro!: iface_at_children)
    then show ?thesis using Cons iface_at_or_new [OF assms(2) that] by simp
  qed
  show thesis
  proof (rule that)
    show "get_child_mut ?f True root (path_of es) =
      (Ok ((Some (iface_at root es name = None, snd (add_arc_interface name arc ?nd)), closest_manager [] root es None), root') :: ('e, _) res)"
      using root'(1) added assms(2) by simp
    show "interface_lock (snd (add_arc_interface name arc ?nd)) name \<noteq> None"
      by (auto simp: interface_lock_def add_arc_interface_def update_conv')
    show "node_ok [] root'" by (fact root'(2))
  next
    fix qs m assume qs: "path_elements_ok qs" "m \<notin> set standard_names"
    show "iface_at root' qs m = (if qs = es \<and> m = name \<and> iface_at root es name = None then Some arc else iface_at root qs m)"
    proof (cases "prefix es qs")
      case True
      then obtain fs where fs: "qs = es @ fs" by (auto simp: prefix_def)
      then show ?thesis using root'(3) [OF qs(1)] iface [of fs m] qs iface_at_or_new_Nil [OF qs(2)] by (simp add: fs)
    next
      case False
      then show ?thesis using root'(3) [OF qs(1)] standard_only [OF qs(2)] iface_at_missing [of root qs] by auto
    qed
  next
    fix qs m arc' assume qs: "path_elements_ok qs" "m \<in> set standard_names" "iface_at root' qs m = Some arc'"
    show "iface_at root qs m = Some arc' \<or> map_of standard m = Some arc'"
    proof (cases "prefix es qs")
      case True
      then obtain fs where fs: "qs = es @ fs" by (auto simp: prefix_def)
      have "m \<noteq> name" using qs(2) assms(3) by blast
      then show ?thesis
        using root'(3) [OF qs(1)] iface [of fs m] qs fs
        by (auto simp: child_or_new_def iface_at_def split: if_splits option.splits)
    next
      case False
      then show ?thesis using root'(3) [OF qs(1)] qs(3) by (auto split: if_splits)
    qed
  qed
qed

lemma tree_remove:
  assumes "node_ok [] root" "path_elements_ok es" "name \<notin> set standard_names" "child_at root es \<noteq> None"
  obtains root' where
    "get_child_mut (\<lambda>nd. case remove_interface name nd of (removed, nd) \<Rightarrow> ((removed, node_is_empty nd), nd)) False root (path_of es) =
      (Ok ((Some (iface_at root es name \<noteq> None, \<forall>m. m \<notin> set standard_names \<longrightarrow> m \<noteq> name \<longrightarrow> iface_at root es m = None),
        closest_manager [] root es None), root') :: ('e, _) res)"
    "node_ok [] root'" "\<And>qs. prefix qs es \<Longrightarrow> child_at root' qs \<noteq> None"
    "\<And>qs m. path_elements_ok qs \<Longrightarrow> iface_at root' qs m = (if qs = es \<and> m = name then None else iface_at root qs m)"
proof -
  let ?f = "\<lambda>nd. case remove_interface name nd of (removed, nd) \<Rightarrow> ((removed, node_is_empty nd), nd)"
  obtain ch where ch: "child_at root es = Some ch" using assms(4) by blast
  then have new: "child_or_new [] root es = ch" by (rule child_or_new_present)
  have snd_f: "snd (?f nd) = snd (remove_interface name nd)" for nd by (simp split: prod.splits)
  have ok: "node_ok ([] @ es) ch \<Longrightarrow> node_ok ([] @ es) (snd (?f ch))" for ch
    unfolding snd_f by (rule remove_interface_ok)
  obtain root' where root': "child_mut ?f True [] None root es =
      (Ok ((Some (fst (?f ch)), closest_manager [] root es None), root') :: ('e, _) res)" "node_ok [] root'"
    "\<And>qs. prefix qs es \<Longrightarrow> child_at root' qs \<noteq> None"
    "\<And>qs. path_elements_ok qs \<Longrightarrow> iface_at root' qs =
      (if prefix es qs then iface_at (snd (?f ch)) (drop (length es) qs)
       else if prefix qs es \<and> child_at root qs = None then map_of standard else iface_at root qs)"
    using child_mut_create [where f = ?f and mgr = None, OF assms(1,2) path_elements_ok_simps(1) ok] unfolding new by auto
  have at: "iface_at root es = map_of (interfaces ch)" by (simp add: iface_at_def ch fun_eq_iff)
  have "node_is_empty (snd (remove_interface name ch)) \<longleftrightarrow>
      (\<forall>m. m \<notin> set standard_names \<longrightarrow> m \<noteq> name \<longrightarrow> iface_at root es m = None)"
    unfolding at by (fastforce simp: node_is_empty_def remove_interface_def list_ex_iff AList.delete_eq map_of_eq_None_iff image_iff)
  then have res: "fst (?f ch) = (iface_at root es name \<noteq> None, \<forall>m. m \<notin> set standard_names \<longrightarrow> m \<noteq> name \<longrightarrow> iface_at root es m = None)"
    by (simp add: remove_interface_def at)
  have iface: "iface_at (snd (?f ch)) fs m = (if fs = [] \<and> m = name then None else iface_at root (es @ fs) m)" if "path_elements_ok fs" for fs m
  proof (cases fs)
    case Nil
    then show ?thesis unfolding snd_f by (simp add: remove_interface_def delete_conv' at)
  next
    case (Cons i is')
    then have "iface_at (snd (?f ch)) fs = iface_at ch fs"
      unfolding snd_f using that by (auto simp: remove_interface_def intro!: iface_at_children)
    then show ?thesis using Cons iface_at_split [of es fs root ch] ch assms(2) that by simp
  qed
  show thesis
  proof (rule that)
    show "get_child_mut ?f False root (path_of es) =
      (Ok ((Some (iface_at root es name \<noteq> None, \<forall>m. m \<notin> set standard_names \<longrightarrow> m \<noteq> name \<longrightarrow> iface_at root es m = None),
        closest_manager [] root es None), root') :: ('e, _) res)"
      using root'(1) res assms(2,4) by (simp add: child_mut_present)
    show "node_ok [] root'" by (fact root'(2))
    show "\<And>qs. prefix qs es \<Longrightarrow> child_at root' qs \<noteq> None" by (fact root'(3))
  next
    fix qs m assume qs: "path_elements_ok qs"
    show "iface_at root' qs m = (if qs = es \<and> m = name then None else iface_at root qs m)"
    proof (cases "prefix es qs")
      case True
      then obtain fs where fs: "qs = es @ fs" by (auto simp: prefix_def)
      then show ?thesis using root'(4) [OF qs] iface [of fs m] qs by (simp add: fs)
    next
      case False
      have "child_at root qs \<noteq> None" if pre: "prefix qs es"
      proof -
        obtain fs where "es = qs @ fs" using pre by (auto simp: prefix_def)
        with child_at_split [of qs fs root ch] ch assms(2) show ?thesis by blast
      qed
      with False show ?thesis using root'(4) [OF qs] by auto
    qed
  qed
qed

lemma foldl_slash: "foldl (\<lambda>a p. ''/'' @ p @ a) [] (rev ps) = concat (map (\<lambda>e. CHR ''/'' # e) ps)"
proof -
  have "foldl (\<lambda>a p. ''/'' @ p @ a) a (rev ps) = concat (map (\<lambda>e. CHR ''/'' # e) ps) @ a" for a
    by (induction ps arbitrary: a rule: rev_induct) auto
  from this [of "[]"] show ?thesis by simp
qed

lemma path_parts_slash: "path_elements_ok ps \<Longrightarrow> path_parts (concat (map (\<lambda>e. CHR ''/'' # e) ps)) = ps"
  using split_path [of ps] by (cases "ps = []") (simp_all add: path_parts_def)

text \<open>The whole subtree goes with a node.\<close>

lemma drop_node_subtree:
  assumes "node_ok [] root" "path_elements_ok (ps @ [i])" "child_at root ps \<noteq> None"
  obtains root' where "drop_node root (path_of (ps @ [i])) = Ok root'" "node_ok [] root'"
    "\<And>qs m. path_elements_ok qs \<Longrightarrow> iface_at root' qs m = (if prefix (ps @ [i]) qs then None else iface_at root qs m)"
proof -
  obtain ch where ch: "child_at root ps = Some ch" using assms(3) by blast
  then have new: "child_or_new [] root ps = ch" by (rule child_or_new_present)
  have ps: "path_elements_ok ps" using assms(2) by simp
  obtain root' where root': "child_mut (remove_node i) True [] None root ps =
      (Ok ((Some (fst (remove_node i ch)), closest_manager [] root ps None), root') :: (error, _) res)" "node_ok [] root'"
    "\<And>qs. path_elements_ok qs \<Longrightarrow> iface_at root' qs =
      (if prefix ps qs then iface_at (snd (remove_node i ch)) (drop (length ps) qs)
       else if prefix qs ps \<and> child_at root qs = None then map_of standard else iface_at root qs)"
    using child_mut_create [where f = "remove_node i" and mgr = None, OF assms(1) ps path_elements_ok_simps(1) remove_node_ok]
    unfolding new by auto
  have split: "filter (\<lambda>i. i \<noteq> []) (rev (split_on (CHR ''/'') (path_of (ps @ [i])))) = i # rev ps"
  proof -
    have "\<forall>e \<in> set ps. e \<noteq> []" using ps by (auto simp: path_elements_ok_def list_all_iff)
    then show ?thesis using split_path [OF assms(2)] assms(2) by (simp add: path_of_def filter_id_conv)
  qed
  have "drop_node root (path_of (ps @ [i])) = Ok root'"
    using root'(1) assms(3) ps unfolding drop_node_def split
    by (simp add: foldl_slash [simplified] get_child_mut_def path_parts_slash child_mut_present)
  moreover have "iface_at root' qs m = (if prefix (ps @ [i]) qs then None else iface_at root qs m)" if qs: "path_elements_ok qs" for qs m
  proof (cases "prefix ps qs")
    case True
    then obtain fs where fs: "qs = ps @ fs" by (auto simp: prefix_def)
    have "iface_at (snd (remove_node i ch)) fs m = (if prefix [i] fs then None else iface_at ch fs m)"
      using qs fs by (cases fs) (auto simp: remove_node_def delete_conv')
    then show ?thesis using root'(3) [OF qs] iface_at_split [of ps fs root ch] ch qs fs by simp
  next
    case False
    have "child_at root qs \<noteq> None" if pre: "prefix qs ps"
    proof -
      obtain fs where "ps = qs @ fs" using pre by (auto simp: prefix_def)
      with child_at_split [of qs fs root ch] ch ps show ?thesis by blast
    qed
    moreover have "\<not> prefix (ps @ [i]) qs" using False by (meson append_prefixD)
    ultimately show ?thesis using False root'(3) [OF qs] by auto
  qed
  ultimately show thesis using that root'(2) by blast
qed

section \<open>Code that returns, and code that leaves the objects alone\<close>

definition returns :: "('s, 'e, 'a) sm \<Rightarrow> bool" where
  "returns m \<longleftrightarrow> (\<forall>s. m s \<noteq> None)"

definition keeps_objects :: "(('i, 'w) object_server, 'e, 'a) sm \<Rightarrow> bool" where
  "keeps_objects m \<longleftrightarrow> (\<forall>s r s'. m s = Some (r, s') \<longrightarrow> (\<exists>c. s' = s\<lparr>sv_conn := c\<rparr>))"

text \<open>What a socket is documented to do: a write of some bytes writes at least one of them, or fails.\<close>

definition progress :: "'w send \<Rightarrow> bool" where
  "progress send \<longleftrightarrow> (\<forall>w bs fs k w'. bs \<noteq> [] \<longrightarrow> send w bs fs = Ok (k, w') \<longrightarrow> 0 < k)"

lemma send_loop_returns:
  assumes "progress send"
  shows "send_loop send bytes fs pos w \<noteq> None"
proof (induction "length bytes - pos" arbitrary: pos w rule: less_induct)
  case less
  show ?case
  proof (cases "pos < length bytes")
    case True
    show ?thesis
    proof (cases "send w (drop pos bytes) (if pos = 0 then fs else [])")
      case (Ok x)
      then obtain k w' where x: "send w (drop pos bytes) (if pos = 0 then fs else []) = Ok (k, w')" by (cases x) auto
      then have "0 < k" using assms True unfolding progress_def by (metis drop_eq_Nil linorder_not_less)
      then have "send_loop send bytes fs (pos + k) w' \<noteq> None" using less.hyps [of "pos + k" w'] True by simp
      then show ?thesis using x True by (simp add: send_loop.simps [of send bytes fs pos w])
    qed (use True in \<open>simp_all add: send_loop.simps [of send bytes fs pos w]\<close>)
  qed (simp add: send_loop.simps [of send bytes fs pos w])
qed

lemma returnsD: "returns m \<Longrightarrow> m s \<noteq> None"
  by (simp add: returns_def)

lemma returns_res [simp]: "returns (sm_res r)"
  by (simp add: returns_def sm_res_def)

lemma returns_bind [intro]: "returns m \<Longrightarrow> (\<And>x. returns (f x)) \<Longrightarrow> returns (sm_bind m f)"
  by (auto simp: returns_def sm_bind_def split: option.splits res.splits)

lemma returns_on_conn [intro]: "returns m \<Longrightarrow> returns (on_conn m)"
  by (simp add: returns_def on_conn_def)

lemma returns_conn_send: "progress (v_send V) \<Longrightarrow> returns (conn_send V m)"
  unfolding returns_def
proof
  fix s :: "'a connection" assume "progress (v_send V)"
  from send_loop_returns [OF this, of "data_bytes (msg_bytes m)" "data_fds (msg_bytes m)" 0 "cn_write s"]
  obtain r where "send_loop (v_send V) (data_bytes (msg_bytes m)) (data_fds (msg_bytes m)) 0 (cn_write s) = Some r" by blast
  then show "conn_send V m s \<noteq> None" by (cases r) (simp_all add: conn_send_def send_message_def)
qed

lemma returns_begin [simp]: "returns (begin_msg mk)"
  by (simp add: returns_def begin_msg_def)

lemma returns_send_built: "progress (v_send V) \<Longrightarrow> returns (send_built V sg f h)"
  unfolding send_built_def by (intro returns_bind returns_res returns_conn_send)

lemma returns_bind_state: "returns m \<Longrightarrow> (\<And>x s. f x s \<noteq> None) \<Longrightarrow> returns (sm_bind m f)"
  by (auto simp: returns_def sm_bind_def split: option.splits res.splits)

lemma returns_emit_signal: "progress (v_send V) \<Longrightarrow> returns (emit_signal V dest p i m sg f)"
  unfolding emit_signal_def
  by (rule returns_bind_state [OF returns_begin], rule returnsD, intro returns_bind returns_res returns_send_built)

lemma returns_emit_on: "progress (v_send V) \<Longrightarrow> returns (on_conn (emit_on V p i m vs))"
  unfolding emit_on_def by (intro returns_on_conn returns_emit_signal)

lemma returns_each: "(\<And>x. returns (f x)) \<Longrightarrow> returns (sm_each f xs)"
  by (induction xs) auto

lemma same_conn: "\<exists>c. s = s\<lparr>sv_conn := c\<rparr>"
  by (rule exI [of _ "sv_conn s"]) simp

lemma keeps_res [simp]: "keeps_objects (sm_res r)"
  using same_conn by (auto simp: keeps_objects_def sm_res_def)

lemma keeps_on_conn [simp]: "keeps_objects (on_conn m)"
  by (auto simp: keeps_objects_def on_conn_def)

lemma keeps_bind:
  assumes "keeps_objects m" "\<And>x. keeps_objects (f x)"
  shows "keeps_objects (sm_bind m f)"
  unfolding keeps_objects_def
proof (intro allI impI)
  fix s r s' assume *: "sm_bind m f s = Some (r, s')"
  then obtain r1 s1 where 1: "m s = Some (r1, s1)" by (auto simp: sm_bind_def split: option.splits)
  then obtain c where c: "s1 = s\<lparr>sv_conn := c\<rparr>" using assms(1) unfolding keeps_objects_def by blast
  show "\<exists>c. s' = s\<lparr>sv_conn := c\<rparr>"
  proof (cases r1)
    case (Ok x)
    then have "f x s1 = Some (r, s')" using * 1 by (simp add: sm_bind_def)
    then obtain c' where "s' = s1\<lparr>sv_conn := c'\<rparr>" using assms(2) unfolding keeps_objects_def by blast
    with c show ?thesis by auto
  qed (use * 1 c in \<open>auto simp: sm_bind_def\<close>)
qed

lemma keeps_each: "(\<And>x. keeps_objects (f x)) \<Longrightarrow> keeps_objects (sm_each f xs)"
  by (induction xs) (auto intro: keeps_bind)

lemma returns_interfaces_added: "progress (v_send V) \<Longrightarrow> returns (interfaces_added V emitter p ifs)"
  unfolding interfaces_added_def by (rule returns_emit_on)

lemma announce_returns:
  fixes s :: "('i, 'w) object_server"
  assumes "progress (v_send V)"
  shows "announce V Q p name nd mgr s \<noteq> None"
proof -
  have "returns (sm_bind (sm_res x) (sm_each (\<lambda>(obj, ifs). interfaces_added V p obj ifs)) :: (('i, 'w) object_server, error, unit) sm)"
    "returns (sm_bind (sm_res y) (\<lambda>ps. interfaces_added V mp p [(name, ps)]) :: (('i, 'w) object_server, error, unit) sm)" for x y mp
    using returns_interfaces_added [OF assms] by (auto intro!: returns_bind returns_each)
  note this [THEN returnsD]
  then show ?thesis by (cases mgr) (simp_all add: announce_def del: not_None_eq)
qed

lemma announce_keeps:
  fixes s :: "('i, 'w) object_server"
  assumes "announce V Q p name nd mgr s = Some (r, s')"
  shows "\<exists>c. s' = s\<lparr>sv_conn := c\<rparr>"
proof -
  have k: "keeps_objects (interfaces_added V emitter obj ifs :: (('i, 'w) object_server, error, unit) sm)" for emitter obj ifs by (simp add: interfaces_added_def)
  have "keeps_objects (sm_bind (sm_res x) (sm_each (\<lambda>(obj, ifs). interfaces_added V p obj ifs)) :: (('i, 'w) object_server, error, unit) sm)"
    "keeps_objects (sm_bind (sm_res y) (\<lambda>ps. interfaces_added V mp p [(name, ps)]) :: (('i, 'w) object_server, error, unit) sm)" for x y mp
    using k by (auto intro!: keeps_bind keeps_each)
  note this [unfolded keeps_objects_def, rule_format]
  with assms same_conn [of s] show ?thesis by (auto simp: announce_def split: if_splits option.splits)
qed

section \<open>The registry\<close>

definition arc_ok :: "('i, 'w) object_server \<Rightarrow> string \<Rightarrow> arc_interface \<Rightarrow> bool" where
  "arc_ok s name arc \<longleftrightarrow>
     (case ai_instance arc of
        Iface a \<Rightarrow> name \<notin> set standard_names \<and> a < length (sv_heap s)
      | _ \<Rightarrow> name \<in> set standard_names)"

text \<open>Every node has its path, every instance exists, and the standard names are those of the standard interfaces.\<close>

definition server_ok :: "('i, 'w) object_server \<Rightarrow> bool" where
  "server_ok s \<longleftrightarrow> node_ok [] (sv_root s) \<and>
     (\<forall>es name arc. path_elements_ok es \<longrightarrow> iface_at (sv_root s) es name = Some arc \<longrightarrow> arc_ok s name arc)"

definition found :: "('i, 'w) object_server \<Rightarrow> string list \<Rightarrow> string \<Rightarrow> 'i option" where
  "found s es name =
     (case iface_at (sv_root s) es name of
        Some arc \<Rightarrow> (case ai_instance arc of Iface a \<Rightarrow> Some (sv_heap s ! a) | _ \<Rightarrow> None)
      | None \<Rightarrow> None)"

lemma found_None: "server_ok s \<Longrightarrow> path_elements_ok es \<Longrightarrow> name \<notin> set standard_names \<Longrightarrow>
    found s es name = None \<longleftrightarrow> iface_at (sv_root s) es name = None"
  by (auto simp: found_def server_ok_def arc_ok_def split: option.splits iface_instance.splits)

lemma standard_arc: "map_of standard name = Some arc \<Longrightarrow> arc_ok s name arc"
  by (auto simp: standard_def arc_ok_def standard_names_def iface_names split: if_splits)

lemma arc_ok_heap: "sv_heap s' = sv_heap s \<Longrightarrow> arc_ok s' name arc \<longleftrightarrow> arc_ok s name arc"
  by (cases "ai_instance arc") (simp_all add: arc_ok_def)

lemma server_new_ok:
  fixes c :: "'w connection"
  shows "\<exists>s :: ('i, 'w) object_server. server_new c = Ok s \<and> server_ok s \<and> (\<forall>es name. path_elements_ok es \<longrightarrow> found s es name = None)"
proof -
  define s :: "('i, 'w) object_server" where
    "s = \<lparr>sv_root = Node (path_of []) [] standard, sv_heap = [], sv_tasks = [], sv_conn = c\<rparr>"
  have "server_new c = Ok s" by (simp add: server_new_def s_def path_of_def)
  moreover have ok: "server_ok s"
    using standard_arc by (auto simp: server_ok_def s_def iface_at_fresh split: if_splits simp del: node_ok.simps)
  moreover have "found s es name = None" if "path_elements_ok es" for es name
  proof (cases "iface_at (sv_root s) es name")
    case (Some arc)
    then have "arc_ok s name arc" using ok that by (simp add: server_ok_def)
    with Some show ?thesis by (cases "ai_instance arc") (simp_all add: found_def arc_ok_def s_def)
  qed (simp add: found_def)
  ultimately show ?thesis by blast
qed

lemma valid_path_of [simp]: "path_elements_ok es \<Longrightarrow> valid_path (path_of es) = Ok ()"
  using valid_path_elements [of "path_of es"] by (auto simp: valid_path_def)

lemma sm_bind_res_Ok [simp]: "sm_bind (sm_res (Ok x)) f = f x"
  by (simp add: sm_bind_def sm_res_def fun_eq_iff)

lemma at_registers:
  fixes s :: "('i, 'w) object_server"
  assumes "progress (v_send V)" "server_ok s" "path_elements_ok es" "name \<notin> set standard_names"
  shows "\<exists>r s'. server_at V Q (path_of es) name spawn i s = Some (r, s') \<and> server_ok s' \<and>
    (\<forall>b. r = Ok b \<longrightarrow> b = (found s es name = None)) \<and>
    (closest_manager [] (sv_root s) es None = None \<longrightarrow> is_ok r) \<and>
    (\<forall>fs m. path_elements_ok fs \<longrightarrow> m \<notin> set standard_names \<longrightarrow>
      found s' fs m = (if fs = es \<and> m = name \<and> found s es name = None then Some i else found s fs m))"
proof -
  define arc where "arc = \<lparr>ai_instance = Iface (length (sv_heap s)), ai_spawn = spawn\<rparr>"
  let ?root = "sv_root s" and ?new = "found s es name = None"
  have ok: "node_ok [] ?root" "\<And>es name arc. path_elements_ok es \<Longrightarrow> iface_at ?root es name = Some arc \<Longrightarrow> arc_ok s name arc"
    using assms(2) by (auto simp: server_ok_def)
  have new: "iface_at ?root es name = None \<longleftrightarrow> ?new" using found_None [OF assms(2-4)] by simp
  obtain nd root' where t: "get_child_mut (\<lambda>nd. case add_arc_interface name arc nd of (added, nd) \<Rightarrow> ((added, nd), nd)) True ?root (path_of es) =
      (Ok ((Some (?new, nd), closest_manager [] ?root es None), root') :: (error, _) res)" "node_ok [] root'"
    "\<And>qs m. path_elements_ok qs \<Longrightarrow> m \<notin> set standard_names \<Longrightarrow>
      iface_at root' qs m = (if qs = es \<and> m = name \<and> ?new then Some arc else iface_at ?root qs m)"
    "\<And>qs m arc'. path_elements_ok qs \<Longrightarrow> m \<in> set standard_names \<Longrightarrow> iface_at root' qs m = Some arc' \<Longrightarrow>
      iface_at ?root qs m = Some arc' \<or> map_of standard m = Some arc'"
    by (rule tree_add [OF ok(1) assms(3,4), where arc = arc and 'e = error]) (simp add: new)
  let ?s = "s\<lparr>sv_heap := sv_heap s @ [i], sv_root := root'\<rparr>"
  define after where "after = (if ?new then announce V Q (path_of es) name nd (closest_manager [] ?root es None) else sm_res (Ok ()))"
  have at: "server_at V Q (path_of es) name spawn i s = sm_bind after (\<lambda>_. sm_res (Ok ?new)) ?s"
    using assms(3) t(1) by (simp add: server_at_def server_add_arc_interface_def after_def arc_def)
  have "after ?s \<noteq> None" using announce_returns [OF assms(1), of Q "path_of es" name nd "closest_manager [] ?root es None" ?s]
    by (simp add: after_def sm_res_def)
  then obtain r s1 where r: "after ?s = Some (r, s1)" by auto
  then obtain c where c: "s1 = ?s\<lparr>sv_conn := c\<rparr>"
    using announce_keeps [of V Q "path_of es" name nd _ ?s r s1] same_conn [of ?s]
    by (auto simp: after_def sm_res_def split: if_splits)
  have arc_mono: "arc_ok s m a \<Longrightarrow> arc_ok s1 m a" for m a by (auto simp: c arc_ok_def split: iface_instance.splits)
  have "arc_ok s1 m a" if "path_elements_ok fs" "iface_at root' fs m = Some a" for fs m a
  proof (cases "m \<in> set standard_names")
    case True
    then show ?thesis using t(4) [OF that(1) True that(2)] ok(2) [OF that(1)] arc_mono standard_arc by blast
  next
    case False
    then show ?thesis
      using t(3) [OF that(1) False] that ok(2) [OF that(1)] arc_mono assms(4)
      by (auto simp: arc_ok_def arc_def c split: if_splits)
  qed
  then have "server_ok s1" using t(2) by (simp add: server_ok_def c)
  moreover have "found s1 fs m = (if fs = es \<and> m = name \<and> ?new then Some i else found s fs m)"
    if "path_elements_ok fs" "m \<notin> set standard_names" for fs m
  proof (cases "fs = es \<and> m = name \<and> ?new")
    case True
    then show ?thesis using t(3) [OF that] by (simp add: found_def c arc_def)
  next
    case False
    then have eq: "iface_at root' fs m = iface_at ?root fs m" using t(3) [OF that] by (metis (full_types))
    have "arc_ok s m a \<Longrightarrow> iface_at ?root fs m = Some a \<Longrightarrow> found s1 fs m = found s fs m" for a
      by (cases "ai_instance a") (simp_all add: found_def c eq arc_ok_def nth_append)
    then have "found s1 fs m = found s fs m"
      using ok(2) [OF that(1), of m] by (cases "iface_at ?root fs m") (simp_all add: found_def c eq)
    then show ?thesis unfolding if_not_P [OF False] .
  qed
  moreover have "closest_manager [] ?root es None = None \<Longrightarrow> r = Ok ()"
    using r assms(4) by (auto simp: after_def announce_def sm_res_def standard_names_def split: if_splits)
  ultimately show ?thesis
    using at r by (cases r) (auto simp: sm_bind_def sm_res_def)
qed

lemma not_registered:
  assumes "server_ok s" "path_elements_ok es" "name \<notin> set standard_names" "found s es name = None"
  shows "server_remove V (path_of es) name s = Some (Err InterfaceNotFound, s)"
proof -
  let ?f = "\<lambda>nd. case remove_interface name nd of (removed, nd) \<Rightarrow> ((removed, node_is_empty nd), nd)"
  have none: "iface_at (sv_root s) es name = None" using found_None assms by blast
  show ?thesis
  proof (cases "child_at (sv_root s) es")
    case None
    obtain m where "child_mut ?f False [] None (sv_root s) es = (Ok ((None, m), sv_root s) :: (error, _) res)"
      using child_mut_absent [OF assms(2) None] by blast
    then show ?thesis using assms(2) by (simp add: server_remove_def)
  next
    case (Some ch)
    have ok: "node_ok [] (sv_root s)" using assms(1) by (simp add: server_ok_def)
    show ?thesis
      by (rule tree_remove [OF ok assms(2,3), where 'e = error]) (use Some none assms(2) in \<open>simp_all add: server_remove_def\<close>)
  qed
qed

lemma interfaces_removed_keeps:
  "(case mgr of None \<Rightarrow> sm_res (Ok ()) | Some mp \<Rightarrow> interfaces_removed V mp p names) s = Some (r, s') \<Longrightarrow> \<exists>c. s' = s\<lparr>sv_conn := c\<rparr>"
  using same_conn [of s] by (auto simp: interfaces_removed_def on_conn_def sm_res_def split: option.splits)

lemma interfaces_removed_returns:
  assumes "progress (v_send V)"
  shows "(case mgr of None \<Rightarrow> sm_res (Ok ()) | Some mp \<Rightarrow> interfaces_removed V mp p names) s \<noteq> None"
  using returnsD [OF returns_emit_on [OF assms]] by (cases mgr) (simp_all add: interfaces_removed_def sm_res_def del: not_None_eq)

text \<open>Whether a node has no interface other than this and the standard ones.\<close>

definition last_one :: "('i, 'w) object_server \<Rightarrow> string list \<Rightarrow> string \<Rightarrow> bool" where
  "last_one s es name \<longleftrightarrow> (\<forall>m. m \<notin> set standard_names \<longrightarrow> m \<noteq> name \<longrightarrow> found s es m = None)"

lemma remove_unregisters:
  fixes s :: "('i, 'w) object_server"
  assumes "progress (v_send V)" "server_ok s" "path_elements_ok es" "name \<notin> set standard_names" "found s es name \<noteq> None"
    and "es \<noteq> [] \<or> \<not> last_one s es name"
  shows "\<exists>r s'. server_remove V (path_of es) name s = Some (r, s') \<and> server_ok s' \<and>
    (\<forall>b. r = Ok b \<longrightarrow> b = last_one s es name) \<and>
    (closest_manager [] (sv_root s) es None = None \<longrightarrow> is_ok r) \<and>
    (\<forall>fs m. path_elements_ok fs \<longrightarrow>
      found s' fs m = (if fs = es \<and> m = name \<or> r = Ok True \<and> prefix es fs then None else found s fs m))"
proof -
  let ?root = "sv_root s" and ?p = "path_of es"
  have ok: "node_ok [] ?root" "\<And>es name arc. path_elements_ok es \<Longrightarrow> iface_at ?root es name = Some arc \<Longrightarrow> arc_ok s name arc"
    using assms(2) by (auto simp: server_ok_def)
  have child: "child_at ?root es \<noteq> None" using assms(5) by (auto simp: found_def iface_at_def split: option.splits)
  have last: "(\<forall>m. m \<notin> set standard_names \<longrightarrow> m \<noteq> name \<longrightarrow> iface_at ?root es m = None) \<longleftrightarrow> last_one s es name"
    using found_None [OF assms(2,3)] by (auto simp: last_one_def)
  obtain root1 where t: "get_child_mut (\<lambda>nd. case remove_interface name nd of (removed, nd) \<Rightarrow> ((removed, node_is_empty nd), nd)) False ?root ?p =
      (Ok ((Some (iface_at ?root es name \<noteq> None, last_one s es name), closest_manager [] ?root es None), root1) :: (error, _) res)"
    "node_ok [] root1" "\<And>qs. prefix qs es \<Longrightarrow> child_at root1 qs \<noteq> None"
    "\<And>qs m. path_elements_ok qs \<Longrightarrow> iface_at root1 qs m = (if qs = es \<and> m = name then None else iface_at ?root qs m)"
    by (rule tree_remove [OF ok(1) assms(3,4) child, where 'e = error]) (simp add: last)
  have some: "iface_at ?root es name \<noteq> None" using found_None [OF assms(2-4)] assms(5) by blast
  let ?s = "s\<lparr>sv_root := root1\<rparr>"
  define sig :: "(('i, 'w) object_server, error, unit) sm" where
    "sig = (case closest_manager [] ?root es None of None \<Rightarrow> sm_res (Ok ()) | Some mp \<Rightarrow> interfaces_removed V mp ?p [name])"
  obtain r s1 where r: "sig ?s = Some (r, s1)"
    using interfaces_removed_returns [OF assms(1), where mgr = "closest_manager [] ?root es None" and p = ?p and names = "[name]" and s = ?s]
    unfolding sig_def by auto
  then obtain c where c: "s1 = ?s\<lparr>sv_conn := c\<rparr>" using interfaces_removed_keeps unfolding sig_def by blast
  define lst where "lst = last_one s es name"
  have rem: "server_remove V ?p name s = sm_bind sig (\<lambda>_ s.
      if \<not> lst then Some (Ok False, s)
      else case drop_node (sv_root s) ?p of Ok root \<Rightarrow> Some (Ok True, s\<lparr>sv_root := root\<rparr>) | _ \<Rightarrow> Some (Panic, s)) ?s"
    using assms(3) t(1) some by (simp add: sig_def server_remove_def lst_def)
  have kept: "server_ok s'" "\<And>fs m. path_elements_ok fs \<Longrightarrow> found s' fs m = (if gone fs m then None else found s fs m)"
    if "node_ok [] (sv_root s')" "sv_heap s' = sv_heap s"
      "\<And>fs m. path_elements_ok fs \<Longrightarrow> iface_at (sv_root s') fs m = (if gone fs m then None else iface_at ?root fs m)" for s' :: "('i, 'w) object_server" and gone
  proof -
    show "server_ok s'" using that ok(2) arc_ok_heap [of s' s] by (auto simp: server_ok_def split: if_splits)
    show "found s' fs m = (if gone fs m then None else found s fs m)" if "path_elements_ok fs" for fs m
      using that \<open>sv_heap s' = sv_heap s\<close> \<open>\<And>fs m. path_elements_ok fs \<Longrightarrow> iface_at (sv_root s') fs m = (if gone fs m then None else iface_at ?root fs m)\<close>
      by (simp add: found_def split: option.splits iface_instance.splits)
  qed
  have first: "server_ok s1" "\<And>fs m. path_elements_ok fs \<Longrightarrow> found s1 fs m = (if fs = es \<and> m = name then None else found s fs m)"
    by (rule kept [of s1 "\<lambda>fs m. fs = es \<and> m = name"]; use t(2,4) in \<open>simp add: c\<close>)+
  have res: "is_ok r" if "closest_manager [] ?root es None = None" using r that by (auto simp: sig_def sm_res_def)
  show ?thesis
  proof (cases "r = Ok () \<and> last_one s es name")
    case False
    then have "server_remove V ?p name s = Some (case r of Ok _ \<Rightarrow> Ok False | Err e \<Rightarrow> Err e | Panic \<Rightarrow> Panic, s1)"
      unfolding rem using r by (cases r) (simp_all add: sm_bind_def lst_def)
    then show ?thesis using first False res by (cases r) auto
  next
    case True
    then obtain ps i where es: "es = ps @ [i]" using assms(6) by (metis rev_exhaust)
    obtain root2 where d: "drop_node root1 (path_of (ps @ [i])) = Ok root2" "node_ok [] root2"
      "\<And>qs m. path_elements_ok qs \<Longrightarrow> iface_at root2 qs m = (if prefix (ps @ [i]) qs then None else iface_at root1 qs m)"
      by (rule drop_node_subtree [OF t(2), of ps i]) (use assms(3) es t(3) [of ps] in auto)
    let ?s2 = "s1\<lparr>sv_root := root2\<rparr>"
    have "server_remove V ?p name s = Some (Ok True, ?s2)"
      unfolding rem using r True d(1) es by (simp add: sm_bind_def lst_def c)
    moreover have "server_ok ?s2" "\<And>fs m. path_elements_ok fs \<Longrightarrow> found ?s2 fs m = (if fs = es \<and> m = name \<or> prefix es fs then None else found s fs m)"
      by (rule kept [of ?s2 "\<lambda>fs m. fs = es \<and> m = name \<or> prefix es fs"]; use d(2,3) t(4) es in \<open>simp add: c\<close>)+
    ultimately show ?thesis using True by auto
  qed
qed

section \<open>The contract of a registry\<close>

text \<open>A registry of objects: \<open>put\<close> enters one at a path under a name, \<open>take\<close> takes one out, and with the last one of a path everything below the
  path. What either of them signals may fail after the change.\<close>

locale registry =
  fixes ok :: "'s \<Rightarrow> bool" and find :: "'s \<Rightarrow> 'p list \<Rightarrow> 'n \<Rightarrow> 'a option" and good :: "'p list \<Rightarrow> bool" and user :: "'n \<Rightarrow> bool"
    and put :: "'p list \<Rightarrow> 'n \<Rightarrow> 'a \<Rightarrow> ('s, error, bool) sm" and take :: "'p list \<Rightarrow> 'n \<Rightarrow> ('s, error, bool) sm"
  assumes put_law: "ok s \<Longrightarrow> good es \<Longrightarrow> user name \<Longrightarrow> \<exists>r s'. put es name i s = Some (r, s') \<and> ok s' \<and>
      (\<forall>b. r = Ok b \<longrightarrow> b = (find s es name = None)) \<and>
      (\<forall>fs m. good fs \<longrightarrow> user m \<longrightarrow> find s' fs m = (if fs = es \<and> m = name \<and> find s es name = None then Some i else find s fs m))"
    and take_absent: "ok s \<Longrightarrow> good es \<Longrightarrow> user name \<Longrightarrow> find s es name = None \<Longrightarrow> take es name s = Some (Err InterfaceNotFound, s)"
    and take_law: "ok s \<Longrightarrow> good es \<Longrightarrow> user name \<Longrightarrow> find s es name \<noteq> None \<Longrightarrow> es \<noteq> [] \<Longrightarrow> \<exists>r s'. take es name s = Some (r, s') \<and> ok s' \<and>
      (\<forall>b. r = Ok b \<longrightarrow> b = (\<forall>m. user m \<longrightarrow> m \<noteq> name \<longrightarrow> find s es m = None)) \<and>
      (\<forall>fs m. good fs \<longrightarrow> user m \<longrightarrow>
        find s' fs m = (if fs = es \<and> m = name \<or> r = Ok True \<and> prefix es fs then None else find s fs m))"
begin

text \<open>The first object at a path under a name stays.\<close>

lemma put_twice:
  assumes "ok s" "good es" "user name" "put es name i s = Some (r1, s1)" "put es name j s1 = Some (r2, s2)"
  shows "find s2 es name = (case find s es name of None \<Rightarrow> Some i | Some x \<Rightarrow> Some x)" "r2 \<noteq> Ok True"
proof -
  have 1: "ok s1" "find s1 es name = (if find s es name = None then Some i else find s es name)"
    using put_law [OF assms(1-3), of i] assms(2-4) by auto
  have 2: "find s2 es name = (if find s1 es name = None then Some j else find s1 es name)" "r2 = Ok True \<Longrightarrow> find s1 es name = None"
    using put_law [OF 1(1) assms(2,3), of j] assms(2,3,5) by auto
  show "find s2 es name = (case find s es name of None \<Rightarrow> Some i | Some x \<Rightarrow> Some x)" "r2 \<noteq> Ok True"
    using 1(2) 2 by (cases "find s es name"; auto)+
qed

text \<open>Taking out what was put in leaves everything as it was, if something else is at the path, or nothing below it.\<close>

lemma put_take:
  assumes "ok s" "good es" "user name" "es \<noteq> []" "find s es name = None"
    and "(\<exists>m. user m \<and> find s es m \<noteq> None) \<or> (\<forall>fs m. good fs \<longrightarrow> user m \<longrightarrow> prefix es fs \<longrightarrow> find s fs m = None)"
  shows "\<exists>r1 s1 r2 s2. put es name i s = Some (r1, s1) \<and> find s1 es name = Some i \<and> take es name s1 = Some (r2, s2) \<and> ok s2 \<and>
    (\<forall>fs m. good fs \<longrightarrow> user m \<longrightarrow> find s2 fs m = find s fs m)"
proof -
  obtain r1 s1 where 1: "put es name i s = Some (r1, s1)" "ok s1"
    "\<And>fs m. good fs \<Longrightarrow> user m \<Longrightarrow> find s1 fs m = (if fs = es \<and> m = name \<and> find s es name = None then Some i else find s fs m)"
    using put_law [OF assms(1-3), of i] by blast
  have "find s1 es name \<noteq> None" using 1(3) [OF assms(2,3)] assms(5) by simp
  from take_law [OF 1(2) assms(2,3) this assms(4)]
  obtain r2 s2 where 2: "take es name s1 = Some (r2, s2)" "ok s2"
    "r2 = Ok True \<Longrightarrow> (\<forall>m. user m \<longrightarrow> m \<noteq> name \<longrightarrow> find s1 es m = None)"
    "\<And>fs m. good fs \<Longrightarrow> user m \<Longrightarrow> find s2 fs m = (if fs = es \<and> m = name \<or> r2 = Ok True \<and> prefix es fs then None else find s1 fs m)"
    by blast
  have "find s2 fs m = find s fs m" if "good fs" "user m" for fs m
  proof (cases "r2 = Ok True")
    case True
    have "find s es m' = None" if u: "user m'" for m'
    proof (cases "m' = name")
      case False
      then have "find s1 es m' = None" using 2(3) [OF True] u by blast
      then show ?thesis using 1(3) [OF assms(2) u] False by simp
    qed (use assms(5) in simp)
    then have "\<not> (\<exists>m. user m \<and> find s es m \<noteq> None)" by simp
    with assms(6) have "\<forall>fs m. good fs \<longrightarrow> user m \<longrightarrow> prefix es fs \<longrightarrow> find s fs m = None" by argo
    then have below: "prefix es fs \<Longrightarrow> find s fs m = None" using that by simp
    show ?thesis using 1(3) [OF that] 2(4) [OF that] below assms(5) True by auto
  next
    case False
    then show ?thesis using 1(3) [OF that] 2(4) [OF that] assms(5) by auto
  qed
  moreover have "find s1 es name = Some i" using 1(3) [OF assms(2,3)] assms(5) by simp
  ultimately show ?thesis using 1(1) 2(1,2) by blast
qed

end

text \<open>The object server on a socket that makes progress.\<close>

locale serving =
  fixes V :: "'w env" and Q :: "('i, 'w) iface_ops" and spawn :: bool
  assumes send_progress: "progress (v_send V)"

sublocale serving \<subseteq> reg: registry server_ok found path_elements_ok "\<lambda>name. name \<notin> set standard_names"
  "\<lambda>es name. server_at V Q (path_of es) name spawn" "\<lambda>es name. server_remove V (path_of es) name"
proof unfold_locales
  fix s :: "('i, 'w) object_server" and es name i
  assume "server_ok s" "path_elements_ok es" "name \<notin> set standard_names"
  from at_registers [OF send_progress this, of Q spawn i]
  show "\<exists>r s'. server_at V Q (path_of es) name spawn i s = Some (r, s') \<and> server_ok s' \<and>
      (\<forall>b. r = Ok b \<longrightarrow> b = (found s es name = None)) \<and>
      (\<forall>fs m. path_elements_ok fs \<longrightarrow> m \<notin> set standard_names \<longrightarrow>
        found s' fs m = (if fs = es \<and> m = name \<and> found s es name = None then Some i else found s fs m))"
    by blast
next
  fix s :: "('i, 'w) object_server" and es name
  assume "server_ok s" "path_elements_ok es" "name \<notin> set standard_names" "found s es name = None"
  then show "server_remove V (path_of es) name s = Some (Err InterfaceNotFound, s)" by (rule not_registered)
next
  fix s :: "('i, 'w) object_server" and es name
  assume "server_ok s" "path_elements_ok es" "name \<notin> set standard_names" "found s es name \<noteq> None" "es \<noteq> []"
  from remove_unregisters [OF send_progress this(1-4)] this(5)
  show "\<exists>r s'. server_remove V (path_of es) name s = Some (r, s') \<and> server_ok s' \<and>
      (\<forall>b. r = Ok b \<longrightarrow> b = (\<forall>m. m \<notin> set standard_names \<longrightarrow> m \<noteq> name \<longrightarrow> found s es m = None)) \<and>
      (\<forall>fs m. path_elements_ok fs \<longrightarrow> m \<notin> set standard_names \<longrightarrow>
        found s' fs m = (if fs = es \<and> m = name \<or> r = Ok True \<and> prefix es fs then None else found s fs m))"
    unfolding last_one_def by blast
qed

lemma fd_sendmsg_progress: "progress (fd_sendmsg sys)"
  by (auto simp: progress_def fd_sendmsg_def split: res.splits if_splits)

lemma remove_root_panics:
  assumes "server_ok s" "name \<notin> set standard_names" "found s [] name \<noteq> None" "last_one s [] name"
  shows "\<exists>s'. server_remove V ''/'' name s = Some (Panic, s')"
proof -
  have ok: "node_ok [] (sv_root s)" using assms(1) by (simp add: server_ok_def)
  have last: "(\<forall>m. m \<notin> set standard_names \<longrightarrow> m \<noteq> name \<longrightarrow> iface_at (sv_root s) [] m = None) \<longleftrightarrow> last_one s [] name"
    using found_None [OF assms(1), of "[]"] by (auto simp: last_one_def simp del: iface_at_Nil)
  obtain root1 where t: "get_child_mut (\<lambda>nd. case remove_interface name nd of (removed, nd) \<Rightarrow> ((removed, node_is_empty nd), nd)) False (sv_root s) (path_of []) =
      (Ok ((Some (iface_at (sv_root s) [] name \<noteq> None, last_one s [] name), closest_manager [] (sv_root s) [] None), root1) :: (error, _) res)"
    by (rule tree_remove [OF ok path_elements_ok_simps(1) assms(2), where 'e = error]) (unfold last, simp_all)
  have some: "iface_at (sv_root s) [] name \<noteq> None" using found_None [OF assms(1), of "[]"] assms(2,3) by simp
  have "drop_node root ''/'' = Panic" for root by (simp add: drop_node_def)
  then show ?thesis
    using t some assms(4) valid_path_of [of "[]"] by (simp add: server_remove_def path_of_def closest_manager_def sm_bind_def sm_res_def)
qed

section \<open>Properties\<close>

definition sample_env :: "(byte list \<times> cmsg list \<times> nat list) env" where
  "sample_env = \<lparr>v_nom = nom_ref, v_endi = endi_ref, v_dup = (\<lambda>_. Some), v_bits = from_bits, v_fuel = 20, v_ne = LittleSig,
     v_send = fd_sendmsg chunk_write, v_lost = (\<lambda>w. w), v_shown = (\<lambda>_. [])\<rparr>"

text \<open>Instances that are numbers, with one property that gives the number.\<close>

definition sample_ops :: "(nat, byte list \<times> cmsg list \<times> nat list) iface_ops" where
  "sample_ops = expand sample_env (\<lambda>_. \<lparr>id_name = ''a.B'', id_methods = [],
     id_props = [\<lparr>pd_name = ''N'', pd_emits = Emits_True, pd_get = (\<lambda>i. Ok (U32 (word_of_nat i))), pd_set = None\<rparr>]\<rparr>) (\<lambda>_ _. []) (\<lambda>_ _. [])"

definition sample_conn :: "(byte list \<times> cmsg list \<times> nat list) connection" where
  "sample_conn = \<lparr>cn_server_guid = [], cn_cap_unix_fd = False, cn_bus_conn = False, cn_unique_name = None,
     cn_registered_names = [], cn_write = ([], [], [1, 0]), cn_serial = 1\<rparr>"

lemma sample_progress: "progress (v_send sample_env)"
  by (simp add: sample_env_def fd_sendmsg_progress)

interpretation sv: serving sample_env sample_ops True
  by unfold_locales (rule sample_progress)

text \<open>C13: The object server is a registry of interfaces. \<^verbatim>\<open>at\<close> ends and adds the instance at its path and name unless there is one, says whether it did,
  and changes no other; \<^verbatim>\<open>remove\<close> fails if there is none, and else takes it out, and with the last one of an object everything at and below
  the object, and nothing else. Unless an object manager above is to be told, neither fails, and nodes keep their paths and instances exist.\<close>
theorem object_registry:
  assumes "progress (v_send V)" "server_ok s" "path_elements_ok es" "name \<notin> set standard_names"
  shows "(\<exists>r s'. server_at V Q (path_of es) name spawn i s = Some (r, s') \<and> server_ok s' \<and>
      (\<forall>b. r = Ok b \<longrightarrow> b = (found s es name = None)) \<and>
      (closest_manager [] (sv_root s) es None = None \<longrightarrow> is_ok r) \<and>
      (\<forall>fs m. path_elements_ok fs \<longrightarrow> m \<notin> set standard_names \<longrightarrow>
        found s' fs m = (if fs = es \<and> m = name \<and> found s es name = None then Some i else found s fs m))) \<and>
    (found s es name = None \<longrightarrow> server_remove V (path_of es) name s = Some (Err InterfaceNotFound, s)) \<and>
    (found s es name \<noteq> None \<longrightarrow> es \<noteq> [] \<or> \<not> last_one s es name \<longrightarrow>
      (\<exists>r s'. server_remove V (path_of es) name s = Some (r, s') \<and> server_ok s' \<and>
        (\<forall>b. r = Ok b \<longrightarrow> b = last_one s es name) \<and>
        (closest_manager [] (sv_root s) es None = None \<longrightarrow> is_ok r) \<and>
        (\<forall>fs m. path_elements_ok fs \<longrightarrow>
          found s' fs m = (if fs = es \<and> m = name \<or> r = Ok True \<and> prefix es fs then None else found s fs m))))"
  using at_registers [OF assms, of Q spawn i] not_registered [OF assms(2-4)] remove_unregisters [OF assms]
  by (intro conjI impI) blast+

theorem object_registry_witness:
  "\<exists>s s' r. server_new sample_conn = Ok s \<and> server_at sample_env sample_ops (path_of [''a'', ''b'']) ''a.B'' True 7 s = Some (r, s') \<and>
    is_ok r \<and> found s' [''a'', ''b''] ''a.B'' = Some 7 \<and> found s' [''a''] ''a.B'' = None"
proof -
  obtain s :: "(nat, byte list \<times> cmsg list \<times> nat list) object_server" where s: "server_new sample_conn = Ok s" "server_ok s"
    "\<And>es name. path_elements_ok es \<Longrightarrow> found s es name = None" using server_new_ok [of sample_conn] by blast
  have p: "path_elements_ok [''a'', ''b'']" "path_elements_ok [''a'']" "''a.B'' \<notin> set standard_names" by code_simp+
  have m: "closest_manager [] (sv_root s) [''a'', ''b''] None = None"
    using s(1) closest_manager_fresh [OF p(1)] by (auto simp: server_new_def)
  obtain r s' where s': "server_at sample_env sample_ops (path_of [''a'', ''b'']) ''a.B'' True 7 s = Some (r, s')" "is_ok r"
    "\<And>fs m. path_elements_ok fs \<Longrightarrow> m \<notin> set standard_names \<Longrightarrow>
      found s' fs m = (if fs = [''a'', ''b''] \<and> m = ''a.B'' \<and> found s [''a'', ''b''] ''a.B'' = None then Some 7 else found s fs m)"
    using object_registry [OF sample_progress s(2) p(1,3), of sample_ops True 7, THEN conjunct1] m by blast
  then show ?thesis using s p by force
qed

text \<open>C37: What \<^verbatim>\<open>remove\<close> destroys: with the last interface of an object go all objects below it, with their interfaces, although the
  documentation speaks of the object only; and at the root \<^verbatim>\<open>remove\<close> of the last interface panics.\<close>
theorem remove_destroys:
  assumes "progress (v_send V)" "server_ok s" "path_elements_ok es" "name \<notin> set standard_names" "found s es name \<noteq> None"
    and "last_one s es name" "closest_manager [] (sv_root s) es None = None"
  shows "(es \<noteq> [] \<longrightarrow> (\<exists>s'. server_remove V (path_of es) name s = Some (Ok True, s') \<and>
      (\<forall>fs m. path_elements_ok fs \<longrightarrow> prefix es fs \<longrightarrow> found s' fs m = None))) \<and>
    (es = [] \<longrightarrow> (\<exists>s'. server_remove V (path_of es) name s = Some (Panic, s')))"
proof (intro conjI impI)
  assume "es \<noteq> []"
  then obtain r s' where r: "server_remove V (path_of es) name s = Some (r, s')" "\<And>b. r = Ok b \<Longrightarrow> b = last_one s es name" "is_ok r"
    "\<And>fs m. path_elements_ok fs \<Longrightarrow>
      found s' fs m = (if fs = es \<and> m = name \<or> r = Ok True \<and> prefix es fs then None else found s fs m)"
    using remove_unregisters [OF assms(1-5)] assms(7) by blast
  then have "r = Ok True" using assms(6) by (cases r) auto
  with r show "\<exists>s'. server_remove V (path_of es) name s = Some (Ok True, s') \<and>
      (\<forall>fs m. path_elements_ok fs \<longrightarrow> prefix es fs \<longrightarrow> found s' fs m = None)" by auto
next
  assume "es = []"
  then show "\<exists>s'. server_remove V (path_of es) name s = Some (Panic, s')"
    using remove_root_panics [of s name V] assms(2,4-6) by (simp add: path_of_def)
qed

definition sample_arc :: "nat \<Rightarrow> arc_interface" where
  "sample_arc a = \<lparr>ai_instance = Iface a, ai_spawn = False\<rparr>"

definition sample_server :: "(nat, byte list \<times> cmsg list \<times> nat list) object_server" where
  "sample_server = \<lparr>sv_root = Node ''/'' [(''a'', Node ''/a'' [(''b'', Node ''/a/b'' [] [(''a.B'', sample_arc 1)])] [(''a.B'', sample_arc 0)])] [],
     sv_heap = [7, 8], sv_tasks = [], sv_conn = sample_conn\<rparr>"

lemma sample_server_ifaces:
  "path_elements_ok es \<Longrightarrow> iface_at (sv_root sample_server) es name =
     (if name = ''a.B'' \<and> es = [''a''] then Some (sample_arc 0) else if name = ''a.B'' \<and> es = [''a'', ''b''] then Some (sample_arc 1) else None)"
  by (cases es; cases "tl es"; cases "tl (tl es)") (auto simp: sample_server_def)

lemma sample_server_ok: "server_ok sample_server"
proof -
  have "node_ok [] (sv_root sample_server)" by code_simp
  then show ?thesis
    by (auto simp: server_ok_def sample_server_ifaces arc_ok_def sample_arc_def standard_names_def iface_names split: if_splits)
      (simp_all add: sample_server_def)
qed

lemma sample_server_found:
  "path_elements_ok es \<Longrightarrow> found sample_server es name =
     (if name = ''a.B'' \<and> es = [''a''] then Some 7 else if name = ''a.B'' \<and> es = [''a'', ''b''] then Some 8 else None)"
  by (simp add: found_def sample_server_ifaces sample_arc_def) (simp add: sample_server_def)

theorem remove_destroys_witness:
  "\<exists>s'. found sample_server [''a'', ''b''] ''a.B'' = Some 8 \<and>
    server_remove sample_env (path_of [''a'']) ''a.B'' sample_server = Some (Ok True, s') \<and> found s' [''a'', ''b''] ''a.B'' = None"
proof -
  have p: "path_elements_ok [''a'']" "path_elements_ok [''a'', ''b'']" "''a.B'' \<notin> set standard_names" by code_simp+
  have l: "last_one sample_server [''a''] ''a.B''" "found sample_server [''a''] ''a.B'' \<noteq> None"
    using p(1) by (simp_all add: last_one_def sample_server_found)
  have m: "closest_manager [] (sv_root sample_server) [''a''] None = None"
    by (simp add: closest_manager_def sample_server_def)
  from remove_destroys [OF sample_progress sample_server_ok p(1,3) l(2,1) m] p(2) show ?thesis
    by (auto simp: sample_server_found)
qed

section \<open>Calls of what is not there\<close>

definition env_ok :: "'w env \<Rightarrow> bool" where
  "env_ok V \<longleftrightarrow> nom_laws (v_nom V) \<and> endi_laws (v_endi V) \<and> (\<forall>b. code b < 8 \<longrightarrow> v_bits V b = Some b) \<and> 10 \<le> v_fuel V"

text \<open>What the caller makes of the bytes of a reply.\<close>

definition caller_gets :: "'w env \<Rightarrow> header \<Rightarrow> byte list \<Rightarrow> fdo_error \<Rightarrow> bool" where
  "caller_gets V call bs e \<longleftrightarrow> (\<exists>dat. data_bytes dat = bs \<and> (\<forall>seq closed its. \<exists>m err.
     from_raw_parts (v_nom V) (v_endi V) (v_bits V) (v_fuel V) dat seq = Some (Ok m) \<and>
     poll_reply (v_nom V) (v_endi V) (v_bits V) (v_fuel V) (serial_num (primary call)) closed (Ok m # its) = Some (Ok (Some (Err err), its)) \<and>
     fdo_of_error err = e))"

lemma error_sent:
  assumes "env_ok V" "write_half (v_send V) sent sent_fds fds_ok" "header_ok call"
    and "valid_utf8 desc" "byte_of 0 \<notin> set desc" "length desc + 3000 \<le> MAX_MESSAGE_SIZE"
  obtains w bs where "reply_dbus_error V call (Fdo k desc) c =
      Some (Ok (), c\<lparr>cn_serial := snd (next_serial (cn_serial c)), cn_write := w\<rparr>)"
    "sent w = sent (cn_write c) @ bs" "caller_gets V call bs (Fdo k desc)"
proof -
  have e: "nom_laws (v_nom V)" "endi_laws (v_endi V)" "\<And>b. code b < 8 \<Longrightarrow> v_bits V b = Some b" "10 \<le> v_fuel V"
    using assms(1) by (auto simp: env_ok_def)
  note arrives = fdo_error_arrives [where B = "v_bits V" and n = "v_fuel V" and D = "v_dup V" and ne = "v_ne V" and shown = "v_shown V" and serial = "cn_serial c" and k = k,
      OF e assms(3-6)]
  obtain m k' where m: "create_reply (v_nom V) (v_endi V) (v_dup V) (v_ne V) (v_shown V) (cn_serial c) call (Fdo k desc) = Ok (m, k')"
    "data_bytes (msg_bytes m) \<noteq> []" "data_fds (msg_bytes m) = []" "k' = snd (next_serial (cn_serial c))"
    using arrives by blast
  have "caller_gets V call (data_bytes (msg_bytes m)) (Fdo k desc)"
    unfolding caller_gets_def using arrives m(1) by (intro exI [of _ "msg_bytes m"] conjI refl allI) fastforce
  moreover obtain w where "send_message (v_send V) m (cn_write c) = Some (Ok w)" "sent w = sent (cn_write c) @ data_bytes (msg_bytes m)"
    using write_half.send_all [OF assms(2) m(2), of "[]"] write_half.fds_ok_Nil [OF assms(2)] m(3) by (auto simp: send_message_def)
  ultimately show thesis
    using m by (intro that [of w "data_bytes (msg_bytes m)"])
      (simp_all add: reply_dbus_error_def begin_msg_def sm_bind_def conn_send_def)
qed

text \<open>The method of an instance that a call is for.\<close>

definition knows_method :: "'w env \<Rightarrow> ('i, 'w) iface_ops \<Rightarrow> (fdo_error, string) res \<Rightarrow> ('i, 'w) object_server \<Rightarrow> iface_instance \<Rightarrow> message \<Rightarrow> string \<Rightarrow> bool" where
  "knows_method V Q mid s inst msg name \<longleftrightarrow>
     (case inst of
        Iface a \<Rightarrow>
          (case io_call Q (sv_heap s ! a) msg name of
             NotFound \<Rightarrow> False
           | Async _ \<Rightarrow> True
           | RequiresMut \<Rightarrow> (case io_call_mut Q (sv_heap s ! a) msg name of Async _ \<Rightarrow> True | _ \<Rightarrow> False))
      | _ \<Rightarrow> name \<in> md_name ` set (std_methods V Q mid inst))"

definition missing ::
  "'w env \<Rightarrow> ('i, 'w) iface_ops \<Rightarrow> (fdo_error, string) res \<Rightarrow> ('i, 'w) object_server \<Rightarrow> message \<Rightarrow> string \<Rightarrow> string \<Rightarrow> string \<Rightarrow> fdo_error option" where
  "missing V Q mid s msg p i name =
     (case get_child (sv_root s) p of
        None \<Rightarrow> Some (unknown_object p)
      | Some nd \<Rightarrow>
          (case interface_lock nd i of
             None \<Rightarrow> Some (unknown_interface i)
           | Some arc \<Rightarrow> if knows_method V Q mid s (ai_instance arc) msg name then None else Some (unknown_method name)))"

text \<open>A call is served and its task, if it gets one, is run.\<close>

definition handle_call :: "'w env \<Rightarrow> ('i, 'w) iface_ops \<Rightarrow> (fdo_error, string) res \<Rightarrow> message \<Rightarrow> (('i, 'w) object_server, error, unit) sm" where
  "handle_call V Q mid msg s =
     sm_bind (serve_message V Q mid msg) (\<lambda>_ s'.
     if length (sv_tasks s) < length (sv_tasks s') then run_task V Q mid (length (sv_tasks s)) s' else Some (Ok (), s')) s"

lemma std_methods_immutable: "m \<in> set (std_methods V Q mid inst) \<Longrightarrow> \<not> md_mut m"
  by (auto simp: std_methods_def std_method_def split: iface_instance.splits)

lemma method_unknown:
  assumes "\<not> knows_method V Q mid s inst msg name" "member (header_fields h) = Some name" "interface (header_fields h) = Some i"
  shows "dispatch_call_to_iface V Q mid inst msg h s = Some (Err (unknown_method name), s)"
proof (cases "\<exists>a. inst = Iface a")
  case True
  then show ?thesis
    using assms by (auto simp: dispatch_call_to_iface_def knows_method_def ok_or_def split: dispatch_result.splits)
next
  case False
  then have "find (\<lambda>m. md_name m = name) (std_methods V Q mid inst) = None"
    using assms(1) by (auto simp: knows_method_def find_None_iff split: iface_instance.splits)
  then show ?thesis
    using assms(2,3) False by (cases inst) (simp_all add: dispatch_call_to_iface_def ok_or_def expand_call_def)
qed

lemma missing_answered:
  assumes "header_of V msg = Some (Ok h)" "call_accepted (sv_conn s) h"
    and "path (header_fields h) = Some p" "interface (header_fields h) = Some i" "member (header_fields h) = Some name"
    and "missing V Q mid s msg p i name = Some e" "reply_dbus_error V h e (sv_conn s) = Some (Ok (), c)"
  shows "handle_call V Q mid msg s = Some (Ok (), s\<lparr>sv_conn := c\<rparr>)"
proof -
  have "dispatch_method_call_try V Q mid msg h s = Some (Err e, s) \<or>
      (\<exists>inst. dispatch_method_call_try V Q mid msg h s = Some (Ok (), s\<lparr>sv_tasks := sv_tasks s @ [(inst, msg)]\<rparr>) \<and>
        \<not> knows_method V Q mid s inst msg name \<and> e = unknown_method name)"
    using assms(3-6) method_unknown [of V Q mid s _ msg name h i]
    by (auto simp: dispatch_method_call_try_def missing_def ok_or_def split: option.splits if_splits)
  then consider "dispatch_method_call_try V Q mid msg h s = Some (Err e, s)"
    | inst where "dispatch_method_call_try V Q mid msg h s = Some (Ok (), s\<lparr>sv_tasks := sv_tasks s @ [(inst, msg)]\<rparr>)"
      "\<not> knows_method V Q mid s inst msg name" "e = unknown_method name" by blast
  then show ?thesis
  proof cases
    case 1
    then have "serve_message V Q mid msg s = Some (Ok (), s\<lparr>sv_conn := c\<rparr>)"
      using assms(1,2,7) by (simp add: serve_message_def dispatch_call_def sm_bind_def sm_opt_def sm_try_def sm_res_def on_conn_def)
    then show ?thesis by (simp add: handle_call_def sm_bind_def)
  next
    case 2
    let ?s = "s\<lparr>sv_tasks := sv_tasks s @ [(inst, msg)]\<rparr>"
    have serve: "serve_message V Q mid msg s = Some (Ok (), ?s)"
      using assms(1,2) 2 by (simp add: serve_message_def dispatch_call_def sm_bind_def sm_opt_def sm_try_def sm_res_def)
    have "\<not> knows_method V Q mid (?s\<lparr>sv_tasks := sv_tasks s\<rparr>) inst msg name" using 2(2) by simp
    from method_unknown [OF this assms(5,4)] have "run_task V Q mid (length (sv_tasks s)) ?s = Some (Ok (), s\<lparr>sv_conn := c\<rparr>)"
      using assms(1,7) 2(3) by (simp add: run_task_def call_task_def sm_bind_def sm_opt_def sm_try_def sm_res_def on_conn_def)
    with serve show ?thesis by (simp add: handle_call_def sm_bind_def)
  qed
qed

definition plain_text :: "string \<Rightarrow> bool" where
  "plain_text x \<longleftrightarrow> list_all (\<lambda>c. 0 < code c \<and> code c < 128) x"

lemma plain_text_readable: "plain_text x \<Longrightarrow> valid_utf8 x \<and> byte_of 0 \<notin> set x"
  by (auto simp: plain_text_def list_all_iff is_ascii_def intro: valid_utf8_ascii)

lemma printable_plain: "printable x \<Longrightarrow> plain_text x"
proof -
  have "0 < code c \<and> code c < 128" if "printable_char c" for c using that unfolding printable_char_def by linarith
  then show "printable x \<Longrightarrow> plain_text x" by (simp add: plain_text_def printable_def list_all_iff)
qed

lemma missing_text:
  assumes "missing V Q mid s msg p i name = Some e" "printable p" "printable i" "printable name"
    and "length p \<le> k" "length i \<le> k" "length name \<le> k"
  obtains kind desc where "e = Fdo kind desc" "valid_utf8 desc" "byte_of 0 \<notin> set desc" "length desc \<le> k + 20"
proof -
  have q: "plain_text (quoted what x)" if "plain_text what" "printable x" for what x
    using that printable_plain [of x] by (simp add: plain_text_def quoted_def)
  have what: "plain_text ''Unknown object''" "plain_text ''Unknown interface''" "plain_text ''Unknown method''" by code_simp+
  obtain kind desc where e: "e = Fdo kind desc" "plain_text desc" "length desc \<le> k + 20"
    using assms q [OF what(1)] q [OF what(2)] q [OF what(3)]
    by (auto simp: missing_def unknown_object_def unknown_interface_def unknown_method_def quoted_def split: option.splits if_splits)
  with plain_text_readable [OF e(2)] show thesis by (intro that [OF e(1)]) auto
qed

text \<open>C14: A call of an object, an interface or a method that is not there is answered once, by an error that says what is missing: the server sends it,
  at once or from the task of the call, and changes nothing else, and the caller gets that error from its call. This also holds for calls that ask for no
  reply.\<close>
theorem missing_reported:
  assumes "env_ok V" "write_half (v_send V) sent sent_fds fds_ok"
    and "header_of V msg = Some (Ok h)" "header_ok h" "call_accepted (sv_conn s) h"
    and "path (header_fields h) = Some p" "interface (header_fields h) = Some i" "member (header_fields h) = Some name"
    and "length p + 4000 \<le> MAX_MESSAGE_SIZE"
    and "missing V Q mid s msg p i name = Some e"
  shows "\<exists>c bs. handle_call V Q mid msg s = Some (Ok (), s\<lparr>sv_conn := c\<rparr>) \<and>
    sent (cn_write c) = sent (cn_write (sv_conn s)) @ bs \<and> caller_gets V h bs e"
proof -
  have f: "object_path_try_from p = Ok p" "ensure_correct_interface_name i = Ok ()" "ensure_correct_member_name name = Ok ()"
    using assms(4,6-8) by (auto simp: header_ok_def fields_ok_def)
  have len: "length i \<le> 255" "length name \<le> 255"
    using f by (auto simp: ensure_correct_interface_name_def ensure_correct_member_name_def bind_res_eq_Ok split: if_splits list.splits)
  have pr: "printable p" "printable i" "printable name"
    using f valid_printable by blast+
  obtain kind desc where d: "e = Fdo kind desc" "valid_utf8 desc" "byte_of 0 \<notin> set desc" "length desc \<le> max (length p) 255 + 20"
    by (rule missing_text [OF assms(10) pr, of "max (length p) 255"]) (use len in auto)
  have "length desc + 3000 \<le> MAX_MESSAGE_SIZE" using d(4) assms(9) by (simp add: MAX_MESSAGE_SIZE_def)
  from error_sent [OF assms(1,2,4) d(2,3) this, of kind "sv_conn s"]
  obtain w bs where r: "reply_dbus_error V h (Fdo kind desc) (sv_conn s) =
      Some (Ok (), (sv_conn s)\<lparr>cn_serial := snd (next_serial (cn_serial (sv_conn s))), cn_write := w\<rparr>)"
    "sent w = sent (cn_write (sv_conn s)) @ bs" "caller_gets V h bs (Fdo kind desc)" by blast
  from missing_answered [OF assms(3,5-8,10)] r d(1) show ?thesis by fastforce
qed

definition sample_call :: header where
  "sample_call = \<lparr>primary = \<lparr>endian_sig = LittleSig, msg_type = MethodCall, flags = byte_of 1,
     protocol_version = byte_of 1, body_len = 0, serial_num = 1\<rparr>,
     header_fields = no_fields\<lparr>path := Some ''/x'', interface := Some ''a.B'', member := Some ''M''\<rparr>\<rparr>"

lemma sample_call_built:
  "bind_res (bind_res (bind_res (builder_new LittleSig MethodCall 0) (\<lambda>(h, c). set_path ''/x'' h)) (set_interface ''a.B''))
     (\<lambda>h. bind_res (set_member ''M'' h) (\<lambda>h. with_flags h NoReplyExpected)) = Ok sample_call"
  by code_simp

lemma sample_call_builder: "builder sample_call"
proof -
  obtain h c where h: "builder_new LittleSig MethodCall 0 = Ok (h, c)"
    by (auto simp: builder_new_def primary_new_def next_serial_def)
  then obtain x y z where s: "set_path ''/x'' h = Ok x" "set_interface ''a.B'' x = Ok y" "set_member ''M'' y = Ok z"
      "with_flags z NoReplyExpected = Ok sample_call"
    using sample_call_built by auto
  show ?thesis by (rule builder.flags [OF builder.member [OF builder.interface [OF builder.path [OF builder.new [OF h] s(1)] s(2)] s(3)] s(4)])
qed

lemma sample_env_ok: "env_ok sample_env"
  using nr.nom_laws_axioms er.endi_laws_axioms by (simp add: env_ok_def sample_env_def from_bits_def)

lemma sample_call_received:
  "\<exists>msg h. header_of sample_env msg = Some (Ok h) \<and> header_ok h \<and> header_fields h = (header_fields sample_call)\<lparr>body_signature := wire_signature (signature.Structure [signature.U32])\<rparr>"
proof -
  note b = builder_ok [OF sample_call_builder]
  obtain m where m: "build nom_ref endi_ref (\<lambda>_. Some) (signature.Structure [signature.U32]) (serialize_inner nom_ref endi_ref (\<lambda>_. Some) sample_body) sample_call = Ok m"
    using wr.build_total [OF sample_call_builder sample_body_facts(1,2), of "map byte_of [7, 0, 0, 0]" 255 "\<lambda>_. Some"] sample_body_facts(4-6)
    by (auto simp: sample_call_def no_fields_def MAX_MESSAGE_SIZE_def endian_of_sig_def)
  obtain hd where hd: "message_header nom_ref endi_ref from_bits 20 m = Some (Ok hd)"
    "hd = sample_call\<lparr>primary := msg_primary m, header_fields := (header_fields sample_call)\<lparr>body_signature := wire_signature (signature.Structure [signature.U32])\<rparr>\<rparr>"
    "msg_primary m = (primary sample_call)\<lparr>body_len := body_len (msg_primary m)\<rparr>"
    by (rule wr.built_parsed [where B = from_bits and n = 20 and h = sample_call and v = sample_body and D = "\<lambda>_. Some" and m = m])
      (use b sample_body_facts m in \<open>auto simp: from_bits_def\<close>)
  have "serial_num (msg_primary m) = serial_num (primary sample_call)" "flags (msg_primary m) = flags (primary sample_call)"
    by (subst hd(3), simp)+
  then have "header_ok hd"
    using b hd(2) fields_ok_wire [of "(header_fields sample_call)\<lparr>body_signature := signature.Structure [signature.U32]\<rparr>"] sample_body_facts(7)
    by (simp add: header_ok_def fields_ok_def)
  moreover have "header_of sample_env m = Some (Ok hd)" using hd(1) by (simp add: sample_env_def)
  moreover have "header_fields hd = (header_fields sample_call)\<lparr>body_signature := wire_signature (signature.Structure [signature.U32])\<rparr>"
    by (simp add: hd(2))
  ultimately show ?thesis by blast
qed

theorem missing_reported_witness:
  "\<exists>msg h c bs. header_of sample_env msg = Some (Ok h) \<and>
    handle_call sample_env sample_ops (Ok []) msg sample_server = Some (Ok (), sample_server\<lparr>sv_conn := c\<rparr>) \<and>
    fst (cn_write c) = bs \<and> caller_gets sample_env h bs (unknown_object ''/x'')"
proof -
  obtain msg h where h: "header_of sample_env msg = Some (Ok h)" "header_ok h" "path (header_fields h) = Some ''/x''"
    "interface (header_fields h) = Some ''a.B''" "member (header_fields h) = Some ''M''" "destination (header_fields h) = None"
    using sample_call_received by (fastforce simp: sample_call_def no_fields_def)
  have a: "call_accepted (sv_conn sample_server) h" using h(6) by (simp add: call_accepted_def sample_server_def sample_conn_def)
  have "get_child (sv_root sample_server) ''/x'' = None" by code_simp
  then have m: "missing sample_env sample_ops (Ok []) sample_server msg ''/x'' ''a.B'' ''M'' = Some (unknown_object ''/x'')"
    by (simp add: missing_def)
  have w: "write_half (v_send sample_env) fst (\<lambda>w. cmsg_fds ((\<lambda>(_, cs, _). cs) w)) (\<lambda>_. True)"
    using cw.unix.write_half_axioms by (simp add: sample_env_def)
  have l: "length ''/x'' + 4000 \<le> MAX_MESSAGE_SIZE" by (simp add: MAX_MESSAGE_SIZE_def)
  from missing_reported [OF sample_env_ok w h(1,2) a h(3-5) l m] h(1) show ?thesis
    by (auto simp: sample_server_def sample_conn_def)
qed

end
