(* ===== verification/DBus_Typing.thy ===== *)
theory DBus_Typing
  imports DBus_Roundtrip
begin

text \<open>
  What the D-Bus deserializer returns on bytes of any origin is well typed: every value has the signature that
  was asked for or that the data names, down to the elements of arrays, dictionaries and structures.
\<close>

section \<open>Actions that succeed\<close>

lemma dbind_Ok [simp]:
  "dbind m f d = Some (Ok x, d') \<longleftrightarrow> (\<exists>y d1. m d = Some (Ok y, d1) \<and> f y d1 = Some (Ok x, d'))"
  by (auto simp: dbind_def split: option.splits res.splits)

lemma lift_Ok [simp]: "lift r d = Some (Ok x, d') \<longleftrightarrow> r = Ok x \<and> d' = d"
  by (auto simp: lift_def)

text \<open>The actions below the visitors leave the signature and the bytes alone.\<close>

definition frame :: "de \<Rightarrow> de \<Rightarrow> bool" where
  "frame d d' \<longleftrightarrow> de_sig d' = de_sig d \<and> de_bytes d' = de_bytes d"

named_theorems frames

lemma frame_refl [simp]: "frame d d"
  by (simp add: frame_def)

lemma frame_trans: "frame d d' \<Longrightarrow> frame d' d'' \<Longrightarrow> frame d d''"
  by (simp add: frame_def)

lemma parse_padding_frame [frames]: "parse_padding a d = Some (Ok x, d') \<Longrightarrow> frame d d'"
  by (auto simp: parse_padding_def Let_def frame_def split: if_splits option.splits)

lemma next_slice_frame [frames]: "next_slice n d = Some (Ok x, d') \<Longrightarrow> frame d d'"
  by (auto simp: next_slice_def frame_def split: if_splits)

lemma set_depths_frame [frames]: "set_depths r d = Some (Ok x, d') \<Longrightarrow> frame d d'"
  by (auto simp: set_depths_def frame_def)

lemma get_fd_frame [frames]: "get_fd i d = Some (Ok x, d') \<Longrightarrow> frame d d'"
  by (auto simp: get_fd_def split: option.splits if_splits)

lemma next_const_size_slice_frame [frames]: "next_const_size_slice t d = Some (Ok x, d') \<Longrightarrow> frame d d'"
  by (auto simp: next_const_size_slice_def dest!: frames intro: frame_trans)

lemma deserialize_bool_frame [frames]: "deserialize_bool E d = Some (Ok x, d') \<Longrightarrow> frame d d'"
  by (auto simp: deserialize_bool_def Let_def dest!: frames split: if_splits)

lemma deserialize_u8_frame [frames]: "deserialize_u8 d = Some (Ok x, d') \<Longrightarrow> frame d d'"
proof -
  assume "deserialize_u8 d = Some (Ok x, d')"
  then obtain bs d1 where "next_const_size_slice signature.U8 d = Some (Ok bs, d1)"
      "(case bs of b # _ \<Rightarrow> ret b | [] \<Rightarrow> lift Panic) d1 = Some (Ok x, d')"
    unfolding deserialize_u8_def dbind_Ok by blast
  then show ?thesis
    by (cases bs) (auto dest: frames)
qed

lemma deserialize_uint_frame [frames]:
  "deserialize_u16 E t d = Some (Ok x, d') \<Longrightarrow> frame d d'"
  "deserialize_u32 E t d = Some (Ok y, d') \<Longrightarrow> frame d d'"
  "deserialize_u64 E t d = Some (Ok z, d') \<Longrightarrow> frame d d'"
  by (auto simp: deserialize_u16_def deserialize_u32_def deserialize_u64_def dest!: frames)

lemma deserialize_i32_frame [frames]: "deserialize_i32 E d = Some (Ok x, d') \<Longrightarrow> frame d d'"
  by (auto simp: deserialize_i32_def dest!: frames intro: frame_trans split: signature.splits)

lemma deserialize_str_frame [frames]: "deserialize_str E d = Some (Ok x, d') \<Longrightarrow> frame d d'"
  by (auto simp: deserialize_str_def frame_def dest!: frames split: if_splits list.split_asm)

lemma array_end_sig: "array_end ad d = Some (Ok x, d') \<Longrightarrow> de_sig d' = ad_array_signature ad \<and> de_bytes d' = de_bytes d"
  by (auto simp: array_end_def set_sig_def frame_def dest!: frames)

lemma array_next_frame: "array_next ad f d = Some (Ok x, d') \<longleftrightarrow> f d = Some (Ok x, d') \<and> de_pos d' \<le> ad_start ad + ad_len ad"
  by (auto simp: array_next_def split: option.splits if_splits)

lemma array_next_element_Some:
  "array_next_element ad f d = Some (Ok (Some x), d') \<Longrightarrow> \<exists>d1. frame d d1 \<and> f d1 = Some (Ok x, d')"
  by (auto simp: array_next_element_def array_next_frame dest!: frames split: if_splits)

lemma array_next_element_None:
  "array_next_element ad f d = Some (Ok None, d') \<Longrightarrow> de_sig d' = ad_array_signature ad \<and> de_bytes d' = de_bytes d"
  by (auto simp: array_next_element_def dest!: array_end_sig split: if_splits)

lemma array_de_new_sig:
  assumes "array_de_new E d = Some (Ok ad, d')"
  shows "ad_array_signature ad = de_sig d \<and> de_bytes d' = de_bytes d \<and>
    de_sig d' = (case de_sig d of signature.Array c \<Rightarrow> c | signature.Dict k _ \<Rightarrow> k | s \<Rightarrow> s)"
proof -
  from assms obtain d1 d2 d3 d4 d5 a c where "frame d d1" "frame d1 d2" "frame d2 d3" and d5: "frame d4 d5" "d' = d5\<lparr>de_sig := c\<rparr>"
    and rest: "(case de_sig d3 of
           signature.Array child \<Rightarrow> dbind (lift (dbus_alignment child)) (\<lambda>a. ret (a, child))
         | signature.Dict key _ \<Rightarrow> ret (DICT_ENTRY_ALIGNMENT_DBUS, key)
         | _ \<Rightarrow> throw (SignatureMismatch (de_sig d3) ''an array or dict'')) d3 = Some (Ok (a, c), d4)"
      "ad_array_signature ad = de_sig d3"
    by (auto simp: array_de_new_def Let_def dest!: frames)
  then have "frame d d3"
    by (blast intro: frame_trans)
  then have "de_sig d3 = de_sig d" "de_bytes d3 = de_bytes d"
    by (simp_all add: frame_def)
  then show ?thesis
    using rest d5 by (cases "de_sig d") (auto simp: frame_def)
qed

section \<open>Containers\<close>

text \<open>The signatures that can be asked for: those of the parser. A reader of values is well typed if what it
  returns has the signature of its seed.\<close>

abbreviation asked :: "signature \<Rightarrow> bool" where
  "asked s \<equiv> sig_wf s \<or> s = Unit"

definition well_typed :: "(signature \<Rightarrow> zvalue dm) \<Rightarrow> bool" where
  "well_typed R \<longleftrightarrow> (\<forall>d v d'. asked (de_sig d) \<longrightarrow> R (de_sig d) d = Some (Ok v, d') \<longrightarrow>
     value_ok v \<and> value_signature v = de_sig d \<and> frame d d')"

lemma well_typedD:
  assumes "well_typed R" "R s d = Some (Ok v, d')" "de_sig d = s" "asked s"
  shows "value_ok v" "value_signature v = s" "frame d d'"
  using assms unfolding well_typed_def by blast+

lemma visit_array_loop_typed:
  assumes R: "well_typed R" and c: "asked c" and ad: "ad_array_signature ad = signature.Array c"
    and "visit_array_loop N k (R c) (Array_Access ad) (es, signature.Array c) d = Some (Ok (es', s'), d')"
    and "value_ok (Array es (signature.Array c))" "de_sig d = c"
  shows "s' = signature.Array c \<and> value_ok (Array es' s') \<and> de_sig d' = s' \<and> de_bytes d' = de_bytes d"
  using assms(4-)
proof (induction k arbitrary: es d)
  case (Suc k)
  from Suc.prems(1) obtain e d1 where e: "array_next_element ad (R c) d = Some (Ok e, d1)"
    and rest: "(case e of None \<Rightarrow> ret (es, signature.Array c)
      | Some e \<Rightarrow> dbind (lift (map_err (\<lambda>_. Message Custom) (array_append (es, signature.Array c) e)))
         (\<lambda>arr. visit_array_loop N k (R c) (Array_Access ad) arr)) d1 = Some (Ok (es', s'), d')"
    by (auto simp: next_element_seed_def)
  show ?case
  proof (cases e)
    case None
    then show ?thesis
      using rest Suc.prems(2) array_next_element_None [OF e [unfolded None]] ad by auto
  next
    case (Some x)
    obtain d2 where d2: "frame d d2" "R c d2 = Some (Ok x, d1)"
      using array_next_element_Some [OF e [unfolded Some]] by blast
    note x = well_typedD [OF R d2(2) _ c]
    from rest Some obtain es1 s1 where app: "array_append (es, signature.Array c) x = Ok (es1, s1)"
      and loop: "visit_array_loop N k (R c) (Array_Access ad) (es1, s1) d1 = Some (Ok (es', s'), d')"
      by auto
    have "s1 = signature.Array c" "value_ok (Array es1 s1)"
      using app x(1) array_append_ok [OF Suc.prems(2) _ app] d2(1) Suc.prems(3) by (auto simp: array_append_Ok frame_def)
    then show ?thesis
      using Suc.IH [of es1 d1] loop x(3) d2(1) Suc.prems(3) by (auto simp: frame_def)
  qed
qed simp

lemma visit_map_loop_typed:
  assumes R: "well_typed R" and kx: "asked k" "asked x" and m: "ad_array_signature (md_ad m) = signature.Dict k x"
      "md_key_signature m = k" "md_value_signature m = x"
    and "visit_map_loop n (R k) (R x) m (es, signature.Dict k x) d = Some (Ok (es', s'), d')"
    and "value_ok (Dict es (signature.Dict k x))" "de_sig d = k"
  shows "s' = signature.Dict k x \<and> value_ok (Dict es' s') \<and> de_sig d' = s' \<and> de_bytes d' = de_bytes d"
  using assms(7-)
proof (induction n arbitrary: es d)
  case (Suc n)
  from Suc.prems(1) obtain a d1 where a: "array_next_element (md_ad m) (R k) d = Some (Ok a, d1)"
    and rest: "(case a of None \<Rightarrow> ret (es, signature.Dict k x)
      | Some key \<Rightarrow> dbind (next_value_seed m (R x)) (\<lambda>v.
         dbind (lift (map_err (\<lambda>_. Message Custom) (dict_append (es, signature.Dict k x) key v)))
           (\<lambda>dict. visit_map_loop n (R k) (R x) m dict))) d1 = Some (Ok (es', s'), d')"
    by (auto simp: next_key_seed_def)
  show ?case
  proof (cases a)
    case None
    then show ?thesis
      using rest Suc.prems(2) array_next_element_None [OF a [unfolded None]] m by auto
  next
    case (Some key)
    obtain d2 where d2: "frame d d2" "R k d2 = Some (Ok key, d1)"
      using array_next_element_Some [OF a [unfolded Some]] by blast
    note key = well_typedD [OF R d2(2) _ kx(1)]
    from rest Some obtain b d3 es1 s1 where b: "R x (d1\<lparr>de_sig := x\<rparr>) = Some (Ok b, d3)"
      and app: "dict_append (es, signature.Dict k x) key b = Ok (es1, s1)"
      and loop: "visit_map_loop n (R k) (R x) m (es1, s1) (d3\<lparr>de_sig := k\<rparr>) = Some (Ok (es', s'), d')"
      using m by (auto simp: next_value_seed_def array_next_frame split: option.splits prod.splits)
    note b = well_typedD [OF R b _ kx(2)]
    have s1: "s1 = signature.Dict k x"
      using app by (auto simp: dict_append_def bind_res_eq_Ok split: if_splits)
    moreover have "value_ok (Dict es1 s1)"
      using key(1) b(1) d2(1) Suc.prems(3) by (intro dict_append_ok [OF Suc.prems(2) _ _ app]) (auto simp: frame_def)
    ultimately show ?thesis
      using Suc.IH [of es1 "d3\<lparr>de_sig := k\<rparr>"] loop key(3) b(3) d2(1) Suc.prems(3) by (auto simp: frame_def)
  qed
qed simp

text \<open>A field is read with the signature that the structure has for it.\<close>

lemma struct_next_element_typed:
  assumes R: "well_typed R" and "i < length flds" "asked (flds ! i)" "de_sig d = signature.Structure flds"
    and "struct_next_element i (length flds) (R (flds ! i)) d = Some (Ok (v, sa), d')"
  obtains x where "v = Some x" "sa = Struct_Access (Suc i) (length flds)" "value_ok x"
    "value_signature x = flds ! i" "frame d d'"
proof -
  from assms(2,4,5) obtain x d1 where x: "R (flds ! i) (d\<lparr>de_sig := flds ! i\<rparr>) = Some (Ok x, d1)"
    and v: "v = Some x" "sa = Struct_Access (Suc i) (length flds)"
    and d': "dbind (\<lambda>d. if i + 1 = length flds then set_depths (dec_structure (de_depths d)) d else ret () d)
        (\<lambda>_. ret (Some x, Struct_Access (i + 1) (length flds))) (d\<lparr>de_pos := de_pos d1\<rparr>) = Some (Ok (v, sa), d')"
    by (auto simp: struct_next_element_def split: option.splits prod.splits)
  have "frame d d'"
    using d' by (auto simp: frame_def dest!: frames split: if_splits)
  then show ?thesis
    using that v well_typedD(1,2) [OF R x _ assms(3)] by simp
qed

lemma visit_struct_loop_typed:
  assumes R: "well_typed R" and flds: "\<forall>s \<in> set flds. asked s"
    and "visit_struct_loop N R rest (Struct_Access i (length flds)) b d = Some (Ok b', d')"
    and "rest = drop i flds" "i \<le> length flds" "list_all value_ok b" "map value_signature b = take i flds"
      "de_sig d = signature.Structure flds"
  shows "list_all value_ok b' \<and> map value_signature b' = flds \<and> frame d d'"
  using assms(3-)
proof (induction rest arbitrary: i b d)
  case (Cons s rest)
  have i: "i < length flds" "flds ! i = s" "rest = drop (Suc i) flds"
    using Cons.prems(2) by (metis drop_all list.discI not_le, metis Cons_nth_drop_Suc drop_all list.discI list.inject not_le,
        metis drop_Suc drop_tl list.sel(3))
  from Cons.prems(1) obtain v sa d1 where v: "struct_next_element i (length flds) (R s) d = Some (Ok (v, sa), d1)"
    and loop: "visit_struct_loop N R rest sa (case v of None \<Rightarrow> b | Some v \<Rightarrow> append_field b v) d1 = Some (Ok b', d')"
    by (auto simp: next_element_seed_def)
  have "asked (flds ! i)"
    using flds i(1) nth_mem by blast
  from struct_next_element_typed [OF R i(1) this Cons.prems(6) v [folded i(2)]] obtain x where
    x: "v = Some x" "sa = Struct_Access (Suc i) (length flds)" "value_ok x" "value_signature x = s" "frame d d1"
    using i(2) by metis
  have "list_all value_ok b' \<and> map value_signature b' = flds \<and> frame d1 d'"
    using loop Cons.prems x i
    by (intro Cons.IH [of "Suc i" "b @ [x]"]) (auto simp: append_field_def take_Suc_conv_app_nth frame_def)
  then show ?case
    using x(5) frame_trans by blast
qed (auto)

section \<open>Variants\<close>

text \<open>The signature that is read as a string and the one that is parsed again for the value are the same.\<close>

lemma deserialize_signature_variant:
  assumes "deserialize_signature N E d = Some (Ok s, d')" "de_sig d = signature.Variant"
  shows "frame d d' \<and> from_bytes N (take (code (de_bytes d ! de_pos d)) (drop (de_pos d + 1) (de_bytes d))) = Ok s"
proof -
  obtain t where t: "deserialize_str E d = Some (Ok t, d')" "from_str N t = Ok s"
    using assms(1) by (auto simp: deserialize_signature_def)
  have "t = take (code (de_bytes d ! de_pos d)) (drop (de_pos d + 1) (de_bytes d))"
    using t(1) assms(2)
    by (auto simp: deserialize_str_def next_slice_def take_Suc_conv_app_nth hd_drop_conv_nth split: if_splits list.split_asm)
  then show ?thesis
    using t by (auto simp: from_str_def from_bytes_def dest: frames)
qed

context nom_laws
begin

lemma from_bytes_asked: "from_bytes N b = Ok s \<Longrightarrow> asked s"
  by (auto simp: from_bytes_def parse_Ok_iff)

lemma value_visitor_seq_typed:
  assumes R: "well_typed R" and d: "de_sig d = signature.Variant"
    and run: "value_visitor_seq N E R (Value_Access Signature_Stage (de_pos d)) d = Some (Ok v, d')"
  shows "value_ok v \<and> asked (value_signature v) \<and> frame d d'"
proof -
  let ?p = "de_pos d"
  from run obtain s d1 r sa where s: "deserialize_signature N E d = Some (Ok s, d1)"
    and r: "value_next_element N Value_Stage ?p (R s) d1 = Some (Ok (Some v, sa), d')"
    by (auto simp: value_visitor_seq_def next_element_seed_def value_next_element_def [of _ Signature_Stage]
        split: option.split_asm)
  note s = deserialize_signature_variant [OF s d]
  have b: "de_bytes d1 = de_bytes d"
    using s by (simp add: frame_def)
  let ?e = "?p + 1 + code (de_bytes d ! ?p)"
  from r b obtain slice t bs dep d2 where t: "subslice (de_bytes d) (?p + 1) ?e = Ok slice" "from_bytes N slice = Ok t"
    and v: "R s \<lparr>de_ctxt = (de_ctxt d1)\<lparr>c_position := c_position (de_ctxt d1) + (?e + 1)\<rparr>,
        de_bytes = bs, de_fds = de_fds d1, de_pos = 0, de_sig = t, de_depths = dep\<rparr> = Some (Ok v, d2)"
    and d': "d' = d1\<lparr>de_pos := de_pos d1 + de_pos d2\<rparr>"
    by (auto simp: value_next_element_def Let_def split: if_splits option.split_asm)
  have "slice = take (code (de_bytes d ! ?p)) (drop (?p + 1) (de_bytes d))"
    using t(1) by (auto simp: subslice_def split: if_splits)
  then have "t = s"
    using s t(2) by simp
  then show ?thesis
    using well_typedD(1,2) [OF R v] from_bytes_asked [OF t(2)] s d' by (simp add: frame_def)
qed

section \<open>All values\<close>

lemma de_value_typed: "well_typed (de_value N E n)"
proof (induction n)
  case (Suc n)
  let ?R = "de_value N E n"
  have "value_ok v \<and> value_signature v = de_sig d \<and> frame d d'"
    if a: "asked (de_sig d)" and run: "de_value N E (Suc n) (de_sig d) d = Some (Ok v, d')" for d v d'
  proof (cases "de_sig d")
    case (Array c)
    with run obtain ad d1 d2 d3 es s es' where d1: "frame d d1" and ad: "array_de_new E d1 = Some (Ok ad, d2)"
      and "visit_array_loop N n (?R c) (Array_Access ad) ([], signature.Array c) d2 = Some (Ok (es', s), d')"
        "v = Array es' s"
      by (auto simp: deserialize_any_def deserialize_seq_def value_seed_def value_seed_seq_def visit_array_def
          array_new_full_signature_def frame_def dest!: frames)
    then show ?thesis
      using visit_array_loop_typed [OF Suc.IH, of c ad N n "[]" d2 es' s d'] array_de_new_sig [OF ad] a Array
      by (auto simp: frame_def)
  next
    case (Dict k x)
    with run obtain m ad d1 d2 s es' where d1: "frame d d1" and ad: "array_de_new E d1 = Some (Ok ad, d2)"
      and "visit_map_loop n (?R k) (?R x) \<lparr>md_ad = ad, md_key_signature = k, md_value_signature = x\<rparr>
          ([], signature.Dict k x) d2 = Some (Ok (es', s), d')"
        "v = Dict es' s"
      by (auto simp: deserialize_any_def deserialize_seq_def value_seed_def value_seed_map_def map_de_new_def
          dict_new_full_signature_def frame_def dest!: frames)
    then show ?thesis
      using visit_map_loop_typed [OF Suc.IH, of k x "\<lparr>md_ad = ad, md_key_signature = k, md_value_signature = x\<rparr>"
          n "[]" d2 es' s d'] array_de_new_sig [OF ad] a Dict
      by (auto simp: frame_def)
  next
    case (Structure flds)
    with run obtain d1 b where d1: "frame d d1" 
      and "visit_struct_loop N ?R flds (Struct_Access 0 (length flds)) [] d1 = Some (Ok b, d')"
        "v = Structure b (signature.Structure flds)"
      by (auto simp: deserialize_any_def deserialize_seq_def value_seed_def value_seed_seq_def visit_struct_def
          struct_de_new_def build_with_signature_def frame_def dest!: frames)
    then show ?thesis
      using visit_struct_loop_typed [OF Suc.IH, of flds N flds 0 "[]" d1 b d'] a Structure
      by (auto simp: frame_def list_all_iff)
  next
    case Variant
    with run obtain d1 w where d1: "frame d d1" "value_visitor_seq N E ?R (Value_Access Signature_Stage (de_pos d1)) d1 = Some (Ok w, d')"
        "v = Value w"
      by (auto simp: deserialize_any_def deserialize_seq_def value_seed_def value_seed_seq_def frame_def dest!: frames)
    then show ?thesis
      using value_visitor_seq_typed [OF Suc.IH _ d1(2)] Variant by (auto simp: frame_def)
  qed (use run in \<open>auto simp: deserialize_any_def value_seed_def value_seed_i32_def value_seed_str_def bind_res_eq_Ok
      dest: frames\<close>)
  then show ?case
    unfolding well_typed_def by blast
qed (simp add: well_typed_def)

lemma data_deserialize_typed:
  assumes "data_deserialize N E n dat = Some (Ok (v, k))"
  shows "value_ok v \<and> asked (value_signature v)"
proof -
  let ?d = "new_deserializer (data_bytes dat) (Some (data_fds dat)) signature.Variant (data_context dat)"
  from assms obtain d1 d' where d1: "frame ?d d1"
    and run: "value_visitor_seq N E (de_value N E n) (Value_Access Signature_Stage (de_pos d1)) d1 = Some (Ok v, d')"
    by (auto simp: data_deserialize_def deserialize_for_signature_def deserialize_value_def deserialize_any_def
        deserialize_seq_def value_visitor_def new_deserializer_def bind_res_eq_Ok frame_def dest!: frames
        split: option.splits)
  show ?thesis
    using value_visitor_seq_typed [OF de_value_typed _ run] d1 by (simp add: frame_def new_deserializer_def)
qed

end

section \<open>Properties\<close>

text \<open>C23: Whatever the bytes are, a value that \<^verbatim>\<open>Data::deserialize\<close> returns is well typed: the elements of its arrays, the
  entries of its dictionaries and the fields of its structures have the signatures that it carries, at every level.\<close>

theorem deserialized_well_typed:
  assumes "nom_laws N" "data_deserialize N E n dat = Some (Ok (v, k))"
  shows "value_ok v \<and> (sig_wf (value_signature v) \<or> value_signature v = Unit)"
  using nom_laws.data_deserialize_typed [OF assms] .

theorem deserialized_well_typed_witness:
  "\<exists>v k. data_deserialize nom_ref endi_ref 6 (new_fds sample_bytes \<lparr>c_endian = Little, c_position = 0\<rparr> []) =
     Some (Ok (v, k)) \<and> value_ok v"
proof -
  let ?c = "\<lparr>c_endian = Little, c_position = 0\<rparr>"
  have "to_bytes nom_ref endi_ref (\<lambda>_. Some) ?c sample_value = Ok (new_fds sample_bytes ?c [])"
    using wr.to_bytes_enc [OF sample_value_ok] by (simp add: sample_encoding del: enc.simps)
  moreover have "readable sample_value" "fuel sample_value \<le> 6"
    by code_simp+
  ultimately have "data_deserialize nom_ref endi_ref 6 (new_fds sample_bytes ?c []) =
      Some (Ok (sample_value, length (data_bytes (new_fds sample_bytes ?c []))))"
    using wr.roundtrip [OF sample_value_ok(1,2) _ sample_value_ok(3)] by blast
  then show ?thesis
    using deserialized_well_typed [OF nr.nom_laws_axioms] by blast
qed

end
