(* ===== verification/DBus_Enums.thy ===== *)
theory DBus_Enums
  imports DBus_Typing DBus_Depth
begin

text \<open>
  Enums of Rust in the D-Bus format: the functions of \<^verbatim>\<open>zvariant/src/dbus/ser.rs\<close> and \<^verbatim>\<open>dbus/de.rs\<close> for variants, and the accessor
  \<^verbatim>\<open>Enum\<close> of \<^verbatim>\<open>zvariant/src/de.rs\<close>. The code of the enum itself is not part of zvariant: the indices and names that its visitor knows and
  what it does after the identifier are parameters. A variant alone is read back as it was written; in arrays, the state that the
  functions for one variant leave behind gets in the way of the next.
\<close>

section \<open>Writing a variant\<close>

text \<open>\<^verbatim>\<open>serialize_tuple_variant\<close> and \<^verbatim>\<open>serialize_struct_variant\<close>; the fields and \<^verbatim>\<open>end\<close> are those of structures.\<close>

definition serialize_tuple_variant :: "endi \<Rightarrow> u32 \<Rightarrow> ser \<Rightarrow> (zerror, struct_seq_ser \<times> ser) res" where
  "serialize_tuple_variant E variant_index s =
     bind_res (enum_variant E variant_index s) (\<lambda>(t, s). Ok (Struct_S t, s))"

section \<open>Reading a variant\<close>

text \<open>\<^verbatim>\<open>deserialize_enum\<close>: the argument is \<^verbatim>\<open>visit_enum\<close> of the visitor, on the accessor that is this deserializer.\<close>

definition deserialize_enum :: "'v dm \<Rightarrow> 'v dm" where
  "deserialize_enum visit_enum d =
     dbind (lift (dbus_alignment (de_sig d))) (\<lambda>a. dbind (parse_padding a) (\<lambda>_. visit_enum)) d"

text \<open>
  \<^verbatim>\<open>deserialize_identifier\<close>, with \<^verbatim>\<open>visit_u32\<close> and \<^verbatim>\<open>visit_borrowed_str\<close> of the visitor. For a structure the signature
  becomes that of the content, before it is looked at whether the index could be read.
\<close>

definition deserialize_identifier ::
  "endi \<Rightarrow> (u32 \<Rightarrow> (zerror, 'v) res) \<Rightarrow> (string \<Rightarrow> (zerror, 'v) res) \<Rightarrow> 'v dm" where
  "deserialize_identifier E visit_u32 visit_str d =
     (case de_sig d of
        signature.Str \<Rightarrow> dbind (deserialize_str E) (\<lambda>v. lift (visit_str v)) d
      | signature.U32 \<Rightarrow> dbind (deserialize_u32 E signature.U32) (\<lambda>v. lift (visit_u32 v)) d
      | signature.Structure [] \<Rightarrow>
          throw (SignatureMismatch (de_sig d) ''a structure with 2 fields and u32 as its first field'') d
      | signature.Structure (index_signature # flds) \<Rightarrow>
          (case dbind (deserialize_u32 E signature.U32) (\<lambda>v. lift (visit_u32 v)) (d\<lparr>de_sig := index_signature\<rparr>) of
             None \<Rightarrow> None
           | Some (v, d) \<Rightarrow>
               (case flds of
                  [] \<Rightarrow> throw (SignatureMismatch (de_sig d) ''a structure with 2 fields and u32 as its first field'') d
                | content # _ \<Rightarrow> Some (v, d\<lparr>de_sig := content\<rparr>)))
      | s \<Rightarrow> throw (SignatureMismatch s ''a string, object path or signature'') d)"

text \<open>The accessor \<^verbatim>\<open>Enum\<close>. \<^verbatim>\<open>deserialize_struct\<close> is \<^verbatim>\<open>deserialize_seq\<close>.\<close>

definition variant_seed :: "'v dm \<Rightarrow> 'v dm" where
  "variant_seed seed = dbind seed (\<lambda>v. ret v)"

definition unit_variant :: "unit dm" where
  "unit_variant = ret ()"

definition newtype_variant_seed :: "'v dm \<Rightarrow> 'v dm" where
  "newtype_variant_seed seed = seed"

definition tuple_variant :: "endi \<Rightarrow> 'v visitor \<Rightarrow> 'v dm" where
  "tuple_variant E V = deserialize_seq E V"

section \<open>The format of an enum\<close>

text \<open>
  The calls that write a variant of several values, and the vector of the elements that \<open>ws\<close> write; the calls that read an enum, for a
  visitor that takes the identifier with \<open>vi\<close> or \<open>vn\<close> and goes on with \<open>visit\<close>.
\<close>

abbreviation write_tuple :: "nom \<Rightarrow> endi \<Rightarrow> dup \<Rightarrow> u32 \<Rightarrow> zvalue list \<Rightarrow> ser \<Rightarrow> (zerror, ser) res" where
  "write_tuple N E D i vs s \<equiv>
     bind_res (serialize_tuple_variant E i s) (\<lambda>xs.
     bind_res (serialize_fields N E D vs xs) (\<lambda>xs. end_struct_seq E xs))"

abbreviation write_vector :: "endi \<Rightarrow> (ser \<Rightarrow> (zerror, ser) res) list \<Rightarrow> ser \<Rightarrow> (zerror, ser) res" where
  "write_vector E ws s \<equiv>
     bind_res (serialize_seq E s) (\<lambda>(q, s). bind_res (fold_res (\<lambda>w. w) ws s) (\<lambda>s. end_seq E q s))"

abbreviation read_enum ::
  "endi \<Rightarrow> (u32 \<Rightarrow> (zerror, 'k) res) \<Rightarrow> (string \<Rightarrow> (zerror, 'k) res) \<Rightarrow> ('k \<Rightarrow> 'v dm) \<Rightarrow> 'v dm" where
  "read_enum E vi vn visit \<equiv> deserialize_enum (dbind (variant_seed (deserialize_identifier E vi vn)) visit)"

fun is_structure :: "signature \<Rightarrow> bool" where
  "is_structure (signature.Structure _) = True"
| "is_structure _ = False"

definition content_ok :: "zvalue \<Rightarrow> bool" where
  "content_ok v \<longleftrightarrow> value_ok v \<and> plain v \<and> readable v"

text \<open>The bytes of a variant of several values. The inner structure does not count for the nesting.\<close>

definition tuple_bytes :: "endi \<Rightarrow> endian \<Rightarrow> depths \<Rightarrow> u32 \<Rightarrow> zvalue list \<Rightarrow> nat \<Rightarrow> (zerror, byte list) res" where
  "tuple_bytes E e d i vs n =
     bind_res (inc_structure d) (\<lambda>d'.
       enc_then (\<lambda>n. enc_basic n 8 []) (enc_then (enc E e d' (U32 i))
         (enc_then (\<lambda>n. enc_basic n 8 []) (enc_all E e d' vs))) n)"

text \<open>The action \<open>w\<close> writes \<open>b\<close>, with its errors, and \<open>rd\<close> reads \<open>r\<close> from all of it.\<close>

definition round_trip ::
  "ctx \<Rightarrow> signature \<Rightarrow> (ser \<Rightarrow> (zerror, ser) res) \<Rightarrow> (zerror, byte list) res \<Rightarrow> 'v dm \<Rightarrow> 'v \<Rightarrow> bool" where
  "round_trip c g w b rd r \<longleftrightarrow>
     to_bytes_for_signature c g w = map_ok (\<lambda>bs. new_fds bs c []) b \<and>
     (\<forall>dat. to_bytes_for_signature c g w = Ok dat \<longrightarrow>
       deserialize_for_signature g rd dat = Some (Ok (r, length (data_bytes dat))))"

lemma round_tripI:
  assumes "w (new_serializer g (Cursor [] 0) (Fds []) c) = map_ok (write_all s) b" "out_writer s = Cursor [] 0" "fds s = Fds []"
    "\<And>bs. b = Ok bs \<Longrightarrow> \<exists>h. rd (new_deserializer bs (Some []) g c) =
       Some (Ok r, (adv (new_deserializer bs (Some []) g c) (length bs))\<lparr>de_sig := h\<rparr>)"
  shows "round_trip c g w b rd r"
proof (cases b)
  case (Ok bs)
  with assms(4) show ?thesis
    using assms(1-3)
    by (auto simp: round_trip_def to_bytes_for_signature_def to_writer_for_signature_def write_all_def deserialize_for_signature_def
        new_fds_def data_bytes_def new_deserializer_def)
qed (use assms in \<open>simp_all add: round_trip_def to_bytes_for_signature_def to_writer_for_signature_def\<close>)

lemma new_deserializer_facts:
  "upcoming (new_deserializer bs f g c) bs" "de_sig (new_deserializer bs f g c) = g" "de_depths (new_deserializer bs f g c) = no_depths"
  "de_endian (new_deserializer bs f g c) = c_endian c" "de_abs_pos (new_deserializer bs f g c) = c_position c"
  by (simp_all add: new_deserializer_def upcoming_def de_endian_def de_abs_pos_def)

lemma new_serializer_facts:
  "sig (new_serializer g w f c) = g" "container_depths (new_serializer g w f c) = no_depths" "value_sign (new_serializer g w f c) = None"
  "out_writer (new_serializer g w f c) = w" "fds (new_serializer g w f c) = f"
  "ready (new_serializer g (Cursor [] 0) f c)" "endian_of (new_serializer g w f c) = c_endian c"
  "abs_pos (new_serializer g w f c) = c_position c"
  by (simp_all add: new_serializer_def endian_of_def abs_pos_def)

lemma padding_8_4 [simp]: "padding (n + padding n 8) 4 = 0"
proof -
  have "(n + padding n 8) mod 8 = 0" by (rule padding_bounds) simp
  then have "(n + padding n 8) mod 4 = 0" by presburger
  then show ?thesis by (intro padding_0) simp_all
qed

text \<open>What \<^verbatim>\<open>enum_variant\<close> leaves: the index is written, the nesting is one deeper, and the signature is the inner structure's, if any.\<close>

definition enum_head :: "endi \<Rightarrow> endian \<Rightarrow> signature \<Rightarrow> u32 \<Rightarrow> nat \<Rightarrow> byte list" where
  "enum_head E e g i n =
     (let b = pad n 8 @ write_u32 E e i in if is_structure g then b @ pad (n + length b) 8 else b)"

context wire_laws
begin

lemma struct_element_enc:
  assumes "sig s = signature.Structure ss" "t_field_idx t < length ss" "value_sign s = None"
    "f (s\<lparr>sig := ss ! t_field_idx t\<rparr>) = map_ok (write_all (s\<lparr>sig := ss ! t_field_idx t\<rparr>)) r"
  shows "serialize_struct_element f (t, s) = map_ok (\<lambda>bs. (t\<lparr>t_field_idx := t_field_idx t + 1\<rparr>, write_all s bs)) r"
  using assms by (cases r) (simp_all add: serialize_struct_element_def ser_simps)

lemma enum_variant_eq:
  assumes "ready s" "sig s = signature.Structure [signature.U32, g]" "value_sign s = None"
  shows "enum_variant E i s =
    map_ok (\<lambda>d. (\<lparr>t_container_depths = container_depths s, t_field_idx = if is_structure g then 0 else 1\<rparr>,
        write_all (s\<lparr>container_depths := d, sig := if is_structure g then g else sig s\<rparr>)
          (enum_head E (endian_of s) g i (abs_pos s)))) (inc_structure (container_depths s))"
proof (cases "inc_structure (container_depths s)")
  case (Ok d)
  let ?s = "write_all (s\<lparr>container_depths := d\<rparr>) (pad (abs_pos s) 8)"
  have "serialize_struct_element (serialize_u32 E i) (\<lparr>t_container_depths = container_depths s, t_field_idx = 0\<rparr>, ?s) =
      Ok (\<lparr>t_container_depths = container_depths s, t_field_idx = 1\<rparr>, write_all ?s (write_u32 E (endian_of s) i))"
    using assms
    by (subst struct_element_enc [where ss = "[signature.U32, g]" and r = "Ok (write_u32 E (endian_of s) i)"])
      (simp_all add: serialize_u32_def serialize_basic_enc dbus_alignment_def alignment_def enc_basic_def)
  then show ?thesis
    using assms Ok
    by (cases g) (simp_all add: enum_variant_def STRUCT_ALIGNMENT_DBUS_def struct_structure_def enum_head_def Let_def ser_simps)
qed (use assms in \<open>simp_all add: enum_variant_def STRUCT_ALIGNMENT_DBUS_def struct_structure_def ser_simps\<close>)

lemma newtype_variant_enc:
  assumes "refines N E D v" "ready s" "sig s = signature.Structure [signature.U32, value_signature v]" "value_sign s = None"
    "\<not> is_structure (value_signature v)"
  shows "serialize_newtype_variant E i (serialize_inner N E D v) s =
    bind_res (inc_structure (container_depths s)) (\<lambda>d.
      map_ok (write_all (s\<lparr>container_depths := d\<rparr>))
        (enc E (endian_of s) (container_depths s) (Structure [U32 i, v] (sig s)) (abs_pos s)))"
proof (cases "inc_structure (container_depths s)")
  case (Ok d)
  let ?s = "write_all (s\<lparr>container_depths := d\<rparr>) (enum_head E (endian_of s) (value_signature v) i (abs_pos s))"
  let ?t = "\<lparr>t_container_depths = container_depths s, t_field_idx = 1\<rparr>"
  have "serialize_inner N E D v (?s\<lparr>sig := value_signature v\<rparr>) =
      map_ok (write_all (?s\<lparr>sig := value_signature v\<rparr>)) (enc E (endian_of s) d v (abs_pos ?s))"
    using refinesD [OF assms(1), of "?s\<lparr>sig := value_signature v\<rparr>"] assms by simp
  then have "serialize_struct_element (serialize_inner N E D v) (?t, ?s) =
      map_ok (\<lambda>bs. (?t\<lparr>t_field_idx := t_field_idx ?t + 1\<rparr>, write_all ?s bs)) (enc E (endian_of s) d v (abs_pos ?s))"
    using assms by (intro struct_element_enc [where ss = "[signature.U32, value_signature v]"]) simp_all
  then show ?thesis
    using assms Ok
    by (cases "enc E (endian_of s) d v (abs_pos ?s)")
      (simp_all add: serialize_newtype_variant_def enum_variant_eq enc_then_def enc_basic_def enum_head_def ser_simps add_ac)
qed (use assms in \<open>simp_all add: serialize_newtype_variant_def enum_variant_eq\<close>)

lemma tuple_variant_enc:
  assumes "\<forall>v \<in> set vs. refines N E D v" "ready s"
    "sig s = signature.Structure [signature.U32, signature.Structure (map value_signature vs)]" "value_sign s = None"
  shows "write_tuple N E D i vs s =
    map_ok (write_all (s\<lparr>sig := signature.Structure (map value_signature vs)\<rparr>))
      (tuple_bytes E (endian_of s) (container_depths s) i vs (abs_pos s))"
proof (cases "inc_structure (container_depths s)")
  case (Ok d)
  let ?g = "signature.Structure (map value_signature vs)"
  let ?t = "\<lparr>t_container_depths = container_depths s, t_field_idx = 0\<rparr>"
  let ?s = "write_all (s\<lparr>container_depths := d, sig := ?g\<rparr>) (enum_head E (endian_of s) ?g i (abs_pos s))"
  have "serialize_fields N E D vs (Struct_S ?t, ?s) =
      map_ok (\<lambda>bs. (Struct_S (?t\<lparr>t_field_idx := length vs\<rparr>), write_all ?s bs))
        (enc_all E (endian_of s) d vs (abs_pos ?s))"
    using fields_enc [where s = ?s and t = ?t and fs = vs and ss = "map value_signature vs"] assms by simp
  then show ?thesis
    using assms Ok
    by (cases "enc_all E (endian_of s) d vs (abs_pos ?s)")
      (simp_all add: serialize_tuple_variant_def enum_variant_eq tuple_bytes_def enc_then_def enc_basic_def
        enum_head_def end_struct_seq_def end_struct_def ser_simps add_ac)
qed (use assms in \<open>simp_all add: serialize_tuple_variant_def enum_variant_eq tuple_bytes_def\<close>)

end

section \<open>Reading what was written\<close>

context wire_laws
begin

lemma read_enum_head:
  assumes "de_sig d = signature.Structure [signature.U32, g]"
    "upcoming d (pad (de_abs_pos d) 8 @ write_u32 E (de_endian d) i)" "vi i = Ok k"
  shows "read_enum E vi vn visit d = visit k ((adv d (padding (de_abs_pos d) 8 + 4))\<lparr>de_sig := g\<rparr>)"
proof -
  let ?p = "padding (de_abs_pos d) 8"
  have up: "upcoming d (pad (de_abs_pos d) 8)" "upcoming (adv d ?p) (write_u32 E (de_endian d) i)"
    using assms(2) by simp_all
  have "deserialize_u32 E signature.U32 (adv (d\<lparr>de_sig := signature.U32\<rparr>) ?p) =
      Some (Ok i, adv (adv (d\<lparr>de_sig := signature.U32\<rparr>) ?p) (padding (de_abs_pos (adv (d\<lparr>de_sig := signature.U32\<rparr>) ?p)) 4 + 4))"
    using up(2) by (intro read_words) (simp_all add: dbus_alignment_def alignment_def pad_def)
  then show ?thesis
    using assms(1,3) parse_padding_pad [OF up(1)]
    by (simp add: deserialize_enum_def variant_seed_def deserialize_identifier_def dbus_alignment_def alignment_def
        dbind_Some dbind_assoc lift_def adv_update dbind_def)
qed

lemma read_newtype:
  assumes "de_sig d = signature.Structure [signature.U32, value_signature v]" "content_ok v" "fuel v \<le> n" "upcoming d bs"
    "enc E (de_endian d) (de_depths d) (Structure [U32 i, v] s) (de_abs_pos d) = Ok bs" "vi i = Ok k"
    "visit k = dbind (newtype_variant_seed (de_value N E n (value_signature v))) (\<lambda>v. ret (mk v))"
  shows "read_enum E vi vn visit d = Some (Ok (mk v), (adv d (length bs))\<lparr>de_sig := value_signature v\<rparr>)"
proof -
  let ?p = "padding (de_abs_pos d) 8" and ?g = "value_signature v"
  obtain d' b where b: "inc_structure (de_depths d) = Ok d'" "enc E (de_endian d) d' v (de_abs_pos d + (?p + 4)) = Ok b"
      "bs = pad (de_abs_pos d) 8 @ write_u32 E (de_endian d) i @ b"
    using assms(5) by (auto simp: enc_then_def enc_basic_def map_ok_eq_Ok add_ac)
  then have "enc E (de_endian d) (de_depths d) v (de_abs_pos d + (?p + 4)) = Ok b"
    using enc_shrinks inc_structure_le unfolding shrinks_def by blast
  moreover have "reads N E v" using assms(2) by (intro readable_reads) (auto simp: content_ok_def)
  ultimately have "de_value N E n ?g ((adv d (?p + 4))\<lparr>de_sig := ?g\<rparr>) =
      Some (Ok v, adv ((adv d (?p + 4))\<lparr>de_sig := ?g\<rparr>) (length b))"
    using assms(3,4) b(3) by (intro readsD) (auto simp: add_ac)
  then show ?thesis
    using assms(1,4,6,7) b(3)
    by (simp add: read_enum_head [of d ?g i vi k] newtype_variant_seed_def dbind_Some lift_def adv_update add_ac)
qed

lemma read_tuple_content:
  assumes "de_sig d = signature.Structure (map value_signature vs)" "vs \<noteq> []" "\<forall>v \<in> set vs. reads N E v \<and> fuel v \<le> n"
    "inc_structure (de_depths d) = Ok d'" "enc_all E (de_endian d) d' vs (de_abs_pos d + padding (de_abs_pos d) 8) = Ok b"
    "upcoming d (pad (de_abs_pos d) 8 @ b)"
  shows "tuple_variant E (value_seed N E n (de_value N E n) (signature.Structure (map value_signature vs))) d =
    Some (Ok (Structure vs (signature.Structure (map value_signature vs))), adv d (padding (de_abs_pos d) 8 + length b))"
proof -
  let ?p = "padding (de_abs_pos d) 8" and ?ss = "map value_signature vs"
  have up: "upcoming d (pad (de_abs_pos d) 8)" "upcoming (adv d ?p) b" using assms(6) by simp_all
  have "visit_struct_loop N (de_value N E n) ?ss (Struct_Access 0 (length ?ss)) [] ((adv d ?p)\<lparr>de_depths := d'\<rparr>) =
      Some (Ok ([] @ vs), (adv ((adv d ?p)\<lparr>de_depths := d'\<rparr>) (length b))\<lparr>de_depths := de_depths d\<rparr>)"
    using assms up(2) dec_inc_depths(1) [OF assms(4)] by (intro read_struct_loop) (auto simp: adv_update)
  then show ?thesis
    using assms(1,4) parse_padding_pad [OF up(1)] parse_padding_aligned [of "adv d ?p" 8]
    by (simp add: tuple_variant_def deserialize_seq_def value_seed_def value_seed_seq_def visit_struct_def build_with_signature_def
        struct_de_new_def STRUCT_ALIGNMENT_DBUS_def
        set_depths_def dbus_alignment_def alignment_def dbind_Some lift_def adv_update)
qed

lemma read_tuple:
  assumes "de_sig d = signature.Structure [signature.U32, signature.Structure (map value_signature vs)]" "list_all content_ok vs"
    "vs \<noteq> []" "\<forall>v \<in> set vs. fuel v \<le> n" "upcoming d bs"
    "tuple_bytes E (de_endian d) (de_depths d) i vs (de_abs_pos d) = Ok bs" "vi i = Ok k"
    "visit k = dbind (tuple_variant E (value_seed N E n (de_value N E n) (signature.Structure (map value_signature vs)))) (\<lambda>v. ret (mk v))"
  shows "read_enum E vi vn visit d =
    Some (Ok (mk (Structure vs (signature.Structure (map value_signature vs)))),
      (adv d (length bs))\<lparr>de_sig := signature.Structure (map value_signature vs)\<rparr>)"
proof -
  let ?p = "padding (de_abs_pos d) 8" and ?g = "signature.Structure (map value_signature vs)"
  let ?d = "(adv d (?p + 4))\<lparr>de_sig := ?g\<rparr>"
  obtain d' b where b: "inc_structure (de_depths d) = Ok d'"
      "enc_all E (de_endian d) d' vs (de_abs_pos ?d + padding (de_abs_pos ?d) 8) = Ok b"
      "bs = pad (de_abs_pos d) 8 @ write_u32 E (de_endian d) i @ pad (de_abs_pos ?d) 8 @ b"
    using assms(6) by (auto simp: tuple_bytes_def enc_then_def enc_basic_def map_ok_eq_Ok bind_res_eq_Ok add_ac)
  have "\<forall>v \<in> set vs. reads N E v"
    using assms(2) by (auto simp: content_ok_def list_all_iff intro!: readable_reads)
  then have "tuple_variant E (value_seed N E n (de_value N E n) ?g) ?d =
      Some (Ok (Structure vs ?g), adv ?d (padding (de_abs_pos ?d) 8 + length b))"
    using assms b by (intro read_tuple_content) auto
  then show ?thesis
    using assms(1,5,7,8) b(3)
    by (simp add: read_enum_head [of d ?g i vi k] dbind_Some lift_def adv_update add_ac)
qed

lemma read_unit_name:
  assumes "de_sig d = signature.Str" "enc_str E (de_endian d) (de_abs_pos d) x = Ok bs" "upcoming d bs" "valid_utf8 x"
    "byte_of 0 \<notin> set x" "vn x = Ok k" "visit k = dbind unit_variant (\<lambda>_. ret r)"
  shows "read_enum E vi vn visit d = Some (Ok r, adv d (length bs))"
proof -
  let ?p = "padding (de_abs_pos d) 4"
  from enc_str_align [OF assms(2)] obtain b where b: "bs = pad (de_abs_pos d) 4 @ b"
    "enc_str E (de_endian d) (de_abs_pos d + ?p) x = Ok b" by blast
  then have up: "upcoming d (pad (de_abs_pos d) 4)" "upcoming (adv d ?p) b" using assms(3) by simp_all
  have "deserialize_str E (adv d ?p) = Some (Ok x, adv (adv d ?p) (length b))"
    using assms(1,4,5) b(2) up(2) by (intro read_str) auto
  then show ?thesis
    using assms(1,6,7) b(1) parse_padding_pad [OF up(1)]
    by (simp add: deserialize_enum_def variant_seed_def unit_variant_def
        deserialize_identifier_def dbus_alignment_def alignment_def dbind_Some dbind_assoc lift_def dbind_def)
qed

lemma read_unit_index:
  assumes "de_sig d = signature.U32" "bs = pad (de_abs_pos d) 4 @ write_u32 E (de_endian d) i" "upcoming d bs"
    "vi i = Ok k" "visit k = dbind unit_variant (\<lambda>_. ret r)"
  shows "read_enum E vi vn visit d = Some (Ok r, adv d (length bs))"
proof -
  let ?p = "padding (de_abs_pos d) 4"
  have up: "upcoming d (pad (de_abs_pos d) 4)" "upcoming (adv d ?p) (write_u32 E (de_endian d) i)"
    using assms(2,3) by simp_all
  have "deserialize_u32 E signature.U32 (adv d ?p) = Some (Ok i, adv (adv d ?p) (padding (de_abs_pos (adv d ?p)) 4 + 4))"
    using up(2) by (intro read_words) (simp_all add: dbus_alignment_def alignment_def)
  then show ?thesis
    using assms parse_padding_pad [OF up(1)]
    by (simp add: deserialize_enum_def variant_seed_def unit_variant_def
        deserialize_identifier_def dbus_alignment_def alignment_def dbind_Some dbind_assoc lift_def dbind_def)
qed

text \<open>Each kind of variant, at the start of a document.\<close>

lemma unit_index_round_trip:
  assumes "vi i = Ok k" "visit k = dbind unit_variant (\<lambda>_. ret r)"
  shows "round_trip c signature.U32 (serialize_unit_variant N E i name) (enc E (c_endian c) no_depths (U32 i) (c_position c))
    (read_enum E vi vn visit) r"
proof (rule round_tripI)
  let ?s = "new_serializer signature.U32 (Cursor [] 0) (Fds []) c"
  show "serialize_unit_variant N E i name ?s = map_ok (write_all ?s) (enc E (c_endian c) no_depths (U32 i) (c_position c))"
    by (simp add: serialize_unit_variant_def serialize_u32_def serialize_basic_enc dbus_alignment_def alignment_def new_serializer_facts)
  fix bs
  assume "enc E (c_endian c) no_depths (U32 i) (c_position c) = Ok bs"
  then show "\<exists>h. read_enum E vi vn visit (new_deserializer bs (Some []) signature.U32 c) =
      Some (Ok r, (adv (new_deserializer bs (Some []) signature.U32 c) (length bs))\<lparr>de_sig := h\<rparr>)"
    using read_unit_index [of "new_deserializer bs (Some []) signature.U32 c" bs i vi k visit r vn, OF _ _ _ assms]
    by (intro exI [of _ signature.U32]) (simp add: new_deserializer_facts enc_basic_def)
qed (simp_all add: new_serializer_facts)

lemma unit_name_round_trip:
  assumes "valid_utf8 name" "byte_of 0 \<notin> set name" "vn name = Ok k" "visit k = dbind unit_variant (\<lambda>_. ret r)"
  shows "round_trip c signature.Str (serialize_unit_variant N E i name) (enc E (c_endian c) no_depths (Str name) (c_position c))
    (read_enum E vi vn visit) r"
proof (rule round_tripI)
  let ?s = "new_serializer signature.Str (Cursor [] 0) (Fds []) c"
  show "serialize_unit_variant N E i name ?s = map_ok (write_all ?s) (enc E (c_endian c) no_depths (Str name) (c_position c))"
    using assms(2) by (simp add: serialize_unit_variant_def serialize_str_enc new_serializer_facts)
  fix bs
  assume "enc E (c_endian c) no_depths (Str name) (c_position c) = Ok bs"
  then show "\<exists>h. read_enum E vi vn visit (new_deserializer bs (Some []) signature.Str c) =
      Some (Ok r, (adv (new_deserializer bs (Some []) signature.Str c) (length bs))\<lparr>de_sig := h\<rparr>)"
    using read_unit_name [of "new_deserializer bs (Some []) signature.Str c" name bs vn k visit r vi, OF _ _ _ assms]
    by (intro exI [of _ signature.Str]) (simp add: new_deserializer_facts)
qed (simp_all add: new_serializer_facts)

lemma newtype_round_trip:
  assumes "content_ok v" "\<not> is_structure (value_signature v)" "fuel v \<le> n" "vi i = Ok k"
    "visit k = dbind (newtype_variant_seed (de_value N E n (value_signature v))) (\<lambda>v. ret (mk v))"
    "g = signature.Structure [signature.U32, value_signature v]"
  shows "round_trip c g (serialize_newtype_variant E i (serialize_inner N E D v))
    (enc E (c_endian c) no_depths (Structure [U32 i, v] g) (c_position c)) (read_enum E vi vn visit) (mk v)"
proof (rule round_tripI)
  let ?s = "new_serializer g (Cursor [] 0) (Fds []) c" and ?d = "no_depths\<lparr>d_structure := 1\<rparr>"
  have "refines N E D v" using assms(1) by (auto simp: content_ok_def intro: plain_refines)
  moreover have "inc_structure no_depths = Ok ?d" by (simp add: inc_structure_def depth_defs no_depths_def)
  ultimately show "serialize_newtype_variant E i (serialize_inner N E D v) ?s =
      map_ok (write_all (?s\<lparr>container_depths := ?d\<rparr>)) (enc E (c_endian c) no_depths (Structure [U32 i, v] g) (c_position c))"
    using newtype_variant_enc [of D v ?s i] assms(2,6) by (simp add: new_serializer_facts)
  fix bs
  assume "enc E (c_endian c) no_depths (Structure [U32 i, v] g) (c_position c) = Ok bs"
  then show "\<exists>h. read_enum E vi vn visit (new_deserializer bs (Some []) g c) =
      Some (Ok (mk v), (adv (new_deserializer bs (Some []) g c) (length bs))\<lparr>de_sig := h\<rparr>)"
    using read_newtype [of "new_deserializer bs (Some []) g c" v n bs i g vi k visit mk vn] assms
    by (simp only: new_deserializer_facts) blast
qed (simp_all add: new_serializer_facts)

lemma tuple_round_trip:
  assumes "list_all content_ok vs" "vs \<noteq> []" "\<forall>v \<in> set vs. fuel v \<le> n" "vi i = Ok k"
    "visit k = dbind (tuple_variant E (value_seed N E n (de_value N E n) (signature.Structure (map value_signature vs)))) (\<lambda>v. ret (mk v))"
    "g = signature.Structure [signature.U32, signature.Structure (map value_signature vs)]"
  shows "round_trip c g (write_tuple N E D i vs) (tuple_bytes E (c_endian c) no_depths i vs (c_position c))
    (read_enum E vi vn visit) (mk (Structure vs (signature.Structure (map value_signature vs))))"
proof (rule round_tripI)
  let ?s = "new_serializer g (Cursor [] 0) (Fds []) c" and ?g = "signature.Structure (map value_signature vs)"
  have "\<forall>v \<in> set vs. refines N E D v" using assms(1) by (auto simp: content_ok_def list_all_iff intro: plain_refines)
  then show "write_tuple N E D i vs ?s = map_ok (write_all (?s\<lparr>sig := ?g\<rparr>)) (tuple_bytes E (c_endian c) no_depths i vs (c_position c))"
    using tuple_variant_enc [of vs D ?s i] assms(6) by (simp add: new_serializer_facts)
  fix bs
  assume "tuple_bytes E (c_endian c) no_depths i vs (c_position c) = Ok bs"
  then show "\<exists>h. read_enum E vi vn visit (new_deserializer bs (Some []) g c) =
      Some (Ok (mk (Structure vs ?g)), (adv (new_deserializer bs (Some []) g c) (length bs))\<lparr>de_sig := h\<rparr>)"
    using read_tuple [of "new_deserializer bs (Some []) g c" vs n bs i vi k visit mk vn] assms
    by (simp only: new_deserializer_facts) blast
qed (simp_all add: new_serializer_facts)

end

section \<open>Enums in arrays\<close>

text \<open>A variant of one value nests deeper, once for each.\<close>

lemma newtype_depth:
  assumes "serialize_newtype_variant E i f s = Ok s'"
  shows "d_structure (container_depths s') = d_structure (container_depths s) + 1 \<and> d_structure (container_depths s') \<le> 32"
proof -
  obtain t s1 t' where v: "enum_variant E i s = Ok (t, s1)" "serialize_struct_element f (t, s1) = Ok (t', s')"
    using assms by (auto simp: serialize_newtype_variant_def bind_res_eq_Ok)
  have keep: "container_depths s'' = container_depths (snd ts)"
    if "serialize_struct_element f ts = Ok (t'', s'')" for f ts t'' s''
    using that by (auto simp: serialize_struct_element_def bind_res_eq_Ok split: prod.splits)
  have add: "container_depths s'' = container_depths s0" if "add_padding s0 a = Ok (p, s'')" for s0 a p s''
    using that by (auto simp: add_padding_def write_all_def Let_def split: if_splits)
  have "\<exists>d. inc_structure (container_depths s) = Ok d \<and> container_depths s1 = d"
    using v(1) by (auto simp: enum_variant_def bind_res_eq_Ok struct_structure_def Let_def split: signature.splits option.splits
        dest!: add keep)
  then show ?thesis
    using keep [OF v(2)] by (auto dest!: inc_depths_Ok simp: depth_defs)
qed

lemma newtypes_depth:
  assumes "fold_res (\<lambda>w. w) (map (\<lambda>(i, f). serialize_newtype_variant E i f) xs) s = Ok s'" "d_structure (container_depths s) \<le> 32"
  shows "d_structure (container_depths s) + length xs \<le> 32"
  using assms
proof (induction xs arbitrary: s)
  case (Cons x xs)
  obtain i f where x: "x = (i, f)" by force
  with Cons.prems(1) obtain s1 where s1: "serialize_newtype_variant E i f s = Ok s1"
      "fold_res (\<lambda>w. w) (map (\<lambda>(i, f). serialize_newtype_variant E i f) xs) s1 = Ok s'"
    by (auto simp: bind_res_eq_Ok)
  show ?case using Cons.IH [OF s1(2)] newtype_depth [OF s1(1)] by simp
qed simp

text \<open>Fields do not fit behind the end of a structure.\<close>

lemma serialize_fields_fit:
  assumes "serialize_fields N E D vs (Struct_S t, s) = Ok r" "sig s = signature.Structure ss" "vs \<noteq> []"
  shows "t_field_idx t + length vs \<le> length ss"
  using assms
proof (induction vs arbitrary: t s)
  case (Cons v vs)
  then obtain t' s' where "serialize_struct_element (serialize_inner N E D v) (t, s) = Ok (t', s')"
      "serialize_fields N E D vs (Struct_S t', s') = Ok r"
    by (auto simp: serialize_field_def bind_res_eq_Ok)
  moreover from this(1) have "t_field_idx t < length ss" "t_field_idx t' = t_field_idx t + 1" "sig s' = signature.Structure ss"
    using Cons.prems(2) by (auto simp: serialize_struct_element_def bind_res_eq_Ok split: if_splits)
  ultimately show ?case
    using Cons.IH [of t' s'] by (cases "vs = []") auto
qed simp

lemma enum_variant_again:
  assumes "enum_variant E i s = Ok (t, s')" "sig s = signature.Structure ss" "length ss = 1 \<or> \<not> is_structure (ss ! 1)"
  shows "t_field_idx t = 1 \<and> sig s' = signature.Structure ss"
proof -
  have add: "sig s'' = sig s0" if "add_padding s0 a = Ok (p, s'')" for s0 a p s''
    using that by (auto simp: add_padding_def write_all_def Let_def split: if_splits)
  have "(if 1 < length ss then case ss ! 1 of signature.Structure _ \<Rightarrow> Some (ss ! 1) | _ \<Rightarrow> None else None) = None"
    using assms(3) by (auto split: signature.splits)
  with assms(1,2) show ?thesis
    by (auto simp: enum_variant_def bind_res_eq_Ok struct_structure_def serialize_struct_element_def Let_def
        split: if_splits dest!: add)
qed

context wire_laws
begin

lemma newtype_of_structure:
  assumes "fs \<noteq> []" "dbus_alignment h = Ok a" "h \<noteq> signature.Variant" "\<not> is_structure h" "\<forall>c. h \<noteq> signature.Array c"
  shows "to_bytes_for_signature c (signature.Structure [signature.U32, signature.Structure (h # hs)])
      (serialize_newtype_variant E i (serialize_inner N E D (Structure fs fsig))) = Err (SignatureMismatch h ''a struct, array or variant'')"
proof -
  let ?g = "signature.Structure (h # hs)"
  let ?s = "new_serializer (signature.Structure [signature.U32, ?g]) (Cursor [] 0) (Fds []) c"
  have "inc_structure no_depths = Ok (no_depths\<lparr>d_structure := 1\<rparr>)"
    by (simp add: inc_structure_def depth_defs no_depths_def)
  then obtain s' where "enum_variant E i ?s = Ok (\<lparr>t_container_depths = no_depths, t_field_idx = 0\<rparr>, s')" "sig s' = ?g"
    using enum_variant_eq [of ?s ?g i] by (auto simp: new_serializer_def)
  moreover have "serialize_struct E (length fs) (s'\<lparr>sig := h, value_sign := None\<rparr>) =
      Err (SignatureMismatch h ''a struct, array or variant'')"
    using assms dbus_alignment_Ok [OF assms(2)]
    by (auto simp: serialize_struct_def add_padding_pad split: signature.splits)
  ultimately show ?thesis
    by (simp add: to_bytes_for_signature_def to_writer_for_signature_def serialize_newtype_variant_def serialize_struct_element_def)
qed

lemma too_many_newtypes:
  assumes "32 < length xs"
  shows "to_bytes_for_signature c g (write_vector E (map (\<lambda>(i, f). serialize_newtype_variant E i f) xs)) \<noteq> Ok dat"
proof
  let ?s = "new_serializer g (Cursor [] 0) (Fds []) c"
  assume "to_bytes_for_signature c g (write_vector E (map (\<lambda>(i, f). serialize_newtype_variant E i f) xs)) = Ok dat"
  then obtain q s1 s2 where s: "serialize_seq E ?s = Ok (q, s1)"
      "fold_res (\<lambda>w. w) (map (\<lambda>(i, f). serialize_newtype_variant E i f) xs) s1 = Ok s2"
    by (auto simp: to_bytes_for_signature_def to_writer_for_signature_def bind_res_eq_Ok)
  have add: "container_depths s'' = container_depths s0" if "add_padding s0 a = Ok (p, s'')" for s0 a p s''
    using that by (auto simp: add_padding_def write_all_def Let_def split: if_splits)
  have "d_structure (container_depths s1) = 0"
    using s(1) by (auto simp: serialize_seq_def bind_res_eq_Ok new_serializer_def no_depths_def Let_def dest!: add inc_depths_Ok)
  with newtypes_depth [OF s(2)] assms show False by simp
qed

lemma array_start:
  assumes "ready s" "sig s = signature.Array (signature.Structure ss)" "serialize_seq E s = Ok (q, s')"
  shows "sig s' = signature.Structure ss \<and> ready s' \<and> value_sign s' = value_sign s"
proof -
  have e: "element_of (sig s) = Some (8, signature.Structure ss)"
    using assms(2) by (simp add: dbus_alignment_def alignment_def)
  from assms(3) [unfolded serialize_seq_eq [OF assms(1) e]] obtain d where "s' = array_state E s 8 (signature.Structure ss) d []"
    by (auto simp: map_ok_eq_Ok)
  then show ?thesis
    using assms(1) by (simp add: array_state_def)
qed

lemma second_tuple_fails:
  assumes "list_all content_ok vs" "ws \<noteq> []" "length vs = length ws" "length vs = 1 \<or> \<not> is_structure (value_signature (vs ! 1))"
  shows "to_bytes_for_signature c
      (signature.Array (signature.Structure [signature.U32, signature.Structure (map value_signature vs)]))
      (write_vector E (write_tuple N E D i vs # write_tuple N E D k ws # xs)) \<noteq> Ok dat"
proof
  let ?ss = "map value_signature vs"
  let ?g = "signature.Structure [signature.U32, signature.Structure ?ss]"
  let ?s = "new_serializer (signature.Array ?g) (Cursor [] 0) (Fds []) c"
  assume "to_bytes_for_signature c (signature.Array ?g) (write_vector E (write_tuple N E D i vs # write_tuple N E D k ws # xs)) = Ok dat"
  then obtain q s1 s2 s3 where s: "serialize_seq E ?s = Ok (q, s1)" "write_tuple N E D i vs s1 = Ok s2"
      "write_tuple N E D k ws s2 = Ok s3"
    by (fastforce simp: to_bytes_for_signature_def to_writer_for_signature_def bind_res_eq_Ok)
  have s1: "sig s1 = ?g" "ready s1" "value_sign s1 = None"
    using s(1) array_start [of ?s _ q s1] by (auto simp: new_serializer_def)
  have "\<forall>v \<in> set vs. refines N E D v" using assms(1) by (auto simp: content_ok_def list_all_iff intro: plain_refines)
  from s(2) [unfolded tuple_variant_enc [OF this s1(2,1,3)]] have s2: "sig s2 = signature.Structure ?ss"
    by (auto simp: map_ok_eq_Ok)
  obtain t s' r where t: "enum_variant E k s2 = Ok (t, s')" "serialize_fields N E D ws (Struct_S t, s') = Ok r"
    using s(3) by (auto simp: serialize_tuple_variant_def bind_res_eq_Ok)
  have "t_field_idx t = 1 \<and> sig s' = signature.Structure ?ss"
    using assms(2-4) by (intro enum_variant_again [OF t(1) s2]) (cases vs; cases "tl vs"; auto)
  then show False
    using serialize_fields_fit [OF t(2)] assms(2,3) by auto
qed

end

text \<open>After a variant of one value the deserializer expects another of it where the next variant starts.\<close>

context nom_laws
begin

lemma newtype_read_sig:
  assumes "read_enum E vi vn visit d = Some (Ok x, d')" "de_sig d = signature.Structure [signature.U32, g]" "asked g"
    "\<forall>k. visit k = dbind (newtype_variant_seed (de_value N E n g)) (\<lambda>v. ret (mk k v))"
  shows "de_sig d' = g"
proof -
  obtain d1 d2 k where d: "frame d d1" "deserialize_identifier E vi vn d1 = Some (Ok k, d2)" "visit k d2 = Some (Ok x, d')"
    using assms(1) unfolding deserialize_enum_def variant_seed_def dbind_Ok by (auto dest!: frames)
  then have "de_sig d2 = g"
    using assms(2) by (auto simp: deserialize_identifier_def frame_def split: option.splits if_splits)
  then show ?thesis
    using d(3) well_typedD(3) [OF de_value_typed, of _ _ g d2] assms(3,4) by (auto simp: newtype_variant_seed_def frame_def)
qed

lemma identifier_refused:
  assumes "read_enum E vi vn visit d = Some (Ok x, d')"
  shows "de_sig d \<in> {signature.Str, signature.U32} \<or> is_structure (de_sig d)"
proof -
  obtain d1 d2 k where "frame d d1" "deserialize_identifier E vi vn d1 = Some (Ok k, d2)"
    using assms unfolding deserialize_enum_def variant_seed_def dbind_Ok by (auto dest!: frames)
  then show ?thesis
    by (cases "de_sig d") (simp_all add: deserialize_identifier_def frame_def)
qed

lemma second_not_read:
  assumes "array_next_element ad (read_enum E vi vn visit) d = Some (Ok (Some x), d')"
    "de_sig d = signature.Structure [signature.U32, g]" "asked g"
    "\<forall>k. visit k = dbind (newtype_variant_seed (de_value N E n g)) (\<lambda>v. ret (mk k v))"
    "g \<notin> {signature.Str, signature.U32}" "\<not> is_structure g"
  shows "array_next_element ad (read_enum E vi' vn' visit') d' \<noteq> Some (Ok (Some y), d'')"
proof
  obtain d0 where d0: "frame d d0" "read_enum E vi vn visit d0 = Some (Ok x, d')"
    using array_next_element_Some [OF assms(1)] by blast
  have "de_sig d' = g" using newtype_read_sig [OF d0(2) _ assms(3,4)] d0(1) assms(2) by (simp add: frame_def)
  moreover assume "array_next_element ad (read_enum E vi' vn' visit') d' = Some (Ok (Some y), d'')"
  from array_next_element_Some [OF this] obtain d1 where "frame d' d1" "read_enum E vi' vn' visit' d1 = Some (Ok y, d'')" by blast
  ultimately show False using identifier_refused [of E vi' vn' visit' d1 y d''] assms(5,6) by (simp add: frame_def)
qed

end

section \<open>Properties\<close>

text \<open>C24: One variant on its own, written with the calls of the serializer for its kind. A unit variant is written as its index or, at the
  signature of strings, as its name; one of one value that is no structure as the structure of index and value; one of several
  values as the structure of index and structure. Errors are those of this format. What was written is read back, all bytes
  consumed, by every visitor that knows the index, or the name, as \<open>k\<close> and that asks for that kind of content at \<open>k\<close>: it gets
  the contents that were written. Contents have no file descriptors and no strings with NUL.\<close>

theorem enum_roundtrip:
  assumes "nom_laws N" "endi_laws E"
  shows "(\<forall>i name k r. vi i = Ok k \<and> visit k = dbind unit_variant (\<lambda>_. ret r) \<longrightarrow>
      round_trip c signature.U32 (serialize_unit_variant N E i name) (enc E (c_endian c) no_depths (U32 i) (c_position c))
        (read_enum E vi vn visit) r) \<and>
    (\<forall>i name k r. valid_utf8 name \<and> byte_of 0 \<notin> set name \<and> vn name = Ok k \<and> visit k = dbind unit_variant (\<lambda>_. ret r) \<longrightarrow>
      round_trip c signature.Str (serialize_unit_variant N E i name) (enc E (c_endian c) no_depths (Str name) (c_position c))
        (read_enum E vi vn visit) r) \<and>
    (\<forall>i k v n mk g. content_ok v \<and> \<not> is_structure (value_signature v) \<and> fuel v \<le> n \<and> vi i = Ok k \<and>
        visit k = dbind (newtype_variant_seed (de_value N E n (value_signature v))) (\<lambda>v. ret (mk v)) \<and>
        g = signature.Structure [signature.U32, value_signature v] \<longrightarrow>
      round_trip c g (serialize_newtype_variant E i (serialize_inner N E D v))
        (enc E (c_endian c) no_depths (Structure [U32 i, v] g) (c_position c)) (read_enum E vi vn visit) (mk v)) \<and>
    (\<forall>i k vs n mk g. list_all content_ok vs \<and> vs \<noteq> [] \<and> (\<forall>v \<in> set vs. fuel v \<le> n) \<and> vi i = Ok k \<and>
        visit k = dbind (tuple_variant E (value_seed N E n (de_value N E n) (signature.Structure (map value_signature vs)))) (\<lambda>v. ret (mk v)) \<and>
        g = signature.Structure [signature.U32, signature.Structure (map value_signature vs)] \<longrightarrow>
      round_trip c g
        (\<lambda>s. bind_res (serialize_tuple_variant E i s) (\<lambda>xs. bind_res (serialize_fields N E D vs xs) (\<lambda>xs. end_struct_seq E xs)))
        (tuple_bytes E (c_endian c) no_depths i vs (c_position c))
        (read_enum E vi vn visit) (mk (Structure vs (signature.Structure (map value_signature vs)))))"
proof -
  note w = wire_laws.intro [OF assms]
  show ?thesis
    by (intro conjI allI impI; elim conjE)
      (rule wire_laws.unit_index_round_trip [OF w] wire_laws.unit_name_round_trip [OF w] wire_laws.newtype_round_trip [OF w]
        wire_laws.tuple_round_trip [OF w]; assumption)+
qed

text \<open>A visitor for an enum of a variant of one string, one of two values, and a unit variant.\<close>

definition sample_index :: "u32 \<Rightarrow> (zerror, nat) res" where
  "sample_index i = (if unat i < 3 then Ok (unat i) else Err (Message Invalid_value))"

definition sample_name :: "string \<Rightarrow> (zerror, nat) res" where
  "sample_name x = (if x = ''Variant3'' then Ok 2 else Err (Message Custom))"

definition sample_visit :: "nat \<Rightarrow> (nat \<times> zvalue option) dm" where
  "sample_visit k =
     (if k = 0 then dbind (newtype_variant_seed (de_value nom_ref endi_ref 2 signature.Str)) (\<lambda>v. ret (k, Some v))
      else if k = 1 then
        dbind (tuple_variant endi_ref (value_seed nom_ref endi_ref 2 (de_value nom_ref endi_ref 2)
          (signature.Structure [signature.U8, signature.U32]))) (\<lambda>v. ret (k, Some v))
      else dbind unit_variant (\<lambda>_. ret (k, None)))"

theorem enum_roundtrip_witness:
  "deserialize_for_signature (signature.Structure [signature.U32, signature.Structure [signature.U8, signature.U32]])
     (read_enum endi_ref sample_index sample_name sample_visit)
     (new_fds (map byte_of [0, 0, 0, 1, 0, 0, 0, 0, 42, 0, 0, 0, 0, 0, 0, 42]) \<lparr>c_endian = Big, c_position = 0\<rparr> []) =
   Some (Ok ((1, Some (Structure [U8 (byte_of 42), U32 42] (signature.Structure [signature.U8, signature.U32]))), 16)) \<and>
   round_trip \<lparr>c_endian = Big, c_position = 0\<rparr> signature.Str (serialize_unit_variant nom_ref endi_ref 2 ''Variant3'')
     (enc endi_ref Big no_depths (Str ''Variant3'') 0) (read_enum endi_ref sample_index sample_name sample_visit) (2, None) \<and>
   round_trip \<lparr>c_endian = Big, c_position = 0\<rparr> (signature.Structure [signature.U32, signature.Str])
     (serialize_newtype_variant endi_ref 0 (serialize_inner nom_ref endi_ref (\<lambda>_. Some) (Str ''a'')))
     (enc endi_ref Big no_depths (Structure [U32 0, Str ''a''] (signature.Structure [signature.U32, signature.Str])) 0)
     (read_enum endi_ref sample_index sample_name sample_visit) (0, Some (Str ''a''))"
proof (intro conjI)
  let ?c = "\<lparr>c_endian = Big, c_position = 0\<rparr>"
  note rt = enum_roundtrip [OF nr.nom_laws_axioms er.endi_laws_axioms, of sample_index sample_visit ?c sample_name "\<lambda>_. Some"]
  note unit_name = rt [THEN conjunct2, THEN conjunct1, rule_format]
    and newtype = rt [THEN conjunct2, THEN conjunct2, THEN conjunct1, rule_format]
    and tuple = rt [THEN conjunct2, THEN conjunct2, THEN conjunct2, rule_format]
  let ?vs = "[U8 (byte_of 42), U32 42]" and ?g = "signature.Structure [signature.U8, signature.U32]"
  let ?bs = "map byte_of [0, 0, 0, 1, 0, 0, 0, 0, 42, 0, 0, 0, 0, 0, 0, 42]"
  have "tuple_bytes endi_ref Big no_depths 1 ?vs 0 = Ok ?bs"
    by (simp add: tuple_bytes_def enc_then_def enc_basic_def pad_def padding_numeral endi_ref_def byte_order_def
        inc_structure_def depth_defs no_depths_def numeral_nat_bytes cong: bind_res_weak_cong)
  with tuple [of ?vs 2 1 1 "\<lambda>v. (1, Some v)" "signature.Structure [signature.U32, ?g]"]
  show "deserialize_for_signature (signature.Structure [signature.U32, ?g]) (read_enum endi_ref sample_index sample_name sample_visit)
      (new_fds ?bs ?c []) = Some (Ok ((1, Some (Structure ?vs ?g)), 16))"
    by (simp add: round_trip_def content_ok_def sample_index_def sample_visit_def new_fds_def data_bytes_def)
  have "valid_utf8 ''Variant3''" "byte_of 0 \<notin> set ''Variant3''" by code_simp+
  with unit_name [of "''Variant3''" 2 "(2, None)" 2]
  show "round_trip ?c signature.Str (serialize_unit_variant nom_ref endi_ref 2 ''Variant3'')
     (enc endi_ref Big no_depths (Str ''Variant3'') 0) (read_enum endi_ref sample_index sample_name sample_visit) (2, None)"
    by (simp add: sample_name_def sample_visit_def)
  have "valid_utf8 ''a''" "byte_of 0 \<notin> set ''a''" by code_simp+
  with newtype [of "Str ''a''" 2 0 0 "\<lambda>v. (0, Some v)" "signature.Structure [signature.U32, signature.Str]"]
  show "round_trip ?c (signature.Structure [signature.U32, signature.Str])
     (serialize_newtype_variant endi_ref 0 (serialize_inner nom_ref endi_ref (\<lambda>_. Some) (Str ''a'')))
     (enc endi_ref Big no_depths (Structure [U32 0, Str ''a''] (signature.Structure [signature.U32, signature.Str])) 0)
     (read_enum endi_ref sample_index sample_name sample_visit) (0, Some (Str ''a''))"
    by (simp add: content_ok_def sample_index_def sample_visit_def)
qed

text \<open>C40: Where variants go wrong. A variant of one value that is a structure is written as if it were the first field of itself, and refused
  unless the signature of that field is an array, a structure or a variant. A vector of more than 32 variants of one value, whatever
  writes the values, is refused, since each leaves the nesting one deeper. A vector whose first two elements are variants of the same
  number of values is refused at the second one, since the first leaves the signature at the inner structure; this is
  claimed unless the second of the values is a structure. And when a variant of one value, read as values are, was read from an array,
  no second variant is, unless the value is a string, a \<^verbatim>\<open>u32\<close> or a structure, since the signature stays at that of the value.\<close>

theorem enum_defects:
  assumes "nom_laws N" "endi_laws E"
  shows "(\<forall>i h hs fs fsig a. dbus_alignment h = Ok a \<and> h \<noteq> signature.Variant \<and> \<not> is_structure h \<and> (\<forall>g. h \<noteq> signature.Array g) \<and> fs \<noteq> [] \<longrightarrow>
      to_bytes_for_signature c (signature.Structure [signature.U32, signature.Structure (h # hs)])
        (serialize_newtype_variant E i (serialize_inner N E D (Structure fs fsig))) = Err (SignatureMismatch h ''a struct, array or variant'')) \<and>
    (\<forall>xs g dat. 32 < length xs \<longrightarrow>
      to_bytes_for_signature c g (write_vector E (map (\<lambda>(i, f). serialize_newtype_variant E i f) xs)) \<noteq> Ok dat) \<and>
    (\<forall>i k vs ws xs dat. list_all content_ok vs \<and> ws \<noteq> [] \<and> length vs = length ws \<and>
        (length vs = 1 \<or> \<not> is_structure (value_signature (vs ! 1))) \<longrightarrow>
      to_bytes_for_signature c (signature.Array (signature.Structure [signature.U32, signature.Structure (map value_signature vs)]))
        (write_vector E (write_tuple N E D i vs # write_tuple N E D k ws # xs)) \<noteq> Ok dat) \<and>
    (\<forall>g n mk ad d x d' y d''. sig_wf g \<and> g \<notin> {signature.Str, signature.U32} \<and> \<not> is_structure g \<and>
        de_sig d = signature.Structure [signature.U32, g] \<and>
        (\<forall>k. visit k = dbind (newtype_variant_seed (de_value N E n g)) (\<lambda>v. ret (mk k v))) \<and>
        array_next_element ad (read_enum E vi vn visit) d = Some (Ok (Some x), d') \<longrightarrow>
      array_next_element ad (read_enum E vi' vn' visit') d' \<noteq> Some (Ok (Some y), d''))"
proof (intro conjI allI impI; (elim conjE)?)
  note w = wire_laws.intro [OF assms]
  show "to_bytes_for_signature c (signature.Structure [signature.U32, signature.Structure (h # hs)])
      (serialize_newtype_variant E i (serialize_inner N E D (Structure fs fsig))) = Err (SignatureMismatch h ''a struct, array or variant'')"
    if "dbus_alignment h = Ok a" "h \<noteq> signature.Variant" "\<not> is_structure h" "\<forall>g. h \<noteq> signature.Array g" "fs \<noteq> []" for i h hs fs fsig a
    using wire_laws.newtype_of_structure [OF w that(5,1-4)] .
  show "to_bytes_for_signature c g (write_vector E (map (\<lambda>(i, f). serialize_newtype_variant E i f) xs)) \<noteq> Ok dat"
    if "32 < length xs" for xs g dat
    using wire_laws.too_many_newtypes [OF w that] .
  show "to_bytes_for_signature c (signature.Array (signature.Structure [signature.U32, signature.Structure (map value_signature vs)]))
      (write_vector E (write_tuple N E D i vs # write_tuple N E D k ws # xs)) \<noteq> Ok dat"
    if "list_all content_ok vs" "ws \<noteq> []" "length vs = length ws" "length vs = 1 \<or> \<not> is_structure (value_signature (vs ! 1))"
    for i k vs ws xs dat
    using wire_laws.second_tuple_fails [OF w that] .
  show "array_next_element ad (read_enum E vi' vn' visit') d' \<noteq> Some (Ok (Some y), d'')"
    if "sig_wf g" "g \<notin> {signature.Str, signature.U32}" "\<not> is_structure g" "de_sig d = signature.Structure [signature.U32, g]"
      "\<forall>k. visit k = dbind (newtype_variant_seed (de_value N E n g)) (\<lambda>v. ret (mk k v))"
      "array_next_element ad (read_enum E vi vn visit) d = Some (Ok (Some x), d')" for g n mk ad d x d' y d''
    using nom_laws.second_not_read [OF assms(1) that(6,4) _ that(5,2,3)] that(1) by simp
qed

text \<open>Two variants of one byte in an array.\<close>

definition byte_variants :: de where
  "byte_variants = new_deserializer (map byte_of [0, 0, 0, 0, 1, 0, 0, 0, 0, 0, 0, 0, 2]) (Some [])
     (signature.Structure [signature.U32, signature.U8]) \<lparr>c_endian = Little, c_position = 0\<rparr>"

definition byte_variants_array :: array_de where
  "byte_variants_array = \<lparr>ad_len = 13, ad_start = 0, ad_element_alignment = 8,
     ad_array_signature = signature.Array (signature.Structure [signature.U32, signature.U8])\<rparr>"

definition visit_byte :: "u32 \<Rightarrow> (u32 \<times> zvalue) dm" where
  "visit_byte k = dbind (newtype_variant_seed (de_value nom_ref endi_ref 1 signature.U8)) (\<lambda>v. ret (k, v))"

lemma first_byte_variant:
  "\<exists>d. array_next_element byte_variants_array (read_enum endi_ref Ok (\<lambda>_. Err (Message Custom)) visit_byte) byte_variants =
    Some (Ok (Some (0, U8 (byte_of 1))), d)"
proof -
  let ?b = "map byte_of [0, 0, 0, 0, 1]"
  have "enc endi_ref Little no_depths (Structure [U32 0, U8 (byte_of 1)] (signature.Structure [signature.U32, signature.U8])) 0 = Ok ?b"
    by (simp add: enc_then_def enc_basic_def pad_def padding_numeral endi_ref_def byte_order_def
        inc_structure_def depth_defs no_depths_def numeral_nat_bytes cong: bind_res_weak_cong)
  then have "read_enum endi_ref Ok (\<lambda>_. Err (Message Custom)) visit_byte byte_variants =
      Some (Ok (0, U8 (byte_of 1)), (adv byte_variants (length ?b))\<lparr>de_sig := signature.U8\<rparr>)"
    using wr.read_newtype [of byte_variants "U8 (byte_of 1)" 1 ?b 0 "signature.Structure [signature.U32, signature.U8]" Ok 0 visit_byte "Pair 0"]
    by (simp add: byte_variants_def content_ok_def visit_byte_def new_deserializer_def de_endian_def de_abs_pos_def upcoming_def)
  moreover have "de_pos byte_variants = 0" "de_abs_pos byte_variants = 0"
    by (simp_all add: byte_variants_def new_deserializer_def de_abs_pos_def)
  moreover from this have "parse_padding 8 byte_variants = Some (Ok 0, byte_variants)"
    by (intro parse_padding_aligned) (simp add: padding_numeral)
  ultimately show ?thesis
    by (simp add: array_next_element_def array_done_def array_next_def byte_variants_array_def dbind_def lift_def)
qed

theorem enum_defects_witness:
  "(\<nexists>dat. to_bytes_for_signature \<lparr>c_endian = Little, c_position = 0\<rparr> (signature.Structure [signature.U32, signature.Structure [signature.U8]])
      (serialize_newtype_variant endi_ref 0 (serialize_inner nom_ref endi_ref (\<lambda>_. Some)
        (Structure [U8 (byte_of 1)] (signature.Structure [signature.U8])))) = Ok dat) \<and>
   (\<nexists>dat. to_bytes_for_signature \<lparr>c_endian = Little, c_position = 0\<rparr> (signature.Array (signature.Structure [signature.U32, signature.Str]))
      (write_vector endi_ref (map (\<lambda>(i, f). serialize_newtype_variant endi_ref i f)
        (replicate 33 (0, serialize_inner nom_ref endi_ref (\<lambda>_. Some) (Str ''a''))))) = Ok dat) \<and>
   (\<nexists>dat. to_bytes_for_signature \<lparr>c_endian = Little, c_position = 0\<rparr>
      (signature.Array (signature.Structure [signature.U32, signature.Structure [signature.U8, signature.U32]]))
      (write_vector endi_ref [write_tuple nom_ref endi_ref (\<lambda>_. Some) 1 [U8 (byte_of 1), U32 2],
        write_tuple nom_ref endi_ref (\<lambda>_. Some) 1 [U8 (byte_of 3), U32 4]]) = Ok dat) \<and>
   (\<exists>d. array_next_element byte_variants_array (read_enum endi_ref Ok (\<lambda>_. Err (Message Custom)) visit_byte) byte_variants =
      Some (Ok (Some (0, U8 (byte_of 1))), d) \<and>
     (\<forall>y d'. array_next_element byte_variants_array (read_enum endi_ref Ok (\<lambda>_. Err (Message Custom)) visit_byte) d \<noteq>
       Some (Ok (Some y), d')))"
proof (intro conjI notI; (elim exE)?)
  let ?c = "\<lparr>c_endian = Little, c_position = 0\<rparr>"
  note defects = enum_defects [OF nr.nom_laws_axioms er.endi_laws_axioms,
      where c = ?c and D = "\<lambda>_. Some" and vi = Ok and vn = "\<lambda>_. Err (Message Custom)" and visit = visit_byte
        and vi' = Ok and vn' = "\<lambda>_. Err (Message Custom)" and visit' = visit_byte]
  show False if "to_bytes_for_signature ?c (signature.Structure [signature.U32, signature.Structure [signature.U8]])
      (serialize_newtype_variant endi_ref 0 (serialize_inner nom_ref endi_ref (\<lambda>_. Some)
        (Structure [U8 (byte_of 1)] (signature.Structure [signature.U8])))) = Ok dat" for dat
    using that conjunct1 [OF defects, rule_format, of signature.U8 1 "[U8 (byte_of 1)]" "[]" 0 "signature.Structure [signature.U8]"]
    by (simp add: dbus_alignment_def alignment_def)
  show False if "to_bytes_for_signature ?c (signature.Array (signature.Structure [signature.U32, signature.Str]))
      (write_vector endi_ref (map (\<lambda>(i, f). serialize_newtype_variant endi_ref i f)
        (replicate 33 (0, serialize_inner nom_ref endi_ref (\<lambda>_. Some) (Str ''a''))))) = Ok dat" for dat
    using that defects [THEN conjunct2, THEN conjunct1, rule_format, of "replicate 33 (0, serialize_inner nom_ref endi_ref (\<lambda>_. Some) (Str ''a''))"]
    by simp
  show False if "to_bytes_for_signature ?c (signature.Array (signature.Structure [signature.U32, signature.Structure [signature.U8, signature.U32]]))
      (write_vector endi_ref [write_tuple nom_ref endi_ref (\<lambda>_. Some) 1 [U8 (byte_of 1), U32 2],
        write_tuple nom_ref endi_ref (\<lambda>_. Some) 1 [U8 (byte_of 3), U32 4]]) = Ok dat" for dat
    using that defects [THEN conjunct2, THEN conjunct2, THEN conjunct1, rule_format,
        of "[U8 (byte_of 1), U32 2]" "[U8 (byte_of 3), U32 4]" 1 1 "[]" dat]
    by (simp add: content_ok_def)
  obtain d where d: "array_next_element byte_variants_array (read_enum endi_ref Ok (\<lambda>_. Err (Message Custom)) visit_byte) byte_variants =
      Some (Ok (Some (0, U8 (byte_of 1))), d)" using first_byte_variant by blast
  moreover have "de_sig byte_variants = signature.Structure [signature.U32, signature.U8]"
    by (simp add: byte_variants_def new_deserializer_def)
  ultimately have "array_next_element byte_variants_array (read_enum endi_ref Ok (\<lambda>_. Err (Message Custom)) visit_byte) d \<noteq>
      Some (Ok (Some y), d')" for y d'
    using defects [THEN conjunct2, THEN conjunct2, THEN conjunct2, rule_format,
        of signature.U8 byte_variants 1 Pair byte_variants_array "(0, U8 (byte_of 1))" d y d']
    by (simp add: visit_byte_def)
  with d show "\<exists>d. array_next_element byte_variants_array (read_enum endi_ref Ok (\<lambda>_. Err (Message Custom)) visit_byte) byte_variants =
      Some (Ok (Some (0, U8 (byte_of 1))), d) \<and>
     (\<forall>y d'. array_next_element byte_variants_array (read_enum endi_ref Ok (\<lambda>_. Err (Message Custom)) visit_byte) d \<noteq>
       Some (Ok (Some y), d'))" by blast
qed

end
