(* ===== verification/GVariant_Ser.thy ===== *)
theory GVariant_Ser
  imports DBus_Ser
begin

text \<open>
  The GVariant serializer, \<^verbatim>\<open>zvariant/src/gvariant/ser.rs\<close>, with the framing offsets of \<^verbatim>\<open>framing_offsets.rs\<close> and
  \<^verbatim>\<open>framing_offset_size.rs\<close> that it puts behind containers. The state is the record of the D-Bus serializer, as both formats
  share \<^verbatim>\<open>SerializerCommon\<close>. The operations have the names of the source with a prefix, since the two serializers name
  theirs alike.
\<close>

section \<open>Sizes of framing offsets\<close>

datatype offset_size = Off8 | Off16 | Off32 | Off64

fun offset_bytes :: "offset_size \<Rightarrow> nat" where
  "offset_bytes Off8 = 1" | "offset_bytes Off16 = 2" | "offset_bytes Off32 = 4" | "offset_bytes Off64 = 8"

fun offset_max :: "offset_size \<Rightarrow> nat" where
  "offset_max Off8 = 2 ^ 8 - 1" | "offset_max Off16 = 2 ^ 16 - 1"
| "offset_max Off32 = 2 ^ 32 - 1" | "offset_max Off64 = 2 ^ 64 - 1"

fun bump_up :: "offset_size \<Rightarrow> offset_size option" where
  "bump_up Off8 = Some Off16" | "bump_up Off16 = Some Off32" | "bump_up Off32 = Some Off64" | "bump_up Off64 = None"

text \<open>The loop of \<^verbatim>\<open>for_bare_container\<close>; the \<^verbatim>\<open>expect\<close> of \<^verbatim>\<open>bump_up\<close> panics.\<close>

function offset_size_loop :: "nat \<Rightarrow> nat \<Rightarrow> offset_size \<Rightarrow> (zerror, offset_size) res" where
  "offset_size_loop container_len num_offsets sz =
     (if container_len + num_offsets * offset_bytes sz \<le> offset_max sz then Ok sz
      else case bump_up sz of None \<Rightarrow> Panic | Some sz' \<Rightarrow> offset_size_loop container_len num_offsets sz')"
  by pat_completeness auto
termination
  by (relation "measure (\<lambda>(_, _, sz). 8 - offset_bytes sz)", simp, rename_tac c n sz x, case_tac sz) auto

declare offset_size_loop.simps [simp del]

definition for_bare_container :: "nat \<Rightarrow> nat \<Rightarrow> (zerror, offset_size) res" where
  "for_bare_container container_len num_offsets = offset_size_loop container_len num_offsets Off8"

definition for_encoded_container :: "nat \<Rightarrow> (zerror, offset_size) res" where
  "for_encoded_container container_len = for_bare_container container_len 0"

text \<open>The bytes that \<^verbatim>\<open>write_offset\<close> hands to the writer: always little endian, the offset cut to the size.\<close>

definition write_offset :: "endi \<Rightarrow> offset_size \<Rightarrow> nat \<Rightarrow> byte list" where
  "write_offset E sz offset =
     (case sz of
        Off8 \<Rightarrow> [byte_of (offset mod 256)]
      | Off16 \<Rightarrow> write_u16 E Little (word_of_nat offset)
      | Off32 \<Rightarrow> write_u32 E Little (word_of_nat offset)
      | Off64 \<Rightarrow> write_u64 E Little (word_of_nat offset))"

text \<open>The last bytes of the buffer; one that is too short, but not empty, makes the index negative.\<close>

definition read_last_offset_from_buffer :: "endi \<Rightarrow> offset_size \<Rightarrow> byte list \<Rightarrow> (zerror, nat) res" where
  "read_last_offset_from_buffer E sz buffer =
     (if buffer = [] then Ok 0
      else if length buffer < offset_bytes sz then Panic
      else let bs = drop (length buffer - offset_bytes sz) buffer in
        Ok (case sz of
              Off8 \<Rightarrow> code (hd bs)
            | Off16 \<Rightarrow> unat (read_u16 E Little bs)
            | Off32 \<Rightarrow> unat (read_u32 E Little bs)
            | Off64 \<Rightarrow> unat (read_u64 E Little bs)))"

section \<open>Lists of framing offsets\<close>

text \<open>\<^verbatim>\<open>FramingOffsets\<close> is a deque of numbers: its front is the head of the list.\<close>

type_synonym framing_offsets = "nat list"

function from_encoded_array_loop ::
  "endi \<Rightarrow> offset_size \<Rightarrow> byte list \<Rightarrow> nat \<Rightarrow> nat \<Rightarrow> framing_offsets \<Rightarrow> (zerror, framing_offsets) res" where
  "from_encoded_array_loop E sz container offsets_start i offsets =
     (if length container \<le> i then Ok offsets
      else let end' = i + offset_bytes sz in
        if length container < end' then Err (Message (Invalid_length end'))
        else bind_res (read_last_offset_from_buffer E sz (take (offset_bytes sz) (drop i container))) (\<lambda>offset.
          if offsets_start < offset then Err (Message (Invalid_length offset))
          else from_encoded_array_loop E sz container offsets_start end' (offsets @ [offset])))"
  by pat_completeness auto
termination
  by (relation "measure (\<lambda>(_, sz, container, _, i, _). length container - i)", simp,
      rename_tac E sz c s i os x y, case_tac sz) auto

declare from_encoded_array_loop.simps [simp del]

definition from_encoded_array :: "endi \<Rightarrow> byte list \<Rightarrow> (zerror, framing_offsets \<times> nat) res" where
  "from_encoded_array E container =
     bind_res (for_encoded_container (length container)) (\<lambda>sz.
     bind_res (read_last_offset_from_buffer E sz container) (\<lambda>offsets_start.
     if length container < offsets_start then Err (Message (Invalid_length offsets_start))
     else bind_res (from_encoded_array_loop E sz container offsets_start offsets_start []) (\<lambda>offsets.
       Ok (offsets, length container - offsets_start))))"

definition offsets_push :: "framing_offsets \<Rightarrow> nat \<Rightarrow> framing_offsets" where
  "offsets_push os offset = os @ [offset]"

definition offsets_push_front :: "framing_offsets \<Rightarrow> nat \<Rightarrow> framing_offsets" where
  "offsets_push_front os offset = offset # os"

text \<open>\<^verbatim>\<open>FramingOffsets::write_all\<close>.\<close>

definition offsets_write_all :: "endi \<Rightarrow> framing_offsets \<Rightarrow> nat \<Rightarrow> ser \<Rightarrow> (zerror, ser) res" where
  "offsets_write_all E os container_len s =
     (if os = [] then Ok s
      else bind_res (for_bare_container container_len (length os)) (\<lambda>sz.
        Ok (fold (\<lambda>offset s. write_all s (write_offset E sz offset)) os s)))"

definition offsets_pop :: "framing_offsets \<Rightarrow> nat option \<times> framing_offsets" where
  "offsets_pop os = (case os of [] \<Rightarrow> (None, []) | o' # os \<Rightarrow> (Some o', os))"

definition offsets_peek :: "framing_offsets \<Rightarrow> nat option" where
  "offsets_peek os = (case os of [] \<Rightarrow> None | o' # _ \<Rightarrow> Some o')"

section \<open>Basic types\<close>

definition VARIANT_ALIGNMENT_GVARIANT :: nat where "VARIANT_ALIGNMENT_GVARIANT = 8"

text \<open>\<^verbatim>\<open>serialize_basic!\<close>: a D-Bus serializer on the same writer and descriptors writes the value; its
  \<^verbatim>\<open>bytes_written\<close> comes back.\<close>

definition gv_serialize_basic :: "(ser \<Rightarrow> (zerror, ser) res) \<Rightarrow> ser \<Rightarrow> (zerror, ser) res" where
  "gv_serialize_basic f s =
     bind_res (f (s\<lparr>value_sign := None\<rparr>)) (\<lambda>r.
       Ok (s\<lparr>out_writer := out_writer r, fds := fds r, bytes_written := bytes_written r\<rparr>))"

definition gv_pad :: "signature \<Rightarrow> ser \<Rightarrow> (zerror, ser) res" where
  "gv_pad t s = bind_res (add_padding s (alignment_gvariant t)) (\<lambda>(_, s). Ok s)"

definition gv_serialize_str :: "nom \<Rightarrow> string \<Rightarrow> ser \<Rightarrow> (zerror, ser) res" where
  "gv_serialize_str N v s =
     (if sig s = signature.Variant
      then bind_res (map_err SignatureParse (from_str N v)) (\<lambda>vs. Ok (s\<lparr>value_sign := Some vs\<rparr>))
      else Ok (write_all (write_all s v) [byte_of 0]))"

definition gv_serialize_unit :: "ser \<Rightarrow> (zerror, ser) res" where
  "gv_serialize_unit s = Ok (write_all s [byte_of 0])"

definition gv_serialize_unit_variant :: "nom \<Rightarrow> endi \<Rightarrow> u32 \<Rightarrow> string \<Rightarrow> ser \<Rightarrow> (zerror, ser) res" where
  "gv_serialize_unit_variant N E variant_index variant s =
     (if sig s = signature.Str then gv_serialize_str N variant s
      else gv_serialize_basic (serialize_u32 E variant_index) s)"

text \<open>The argument is the serialization of the value of a \<^verbatim>\<open>Some\<close>.\<close>

definition gv_serialize_maybe :: "(ser \<Rightarrow> (zerror, ser) res) option \<Rightarrow> ser \<Rightarrow> (zerror, ser) res" where
  "gv_serialize_maybe x s =
     bind_res (gv_pad (sig s) s) (\<lambda>s.
     case sig s of
       signature.Maybe child \<Rightarrow>
         (case x of
            None \<Rightarrow> Ok s
          | Some f \<Rightarrow>
              let maybe_signature = sig s; s = s\<lparr>sig := child\<rparr> in
              bind_res (inc_maybe (container_depths s)) (\<lambda>d.
              bind_res (f (s\<lparr>container_depths := d\<rparr>)) (\<lambda>s.
              bind_res (dec_maybe (container_depths s)) (\<lambda>d.
              let s = s\<lparr>container_depths := d, sig := maybe_signature\<rparr> in
              Ok (if is_fixed_sized child then s else write_all s [byte_of 0])))))
     | _ \<Rightarrow> Err (SignatureMismatch (sig s) ''a maybe''))"

section \<open>Sequences\<close>

record gv_seq_ser =
  gq_start :: nat
  gq_element_alignment :: nat
  gq_offsets :: "framing_offsets option"
  gq_array_signature :: signature

definition gv_serialize_seq :: "ser \<Rightarrow> (zerror, gv_seq_ser \<times> ser) res" where
  "gv_serialize_seq s =
     (let al = alignment_gvariant (sig s) in
      bind_res (add_padding s al) (\<lambda>(_, s).
      bind_res
        (case sig s of
           signature.Array child \<Rightarrow> Ok (child, is_fixed_sized child)
         | signature.Dict key val \<Rightarrow> Ok (key, is_fixed_sized key \<and> is_fixed_sized val)
         | _ \<Rightarrow> Err (SignatureMismatch (sig s) ''an array or dict'')) (\<lambda>(child_signature, fixed_sized_element).
      let offsets = (if \<not> fixed_sized_element then Some [] else None);
          array_signature = sig s; s = s\<lparr>sig := child_signature\<rparr> in
      bind_res (inc_array (container_depths s)) (\<lambda>d.
      Ok (\<lparr>gq_start = bytes_written s, gq_element_alignment = al, gq_offsets = offsets,
           gq_array_signature = array_signature\<rparr>,
          s\<lparr>container_depths := d\<rparr>)))))"

definition gv_end_seq :: "endi \<Rightarrow> gv_seq_ser \<Rightarrow> ser \<Rightarrow> (zerror, ser) res" where
  "gv_end_seq E q s =
     bind_res (dec_array (container_depths s)) (\<lambda>d.
     let s = s\<lparr>container_depths := d, sig := gq_array_signature q\<rparr> in
     case gq_offsets q of
       None \<Rightarrow> Ok s
     | Some offsets \<Rightarrow>
         let array_len = bytes_written s - gq_start q in
         if array_len = 0 then Ok s else offsets_write_all E offsets array_len s)"

definition gv_push_end :: "gv_seq_ser \<Rightarrow> ser \<Rightarrow> gv_seq_ser" where
  "gv_push_end q s =
     (case gq_offsets q of
        Some offsets \<Rightarrow> q\<lparr>gq_offsets := Some (offsets_push offsets (bytes_written s - gq_start q))\<rparr>
      | None \<Rightarrow> q)"

definition gv_serialize_element ::
  "(ser \<Rightarrow> (zerror, ser) res) \<Rightarrow> gv_seq_ser \<times> ser \<Rightarrow> (zerror, gv_seq_ser \<times> ser) res" where
  "gv_serialize_element f qs =
     bind_res (f (snd qs)) (\<lambda>s. Ok (gv_push_end (fst qs) s, s))"

definition gv_serialize_bytes :: "endi \<Rightarrow> byte list \<Rightarrow> ser \<Rightarrow> (zerror, ser) res" where
  "gv_serialize_bytes E v s = bind_res (gv_serialize_seq s) (\<lambda>(q, s). gv_end_seq E q (write_all s v))"

record gv_map_ser =
  gm_seq :: gv_seq_ser
  gm_key_signature :: signature
  gm_value_signature :: signature
  gm_key_start :: "nat option"

definition gv_serialize_map :: "ser \<Rightarrow> (zerror, gv_map_ser \<times> ser) res" where
  "gv_serialize_map s =
     (case sig s of
        signature.Dict key val \<Rightarrow>
          bind_res (gv_serialize_seq s) (\<lambda>(q, s).
            Ok (\<lparr>gm_seq = q, gm_key_signature = key, gm_value_signature = val,
                 gm_key_start = (if \<not> is_fixed_sized key then Some 0 else None)\<rparr>, s))
      | _ \<Rightarrow> Err (SignatureMismatch (sig s) ''a dict''))"

definition gv_serialize_key ::
  "(ser \<Rightarrow> (zerror, ser) res) \<Rightarrow> gv_map_ser \<times> ser \<Rightarrow> (zerror, gv_map_ser \<times> ser) res" where
  "gv_serialize_key f ms =
     (let (m, s) = ms in
      bind_res (add_padding s (gq_element_alignment (gm_seq m))) (\<lambda>(_, s).
      let m = (if gm_key_start m \<noteq> None then m\<lparr>gm_key_start := Some (bytes_written s)\<rparr> else m) in
      bind_res (f s) (\<lambda>s. Ok (m, s))))"

text \<open>The size of the key's offset is that of the entry without it.\<close>

definition gv_serialize_map_value ::
  "endi \<Rightarrow> (ser \<Rightarrow> (zerror, ser) res) \<Rightarrow> gv_map_ser \<times> ser \<Rightarrow> (zerror, gv_map_ser \<times> ser) res" where
  "gv_serialize_map_value E f ms =
     (let (m, s) = ms; key_offset = map_option (\<lambda>start. bytes_written s - start) (gm_key_start m) in
      bind_res (f (s\<lparr>sig := gm_value_signature m\<rparr>)) (\<lambda>s.
      let s = s\<lparr>sig := gm_key_signature m\<rparr> in
      bind_res
        (case key_offset of
           Some off \<Rightarrow>
             let entry_size = bytes_written s - (case gm_key_start m of Some start \<Rightarrow> start | None \<Rightarrow> 0) in
             bind_res (for_encoded_container entry_size) (\<lambda>sz. Ok (write_all s (write_offset E sz off)))
         | None \<Rightarrow> Ok s) (\<lambda>s.
      Ok (m\<lparr>gm_seq := gv_push_end (gm_seq m) s\<rparr>, s))))"

section \<open>Structures and variants\<close>

record gv_struct_ser =
  gt_start :: nat
  gt_offsets :: "framing_offsets option"
  gt_container_depths :: depths
  gt_field_idx :: nat

datatype gv_struct_seq_ser = GStruct_S gv_struct_ser | GSeq_S gv_seq_ser

definition gv_struct_offsets :: "ser \<Rightarrow> framing_offsets option" where
  "gv_struct_offsets s = (case sig s of signature.Structure _ \<Rightarrow> Some [] | _ \<Rightarrow> None)"

definition gv_struct_new :: "(zerror, depths) res \<Rightarrow> ser \<Rightarrow> (zerror, gv_struct_ser \<times> ser) res" where
  "gv_struct_new inc s =
     bind_res inc (\<lambda>d. Ok (\<lparr>gt_start = bytes_written s, gt_offsets = gv_struct_offsets s,
       gt_container_depths = container_depths s, gt_field_idx = 0\<rparr>, s\<lparr>container_depths := d\<rparr>))"

definition gv_struct_variant :: "ser \<Rightarrow> (zerror, gv_struct_ser \<times> ser) res" where
  "gv_struct_variant s =
     bind_res (add_padding s VARIANT_ALIGNMENT_GVARIANT) (\<lambda>(_, s).
       gv_struct_new (inc_variant (container_depths s)) s)"

definition gv_struct_structure :: "ser \<Rightarrow> (zerror, gv_struct_ser \<times> ser) res" where
  "gv_struct_structure s =
     bind_res (gv_pad (sig s) s) (\<lambda>s. gv_struct_new (inc_structure (container_depths s)) s)"

definition gv_struct_unit :: "ser \<Rightarrow> (zerror, gv_struct_ser \<times> ser) res" where
  "gv_struct_unit s =
     bind_res (gv_serialize_basic (serialize_u8 (byte_of 0)) s) (\<lambda>s.
       Ok (\<lparr>gt_start = bytes_written s, gt_offsets = None, gt_container_depths = container_depths s,
            gt_field_idx = 0\<rparr>, s))"

definition gv_serialize_struct :: "nat \<Rightarrow> ser \<Rightarrow> (zerror, gv_struct_seq_ser \<times> ser) res" where
  "gv_serialize_struct len s =
     (if len = 0 then bind_res (gv_struct_unit s) (\<lambda>(t, s). Ok (GStruct_S t, s))
      else bind_res (gv_pad (sig s) s) (\<lambda>s.
        case sig s of
          signature.Variant \<Rightarrow> bind_res (gv_struct_variant s) (\<lambda>(t, s). Ok (GStruct_S t, s))
        | signature.Array _ \<Rightarrow> bind_res (gv_serialize_seq s) (\<lambda>(q, s). Ok (GSeq_S q, s))
        | signature.Structure _ \<Rightarrow> bind_res (gv_struct_structure s) (\<lambda>(t, s). Ok (GStruct_S t, s))
        | _ \<Rightarrow> Err (SignatureMismatch (sig s) ''a struct, array or variant'')))"

text \<open>
  \<^verbatim>\<open>serialize_struct_element\<close>: the field has a serializer of its own, as in D-Bus. Behind the value of a variant come a zero
  byte and its signature; the end of a field that is not of fixed size is put in front of the offsets.
\<close>

definition gv_serialize_struct_element ::
  "(ser \<Rightarrow> (zerror, ser) res) \<Rightarrow> gv_struct_ser \<times> ser \<Rightarrow> (zerror, gv_struct_ser \<times> ser) res" where
  "gv_serialize_struct_element f ts =
     (let (t, s) = ts in
      bind_res
        (case sig s of
           signature.Variant \<Rightarrow>
             Ok (case value_sign s of Some vs \<Rightarrow> (vs, True) | None \<Rightarrow> (signature.Variant, False), t)
         | signature.Structure fs \<Rightarrow>
             if gt_field_idx t < length fs
             then Ok ((fs ! gt_field_idx t, False), t\<lparr>gt_field_idx := gt_field_idx t + 1\<rparr>)
             else Err (SignatureMismatch (sig s) ''a struct'')
         | _ \<Rightarrow> Panic) (\<lambda>((field_signature, is_variant_value), t).
      bind_res (f (s\<lparr>sig := field_signature, value_sign := None\<rparr>)) (\<lambda>s'.
      let s = s\<lparr>out_writer := out_writer s', fds := fds s', bytes_written := bytes_written s',
                value_sign := value_sign s'\<rparr> in
      Ok (case sig s of
            signature.Variant \<Rightarrow>
              (t, if is_variant_value then write_all (write_all s [byte_of 0]) (to_string field_signature) else s)
          | _ \<Rightarrow>
              (case gt_offsets t of
                 Some offsets \<Rightarrow>
                   if \<not> is_fixed_sized field_signature
                   then t\<lparr>gt_offsets := Some (offsets_push_front offsets (bytes_written s - gt_start t))\<rparr> else t
               | None \<Rightarrow> t, s)))))"

definition gv_enum_variant :: "endi \<Rightarrow> u32 \<Rightarrow> ser \<Rightarrow> (zerror, gv_struct_ser \<times> ser) res" where
  "gv_enum_variant E variant_index s =
     (case sig s of
        signature.Structure flds \<Rightarrow>
          let struct_field = (if 1 < length flds
            then (case flds ! 1 of signature.Structure _ \<Rightarrow> Some (flds ! 1) | _ \<Rightarrow> None) else None) in
          bind_res (gv_pad (sig s) s) (\<lambda>s.
          bind_res (gv_struct_structure s) (\<lambda>ts.
          bind_res (gv_serialize_struct_element (gv_serialize_basic (serialize_u32 E variant_index)) ts) (\<lambda>(t, s).
          case struct_field of
            Some field \<Rightarrow> bind_res (gv_pad field s) (\<lambda>s. Ok (t\<lparr>gt_field_idx := 0\<rparr>, s\<lparr>sig := field\<rparr>))
          | None \<Rightarrow> Ok (t, s))))
      | _ \<Rightarrow> Err (SignatureMismatch (sig s) ''a struct''))"

definition gv_serialize_newtype_variant ::
  "endi \<Rightarrow> u32 \<Rightarrow> (ser \<Rightarrow> (zerror, ser) res) \<Rightarrow> ser \<Rightarrow> (zerror, ser) res" where
  "gv_serialize_newtype_variant E variant_index f s =
     bind_res (gv_enum_variant E variant_index s) (\<lambda>ts.
     bind_res (gv_serialize_struct_element f ts) (\<lambda>(_, s). Ok s))"

definition gv_end_struct :: "endi \<Rightarrow> gv_struct_ser \<Rightarrow> ser \<Rightarrow> (zerror, ser) res" where
  "gv_end_struct E t s =
     (let s = s\<lparr>container_depths := gt_container_depths t\<rparr> in
      case gt_offsets t of
        None \<Rightarrow> Ok s
      | Some offsets \<Rightarrow>
          let struct_len = bytes_written s - gt_start t in
          if struct_len = 0 then Ok s
          else let offsets = (if offsets_peek offsets = Some struct_len then snd (offsets_pop offsets) else offsets) in
            offsets_write_all E offsets struct_len s)"

definition gv_serialize_field ::
  "(ser \<Rightarrow> (zerror, ser) res) \<Rightarrow> gv_struct_seq_ser \<times> ser \<Rightarrow> (zerror, gv_struct_seq_ser \<times> ser) res" where
  "gv_serialize_field f xs =
     (case fst xs of
        GStruct_S t \<Rightarrow> bind_res (gv_serialize_struct_element f (t, snd xs)) (\<lambda>(t, s). Ok (GStruct_S t, s))
      | GSeq_S q \<Rightarrow> bind_res (gv_serialize_element f (q, snd xs)) (\<lambda>(q, s). Ok (GSeq_S q, s)))"

definition gv_end_struct_seq :: "endi \<Rightarrow> gv_struct_seq_ser \<times> ser \<Rightarrow> (zerror, ser) res" where
  "gv_end_struct_seq E xs =
     (case fst xs of GStruct_S t \<Rightarrow> gv_end_struct E t (snd xs) | GSeq_S q \<Rightarrow> gv_end_seq E q (snd xs))"

section \<open>Values\<close>

text \<open>The \<^verbatim>\<open>Serialize\<close> implementations of \<^verbatim>\<open>Value\<close> and its containers on this serializer.\<close>

function (sequential) gv_serialize_inner :: "nom \<Rightarrow> endi \<Rightarrow> dup \<Rightarrow> zvalue \<Rightarrow> ser \<Rightarrow> (zerror, ser) res"
  and gv_serialize_value :: "nom \<Rightarrow> endi \<Rightarrow> dup \<Rightarrow> zvalue \<Rightarrow> ser \<Rightarrow> (zerror, ser) res"
  and gv_serialize_elements ::
    "nom \<Rightarrow> endi \<Rightarrow> dup \<Rightarrow> zvalue list \<Rightarrow> gv_seq_ser \<times> ser \<Rightarrow> (zerror, gv_seq_ser \<times> ser) res"
  and gv_serialize_entries ::
    "nom \<Rightarrow> endi \<Rightarrow> dup \<Rightarrow> (zvalue \<times> zvalue) list \<Rightarrow> gv_map_ser \<times> ser \<Rightarrow> (zerror, gv_map_ser \<times> ser) res"
  and gv_serialize_fields ::
    "nom \<Rightarrow> endi \<Rightarrow> dup \<Rightarrow> zvalue list \<Rightarrow> gv_struct_seq_ser \<times> ser \<Rightarrow> (zerror, gv_struct_seq_ser \<times> ser) res" where
  "gv_serialize_inner N E D (U8 v) s = gv_serialize_basic (serialize_u8 v) s"
| "gv_serialize_inner N E D (Bool v) s = gv_serialize_basic (serialize_bool E v) s"
| "gv_serialize_inner N E D (I16 v) s = gv_serialize_basic (serialize_i16 E v) s"
| "gv_serialize_inner N E D (U16 v) s = gv_serialize_basic (serialize_u16 E v) s"
| "gv_serialize_inner N E D (I32 v) s = gv_serialize_basic (serialize_i32 E D v) s"
| "gv_serialize_inner N E D (U32 v) s = gv_serialize_basic (serialize_u32 E v) s"
| "gv_serialize_inner N E D (I64 v) s = gv_serialize_basic (serialize_i64 E v) s"
| "gv_serialize_inner N E D (U64 v) s = gv_serialize_basic (serialize_u64 E v) s"
| "gv_serialize_inner N E D (F64 v) s = gv_serialize_basic (serialize_f64 E v) s"
| "gv_serialize_inner N E D (Str v) s = gv_serialize_str N v s"
| "gv_serialize_inner N E D (Signature v) s = gv_serialize_str N (to_string v) s"
| "gv_serialize_inner N E D (ObjectPath v) s = gv_serialize_str N v s"
| "gv_serialize_inner N E D (Value v) s = gv_serialize_value N E D v s"
| "gv_serialize_inner N E D (Array es _) s =
     bind_res (gv_serialize_seq s) (\<lambda>qs.
     bind_res (gv_serialize_elements N E D es qs) (\<lambda>(q, s). gv_end_seq E q s))"
| "gv_serialize_inner N E D (Dict m _) s =
     bind_res (gv_serialize_map s) (\<lambda>ms.
     bind_res (gv_serialize_entries N E D m ms) (\<lambda>(m, s). gv_end_seq E (gm_seq m) s))"
| "gv_serialize_inner N E D (Structure fs _) s =
     bind_res (gv_serialize_struct (length fs) s) (\<lambda>xs.
     bind_res (gv_serialize_fields N E D fs xs) (\<lambda>xs. gv_end_struct_seq E xs))"
| "gv_serialize_inner N E D (Maybe None _) s = gv_serialize_maybe None s"
| "gv_serialize_inner N E D (Maybe (Some v) _) s = gv_serialize_maybe (Some (gv_serialize_inner N E D v)) s"
| "gv_serialize_inner N E D (Fd v) s = gv_serialize_basic (serialize_i32 E D v) s"
| "gv_serialize_value N E D v s =
     bind_res (gv_serialize_struct 2 s) (\<lambda>xs.
     bind_res (gv_serialize_field (gv_serialize_str N (to_string (value_signature v))) xs) (\<lambda>xs.
     bind_res (gv_serialize_field (gv_serialize_inner N E D v) xs) (\<lambda>xs. gv_end_struct_seq E xs)))"
| "gv_serialize_elements N E D [] qs = Ok qs"
| "gv_serialize_elements N E D (e # es) qs =
     bind_res (gv_serialize_element (gv_serialize_inner N E D e) qs) (\<lambda>qs. gv_serialize_elements N E D es qs)"
| "gv_serialize_entries N E D [] ms = Ok ms"
| "gv_serialize_entries N E D ((k, v) # m) ms =
     bind_res (gv_serialize_key (gv_serialize_inner N E D k) ms) (\<lambda>ms.
     bind_res (gv_serialize_map_value E (gv_serialize_inner N E D v) ms) (\<lambda>ms.
     gv_serialize_entries N E D m ms))"
| "gv_serialize_fields N E D [] xs = Ok xs"
| "gv_serialize_fields N E D (f # fs) xs =
     bind_res (gv_serialize_field (gv_serialize_inner N E D f) xs) (\<lambda>xs. gv_serialize_fields N E D fs xs)"
  by pat_completeness auto

termination
  by (relation "measure (case_sum (case_sum (\<lambda>(_, _, _, v, _). 2 * size v) (\<lambda>(_, _, _, v, _). Suc (2 * size v)))
      (case_sum (\<lambda>(_, _, _, vs, _). 2 * size_list size vs)
        (case_sum (\<lambda>(_, _, _, m, _). 2 * size_list (size_prod size size) m)
          (\<lambda>(_, _, _, vs, _). 2 * size_list size vs))))") auto

text \<open>\<^verbatim>\<open>to_bytes\<close> and \<^verbatim>\<open>serialized_size\<close> with a context of this format.\<close>

definition gv_to_bytes :: "nom \<Rightarrow> endi \<Rightarrow> dup \<Rightarrow> ctx \<Rightarrow> zvalue \<Rightarrow> (zerror, data) res" where
  "gv_to_bytes N E D c v = to_bytes_for_signature c signature.Variant (gv_serialize_value N E D v)"

definition gv_serialized_size :: "nom \<Rightarrow> endi \<Rightarrow> dup \<Rightarrow> ctx \<Rightarrow> zvalue \<Rightarrow> (zerror, ser_size) res" where
  "gv_serialized_size N E D c v = serialized_size c signature.Variant (gv_serialize_value N E D v)"

end
