(* ===== verification/GVariant_Enc.thy ===== *)
theory GVariant_Enc
  imports DBus_Enc GVariant_Ser
begin

text \<open>
  What the GVariant serializer computes. \<open>genc\<close> is the format as a function of the value, the position and the depth of
  nesting: containers are the concatenation of the pieces of their elements and a tail of framing offsets, which are read off
  the lengths of the pieces. The serializer, which collects the offsets as it goes, appends exactly these bytes.
\<close>

section \<open>The format\<close>

text \<open>Where each of some consecutive pieces ends.\<close>

fun ends :: "nat \<Rightarrow> byte list list \<Rightarrow> nat list" where
  "ends n [] = []"
| "ends n (p # ps) = (n + length p) # ends (n + length p) ps"

text \<open>The framing offsets behind a container of some length.\<close>

definition frames_tail :: "endi \<Rightarrow> nat list \<Rightarrow> nat \<Rightarrow> (zerror, byte list) res" where
  "frames_tail E os len =
     (if os = [] \<or> len = 0 then Ok []
      else map_ok (\<lambda>sz. concat (map (write_offset E sz) os)) (for_bare_container len (length os)))"

definition framed_body :: "endi \<Rightarrow> nat list \<Rightarrow> byte list list \<Rightarrow> (zerror, byte list) res" where
  "framed_body E os ps = map_ok (\<lambda>t. concat ps @ t) (frames_tail E os (length (concat ps)))"

text \<open>The ends of the fields that are not of fixed size, the last one first, and without the end of the structure.\<close>

definition field_ends :: "nat \<Rightarrow> signature list \<Rightarrow> byte list list \<Rightarrow> nat list" where
  "field_ends n ss ps = rev (map snd (filter (\<lambda>(s, _). \<not> is_fixed_sized s) (zip ss (ends n ps))))"

definition drop_own_end :: "nat \<Rightarrow> nat list \<Rightarrow> nat list" where
  "drop_own_end len os = (case os of x # xs \<Rightarrow> if x = len then xs else os | [] \<Rightarrow> [])"

text \<open>The entry of a dictionary at an aligned position: key, value, and the end of a key that is not of fixed size.\<close>

definition entry_bytes :: "endi \<Rightarrow> bool \<Rightarrow> byte list \<Rightarrow> byte list \<Rightarrow> (zerror, byte list) res" where
  "entry_bytes E fixed_key k v =
     (if fixed_key then Ok (k @ v)
      else map_ok (\<lambda>sz. k @ v @ write_offset E sz (length k)) (for_encoded_container (length k + length v)))"

function (sequential) genc :: "endi \<Rightarrow> endian \<Rightarrow> depths \<Rightarrow> zvalue \<Rightarrow> nat \<Rightarrow> (zerror, byte list) res"
  and genc_all :: "endi \<Rightarrow> endian \<Rightarrow> depths \<Rightarrow> zvalue list \<Rightarrow> nat \<Rightarrow> (zerror, byte list list) res"
  and genc_entries ::
    "endi \<Rightarrow> endian \<Rightarrow> depths \<Rightarrow> nat \<Rightarrow> bool \<Rightarrow> (zvalue \<times> zvalue) list \<Rightarrow> nat \<Rightarrow> (zerror, byte list list) res"
where
  "genc E e d (Str v) n = Ok (v @ [byte_of 0])"
| "genc E e d (Signature v) n = Ok (to_string v @ [byte_of 0])"
| "genc E e d (ObjectPath v) n = Ok (v @ [byte_of 0])"
| "genc E e d (Value v) n =
     bind_res (inc_variant d) (\<lambda>d'.
     map_ok (\<lambda>b. pad n 8 @ b @ [byte_of 0] @ to_string (value_signature v)) (genc E e d' v (n + padding n 8)))"
| "genc E e d (Array es s) n =
     (case s of
        signature.Array c \<Rightarrow>
          let a = alignment_gvariant c in
          bind_res (inc_array d) (\<lambda>d'.
          bind_res (genc_all E e d' es (n + padding n a)) (\<lambda>ps.
          map_ok (\<lambda>b. pad n a @ b) (framed_body E (if is_fixed_sized c then [] else ends 0 ps) ps)))
      | _ \<Rightarrow> Panic)"
| "genc E e d (Dict m s) n =
     (case s of
        signature.Dict k x \<Rightarrow>
          let a = alignment_gvariant s in
          bind_res (inc_array d) (\<lambda>d'.
          bind_res (genc_entries E e d' a (is_fixed_sized k) m (n + padding n a)) (\<lambda>ps.
          map_ok (\<lambda>b. pad n a @ b)
            (framed_body E (if is_fixed_sized k \<and> is_fixed_sized x then [] else ends 0 ps) ps)))
      | _ \<Rightarrow> Panic)"
| "genc E e d (Structure fs s) n =
     (let a = alignment_gvariant s in
      bind_res (inc_structure d) (\<lambda>d'.
      bind_res (genc_all E e d' fs (n + padding n a)) (\<lambda>ps.
      map_ok (\<lambda>b. pad n a @ b)
        (framed_body E (drop_own_end (length (concat ps)) (field_ends 0 (map value_signature fs) ps)) ps))))"
| "genc E e d (Maybe None s) n = Ok (pad n (alignment_gvariant s))"
| "genc E e d (Maybe (Some v) s) n =
     bind_res (inc_maybe d) (\<lambda>d'.
     let a = alignment_gvariant s in
     map_ok (\<lambda>b. pad n a @ b @ (if is_fixed_sized (value_signature v) then [] else [byte_of 0]))
       (genc E e d' v (n + padding n a)))"
| "genc E e d v n = enc E e d v n"
| "genc_all E e d [] n = Ok []"
| "genc_all E e d (v # vs) n =
     bind_res (genc E e d v n) (\<lambda>p. map_ok (\<lambda>ps. p # ps) (genc_all E e d vs (n + length p)))"
| "genc_entries E e d a fixed_key [] n = Ok []"
| "genc_entries E e d a fixed_key ((k, v) # m) n =
     bind_res (genc E e d k (n + padding n a)) (\<lambda>bk.
     bind_res (genc E e d v (n + padding n a + length bk)) (\<lambda>bv.
     bind_res (entry_bytes E fixed_key bk bv) (\<lambda>b.
     map_ok (\<lambda>ps. (pad n a @ b) # ps) (genc_entries E e d a fixed_key m (n + padding n a + length b)))))"
  by pat_completeness auto

termination
  by (relation "measure (case_sum (\<lambda>(_, _, _, v, _). size v)
      (case_sum (\<lambda>(_, _, _, vs, _). size_list size vs)
        (\<lambda>(_, _, _, _, _, m, _). size_list (size_prod size size) m)))") auto

section \<open>Padding and offsets\<close>

lemma alignment_gvariant_cases: "alignment_gvariant s \<in> {1, 2, 4, 8}"
proof (induction s)
  case (Structure fs)
  show ?case
  proof (cases "fs = []")
    case False
    then have "Max (alignment_gvariant ` set fs) \<in> alignment_gvariant ` set fs"
      by (intro Max_in) auto
    then obtain f where "f \<in> set fs" "Max (alignment_gvariant ` set fs) = alignment_gvariant f"
      by blast
    with False Structure [of f] show ?thesis by simp
  qed simp
qed (auto simp: max_def)

lemmas gv_padding = add_padding_pad [OF alignment_gvariant_cases]

lemma gv_pad_eq [ser_simps]: "gv_pad t s = Ok (write_all s (pad (abs_pos s) (alignment_gvariant t)))"
  by (simp add: gv_pad_def gv_padding)

lemma padding_again [simp]:
  "padding (n + padding n (alignment_gvariant t)) (alignment_gvariant t) = 0"
  using alignment_gvariant_cases [of t] by auto

lemma pad_again [simp]:
  "pad (n + padding n (alignment_gvariant t)) (alignment_gvariant t) = []" "pad (n + padding n 8) 8 = []"
  by (simp_all add: pad_def)

lemma dec_inc_maybe: "inc_maybe d = Ok d' \<Longrightarrow> dec_maybe d' = Ok d"
  by (auto simp: dec_maybe_def dest!: inc_depths_Ok)

lemma fold_write:
  "ready s \<Longrightarrow> fold (\<lambda>x s. write_all s (f x)) xs s = write_all s (concat (map f xs))"
  by (induction xs arbitrary: s) (simp_all add: ser_simps)

lemma offsets_write_all_eq:
  "ready s \<Longrightarrow> (if len = 0 then Ok s else offsets_write_all E os len s) = map_ok (write_all s) (frames_tail E os len)"
  by (cases "for_bare_container len (length os)")
    (simp_all add: offsets_write_all_def frames_tail_def fold_write)

lemma length_ends [simp]: "length (ends n ps) = length ps"
  by (induction ps arbitrary: n) auto

lemma same_offsets [simp]:
  "gq_offsets q = os \<Longrightarrow> q\<lparr>gq_offsets := os\<rparr> = q" "gt_offsets t = os \<Longrightarrow> t\<lparr>gt_offsets := os\<rparr> = t"
  by (cases q, simp) (cases t, simp)

section \<open>The serializer writes the format\<close>

definition grefines :: "nom \<Rightarrow> endi \<Rightarrow> dup \<Rightarrow> zvalue \<Rightarrow> bool" where
  "grefines N E D v \<longleftrightarrow> (\<forall>s. ready s \<longrightarrow> sig s = value_signature v \<longrightarrow> value_sign s = None \<longrightarrow>
     gv_serialize_inner N E D v s =
       map_ok (write_all s) (genc E (endian_of s) (container_depths s) v (abs_pos s)))"

lemma grefinesD:
  "grefines N E D v \<Longrightarrow> ready s \<Longrightarrow> sig s = value_signature v \<Longrightarrow> value_sign s = None \<Longrightarrow>
     gv_serialize_inner N E D v s =
       map_ok (write_all s) (genc E (endian_of s) (container_depths s) v (abs_pos s))"
  by (simp add: grefines_def)

text \<open>Arrays: the offsets that were collected are the ends of the pieces.\<close>

definition more_offsets :: "gv_seq_ser \<Rightarrow> nat \<Rightarrow> byte list list \<Rightarrow> gv_seq_ser" where
  "more_offsets q n ps = q\<lparr>gq_offsets := map_option (\<lambda>os. os @ ends n ps) (gq_offsets q)\<rparr>"

lemma more_offsets_simps [simp]:
  "more_offsets q n [] = q" "gq_start (more_offsets q n ps) = gq_start q"
  "gq_array_signature (more_offsets q n ps) = gq_array_signature q"
  "gq_element_alignment (more_offsets q n ps) = gq_element_alignment q"
  by (simp_all add: more_offsets_def option.map_ident)

lemma push_end_more:
  "bytes_written s - gq_start q = n + length p \<Longrightarrow>
     more_offsets (gv_push_end q s) (n + length p) ps = more_offsets q n (p # ps)"
  by (auto simp: gv_push_end_def more_offsets_def offsets_push_def split: option.splits)

lemma push_end_start [simp]: "gq_start (gv_push_end q s) = gq_start q"
    "gq_array_signature (gv_push_end q s) = gq_array_signature q"
    "gq_element_alignment (gv_push_end q s) = gq_element_alignment q"
  by (auto simp: gv_push_end_def split: option.splits)

lemma gv_elements_enc:
  assumes "\<forall>e \<in> set es. grefines N E D e \<and> value_signature e = c"
    "ready s" "sig s = c" "value_sign s = None" "gq_start q \<le> bytes_written s"
  shows "gv_serialize_elements N E D es (q, s) =
    map_ok (\<lambda>ps. (more_offsets q (bytes_written s - gq_start q) ps, write_all s (concat ps)))
      (genc_all E (endian_of s) (container_depths s) es (abs_pos s))"
  using assms
proof (induction es arbitrary: q s)
  case (Cons e es)
  have "gv_serialize_inner N E D e s =
      map_ok (write_all s) (genc E (endian_of s) (container_depths s) e (abs_pos s))"
    using Cons.prems by (intro grefinesD) auto
  moreover have "gv_serialize_elements N E D es (gv_push_end q (write_all s bs), write_all s bs) =
      map_ok (\<lambda>ps. (more_offsets q (bytes_written s - gq_start q) (bs # ps), write_all (write_all s bs) (concat ps)))
      (genc_all E (endian_of s) (container_depths s) es (abs_pos s + length bs))" for bs
    using Cons.IH [of "write_all s bs" "gv_push_end q (write_all s bs)"] Cons.prems
      push_end_more [of "write_all s bs" q "bytes_written s - gq_start q" bs] by simp
  ultimately show ?case
    using Cons.prems(2)
    by (auto simp: gv_serialize_element_def map_ok_def ser_simps bind_res_assoc intro!: arg_cong [where f = "bind_res _"])
qed simp

text \<open>The array or dictionary that was started, and its end.\<close>

fun element_sig :: "signature \<Rightarrow> (signature \<times> bool) option" where
  "element_sig (signature.Array c) = Some (c, is_fixed_sized c)"
| "element_sig (signature.Dict k v) = Some (k, is_fixed_sized k \<and> is_fixed_sized v)"
| "element_sig _ = None"

definition gv_array_seq :: "ser \<Rightarrow> bool \<Rightarrow> gv_seq_ser" where
  "gv_array_seq s fixed = \<lparr>gq_start = bytes_written s + padding (abs_pos s) (alignment_gvariant (sig s)),
     gq_element_alignment = alignment_gvariant (sig s), gq_offsets = (if fixed then None else Some []),
     gq_array_signature = sig s\<rparr>"

definition gv_array_state :: "ser \<Rightarrow> signature \<Rightarrow> depths \<Rightarrow> byte list \<Rightarrow> ser" where
  "gv_array_state s c d body =
     write_all (s\<lparr>sig := c, container_depths := d\<rparr>) (pad (abs_pos s) (alignment_gvariant (sig s)) @ body)"

lemma gv_serialize_seq_eq:
  assumes "ready s" "element_sig (sig s) = Some (c, fixed)"
  shows "gv_serialize_seq s =
    map_ok (\<lambda>d. (gv_array_seq s fixed, gv_array_state s c d [])) (inc_array (container_depths s))"
  using assms
  by (cases "sig s"; cases "inc_array (container_depths s)")
    (simp_all add: gv_serialize_seq_def gv_padding Let_def gv_array_seq_def gv_array_state_def ser_simps
      del: alignment_gvariant.simps)

lemma gv_end_seq_eq:
  assumes "ready s" "inc_array (container_depths s) = Ok d"
  shows "gv_end_seq E (more_offsets (gv_array_seq s fixed) 0 ps) (gv_array_state s c d (concat ps)) =
    map_ok (\<lambda>b. write_all s (pad (abs_pos s) (alignment_gvariant (sig s)) @ b))
      (framed_body E (if fixed then [] else ends 0 ps) ps)"
proof -
  have undo: "(gv_array_state s c d (concat ps))\<lparr>container_depths := container_depths s, sig := sig s\<rparr> =
      write_all s (pad (abs_pos s) (alignment_gvariant (sig s)) @ concat ps)"
    by (simp add: gv_array_state_def ser_simps)
  have dec: "dec_array (container_depths (gv_array_state s c d (concat ps))) = Ok (container_depths s)"
    using dec_inc_depths(2) [OF assms(2)] by (simp add: gv_array_state_def)
  let ?s = "write_all s (pad (abs_pos s) (alignment_gvariant (sig s)) @ concat ps)"
  have "gv_end_seq E (more_offsets (gv_array_seq s fixed) 0 ps) (gv_array_state s c d (concat ps)) =
      (if fixed then Ok ?s else if length (concat ps) = 0 then Ok ?s
       else offsets_write_all E (ends 0 ps) (length (concat ps)) ?s)"
    by (simp only: gv_end_seq_def dec bind_res.simps Let_def more_offsets_simps(3))
      (simp add: undo [unfolded gv_array_seq_def] more_offsets_def gv_array_seq_def undo del: length_concat)
  also have "\<dots> = map_ok (write_all ?s) (frames_tail E (if fixed then [] else ends 0 ps) (length (concat ps)))"
    using offsets_write_all_eq [of ?s "length (concat ps)" E "ends 0 ps"] assms(1)
    by (simp add: frames_tail_def del: length_concat)
  finally show ?thesis
    using assms(1) by (simp add: framed_body_def map_ok_def bind_res_assoc ser_simps)
qed

lemma gv_array_enc:
  assumes "ready s" "element_sig (sig s) = Some (c, fixed)"
    and body: "\<And>d. F (gv_array_seq s fixed, gv_array_state s c d []) =
      map_ok (\<lambda>ps. (more_offsets (gv_array_seq s fixed) 0 ps, gv_array_state s c d (concat ps)))
        (f d (abs_pos s + padding (abs_pos s) (alignment_gvariant (sig s))))"
  shows "bind_res (gv_serialize_seq s) (\<lambda>qs. bind_res (F qs) (\<lambda>(q, s). gv_end_seq E q s)) =
    map_ok (write_all s)
      (bind_res (inc_array (container_depths s)) (\<lambda>d.
       bind_res (f d (abs_pos s + padding (abs_pos s) (alignment_gvariant (sig s)))) (\<lambda>ps.
       map_ok (\<lambda>b. pad (abs_pos s) (alignment_gvariant (sig s)) @ b)
         (framed_body E (if fixed then [] else ends 0 ps) ps))))"
proof (cases "inc_array (container_depths s)")
  case (Ok d)
  show ?thesis
    by (simp add: gv_serialize_seq_eq [OF assms(1,2)] Ok body map_ok_def bind_res_assoc
        gv_end_seq_eq [OF assms(1) Ok, unfolded map_ok_def])
qed (simp_all add: gv_serialize_seq_eq [OF assms(1,2)])

lemma grefines_Array:
  assumes "list_all (\<lambda>e. grefines N E D e \<and> value_signature e = c) es"
  shows "grefines N E D (Array es (signature.Array c))"
proof -
  have "gv_serialize_inner N E D (Array es (signature.Array c)) s = map_ok (write_all s)
      (genc E (endian_of s) (container_depths s) (Array es (signature.Array c)) (abs_pos s))"
    if s: "ready s" "sig s = signature.Array c" "value_sign s = None" for s
  proof -
    have "gv_serialize_elements N E D es (gv_array_seq s (is_fixed_sized c), gv_array_state s c d []) =
        map_ok (\<lambda>ps. (more_offsets (gv_array_seq s (is_fixed_sized c)) 0 ps, gv_array_state s c d (concat ps)))
          (genc_all E (endian_of s) d es (abs_pos s + padding (abs_pos s) (alignment_gvariant (sig s))))" for d
      using gv_elements_enc [where s = "gv_array_state s c d []" and q = "gv_array_seq s (is_fixed_sized c)" and es = es]
        assms s by (simp add: gv_array_state_def gv_array_seq_def list_all_iff ser_simps)
    from gv_array_enc [OF s(1), where c = c and F = "gv_serialize_elements N E D es" and
        f = "\<lambda>d. genc_all E (endian_of s) d es", OF _ this, of E] s show ?thesis
      by (simp add: Let_def)
  qed
  then show ?thesis by (simp add: grefines_def)
qed

text \<open>Dictionaries: one entry, and all of them. Of the map serializer only its sequence matters at the end.\<close>

lemma gv_entry_enc:
  assumes "grefines N E D k" "value_signature k = gm_key_signature m" "grefines N E D v"
    "value_signature v = gm_value_signature m" "ready s" "sig s = gm_key_signature m" "value_sign s = None"
    "gq_element_alignment (gm_seq m) = alignment_gvariant t" "gm_key_start m = None \<longleftrightarrow> fixed"
  shows "bind_res (gv_serialize_key (gv_serialize_inner N E D k) (m, s))
      (gv_serialize_map_value E (gv_serialize_inner N E D v)) =
    bind_res (genc E (endian_of s) (container_depths s) k (abs_pos s + padding (abs_pos s) (alignment_gvariant t))) (\<lambda>bk.
    bind_res (genc E (endian_of s) (container_depths s) v (abs_pos s + padding (abs_pos s) (alignment_gvariant t) + length bk)) (\<lambda>bv.
    map_ok (\<lambda>b. (m\<lparr>gm_key_start := if fixed then None else Some (bytes_written s + padding (abs_pos s) (alignment_gvariant t)),
          gm_seq := gv_push_end (gm_seq m) (write_all s (pad (abs_pos s) (alignment_gvariant t) @ b))\<rparr>, write_all s (pad (abs_pos s) (alignment_gvariant t) @ b)))
      (entry_bytes E fixed bk bv)))"
proof -
  let ?p = "pad (abs_pos s) (alignment_gvariant t)"
  have [simp]: "s\<lparr>sig := gm_key_signature m\<rparr> = s"
    using assms(6) by simp
  have k: "gv_serialize_inner N E D k (write_all s ?p) = map_ok (write_all (write_all s ?p))
      (genc E (endian_of s) (container_depths s) k (abs_pos s + padding (abs_pos s) (alignment_gvariant t)))"
    using assms grefinesD [of N E D k "write_all s ?p"] by simp
  have v: "gv_serialize_inner N E D v (write_all (s\<lparr>sig := gm_value_signature m\<rparr>) bs) =
      map_ok (write_all (write_all (s\<lparr>sig := gm_value_signature m\<rparr>) bs))
        (genc E (endian_of s) (container_depths s) v (abs_pos s + length bs))" for bs
    using assms grefinesD [of N E D v "write_all (s\<lparr>sig := gm_value_signature m\<rparr>) bs"] by simp
  have [simp]: "gm_key_start m = None \<Longrightarrow> m\<lparr>gm_key_start := None, gm_seq := q\<rparr> = m\<lparr>gm_seq := q\<rparr>" for q
    by (cases m) simp
  show ?thesis
  proof (cases fixed)
    case True
    then show ?thesis
      using assms(5,8,9)
      by (auto simp: gv_serialize_key_def gv_serialize_map_value_def gv_padding k v map_ok_def bind_res_assoc
          entry_bytes_def ser_simps Let_def add.assoc intro!: arg_cong [where f = "bind_res _"])
  next
    case False
    then obtain x where "gm_key_start m = Some x"
      using assms(9) by auto
    then show ?thesis
      using False assms(5,8)
      by (auto simp: gv_serialize_key_def gv_serialize_map_value_def gv_padding k v map_ok_def bind_res_assoc
          entry_bytes_def ser_simps Let_def add.assoc intro!: arg_cong [where f = "bind_res _"])
  qed
qed

lemma gv_entries_enc:
  assumes "\<forall>(k, v) \<in> set es. grefines N E D k \<and> value_signature k = gm_key_signature m \<and>
      grefines N E D v \<and> value_signature v = gm_value_signature m"
    "ready s" "sig s = gm_key_signature m" "value_sign s = None" "gq_start (gm_seq m) \<le> bytes_written s"
    "gq_element_alignment (gm_seq m) = alignment_gvariant t" "gm_key_start m = None \<longleftrightarrow> fixed"
  shows "map_ok (\<lambda>(m, s). (gm_seq m, s)) (gv_serialize_entries N E D es (m, s)) =
    map_ok (\<lambda>ps. (more_offsets (gm_seq m) (bytes_written s - gq_start (gm_seq m)) ps, write_all s (concat ps)))
      (genc_entries E (endian_of s) (container_depths s) (alignment_gvariant t) fixed es (abs_pos s))"
  using assms
proof (induction es arbitrary: m s)
  case (Cons kv es)
  obtain k v where kv [simp]: "kv = (k, v)" by (cases kv)
  let ?a = "alignment_gvariant t" let ?p = "pad (abs_pos s) ?a"
  let ?m = "\<lambda>b. m\<lparr>gm_key_start := if fixed then None else Some (bytes_written s + padding (abs_pos s) ?a),
      gm_seq := gv_push_end (gm_seq m) (write_all s (?p @ b))\<rparr>"
  have entry: "bind_res (gv_serialize_key (gv_serialize_inner N E D k) (m, s)) (\<lambda>ms.
        bind_res (gv_serialize_map_value E (gv_serialize_inner N E D v) ms) G) =
      bind_res (bind_res (gv_serialize_key (gv_serialize_inner N E D k) (m, s))
        (gv_serialize_map_value E (gv_serialize_inner N E D v))) G" for G :: "_ \<Rightarrow> (zerror, gv_map_ser \<times> ser) res"
    by (simp add: bind_res_assoc)
  have rest: "map_ok (\<lambda>(m, s). (gm_seq m, s)) (gv_serialize_entries N E D es (?m b, write_all s (?p @ b))) =
      map_ok (\<lambda>ps. (more_offsets (gm_seq m) (bytes_written s - gq_start (gm_seq m)) ((?p @ b) # ps),
          write_all (write_all s (?p @ b)) (concat ps)))
        (genc_entries E (endian_of s) (container_depths s) ?a fixed es (abs_pos s + padding (abs_pos s) ?a + length b))" for b
    using Cons.IH [of "?m b" "write_all s (?p @ b)"] Cons.prems
      push_end_more [of "write_all s (?p @ b)" "gm_seq m" "bytes_written s - gq_start (gm_seq m)" "?p @ b"]
    by (auto simp: add.assoc)
  show ?case
    using Cons.prems rest
    by (auto simp: entry gv_entry_enc [where t = t and fixed = fixed] map_ok_def bind_res_assoc ser_simps
        intro!: arg_cong [where f = "bind_res _"])
qed simp

lemma grefines_Dict:
  assumes "list_all (\<lambda>(k, v). grefines N E D k \<and> value_signature k = ks \<and>
    grefines N E D v \<and> value_signature v = vs) es"
  shows "grefines N E D (Dict es (signature.Dict ks vs))"
proof -
  let ?sig = "signature.Dict ks vs" and ?f = "is_fixed_sized ks \<and> is_fixed_sized vs"
  have "gv_serialize_inner N E D (Dict es ?sig) s = map_ok (write_all s)
      (genc E (endian_of s) (container_depths s) (Dict es ?sig) (abs_pos s))"
    if s: "ready s" "sig s = ?sig" "value_sign s = None" for s
  proof -
    let ?q = "gv_array_seq s ?f"
    let ?m = "\<lparr>gm_seq = ?q, gm_key_signature = ks, gm_value_signature = vs,
        gm_key_start = (if \<not> is_fixed_sized ks then Some 0 else None)\<rparr>"
    let ?F = "\<lambda>(q, s). map_ok (\<lambda>(m, s). (gm_seq m, s)) (gv_serialize_entries N E D es (?m\<lparr>gm_seq := q\<rparr>, s))"
    have "?F (?q, gv_array_state s ks d []) =
        map_ok (\<lambda>ps. (more_offsets ?q 0 ps, gv_array_state s ks d (concat ps)))
          (genc_entries E (endian_of s) d (alignment_gvariant ?sig) (is_fixed_sized ks) es
            (abs_pos s + padding (abs_pos s) (alignment_gvariant (sig s))))" for d
      using gv_entries_enc [where s = "gv_array_state s ks d []" and m = ?m and es = es and t = ?sig
          and fixed = "is_fixed_sized ks" and N = N and E = E and D = D] assms s
      by (simp add: gv_array_state_def gv_array_seq_def list_all_iff ser_simps del: alignment_gvariant.simps)
    from gv_array_enc [OF s(1), where c = ks and fixed = ?f and F = ?F and
        f = "\<lambda>d. genc_entries E (endian_of s) d (alignment_gvariant ?sig) (is_fixed_sized ks) es", OF _ this, of E] s
    show ?thesis
      by (cases "inc_array (container_depths s)")
        (simp_all add: gv_serialize_map_def gv_serialize_seq_eq map_ok_def bind_res_assoc case_prod_unfold Let_def
          del: alignment_gvariant.simps)
  qed
  then show ?thesis by (simp add: grefines_def)
qed

text \<open>Structures.\<close>

lemma field_ends_Cons:
  "field_ends n (s # ss) (p # ps) =
     field_ends (n + length p) ss ps @ (if is_fixed_sized s then [] else [n + length p])"
  by (simp add: field_ends_def)

lemma field_ends_Nil [simp]: "field_ends n ss [] = []"
  by (simp add: field_ends_def)

lemma gv_struct_element_state:
  "s\<lparr>out_writer := writer_write (out_writer s) bs, fds := fds s, bytes_written := bytes_written s + length bs,
     value_sign := vs\<rparr> = write_all (s\<lparr>value_sign := vs\<rparr>) bs"
  "s\<lparr>out_writer := writer_write (out_writer s) bs, fds := fds s, bytes_written := bytes_written s + length bs\<rparr> =
     write_all s bs"
  by (cases s; simp add: write_all_def)+

lemma gv_struct_element_after:
  "n = length bs \<Longrightarrow> (write_all s p)\<lparr>out_writer := writer_write (out_writer s) bs, fds := fds s,
     bytes_written := bytes_written s + n, value_sign := vs\<rparr> = write_all (s\<lparr>value_sign := vs\<rparr>) bs"
  by (cases s) (simp add: write_all_def)

lemma gv_fields_enc:
  assumes "\<forall>f \<in> set fs. grefines N E D f" "ready s" "sig s = signature.Structure ss"
    "drop (gt_field_idx t) ss = map value_signature fs" "value_sign s = None"
    "gt_start t \<le> bytes_written s" "gt_offsets t = Some os"
  shows "gv_serialize_fields N E D fs (GStruct_S t, s) =
    map_ok (\<lambda>ps. (GStruct_S (t\<lparr>gt_field_idx := gt_field_idx t + length fs,
        gt_offsets := Some (field_ends (bytes_written s - gt_start t) (map value_signature fs) ps @ os)\<rparr>),
      write_all s (concat ps)))
      (genc_all E (endian_of s) (container_depths s) fs (abs_pos s))"
  using assms
proof (induction fs arbitrary: s t os)
  case Nil
  then show ?case by (cases t) simp
next
  case (Cons f fs)
  let ?i = "gt_field_idx t" and ?b = "bytes_written s - gt_start t"
  let ?os = "\<lambda>bs. (if is_fixed_sized (value_signature f) then [] else [?b + length bs]) @ os"
  let ?t = "\<lambda>bs. t\<lparr>gt_field_idx := Suc ?i, gt_offsets := Some (?os bs)\<rparr>"
  have i: "?i < length ss" "ss ! ?i = value_signature f" "drop (Suc ?i) ss = map value_signature fs"
    using Cons.prems(4) by (auto simp: nth_via_drop drop_Suc simp flip: tl_drop intro: ccontr)
  have t: "t\<lparr>gt_field_idx := Suc ?i, gt_offsets := Some os\<rparr> = t\<lparr>gt_field_idx := Suc ?i\<rparr>"
    using Cons.prems(7) by (cases t) simp
  have f: "gv_serialize_inner N E D f (s\<lparr>sig := value_signature f\<rparr>) = map_ok (write_all (s\<lparr>sig := value_signature f\<rparr>))
      (genc E (endian_of s) (container_depths s) f (abs_pos s))"
    using Cons.prems i grefinesD [of N E D f "s\<lparr>sig := value_signature f\<rparr>"] by simp
  have "gv_serialize_field (gv_serialize_inner N E D f) (GStruct_S t, s) =
      map_ok (\<lambda>bs. (GStruct_S (?t bs), write_all s bs)) (genc E (endian_of s) (container_depths s) f (abs_pos s))"
    using Cons.prems i t f
    by (cases "genc E (endian_of s) (container_depths s) f (abs_pos s)")
      (simp_all add: gv_serialize_field_def gv_serialize_struct_element_def gv_struct_element_state offsets_push_front_def)
  moreover have "gv_serialize_fields N E D fs (GStruct_S (?t bs), write_all s bs) =
      map_ok (\<lambda>ps. (GStruct_S (t\<lparr>gt_field_idx := Suc ?i + length fs,
          gt_offsets := Some (field_ends (?b + length bs) (map value_signature fs) ps @ ?os bs)\<rparr>),
        write_all (write_all s bs) (concat ps)))
      (genc_all E (endian_of s) (container_depths s) fs (abs_pos s + length bs))" for bs
    using Cons.IH [of "write_all s bs" "?t bs" "?os bs"] Cons.prems i by simp
  ultimately show ?case
    using Cons.prems(2)
    by (auto simp: map_ok_def ser_simps bind_res_assoc field_ends_Cons intro!: arg_cong [where f = "bind_res _"])
qed

lemma drop_own_end_pop:
  "(if offsets_peek os = Some len then snd (offsets_pop os) else os) = drop_own_end len os"
  by (cases os) (auto simp: offsets_peek_def offsets_pop_def drop_own_end_def)

lemma gv_end_struct_eq:
  assumes "ready s" "gt_container_depths t = container_depths s" "gt_offsets t = Some os"
    "gt_start t = bytes_written s + length p"
  shows "gv_end_struct E t (write_all (s\<lparr>container_depths := d\<rparr>) (p @ concat ps)) =
    map_ok (\<lambda>b. write_all s (p @ b)) (framed_body E (drop_own_end (length (concat ps)) os) ps)"
proof -
  let ?s = "write_all s (p @ concat ps)"
  have "gv_end_struct E t (write_all (s\<lparr>container_depths := d\<rparr>) (p @ concat ps)) =
      (if length (concat ps) = 0 then Ok ?s
       else offsets_write_all E (drop_own_end (length (concat ps)) os) (length (concat ps)) ?s)"
    using assms by (simp add: gv_end_struct_def Let_def ser_simps drop_own_end_pop del: length_concat)
  also have "\<dots> = map_ok (write_all ?s)
      (frames_tail E (drop_own_end (length (concat ps)) os) (length (concat ps)))"
    using assms(1) by (intro offsets_write_all_eq) simp
  finally show ?thesis
    using assms(1) by (simp add: framed_body_def map_ok_def bind_res_assoc ser_simps)
qed

lemma grefines_Structure:
  assumes "list_all (grefines N E D) fs" "fs \<noteq> []"
  shows "grefines N E D (Structure fs (signature.Structure (map value_signature fs)))"
proof -
  let ?sig = "signature.Structure (map value_signature fs)"
  have "gv_serialize_inner N E D (Structure fs ?sig) s = map_ok (write_all s)
      (genc E (endian_of s) (container_depths s) (Structure fs ?sig) (abs_pos s))"
    if s: "ready s" "sig s = ?sig" "value_sign s = None" for s
  proof (cases "inc_structure (container_depths s)")
    case (Ok d)
    let ?p = "pad (abs_pos s) (alignment_gvariant ?sig)"
    let ?t = "\<lparr>gt_start = bytes_written s + length ?p, gt_offsets = Some [], gt_container_depths = container_depths s,
        gt_field_idx = 0\<rparr>"
    let ?s = "write_all (s\<lparr>container_depths := d\<rparr>) ?p"
    have "gv_serialize_struct (length fs) s = Ok (GStruct_S ?t, ?s)"
      using s assms(2) Ok by (simp add: gv_serialize_struct_def gv_struct_structure_def gv_struct_new_def
          gv_struct_offsets_def ser_simps del: alignment_gvariant.simps)
    moreover have "gv_serialize_fields N E D fs (GStruct_S ?t, ?s) =
        map_ok (\<lambda>ps. (GStruct_S (?t\<lparr>gt_field_idx := length fs,
            gt_offsets := Some (field_ends 0 (map value_signature fs) ps)\<rparr>), write_all ?s (concat ps)))
          (genc_all E (endian_of s) d fs (abs_pos s + padding (abs_pos s) (alignment_gvariant ?sig)))"
      using gv_fields_enc [where s = ?s and t = ?t and fs = fs and os = "[]"] s assms(1)
      by (simp add: list_all_iff del: alignment_gvariant.simps)
    ultimately show ?thesis
      using s Ok by (simp add: map_ok_def bind_res_assoc gv_end_struct_seq_def ser_simps Let_def
          gv_end_struct_eq [unfolded map_ok_def] del: alignment_gvariant.simps)
  qed (use s assms(2) in \<open>simp_all add: gv_serialize_struct_def gv_struct_structure_def gv_struct_new_def
      ser_simps Let_def del: alignment_gvariant.simps\<close>)
  then show ?thesis by (simp add: grefines_def)
qed

lemma grefines_Maybe:
  assumes "pred_option (\<lambda>v. grefines N E D v \<and> value_signature v = c) x"
  shows "grefines N E D (Maybe x (signature.Maybe c))"
proof -
  have "gv_serialize_inner N E D (Maybe x (signature.Maybe c)) s = map_ok (write_all s)
      (genc E (endian_of s) (container_depths s) (Maybe x (signature.Maybe c)) (abs_pos s))"
    if s: "ready s" "sig s = signature.Maybe c" "value_sign s = None" for s
  proof (cases x)
    case None
    then show ?thesis
      using s by (simp add: gv_serialize_maybe_def ser_simps del: alignment_gvariant.simps)
  next
    case (Some v)
    let ?p = "pad (abs_pos s) (alignment_gvariant (signature.Maybe c))"
    have v: "gv_serialize_inner N E D v (write_all (s\<lparr>sig := c, container_depths := d\<rparr>) ?p) =
        map_ok (write_all (write_all (s\<lparr>sig := c, container_depths := d\<rparr>) ?p))
          (genc E (endian_of s) d v (abs_pos s + padding (abs_pos s) (alignment_gvariant (signature.Maybe c))))" for d
      using assms Some s grefinesD [of N E D v "write_all (s\<lparr>sig := c, container_depths := d\<rparr>) ?p"]
      by (simp del: alignment_gvariant.simps)
    have "dec_maybe d = Ok (container_depths s)" if "inc_maybe (container_depths s) = Ok d" for d
      using dec_inc_maybe [OF that] .
    then show ?thesis
      using s Some assms
      by (cases "inc_maybe (container_depths s)")
        (auto simp: gv_serialize_maybe_def ser_simps v map_ok_def bind_res_assoc Let_def
          simp del: alignment_gvariant.simps intro!: arg_cong [where f = "bind_res _"])
  qed
  then show ?thesis by (simp add: grefines_def)
qed

text \<open>Values that the format describes: as for D-Bus, but with \<^verbatim>\<open>Maybe\<close>.\<close>

fun gplain :: "zvalue \<Rightarrow> bool" where
  "gplain (Value v) = (gplain v \<and> sig_wf (value_signature v))"
| "gplain (Array es s) = list_all gplain es"
| "gplain (Dict m s) = list_all (\<lambda>(a, b). gplain a \<and> gplain b) m"
| "gplain (Structure fs s) = list_all gplain fs"
| "gplain (Maybe x s) = pred_option gplain x"
| "gplain (Fd x) = False"
| "gplain _ = True"

context wire_laws
begin

lemma gv_serialize_value_enc:
  assumes "grefines N E D v" "sig_wf (value_signature v)" "ready s" "sig s = signature.Variant"
    "value_sign s = None"
  shows "gv_serialize_value N E D v s =
    map_ok (write_all s) (genc E (endian_of s) (container_depths s) (Value v) (abs_pos s))"
proof (cases "inc_variant (container_depths s)")
  case (Ok d)
  let ?p = "pad (abs_pos s) 8" and ?v = "value_signature v" and ?t = "to_string (value_signature v)"
  let ?s = "write_all (s\<lparr>container_depths := d\<rparr>) ?p"
  let ?x = "GStruct_S \<lparr>gt_start = bytes_written s + length ?p, gt_offsets = None,
      gt_container_depths = container_depths s, gt_field_idx = 0\<rparr>"
  have "from_str N ?t = Ok ?v"
    using assms(2) by (simp add: from_str_to_string)
  then have sgn: "gv_serialize_field (gv_serialize_str N ?t) (?x, ?s) = Ok (?x, ?s\<lparr>value_sign := Some ?v\<rparr>)"
    using assms(4,5)
    by (simp add: gv_serialize_field_def gv_serialize_struct_element_def gv_serialize_str_def ser_simps write_all_def)
  have "gv_serialize_inner N E D v (write_all (s\<lparr>container_depths := d, sig := ?v\<rparr>) ?p) =
      map_ok (write_all (write_all (s\<lparr>container_depths := d, sig := ?v\<rparr>) ?p))
        (genc E (endian_of s) d v (abs_pos s + padding (abs_pos s) 8))"
    using assms grefinesD [of N E D v "write_all (s\<lparr>container_depths := d, sig := ?v\<rparr>) ?p"] by simp
  then have payload: "gv_serialize_field (gv_serialize_inner N E D v) (?x, ?s\<lparr>value_sign := Some ?v\<rparr>) =
      map_ok (\<lambda>b. (?x, write_all ?s (b @ [byte_of 0] @ ?t))) (genc E (endian_of s) d v (abs_pos s + padding (abs_pos s) 8))"
    using assms(3,4,5)
    by (cases "genc E (endian_of s) d v (abs_pos s + padding (abs_pos s) 8)")
      (simp_all add: gv_serialize_field_def gv_serialize_struct_element_def ser_simps
        gv_struct_element_after [where s = "s\<lparr>container_depths := d, value_sign := Some ?v\<rparr>", simplified])
  have "gv_serialize_struct 2 s = Ok (?x, ?s)"
    using Ok assms(3,4)
    by (simp add: gv_serialize_struct_def gv_struct_variant_def gv_struct_new_def gv_struct_offsets_def
        VARIANT_ALIGNMENT_GVARIANT_def ser_simps)
  moreover have "gv_end_struct_seq E (?x, write_all ?s bs) = Ok (write_all s (?p @ bs))" for bs
    using assms(3) by (simp add: gv_end_struct_seq_def gv_end_struct_def ser_simps)
  ultimately show ?thesis
    using Ok assms(3) sgn payload by (simp add: map_ok_def bind_res_assoc ser_simps)
qed (simp_all add: gv_serialize_struct_def gv_struct_variant_def gv_struct_new_def assms
      VARIANT_ALIGNMENT_GVARIANT_def ser_simps)

lemma gplain_grefines: "value_ok v \<Longrightarrow> gplain v \<Longrightarrow> grefines N E D v"
proof (induction v)
  case (Value v)
  then have "grefines N E D v" by simp
  with Value.prems show ?case
    by (auto simp: grefines_def [of N E D "Value v"] gv_serialize_value_enc
        simp del: genc.simps gv_serialize_value.simps)
next
  case (Array es s)
  then obtain c where "s = signature.Array c" by auto
  with Array show ?case by (auto simp: list_all_iff intro!: grefines_Array)
next
  case (Dict m s)
  then obtain ks vs where s: "s = signature.Dict ks vs" by auto
  have "grefines N E D k \<and> value_signature k = ks \<and> grefines N E D v \<and> value_signature v = vs"
    if "(k, v) \<in> set m" for k v
    using Dict.prems that Dict.IH(1) [OF that] Dict.IH(2) [OF that] s by (fastforce simp: list_all_iff)
  then show ?case
    unfolding s by (intro grefines_Dict) (auto simp: list_all_iff)
next
  case (Structure fs s)
  then have "grefines N E D (Structure fs (signature.Structure (map value_signature fs)))"
    by (intro grefines_Structure) (auto simp: list_all_iff)
  with Structure.prems show ?case by simp
next
  case (Maybe x s)
  then obtain c where "s = signature.Maybe c" by auto
  with Maybe show ?case by (cases x) (auto intro!: grefines_Maybe)
qed (simp_all add: basic_enc grefines_def gv_serialize_basic_def gv_serialize_str_def ser_simps enc_basic_def gv_struct_element_state)

lemma gv_serialize_value_new:
  assumes "value_ok v" "gplain v" "sig_wf (value_signature v)" "at_end w"
  shows "gv_serialize_value N E D v (new_serializer signature.Variant w f c) =
    map_ok (write_all (new_serializer signature.Variant w f c))
      (genc E (c_endian c) no_depths (Value v) (c_position c))"
  using gv_serialize_value_enc [OF gplain_grefines [OF assms(1,2)] assms(3),
      where s = "new_serializer signature.Variant w f c"] assms(4)
  by (simp add: new_serializer_def endian_of_def abs_pos_def del: genc.simps)

lemma gv_to_bytes_enc:
  assumes "value_ok v" "gplain v" "sig_wf (value_signature v)"
  shows "gv_to_bytes N E D c v =
    map_ok (\<lambda>bs. new_fds bs c []) (genc E (c_endian c) no_depths (Value v) (c_position c))"
  using gv_serialize_value_new [OF assms, of "Cursor [] 0" D "Fds []" c]
  by (cases "genc E (c_endian c) no_depths (Value v) (c_position c)")
    (simp_all add: gv_to_bytes_def to_bytes_for_signature_def to_writer_for_signature_def
      new_serializer_def write_all_def del: genc.simps gv_serialize_value.simps)

lemma gv_serialized_size_enc:
  assumes "value_ok v" "gplain v" "sig_wf (value_signature v)"
  shows "gv_serialized_size N E D c v =
    map_ok (\<lambda>bs. \<lparr>z_size = length bs, z_context = c, z_num_fds = 0\<rparr>)
      (genc E (c_endian c) no_depths (Value v) (c_position c))"
  using gv_serialize_value_new [OF assms, of NullWriteSeek D "Number 0" c]
  by (cases "genc E (c_endian c) no_depths (Value v) (c_position c)")
    (simp_all add: gv_serialized_size_def serialized_size_def new_serializer_def write_all_def
      del: genc.simps gv_serialize_value.simps)

end

section \<open>Properties\<close>

text \<open>C15: The GVariant serializer, which collects framing offsets while it writes the elements of arrays, dictionaries and
  structures and appends them at their ends, computes the format \<open>genc\<close>, and \<^verbatim>\<open>serialized_size\<close> its length.\<close>

theorem gvariant_format:
  assumes "nom_laws N" "endi_laws E" "value_ok v" "gplain v" "sig_wf (value_signature v)"
  shows "gv_to_bytes N E D c v =
      map_ok (\<lambda>bs. new_fds bs c []) (genc E (c_endian c) no_depths (Value v) (c_position c)) \<and>
    gv_serialized_size N E D c v =
      map_ok (\<lambda>bs. \<lparr>z_size = length bs, z_context = c, z_num_fds = 0\<rparr>)
        (genc E (c_endian c) no_depths (Value v) (c_position c))"
  using wire_laws.gv_to_bytes_enc [OF wire_laws.intro [OF assms(1,2)] assms(3-5)]
    wire_laws.gv_serialized_size_enc [OF wire_laws.intro [OF assms(1,2)] assms(3-5)] by simp

definition gv_sample :: zvalue where
  "gv_sample = Structure [Array [Str ''a'', Str ''b''] (signature.Array signature.Str), Str ''c'', U8 (byte_of 7)]
     (signature.Structure [signature.Array signature.Str, signature.Str, signature.U8])"

definition gv_sample_bytes :: "byte list" where
  "gv_sample_bytes = ''a'' @ [byte_of 0] @ ''b'' @ map byte_of [0, 2, 4] @ ''c'' @ map byte_of [0, 7, 8, 6, 0] @ ''(assy)''"

lemma for_bare_container_small: "c + n \<le> 255 \<Longrightarrow> for_bare_container c n = Ok Off8"
  by (simp add: for_bare_container_def offset_size_loop.simps)

lemma gv_sample_format: "genc endi_ref Little no_depths (Value gv_sample) 0 = Ok gv_sample_bytes"
  by (simp add: gv_sample_def gv_sample_bytes_def enc_basic_def map_ok_def pad_def padding_numeral endi_ref_def
      inc_structure_def inc_array_def inc_variant_def depth_defs no_depths_def to_string_def numeral_nat_bytes
      framed_body_def frames_tail_def field_ends_def drop_own_end_def write_offset_def for_bare_container_small
      cong: bind_res_weak_cong)

lemma gv_sample_ok: "value_ok gv_sample" "gplain gv_sample" "sig_wf (value_signature gv_sample)"
  by (simp_all add: gv_sample_def)

theorem gvariant_format_witness:
  "gv_to_bytes nom_ref endi_ref (\<lambda>_. Some) \<lparr>c_endian = Little, c_position = 0\<rparr> gv_sample =
     Ok (new_fds gv_sample_bytes \<lparr>c_endian = Little, c_position = 0\<rparr> [])"
  using gvariant_format [OF nr.nom_laws_axioms er.endi_laws_axioms gv_sample_ok]
  by (simp add: gv_sample_format del: genc.simps)

end
