(* ===== verification/GVariant_De.thy ===== *)
theory GVariant_De
  imports DBus_De GVariant_Ser
begin

text \<open>
  The GVariant deserializer, \<^verbatim>\<open>zvariant/src/gvariant/de.rs\<close>, with its array, map, structure and variant accessors, and the
  visitors of \<^verbatim>\<open>zvariant/src/value.rs\<close> on them. The state is the record of the D-Bus deserializer. Nested values are
  read by deserializers of their own on a part of the bytes, which the framing offsets tell; of these only the position
  comes back. The accessors change as they are used, so they are returned along with what they read.
\<close>

section \<open>Parts\<close>

text \<open>A deserializer on some bytes from the current position on.\<close>

definition gv_sub :: "signature \<Rightarrow> byte list \<Rightarrow> depths \<Rightarrow> de \<Rightarrow> de" where
  "gv_sub s bs dep d =
     \<lparr>de_ctxt = (de_ctxt d)\<lparr>c_position := c_position (de_ctxt d) + de_pos d\<rparr>, de_bytes = bs, de_fds = de_fds d,
      de_pos = 0, de_sig = s, de_depths = dep\<rparr>"

text \<open>Run it, and move on by the bytes that it took, whatever its result is.\<close>

definition gv_run :: "signature \<Rightarrow> byte list \<Rightarrow> 'a dm \<Rightarrow> (zerror, 'a) res dm" where
  "gv_run s bs f d =
     (case f (gv_sub s bs (de_depths d) d) of
        None \<Rightarrow> None
      | Some (v, d') \<Rightarrow> ret v (d\<lparr>de_pos := de_pos d + de_pos d'\<rparr>))"

definition moved :: "nat \<Rightarrow> unit dm" where
  "moved n d = ret () (d\<lparr>de_pos := de_pos d + n\<rparr>)"

definition gv_parse_padding :: "nat dm" where
  "gv_parse_padding d = parse_padding (alignment_gvariant (de_sig d)) d"

section \<open>Basic types\<close>

text \<open>\<^verbatim>\<open>deserialize_basic!\<close>: a D-Bus deserializer reads the rest.\<close>

definition gv_deserialize_basic :: "'a dm \<Rightarrow> 'a dm" where
  "gv_deserialize_basic f d =
     dbind (lift (subslice_from (de_bytes d) (de_pos d))) (\<lambda>bs d.
     case f (gv_sub (de_sig d) bs (de_depths d) d) of
       None \<Rightarrow> None
     | Some (v, d') \<Rightarrow>
         dbind (lift v) (\<lambda>v d. ret v (d\<lparr>de_sig := de_sig d', de_pos := de_pos d + de_pos d'\<rparr>)) d) d"

text \<open>\<^verbatim>\<open>CStr::from_bytes_with_nul\<close>: a zero byte at the end and no other.\<close>

definition from_bytes_with_nul :: "byte list \<Rightarrow> byte list option" where
  "from_bytes_with_nul bs =
     (if bs \<noteq> [] \<and> last bs = byte_of 0 \<and> byte_of 0 \<notin> set (butlast bs) then Some (butlast bs) else None)"

definition gv_deserialize_str :: "string dm" where
  "gv_deserialize_str d =
     dbind (lift (subslice_from (de_bytes d) (de_pos d))) (\<lambda>slice.
       if de_sig d = signature.Variant then
         (if byte_of 0 \<in> set slice then throw (Message Invalid_value)
          else if valid_utf8 slice then ret slice else throw Utf8)
       else if de_sig d = signature.Str \<or> de_sig d = signature.Signature \<or> de_sig d = signature.ObjectPath then
         (case from_bytes_with_nul slice of
            None \<Rightarrow> throw (Message Invalid_value)
          | Some s \<Rightarrow>
              if valid_utf8 s then dbind (moved (length s + 1)) (\<lambda>_. ret s) else throw Utf8)
       else throw (SignatureMismatch (de_sig d) ''`s`, `g`, `o` or `v`'')) d"

definition byte_at :: "byte list \<Rightarrow> nat \<Rightarrow> (zerror, byte) res" where
  "byte_at bs i = (if i < length bs then Ok (bs ! i) else Err OutOfBounds)"

definition gv_deserialize_unit :: "unit dm" where
  "gv_deserialize_unit d =
     dbind (lift (byte_at (de_bytes d) (de_pos d))) (\<lambda>b.
       if code b \<noteq> 0 then throw (Message Invalid_value) else moved 1) d"

text \<open>\<^verbatim>\<open>deserialize_option\<close> with the two methods of the visitor.\<close>

definition gv_deserialize_option :: "(zerror, 'v) res \<Rightarrow> 'v dm \<Rightarrow> 'v dm" where
  "gv_deserialize_option visit_none visit_some =
     dbind gv_parse_padding (\<lambda>_ d.
     case de_sig d of
       signature.Maybe child \<Rightarrow>
         if de_pos d = length (de_bytes d) then lift visit_none d
         else if \<not> is_fixed_sized child \<and> length (de_bytes d) = 0 then lift Panic d
         else
           dbind (lift (subslice (de_bytes d) (de_pos d)
             (if is_fixed_sized child then length (de_bytes d) else length (de_bytes d) - 1))) (\<lambda>bs.
           dbind (lift (inc_maybe (de_depths d))) (\<lambda>dep d.
           case visit_some (gv_sub child bs dep d) of
             None \<Rightarrow> None
           | Some (v, d') \<Rightarrow>
               dbind (lift v) (\<lambda>v.
               dbind (moved (de_pos d')) (\<lambda>_.
               if is_fixed_sized child then ret v
               else (\<lambda>d. dbind (lift (byte_at (de_bytes d) (de_pos d))) (\<lambda>b.
                 if code b \<noteq> 0 then throw (Message Invalid_value)
                 else dbind (moved 1) (\<lambda>_. ret v)) d))) d)) d
     | s \<Rightarrow> throw (SignatureMismatch s ''a maybe'') d)"

section \<open>Arrays and dictionaries\<close>

record gv_array_de =
  ga_len :: nat
  ga_start :: nat
  ga_element_alignment :: nat
  ga_child_signature :: signature
  ga_value_signature :: "signature option"
  ga_offsets :: "framing_offsets option"
  ga_offsets_len :: nat
  ga_key_offset_size :: "offset_size option"

text \<open>The signatures of the elements or of keys and values, and whether keys and elements are of fixed size.\<close>

definition array_kind :: "signature \<Rightarrow> (zerror, signature \<times> signature option \<times> bool \<times> bool) res" where
  "array_kind s =
     (case s of
        signature.Array child \<Rightarrow> Ok (child, None, False, is_fixed_sized child)
      | signature.Dict key val \<Rightarrow> Ok (key, Some val, is_fixed_sized key, is_fixed_sized key \<and> is_fixed_sized val)
      | _ \<Rightarrow> Err (SignatureMismatch s ''an array or dict''))"

definition array_offsets ::
  "endi \<Rightarrow> bool \<Rightarrow> bool \<Rightarrow> de \<Rightarrow> (zerror, framing_offsets option \<times> nat \<times> offset_size option) res" where
  "array_offsets E fixed_sized_key fixed_sized_child d =
     (if \<not> fixed_sized_child
      then bind_res (subslice_from (de_bytes d) (de_pos d)) (\<lambda>bs.
           bind_res (from_encoded_array E bs) (\<lambda>(offsets, offsets_len).
           Ok (Some offsets, offsets_len, if \<not> fixed_sized_key then Some Off8 else None)))
      else Ok (None, 0, None))"

definition gv_array_de_new :: "endi \<Rightarrow> gv_array_de dm" where
  "gv_array_de_new E =
     dbind (\<lambda>d. set_depths (inc_array (de_depths d)) d) (\<lambda>_.
     dbind gv_parse_padding (\<lambda>_ d.
     dbind (lift (array_kind (de_sig d))) (\<lambda>(child_signature, value_signature, fixed_sized_key, fixed_sized_child).
     dbind (lift (array_offsets E fixed_sized_key fixed_sized_child d)) (\<lambda>(offsets, offsets_len, key_offset_size).
     ret \<lparr>ga_len = length (de_bytes d) - de_pos d - offsets_len, ga_start = de_pos d,
          ga_element_alignment = alignment_gvariant (de_sig d), ga_child_signature = child_signature,
          ga_value_signature = value_signature, ga_offsets = offsets, ga_offsets_len = offsets_len,
          ga_key_offset_size = key_offset_size\<rparr>)) d))"

definition element_end :: "bool \<Rightarrow> gv_array_de \<Rightarrow> (zerror, nat \<times> gv_array_de) res" where
  "element_end pop ad =
     (case ga_offsets ad of
        Some offsets \<Rightarrow>
          let (offset, offsets) = (if pop then offsets_pop offsets else (offsets_peek offsets, offsets)) in
          (case offset of
             Some off \<Rightarrow> Ok (ga_start ad + off, ad\<lparr>ga_offsets := Some offsets\<rparr>)
           | None \<Rightarrow> Err MissingFramingOffset)
      | None \<Rightarrow> Ok (ga_start ad + ga_len ad, ad))"

definition gv_done :: "gv_array_de \<Rightarrow> de \<Rightarrow> bool" where
  "gv_done ad d \<longleftrightarrow>
     (case ga_offsets ad of Some offsets \<Rightarrow> offsets = [] | None \<Rightarrow> de_pos d = ga_start ad + ga_len ad)"

text \<open>The end of an array: over the offsets, and out of the nesting.\<close>

definition gv_array_end :: "gv_array_de \<Rightarrow> unit dm" where
  "gv_array_end ad =
     dbind (moved (ga_offsets_len ad)) (\<lambda>_ d. set_depths (dec_array (de_depths d)) d)"

text \<open>An element that ends behind the array is an error, whatever became of it.\<close>

definition gv_within :: "gv_array_de \<Rightarrow> (zerror, 'a) res \<Rightarrow> 'a dm" where
  "gv_within ad v d =
     (if ga_start ad + ga_len ad < de_pos d then throw (Message (Invalid_length (ga_len ad))) d else lift v d)"

definition gv_next_element :: "gv_array_de \<Rightarrow> 'a dm \<Rightarrow> ('a option \<times> gv_array_de) dm" where
  "gv_next_element ad f d =
     (if gv_done ad d then dbind (gv_array_end ad) (\<lambda>_. ret (None, ad)) d
      else
        dbind (lift (element_end True ad)) (\<lambda>(end', ad).
        dbind (lift (subslice (de_bytes d) (de_pos d) end')) (\<lambda>bs.
        dbind (gv_run (ga_child_signature ad) bs f) (\<lambda>v.
        dbind (gv_within ad v) (\<lambda>v. ret (Some v, ad))))) d)"

text \<open>
  \<^verbatim>\<open>next_key_seed\<close>: the end of a key that is not of fixed size is the last offset of its entry. The subtraction and the index of
  \<^verbatim>\<open>&bytes[pos..element_end]\<close> panic if the entry ends before it starts.
\<close>

definition gv_next_key :: "endi \<Rightarrow> gv_array_de \<Rightarrow> 'a dm \<Rightarrow> ('a option \<times> gv_array_de) dm" where
  "gv_next_key E ad f d =
     (if gv_done ad d then dbind (gv_array_end ad) (\<lambda>_. ret (None, ad)) d
      else
        dbind (parse_padding (ga_element_alignment ad)) (\<lambda>_ d.
        dbind (lift (element_end False ad)) (\<lambda>(element_end, ad).
        dbind
          (case ga_key_offset_size ad of
             Some _ \<Rightarrow>
               if element_end < de_pos d \<or> length (de_bytes d) < element_end then lift Panic
               else
                 dbind (lift (for_encoded_container (element_end - de_pos d))) (\<lambda>sz.
                 dbind (lift (read_last_offset_from_buffer E sz
                   (take (element_end - de_pos d) (drop (de_pos d) (de_bytes d))))) (\<lambda>off.
                 ret (de_pos d + off, ad\<lparr>ga_key_offset_size := Some sz\<rparr>)))
           | None \<Rightarrow> ret (element_end, ad)) (\<lambda>(key_end, ad).
        dbind (lift (subslice (de_bytes d) (de_pos d) key_end)) (\<lambda>bs.
        dbind (gv_run (ga_child_signature ad) bs f) (\<lambda>v.
        dbind (gv_within ad v) (\<lambda>v. ret (Some v, ad)))))) d) d)"

definition gv_next_value :: "gv_array_de \<Rightarrow> 'a dm \<Rightarrow> ('a \<times> gv_array_de) dm" where
  "gv_next_value ad f d =
     dbind (lift (element_end True ad)) (\<lambda>(element_end, ad).
     dbind
       (case ga_key_offset_size ad of
          Some sz \<Rightarrow> if element_end < offset_bytes sz then lift Panic else ret (element_end - offset_bytes sz)
        | None \<Rightarrow> ret element_end) (\<lambda>value_end.
     dbind (lift (case ga_value_signature ad of Some s \<Rightarrow> Ok s | None \<Rightarrow> Panic)) (\<lambda>value_signature.
     dbind (lift (subslice (de_bytes d) (de_pos d) value_end)) (\<lambda>bs.
     dbind (gv_run value_signature bs f) (\<lambda>v.
     dbind (moved (case ga_key_offset_size ad of Some sz \<Rightarrow> offset_bytes sz | None \<Rightarrow> 0)) (\<lambda>_.
     dbind (gv_within ad v) (\<lambda>v. ret (v, ad)))))))) d"

definition gv_deserialize_ay :: "endi \<Rightarrow> byte list dm" where
  "gv_deserialize_ay E d =
     (if de_sig d \<noteq> signature.Array signature.U8 then throw (Message Invalid_type) d
      else dbind (gv_array_de_new E) (\<lambda>ad.
           dbind (\<lambda>d. set_depths (dec_array (de_depths d)) d) (\<lambda>_. next_slice (ga_len ad))) d)"

section \<open>Structures\<close>

record gv_struct_de =
  gs_start :: nat
  gs_end :: nat
  gs_field_idx :: nat
  gs_num_fields :: nat
  gs_offsets_len :: nat
  gs_offset_size :: offset_size

definition gv_struct_de_new :: "gv_struct_de dm" where
  "gv_struct_de_new d =
     (case de_sig d of
        signature.Structure flds \<Rightarrow>
          dbind gv_parse_padding (\<lambda>_.
          dbind (\<lambda>d. set_depths (inc_structure (de_depths d)) d) (\<lambda>_ d.
          dbind (lift (for_encoded_container (length (de_bytes d) - de_pos d))) (\<lambda>sz.
          ret \<lparr>gs_start = de_pos d, gs_end = length (de_bytes d), gs_field_idx = 0, gs_num_fields = length flds,
               gs_offsets_len = 0, gs_offset_size = sz\<rparr>) d)) d
      | _ \<Rightarrow> lift Panic d)"

text \<open>Where the next field ends: a field that is not of fixed size, unless it is the last one, takes an offset from the end.\<close>

definition gv_field_end :: "endi \<Rightarrow> signature \<Rightarrow> gv_struct_de \<Rightarrow> de \<Rightarrow> (zerror, nat \<times> gv_struct_de) res" where
  "gv_field_end E field_signature sd d =
     (if \<not> is_fixed_sized field_signature then
        (if gs_field_idx sd = gs_num_fields sd then Ok (gs_end sd, sd)
         else
           bind_res (subslice (de_bytes d) (gs_start sd) (gs_end sd)) (\<lambda>bs.
           bind_res (read_last_offset_from_buffer E (gs_offset_size sd) bs) (\<lambda>off.
           let sz = offset_bytes (gs_offset_size sd) in
           if gs_end sd < sz then Err (Message (Invalid_length sz))
           else Ok (off + gs_start sd,
             sd\<lparr>gs_end := gs_end sd - sz, gs_offsets_len := gs_offsets_len sd + sz\<rparr>))))
      else Ok (gs_end sd, sd))"

definition gv_struct_next :: "endi \<Rightarrow> gv_struct_de \<Rightarrow> 'a dm \<Rightarrow> ('a option \<times> gv_struct_de) dm" where
  "gv_struct_next E sd f d =
     (if gs_field_idx sd = gs_num_fields sd then ret (None, sd) d
      else case de_sig d of
        signature.Structure flds \<Rightarrow>
          if gs_field_idx sd < length flds then
            (let field_signature = flds ! gs_field_idx sd; sd = sd\<lparr>gs_field_idx := gs_field_idx sd + 1\<rparr> in
             dbind (lift (gv_field_end E field_signature sd d)) (\<lambda>(element_end, sd).
             dbind (lift (subslice (de_bytes d) (de_pos d) element_end)) (\<lambda>bs.
             dbind (gv_run field_signature bs f) (\<lambda>v.
             dbind
               (if gs_field_idx sd = gs_num_fields sd
                then dbind (\<lambda>d. set_depths (dec_structure (de_depths d)) d) (\<lambda>_. moved (gs_offsets_len sd))
                else ret ()) (\<lambda>_.
             dbind (lift v) (\<lambda>v. ret (Some v, sd)))))) d)
          else throw (SignatureMismatch (de_sig d) ''a struct'') d
      | _ \<Rightarrow> lift Panic d)"

section \<open>Variants\<close>

record gv_value_de =
  gw_stage :: value_parse_stage
  gw_sig_start :: nat
  gw_sig_end :: nat
  gw_value_start :: nat
  gw_value_end :: nat

text \<open>The signature is behind the last zero byte that is not the last byte.\<close>

definition find_separator :: "byte list \<Rightarrow> nat \<Rightarrow> nat option" where
  "find_separator bs p = find (\<lambda>i. bs ! i = byte_of 0) (rev [p..<length bs - 1])"

definition gv_value_de_new :: "gv_value_de dm" where
  "gv_value_de_new =
     dbind (parse_padding VARIANT_ALIGNMENT_GVARIANT) (\<lambda>_ d.
       if de_bytes d = [] then throw (Message Invalid_value) d
       else case find_separator (de_bytes d) (de_pos d) of
         None \<Rightarrow> throw (Message Invalid_value) d
       | Some p \<Rightarrow>
           ret \<lparr>gw_stage = Signature_Stage, gw_sig_start = p + 1, gw_sig_end = length (de_bytes d),
                gw_value_start = de_pos d, gw_value_end = p\<rparr> d)"

definition gv_value_next :: "nom \<Rightarrow> gv_value_de \<Rightarrow> 'a dm \<Rightarrow> ('a option \<times> gv_value_de) dm" where
  "gv_value_next N w f d =
     (case gw_stage w of
        Signature_Stage \<Rightarrow>
          dbind (lift (subslice (de_bytes d) (gw_sig_start w) (gw_sig_end w))) (\<lambda>bs d.
          case f \<lparr>de_ctxt = de_ctxt d, de_bytes = bs, de_fds = de_fds d, de_pos = 0, de_sig = signature.Variant,
                  de_depths = de_depths d\<rparr> of
            None \<Rightarrow> None
          | Some (v, _) \<Rightarrow> dbind (lift v) (\<lambda>v. ret (Some v, w\<lparr>gw_stage := Value_Stage\<rparr>)) d) d
      | Value_Stage \<Rightarrow>
          dbind (lift (subslice (de_bytes d) (gw_sig_start w) (gw_sig_end w))) (\<lambda>slice.
          dbind (lift (map_err SignatureParse (from_bytes N slice))) (\<lambda>s.
          dbind (lift (subslice (de_bytes d) (gw_value_start w) (gw_value_end w))) (\<lambda>bs.
          dbind (lift (inc_variant (de_depths d))) (\<lambda>dep d.
          case f \<lparr>de_ctxt = (de_ctxt d)\<lparr>c_position := c_position (de_ctxt d) + gw_value_start w\<rparr>, de_bytes = bs,
                  de_fds = de_fds d, de_pos = 0, de_sig = s, de_depths = dep\<rparr> of
            None \<Rightarrow> None
          | Some (v, _) \<Rightarrow>
              dbind (lift v) (\<lambda>v. ret (Some v, w\<lparr>gw_stage := Done_Stage\<rparr>)) (d\<lparr>de_pos := gw_sig_end w\<rparr>))))) d
      | Done_Stage \<Rightarrow> ret (None, w) d)"

section \<open>Dispatch\<close>

text \<open>The accessors that a visitor of a sequence can meet, and the visitors with the methods for \<^verbatim>\<open>Maybe\<close>.\<close>

datatype gv_seq_access = GValue_Access gv_value_de | GArray_Access gv_array_de | GStruct_Access gv_struct_de

definition gv_next_element_seed ::
  "nom \<Rightarrow> endi \<Rightarrow> gv_seq_access \<Rightarrow> 'a dm \<Rightarrow> ('a option \<times> gv_seq_access) dm" where
  "gv_next_element_seed N E sa f =
     (case sa of
        GValue_Access w \<Rightarrow> dbind (gv_value_next N w f) (\<lambda>(v, w). ret (v, GValue_Access w))
      | GArray_Access ad \<Rightarrow> dbind (gv_next_element ad f) (\<lambda>(v, ad). ret (v, GArray_Access ad))
      | GStruct_Access sd \<Rightarrow> dbind (gv_struct_next E sd f) (\<lambda>(v, sd). ret (v, GStruct_Access sd)))"

record 'v gv_visitor =
  gvisit_basic :: "zvalue \<Rightarrow> (zerror, 'v) res"
  gvisit_i32 :: "u32 \<Rightarrow> (zerror, 'v) res"
  gvisit_borrowed_str :: "string \<Rightarrow> (zerror, 'v) res"
  gvisit_seq :: "gv_seq_access \<Rightarrow> 'v dm"
  gvisit_map :: "gv_array_de \<Rightarrow> 'v dm"
  gvisit_none :: "(zerror, 'v) res"
  gvisit_some :: "'v dm"

definition gv_deserialize_seq :: "endi \<Rightarrow> 'v gv_visitor \<Rightarrow> 'v dm" where
  "gv_deserialize_seq E V =
     dbind gv_parse_padding (\<lambda>_ d.
     case de_sig d of
       signature.Variant \<Rightarrow> dbind gv_value_de_new (\<lambda>w. gvisit_seq V (GValue_Access w)) d
     | signature.Array _ \<Rightarrow> dbind (gv_array_de_new E) (\<lambda>ad. gvisit_seq V (GArray_Access ad)) d
     | signature.Dict _ _ \<Rightarrow> dbind (gv_array_de_new E) (\<lambda>ad. gvisit_map V ad) d
     | signature.Structure _ \<Rightarrow> dbind gv_struct_de_new (\<lambda>sd. gvisit_seq V (GStruct_Access sd)) d
     | signature.U8 \<Rightarrow>
         dbind (gv_deserialize_basic deserialize_u8) (\<lambda>_ d.
           gvisit_seq V (GStruct_Access \<lparr>gs_start = de_pos d, gs_end = length (de_bytes d), gs_field_idx = 0,
             gs_num_fields = 0, gs_offsets_len = 0, gs_offset_size = Off8\<rparr>) d) d
     | s \<Rightarrow> throw (SignatureMismatch s ''a variant, array, dict, structure or u8'') d)"

definition gv_deserialize_any :: "endi \<Rightarrow> 'v gv_visitor \<Rightarrow> 'v dm" where
  "gv_deserialize_any E V d =
     (case de_sig d of
        signature.Unit \<Rightarrow> dbind gv_deserialize_unit (\<lambda>_. throw (Message Invalid_type)) d
      | signature.U8 \<Rightarrow> gv_deserialize_basic (dbind deserialize_u8 (\<lambda>v. lift (gvisit_basic V (U8 v)))) d
      | signature.Bool \<Rightarrow> gv_deserialize_basic (dbind (deserialize_bool E) (\<lambda>v. lift (gvisit_basic V (Bool v)))) d
      | signature.I16 \<Rightarrow> gv_deserialize_basic (dbind (deserialize_u16 E signature.I16) (\<lambda>v. lift (gvisit_basic V (I16 v)))) d
      | signature.U16 \<Rightarrow> gv_deserialize_basic (dbind (deserialize_u16 E signature.U16) (\<lambda>v. lift (gvisit_basic V (U16 v)))) d
      | signature.I32 \<Rightarrow> gv_deserialize_basic (dbind (deserialize_i32 E) (\<lambda>v. lift (gvisit_i32 V v))) d
      | signature.Fd \<Rightarrow> gv_deserialize_basic (dbind (deserialize_i32 E) (\<lambda>v. lift (gvisit_i32 V v))) d
      | signature.U32 \<Rightarrow> gv_deserialize_basic (dbind (deserialize_u32 E signature.U32) (\<lambda>v. lift (gvisit_basic V (U32 v)))) d
      | signature.I64 \<Rightarrow> gv_deserialize_basic (dbind (deserialize_u64 E signature.I64) (\<lambda>v. lift (gvisit_basic V (I64 v)))) d
      | signature.U64 \<Rightarrow> gv_deserialize_basic (dbind (deserialize_u64 E signature.U64) (\<lambda>v. lift (gvisit_basic V (U64 v)))) d
      | signature.F64 \<Rightarrow> gv_deserialize_basic (dbind (deserialize_u64 E signature.F64) (\<lambda>v. lift (gvisit_basic V (F64 v)))) d
      | signature.Str \<Rightarrow> dbind gv_deserialize_str (\<lambda>v. lift (gvisit_borrowed_str V v)) d
      | signature.ObjectPath \<Rightarrow> dbind gv_deserialize_str (\<lambda>v. lift (gvisit_borrowed_str V v)) d
      | signature.Signature \<Rightarrow> dbind gv_deserialize_str (\<lambda>v. lift (gvisit_borrowed_str V v)) d
      | signature.Variant \<Rightarrow> gv_deserialize_seq E V d
      | signature.Array _ \<Rightarrow> gv_deserialize_seq E V d
      | signature.Dict _ _ \<Rightarrow> gv_deserialize_seq E V d
      | signature.Structure _ \<Rightarrow> gv_deserialize_seq E V d
      | signature.Maybe _ \<Rightarrow> gv_deserialize_option (gvisit_none V) (gvisit_some V) d)"

section \<open>Visitors\<close>

definition gv_deserialize_signature :: "nom \<Rightarrow> signature dm" where
  "gv_deserialize_signature N = dbind gv_deserialize_str (\<lambda>s.
     lift (map_err (\<lambda>_. Message Custom) (from_str N s)))"

definition gv_visitor_seq :: "nom \<Rightarrow> endi \<Rightarrow> (signature \<Rightarrow> zvalue dm) \<Rightarrow> gv_seq_access \<Rightarrow> zvalue dm" where
  "gv_visitor_seq N E R sa =
     dbind (gv_next_element_seed N E sa (gv_deserialize_signature N)) (\<lambda>(s, sa).
     case s of
       None \<Rightarrow> throw (Message Invalid_value)
     | Some s \<Rightarrow>
         dbind (gv_next_element_seed N E sa (R s)) (\<lambda>(v, _).
         case v of None \<Rightarrow> throw (Message Invalid_value) | Some v \<Rightarrow> ret v))"

definition gv_visitor_map :: "nom \<Rightarrow> endi \<Rightarrow> (signature \<Rightarrow> zvalue dm) \<Rightarrow> gv_array_de \<Rightarrow> zvalue dm" where
  "gv_visitor_map N E R ad =
     dbind (gv_next_key E ad gv_deserialize_str) (\<lambda>(k, ad).
     case k of
       None \<Rightarrow> throw (Message Invalid_value)
     | Some _ \<Rightarrow>
         dbind (gv_next_value ad (gv_deserialize_signature N)) (\<lambda>(s, ad).
         dbind (gv_next_key E ad gv_deserialize_str) (\<lambda>(_, ad).
         dbind (gv_next_value ad (R s)) (\<lambda>(v, _). ret v))))"

fun gv_array_loop ::
  "nom \<Rightarrow> endi \<Rightarrow> nat \<Rightarrow> zvalue dm \<Rightarrow> gv_seq_access \<Rightarrow> zvalue list \<times> signature \<Rightarrow> (zvalue list \<times> signature) dm" where
  "gv_array_loop N E 0 f sa arr d = None"
| "gv_array_loop N E (Suc k) f sa arr d =
     dbind (gv_next_element_seed N E sa f) (\<lambda>(e, sa).
     case e of
       None \<Rightarrow> ret arr
     | Some e \<Rightarrow> dbind (lift (map_err (\<lambda>_. Message Custom) (array_append arr e)))
         (\<lambda>arr. gv_array_loop N E k f sa arr)) d"

fun gv_struct_loop ::
  "nom \<Rightarrow> endi \<Rightarrow> (signature \<Rightarrow> zvalue dm) \<Rightarrow> signature list \<Rightarrow> gv_seq_access \<Rightarrow> zvalue list \<Rightarrow> zvalue list dm" where
  "gv_struct_loop N E R [] sa builder d = ret builder d"
| "gv_struct_loop N E R (field_signature # flds) sa builder d =
     dbind (gv_next_element_seed N E sa (R field_signature)) (\<lambda>(v, sa).
       gv_struct_loop N E R flds sa (case v of None \<Rightarrow> builder | Some v \<Rightarrow> append_field builder v)) d"

definition gv_seed_seq ::
  "nom \<Rightarrow> endi \<Rightarrow> nat \<Rightarrow> (signature \<Rightarrow> zvalue dm) \<Rightarrow> signature \<Rightarrow> gv_seq_access \<Rightarrow> zvalue dm" where
  "gv_seed_seq N E k R seed sa =
     (case seed of
        signature.Array element_signature \<Rightarrow>
          dbind (lift (array_new_full_signature seed)) (\<lambda>arr.
          dbind (gv_array_loop N E k (R element_signature) sa arr) (\<lambda>(es, s). ret (Array es s)))
      | signature.Structure flds \<Rightarrow>
          dbind (gv_struct_loop N E R flds sa []) (\<lambda>b.
            case build_with_signature b seed of (fs, s) \<Rightarrow> ret (Structure fs s))
      | signature.Variant \<Rightarrow> dbind (gv_visitor_seq N E R sa) (\<lambda>v. ret (Value v))
      | _ \<Rightarrow> throw (Message Invalid_value))"

fun gv_map_loop ::
  "endi \<Rightarrow> nat \<Rightarrow> zvalue dm \<Rightarrow> zvalue dm \<Rightarrow> gv_array_de \<Rightarrow> (zvalue \<times> zvalue) list \<times> signature
     \<Rightarrow> ((zvalue \<times> zvalue) list \<times> signature) dm" where
  "gv_map_loop E 0 fk fv ad dict d = None"
| "gv_map_loop E (Suc k) fk fv ad dict d =
     dbind (gv_next_key E ad fk) (\<lambda>(key, ad).
     case key of
       None \<Rightarrow> ret dict
     | Some key \<Rightarrow>
         dbind (gv_next_value ad fv) (\<lambda>(v, ad).
         dbind (lift (map_err (\<lambda>_. Message Custom) (dict_append dict key v)))
           (\<lambda>dict. gv_map_loop E k fk fv ad dict))) d"

definition gv_seed_map ::
  "nom \<Rightarrow> endi \<Rightarrow> nat \<Rightarrow> (signature \<Rightarrow> zvalue dm) \<Rightarrow> signature \<Rightarrow> gv_array_de \<Rightarrow> zvalue dm" where
  "gv_seed_map N E k R seed ad =
     (case seed of
        signature.Dict key val \<Rightarrow>
          dbind (lift (dict_new_full_signature seed)) (\<lambda>dict.
          dbind (gv_map_loop E k (R key) (R val) ad dict) (\<lambda>(es, s). ret (Dict es s)))
      | signature.Variant \<Rightarrow> dbind (gv_visitor_map N E R ad) (\<lambda>v. ret (Value v))
      | _ \<Rightarrow> throw (Message Invalid_type))"

definition gv_seed_some :: "(signature \<Rightarrow> zvalue dm) \<Rightarrow> signature \<Rightarrow> zvalue dm" where
  "gv_seed_some R seed =
     (case seed of
        signature.Maybe child \<Rightarrow> dbind (R child) (\<lambda>v. ret (Maybe (Some v) seed))
      | _ \<Rightarrow> throw (Message Invalid_type))"

definition gv_seed ::
  "nom \<Rightarrow> endi \<Rightarrow> nat \<Rightarrow> (signature \<Rightarrow> zvalue dm) \<Rightarrow> signature \<Rightarrow> zvalue gv_visitor" where
  "gv_seed N E k R seed = \<lparr>gvisit_basic = Ok, gvisit_i32 = value_seed_i32 seed,
     gvisit_borrowed_str = value_seed_str N seed, gvisit_seq = gv_seed_seq N E k R seed,
     gvisit_map = gv_seed_map N E k R seed, gvisit_none = Ok (Maybe None seed), gvisit_some = gv_seed_some R seed\<rparr>"

primrec gv_de_value :: "nom \<Rightarrow> endi \<Rightarrow> nat \<Rightarrow> signature \<Rightarrow> zvalue dm" where
  "gv_de_value N E 0 = (\<lambda>seed d. None)"
| "gv_de_value N E (Suc n) = (\<lambda>seed. gv_deserialize_any E (gv_seed N E n (gv_de_value N E n) seed))"

definition gv_value_visitor :: "nom \<Rightarrow> endi \<Rightarrow> (signature \<Rightarrow> zvalue dm) \<Rightarrow> zvalue gv_visitor" where
  "gv_value_visitor N E R = \<lparr>gvisit_basic = (\<lambda>_. Err (Message Invalid_type)),
     gvisit_i32 = (\<lambda>_. Err (Message Invalid_type)), gvisit_borrowed_str = (\<lambda>_. Err (Message Invalid_type)),
     gvisit_seq = gv_visitor_seq N E R, gvisit_map = gv_visitor_map N E R,
     gvisit_none = Err (Message Invalid_type), gvisit_some = throw (Message Invalid_type)\<rparr>"

definition gv_deserialize_value :: "nom \<Rightarrow> endi \<Rightarrow> nat \<Rightarrow> zvalue dm" where
  "gv_deserialize_value N E n = gv_deserialize_any E (gv_value_visitor N E (gv_de_value N E n))"

text \<open>\<^verbatim>\<open>Data::deserialize\<close> of a \<^verbatim>\<open>Value\<close> with a context of this format.\<close>

definition gv_data_deserialize :: "nom \<Rightarrow> endi \<Rightarrow> nat \<Rightarrow> data \<Rightarrow> (zerror, zvalue \<times> nat) res option" where
  "gv_data_deserialize N E n dat = deserialize_for_signature signature.Variant (gv_deserialize_value N E n) dat"

end
