(* ===== verification/GVariant_Read.thy ===== *)
theory GVariant_Read
  imports DBus_Roundtrip GVariant_Enc GVariant_De
begin

text \<open>
  Reading the GVariant format: on bytes that the serializer wrote, the deserializer finds the framing offsets and reads basic
  values, variants, optional values and arrays, and the entries of dictionaries. \<open>framed\<close> says when the framing offsets
  are enough to tell the elements apart.
\<close>

section \<open>Framing offsets\<close>

lemma for_bare_container_eq:
  "for_bare_container c n =
     (if c + n \<le> 255 then Ok Off8 else if c + n * 2 \<le> 65535 then Ok Off16
      else if c + n * 4 \<le> 2 ^ 32 - 1 then Ok Off32 else if c + n * 8 \<le> 2 ^ 64 - 1 then Ok Off64 else Panic)"
  by (simp add: for_bare_container_def offset_size_loop.simps)

lemma for_bare_container_Ok:
  assumes "for_bare_container c n = Ok sz"
  shows "c + n * offset_bytes sz \<le> offset_max sz" "for_encoded_container (c + n * offset_bytes sz) = Ok sz"
  using assms by (auto simp: for_bare_container_eq for_encoded_container_def split: if_splits)

lemma for_encoded_container_bound: "n < 2 ^ 64 \<Longrightarrow> \<exists>sz. for_encoded_container n = Ok sz"
  by (simp add: for_encoded_container_def for_bare_container_eq)

lemma offset_bytes_pos [simp]: "0 < offset_bytes sz"
  by (cases sz) simp_all

context endi_laws
begin

lemma length_write_offset [simp]: "length (write_offset E sz x) = offset_bytes sz"
  by (cases sz) (simp_all add: write_offset_def)

lemma read_write_offset:
  assumes "x \<le> offset_max sz"
  shows "read_last_offset_from_buffer E sz (bs @ write_offset E sz x) = Ok x"
proof -
  have "bs @ write_offset E sz x \<noteq> []"
    using length_write_offset [of sz x] by (cases sz) (auto simp del: length_write_offset)
  then show ?thesis
    using assms
    by (cases sz) (auto simp: read_last_offset_from_buffer_def write_offset_def Let_def unsigned_of_nat
        take_bit_nat_eq_self)
qed

lemma length_offsets [simp]: "length (concat (map (write_offset E sz) os)) = offset_bytes sz * length os"
  by (induction os) simp_all

lemma from_encoded_array_loop_read:
  assumes "\<forall>x \<in> set os. x \<le> start" "start \<le> offset_max sz"
  shows "from_encoded_array_loop E sz (pre @ concat (map (write_offset E sz) os)) start (length pre) acc = Ok (acc @ os)"
  using assms(1)
proof (induction os arbitrary: pre acc)
  case (Cons x os)
  have "read_last_offset_from_buffer E sz (write_offset E sz x) = Ok x"
    using read_write_offset [of x sz "[]"] Cons.prems assms(2) by simp
  moreover have "from_encoded_array_loop E sz ((pre @ write_offset E sz x) @ concat (map (write_offset E sz) os)) start
      (length (pre @ write_offset E sz x)) (acc @ [x]) = Ok ((acc @ [x]) @ os)"
    using Cons.prems by (intro Cons.IH) simp
  ultimately show ?case
    using Cons.prems by (subst from_encoded_array_loop.simps) (simp add: Let_def not_le)
qed (simp add: from_encoded_array_loop.simps)

lemma from_encoded_array_read:
  assumes "os \<noteq> []" "last os = length body" "\<forall>x \<in> set os. x \<le> length body"
    "for_bare_container (length body) (length os) = Ok sz"
  shows "from_encoded_array E (body @ concat (map (write_offset E sz) os)) = Ok (os, offset_bytes sz * length os)"
proof -
  let ?t = "concat (map (write_offset E sz) os)"
  have sz: "for_encoded_container (length (body @ ?t)) = Ok sz"
    using for_bare_container_Ok(2) [OF assms(4)] by (simp add: mult.commute)
  have max: "length body \<le> offset_max sz"
    using for_bare_container_Ok(1) [OF assms(4)] by simp
  have "os = butlast os @ [length body]"
    using assms(1,2) by (metis append_butlast_last_id)
  then have "?t = concat (map (write_offset E sz) (butlast os @ [length body]))"
    by simp
  then have "?t = concat (map (write_offset E sz) (butlast os)) @ write_offset E sz (length body)"
    by simp
  then have "read_last_offset_from_buffer E sz (body @ ?t) = Ok (length body)"
    using read_write_offset [OF max, of "body @ concat (map (write_offset E sz) (butlast os))"] by simp
  then show ?thesis
    using sz from_encoded_array_loop_read [OF assms(3) max, of body "[]"]
    by (simp add: from_encoded_array_def)
qed

end

lemma from_encoded_array_Nil [simp]: "from_encoded_array E [] = Ok ([], 0)"
  by (simp add: from_encoded_array_def for_encoded_container_def for_bare_container_eq
      read_last_offset_from_buffer_def from_encoded_array_loop.simps)

lemma ends_eq_Nil [simp]: "ends n ps = [] \<longleftrightarrow> ps = []"
  by (cases ps) simp_all

lemma ends_le: "x \<in> set (ends n ps) \<Longrightarrow> x \<le> n + length (concat ps)"
proof (induction ps arbitrary: n)
  case (Cons p ps)
  show ?case
    using Cons.IH [of "n + length p"] Cons.prems by auto
qed simp

lemma last_ends: "ps \<noteq> [] \<Longrightarrow> last (ends n ps) = n + length (concat ps)"
proof (induction ps arbitrary: n)
  case (Cons p ps)
  show ?case
    using Cons.IH [of "n + length p"] by (cases ps) simp_all
qed simp

section \<open>Deserializers on a part of the bytes\<close>

lemma dbind_fails:
  "m d = Some (Err e, d') \<Longrightarrow> dbind m f d = Some (Err e, d')" "m d = Some (Panic, d') \<Longrightarrow> dbind m f d = Some (Panic, d')"
  by (simp_all add: dbind_def)

text \<open>The bytes ahead are exactly those of a value, except that more may follow one of fixed size.\<close>

definition gahead :: "de \<Rightarrow> signature \<Rightarrow> byte list \<Rightarrow> bool" where
  "gahead d s bs \<longleftrightarrow> upcoming d bs \<and> (\<not> is_fixed_sized s \<longrightarrow> de_pos d + length bs = length (de_bytes d)) \<and>
     length (de_bytes d) < 2 ^ 64"

lemma gv_sub_sel [simp]:
  "de_endian (gv_sub s bs dep d) = de_endian d" "de_abs_pos (gv_sub s bs dep d) = de_abs_pos d"
  "de_bytes (gv_sub s bs dep d) = bs" "de_pos (gv_sub s bs dep d) = 0" "de_sig (gv_sub s bs dep d) = s"
  "de_depths (gv_sub s bs dep d) = dep" "de_fds (gv_sub s bs dep d) = de_fds d"
  by (simp_all add: gv_sub_def de_endian_def de_abs_pos_def)

lemma gahead_exact: "length bs < 2 ^ 64 \<Longrightarrow> gahead (gv_sub s bs dep d) t bs"
  by (simp add: gahead_def upcoming_def)

lemma gahead_prefix:
  "is_fixed_sized t \<Longrightarrow> length (bs @ r) < 2 ^ 64 \<Longrightarrow> gahead (gv_sub s (bs @ r) dep d) t bs"
  by (simp add: gahead_def upcoming_def)

lemma gv_run_read:
  "f (gv_sub s bs (de_depths d) d) = Some (Ok v, adv (gv_sub s bs (de_depths d) d) n) \<Longrightarrow>
     gv_run s bs f d = Some (Ok (Ok v), adv d n)"
  by (simp add: gv_run_def lift_def adv_def)

lemma moved_eq [simp]: "moved n d = Some (Ok (), adv d n)"
  by (simp add: moved_def lift_def adv_def)

lemma gv_parse_padding_read:
  "upcoming d (pad (de_abs_pos d) (alignment_gvariant (de_sig d))) \<Longrightarrow>
     gv_parse_padding d = Some (Ok (padding (de_abs_pos d) (alignment_gvariant (de_sig d))),
       adv d (padding (de_abs_pos d) (alignment_gvariant (de_sig d))))"
  by (simp add: gv_parse_padding_def parse_padding_pad)

lemma gv_parse_padding_none:
  "padding (de_abs_pos d) (alignment_gvariant (de_sig d)) = 0 \<Longrightarrow> gv_parse_padding d = Some (Ok 0, d)"
  by (simp add: gv_parse_padding_def parse_padding_aligned)

lemma subslice_upcoming: "upcoming d bs \<Longrightarrow> subslice (de_bytes d) (de_pos d) (de_pos d + length bs) = Ok bs"
  using prefix_length_le [of bs "drop (de_pos d) (de_bytes d)"]
  by (auto simp: upcoming_def subslice_def prefix_def)

lemma byte_at_upcoming: "upcoming d [x] \<Longrightarrow> byte_at (de_bytes d) (de_pos d) = Ok x"
  by (cases "de_pos d < length (de_bytes d)") (auto simp: upcoming_def byte_at_def prefix_def nth_via_drop)

lemma upcoming_exact:
  assumes "upcoming d bs" "de_pos d + length bs = length (de_bytes d)"
  shows "drop (de_pos d) (de_bytes d) = bs"
proof -
  obtain r where r: "drop (de_pos d) (de_bytes d) = bs @ r"
    using assms(1) by (auto simp: upcoming_def prefix_def)
  have "length (drop (de_pos d) (de_bytes d)) = length bs"
    using assms(2) by simp
  then show ?thesis
    unfolding r by simp
qed

text \<open>Up to some later end of what is ahead.\<close>

lemma subslice_upcoming_to:
  "upcoming d (bs @ r) \<Longrightarrow> e = de_pos d + length bs + length r \<Longrightarrow> subslice (de_bytes d) (de_pos d) e = Ok (bs @ r)"
  using subslice_upcoming [of d "bs @ r"] by (simp add: add.assoc)

section \<open>Values that can be read back\<close>

fun greadable :: "zvalue \<Rightarrow> bool" where
  "greadable (Value v) = greadable v"
| "greadable (Array es s) = list_all greadable es"
| "greadable (Dict m s) = (dict_sorted m \<and> list_all (\<lambda>(a, b). greadable a \<and> greadable b) m)"
| "greadable (Structure fs s) = list_all greadable fs"
| "greadable (Maybe x s) = pred_option greadable x"
| "greadable v = readable v"

fun gfuel :: "zvalue \<Rightarrow> nat" where
  "gfuel (Value v) = Suc (gfuel v)"
| "gfuel (Array es s) = Suc (Suc (length es + sum_list (map gfuel es)))"
| "gfuel (Dict m s) = Suc (Suc (length m + sum_list (map (\<lambda>(a, b). gfuel a + gfuel b) m)))"
| "gfuel (Structure fs s) = Suc (sum_list (map gfuel fs))"
| "gfuel (Maybe x s) = Suc (case x of Some v \<Rightarrow> gfuel v | None \<Rightarrow> 0)"
| "gfuel _ = 1"

lemma gfuel_element: "e \<in> set es \<Longrightarrow> gfuel e \<le> sum_list (map gfuel es)"
  by (induction es) auto

lemma gfuel_entry: "(a, b) \<in> set m \<Longrightarrow> gfuel a + gfuel b \<le> sum_list (map (\<lambda>(a, b). gfuel a + gfuel b) m)"
  by (induction m) auto

text \<open>
  When the framing offsets are enough. An array of elements that are not of fixed size has some bytes if it has
  elements; so has a structure that needs offsets; and the offset of a key has the size that its entry has with it.
\<close>

definition when_ok :: "('e, 'a) res \<Rightarrow> ('a \<Rightarrow> bool) \<Rightarrow> bool" where
  "when_ok r P = (case r of Ok x \<Rightarrow> P x | _ \<Rightarrow> True)"

lemma when_ok_simps [simp]: "when_ok (Ok x) P = P x" "when_ok (Err e) P" "when_ok Panic P"
  by (simp_all add: when_ok_def)

lemma when_ok_cong [fundef_cong]: "r = r' \<Longrightarrow> (\<And>x. r' = Ok x \<Longrightarrow> P x = P' x) \<Longrightarrow> when_ok r P = when_ok r' P'"
  by (cases r') (simp_all add: when_ok_def)

definition key_framed :: "bool \<Rightarrow> byte list \<Rightarrow> byte list \<Rightarrow> bool" where
  "key_framed fixed_key k v \<longleftrightarrow> fixed_key \<or>
     when_ok (for_encoded_container (length k + length v)) (\<lambda>sz.
       for_encoded_container (length k + length v + offset_bytes sz) = Ok sz)"

function (sequential) framed :: "endi \<Rightarrow> endian \<Rightarrow> depths \<Rightarrow> zvalue \<Rightarrow> nat \<Rightarrow> bool"
  and framed_all :: "endi \<Rightarrow> endian \<Rightarrow> depths \<Rightarrow> zvalue list \<Rightarrow> nat \<Rightarrow> bool"
  and framed_entries :: "endi \<Rightarrow> endian \<Rightarrow> depths \<Rightarrow> nat \<Rightarrow> bool \<Rightarrow> (zvalue \<times> zvalue) list \<Rightarrow> nat \<Rightarrow> bool"
where
  "framed E e d (Value v) n \<longleftrightarrow> when_ok (inc_variant d) (\<lambda>d'. framed E e d' v (n + padding n 8))"
| "framed E e d (Array es s) n \<longleftrightarrow>
     (let m = n + padding n (alignment_gvariant s) in
      when_ok (inc_array d) (\<lambda>d'. framed_all E e d' es m \<and>
        (list_all (\<lambda>v. is_fixed_sized (value_signature v)) es \<or> when_ok (genc_all E e d' es m) (\<lambda>ps. concat ps \<noteq> []))))"
| "framed E e d (Dict es s) n \<longleftrightarrow>
     when_ok (inc_array d) (\<lambda>d'.
       framed_entries E e d' (alignment_gvariant s) (list_all (\<lambda>(k, v). is_fixed_sized (value_signature k)) es) es
         (n + padding n (alignment_gvariant s)))"
| "framed E e d (Structure fs s) n \<longleftrightarrow>
     (let m = n + padding n (alignment_gvariant s) in
      when_ok (inc_structure d) (\<lambda>d'. framed_all E e d' fs m \<and>
        (list_all (\<lambda>v. is_fixed_sized (value_signature v)) (butlast fs) \<or>
         when_ok (genc_all E e d' fs m) (\<lambda>ps. concat ps \<noteq> []))))"
| "framed E e d (Maybe (Some v) s) n \<longleftrightarrow>
     when_ok (inc_maybe d) (\<lambda>d'. framed E e d' v (n + padding n (alignment_gvariant s)))"
| "framed E e d v n \<longleftrightarrow> True"
| "framed_all E e d [] n \<longleftrightarrow> True"
| "framed_all E e d (v # vs) n \<longleftrightarrow>
     framed E e d v n \<and> when_ok (genc E e d v n) (\<lambda>p. framed_all E e d vs (n + length p))"
| "framed_entries E e d a fixed_key [] n \<longleftrightarrow> True"
| "framed_entries E e d a fixed_key ((k, v) # es) n \<longleftrightarrow>
     framed E e d k (n + padding n a) \<and>
     when_ok (genc E e d k (n + padding n a)) (\<lambda>bk.
       framed E e d v (n + padding n a + length bk) \<and>
       when_ok (genc E e d v (n + padding n a + length bk)) (\<lambda>bv.
         key_framed fixed_key bk bv \<and>
         when_ok (entry_bytes E fixed_key bk bv) (\<lambda>b.
           framed_entries E e d a fixed_key es (n + padding n a + length b))))"
  by pat_completeness auto

termination
  by (relation "measure (case_sum (\<lambda>(_, _, _, v, _). size v)
      (case_sum (\<lambda>(_, _, _, vs, _). size_list size vs)
        (\<lambda>(_, _, _, _, _, m, _). size_list (size_prod size size) m)))") auto

definition greads :: "nom \<Rightarrow> endi \<Rightarrow> zvalue \<Rightarrow> bool" where
  "greads N E v \<longleftrightarrow> (\<forall>n d bs. gfuel v \<le> n \<longrightarrow> de_sig d = value_signature v \<longrightarrow>
     genc E (de_endian d) (de_depths d) v (de_abs_pos d) = Ok bs \<longrightarrow>
     framed E (de_endian d) (de_depths d) v (de_abs_pos d) \<longrightarrow> gahead d (value_signature v) bs \<longrightarrow>
     gv_de_value N E n (value_signature v) d = Some (Ok v, adv d (length bs)))"

lemma greadsD:
  "greads N E v \<Longrightarrow> gfuel v \<le> n \<Longrightarrow> de_sig d = value_signature v \<Longrightarrow>
     genc E (de_endian d) (de_depths d) v (de_abs_pos d) = Ok bs \<Longrightarrow>
     framed E (de_endian d) (de_depths d) v (de_abs_pos d) \<Longrightarrow> gahead d (value_signature v) bs \<Longrightarrow>
     gv_de_value N E n (value_signature v) d = Some (Ok v, adv d (length bs))"
  by (simp add: greads_def)

lemma greadsI:
  assumes "\<And>n d bs. gfuel v \<le> Suc n \<Longrightarrow> de_sig d = value_signature v \<Longrightarrow>
    genc E (de_endian d) (de_depths d) v (de_abs_pos d) = Ok bs \<Longrightarrow>
    framed E (de_endian d) (de_depths d) v (de_abs_pos d) \<Longrightarrow> gahead d (value_signature v) bs \<Longrightarrow>
    gv_deserialize_any E (gv_seed N E n (gv_de_value N E n) (value_signature v)) d = Some (Ok v, adv d (length bs))"
  shows "greads N E v"
proof -
  have pos: "0 < gfuel v" by (cases v) simp_all
  show ?thesis
    unfolding greads_def
  proof (intro allI impI)
    fix n d bs
    assume h: "gfuel v \<le> n" "de_sig d = value_signature v"
      "genc E (de_endian d) (de_depths d) v (de_abs_pos d) = Ok bs"
      "framed E (de_endian d) (de_depths d) v (de_abs_pos d)" "gahead d (value_signature v) bs"
    then obtain m where "n = Suc m" using pos by (cases n) auto
    with h show "gv_de_value N E n (value_signature v) d = Some (Ok v, adv d (length bs))"
      by (simp add: assms del: genc.simps)
  qed
qed

text \<open>A value on its own bytes, or at the front of them if it is of fixed size.\<close>

lemma greads_part:
  assumes "greads N E v" "gfuel v \<le> n" "s = value_signature v"
    "genc E (de_endian d) dep v (de_abs_pos d) = Ok b" "framed E (de_endian d) dep v (de_abs_pos d)"
    "bs = b \<or> is_fixed_sized s \<and> bs = b @ r" "length bs < 2 ^ 64"
  shows "gv_de_value N E n s (gv_sub s bs dep d) = Some (Ok v, adv (gv_sub s bs dep d) (length b))"
  using assms gahead_exact [of b s dep d s] gahead_prefix [of s b r s dep d]
  by (auto intro!: greadsD)

section \<open>Basic types\<close>

lemma gv_deserialize_basic_read:
  assumes "upcoming d bs"
    "f (gv_sub (de_sig d) (drop (de_pos d) (de_bytes d)) (de_depths d) d) =
      Some (Ok v, adv (gv_sub (de_sig d) (drop (de_pos d) (de_bytes d)) (de_depths d) d) (length bs))"
  shows "gv_deserialize_basic f d = Some (Ok v, adv d (length bs))"
  using assms by (simp add: gv_deserialize_basic_def subslice_from_def upcoming_def lift_def adv_def)

lemma gv_deserialize_basic_cong:
  "(\<And>bs. f (gv_sub (de_sig d) bs (de_depths d) d) = g (gv_sub (de_sig d) bs (de_depths d) d)) \<Longrightarrow>
     gv_deserialize_basic f d = gv_deserialize_basic g d"
  by (cases "subslice_from (de_bytes d) (de_pos d)") (simp_all add: gv_deserialize_basic_def)

context wire_laws
begin

lemma greads_of_reads:
  assumes "reads N E v" "fuel v = 1" "\<And>e d n. genc E e d v n = enc E e d v n"
    "\<And>n d. de_sig d = value_signature v \<Longrightarrow>
      gv_deserialize_any E (gv_seed N E n (gv_de_value N E n) (value_signature v)) d =
      gv_deserialize_basic (deserialize_any E (value_seed N E 0 (de_value N E 0) (value_signature v))) d"
  shows "greads N E v"
proof (rule greadsI)
  fix n d bs
  assume h: "de_sig d = value_signature v" "genc E (de_endian d) (de_depths d) v (de_abs_pos d) = Ok bs"
    "gahead d (value_signature v) bs"
  let ?d = "gv_sub (de_sig d) (drop (de_pos d) (de_bytes d)) (de_depths d) d"
  have "de_value N E 1 (value_signature v) ?d = Some (Ok v, adv ?d (length bs))"
    using h assms(2,3) by (intro readsD [OF assms(1)]) (simp_all add: gahead_def upcoming_def)
  then show "gv_deserialize_any E (gv_seed N E n (gv_de_value N E n) (value_signature v)) d = Some (Ok v, adv d (length bs))"
    using h assms(4) gv_deserialize_basic_read [of d bs] by (simp add: gahead_def)
qed

lemma greads_basic:
  "greads N E (U8 b)" "greads N E (Bool c)" "greads N E (I16 w)" "greads N E (U16 w)" "greads N E (U32 x)"
  "greads N E (I32 x)" "greads N E (I64 y)" "greads N E (U64 y)" "greads N E (F64 y)"
  by (rule greads_of_reads; force simp: reads_basic reads_U8 gv_deserialize_any_def deserialize_any_def gv_seed_def
      value_seed_def intro!: gv_deserialize_basic_cong)+

lemma gv_str_read:
  assumes "upcoming d (v @ [byte_of 0])" "de_pos d + length (v @ [byte_of 0]) = length (de_bytes d)" "valid_utf8 v"
    "byte_of 0 \<notin> set v" "de_sig d = signature.Str \<or> de_sig d = signature.Signature \<or> de_sig d = signature.ObjectPath"
  shows "gv_deserialize_str d = Some (Ok v, adv d (Suc (length v)))"
proof -
  show ?thesis
    using upcoming_exact [OF assms(1,2)] assms(2-5)
    by (auto simp: gv_deserialize_str_def subslice_from_def from_bytes_with_nul_def lift_def dbind_def)
qed

lemma greads_strings:
  "greadable (Str s) \<Longrightarrow> greads N E (Str s)" "greadable (ObjectPath s) \<Longrightarrow> greads N E (ObjectPath s)"
  "greadable (Signature t) \<Longrightarrow> greads N E (Signature t)"
proof -
  have str: "gv_deserialize_any E (gv_seed N E n R s) d = dbind gv_deserialize_str (\<lambda>v. lift (value_seed_str N s v)) d"
    if "de_sig d = s" "s \<in> {signature.Str, signature.ObjectPath, signature.Signature}" for n R s d
    using that by (auto simp: gv_deserialize_any_def gv_seed_def)
  note rd = gv_str_read [THEN dbind_Some] gahead_def value_seed_str_def lift_def
  show "greads N E (Str s)" if "greadable (Str s)"
    using that by (intro greadsI) (auto simp: str rd)
  show "greads N E (ObjectPath s)" if "greadable (ObjectPath s)"
    using that by (intro greadsI) (auto simp: str rd)
  show "greads N E (Signature t)" if "greadable (Signature t)"
  proof -
    have t: "valid_utf8 (to_string t)" "byte_of 0 \<notin> set (to_string t)" "from_str N (to_string t) = Ok t"
      using that nul_to_string valid_utf8_ascii from_str_to_string [of t] by (simp_all add: to_string_def)
    show ?thesis
      by (rule greadsI) (auto simp: str rd t simp del: greadable.simps)
  qed
qed

end

section \<open>Variants\<close>

lemma find_skip: "\<forall>x \<in> set xs. \<not> P x \<Longrightarrow> find P (xs @ ys) = find P ys"
  by (induction xs) simp_all

lemma find_separator_read:
  assumes "drop p bs = b @ [byte_of 0] @ t" "p \<le> length bs" "t \<noteq> []" "byte_of 0 \<notin> set t"
  shows "find_separator bs p = Some (p + length b)"
proof -
  have len: "length bs = p + length b + 1 + length t"
    using arg_cong [OF assms(1), of length] assms(2) by simp
  have nth: "bs ! (p + i) = (b @ [byte_of 0] @ t) ! i" if "p + i < length bs" for i
    using that assms(1,2) by (metis nth_drop)
  let ?q = "p + length b"
  have split: "[p..<length bs - 1] = [p..<?q] @ [?q] @ [Suc ?q..<?q + length t]"
    using upt_add_eq_append [of p ?q "length t"] assms(3) len by (simp add: upt_conv_Cons)
  have "bs ! i \<noteq> byte_of 0" if "i \<in> set (rev [Suc ?q..<?q + length t])" for i
  proof -
    have "Suc ?q \<le> i" "i < ?q + length t"
      using that by simp_all
    then obtain k where k: "i = p + (length b + 1 + k)" "k < length t"
      using le_Suc_ex [of "Suc ?q" i] by auto
    have "bs ! i = t ! k"
      using nth [of "length b + 1 + k"] k len by (simp add: nth_append)
    then show ?thesis
      using assms(4) k(2) nth_mem by force
  qed
  then have "find_separator bs p = find (\<lambda>i. bs ! i = byte_of 0) (rev ([p..<?q] @ [?q]))"
    unfolding find_separator_def split by (simp add: find_skip)
  moreover have "bs ! ?q = byte_of 0"
    using nth [of "length b"] len by simp
  ultimately show ?thesis
    by simp
qed

lemma to_string_nonempty: "sig_wf s \<Longrightarrow> to_string s \<noteq> []"
  using write_as_string_nonempty [of s] by (simp add: to_string_def)

lemma subslice_at:
  assumes "drop p bs = x @ y @ r" "p \<le> length bs"
  shows "subslice bs (p + length x) (p + length x + length y) = Ok y"
proof -
  have "drop (p + length x) bs = y @ r"
    using assms(1) by (metis add.commute append_eq_conv_conj drop_drop)
  moreover have "length bs = p + length (x @ y @ r)"
    using assms by (metis le_add_diff_inverse length_drop)
  ultimately show ?thesis
    by (simp add: subslice_def)
qed

context wire_laws
begin

lemma gv_signature_read:
  assumes "de_sig d = signature.Variant" "de_pos d = 0" "de_bytes d = to_string s" "sig_wf s"
  shows "gv_deserialize_signature N d = Some (Ok s, d)"
proof -
  have "valid_utf8 (to_string s)" "byte_of 0 \<notin> set (to_string s)" "from_str N (to_string s) = Ok s"
    using assms(4) nul_to_string valid_utf8_ascii from_str_to_string [of s] by (simp_all add: to_string_def)
  then show ?thesis
    using assms(1-3)
    by (simp add: gv_deserialize_signature_def gv_deserialize_str_def subslice_from_def lift_def dbind_def)
qed

lemma gv_variant_of:
  assumes inner: "gv_de_value N E n s (gv_sub s b d' d) = Some (r, dd)" and s: "sig_wf s"
    and d: "padding (de_abs_pos d) 8 = 0" "inc_variant (de_depths d) = Ok d'"
    and ahead: "drop (de_pos d) (de_bytes d) = b @ [byte_of 0] @ to_string s" "de_pos d \<le> length (de_bytes d)"
  shows "dbind gv_value_de_new (\<lambda>w. gv_visitor_seq N E (gv_de_value N E n) (GValue_Access w)) d =
    Some (r, d\<lparr>de_pos := length (de_bytes d)\<rparr>)"
proof -
  let ?t = "to_string s"
  let ?w = "\<lambda>st. \<lparr>gw_stage = st, gw_sig_start = de_pos d + length b + 1, gw_sig_end = length (de_bytes d),
      gw_value_start = de_pos d, gw_value_end = de_pos d + length b\<rparr>"
  have t: "?t \<noteq> []" "byte_of 0 \<notin> set ?t" "from_bytes N ?t = Ok s"
    using s to_string_nonempty nul_to_string parse_to_string(1) [of s] by (simp_all add: to_string_def from_bytes_def)
  have len: "length (de_bytes d) = de_pos d + length b + 1 + length ?t"
    using arg_cong [OF ahead(1), of length] ahead(2) by simp
  have new: "gv_value_de_new d = Some (Ok (?w Signature_Stage), d)"
    using find_separator_read [OF ahead t(1,2)] len
    by (auto simp: gv_value_de_new_def VARIANT_ALIGNMENT_GVARIANT_def parse_padding_aligned [OF d(1)] dbind_Some lift_def)
  have sub: "subslice (de_bytes d) (de_pos d + length b + 1) (length (de_bytes d)) = Ok ?t"
      "subslice (de_bytes d) (de_pos d) (de_pos d + length b) = Ok b"
    using subslice_at [where x = "b @ [byte_of 0]" and y = ?t and r = "[]", of "de_pos d" "de_bytes d"]
      subslice_at [where x = "[]" and y = b, of "de_pos d" "de_bytes d"] ahead len by simp_all
  have sgn: "gv_value_next N (?w Signature_Stage) (gv_deserialize_signature N) d = Some (Ok (Some s, ?w Value_Stage), d)"
    using sub(1) s gv_signature_read [of "\<lparr>de_ctxt = de_ctxt d, de_bytes = ?t, de_fds = de_fds d, de_pos = 0,
        de_sig = signature.Variant, de_depths = de_depths d\<rparr>" s]
    by (simp add: gv_value_next_def lift_def)
  have "gv_value_next N (?w Value_Stage) (gv_de_value N E n s) d =
      Some (map_ok (\<lambda>v. (Some v, ?w Done_Stage)) r, d\<lparr>de_pos := length (de_bytes d)\<rparr>)"
    using sub t(3) d(2) inner by (cases r) (simp_all add: gv_value_next_def lift_def gv_sub_def dbind_def)
  then show ?thesis
    using new sgn by (cases r) (simp_all add: dbind_Some dbind_fails gv_visitor_seq_def gv_next_element_seed_def dbind_assoc lift_def)
qed

lemma gv_variant_read:
  assumes v: "greads N E v" "gfuel v \<le> n" "sig_wf (value_signature v)"
    and d: "padding (de_abs_pos d) 8 = 0" "length (de_bytes d) < 2 ^ 64"
    and enc: "inc_variant (de_depths d) = Ok d'" "genc E (de_endian d) d' v (de_abs_pos d) = Ok b"
      "framed E (de_endian d) d' v (de_abs_pos d)"
    and ahead: "drop (de_pos d) (de_bytes d) = b @ [byte_of 0] @ to_string (value_signature v)"
      "de_pos d \<le> length (de_bytes d)"
  shows "dbind gv_value_de_new (\<lambda>w. gv_visitor_seq N E (gv_de_value N E n) (GValue_Access w)) d =
    Some (Ok v, d\<lparr>de_pos := length (de_bytes d)\<rparr>)"
proof (rule gv_variant_of [OF _ v(3) d(1) enc(1) ahead])
  have "length b < 2 ^ 64"
    using arg_cong [OF ahead(1), of length] d(2) by simp
  then show "gv_de_value N E n (value_signature v) (gv_sub (value_signature v) b d' d) =
      Some (Ok v, adv (gv_sub (value_signature v) b d' d) (length b))"
    using v enc by (intro greads_part) auto
qed

lemma genc_Value_split:
  assumes "genc E e dep (Value v) n = Ok bs"
  obtains d' b where "inc_variant dep = Ok d'" "genc E e d' v (n + padding n 8) = Ok b"
    "bs = pad n 8 @ b @ [byte_of 0] @ to_string (value_signature v)"
  using assms by (auto simp: map_ok_eq_Ok)

lemma gv_seq_variant_read:
  assumes v: "greads N E v" "gfuel v \<le> n" "sig_wf (value_signature v)" and d: "de_sig d = signature.Variant"
    and enc: "genc E (de_endian d) (de_depths d) (Value v) (de_abs_pos d) = Ok bs"
      "framed E (de_endian d) (de_depths d) (Value v) (de_abs_pos d)"
    and ahead: "gahead d signature.Variant bs"
  obtains d1 k where "gv_parse_padding d = Some (Ok k, d1)" "de_sig d1 = signature.Variant"
    "dbind gv_value_de_new (\<lambda>w. gv_visitor_seq N E (gv_de_value N E n) (GValue_Access w)) d1 =
      Some (Ok v, adv d (length bs))"
proof -
  obtain d' b where b: "inc_variant (de_depths d) = Ok d'" "genc E (de_endian d) d' v (de_abs_pos d + padding (de_abs_pos d) 8) = Ok b"
      "bs = pad (de_abs_pos d) 8 @ b @ [byte_of 0] @ to_string (value_signature v)"
    using enc(1) by (rule genc_Value_split)
  let ?d = "adv d (padding (de_abs_pos d) 8)"
  have up: "upcoming d (pad (de_abs_pos d) 8)" "upcoming ?d (b @ [byte_of 0] @ to_string (value_signature v))"
    using ahead b(3) upcoming_append [of d "pad (de_abs_pos d) 8"] by (simp_all add: gahead_def)
  have exact: "de_pos ?d + length (b @ [byte_of 0] @ to_string (value_signature v)) = length (de_bytes ?d)"
    using ahead b(3) by (simp add: gahead_def)
  have "dbind gv_value_de_new (\<lambda>w. gv_visitor_seq N E (gv_de_value N E n) (GValue_Access w)) ?d =
      Some (Ok v, ?d\<lparr>de_pos := length (de_bytes ?d)\<rparr>)"
    using v d b(1,2) enc(2) ahead upcoming_exact [OF up(2) exact] exact
    by (intro gv_variant_read [where b = b and d' = d']) (simp_all add: gahead_def)
  moreover have "?d\<lparr>de_pos := length (de_bytes ?d)\<rparr> = adv d (length bs)"
    using exact b(3) by (simp add: adv_def)
  ultimately show ?thesis
    using up(1) d that [of _ ?d] by (simp add: gv_parse_padding_read)
qed

lemma greads_Value:
  assumes "greads N E v" "sig_wf (value_signature v)"
  shows "greads N E (Value v)"
proof (rule greadsI)
  fix n d bs
  assume h: "gfuel (Value v) \<le> Suc n" "de_sig d = value_signature (Value v)"
    "genc E (de_endian d) (de_depths d) (Value v) (de_abs_pos d) = Ok bs"
    "framed E (de_endian d) (de_depths d) (Value v) (de_abs_pos d)" "gahead d (value_signature (Value v)) bs"
  have "gfuel v \<le> n"
    using h(1) by simp
  then obtain d1 k where "gv_parse_padding d = Some (Ok k, d1)" "de_sig d1 = signature.Variant"
    and d1: "dbind gv_value_de_new (\<lambda>w. gv_visitor_seq N E (gv_de_value N E n) (GValue_Access w)) d1 =
      Some (Ok v, adv d (length bs))"
    using h by (elim gv_seq_variant_read [OF assms(1) _ assms(2)]) simp_all
  then have "gv_deserialize_any E (gv_seed N E n (gv_de_value N E n) (value_signature (Value v))) d =
      dbind (dbind gv_value_de_new (\<lambda>w. gv_visitor_seq N E (gv_de_value N E n) (GValue_Access w))) (\<lambda>v. ret (Value v)) d1"
    using h(2) by (simp add: gv_deserialize_any_def gv_deserialize_seq_def gv_seed_def gv_seed_seq_def dbind_Some dbind_assoc)
  then show "gv_deserialize_any E (gv_seed N E n (gv_de_value N E n) (value_signature (Value v))) d =
      Some (Ok (Value v), adv d (length bs))"
    using d1 by (simp add: dbind_Some lift_def)
qed

text \<open>What is of fixed size takes some bytes.\<close>

lemma genc_fixed_nonempty:
  "value_ok v \<Longrightarrow> is_fixed_sized (value_signature v) \<Longrightarrow> genc E e d v n = Ok bs \<Longrightarrow> bs \<noteq> []"
proof (induction v arbitrary: d n bs)
  case (Structure fs s)
  then obtain f fs' where fs: "fs = f # fs'" by (cases fs) auto
  from Structure.prems(3) obtain d' p ps where "genc E e d' f (n + padding n (alignment_gvariant s)) = Ok p"
    and bs: "framed_body E (drop_own_end (length (concat (p # ps))) (field_ends 0 (map value_signature fs) (p # ps))) (p # ps) = Ok (drop (padding n (alignment_gvariant s)) bs)"
    by (auto simp: fs map_ok_eq_Ok Let_def simp del: alignment_gvariant.simps)
  then have "p \<noteq> []"
    using Structure.IH [of f d' "n + padding n (alignment_gvariant s)" p] Structure.prems(1,2) fs by auto
  then have "drop (padding n (alignment_gvariant s)) bs \<noteq> []"
    using bs by (auto simp: framed_body_def map_ok_eq_Ok)
  then show ?case
    by auto
qed (auto dest!: enc_nonempty [rotated] simp del: enc.simps)

lemma greads_Maybe:
  assumes "pred_option (\<lambda>v. greads N E v \<and> value_ok v \<and> value_signature v = c) x"
  shows "greads N E (Maybe x (signature.Maybe c))"
proof (rule greadsI)
  fix n d bs
  let ?s = "signature.Maybe c" let ?m = "Maybe x ?s"
  assume h: "gfuel ?m \<le> Suc n" "de_sig d = value_signature ?m"
    "genc E (de_endian d) (de_depths d) ?m (de_abs_pos d) = Ok bs"
    "framed E (de_endian d) (de_depths d) ?m (de_abs_pos d)" "gahead d (value_signature ?m) bs"
  let ?a = "alignment_gvariant ?s" let ?d = "adv d (padding (de_abs_pos d) ?a)"
  have up: "upcoming d bs" "de_pos d + length bs = length (de_bytes d)" "length (de_bytes d) < 2 ^ 64"
    using h(5) by (simp_all add: gahead_def)
  have any: "gv_deserialize_any E (gv_seed N E n (gv_de_value N E n) ?s) d =
      gv_deserialize_option (Ok (Maybe None ?s)) (gv_seed_some (gv_de_value N E n) ?s) d"
    using h(2) by (simp add: gv_deserialize_any_def gv_seed_def)
  show "gv_deserialize_any E (gv_seed N E n (gv_de_value N E n) (value_signature ?m)) d = Some (Ok ?m, adv d (length bs))"
  proof (cases x)
    case None
    then have "bs = pad (de_abs_pos d) ?a"
      using h(3) by simp
    then show ?thesis
      using None up h(2) any gv_parse_padding_read [of d]
      by (simp add: gv_deserialize_option_def dbind_Some lift_def del: alignment_gvariant.simps)
  next
    case (Some v)
    let ?z = "if is_fixed_sized c then [] else [byte_of 0]"
    obtain d' b where b: "inc_maybe (de_depths d) = Ok d'"
        "genc E (de_endian d) d' v (de_abs_pos d + padding (de_abs_pos d) ?a) = Ok b" "bs = pad (de_abs_pos d) ?a @ b @ ?z"
      using h(3) Some assms by (auto simp: map_ok_eq_Ok Let_def simp del: alignment_gvariant.simps)
    have v: "greads N E v" "value_ok v" "value_signature v = c" "gfuel v \<le> n"
      using assms Some h(1) by simp_all
    have up': "upcoming d (pad (de_abs_pos d) ?a)" "upcoming ?d (b @ ?z)"
      using up(1) upcoming_append [of d "pad (de_abs_pos d) ?a" "b @ ?z"] by (simp_all add: b(3) del: alignment_gvariant.simps)
    have exact: "de_pos ?d + length (b @ ?z) = length (de_bytes ?d)"
      using up(2) by (simp add: b(3) del: alignment_gvariant.simps)
    have "b @ ?z \<noteq> []"
      using genc_fixed_nonempty [OF v(2) _ b(2)] v(3) by simp
    then have pos: "de_pos ?d \<noteq> length (de_bytes ?d)"
      using exact by (metis add_cancel_right_right length_0_conv)
    have "(if is_fixed_sized c then length (de_bytes ?d) else length (de_bytes ?d) - 1) = de_pos ?d + length b"
      using exact by (auto split: if_splits)
    then have part: "subslice (de_bytes ?d) (de_pos ?d)
        (if is_fixed_sized c then length (de_bytes ?d) else length (de_bytes ?d) - 1) = Ok b"
      using subslice_upcoming [of ?d b] up'(2) by (simp only: upcoming_append)
    have "gv_de_value N E n c (gv_sub c b d' ?d) = Some (Ok v, adv (gv_sub c b d' ?d) (length b))"
      using v b(1,2) h(4) Some up(3) exact by (intro greads_part) (auto simp del: alignment_gvariant.simps)
    then have some: "gv_seed_some (gv_de_value N E n) ?s (gv_sub c b d' ?d) =
        Some (Ok (Maybe (Some v) ?s), adv (gv_sub c b d' ?d) (length b))"
      by (simp add: gv_seed_some_def dbind_Some lift_def)
    have nul: "byte_at (de_bytes ?d) (de_pos ?d + length b) = Ok (byte_of 0)" if "\<not> is_fixed_sized c"
      using that up'(2) byte_at_upcoming [of "adv ?d (length b)" "byte_of 0"] by (simp add: add.assoc)
    have pad: "gv_parse_padding d = Some (Ok (padding (de_abs_pos d) ?a), ?d)"
      using up'(1) h(2) gv_parse_padding_read [of d] by simp
    show ?thesis
    proof (cases "is_fixed_sized c")
      case True
      then show ?thesis
        using any pad h(2) pos part some b(1,3) Some
        by (simp add: gv_deserialize_option_def dbind_Some lift_def del: alignment_gvariant.simps)
    next
      case False
      moreover have "length (de_bytes d) \<noteq> 0"
        using exact False by auto
      ultimately show ?thesis
        using any pad h(2) pos part some b(1,3) Some nul
        by (simp add: gv_deserialize_option_def dbind_Some lift_def add.assoc del: alignment_gvariant.simps)
    qed
  qed
qed

end

section \<open>Arrays\<close>

text \<open>An array accessor with some pieces ahead of it.\<close>

definition array_at :: "gv_array_de \<Rightarrow> bool \<Rightarrow> byte list list \<Rightarrow> de \<Rightarrow> bool" where
  "array_at ad fixed ps d \<longleftrightarrow> upcoming d (concat ps) \<and> length (de_bytes d) < 2 ^ 64 \<and> ga_start ad \<le> de_pos d \<and>
     ga_start ad + ga_len ad = de_pos d + length (concat ps) \<and>
     ga_offsets ad = (if fixed then None else Some (ends (de_pos d - ga_start ad) ps))"

definition next_offsets :: "gv_array_de \<Rightarrow> gv_array_de" where
  "next_offsets ad = ad\<lparr>ga_offsets := map_option tl (ga_offsets ad)\<rparr>"

lemma next_offsets_sel [simp]:
  "ga_start (next_offsets ad) = ga_start ad" "ga_len (next_offsets ad) = ga_len ad"
  "ga_child_signature (next_offsets ad) = ga_child_signature ad" "ga_offsets_len (next_offsets ad) = ga_offsets_len ad"
  "ga_value_signature (next_offsets ad) = ga_value_signature ad"
  "ga_element_alignment (next_offsets ad) = ga_element_alignment ad"
  "ga_key_offset_size (next_offsets ad) = ga_key_offset_size ad"
  by (simp_all add: next_offsets_def)

lemma array_at_next:
  "array_at ad fixed (p # ps) d \<Longrightarrow> array_at (next_offsets ad) fixed ps (adv d (length p))"
  by (auto simp: array_at_def next_offsets_def Nat.add_diff_assoc2)

lemma element_end_pop:
  assumes "array_at ad fixed (p # ps) d"
  shows "element_end True ad =
    Ok (if fixed then de_pos d + length p + length (concat ps) else de_pos d + length p, next_offsets ad)"
  using assms by (auto simp: element_end_def array_at_def next_offsets_def offsets_pop_def add.assoc)

lemma element_end_peek:
  assumes "array_at ad fixed (p # ps) d"
  shows "element_end False ad =
    Ok (if fixed then de_pos d + length p + length (concat ps) else de_pos d + length p, ad)"
  using assms by (auto simp: element_end_def array_at_def offsets_peek_def add.assoc)

lemma gv_done_at:
  "array_at ad fixed [] d \<Longrightarrow> gv_done ad d" "array_at ad fixed (p # ps) d \<Longrightarrow> fixed \<longrightarrow> p \<noteq> [] \<Longrightarrow> \<not> gv_done ad d"
  by (auto simp: gv_done_def array_at_def)

lemma gv_array_end_read:
  "dec_array (de_depths d) = Ok d0 \<Longrightarrow>
     gv_array_end ad d = Some (Ok (), (adv d (ga_offsets_len ad))\<lparr>de_depths := d0\<rparr>)"
  by (simp add: gv_array_end_def set_depths_def lift_def dbind_Some)

lemma gv_within_read: "de_pos d \<le> ga_start ad + ga_len ad \<Longrightarrow> gv_within ad (Ok v) d = Some (Ok v, d)"
  by (simp add: gv_within_def lift_def)

lemma array_at_take:
  assumes "array_at ad fixed (p # ps) d"
  shows "subslice (de_bytes d) (de_pos d) (if fixed then de_pos d + length p + length (concat ps) else de_pos d + length p) =
    Ok (if fixed then p @ concat ps else p)" "length (p @ concat ps) < 2 ^ 64"
proof -
  have up: "upcoming d p" "upcoming d (p @ concat ps)" "length (de_bytes d) < 2 ^ 64"
    using assms upcoming_append [of d p "concat ps"] by (simp_all add: array_at_def)
  show "subslice (de_bytes d) (de_pos d) (if fixed then de_pos d + length p + length (concat ps) else de_pos d + length p) =
    Ok (if fixed then p @ concat ps else p)"
    using subslice_upcoming [OF up(1)] subslice_upcoming [OF up(2)] by (simp add: add.assoc del: upcoming_append)
  show "length (p @ concat ps) < 2 ^ 64"
    using up(2,3) prefix_length_le [of "p @ concat ps" "drop (de_pos d) (de_bytes d)"]
    by (simp add: upcoming_def del: upcoming_append)
qed

context wire_laws
begin

lemma gv_next_element_read:
  assumes at: "array_at ad (is_fixed_sized c) (p # ps) d" and ad: "ga_child_signature ad = c"
    and e: "greads N E e" "value_ok e" "value_signature e = c" "gfuel e \<le> n"
      "genc E (de_endian d) (de_depths d) e (de_abs_pos d) = Ok p"
      "framed E (de_endian d) (de_depths d) e (de_abs_pos d)"
  shows "gv_next_element ad (gv_de_value N E n c) d = Some (Ok (Some e, next_offsets ad), adv d (length p))"
proof -
  let ?bs = "if is_fixed_sized c then p @ concat ps else p"
  have "gv_de_value N E n c (gv_sub c ?bs (de_depths d) d) = Some (Ok e, adv (gv_sub c ?bs (de_depths d) d) (length p))"
    using e array_at_take(2) [OF at] by (intro greads_part [where r = "concat ps"]) auto
  moreover have "\<not> gv_done ad d"
    using genc_fixed_nonempty [OF e(2) _ e(5)] e(3) by (intro gv_done_at(2) [OF at]) auto
  moreover have "gv_within (next_offsets ad) (Ok e) (adv d (length p)) = Some (Ok e, adv d (length p))"
    using at by (intro gv_within_read) (simp add: array_at_def)
  ultimately show ?thesis
    using ad by (simp add: gv_next_element_def element_end_pop [OF at] array_at_take(1) [OF at] gv_run_read dbind_Some lift_def
        split del: if_split)
qed

lemma gv_array_loop_read:
  assumes "\<forall>e \<in> set es. greads N E e \<and> value_ok e \<and> value_signature e = c \<and> gfuel e \<le> n" "length es < k"
    "genc_all E (de_endian d) (de_depths d) es (de_abs_pos d) = Ok ps"
    "framed_all E (de_endian d) (de_depths d) es (de_abs_pos d)"
    "array_at ad (is_fixed_sized c) ps d" "ga_child_signature ad = c" "dec_array (de_depths d) = Ok d0"
  shows "gv_array_loop N E k (gv_de_value N E n c) (GArray_Access ad) (acc, signature.Array c) d =
    Some (Ok (acc @ es, signature.Array c), (adv d (length (concat ps) + ga_offsets_len ad))\<lparr>de_depths := d0\<rparr>)"
  using assms
proof (induction es arbitrary: d k acc ps ad)
  case Nil
  then obtain k' where "k = Suc k'" by (cases k) auto
  with Nil show ?case
    using gv_array_end_read [of d d0 ad] gv_done_at(1) [of ad _ d]
    by (simp add: gv_next_element_seed_def gv_next_element_def dbind_assoc dbind_Some lift_def)
next
  case (Cons e es)
  obtain k' where k: "k = Suc k'" using Cons.prems(2) by (cases k) auto
  obtain p ps' where p: "genc E (de_endian d) (de_depths d) e (de_abs_pos d) = Ok p" "ps = p # ps'"
      "genc_all E (de_endian d) (de_depths d) es (de_abs_pos d + length p) = Ok ps'"
    using Cons.prems(3) by (auto simp: map_ok_eq_Ok)
  have "gv_next_element ad (gv_de_value N E n c) d = Some (Ok (Some e, next_offsets ad), adv d (length p))"
    using Cons.prems p by (intro gv_next_element_read) auto
  moreover have "array_append (acc, signature.Array c) e = Ok (acc @ [e], signature.Array c)"
    using Cons.prems(1) by (simp add: array_append_Ok)
  moreover have "gv_array_loop N E k' (gv_de_value N E n c) (GArray_Access (next_offsets ad)) (acc @ [e], signature.Array c)
      (adv d (length p)) = Some (Ok ((acc @ [e]) @ es, signature.Array c),
        (adv (adv d (length p)) (length (concat ps') + ga_offsets_len (next_offsets ad)))\<lparr>de_depths := d0\<rparr>)"
    using Cons.prems p k array_at_next by (intro Cons.IH) auto
  ultimately show ?case
    using k p(2) by (simp add: gv_next_element_seed_def dbind_assoc dbind_Some lift_def add.assoc)
qed

text \<open>Starting an array or a dictionary finds the offsets of its pieces.\<close>

lemma framed_offsets:
  assumes "frames_tail E (ends 0 ps) (length (concat ps)) = Ok t" "ps = [] \<or> concat ps \<noteq> []"
  shows "from_encoded_array E (concat ps @ t) = Ok (ends 0 ps, length t)"
proof (cases "ps = []")
  case False
  then obtain sz where "for_bare_container (length (concat ps)) (length (ends 0 ps)) = Ok sz"
      "t = concat (map (write_offset E sz) (ends 0 ps))"
    using assms by (auto simp: frames_tail_def map_ok_eq_Ok simp del: length_concat split: if_splits)
  then show ?thesis
    using from_encoded_array_read [of "ends 0 ps" "concat ps" sz] False last_ends [of ps 0] ends_le [of _ 0 ps]
    by (simp del: length_concat)
qed (use assms in \<open>simp add: frames_tail_def\<close>)

lemma gv_array_new_read:
  assumes s: "element_sig (de_sig d) = Some (c, fixed)" "padding (de_abs_pos d) (alignment_gvariant (de_sig d)) = 0"
    and "inc_array (de_depths d) = Ok d'"
    and up: "upcoming d (concat ps @ t)" "de_pos d + length (concat ps @ t) = length (de_bytes d)" "length (de_bytes d) < 2 ^ 64"
    and t: "frames_tail E (if fixed then [] else ends 0 ps) (length (concat ps)) = Ok t" "fixed \<or> ps = [] \<or> concat ps \<noteq> []"
  obtains ad where "gv_array_de_new E d = Some (Ok ad, d\<lparr>de_depths := d'\<rparr>)"
    "array_at ad fixed ps (d\<lparr>de_depths := d'\<rparr>)" "ga_child_signature ad = c" "ga_offsets_len ad = length t"
    "ga_element_alignment ad = alignment_gvariant (de_sig d)"
    "\<And>k v. de_sig d = signature.Dict k v \<Longrightarrow> ga_value_signature ad = Some v \<and>
       (ga_key_offset_size ad = None \<longleftrightarrow> is_fixed_sized k)"
proof -
  let ?d = "d\<lparr>de_depths := d'\<rparr>"
  define vs where "vs = (case de_sig d of signature.Dict k v \<Rightarrow> Some v | _ \<Rightarrow> None)"
  define fk where "fk = (case de_sig d of signature.Dict k v \<Rightarrow> is_fixed_sized k | _ \<Rightarrow> False)"
  let ?ad = "\<lparr>ga_len = length (de_bytes d) - de_pos d - length t, ga_start = de_pos d,
      ga_element_alignment = alignment_gvariant (de_sig d), ga_child_signature = c, ga_value_signature = vs,
      ga_offsets = if fixed then None else Some (ends 0 ps), ga_offsets_len = length t,
      ga_key_offset_size = if fixed \<or> fk then None else Some Off8\<rparr>"
  have pad: "gv_parse_padding ?d = Some (Ok 0, ?d)"
    using s(2) gv_parse_padding_none [of ?d] by simp
  have tail: "t = []" if fixed
    using t(1) that by (simp add: frames_tail_def)
  have kind: "array_kind (de_sig d) = Ok (c, vs, fk, fixed)"
    using s(1) by (cases "de_sig d") (auto simp: vs_def fk_def array_kind_def)
  have offs: "array_offsets E fk fixed ?d =
      Ok (if fixed then None else Some (ends 0 ps), length t, if fixed \<or> fk then None else Some Off8)"
    using upcoming_exact [OF up(1,2)] up(1) t tail framed_offsets [of ps t]
    by (cases fixed) (auto simp: array_offsets_def subslice_from_def upcoming_def simp del: upcoming_append)
  have "set_depths (inc_array (de_depths d)) d = Some (Ok (), ?d)"
    using assms(3) by (simp add: set_depths_def lift_def)
  then have new: "gv_array_de_new E d = Some (Ok ?ad, ?d)"
    using pad kind offs by (simp add: gv_array_de_new_def dbind_Some lift_def)
  have at: "array_at ?ad fixed ps ?d"
    using up by (auto simp: array_at_def simp del: length_concat)
  have "ga_value_signature ?ad = Some v \<and> (ga_key_offset_size ?ad = None \<longleftrightarrow> is_fixed_sized k)"
    if "de_sig d = signature.Dict k v" for k v
    using that s(1) by (auto simp: vs_def fk_def)
  then show ?thesis
    by (intro that [OF new at]) simp_all
qed

lemma genc_Array_split:
  assumes "genc E e d (Array es (signature.Array c)) n = Ok bs"
  obtains d' ps t where "inc_array d = Ok d'" "genc_all E e d' es (n + padding n (alignment_gvariant (signature.Array c))) = Ok ps"
    "frames_tail E (if is_fixed_sized c then [] else ends 0 ps) (length (concat ps)) = Ok t"
    "bs = pad n (alignment_gvariant (signature.Array c)) @ concat ps @ t"
  using assms by (auto simp: map_ok_eq_Ok framed_body_def Let_def simp del: length_concat)

lemma genc_all_length: "genc_all E e d vs n = Ok ps \<Longrightarrow> length ps = length vs"
  by (induction vs arbitrary: n ps) (auto simp: map_ok_eq_Ok)

lemma greads_Array:
  assumes es: "\<forall>e \<in> set es. greads N E e \<and> value_ok e \<and> value_signature e = c"
  shows "greads N E (Array es (signature.Array c))"
proof (rule greadsI)
  fix n d bs
  let ?s = "signature.Array c" let ?v = "Array es ?s"
  assume h: "gfuel ?v \<le> Suc n" "de_sig d = value_signature ?v"
    "genc E (de_endian d) (de_depths d) ?v (de_abs_pos d) = Ok bs"
    "framed E (de_endian d) (de_depths d) ?v (de_abs_pos d)" "gahead d (value_signature ?v) bs"
  let ?a = "alignment_gvariant ?s"
  obtain d' ps t where ps: "inc_array (de_depths d) = Ok d'"
      "genc_all E (de_endian d) d' es (de_abs_pos d + padding (de_abs_pos d) ?a) = Ok ps"
      "frames_tail E (if is_fixed_sized c then [] else ends 0 ps) (length (concat ps)) = Ok t"
      "bs = pad (de_abs_pos d) ?a @ concat ps @ t"
    using h(3) by (rule genc_Array_split)
  let ?d = "adv d (padding (de_abs_pos d) ?a)"
  have up: "upcoming d (pad (de_abs_pos d) ?a)" "upcoming ?d (concat ps @ t)"
      "de_pos ?d + length (concat ps @ t) = length (de_bytes ?d)"
    using h(5) ps(4) by (simp_all add: gahead_def del: length_concat alignment_gvariant.simps)
  have fr: "framed_all E (de_endian d) d' es (de_abs_pos d + padding (de_abs_pos d) ?a)"
      "is_fixed_sized c \<or> ps = [] \<or> concat ps \<noteq> []"
    using h(4) ps(1,2) es genc_all_length [OF ps(2)]
    by (auto simp: Let_def list_all_iff simp del: alignment_gvariant.simps concat_eq_Nil_conv)
  obtain ad where ad: "gv_array_de_new E ?d = Some (Ok ad, ?d\<lparr>de_depths := d'\<rparr>)"
      "array_at ad (is_fixed_sized c) ps (?d\<lparr>de_depths := d'\<rparr>)" "ga_child_signature ad = c" "ga_offsets_len ad = length t"
    by (rule gv_array_new_read [where d = ?d and c = c and fixed = "is_fixed_sized c" and d' = d' and ps = ps and t = t])
      (use h(2,5) ps up fr(2) in \<open>simp_all add: gahead_def del: length_concat alignment_gvariant.simps upcoming_append\<close>)
  show "gv_deserialize_any E (gv_seed N E n (gv_de_value N E n) (value_signature ?v)) d = Some (Ok ?v, adv d (length bs))"
  proof -
    have "gv_array_loop N E n (gv_de_value N E n c) (GArray_Access ad) ([], ?s) (?d\<lparr>de_depths := d'\<rparr>) =
        Some (Ok ([] @ es, ?s), (adv (?d\<lparr>de_depths := d'\<rparr>) (length (concat ps) + ga_offsets_len ad))\<lparr>de_depths := de_depths d\<rparr>)"
      using es h(1) ps(2) fr(1) ad(2,3) dec_inc_depths(2) [OF ps(1)] gfuel_element
      by (intro gv_array_loop_read) (fastforce simp del: alignment_gvariant.simps)+
    moreover have "(adv (?d\<lparr>de_depths := d'\<rparr>) (length (concat ps) + ga_offsets_len ad))\<lparr>de_depths := de_depths d\<rparr> =
        adv d (length bs)"
      using ad(4) ps(4) by (simp add: adv_def del: length_concat alignment_gvariant.simps)
    moreover have "gv_parse_padding d = Some (Ok (padding (de_abs_pos d) ?a), ?d)"
      using up(1) h(2) gv_parse_padding_read [of d] by simp
    ultimately show ?thesis
      using h(2) ad(1)
      by (simp add: gv_deserialize_any_def gv_deserialize_seq_def gv_seed_def gv_seed_seq_def dbind_Some dbind_assoc lift_def
          array_new_full_signature_def del: length_concat alignment_gvariant.simps)
  qed
qed

end

section \<open>Dictionaries\<close>

lemma subslice_upcoming_take:
  "upcoming d bs \<Longrightarrow> take (length bs) (drop (de_pos d) (de_bytes d)) = bs \<and> de_pos d + length bs \<le> length (de_bytes d)"
  using prefix_length_le [of bs "drop (de_pos d) (de_bytes d)"] by (auto simp: upcoming_def prefix_def)

lemma key_offset_sel [simp]:
  "ga_start (ad\<lparr>ga_key_offset_size := z\<rparr>) = ga_start ad" "ga_len (ad\<lparr>ga_key_offset_size := z\<rparr>) = ga_len ad"
  "array_at (ad\<lparr>ga_key_offset_size := z\<rparr>) fixed ps d = array_at ad fixed ps d"
  by (simp_all add: array_at_def)

definition dict_access :: "gv_array_de \<Rightarrow> signature \<Rightarrow> signature \<Rightarrow> nat \<Rightarrow> nat \<Rightarrow> bool" where
  "dict_access ad ks vs a l \<longleftrightarrow> ga_child_signature ad = ks \<and> ga_value_signature ad = Some vs \<and> ga_element_alignment ad = a \<and>
     (ga_key_offset_size ad = None \<longleftrightarrow> is_fixed_sized ks) \<and> ga_offsets_len ad = l"

context wire_laws
begin

text \<open>The key and the value of an entry whose bytes are ahead, with a key that is not of fixed size.\<close>

lemma gv_key_read_framed:
  assumes at: "array_at ad False ((pad (de_abs_pos d) a @ bk @ bv @ write_offset E sz (length bk)) # ps) d"
    and ad: "ga_child_signature ad = ks" "ga_element_alignment ad = a" "ga_key_offset_size ad \<noteq> None"
    and k: "greads N E k" "value_signature k = ks" "gfuel k \<le> n"
      "genc E (de_endian d) (de_depths d) k (de_abs_pos d + padding (de_abs_pos d) a) = Ok bk"
      "framed E (de_endian d) (de_depths d) k (de_abs_pos d + padding (de_abs_pos d) a)"
    and sz: "for_encoded_container (length bk + length bv) = Ok sz"
      "for_encoded_container (length bk + length bv + offset_bytes sz) = Ok sz"
  shows "gv_next_key E ad (gv_de_value N E n ks) d =
    Some (Ok (Some k, ad\<lparr>ga_key_offset_size := Some sz\<rparr>), adv d (padding (de_abs_pos d) a + length bk))"
proof -
  let ?w = "write_offset E sz (length bk)" let ?b = "bk @ bv @ ?w"
  let ?d = "adv d (padding (de_abs_pos d) a)" let ?ad = "ad\<lparr>ga_key_offset_size := Some sz\<rparr>"
  have up: "upcoming d (pad (de_abs_pos d) a)" "upcoming ?d ?b" "upcoming ?d bk" "length ?b < 2 ^ 64"
    using at array_at_take(2) [OF at] by (auto simp: array_at_def)
  have e: "element_end False ad = Ok (de_pos ?d + length ?b, ad)"
    using element_end_peek [OF at] by (simp add: add.assoc)
  have "offset_max sz \<ge> length bk"
    using for_bare_container_Ok(1) [of "length bk + length bv" 0 sz] sz(1) by (simp add: for_encoded_container_def)
  then have off: "read_last_offset_from_buffer E sz ?b = Ok (length bk)"
    using read_write_offset [of "length bk" sz "bk @ bv"] by simp
  have sz': "for_encoded_container (length ?b) = Ok sz"
    using sz(2) by (simp add: add.assoc)
  have sub: "subslice (de_bytes ?d) (de_pos ?d) (de_pos ?d + length bk) = Ok bk"
    by (rule subslice_upcoming [OF up(3)])
  have "gv_de_value N E n ks (gv_sub ks bk (de_depths ?d) ?d) = Some (Ok k, adv (gv_sub ks bk (de_depths ?d) ?d) (length bk))"
    using k up(4) by (intro greads_part) auto
  then have run: "gv_run ks bk (gv_de_value N E n ks) ?d = Some (Ok (Ok k), adv ?d (length bk))"
    by (rule gv_run_read)
  have "gv_within ?ad (Ok k) (adv ?d (length bk)) = Some (Ok k, adv ?d (length bk))"
    using at by (intro gv_within_read) (simp add: array_at_def)
  moreover have "\<not> gv_done ad d"
    using gv_done_at(2) [OF at] by simp
  moreover obtain x where "ga_key_offset_size ad = Some x"
    using ad(3) by auto
  ultimately show ?thesis
    using subslice_upcoming_take [OF up(2)] parse_padding_pad [OF up(1)] e off sz' sub run ad(1,2)
    by (simp add: gv_next_key_def dbind_Some dbind_assoc lift_def del: length_append)
qed

lemma gv_value_read_framed:
  assumes at: "array_at ad False ((p @ bk @ bv @ write_offset E sz (length bk)) # ps) d"
    and ad: "ga_value_signature ad = Some vs" "ga_key_offset_size ad = Some sz"
    and v: "greads N E v" "value_signature v = vs" "gfuel v \<le> n"
      "genc E (de_endian d) (de_depths d) v (de_abs_pos d + length (p @ bk)) = Ok bv"
      "framed E (de_endian d) (de_depths d) v (de_abs_pos d + length (p @ bk))"
  shows "gv_next_value ad (gv_de_value N E n vs) (adv d (length (p @ bk))) =
    Some (Ok (v, next_offsets ad), adv d (length (p @ bk @ bv @ write_offset E sz (length bk))))"
proof -
  let ?w = "write_offset E sz (length bk)" let ?d = "adv d (length (p @ bk))"
  have up: "upcoming ?d bv" "length bv < 2 ^ 64"
    using at array_at_take(2) [OF at] by (auto simp: array_at_def)
  have e: "element_end True ad = Ok (de_pos ?d + length bv + offset_bytes sz, next_offsets ad)"
    using element_end_pop [OF at] by (simp add: add.assoc)
  have "gv_de_value N E n vs (gv_sub vs bv (de_depths ?d) ?d) = Some (Ok v, adv (gv_sub vs bv (de_depths ?d) ?d) (length bv))"
    using v up(2) by (intro greads_part) auto
  then have run: "gv_run vs bv (gv_de_value N E n vs) ?d = Some (Ok (Ok v), adv ?d (length bv))"
    by (rule gv_run_read)
  have "gv_within (next_offsets ad) (Ok v) (adv ?d (length bv + offset_bytes sz)) = Some (Ok v, adv ?d (length bv + offset_bytes sz))"
    using at by (intro gv_within_read) (simp add: array_at_def)
  then show ?thesis
    using e run ad subslice_upcoming [OF up(1)]
    by (simp add: gv_next_value_def dbind_Some lift_def add.assoc)
qed

text \<open>The same with a key of fixed size, for which the offset of the entry, if there is one, is enough.\<close>

lemma gv_key_read_fixed:
  assumes at: "array_at ad fixed ((pad (de_abs_pos d) a @ bk @ bv) # ps) d"
    and ad: "ga_child_signature ad = ks" "ga_element_alignment ad = a" "ga_key_offset_size ad = None"
    and k: "greads N E k" "value_ok k" "is_fixed_sized ks" "value_signature k = ks" "gfuel k \<le> n"
      "genc E (de_endian d) (de_depths d) k (de_abs_pos d + padding (de_abs_pos d) a) = Ok bk"
      "framed E (de_endian d) (de_depths d) k (de_abs_pos d + padding (de_abs_pos d) a)"
  shows "gv_next_key E ad (gv_de_value N E n ks) d =
    Some (Ok (Some k, ad), adv d (padding (de_abs_pos d) a + length bk))"
proof -
  let ?d = "adv d (padding (de_abs_pos d) a)" let ?r = "if fixed then bv @ concat ps else bv"
  have up: "upcoming d (pad (de_abs_pos d) a)" "upcoming ?d (bk @ ?r)" "length (bk @ ?r) < 2 ^ 64"
    using at array_at_take(2) [OF at] by (auto simp: array_at_def)
  have e: "element_end False ad = Ok (de_pos ?d + length (bk @ ?r), ad)"
    using element_end_peek [OF at] by (simp add: add.assoc)
  have "gv_de_value N E n ks (gv_sub ks (bk @ ?r) (de_depths ?d) ?d) =
      Some (Ok k, adv (gv_sub ks (bk @ ?r) (de_depths ?d) ?d) (length bk))"
    using k up(3) by (intro greads_part [where r = ?r]) auto
  then have run: "gv_run ks (bk @ ?r) (gv_de_value N E n ks) ?d = Some (Ok (Ok k), adv ?d (length bk))"
    by (rule gv_run_read)
  have "gv_within ad (Ok k) (adv ?d (length bk)) = Some (Ok k, adv ?d (length bk))"
    using at by (intro gv_within_read) (simp add: array_at_def)
  moreover have "\<not> gv_done ad d"
    using gv_done_at(2) [OF at] genc_fixed_nonempty [OF k(2) _ k(6)] k(3,4) by simp
  ultimately show ?thesis
    using parse_padding_pad [OF up(1)] e run ad subslice_upcoming [OF up(2)]
    by (simp add: gv_next_key_def dbind_Some dbind_assoc lift_def del: length_append split del: if_split)
qed

lemma gv_value_read_fixed:
  assumes at: "array_at ad fixed ((p @ bk @ bv) # ps) d"
    and ad: "ga_value_signature ad = Some vs" "ga_key_offset_size ad = None" "fixed \<longrightarrow> is_fixed_sized vs"
    and v: "greads N E v" "value_signature v = vs" "gfuel v \<le> n"
      "genc E (de_endian d) (de_depths d) v (de_abs_pos d + length (p @ bk)) = Ok bv"
      "framed E (de_endian d) (de_depths d) v (de_abs_pos d + length (p @ bk))"
  shows "gv_next_value ad (gv_de_value N E n vs) (adv d (length (p @ bk))) =
    Some (Ok (v, next_offsets ad), adv d (length (p @ bk @ bv)))"
proof -
  let ?d = "adv d (length (p @ bk))" let ?b = "if fixed then bv @ concat ps else bv"
  have up: "upcoming ?d ?b" "length ?b < 2 ^ 64"
    using at array_at_take(2) [OF at] by (auto simp: array_at_def)
  have e: "element_end True ad = Ok (de_pos ?d + length ?b, next_offsets ad)"
    using element_end_pop [OF at] by (simp add: add.assoc)
  have "gv_de_value N E n vs (gv_sub vs ?b (de_depths ?d) ?d) = Some (Ok v, adv (gv_sub vs ?b (de_depths ?d) ?d) (length bv))"
    using v up(2) ad(3) by (intro greads_part [where r = "concat ps"]) auto
  then have run: "gv_run vs ?b (gv_de_value N E n vs) ?d = Some (Ok (Ok v), adv ?d (length bv))"
    by (rule gv_run_read)
  have "gv_within (next_offsets ad) (Ok v) (adv ?d (length bv)) = Some (Ok v, adv ?d (length bv))"
    using at by (intro gv_within_read) (simp add: array_at_def)
  then show ?thesis
    using e run ad subslice_upcoming [OF up(1)]
    by (simp add: gv_next_value_def dbind_Some lift_def add.assoc split del: if_split)
qed

lemma gv_entry_read:
  assumes at: "array_at ad (is_fixed_sized ks \<and> is_fixed_sized vs) ((pad (de_abs_pos d) a @ b) # ps) d"
    and ad: "dict_access ad ks vs a l"
    and k: "greads N E k" "value_ok k" "value_signature k = ks" "gfuel k \<le> n"
      "genc E (de_endian d) (de_depths d) k (de_abs_pos d + padding (de_abs_pos d) a) = Ok bk"
      "framed E (de_endian d) (de_depths d) k (de_abs_pos d + padding (de_abs_pos d) a)"
    and v: "greads N E v" "value_signature v = vs" "gfuel v \<le> n"
      "genc E (de_endian d) (de_depths d) v (de_abs_pos d + padding (de_abs_pos d) a + length bk) = Ok bv"
      "framed E (de_endian d) (de_depths d) v (de_abs_pos d + padding (de_abs_pos d) a + length bk)"
    and b: "entry_bytes E (is_fixed_sized ks) bk bv = Ok b" "key_framed (is_fixed_sized ks) bk bv"
  obtains ad1 d1 ad2 where "gv_next_key E ad (gv_de_value N E n ks) d = Some (Ok (Some k, ad1), d1)"
    "gv_next_value ad1 (gv_de_value N E n vs) d1 = Some (Ok (v, ad2), adv d (length (pad (de_abs_pos d) a @ b)))"
    "array_at ad2 (is_fixed_sized ks \<and> is_fixed_sized vs) ps (adv d (length (pad (de_abs_pos d) a @ b)))"
    "dict_access ad2 ks vs a l"
proof (cases "is_fixed_sized ks")
  case True
  then have b': "b = bk @ bv"
    using b(1) by (simp add: entry_bytes_def)
  note at' = at [unfolded b']
  have "gv_next_key E ad (gv_de_value N E n ks) d = Some (Ok (Some k, ad), adv d (length (pad (de_abs_pos d) a @ bk)))"
    using gv_key_read_fixed [OF at' _ _ _ k(1,2) True k(3-6)] ad True by (simp add: dict_access_def)
  moreover have "gv_next_value ad (gv_de_value N E n vs) (adv d (length (pad (de_abs_pos d) a @ bk))) =
      Some (Ok (v, next_offsets ad), adv d (length (pad (de_abs_pos d) a @ bk @ bv)))"
    using gv_value_read_fixed [OF at', where vs = vs and v = v and n = n] v ad True
    by (simp add: dict_access_def add.assoc)
  ultimately show ?thesis
    using that [of ad _ "next_offsets ad"] array_at_next [OF at] ad by (simp add: b' dict_access_def)
next
  case False
  obtain sz where sz: "for_encoded_container (length bk + length bv) = Ok sz"
      "for_encoded_container (length bk + length bv + offset_bytes sz) = Ok sz"
      "b = bk @ bv @ write_offset E sz (length bk)"
    using b False by (auto simp: entry_bytes_def key_framed_def map_ok_eq_Ok)
  have at': "array_at ad False ((pad (de_abs_pos d) a @ bk @ bv @ write_offset E sz (length bk)) # ps) d"
    using at False by (simp add: sz(3))
  let ?ad = "ad\<lparr>ga_key_offset_size := Some sz\<rparr>"
  have "gv_next_key E ad (gv_de_value N E n ks) d = Some (Ok (Some k, ?ad), adv d (length (pad (de_abs_pos d) a @ bk)))"
    using gv_key_read_framed [OF at' _ _ _ k(1,3-6) sz(1,2)] ad False by (simp add: dict_access_def)
  moreover have "gv_next_value ?ad (gv_de_value N E n vs) (adv d (length (pad (de_abs_pos d) a @ bk))) =
      Some (Ok (v, next_offsets ?ad), adv d (length (pad (de_abs_pos d) a @ bk @ bv @ write_offset E sz (length bk))))"
    using gv_value_read_framed [of ?ad "pad (de_abs_pos d) a" bk bv sz ps d vs v n] at' v ad
    by (simp add: dict_access_def add.assoc)
  ultimately show ?thesis
    using that [of ?ad _ "next_offsets ?ad"] array_at_next [of ?ad False "pad (de_abs_pos d) a @ b" ps d] at' ad False
    by (simp add: sz(3) dict_access_def)
qed

lemma gv_map_loop_read:
  assumes "\<forall>(a, b) \<in> set es. greads N E a \<and> value_ok a \<and> value_signature a = ks \<and> gfuel a \<le> n \<and>
      greads N E b \<and> value_signature b = vs \<and> gfuel b \<le> n" "length es < k" "dict_sorted (acc @ es)"
    "genc_entries E (de_endian d) (de_depths d) a (is_fixed_sized ks) es (de_abs_pos d) = Ok ps"
    "framed_entries E (de_endian d) (de_depths d) a (is_fixed_sized ks) es (de_abs_pos d)"
    "array_at ad (is_fixed_sized ks \<and> is_fixed_sized vs) ps d" "dict_access ad ks vs a l" "dec_array (de_depths d) = Ok d0"
  shows "gv_map_loop E k (gv_de_value N E n ks) (gv_de_value N E n vs) ad (acc, signature.Dict ks vs) d =
    Some (Ok (acc @ es, signature.Dict ks vs), (adv d (length (concat ps) + l))\<lparr>de_depths := d0\<rparr>)"
  using assms
proof (induction es arbitrary: d k acc ps ad)
  case Nil
  then obtain k' where "k = Suc k'" by (cases k) auto
  with Nil show ?case
    using gv_array_end_read [of d d0 ad] gv_done_at(1) [of ad _ d]
    by (simp add: gv_next_key_def dbind_assoc dbind_Some lift_def dict_access_def)
next
  case (Cons kv es)
  obtain x y where kv: "kv = (x, y)" by (cases kv)
  obtain k' where k: "k = Suc k'" using Cons.prems(2) by (cases k) auto
  let ?m = "de_abs_pos d + padding (de_abs_pos d) a"
  obtain bx by' b ps' where enc: "genc E (de_endian d) (de_depths d) x ?m = Ok bx"
      "genc E (de_endian d) (de_depths d) y (?m + length bx) = Ok by'"
      "entry_bytes E (is_fixed_sized ks) bx by' = Ok b" "ps = (pad (de_abs_pos d) a @ b) # ps'"
      "genc_entries E (de_endian d) (de_depths d) a (is_fixed_sized ks) es (?m + length b) = Ok ps'"
    using Cons.prems(4) by (auto simp: kv map_ok_eq_Ok)
  have fr: "framed E (de_endian d) (de_depths d) x ?m" "framed E (de_endian d) (de_depths d) y (?m + length bx)"
      "key_framed (is_fixed_sized ks) bx by'"
      "framed_entries E (de_endian d) (de_depths d) a (is_fixed_sized ks) es (?m + length b)"
    using Cons.prems(5) enc by (simp_all add: kv)
  have xy: "greads N E x" "value_ok x" "value_signature x = ks" "gfuel x \<le> n" "greads N E y" "value_signature y = vs"
      "gfuel y \<le> n"
    using Cons.prems(1) by (simp_all add: kv)
  let ?p = "pad (de_abs_pos d) a @ b"
  obtain ad1 d1 ad2 where e: "gv_next_key E ad (gv_de_value N E n ks) d = Some (Ok (Some x, ad1), d1)"
      "gv_next_value ad1 (gv_de_value N E n vs) d1 = Some (Ok (y, ad2), adv d (length ?p))"
    and ad2: "array_at ad2 (is_fixed_sized ks \<and> is_fixed_sized vs) ps' (adv d (length ?p))" "dict_access ad2 ks vs a l"
    using gv_entry_read [OF Cons.prems(6) [unfolded enc(4)] Cons.prems(7) xy(1-4) enc(1) fr(1) xy(5-7) enc(2) fr(2) enc(3) fr(3)]
    by blast
  have "\<forall>(a, b) \<in> set acc. value_cmp x a = (Ok Greater :: (zerror, ordering) res)"
    using Cons.prems(3) by (auto simp: dict_sorted_def sorted_wrt_append kv)
  then have "dict_append (acc, signature.Dict ks vs) x y = Ok (acc @ [(x, y)], signature.Dict ks vs)"
    by (rule dict_append_last [OF _ xy(3,6)])
  moreover have "gv_map_loop E k' (gv_de_value N E n ks) (gv_de_value N E n vs) ad2 (acc @ [(x, y)], signature.Dict ks vs)
      (adv d (length ?p)) = Some (Ok ((acc @ [(x, y)]) @ es, signature.Dict ks vs),
        (adv (adv d (length ?p)) (length (concat ps') + l))\<lparr>de_depths := d0\<rparr>)"
    using Cons.prems k kv enc(5) fr(4) ad2 by (intro Cons.IH) (simp_all add: add.assoc)
  ultimately show ?case
    using k kv enc(4) e by (simp add: dbind_assoc dbind_Some lift_def add.assoc)
qed

end

end
