(* ===== verification/GVariant_Roundtrip.thy ===== *)
theory GVariant_Roundtrip
  imports GVariant_Read
begin

text \<open>
  Reading back the GVariant format: dictionaries and structures, and with them every value that the serializer wrote, as long
  as the framing offsets tell its elements apart. The last section shows on examples where they do not.
\<close>

section \<open>Dictionaries\<close>

lemma genc_Dict_split:
  assumes "genc E e d (Dict es (signature.Dict ks vs)) n = Ok bs"
  obtains d' ps t where "inc_array d = Ok d'"
    "genc_entries E e d' (alignment_gvariant (signature.Dict ks vs)) (is_fixed_sized ks) es
       (n + padding n (alignment_gvariant (signature.Dict ks vs))) = Ok ps"
    "frames_tail E (if is_fixed_sized ks \<and> is_fixed_sized vs then [] else ends 0 ps) (length (concat ps)) = Ok t"
    "bs = pad n (alignment_gvariant (signature.Dict ks vs)) @ concat ps @ t"
  using assms
  by (auto simp: map_ok_eq_Ok framed_body_def Let_def simp del: length_concat alignment_gvariant.simps split del: if_split)

context wire_laws
begin

text \<open>Entries take some bytes: a key of fixed size does, and any other key has an offset.\<close>

lemma genc_entries_nonempty:
  assumes "genc_entries E e d a (is_fixed_sized ks) es n = Ok ps" "\<forall>(k, v) \<in> set es. value_ok k \<and> value_signature k = ks"
  shows "ps = [] \<or> concat ps \<noteq> []"
proof (cases es)
  case (Cons kv es')
  obtain k v where kv: "kv = (k, v)" by (cases kv)
  obtain bk bv b ps' where b: "genc E e d k (n + padding n a) = Ok bk" "entry_bytes E (is_fixed_sized ks) bk bv = Ok b"
      "ps = (pad n a @ b) # ps'"
    using assms(1) by (auto simp: Cons kv map_ok_eq_Ok)
  have "b \<noteq> []"
  proof (cases "is_fixed_sized ks")
    case True
    then show ?thesis
      using genc_fixed_nonempty [OF _ _ b(1)] assms(2) b(2) by (auto simp: Cons kv entry_bytes_def)
  next
    case False
    have "write_offset E sz x \<noteq> []" for sz x
      using length_write_offset [of sz x] by (metis length_0_conv nat_less_le offset_bytes_pos)
    then show ?thesis
      using b(2) False by (auto simp: entry_bytes_def map_ok_eq_Ok)
  qed
  then show ?thesis
    using b(3) by simp
qed (use assms in simp)

lemma greads_Dict:
  assumes es: "\<forall>(k, v) \<in> set es. greads N E k \<and> value_ok k \<and> value_signature k = ks \<and> greads N E v \<and> value_signature v = vs"
    and "dict_sorted es"
  shows "greads N E (Dict es (signature.Dict ks vs))"
proof (rule greadsI)
  fix n d bs
  let ?s = "signature.Dict ks vs" let ?v = "Dict es ?s"
  assume h: "gfuel ?v \<le> Suc n" "de_sig d = value_signature ?v"
    "genc E (de_endian d) (de_depths d) ?v (de_abs_pos d) = Ok bs"
    "framed E (de_endian d) (de_depths d) ?v (de_abs_pos d)" "gahead d (value_signature ?v) bs"
  let ?a = "alignment_gvariant ?s" let ?fixed = "is_fixed_sized ks \<and> is_fixed_sized vs"
  obtain d' ps t where ps: "inc_array (de_depths d) = Ok d'"
      "genc_entries E (de_endian d) d' ?a (is_fixed_sized ks) es (de_abs_pos d + padding (de_abs_pos d) ?a) = Ok ps"
      "frames_tail E (if ?fixed then [] else ends 0 ps) (length (concat ps)) = Ok t"
      "bs = pad (de_abs_pos d) ?a @ concat ps @ t"
    using h(3) by (rule genc_Dict_split)
  let ?d = "adv d (padding (de_abs_pos d) ?a)"
  have up: "upcoming d (pad (de_abs_pos d) ?a)" "upcoming ?d (concat ps @ t)"
      "de_pos ?d + length (concat ps @ t) = length (de_bytes ?d)"
    using h(5) ps(4) by (simp_all add: gahead_def del: length_concat alignment_gvariant.simps)
  have some: "ps = [] \<or> concat ps \<noteq> []"
    using ps(2) es by (intro genc_entries_nonempty [where ks = ks and es = es]) auto
  have "es = [] \<or> list_all (\<lambda>(k, v). is_fixed_sized (value_signature k)) es = is_fixed_sized ks"
    using es by (cases es) (auto simp: list_all_iff)
  then have fr: "framed_entries E (de_endian d) d' ?a (is_fixed_sized ks) es (de_abs_pos d + padding (de_abs_pos d) ?a)"
    using h(4) ps(1) by (auto simp del: alignment_gvariant.simps)
  obtain ad where ad: "gv_array_de_new E ?d = Some (Ok ad, ?d\<lparr>de_depths := d'\<rparr>)"
      "array_at ad ?fixed ps (?d\<lparr>de_depths := d'\<rparr>)" "dict_access ad ks vs ?a (length t)"
    by (rule gv_array_new_read [where d = ?d and c = ks and fixed = ?fixed and d' = d' and ps = ps and t = t])
      (use h(2,5) ps up some in
        \<open>simp_all add: gahead_def dict_access_def del: length_concat alignment_gvariant.simps upcoming_append\<close>)
  have "gfuel k \<le> n \<and> gfuel v \<le> n" if "(k, v) \<in> set es" for k v
    using gfuel_entry [OF that] h(1) by simp
  then have el: "\<forall>(k, v) \<in> set es. greads N E k \<and> value_ok k \<and> value_signature k = ks \<and> gfuel k \<le> n \<and> greads N E v \<and>
      value_signature v = vs \<and> gfuel v \<le> n"
    using es by fast
  have "gv_map_loop E n (gv_de_value N E n ks) (gv_de_value N E n vs) ad ([], ?s) (?d\<lparr>de_depths := d'\<rparr>) =
      Some (Ok ([] @ es, ?s), (adv (?d\<lparr>de_depths := d'\<rparr>) (length (concat ps) + length t))\<lparr>de_depths := de_depths d\<rparr>)"
    using el h(1) ps(2) fr ad(2,3) dec_inc_depths(2) [OF ps(1)] assms(2)
    by (intro gv_map_loop_read [where a = ?a]) (simp_all del: alignment_gvariant.simps)
  moreover have "(adv (?d\<lparr>de_depths := d'\<rparr>) (length (concat ps) + length t))\<lparr>de_depths := de_depths d\<rparr> = adv d (length bs)"
    using ps(4) by (simp add: adv_def del: length_concat alignment_gvariant.simps)
  moreover have "gv_parse_padding d = Some (Ok (padding (de_abs_pos d) ?a), ?d)"
    using up(1) h(2) gv_parse_padding_read [of d] by simp
  ultimately show "gv_deserialize_any E (gv_seed N E n (gv_de_value N E n) (value_signature ?v)) d = Some (Ok ?v, adv d (length bs))"
    using h(2) ad(1)
    by (simp add: gv_deserialize_any_def gv_deserialize_seq_def gv_seed_def gv_seed_map_def dbind_Some dbind_assoc lift_def
        dict_new_full_signature_def del: length_concat alignment_gvariant.simps)
qed

end

section \<open>Structures\<close>

lemma subslice_Ok:
  "subslice bs s e = Ok xs \<Longrightarrow> e = s + length xs \<and> e \<le> length bs \<and> xs = take (e - s) (drop s bs)"
  by (auto simp: subslice_def split: if_splits)

lemma subslice_part:
  assumes "subslice bs s e = Ok (x @ y @ z)"
  shows "subslice bs (s + length x) (s + length x + length y) = Ok y"
proof -
  have e: "e = s + length (x @ y @ z)" "e \<le> length bs" "take (length (x @ y @ z)) (drop s bs) = x @ y @ z"
    using subslice_Ok [OF assms] by auto
  then obtain r where "drop s bs = x @ y @ z @ r"
    by (metis append.assoc append_take_drop_id)
  then show ?thesis
    using e(1,2) by (intro subslice_at) auto
qed

lemma subslice_rest: "p \<le> length bs \<Longrightarrow> subslice bs p (length bs) = Ok (drop p bs)"
  by (simp add: subslice_def)

lemma drop_eq_Cons: "drop i xs = y # ys \<Longrightarrow> i < length xs \<and> xs ! i = y \<and> drop (Suc i) xs = ys"
  by (cases "i < length xs") (simp_all add: Cons_nth_drop_Suc [symmetric])

text \<open>A structure accessor with some fields ahead of it, and behind them the offsets that are left.\<close>

definition struct_at ::
  "endi \<Rightarrow> gv_struct_de \<Rightarrow> signature list \<Rightarrow> byte list list \<Rightarrow> nat \<Rightarrow> byte list \<Rightarrow> byte list \<Rightarrow> de \<Rightarrow> bool" where
  "struct_at E sd ss ps l pre rest d \<longleftrightarrow>
     (let os = field_ends (length pre) (butlast ss) (butlast ps); sz = gs_offset_size sd in
      de_pos d = gs_start sd + length pre \<and>
      subslice (de_bytes d) (gs_start sd) (gs_end sd) = Ok (pre @ concat ps @ concat (map (write_offset E sz) os) @ rest) \<and>
      (list_all is_fixed_sized ss \<or> rest = []) \<and> gs_offsets_len sd + offset_bytes sz * length os = l \<and>
      (list_all is_fixed_sized (butlast ss) \<or> length (pre @ concat ps) \<le> offset_max sz) \<and> length (de_bytes d) < 2 ^ 64)"

context wire_laws
begin

lemma field_ends_fixed: "list_all is_fixed_sized ss \<Longrightarrow> field_ends n ss ps = []"
proof -
  assume "list_all is_fixed_sized ss"
  then have "filter (\<lambda>(s, _). \<not> is_fixed_sized s) (zip ss (ends n ps)) = []"
    by (auto simp: filter_empty_conv list_all_iff dest!: set_zip_leftD)
  then show ?thesis by (simp add: field_ends_def)
qed

lemma gv_field_end_read:
  assumes at: "struct_at E sd (s # ss) (p # ps) l pre rest d" "length ps = length ss"
    and sd: "gs_field_idx sd = gs_num_fields sd \<longleftrightarrow> ss = []"
  obtains e sd' r where "gv_field_end E s sd d = Ok (e, sd')" "subslice (de_bytes d) (de_pos d) e = Ok (p @ r)"
    "is_fixed_sized s \<or> r = []" "struct_at E sd' ss ps l (pre @ p) rest (adv d (length p))"
    "gs_field_idx sd' = gs_field_idx sd" "gs_num_fields sd' = gs_num_fields sd" "ss = [] \<Longrightarrow> gs_offsets_len sd' = l"
proof -
  let ?sz = "gs_offset_size sd"
  let ?w = "\<lambda>os. concat (map (write_offset E ?sz) os)"
  let ?os = "field_ends (length pre + length p) (butlast ss) (butlast ps)"
  have pos: "de_pos d = gs_start sd + length pre"
    using at(1) by (simp add: struct_at_def Let_def)
  show ?thesis
  proof (cases "is_fixed_sized s \<or> ss = []")
    case True
    have os: "field_ends (length pre) (butlast (s # ss)) (butlast (p # ps)) = ?os"
      using True at(2) by (cases ss; cases ps) (auto simp: field_ends_Cons)
    have sub: "subslice (de_bytes d) (gs_start sd) (gs_end sd) = Ok (pre @ (p @ concat ps @ ?w ?os @ rest) @ [])"
      using at(1) os by (simp add: struct_at_def Let_def)
    have e: "gv_field_end E s sd d = Ok (gs_end sd, sd)"
      using True sd by (auto simp: gv_field_end_def)
    have end_eq: "gs_end sd = de_pos d + length (p @ concat ps @ ?w ?os @ rest)"
      using subslice_Ok [OF sub] pos by simp
    have tail: "subslice (de_bytes d) (de_pos d) (gs_end sd) = Ok (p @ concat ps @ ?w ?os @ rest)"
      using subslice_part [OF sub] end_eq pos by simp
    have fixed: "is_fixed_sized s \<or> concat ps @ ?w ?os @ rest = []"
      using True at by (auto simp: struct_at_def Let_def)
    have "struct_at E sd ss ps l (pre @ p) rest (adv d (length p))"
      using at(1) os by (auto simp: struct_at_def Let_def simp del: length_concat) (auto simp: butlast.simps split: if_splits)
    moreover have "ss = [] \<Longrightarrow> gs_offsets_len sd = l"
      using at by (simp add: struct_at_def Let_def)
    ultimately show ?thesis
      using that [OF e tail fixed] by simp
  next
    case False
    have os: "field_ends (length pre) (butlast (s # ss)) (butlast (p # ps)) = ?os @ [length pre + length p]"
      using False at(2) by (cases ss; cases ps) (auto simp: field_ends_Cons)
    have rest: "rest = []" "length (pre @ concat (p # ps)) \<le> offset_max ?sz"
      using at(1) False by (auto simp: struct_at_def Let_def simp del: length_concat)
    let ?x = "write_offset E ?sz (length pre + length p)" let ?b = "pre @ p @ concat ps @ ?w ?os"
    have sub: "subslice (de_bytes d) (gs_start sd) (gs_end sd) = Ok (?b @ ?x)"
      using at(1) os rest(1) by (simp add: struct_at_def Let_def)
    have off: "read_last_offset_from_buffer E ?sz (?b @ ?x) = Ok (length pre + length p)"
      using rest(2) by (intro read_write_offset) simp
    have end_eq: "gs_end sd = gs_start sd + length ?b + offset_bytes ?sz"
      using subslice_Ok [OF sub] by simp
    let ?sd = "sd\<lparr>gs_end := gs_end sd - offset_bytes ?sz, gs_offsets_len := gs_offsets_len sd + offset_bytes ?sz\<rparr>"
    have e: "gv_field_end E s sd d = Ok (de_pos d + length p, ?sd)"
      using False sd sub off end_eq pos by (simp add: gv_field_end_def Let_def)
    have p: "subslice (de_bytes d) (de_pos d) (de_pos d + length p) = Ok (p @ [])"
      using subslice_part [where x = pre and y = p] sub pos by simp
    have sub': "subslice (de_bytes d) (gs_start sd) (gs_end ?sd) = Ok ?b"
      using subslice_part [where x = "[]" and y = ?b] sub end_eq by simp
    have "struct_at E ?sd ss ps l (pre @ p) rest (adv d (length p))"
      using at(1) os sub' rest False by (auto simp: struct_at_def Let_def simp del: length_concat)
    then show ?thesis
      using that [OF e p] False by simp
  qed
qed

lemma struct_at_idx [simp]: "struct_at E (sd\<lparr>gs_field_idx := i\<rparr>) ss ps l pre rest d = struct_at E sd ss ps l pre rest d"
  by (simp add: struct_at_def Let_def)

lemma gv_struct_next_read:
  assumes at: "struct_at E sd (s # ss) (p # ps) l pre rest d" "length ps = length ss"
    and sd: "de_sig d = signature.Structure flds" "drop (gs_field_idx sd) flds = s # ss" "gs_num_fields sd = length flds"
    and f: "greads N E f" "value_signature f = s" "gfuel f \<le> n" "genc E (de_endian d) (de_depths d) f (de_abs_pos d) = Ok p"
      "framed E (de_endian d) (de_depths d) f (de_abs_pos d)" "dec_structure (de_depths d) = Ok dz"
  obtains sd' where "gv_struct_next E sd (gv_de_value N E n s) d =
      Some (Ok (Some f, sd'), if ss = [] then (adv d (length p + l))\<lparr>de_depths := dz\<rparr> else adv d (length p))"
    "struct_at E sd' ss ps l (pre @ p) rest (adv d (length p))" "gs_field_idx sd' = Suc (gs_field_idx sd)"
    "gs_num_fields sd' = gs_num_fields sd"
proof -
  let ?i = "gs_field_idx sd" let ?sd = "sd\<lparr>gs_field_idx := Suc ?i\<rparr>"
  have i: "?i < length flds" "flds ! ?i = s" "drop (Suc ?i) flds = ss"
    using drop_eq_Cons [OF sd(2)] by simp_all
  have idx: "Suc ?i = length flds \<longleftrightarrow> ss = []"
    using i by auto
  have at': "struct_at E ?sd (s # ss) (p # ps) l pre rest d" "gs_field_idx ?sd = gs_num_fields ?sd \<longleftrightarrow> ss = []"
    using at(1) idx sd(3) by simp_all
  obtain e sd' r where e: "gv_field_end E s ?sd d = Ok (e, sd')" "subslice (de_bytes d) (de_pos d) e = Ok (p @ r)"
      "is_fixed_sized s \<or> r = []" "struct_at E sd' ss ps l (pre @ p) rest (adv d (length p))"
      "gs_field_idx sd' = Suc ?i" "gs_num_fields sd' = gs_num_fields sd" "ss = [] \<Longrightarrow> gs_offsets_len sd' = l"
    by (rule gv_field_end_read [OF at'(1) at(2) at'(2)]) simp
  have "length (p @ r) < 2 ^ 64"
    using subslice_Ok [OF e(2)] at(1) by (auto simp: struct_at_def Let_def)
  then have "gv_de_value N E n s (gv_sub s (p @ r) (de_depths d) d) =
      Some (Ok f, adv (gv_sub s (p @ r) (de_depths d) d) (length p))"
    using f e(3) by (intro greads_part [where r = r]) auto
  then have run: "gv_run s (p @ r) (gv_de_value N E n s) d = Some (Ok (Ok f), adv d (length p))"
    by (rule gv_run_read)
  have "gv_struct_next E sd (gv_de_value N E n s) d =
      Some (Ok (Some f, sd'), if ss = [] then (adv d (length p + l))\<lparr>de_depths := dz\<rparr> else adv d (length p))"
    using e run i idx sd f(6)
    by (auto simp: gv_struct_next_def dbind_Some dbind_assoc lift_def set_depths_def adv_def Let_def)
  then show ?thesis
    using that e(4-6) by blast
qed

lemma gv_struct_loop_read:
  assumes "\<forall>f \<in> set fs. greads N E f \<and> gfuel f \<le> n" "fs \<noteq> []"
    "de_sig d = signature.Structure flds" "drop (gs_field_idx sd) flds = map value_signature fs" "gs_num_fields sd = length flds"
    "genc_all E (de_endian d) (de_depths d) fs (de_abs_pos d) = Ok ps"
    "framed_all E (de_endian d) (de_depths d) fs (de_abs_pos d)"
    "struct_at E sd (map value_signature fs) ps l pre rest d" "dec_structure (de_depths d) = Ok dz"
  shows "gv_struct_loop N E (gv_de_value N E n) (map value_signature fs) (GStruct_Access sd) b d =
    Some (Ok (b @ fs), (adv d (length (concat ps) + l))\<lparr>de_depths := dz\<rparr>)"
  using assms
proof (induction fs arbitrary: d sd ps pre b)
  case (Cons f fs)
  let ?s = "value_signature f" let ?ss = "map value_signature fs"
  obtain p ps' where p: "genc E (de_endian d) (de_depths d) f (de_abs_pos d) = Ok p" "ps = p # ps'"
      "genc_all E (de_endian d) (de_depths d) fs (de_abs_pos d + length p) = Ok ps'"
    using Cons.prems(6) by (auto simp: map_ok_eq_Ok)
  have fr: "framed E (de_endian d) (de_depths d) f (de_abs_pos d)"
      "framed_all E (de_endian d) (de_depths d) fs (de_abs_pos d + length p)"
    using Cons.prems(7) p by simp_all
  obtain sd' where sd': "gv_struct_next E sd (gv_de_value N E n ?s) d =
      Some (Ok (Some f, sd'), if ?ss = [] then (adv d (length p + l))\<lparr>de_depths := dz\<rparr> else adv d (length p))"
      "struct_at E sd' ?ss ps' l (pre @ p) rest (adv d (length p))" "gs_field_idx sd' = Suc (gs_field_idx sd)"
      "gs_num_fields sd' = gs_num_fields sd"
    by (rule gv_struct_next_read [where s = ?s and ss = ?ss and ps = ps' and f = f and n = n and dz = dz])
      (use Cons.prems p fr genc_all_length [OF p(3)] in auto)
  have "drop (gs_field_idx sd') flds = ?ss"
    using Cons.prems(4) sd'(3) drop_eq_Cons [of "gs_field_idx sd" flds] by simp
  then have "gv_struct_loop N E (gv_de_value N E n) ?ss (GStruct_Access sd') (b @ [f]) (adv d (length p)) =
      Some (Ok ((b @ [f]) @ fs), (adv (adv d (length p)) (length (concat ps') + l))\<lparr>de_depths := dz\<rparr>)" if "fs \<noteq> []"
    using that Cons.prems p(3) fr(2) sd' by (intro Cons.IH [of _ sd' ps' "pre @ p"]) simp_all
  moreover have "ps' = []" if "fs = []"
    using p(3) that by simp
  ultimately show ?case
    using sd'(1) p(2) Cons.prems
    by (cases "fs = []") (simp_all add: gv_next_element_seed_def dbind_Some dbind_assoc lift_def append_field_def add.assoc)
qed simp

end

text \<open>The offsets behind a structure are those of all its fields but the last.\<close>

lemma ends_append: "ends n (ps @ qs) = ends n ps @ ends (n + length (concat ps)) qs"
  by (induction ps arbitrary: n) (simp_all add: add.assoc)

lemma field_ends_snoc:
  "length ps = length ss \<Longrightarrow> field_ends n (ss @ [s]) (ps @ [p]) =
     (if is_fixed_sized s then [] else [n + length (concat ps) + length p]) @ field_ends n ss ps"
  by (simp add: field_ends_def ends_append)

lemma field_ends_le: "x \<in> set (field_ends n ss ps) \<Longrightarrow> x \<le> n + length (concat ps)"
  using ends_le [of x n ps] by (auto simp: field_ends_def dest: set_zip_rightD)

lemma field_ends_eq_Nil:
  "length ps = length ss \<Longrightarrow> field_ends n ss ps = [] \<longleftrightarrow> list_all is_fixed_sized ss"
proof (induction ss arbitrary: n ps)
  case (Cons s ss)
  then obtain p qs where "ps = p # qs" by (cases ps) auto
  with Cons show ?case by (auto simp: field_ends_Cons)
qed simp

lemma own_end_dropped:
  assumes "length ps = length ss" "ss \<noteq> []" "is_fixed_sized (last ss) \<Longrightarrow> last ps \<noteq> []"
  shows "drop_own_end (length (concat ps)) (field_ends 0 ss ps) = field_ends 0 (butlast ss) (butlast ps)"
proof -
  define ss' ps' s p where defs: "ss' = butlast ss" "ps' = butlast ps" "s = last ss" "p = last ps"
  have "ps \<noteq> []"
    using assms(1,2) by auto
  then have eq: "ss = ss' @ [s]" "ps = ps' @ [p]" "length ps' = length ss'"
    using assms(1,2) append_butlast_last_id [of ps] by (auto simp: defs)
  show ?thesis
  proof (cases "is_fixed_sized s")
    case True
    then have "0 < length p"
      using assms(3) by (simp add: eq)
    then have "x \<noteq> length (concat ps)" if "x \<in> set (field_ends 0 ss' ps')" for x
      using field_ends_le [OF that] by (simp add: eq del: length_concat length_greater_0_conv)
    then show ?thesis
      using True eq by (auto simp: field_ends_snoc drop_own_end_def split: list.splits)
  next
    case False
    then show ?thesis
      using eq by (simp add: field_ends_snoc drop_own_end_def del: length_concat)
  qed
qed

context wire_laws
begin

lemma genc_all_last:
  "genc_all E e d fs n = Ok ps \<Longrightarrow> fs \<noteq> [] \<Longrightarrow> \<exists>m. genc E e d (last fs) m = Ok (last ps)"
proof (induction fs arbitrary: n ps)
  case (Cons f fs)
  then obtain p qs where p: "genc E e d f n = Ok p" "genc_all E e d fs (n + length p) = Ok qs" "ps = p # qs"
    by (auto simp: map_ok_eq_Ok)
  show ?case
    using Cons.IH [OF p(2)] p genc_all_length [OF p(2)] by (cases "fs = []") auto
qed simp

lemma genc_Structure_split:
  assumes "genc E e d (Structure fs s) n = Ok bs" "fs \<noteq> []" "\<forall>f \<in> set fs. value_ok f"
  obtains d' ps t where "inc_structure d = Ok d'" "genc_all E e d' fs (n + padding n (alignment_gvariant s)) = Ok ps"
    "frames_tail E (field_ends 0 (butlast (map value_signature fs)) (butlast ps)) (length (concat ps)) = Ok t"
    "bs = pad n (alignment_gvariant s) @ concat ps @ t"
proof -
  obtain d' ps t where ps: "inc_structure d = Ok d'" "genc_all E e d' fs (n + padding n (alignment_gvariant s)) = Ok ps"
    "frames_tail E (drop_own_end (length (concat ps)) (field_ends 0 (map value_signature fs) ps)) (length (concat ps)) = Ok t"
    "bs = pad n (alignment_gvariant s) @ concat ps @ t"
    using assms(1) by (auto simp: map_ok_eq_Ok framed_body_def Let_def simp del: length_concat)
  obtain m where "genc E e d' (last fs) m = Ok (last ps)"
    using genc_all_last [OF ps(2) assms(2)] by blast
  then have "last ps \<noteq> []" if "is_fixed_sized (last (map value_signature fs))"
    using that assms(2,3) genc_fixed_nonempty [of "last fs"] by (simp add: last_map)
  then have "drop_own_end (length (concat ps)) (field_ends 0 (map value_signature fs) ps) =
      field_ends 0 (butlast (map value_signature fs)) (butlast ps)"
    using assms(2) genc_all_length [OF ps(2)] by (intro own_end_dropped) auto
  then show ?thesis
    using that ps by simp
qed

text \<open>The size of the offsets that the reader finds is the one that the writer chose, if there are any.\<close>

lemma struct_offset_size:
  assumes t: "frames_tail E os (length body) = Ok t" and "os = [] \<or> body \<noteq> []" "os = [] \<or> r = []"
    "length (body @ t @ r) < 2 ^ 64"
  obtains sz where "for_encoded_container (length (body @ t @ r)) = Ok sz" "t = concat (map (write_offset E sz) os)"
    "os = [] \<or> length body \<le> offset_max sz"
proof (cases "os = []")
  case True
  with t have "t = []" by (simp add: frames_tail_def)
  with True that for_encoded_container_bound [OF assms(4)] show ?thesis by auto
next
  case False
  then obtain sz where sz: "for_bare_container (length body) (length os) = Ok sz" "t = concat (map (write_offset E sz) os)"
    using t assms(2) by (auto simp: frames_tail_def map_ok_eq_Ok split: if_splits)
  show ?thesis
    by (rule that [of sz]) (use for_bare_container_Ok [OF sz(1)] sz(2) assms(3) False in \<open>simp_all add: mult.commute\<close>)
qed

lemma greads_Structure:
  assumes fs: "\<forall>f \<in> set fs. greads N E f \<and> value_ok f" "fs \<noteq> []"
  shows "greads N E (Structure fs (signature.Structure (map value_signature fs)))"
proof (rule greadsI)
  fix n d bs
  let ?ss = "map value_signature fs" let ?s = "signature.Structure ?ss" let ?v = "Structure fs ?s"
  assume h: "gfuel ?v \<le> Suc n" "de_sig d = value_signature ?v"
    "genc E (de_endian d) (de_depths d) ?v (de_abs_pos d) = Ok bs"
    "framed E (de_endian d) (de_depths d) ?v (de_abs_pos d)" "gahead d (value_signature ?v) bs"
  let ?a = "alignment_gvariant ?s"
  obtain d' ps t where ps: "inc_structure (de_depths d) = Ok d'"
      "genc_all E (de_endian d) d' fs (de_abs_pos d + padding (de_abs_pos d) ?a) = Ok ps"
      "frames_tail E (field_ends 0 (butlast ?ss) (butlast ps)) (length (concat ps)) = Ok t"
      "bs = pad (de_abs_pos d) ?a @ concat ps @ t"
    using h(3) fs by (elim genc_Structure_split) auto
  let ?d = "adv d (padding (de_abs_pos d) ?a)" let ?os = "field_ends 0 (butlast ?ss) (butlast ps)"
  have len: "length (butlast ps) = length (butlast ?ss)"
    using genc_all_length [OF ps(2)] by simp
  have up: "upcoming d (pad (de_abs_pos d) ?a)" "upcoming ?d (concat ps @ t)"
    using h(5) ps(4) by (simp_all add: gahead_def del: length_concat alignment_gvariant.simps)
  have nil: "?os = [] \<longleftrightarrow> list_all is_fixed_sized (butlast ?ss)"
    using len by (rule field_ends_eq_Nil)
  have fr: "framed_all E (de_endian d) d' fs (de_abs_pos d + padding (de_abs_pos d) ?a)" "?os = [] \<or> concat ps \<noteq> []"
    using h(4) ps(1,2) nil
    by (auto simp: Let_def list_all_iff map_butlast [symmetric] simp del: alignment_gvariant.simps concat_eq_Nil_conv)
  obtain r where r: "drop (de_pos ?d) (de_bytes ?d) = concat ps @ t @ r"
    using up(2) by (auto simp: upcoming_def prefix_def simp del: upcoming_append)
  have "length r = 0" if "\<not> list_all is_fixed_sized ?ss"
  proof -
    have "de_pos ?d + length (concat ps @ t) = length (de_bytes ?d)"
      using that h(5) ps(4) by (simp add: gahead_def del: length_concat alignment_gvariant.simps)
    then show ?thesis
      using arg_cong [OF r, of length] by (simp del: length_concat alignment_gvariant.simps length_0_conv)
  qed
  then have all: "list_all is_fixed_sized ?ss \<or> r = []"
    by blast
  have "list_all is_fixed_sized (butlast ?ss)" if "list_all is_fixed_sized ?ss"
    using that by (auto simp: list_all_iff dest!: in_set_butlastD)
  then have one: "?os = [] \<or> r = []"
    using all nil by blast
  have lim: "length (concat ps @ t @ r) < 2 ^ 64" "length (de_bytes ?d) - de_pos ?d = length (concat ps @ t @ r)"
      "length (de_bytes d) < 2 ^ 64" "de_pos ?d \<le> length (de_bytes ?d)"
    using h(5) r up(2) length_drop [of "de_pos ?d" "de_bytes ?d"]
    by (auto simp: gahead_def upcoming_def simp del: length_concat upcoming_append alignment_gvariant.simps)
  obtain sz where sz: "for_encoded_container (length (concat ps @ t @ r)) = Ok sz" "t = concat (map (write_offset E sz) ?os)"
      "?os = [] \<or> length (concat ps) \<le> offset_max sz"
    using struct_offset_size [OF ps(3) fr(2) one lim(1)] .
  let ?sd = "\<lparr>gs_start = de_pos ?d, gs_end = length (de_bytes ?d), gs_field_idx = 0, gs_num_fields = length ?ss,
      gs_offsets_len = 0, gs_offset_size = sz\<rparr>"
  have "subslice (de_bytes ?d) (de_pos ?d) (length (de_bytes ?d)) = Ok (concat ps @ t @ r)"
    using subslice_rest [OF lim(4)] r by (simp only:)
  then have at: "struct_at E ?sd ?ss ps (length t) [] r (?d\<lparr>de_depths := d'\<rparr>)"
    using sz(2,3) all nil lim(3) by (auto simp: struct_at_def Let_def)
  have "gv_struct_loop N E (gv_de_value N E n) ?ss (GStruct_Access ?sd) [] (?d\<lparr>de_depths := d'\<rparr>) =
      Some (Ok ([] @ fs), (adv (?d\<lparr>de_depths := d'\<rparr>) (length (concat ps) + length t))\<lparr>de_depths := de_depths d\<rparr>)"
    using fs h(1,2) ps(2) fr(1) at dec_inc_depths(1) [OF ps(1)] gfuel_element
    by (intro gv_struct_loop_read [where pre = "[]" and rest = r and flds = ?ss]) (fastforce simp del: alignment_gvariant.simps)+
  moreover have "(adv (?d\<lparr>de_depths := d'\<rparr>) (length (concat ps) + length t))\<lparr>de_depths := de_depths d\<rparr> = adv d (length bs)"
    using ps(4) by (simp add: adv_def del: length_concat alignment_gvariant.simps)
  moreover have "gv_parse_padding d = Some (Ok (padding (de_abs_pos d) ?a), ?d)" "gv_parse_padding ?d = Some (Ok 0, ?d)"
    using up(1) h(2) gv_parse_padding_read [of d] gv_parse_padding_none [of ?d] by (simp_all del: alignment_gvariant.simps)
  moreover have "gv_struct_de_new ?d = Some (Ok ?sd, ?d\<lparr>de_depths := d'\<rparr>)"
    using calculation(4) h(2) ps(1) sz(1) lim(2)
    by (simp add: gv_struct_de_new_def dbind_Some set_depths_def lift_def del: length_concat alignment_gvariant.simps)
  ultimately show "gv_deserialize_any E (gv_seed N E n (gv_de_value N E n) (value_signature ?v)) d = Some (Ok ?v, adv d (length bs))"
    using h(2)
    by (simp add: gv_deserialize_any_def gv_deserialize_seq_def gv_seed_def gv_seed_seq_def dbind_Some dbind_assoc lift_def
        build_with_signature_def del: length_concat alignment_gvariant.simps)
qed

section \<open>The round trip\<close>

lemma greadable_greads: "value_ok v \<Longrightarrow> gplain v \<Longrightarrow> greadable v \<Longrightarrow> greads N E v"
proof (induction v)
  case (Array es s)
  then obtain c where "s = signature.Array c" by auto
  with Array show ?case by (auto simp: list_all_iff intro!: greads_Array)
next
  case (Dict m s)
  then obtain ks vs where s: "s = signature.Dict ks vs" by auto
  have "greads N E k \<and> value_ok k \<and> value_signature k = ks \<and> greads N E v \<and> value_signature v = vs"
    if "(k, v) \<in> set m" for k v
    using Dict.prems that Dict.IH(1) [OF that] Dict.IH(2) [OF that] s by (fastforce simp: list_all_iff)
  then show ?case
    unfolding s using Dict.prems by (intro greads_Dict) auto
next
  case (Structure fs s)
  then have "greads N E (Structure fs (signature.Structure (map value_signature fs)))"
    by (intro greads_Structure) (auto simp: list_all_iff)
  with Structure.prems show ?case by simp
next
  case (Maybe x s)
  then obtain c where "s = signature.Maybe c" by auto
  with Maybe show ?case by (cases x) (auto intro!: greads_Maybe)
qed (use greads_basic greads_strings greads_Value in \<open>simp_all del: greadable.simps(6-)\<close>)

lemma gv_roundtrip:
  assumes v: "value_ok v" "gplain v" "greadable v" "sig_wf (value_signature v)" "gfuel v \<le> n"
    and "framed E (c_endian c) no_depths (Value v) (c_position c)" "gv_to_bytes N E D c v = Ok dat"
      "length (data_bytes dat) < 2 ^ 64"
  shows "gv_data_deserialize N E n dat = Some (Ok (v, length (data_bytes dat)))"
proof -
  obtain bs where bs: "genc E (c_endian c) no_depths (Value v) (c_position c) = Ok bs" "dat = new_fds bs c []"
    using assms(7) gv_to_bytes_enc [OF v(1,2,4)] by (auto simp: map_ok_eq_Ok simp del: genc.simps)
  let ?d = "new_deserializer bs (Some []) signature.Variant c"
  have d: "de_sig ?d = signature.Variant" "de_endian ?d = c_endian c" "de_abs_pos ?d = c_position c" "de_depths ?d = no_depths"
      "gahead ?d signature.Variant bs"
    using bs(2) assms(8)
    by (simp_all add: new_deserializer_def de_endian_def de_abs_pos_def gahead_def upcoming_def new_fds_def data_bytes_def)
  obtain d1 k where "gv_parse_padding ?d = Some (Ok k, d1)" "de_sig d1 = signature.Variant"
      "dbind gv_value_de_new (\<lambda>w. gv_visitor_seq N E (gv_de_value N E n) (GValue_Access w)) d1 = Some (Ok v, adv ?d (length bs))"
    by (rule gv_seq_variant_read [OF greadable_greads [OF v(1-3)] v(5,4) d(1) _ _ d(5)])
      (use d(2-4) assms(6) bs(1) in \<open>simp_all del: genc.simps framed.simps\<close>)
  then have "gv_deserialize_value N E n ?d = Some (Ok v, adv ?d (length bs))"
    using d(1) by (simp add: gv_deserialize_value_def gv_deserialize_any_def gv_deserialize_seq_def gv_value_visitor_def dbind_Some)
  then show ?thesis
    using bs(2)
    by (simp add: gv_data_deserialize_def deserialize_for_signature_def new_fds_def data_bytes_def new_deserializer_def)
qed

end

section \<open>Values that do not come back\<close>

text \<open>Where the offset of a key has another size for the writer, which leaves it out of the length, than for the reader.\<close>

lemma key_framed_iff:
  assumes "n + 8 < 2 ^ 64" "length k + length v = n"
  shows "key_framed False k v \<longleftrightarrow> n \<notin> {255, 65534, 65535} \<union> {2 ^ 32 - 4..2 ^ 32 - 1}"
  using assms by (auto simp: key_framed_def for_encoded_container_def for_bare_container_eq)

definition empty_ay :: zvalue where
  "empty_ay = Array [] (signature.Array signature.U8)"

text \<open>Arrays of empty arrays are all written the same.\<close>

lemma genc_empty_ay: "genc E e d empty_ay n = map_ok (\<lambda>_. []) (inc_array d)"
  by (cases "inc_array d") (simp_all add: empty_ay_def framed_body_def frames_tail_def pad_def)

lemma genc_all_empty_ay:
  "inc_array d = Ok d' \<Longrightarrow> genc_all E e d (replicate k empty_ay) n = Ok (replicate k [])"
  by (induction k) (simp_all add: genc_empty_ay map_ok_def)

lemma genc_empties:
  assumes "inc_array d = Ok d1" "inc_array d1 = Ok d2"
  shows "genc E e d (Array (replicate k empty_ay) (signature.Array (signature.Array signature.U8))) n = Ok []"
  using assms by (simp add: genc_all_empty_ay [OF assms(2)] framed_body_def frames_tail_def pad_def)

lemma no_depths_inc: "\<exists>d1 d2 d3. inc_variant no_depths = Ok d1 \<and> inc_array d1 = Ok d2 \<and> inc_array d2 = Ok d3"
  by (simp add: inc_variant_def inc_array_def depth_defs no_depths_def)

abbreviation pair_sig :: signature where
  "pair_sig \<equiv> signature.Structure [signature.Array signature.U8, signature.Array signature.U8]"

text \<open>A dictionary whose second entry ends before the first one does.\<close>

definition peer_dict :: "byte list" where
  "peer_dict = map byte_of [97, 0, 0, 2, 0, 0, 4, 2, 6]"

abbreviation peer_at :: "ctx \<Rightarrow> nat \<Rightarrow> depths \<Rightarrow> de" where
  "peer_at c p dep \<equiv> \<lparr>de_ctxt = c, de_bytes = peer_dict, de_fds = Some [], de_pos = p,
     de_sig = signature.Dict signature.Str signature.Str, de_depths = dep\<rparr>"

abbreviation peer_access :: "nat list \<Rightarrow> gv_array_de" where
  "peer_access os \<equiv> \<lparr>ga_len = 6, ga_start = 0, ga_element_alignment = Suc 0, ga_child_signature = signature.Str,
     ga_value_signature = Some signature.Str, ga_offsets = Some os, ga_offsets_len = 3, ga_key_offset_size = Some Off8\<rparr>"

context wire_laws
begin

lemma empties_written:
  "gv_to_bytes N E D c (Array (replicate k empty_ay) (signature.Array (signature.Array signature.U8))) =
     Ok (new_fds (pad (c_position c) 8 @ [byte_of 0] @ ''aay'') c [])"
proof -
  let ?v = "Array (replicate k empty_ay) (signature.Array (signature.Array signature.U8))"
  have ok: "value_ok ?v" "gplain ?v" "sig_wf (value_signature ?v)"
    by (simp_all add: empty_ay_def list_all_iff)
  obtain d1 d2 d3 where d: "inc_variant no_depths = Ok d1" "inc_array d1 = Ok d2" "inc_array d2 = Ok d3"
    using no_depths_inc by auto
  have "genc E (c_endian c) no_depths (Value ?v) (c_position c) = Ok (pad (c_position c) 8 @ [byte_of 0] @ ''aay'')"
    by (subst genc.simps) (simp add: d(1) genc_empties [OF d(2,3)] map_ok_def to_string_def del: genc.simps)
  then show ?thesis
    using gv_to_bytes_enc [OF ok] by (simp del: genc.simps)
qed

text \<open>A deserializer on the payload of a variant with some data at an aligned position.\<close>

lemma gv_data_of:
  assumes "padding (c_position c) 8 = 0" "sig_wf s" "inc_variant no_depths = Ok dep"
    "gv_de_value N E n s \<lparr>de_ctxt = c, de_bytes = b, de_fds = Some [], de_pos = 0, de_sig = s, de_depths = dep\<rparr> = Some (r, dd)"
  shows "gv_data_deserialize N E n (new_fds (b @ [byte_of 0] @ to_string s) c []) =
    Some (map_ok (\<lambda>v. (v, length b + 1 + length (to_string s))) r)"
proof -
  let ?d = "new_deserializer (b @ [byte_of 0] @ to_string s) (Some []) signature.Variant c"
  have "gv_parse_padding ?d = Some (Ok 0, ?d)"
    using assms(1) by (intro gv_parse_padding_none) (simp add: new_deserializer_def de_abs_pos_def)
  moreover have "dbind gv_value_de_new (\<lambda>w. gv_visitor_seq N E (gv_de_value N E n) (GValue_Access w)) ?d =
      Some (r, ?d\<lparr>de_pos := length (de_bytes ?d)\<rparr>)"
    using assms
    by (intro gv_variant_of [where s = s and b = b and d' = dep and dd = dd])
      (simp_all add: new_deserializer_def de_abs_pos_def gv_sub_def)
  ultimately have "gv_deserialize_value N E n ?d = Some (r, ?d\<lparr>de_pos := length (de_bytes ?d)\<rparr>)"
    by (simp add: gv_deserialize_value_def gv_deserialize_any_def gv_deserialize_seq_def gv_value_visitor_def dbind_Some
        new_deserializer_def)
  then show ?thesis
    by (cases r) (simp_all add: gv_data_deserialize_def deserialize_for_signature_def new_fds_def data_bytes_def
        new_deserializer_def)
qed

text \<open>A structure of two empty arrays is written without any bytes, in which the reader looks for an offset.\<close>

lemma pair_read:
  assumes "inc_structure dep = Ok dep'"
  shows "\<exists>dd. gv_de_value N E (Suc n) pair_sig
      \<lparr>de_ctxt = c, de_bytes = [], de_fds = Some [], de_pos = 0, de_sig = pair_sig, de_depths = dep\<rparr> =
    Some (Err (Message (Invalid_length 1)), dd)"
  using assms
  by (simp add: gv_deserialize_any_def gv_deserialize_seq_def gv_seed_def gv_seed_seq_def gv_parse_padding_none
      gv_struct_de_new_def for_encoded_container_def for_bare_container_eq dbind_Some dbind_assoc lift_def set_depths_def
      gv_next_element_seed_def gv_struct_next_def gv_field_end_def subslice_def read_last_offset_from_buffer_def dbind_fails Let_def)

lemma pair_written:
  assumes "padding (c_position c) 8 = 0"
  shows "gv_to_bytes N E D c (Structure [empty_ay, empty_ay] pair_sig) = Ok (new_fds ([byte_of 0] @ to_string pair_sig) c [])"
proof -
  let ?v = "Structure [empty_ay, empty_ay] pair_sig"
  have ok: "value_ok ?v" "gplain ?v" "sig_wf (value_signature ?v)"
    by (simp_all add: empty_ay_def)
  have "genc E (c_endian c) no_depths (Value ?v) (c_position c) = Ok ([byte_of 0] @ to_string pair_sig)"
    using assms
    by (simp add: empty_ay_def framed_body_def frames_tail_def inc_variant_def inc_structure_def inc_array_def depth_defs
        no_depths_def map_ok_def cong: bind_res_weak_cong)
  then show ?thesis
    using gv_to_bytes_enc [OF ok] by (simp del: genc.simps)
qed

lemma pair_unreadable:
  assumes "padding (c_position c) 8 = 0"
  shows "gv_data_deserialize N E (Suc n) (new_fds ([byte_of 0] @ to_string pair_sig) c []) =
    Some (Err (Message (Invalid_length 1)))"
proof -
  obtain dep dep' where d: "inc_variant no_depths = Ok dep" "inc_structure dep = Ok dep'"
    by (simp add: inc_variant_def inc_structure_def depth_defs no_depths_def)
  obtain dd where "gv_de_value N E (Suc n) pair_sig
      \<lparr>de_ctxt = c, de_bytes = [], de_fds = Some [], de_pos = 0, de_sig = pair_sig, de_depths = dep\<rparr> =
    Some (Err (Message (Invalid_length 1)), dd)"
    using pair_read [OF d(2)] by blast
  then show ?thesis
    using gv_data_of [OF assms _ d(1), of pair_sig "Suc n" "[]" "Err (Message (Invalid_length 1))" dd] by simp
qed

lemma peer_dict_offsets: "from_encoded_array E peer_dict = Ok ([4, 2, 6], 3)"
proof -
  have "write_offset E Off8 n = [byte_of n]" if "n < 256" for n
    using that by (simp add: write_offset_def)
  then have "peer_dict = map byte_of [97, 0, 0, 2, 0, 0] @ concat (map (write_offset E Off8) [4, 2, 6])"
    by (simp add: peer_dict_def)
  then show ?thesis
    using from_encoded_array_read [of "[4, 2, 6]" "map byte_of [97, 0, 0, 2, 0, 0]" Off8]
    by (simp add: for_bare_container_eq)
qed

lemma a_bytes: "byte_of 97 = CHR ''a''" "byte_of 0 \<noteq> CHR ''a''"
  by code_simp+

lemma peer_str:
  assumes "s = [] \<or> s = ''a''"
  shows "gv_de_value N E (Suc n) signature.Str (gv_sub signature.Str (s @ [byte_of 0]) dep d) =
    Some (Ok (Str s), (gv_sub signature.Str (s @ [byte_of 0]) dep d)\<lparr>de_pos := length s + 1\<rparr>)"
proof -
  have "gv_deserialize_str (gv_sub signature.Str (s @ [byte_of 0]) dep d) =
      Some (Ok s, adv (gv_sub signature.Str (s @ [byte_of 0]) dep d) (Suc (length s)))"
    using assms by (intro gv_str_read) (auto simp: upcoming_def a_bytes)
  then show ?thesis
    by (simp add: gv_deserialize_any_def gv_seed_def value_seed_str_def dbind_Some lift_def adv_def)
qed

lemma peer_entries:
  "gv_next_key E (peer_access [4, 2, 6]) (gv_de_value N E (Suc n) signature.Str) (peer_at c 0 dep) =
     Some (Ok (Some (Str ''a''), peer_access [4, 2, 6]), peer_at c 2 dep)"
  "gv_next_value (peer_access [4, 2, 6]) (gv_de_value N E (Suc n) signature.Str) (peer_at c 2 dep) =
     Some (Ok (Str [], peer_access [2, 6]), peer_at c 4 dep)"
  "gv_next_key E (peer_access [2, 6]) (gv_de_value N E (Suc n) signature.Str) (peer_at c 4 dep) = Some (Panic, peer_at c 4 dep)"
proof -
  note next_defs = gv_done_def element_end_def offsets_pop_def offsets_peek_def subslice_def gv_run_def moved_def gv_within_def
    lift_def dbind_Some dbind_assoc dbind_fails parse_padding_aligned for_encoded_container_def for_bare_container_eq
    read_last_offset_from_buffer_def
  have a: "map byte_of [97, 0] = ''a'' @ [byte_of 0]" "map byte_of [0] = [] @ [byte_of 0]"
    by (simp_all add: a_bytes)
  show "gv_next_key E (peer_access [4, 2, 6]) (gv_de_value N E (Suc n) signature.Str) (peer_at c 0 dep) =
     Some (Ok (Some (Str ''a''), peer_access [4, 2, 6]), peer_at c 2 dep)"
    using peer_str [of "''a''" n dep "peer_at c 0 dep"] a(1)
    by (simp add: gv_next_key_def next_defs peer_dict_def del: gv_de_value.simps)
  show "gv_next_value (peer_access [4, 2, 6]) (gv_de_value N E (Suc n) signature.Str) (peer_at c 2 dep) =
     Some (Ok (Str [], peer_access [2, 6]), peer_at c 4 dep)"
    using peer_str [of "[]" n dep "peer_at c 2 dep"] a(2)
    by (simp add: gv_next_value_def next_defs peer_dict_def del: gv_de_value.simps)
  show "gv_next_key E (peer_access [2, 6]) (gv_de_value N E (Suc n) signature.Str) (peer_at c 4 dep) = Some (Panic, peer_at c 4 dep)"
    by (simp add: gv_next_key_def next_defs peer_dict_def del: gv_de_value.simps)
qed

lemma peer_dict_panics:
  assumes "padding (c_position c) 8 = 0"
  shows "gv_data_deserialize N E (Suc (Suc (Suc n)))
      (new_fds (peer_dict @ [byte_of 0] @ to_string (signature.Dict signature.Str signature.Str)) c []) = Some Panic"
proof -
  let ?s = "signature.Dict signature.Str signature.Str" let ?n = "Suc (Suc n)"
  obtain dep dep' where d: "inc_variant no_depths = Ok dep" "inc_array dep = Ok dep'"
    by (simp add: inc_variant_def inc_array_def depth_defs no_depths_def)
  have pad: "gv_parse_padding (peer_at c 0 x) = Some (Ok 0, peer_at c 0 x)" for x
    by (rule gv_parse_padding_none) simp
  have new: "gv_array_de_new E (peer_at c 0 dep) = Some (Ok (peer_access [4, 2, 6]), peer_at c 0 dep')"
    using d(2) pad [of dep'] peer_dict_offsets
    by (simp add: gv_array_de_new_def set_depths_def lift_def dbind_Some array_kind_def array_offsets_def subslice_from_def)
      (simp add: peer_dict_def)
  have append: "dict_append ([], ?s) (Str ''a'') (Str []) = Ok ([(Str ''a'', Str [])], ?s)"
    using dict_append_last [of "[]"] by simp
  have "gv_map_loop E ?n (gv_de_value N E ?n signature.Str) (gv_de_value N E ?n signature.Str)
      (peer_access [4, 2, 6]) ([], ?s) (peer_at c 0 dep') = Some (Panic, peer_at c 4 dep')"
    using append by (simp add: dbind_Some dbind_fails lift_def peer_entries [where n = "Suc n"] del: gv_de_value.simps)
  then have "gv_de_value N E (Suc ?n) ?s (peer_at c 0 dep) = Some (Panic, peer_at c 4 dep')"
    using pad new
    by (subst gv_de_value.simps)
      (simp add: gv_deserialize_any_def gv_deserialize_seq_def gv_seed_def gv_seed_map_def dict_new_full_signature_def
        dbind_Some dbind_fails lift_def del: gv_de_value.simps gv_map_loop.simps)
  then show ?thesis
    using gv_data_of [OF assms _ d(1), of ?s "Suc ?n" peer_dict Panic] by (simp del: gv_de_value.simps)
qed

end

section \<open>Properties\<close>

text \<open>C7: What \<^verbatim>\<open>to_bytes\<close> writes in the GVariant format, \<^verbatim>\<open>deserialize\<close> reads back, at every position and in both
  byte orders, whenever the framing offsets tell the elements apart: no array of elements of varying size, and no structure that
  needs offsets, is without any bytes, and the offset of a key has the same size with and without itself.\<close>

theorem gvariant_roundtrip:
  assumes "nom_laws N" "endi_laws E"
    and "value_ok v" "gplain v" "greadable v" "sig_wf (value_signature v)"
    and "framed E (c_endian c) no_depths (Value v) (c_position c)"
    and "gv_to_bytes N E D c v = Ok dat" "length (data_bytes dat) < 2 ^ 64" "gfuel v \<le> n"
  shows "gv_data_deserialize N E n dat = Some (Ok (v, length (data_bytes dat)))"
  using wire_laws.gv_roundtrip [OF wire_laws.intro [OF assms(1,2)] assms(3-6,10,7-9)] .

lemma gv_sample_framed: "framed endi_ref Little no_depths (Value gv_sample) 0"
  by (simp add: gv_sample_def enc_basic_def map_ok_def pad_def padding_numeral endi_ref_def
      inc_structure_def inc_array_def inc_variant_def depth_defs no_depths_def
      framed_body_def frames_tail_def field_ends_def drop_own_end_def write_offset_def for_bare_container_small
      cong: bind_res_weak_cong)

theorem gvariant_roundtrip_witness:
  "gv_data_deserialize nom_ref endi_ref 20 (new_fds gv_sample_bytes \<lparr>c_endian = Little, c_position = 0\<rparr> []) =
     Some (Ok (gv_sample, 18))"
proof -
  let ?c = "\<lparr>c_endian = Little, c_position = 0\<rparr>"
  have "gv_to_bytes nom_ref endi_ref (\<lambda>_. Some) ?c gv_sample = Ok (new_fds gv_sample_bytes ?c [])"
    using wr.gv_to_bytes_enc [OF gv_sample_ok] by (simp add: gv_sample_format del: genc.simps)
  moreover have "greadable gv_sample" "gfuel gv_sample \<le> 20"
    by code_simp+
  moreover have "length (data_bytes (new_fds gv_sample_bytes ?c [])) = 18"
    by (simp add: new_fds_def data_bytes_def gv_sample_bytes_def)
  ultimately show ?thesis
    using gvariant_roundtrip [OF nr.nom_laws_axioms er.endi_laws_axioms gv_sample_ok(1,2) _ gv_sample_ok(3),
        of ?c "\<lambda>_. Some" "new_fds gv_sample_bytes ?c []" 20] gv_sample_framed
    by (simp del: framed.simps)
qed

text \<open>C16: The size of the framing offsets of a container is the least that can address all of it with its offsets, there is one as
  long as the length is in the range of \<^verbatim>\<open>usize\<close>, and from the bytes alone the reader finds the same size and the offsets.\<close>

theorem framing_offsets_roundtrip:
  assumes "endi_laws E" "os \<noteq> []" "last os = length body" "\<forall>x \<in> set os. x \<le> length body"
    "length body + 8 * length os < 2 ^ 64"
  shows "\<exists>sz. for_bare_container (length body) (length os) = Ok sz \<and>
    length body + length os * offset_bytes sz \<le> offset_max sz \<and>
    (\<forall>sz'. length body + length os * offset_bytes sz' \<le> offset_max sz' \<longrightarrow> offset_bytes sz \<le> offset_bytes sz') \<and>
    from_encoded_array E (body @ concat (map (write_offset E sz) os)) = Ok (os, offset_bytes sz * length os)"
proof -
  have "\<exists>sz. for_bare_container (length body) (length os) = Ok sz"
    using assms(5) by (simp add: for_bare_container_eq)
  then obtain sz where sz: "for_bare_container (length body) (length os) = Ok sz" ..
  have "offset_bytes sz \<le> offset_bytes sz'" if "length body + length os * offset_bytes sz' \<le> offset_max sz'" for sz'
    using that sz by (cases sz') (auto simp: for_bare_container_eq split: if_splits)
  then show ?thesis
    using sz for_bare_container_Ok(1) [OF sz] endi_laws.from_encoded_array_read [OF assms(1-4) sz] by blast
qed

theorem framing_offsets_roundtrip_witness:
  "from_encoded_array endi_ref (''ab'' @ map byte_of [1, 2]) = Ok ([1, 2], 2)"
proof -
  have "for_bare_container (Suc (Suc 0)) (Suc (Suc 0)) = Ok Off8"
    by (simp add: for_bare_container_small)
  then show ?thesis
    using framing_offsets_roundtrip [OF er.endi_laws_axioms, of "[1, 2]" "''ab''"] by (simp add: write_offset_def)
qed

text \<open>C38: What the offsets of the code do not tell apart. Arrays of empty arrays are written the same, however many; a
  structure of two empty arrays is written as something that \<^verbatim>\<open>deserialize\<close> rejects; the sizes that writer and reader
  choose for the offset of a key differ for some lengths of the entry; and offsets that decrease, which no writer but any peer
  can send, end in a panic.\<close>

theorem gvariant_defects:
  assumes "nom_laws N" "endi_laws E" "c_position c mod 8 = 0"
  shows "(\<forall>k. gv_to_bytes N E D c (Array (replicate k empty_ay) (signature.Array (signature.Array signature.U8))) =
      gv_to_bytes N E D c (Array [] (signature.Array (signature.Array signature.U8)))) \<and>
    (\<exists>dat. gv_to_bytes N E D c (Structure [empty_ay, empty_ay] (signature.Structure
        [signature.Array signature.U8, signature.Array signature.U8])) = Ok dat \<and>
      gv_data_deserialize N E (Suc n) dat = Some (Err (Message (Invalid_length 1)))) \<and>
    (\<forall>k v. length k + length v + 8 < 2 ^ 64 \<longrightarrow> (key_framed False k v \<longleftrightarrow>
      length k + length v \<notin> {255, 65534, 65535} \<union> {2 ^ 32 - 4..2 ^ 32 - 1})) \<and>
    gv_data_deserialize N E (Suc (Suc (Suc n)))
      (new_fds (peer_dict @ [byte_of 0] @ to_string (signature.Dict signature.Str signature.Str)) c []) = Some Panic"
proof -
  have wl: "wire_laws N E"
    using assms(1,2) by (rule wire_laws.intro)
  have pad: "padding (c_position c) 8 = 0"
    using assms(3) by (simp add: padding_numeral)
  show ?thesis
    using wire_laws.empties_written [OF wl, of D c] wire_laws.empties_written [OF wl, of D c 0]
      wire_laws.pair_written [OF wl pad] wire_laws.pair_unreadable [OF wl pad] key_framed_iff
      wire_laws.peer_dict_panics [OF wl pad] by (auto simp del: gv_de_value.simps)
qed

theorem gvariant_defects_witness:
  "gv_data_deserialize nom_ref endi_ref 3
     (new_fds (peer_dict @ [byte_of 0] @ ''a{ss}'') \<lparr>c_endian = Little, c_position = 0\<rparr> []) = Some Panic"
  using gvariant_defects [OF nr.nom_laws_axioms er.endi_laws_axioms, of "\<lparr>c_endian = Little, c_position = 0\<rparr>" _ 0]
  by (simp add: to_string_def numeral_3_eq_3 del: gv_de_value.simps)

end
