(* ===== verification/Proxy.thy ===== *)
theory Proxy
  imports Connection
begin

text \<open>
  Proxies, the objects of a client (\<^verbatim>\<open>zbus/src/proxy\<close>): their builder, the cache of properties with the task that keeps it, the
  streams of changes of a property, and the streams of signals, which follow the owner of a name.

  The crate \<^verbatim>\<open>event_listener\<close> is the record \<open>events\<close>, and what \<^verbatim>\<open>join\<close> of \<^verbatim>\<open>ordered_stream\<close> yields is a list. The
  arguments of a signal, which generated code reads from its body, and the replies of calls are arguments of the definitions.
\<close>

section \<open>Builder\<close>

datatype cache_properties = Cache_Yes | Cache_No | Cache_Lazily

record proxy_builder =
  pb_destination :: "bus_name option"
  pb_path :: "string option"
  pb_interface :: "string option"
  pb_cache :: cache_properties
  pb_uncached_properties :: "string list option"

text \<open>\<^verbatim>\<open>Builder::new\<close> with the defaults of the proxy type, whose texts are checked; a wrong one panics.\<close>

definition default_text :: "(string \<Rightarrow> ('e, 'a) res) \<Rightarrow> string option \<Rightarrow> ('f, 'a option) res" where
  "default_text parse_text x =
     (case x of None \<Rightarrow> Ok None | Some t \<Rightarrow> (case parse_text t of Ok v \<Rightarrow> Ok (Some v) | _ \<Rightarrow> Panic))"

definition proxy_builder_new :: "string option \<Rightarrow> string option \<Rightarrow> string option \<Rightarrow> (error, proxy_builder) res" where
  "proxy_builder_new dest p i =
     bind_res (default_text bus_name_try_from dest) (\<lambda>d.
     bind_res (default_text object_path_try_from p) (\<lambda>p.
     bind_res (default_text (\<lambda>x. map_ok (\<lambda>_. x) (ensure_correct_interface_name x)) i) (\<lambda>i.
     Ok \<lparr>pb_destination = d, pb_path = p, pb_interface = i, pb_cache = Cache_Lazily, pb_uncached_properties = None\<rparr>)))"

definition proxy_destination :: "string \<Rightarrow> proxy_builder \<Rightarrow> (error, proxy_builder) res" where
  "proxy_destination x b = bind_res (map_err NamesError (bus_name_try_from x)) (\<lambda>d. Ok (b\<lparr>pb_destination := Some d\<rparr>))"

definition proxy_path :: "string \<Rightarrow> proxy_builder \<Rightarrow> (error, proxy_builder) res" where
  "proxy_path x b = bind_res (map_err VariantError (object_path_try_from x)) (\<lambda>p. Ok (b\<lparr>pb_path := Some p\<rparr>))"

definition proxy_interface :: "string \<Rightarrow> proxy_builder \<Rightarrow> (error, proxy_builder) res" where
  "proxy_interface x b = bind_res (names_check (ensure_correct_interface_name x)) (\<lambda>_. Ok (b\<lparr>pb_interface := Some x\<rparr>))"

definition with_cache_properties :: "cache_properties \<Rightarrow> proxy_builder \<Rightarrow> proxy_builder" where
  "with_cache_properties c b = b\<lparr>pb_cache := c\<rparr>"

definition uncached_properties :: "string list \<Rightarrow> proxy_builder \<Rightarrow> proxy_builder" where
  "uncached_properties ps b = b\<lparr>pb_uncached_properties := Some ps\<rparr>"

text \<open>\<^verbatim>\<open>ProxyInner\<close>: whether there is a cache, which is made when it is first needed, and the match rule for changes of the owner
  of its destination, if it is subscribed.\<close>

record proxy =
  px_destination :: bus_name
  px_path :: string
  px_interface :: string
  px_caches :: bool
  px_uncached_properties :: "string list"
  px_dest_owner_change_match_rule :: "match_rule option"

definition proxy_new :: "bus_name \<Rightarrow> string \<Rightarrow> string \<Rightarrow> cache_properties \<Rightarrow> string list \<Rightarrow> proxy" where
  "proxy_new dest p i cache uncached = \<lparr>px_destination = dest, px_path = p, px_interface = i,
     px_caches = (case cache of Cache_No \<Rightarrow> False | _ \<Rightarrow> True), px_uncached_properties = uncached,
     px_dest_owner_change_match_rule = None\<rparr>"

definition required :: "'a option \<Rightarrow> (error, 'a) res" where
  "required x = (case x of Some v \<Rightarrow> Ok v | None \<Rightarrow> Err MissingParameter)"

definition build_internal :: "proxy_builder \<Rightarrow> (error, proxy) res" where
  "build_internal b =
     bind_res (required (pb_destination b)) (\<lambda>d.
     bind_res (required (pb_path b)) (\<lambda>p.
     bind_res (required (pb_interface b)) (\<lambda>i.
     Ok (proxy_new d p i (pb_cache b) (case pb_uncached_properties b of Some ps \<Rightarrow> ps | None \<Rightarrow> [])))))"

section \<open>Owned values\<close>

text \<open>\<^verbatim>\<open>Value::try_to_owned\<close>: a copy, for which file descriptors are duplicated by \<open>cl\<close>.\<close>

function (sequential) try_to_owned :: "(u32 \<Rightarrow> (zerror, u32) res) \<Rightarrow> zvalue \<Rightarrow> (zerror, zvalue) res"
  and all_to_owned :: "(u32 \<Rightarrow> (zerror, u32) res) \<Rightarrow> zvalue list \<Rightarrow> (zerror, zvalue list) res"
  and entries_to_owned :: "(u32 \<Rightarrow> (zerror, u32) res) \<Rightarrow> (zvalue \<times> zvalue) list \<Rightarrow> (zerror, (zvalue \<times> zvalue) list) res" where
  "try_to_owned cl (Value v) = map_ok Value (try_to_owned cl v)"
| "try_to_owned cl (Array es s) = map_ok (\<lambda>es. Array es s) (all_to_owned cl es)"
| "try_to_owned cl (Dict m s) = map_ok (\<lambda>m. Dict m s) (entries_to_owned cl m)"
| "try_to_owned cl (Structure fs s) = map_ok (\<lambda>fs. Structure fs s) (all_to_owned cl fs)"
| "try_to_owned cl (Maybe (Some v) s) = map_ok (\<lambda>v. Maybe (Some v) s) (try_to_owned cl v)"
| "try_to_owned cl (Fd x) = map_ok Fd (cl x)"
| "try_to_owned cl v = Ok v"
| "all_to_owned cl [] = Ok []"
| "all_to_owned cl (v # vs) = bind_res (try_to_owned cl v) (\<lambda>v. map_ok (\<lambda>vs. v # vs) (all_to_owned cl vs))"
| "entries_to_owned cl [] = Ok []"
| "entries_to_owned cl ((k, v) # m) =
     bind_res (try_to_owned cl k) (\<lambda>k. bind_res (try_to_owned cl v) (\<lambda>v. map_ok (\<lambda>m. (k, v) # m) (entries_to_owned cl m)))"
  by pat_completeness auto

termination
  by (relation "measure (case_sum (\<lambda>(_, v). size v)
      (case_sum (\<lambda>(_, vs). size_list size vs) (\<lambda>(_, m). size_list (size_prod size size) m)))") auto

section \<open>The cache of properties\<close>

text \<open>Events: one can listen to them, and a listener is ready when the event was notified since.\<close>

record ('ev, 'l) events =
  ev_new :: 'ev
  ev_notify :: "'ev \<Rightarrow> 'ev"
  ev_listen :: "'ev \<Rightarrow> 'l"
  ev_ready :: "'ev \<Rightarrow> 'l \<Rightarrow> bool"

record 'ev property_value =
  pv_value :: "zvalue option"
  pv_event :: 'ev

datatype 'ev caching_result = Caching 'ev | Cached "(error, unit) res"

record 'ev properties_cache =
  pc_values :: "string \<rightharpoonup> 'ev property_value"
  pc_caching_result :: "'ev caching_result"

definition properties_cache_new :: "('ev, 'l) events \<Rightarrow> 'ev properties_cache" where
  "properties_cache_new V = \<lparr>pc_values = Map.empty, pc_caching_result = Caching (ev_new V)\<rparr>"

definition set_property_value :: "string \<Rightarrow> 'ev property_value \<Rightarrow> 'ev properties_cache \<Rightarrow> 'ev properties_cache" where
  "set_property_value name e c = c\<lparr>pc_values := (pc_values c)(name \<mapsto> e)\<rparr>"

definition property_entry :: "('ev, 'l) events \<Rightarrow> string \<Rightarrow> 'ev properties_cache \<Rightarrow> 'ev property_value" where
  "property_entry V name c = (case pc_values c name of Some e \<Rightarrow> e | None \<Rightarrow> \<lparr>pv_value = None, pv_event = ev_new V\<rparr>)"

text \<open>The two loops of \<^verbatim>\<open>update_cache\<close>, first over what is invalid and then over what changed. \<open>own\<close> is \<^verbatim>\<open>OwnedValue::try_from\<close>; a value
  that it fails on leaves the entry as it was.\<close>

definition invalidate_property ::
  "('ev, 'l) events \<Rightarrow> string list \<Rightarrow> string \<Rightarrow> 'ev properties_cache \<Rightarrow> 'ev properties_cache" where
  "invalidate_property V uncached inval c =
     (if inval \<in> set uncached then c
      else case pc_values c inval of
        Some e \<Rightarrow> set_property_value inval (e\<lparr>pv_value := None, pv_event := ev_notify V (pv_event e)\<rparr>) c
      | None \<Rightarrow> c)"

definition change_property ::
  "('ev, 'l) events \<Rightarrow> (zvalue \<Rightarrow> (zerror, zvalue) res) \<Rightarrow> string list \<Rightarrow> string \<times> zvalue
     \<Rightarrow> 'ev properties_cache \<Rightarrow> 'ev properties_cache" where
  "change_property V own uncached nv c =
     (let (name, v) = nv; e = property_entry V name c in
      if name \<in> set uncached then c
      else case own v of
        Ok v \<Rightarrow> set_property_value name (e\<lparr>pv_value := Some v, pv_event := ev_notify V (pv_event e)\<rparr>) c
      | _ \<Rightarrow> set_property_value name e c)"

definition update_cache ::
  "('ev, 'l) events \<Rightarrow> (zvalue \<Rightarrow> (zerror, zvalue) res) \<Rightarrow> string list \<Rightarrow> (string \<times> zvalue) list \<Rightarrow> string list
     \<Rightarrow> 'ev properties_cache \<Rightarrow> 'ev properties_cache" where
  "update_cache V own uncached changed invalidated c =
     fold (change_property V own uncached) changed (fold (invalidate_property V uncached) invalidated c)"

text \<open>The arguments of \<^verbatim>\<open>PropertiesChanged\<close>, and what the joined streams of these signals and of the reply to \<^verbatim>\<open>GetAll\<close> yield.\<close>

record changed_args =
  ca_interface_name :: string
  ca_changed_properties :: "(string \<times> zvalue) list"
  ca_invalidated_properties :: "string list"

type_synonym update = "(error, changed_args) res"

datatype join_item = Update update | Populate "(error, (string \<times> zvalue) list) res"

definition apply_update ::
  "('ev, 'l) events \<Rightarrow> (zvalue \<Rightarrow> (zerror, zvalue) res) \<Rightarrow> string list \<Rightarrow> string \<Rightarrow> update
     \<Rightarrow> 'ev properties_cache \<Rightarrow> 'ev properties_cache" where
  "apply_update V own uncached iface u c =
     (case u of
        Ok a \<Rightarrow>
          if ca_interface_name a = iface
          then update_cache V own uncached (ca_changed_properties a) (ca_invalidated_properties a) c else c
      | _ \<Rightarrow> c)"

text \<open>The loop of \<^verbatim>\<open>init\<close> over what the join yields, and what it holds back when the loop is done.\<close>

fun init_loop ::
  "('ev, 'l) events \<Rightarrow> (zvalue \<Rightarrow> (zerror, zvalue) res) \<Rightarrow> string list \<Rightarrow> join_item list
     \<Rightarrow> 'ev properties_cache \<Rightarrow> (error, unit) res \<times> 'ev properties_cache" where
  "init_loop V own uncached [] c = (Ok (), c)"
| "init_loop V own uncached (Update _ # its) c = init_loop V own uncached its c"
| "init_loop V own uncached (Populate (Ok values) # its) c = (Ok (), update_cache V own uncached values [] c)"
| "init_loop V own uncached (Populate (Err e) # its) c = (Err e, c)"
| "init_loop V own uncached (Populate Panic # its) c = (Panic, c)"

definition cache_init ::
  "('ev, 'l) events \<Rightarrow> (zvalue \<Rightarrow> (zerror, zvalue) res) \<Rightarrow> string list \<Rightarrow> string \<Rightarrow> join_item list \<Rightarrow> join_item option
     \<Rightarrow> 'ev properties_cache \<Rightarrow> (error, unit) res \<times> 'ev properties_cache" where
  "cache_init V own uncached iface its buffered c =
     (case init_loop V own uncached its c of
        (Ok _, c) \<Rightarrow>
          (Ok (), case buffered of Some (Update u) \<Rightarrow> apply_update V own uncached iface u c | _ \<Rightarrow> c)
      | (r, c) \<Rightarrow> (r, c))"

definition keep_updated ::
  "('ev, 'l) events \<Rightarrow> (zvalue \<Rightarrow> (zerror, zvalue) res) \<Rightarrow> string list \<Rightarrow> string \<Rightarrow> update list
     \<Rightarrow> 'ev properties_cache \<Rightarrow> 'ev properties_cache" where
  "keep_updated V own uncached iface us = fold (apply_update V own uncached iface) us"

text \<open>The task of the cache. Waiters are notified before the result is there, but under the lock of the result.\<close>

definition caching_task ::
  "('ev, 'l) events \<Rightarrow> (zvalue \<Rightarrow> (zerror, zvalue) res) \<Rightarrow> string list \<Rightarrow> string \<Rightarrow> join_item list \<Rightarrow> join_item option
     \<Rightarrow> update list \<Rightarrow> 'ev properties_cache \<Rightarrow> 'ev properties_cache" where
  "caching_task V own uncached iface its buffered us c =
     (case cache_init V own uncached iface its buffered c of
        (Ok _, c) \<Rightarrow> keep_updated V own uncached iface us (c\<lparr>pc_caching_result := Cached (Ok ())\<rparr>)
      | (Err e, c) \<Rightarrow> c\<lparr>pc_caching_result := Cached (Err e)\<rparr>
      | (Panic, c) \<Rightarrow> c)"

text \<open>\<^verbatim>\<open>ready\<close>: \<open>None\<close> as long as it waits.\<close>

definition cache_ready :: "'ev properties_cache \<Rightarrow> (error, unit) res option" where
  "cache_ready c = (case pc_caching_result c of Caching _ \<Rightarrow> None | Cached r \<Rightarrow> Some r)"

definition cached_property_raw :: "'ev properties_cache option \<Rightarrow> string \<Rightarrow> zvalue option" where
  "cached_property_raw c name =
     (case c of
        Some c \<Rightarrow> (case pc_values c name of Some e \<Rightarrow> pv_value e | None \<Rightarrow> None)
      | None \<Rightarrow> None)"

text \<open>\<open>conv\<close> is the conversion into the type that is asked for.\<close>

definition cached_property ::
  "(zvalue \<Rightarrow> (zerror, zvalue) res) \<Rightarrow> (zvalue \<Rightarrow> (error, 'a) res) \<Rightarrow> 'ev properties_cache option \<Rightarrow> string \<Rightarrow> (error, 'a option) res" where
  "cached_property own conv c name =
     (case cached_property_raw c name of
        None \<Rightarrow> Ok None
      | Some v \<Rightarrow> bind_res (map_err VariantError (own v)) (\<lambda>v. map_ok Some (conv v)))"

text \<open>\<^verbatim>\<open>get_property\<close>; \<open>fetch\<close> is the reply to \<^verbatim>\<open>Get\<close>. There is no result as long as the cache is not ready.\<close>

definition get_property ::
  "(zvalue \<Rightarrow> (zerror, zvalue) res) \<Rightarrow> (zvalue \<Rightarrow> (error, 'a) res) \<Rightarrow> (string \<Rightarrow> (error, zvalue) res)
     \<Rightarrow> 'ev properties_cache option \<Rightarrow> string \<Rightarrow> (error, 'a) res option" where
  "get_property own conv fetch c name =
     obind (case c of Some c \<Rightarrow> cache_ready c | None \<Rightarrow> Some (Ok ())) (\<lambda>_.
     Some (bind_res (cached_property own conv c name) (\<lambda>v.
       case v of Some v \<Rightarrow> Ok v | None \<Rightarrow> bind_res (fetch name) conv)))"

section \<open>Streams of changes of a property\<close>

text \<open>The cache of a proxy: none at all if the builder said so, else one that is made when it is first asked for, which spawns the task of the
  cache. The last component of \<open>get_property_cache\<close> says whether that happened.\<close>

datatype 'ev property_cache = No_Cache | Cache_Unset | Cache_Set "'ev properties_cache"

definition property_cache_of :: "proxy \<Rightarrow> 'ev property_cache" where
  "property_cache_of px = (if px_caches px then Cache_Unset else No_Cache)"

definition get_property_cache ::
  "('ev, 'l) events \<Rightarrow> 'ev property_cache \<Rightarrow> 'ev properties_cache option \<times> 'ev property_cache \<times> bool" where
  "get_property_cache V pc =
     (case pc of
        No_Cache \<Rightarrow> (None, No_Cache, False)
      | Cache_Unset \<Rightarrow> (let c = properties_cache_new V in (Some c, Cache_Set c, True))
      | Cache_Set c \<Rightarrow> (Some c, pc, False))"

text \<open>Without a cache the stream listens to an event that nobody has.\<close>

definition receive_property_changed ::
  "('ev, 'l) events \<Rightarrow> string \<Rightarrow> 'ev property_cache \<Rightarrow> 'l \<times> 'ev property_cache \<times> bool" where
  "receive_property_changed V name pc =
     (case get_property_cache V pc of
        (Some c, _, spawned) \<Rightarrow>
          let e = property_entry V name c in (ev_listen V (pv_event e), Cache_Set (set_property_value name e c), spawned)
      | (None, pc, spawned) \<Rightarrow> (ev_listen V (ev_new V), pc, spawned))"

datatype 'a poll = Pending | Ready 'a

text \<open>The poll of the listener. It was made from the event of the entry; entries are never removed and keep their events, so that is the
  event it hears of, and without it there is none.\<close>

definition listener_poll :: "('ev, 'l) events \<Rightarrow> string \<Rightarrow> 'l \<Rightarrow> 'ev properties_cache \<Rightarrow> bool" where
  "listener_poll V name l c = (case pc_values c name of Some e \<Rightarrow> ev_ready V (pv_event e) l | None \<Rightarrow> False)"

text \<open>Polling a stream: the end if there is no cache; else, once the listener is ready, an item, with the listener for the next one.\<close>

definition property_stream_poll ::
  "('ev, 'l) events \<Rightarrow> string \<Rightarrow> 'l \<Rightarrow> 'ev property_cache \<Rightarrow> (error, 'l option poll) res \<times> 'ev property_cache \<times> bool" where
  "property_stream_poll V name l pc =
     (case get_property_cache V pc of
        (None, pc, spawned) \<Rightarrow> (Ok (Ready None), pc, spawned)
      | (Some c, pc, spawned) \<Rightarrow>
          if \<not> listener_poll V name l c then (Ok Pending, pc, spawned)
          else
            (case pc_values c name of
               Some e \<Rightarrow> (Ok (Ready (Some (ev_listen V (pv_event e)))), pc, spawned)
             | None \<Rightarrow> (Panic, pc, spawned)))"

text \<open>\<^verbatim>\<open>PropertyChanged::get_raw\<close> in the steps between which it holds no lock: the look into the cache, the value of \<^verbatim>\<open>Get\<close> that is put
  there, and the value behind the guard that is returned in the end.\<close>

definition get_raw_check :: "string \<Rightarrow> 'ev properties_cache \<Rightarrow> (error, zvalue option) res" where
  "get_raw_check name c = (case pc_values c name of Some e \<Rightarrow> Ok (pv_value e) | None \<Rightarrow> Panic)"

definition get_raw_store :: "string \<Rightarrow> zvalue \<Rightarrow> 'ev properties_cache \<Rightarrow> (error, 'ev properties_cache) res" where
  "get_raw_store name v c =
     (case pc_values c name of Some e \<Rightarrow> Ok (set_property_value name (e\<lparr>pv_value := Some v\<rparr>) c) | None \<Rightarrow> Panic)"

definition get_raw_deref :: "string \<Rightarrow> 'ev properties_cache \<Rightarrow> (error, zvalue) res" where
  "get_raw_deref name c =
     (case pc_values c name of
        Some e \<Rightarrow> (case pv_value e of Some v \<Rightarrow> Ok v | None \<Rightarrow> Panic)
      | None \<Rightarrow> Panic)"

section \<open>Calls\<close>

datatype method_flag = MF_NoReplyExpected | MF_NoAutoStart | MF_AllowInteractiveAuth

definition flag_of :: "method_flag \<Rightarrow> flag" where
  "flag_of f = (case f of MF_NoReplyExpected \<Rightarrow> NoReplyExpected | MF_NoAutoStart \<Rightarrow> NoAutoStart
     | MF_AllowInteractiveAuth \<Rightarrow> AllowInteractiveAuth)"

definition proxy_call_with_flags ::
  "'w env \<Rightarrow> proxy \<Rightarrow> string \<Rightarrow> method_flag list \<Rightarrow> signature \<Rightarrow> (ser \<Rightarrow> (zerror, ser) res) \<Rightarrow> ('w connection, error, u32 option) sm" where
  "proxy_call_with_flags V px m fls sg f =
     call_method_raw V (Some (bus_name_as_str (px_destination px))) (px_path px) (Some (px_interface px)) m (map flag_of fls) sg f"

text \<open>The result of a call, once its reply is there.\<close>

definition proxy_call_result :: "(message \<Rightarrow> (error, 'a) res) \<Rightarrow> item option \<Rightarrow> (error, 'a option) res" where
  "proxy_call_result body_of r = (case r of Some it \<Rightarrow> bind_res it (\<lambda>m. map_ok Some (body_of m)) | None \<Rightarrow> Ok None)"

definition call_noreply ::
  "'w env \<Rightarrow> proxy \<Rightarrow> string \<Rightarrow> signature \<Rightarrow> (ser \<Rightarrow> (zerror, ser) res) \<Rightarrow> ('w connection, error, unit) sm" where
  "call_noreply V px m sg f =
     sm_bind (proxy_call_with_flags V px m [MF_NoReplyExpected] sg f) (\<lambda>_. sm_res (Ok ()))"

section \<open>The owner of the destination\<close>

definition dbus_name :: string where "dbus_name = ''org.freedesktop.DBus''"

definition owner_rule :: "string \<Rightarrow> (error, match_rule) res" where
  "owner_rule name =
     bind_res (rule_sender ''org.freedesktop.DBus'' (rule_msg_type Signal rule_new)) (\<lambda>r.
     bind_res (rule_path ''/org/freedesktop/DBus'' r) (\<lambda>r.
     bind_res (rule_interface ''org.freedesktop.DBus'' r) (\<lambda>r.
     bind_res (rule_member ''NameOwnerChanged'' r) (rule_add_arg name))))"

definition MAX_NAME_OWNER_CHANGED_SIGNALS_QUEUED :: nat where "MAX_NAME_OWNER_CHANGED_SIGNALS_QUEUED = 8"

text \<open>\<^verbatim>\<open>subscribe_dest_owner_change\<close> up to the subscription, which waits for the bus, and from there: another call for the same proxy
  may have come first.\<close>

definition subscribe_start ::
  "'b bus_call \<Rightarrow> proxy \<Rightarrow> 'b subs \<Rightarrow> (error, match_rule option) res \<times> 'b subs" where
  "subscribe_start add_rule px st =
     (if \<not> sb_bus_conn st then (Ok None, st)
      else case px_destination px of
        Unique _ \<Rightarrow> (Ok None, st)
      | WellKnown name \<Rightarrow>
          if px_dest_owner_change_match_rule px \<noteq> None then (Ok None, st)
          else case owner_rule name of
            Ok rule \<Rightarrow>
              (case add_match add_rule rule (Some MAX_NAME_OWNER_CHANGED_SIGNALS_QUEUED) st of
                 (Ok _, st) \<Rightarrow> (Ok (Some rule), st)
               | (Err e, st) \<Rightarrow> (Err e, st)
               | (Panic, st) \<Rightarrow> (Panic, st))
          | Err e \<Rightarrow> (Err e, st)
          | Panic \<Rightarrow> (Panic, st))"

definition subscribe_finish ::
  "'b bus_call \<Rightarrow> match_rule \<Rightarrow> proxy \<Rightarrow> 'b subs \<Rightarrow> (error, unit) res \<times> proxy \<times> 'b subs" where
  "subscribe_finish remove_rule rule px st =
     (if px_dest_owner_change_match_rule px = None then (Ok (), px\<lparr>px_dest_owner_change_match_rule := Some rule\<rparr>, st)
      else case remove_match remove_rule rule st of
        (Ok _, st) \<Rightarrow> (Ok (), px, st)
      | (Err e, st) \<Rightarrow> (Err e, px, st)
      | (Panic, st) \<Rightarrow> (Panic, px, st))"

text \<open>The drop of a proxy queues the removal of its rule.\<close>

definition proxy_drop :: "proxy \<Rightarrow> 'b subs \<Rightarrow> 'b subs" where
  "proxy_drop px st =
     (case px_dest_owner_change_match_rule px of None \<Rightarrow> st | Some rule \<Rightarrow> queue_remove_match rule st)"

section \<open>Streams of signals\<close>

definition signal_rule :: "proxy \<Rightarrow> string option \<Rightarrow> (nat \<times> string) list \<Rightarrow> (error, match_rule) res" where
  "signal_rule px name args =
     fold_res (\<lambda>(i, x) r. rule_arg i x r) args
       (rule_new\<lparr>r_type := Some Signal, r_sender := Some (px_destination px), r_path_spec := Some (Path_Spec (px_path px)),
         r_interface := Some (px_interface px), r_member := name\<rparr>)"

text \<open>Messages are of any type \<open>'m\<close>: \<open>hdr\<close> is their header and \<open>args\<close> their body as the arguments of \<^verbatim>\<open>NameOwnerChanged\<close>.
  \<^verbatim>\<open>from_message\<close> looks at type, interface and member only.\<close>

record owner_args =
  oa_name :: bus_name
  oa_new_owner :: "string option"

definition is_name_owner_changed :: "header \<Rightarrow> bool" where
  "is_name_owner_changed h \<longleftrightarrow> msg_type (primary h) = Signal \<and> interface (header_fields h) = Some dbus_name \<and>
     member (header_fields h) = Some ''NameOwnerChanged''"

datatype 'm owner_item = Changed "(error, 'm) res" | Owner_Reply "(error, (error, string) res) res"

text \<open>The loop of \<^verbatim>\<open>SignalStream::new\<close>: the first change of the owner, or the reply to \<^verbatim>\<open>GetNameOwner\<close>, of which an error means that
  there is no owner.\<close>

fun owner_loop ::
  "('m \<Rightarrow> header) \<Rightarrow> ('m \<Rightarrow> (error, owner_args) res) \<Rightarrow> 'm owner_item list \<Rightarrow> (error, string option) res" where
  "owner_loop hdr args [] = Err IoError"
| "owner_loop hdr args (Changed (Ok m) # its) =
     (if is_name_owner_changed (hdr m) then (case args m of Ok a \<Rightarrow> Ok (oa_new_owner a) | _ \<Rightarrow> Panic) else Panic)"
| "owner_loop hdr args (Changed _ # its) = owner_loop hdr args its"
| "owner_loop hdr args (Owner_Reply (Ok r) # its) = map_ok Some r"
| "owner_loop hdr args (Owner_Reply _ # its) = Ok None"

definition owner_queued ::
  "('m \<Rightarrow> header) \<Rightarrow> ('m \<Rightarrow> (error, owner_args) res) \<Rightarrow> string \<Rightarrow> 'm owner_item option \<Rightarrow> string option \<Rightarrow> string option" where
  "owner_queued hdr args name queued src =
     (case queued of
        Some (Changed (Ok m)) \<Rightarrow>
          if is_name_owner_changed (hdr m) then
            (case args m of
               Ok a \<Rightarrow>
                 (case (oa_name a, oa_new_owner a) of
                    (WellKnown n, Some new_owner) \<Rightarrow> if n = name then Some new_owner else src
                  | _ \<Rightarrow> src)
             | _ \<Rightarrow> src)
          else src
      | _ \<Rightarrow> src)"

text \<open>The owner that a new stream starts with; \<open>queued\<close> is what the join holds back when the loop is done.\<close>

definition stream_owner ::
  "('m \<Rightarrow> header) \<Rightarrow> ('m \<Rightarrow> (error, owner_args) res) \<Rightarrow> bus_name \<Rightarrow> 'm owner_item list \<Rightarrow> 'm owner_item option
     \<Rightarrow> (error, string option) res" where
  "stream_owner hdr args dest its queued =
     (case dest of
        Unique name \<Rightarrow> Ok (Some name)
      | WellKnown name \<Rightarrow> map_ok (owner_queued hdr args name queued) (owner_loop hdr args its))"

text \<open>\<^verbatim>\<open>SignalStream::filter\<close> keeps the owner in step with the signals.\<close>

definition signal_filter ::
  "('m \<Rightarrow> header) \<Rightarrow> ('m \<Rightarrow> (error, owner_args) res) \<Rightarrow> 'm \<Rightarrow> string option \<Rightarrow> (error, bool) res \<times> string option" where
  "signal_filter hdr args m src =
     (if sender (header_fields (hdr m)) = src then (Ok True, src)
      else if is_name_owner_changed (hdr m) then
        (case args m of
           Ok a \<Rightarrow> (Ok False, oa_new_owner a)
         | Err e \<Rightarrow> (Err e, src)
         | Panic \<Rightarrow> (Panic, src))
      else (Ok False, src))"

text \<open>\<^verbatim>\<open>poll_next_before\<close> on what the joined streams yield: the next signal, if any, the owner and what is left.\<close>

fun signal_next ::
  "('m \<Rightarrow> header) \<Rightarrow> ('m \<Rightarrow> (error, owner_args) res) \<Rightarrow> string option \<Rightarrow> (error, 'm) res list
     \<Rightarrow> (error, ('m \<times> string option \<times> (error, 'm) res list) option) res" where
  "signal_next hdr args src [] = Ok None"
| "signal_next hdr args src (Ok m # its) =
     (case signal_filter hdr args m src of
        (Ok True, src) \<Rightarrow> Ok (Some (m, src, its))
      | (Panic, src) \<Rightarrow> Panic
      | (_, src) \<Rightarrow> signal_next hdr args src its)"
| "signal_next hdr args src (_ # its) = signal_next hdr args src its"

end
