(* ===== verification/Proxy_Props.thy ===== *)
theory Proxy_Props
  imports Proxy
begin

text \<open>
  What proxies promise: the cache has the properties of the service, as of the messages that were read; a stream of changes of a
  property yields exactly when its value was read or one was declared invalid; and a stream of signals yields those of the current owner of a name. And where this
  fails, as the steps of tasks interleave.
\<close>

section \<open>Events\<close>

locale event_laws =
  fixes V :: "('ev, 'l) events"
  assumes not_yet: "\<not> ev_ready V e (ev_listen V e)"
    and notified: "ev_ready V (ev_notify V e) (ev_listen V e)"
    and stays: "ev_ready V e l \<Longrightarrow> ev_ready V (ev_notify V e) l"

definition events_ref :: "(nat, nat) events" where
  "events_ref = \<lparr>ev_new = 0, ev_notify = Suc, ev_listen = (\<lambda>e. e), ev_ready = (\<lambda>e l. l < e)\<rparr>"

interpretation ev: event_laws events_ref
  by unfold_locales (simp_all add: events_ref_def)

section \<open>The contents of the cache\<close>

text \<open>Values without file descriptors are copied as they are.\<close>

fun no_fd :: "zvalue \<Rightarrow> bool" where
  "no_fd (Value v) = no_fd v"
| "no_fd (Array es s) = list_all no_fd es"
| "no_fd (Dict m s) = list_all (\<lambda>(a, b). no_fd a \<and> no_fd b) m"
| "no_fd (Structure fs s) = list_all no_fd fs"
| "no_fd (Maybe x s) = pred_option no_fd x"
| "no_fd (Fd x) = False"
| "no_fd v = True"

lemma to_owned_no_fd:
  "no_fd v \<Longrightarrow> try_to_owned cl v = Ok v" "list_all no_fd vs \<Longrightarrow> all_to_owned cl vs = Ok vs"
  "list_all (\<lambda>(a, b). no_fd a \<and> no_fd b) m \<Longrightarrow> entries_to_owned cl m = Ok m"
  by (induction cl v and cl vs and cl m rule: try_to_owned_all_to_owned_entries_to_owned.induct) auto

abbreviation cached :: "'ev properties_cache \<Rightarrow> string \<Rightarrow> zvalue option" where
  "cached c \<equiv> cached_property_raw (Some c)"

lemma cached_set [simp]: "cached (set_property_value q e c) p = (if p = q then pv_value e else cached c p)"
  by (simp add: cached_property_raw_def set_property_value_def)

lemma cached_entry: "pv_value (property_entry V p c) = cached c p"
  by (simp add: property_entry_def cached_property_raw_def split: option.splits)

lemma cached_invalidate:
  "cached (invalidate_property V uncached q c) p = (if p = q \<and> q \<notin> set uncached then None else cached c p)"
  by (auto simp: invalidate_property_def cached_property_raw_def [of "Some c"] split: option.splits)

lemma cached_change:
  assumes "own v = Ok v"
  shows "cached (change_property V own uncached (q, v) c) p = (if p = q \<and> q \<notin> set uncached then Some v else cached c p)"
  using assms by (simp add: change_property_def Let_def)

lemma cached_invalidates:
  "cached (fold (invalidate_property V uncached) inval c) p = (if p \<in> set inval \<and> p \<notin> set uncached then None else cached c p)"
  by (induction inval arbitrary: c) (auto simp: cached_invalidate)

lemma cached_changes:
  assumes "\<forall>(q, v) \<in> set chg. own v = Ok v" "distinct (map fst chg)"
  shows "cached (fold (change_property V own uncached) chg c) p =
    (if p \<in> set uncached then cached c p else case map_of chg p of Some v \<Rightarrow> Some v | None \<Rightarrow> cached c p)"
  using assms
proof (induction chg arbitrary: c)
  case (Cons qv chg)
  then have "map_of chg (fst qv) = None"
    by (simp add: map_of_eq_None_iff)
  with Cons show ?case
    by (cases qv) (auto simp: cached_change split: option.splits)
qed simp

lemma cached_update:
  assumes "\<forall>(q, v) \<in> set chg. own v = Ok v" "distinct (map fst chg)"
  shows "cached (update_cache V own uncached chg inval c) p =
    (if p \<in> set uncached then cached c p
     else case map_of chg p of Some v \<Rightarrow> Some v | None \<Rightarrow> if p \<in> set inval then None else cached c p)"
  by (simp add: update_cache_def cached_changes [OF assms] cached_invalidates split: option.splits)

section \<open>The service\<close>

text \<open>
  The properties of the service, and which of them have changed since their value was last sent. What happens to them: vals
  that are sent in a signal along with others that are only declared invalid, in one signal; signals of other interfaces, or that
  cannot be read; and changes of properties that the client does not cache, without a signal.
\<close>

record service =
  sv_props :: "string \<rightharpoonup> zvalue"
  sv_stale :: "string set"

datatype service_event = Emit "(string \<times> zvalue) list" "(string \<times> zvalue) list" | Foreign update | Silent string zvalue

fun service_step :: "service_event \<Rightarrow> service \<Rightarrow> service" where
  "service_step (Emit chg inval) s =
     \<lparr>sv_props = sv_props s ++ map_of inval ++ map_of chg, sv_stale = (sv_stale s \<union> fst ` set inval) - fst ` set chg\<rparr>"
| "service_step (Foreign u) s = s"
| "service_step (Silent p v) s = s\<lparr>sv_props := (sv_props s)(p \<mapsto> v)\<rparr>"

fun event_update :: "string \<Rightarrow> service_event \<Rightarrow> update list" where
  "event_update iface (Emit chg inval) =
     [Ok \<lparr>ca_interface_name = iface, ca_changed_properties = chg, ca_invalidated_properties = map fst inval\<rparr>]"
| "event_update iface (Foreign u) = [u]"
| "event_update iface (Silent p v) = []"

fun event_ok :: "string \<Rightarrow> string list \<Rightarrow> service_event \<Rightarrow> bool" where
  "event_ok iface uncached (Emit chg inval) \<longleftrightarrow> distinct (map fst chg) \<and> list_all (\<lambda>(_, v). no_fd v) chg"
| "event_ok iface uncached (Foreign u) \<longleftrightarrow> (case u of Ok a \<Rightarrow> ca_interface_name a \<noteq> iface | _ \<Rightarrow> True)"
| "event_ok iface uncached (Silent p v) \<longleftrightarrow> p \<in> set uncached"

abbreviation event_updates :: "string \<Rightarrow> service_event list \<Rightarrow> update list" where
  "event_updates iface es \<equiv> concat (map (event_update iface) es)"

definition cache_shows :: "string list \<Rightarrow> service \<Rightarrow> 'ev properties_cache \<Rightarrow> bool" where
  "cache_shows uncached s c \<longleftrightarrow>
     (\<forall>p. cached c p = (if p \<in> set uncached \<or> p \<in> sv_stale s then None else sv_props s p))"

lemma event_shown:
  assumes "cache_shows uncached s c" "event_ok iface uncached e"
  shows "cache_shows uncached (service_step e s) (fold (apply_update V (try_to_owned cl) uncached iface) (event_update iface e) c)"
proof (cases e)
  case (Emit chg inval)
  have own: "\<forall>(q, v) \<in> set chg. try_to_owned cl v = Ok v" "distinct (map fst chg)"
    using assms(2) Emit by (auto simp: list_all_iff to_owned_no_fd)
  have "cached (update_cache V (try_to_owned cl) uncached chg (map fst inval) c) p =
      (if p \<in> set uncached \<or> p \<in> (sv_stale s \<union> fst ` set inval) - fst ` set chg then None
       else (sv_props s ++ map_of inval ++ map_of chg) p)" for p
  proof (cases "map_of chg p")
    case None
    then have "p \<notin> fst ` set chg"
      by (simp add: map_of_eq_None_iff)
    moreover have "map_of inval p = None" if "p \<notin> fst ` set inval"
      using that by (simp add: map_of_eq_None_iff)
    ultimately show ?thesis
      using None assms(1) by (simp add: cached_update [OF own] cache_shows_def map_add_def split: option.splits)
  next
    case (Some v)
    then have "p \<in> fst ` set chg"
      using map_of_eq_None_iff [of chg p] by auto
    then show ?thesis
      using Some assms(1) by (simp add: cached_update [OF own] cache_shows_def map_add_def)
  qed
  then show ?thesis
    by (auto simp: Emit cache_shows_def apply_update_def)
next
  case (Foreign u)
  then show ?thesis
    using assms by (cases u) (auto simp: apply_update_def)
next
  case (Silent p v)
  then show ?thesis
    using assms by (auto simp: cache_shows_def)
qed

lemma events_shown:
  assumes "cache_shows uncached s c" "\<forall>e \<in> set es. event_ok iface uncached e"
  shows "cache_shows uncached (fold service_step es s)
    (fold (apply_update V (try_to_owned cl) uncached iface) (event_updates iface es) c)"
  using assms by (induction es arbitrary: s c) (simp_all add: event_shown)

lemma init_loop_updates: "init_loop V own uncached (map Update us @ its) c = init_loop V own uncached its c"
  by (induction us) simp_all

lemma populated_shows:
  assumes "distinct (map fst vals)" "list_all (\<lambda>(_, v). no_fd v) vals" "map_of vals = sv_props s" "sv_stale s = {}"
  shows "cache_shows uncached s (update_cache V (try_to_owned cl) uncached vals [] (properties_cache_new V))"
proof -
  have own: "\<forall>(q, v) \<in> set vals. try_to_owned cl v = Ok v"
    using assms(2) by (auto simp: list_all_iff to_owned_no_fd)
  have "cached (properties_cache_new V) p = None" for p
    by (simp add: cached_property_raw_def properties_cache_new_def)
  then show ?thesis
    using assms(3,4) by (auto simp: cache_shows_def cached_update [OF own assms(1)] split: option.splits)
qed

lemma shows_result [simp]: "cache_shows uncached s (c\<lparr>pc_caching_result := r\<rparr>) = cache_shows uncached s c"
  by (simp add: cache_shows_def cached_property_raw_def)

lemma caching_result_kept [simp]:
  "pc_caching_result (set_property_value p e c) = pc_caching_result c"
  "pc_caching_result (invalidate_property V uncached p c) = pc_caching_result c"
  "pc_caching_result (change_property V own uncached pv c) = pc_caching_result c"
  by (auto simp: set_property_value_def invalidate_property_def change_property_def Let_def split: option.splits res.splits prod.splits)

lemma caching_result_fold: "(\<And>x c. g (f x c) = g c) \<Longrightarrow> g (fold f xs c) = g c"
  by (induction xs arbitrary: c) simp_all

lemma caching_result_updates [simp]: "pc_caching_result (keep_updated V own uncached iface us c) = pc_caching_result c"
proof -
  have "pc_caching_result (apply_update V own uncached iface u c) = pc_caching_result c" for u and c :: "'a properties_cache"
    by (simp add: apply_update_def update_cache_def caching_result_fold [where g = pc_caching_result] split: res.splits)
  then show ?thesis
    by (simp add: keep_updated_def caching_result_fold [where g = pc_caching_result])
qed

text \<open>The result of caching does not matter for updates.\<close>

lemma set_property_result:
  "set_property_value p e (c\<lparr>pc_caching_result := r\<rparr>) = (set_property_value p e c)\<lparr>pc_caching_result := r\<rparr>"
  by (simp add: set_property_value_def)

lemma fold_result: "(\<And>x c. f x (g c) = g (f x c)) \<Longrightarrow> fold f xs (g c) = g (fold f xs c)"
  by (induction xs arbitrary: c) simp_all

lemma update_result:
  "apply_update V own uncached iface u (c\<lparr>pc_caching_result := r\<rparr>) = (apply_update V own uncached iface u c)\<lparr>pc_caching_result := r\<rparr>"
proof -
  let ?g = "\<lambda>c. c\<lparr>pc_caching_result := r\<rparr>"
  have "invalidate_property V uncached q (?g c) = ?g (invalidate_property V uncached q c)" for q c
    by (simp add: invalidate_property_def set_property_result split: option.splits)
  moreover have "change_property V own uncached qv (?g c) = ?g (change_property V own uncached qv c)" for qv c
    by (simp add: change_property_def property_entry_def set_property_result Let_def split: prod.splits res.splits)
  ultimately show ?thesis
    by (simp add: apply_update_def update_cache_def fold_result [where g = ?g] split: res.splits)
qed

lemma updates_result:
  "fold (apply_update V own uncached iface) us (c\<lparr>pc_caching_result := r\<rparr>) =
     (fold (apply_update V own uncached iface) us c)\<lparr>pc_caching_result := r\<rparr>"
  by (rule fold_result) (rule update_result)

lemma caching_task_shows:
  assumes es: "\<forall>e \<in> set es. event_ok iface uncached e"
    and vals: "distinct (map fst vals)" "list_all (\<lambda>(_, v). no_fd v) vals" "map_of vals = sv_props s" "sv_stale s = {}"
    and b: "event_updates iface es = (case b of Some u \<Rightarrow> [u] | None \<Rightarrow> []) @ us"
    and task: "c = caching_task V (try_to_owned cl) uncached iface (map Update us0 @ [Populate (Ok vals)]) (map_option Update b) us
      (properties_cache_new V)"
  shows "cache_shows uncached (fold service_step es s) c" "cache_ready c = Some (Ok ())"
proof -
  let ?c0 = "update_cache V (try_to_owned cl) uncached vals [] (properties_cache_new V)"
  let ?up = "fold (apply_update V (try_to_owned cl) uncached iface)"
  have c: "c = ?up us ((?up (case b of Some u \<Rightarrow> [u] | None \<Rightarrow> []) ?c0)\<lparr>pc_caching_result := Cached (Ok ())\<rparr>)"
    unfolding task by (cases b) (simp_all add: caching_task_def cache_init_def init_loop_updates keep_updated_def)
  have "cache_shows uncached (fold service_step es s) (?up (event_updates iface es) ?c0)"
    by (rule events_shown [OF populated_shows [OF vals] es])
  moreover have "cached (?up us (x\<lparr>pc_caching_result := r\<rparr>)) p = cached (?up us x) p" for x r p
    by (simp add: updates_result cached_property_raw_def)
  ultimately show "cache_shows uncached (fold service_step es s) c"
    by (simp add: b c cache_shows_def)
  show "cache_ready c = Some (Ok ())"
    unfolding c by (simp add: cache_ready_def keep_updated_def [symmetric])
qed

section \<open>Streams of changes\<close>

text \<open>The updates that change a property or declare it invalid.\<close>

definition touches :: "(zvalue \<Rightarrow> (zerror, zvalue) res) \<Rightarrow> string list \<Rightarrow> string \<Rightarrow> string \<Rightarrow> update \<Rightarrow> bool" where
  "touches own uncached iface p u \<longleftrightarrow>
     (case u of
        Ok a \<Rightarrow> ca_interface_name a = iface \<and> p \<notin> set uncached \<and>
          (p \<in> set (ca_invalidated_properties a) \<or> (\<exists>v v'. (p, v) \<in> set (ca_changed_properties a) \<and> own v = Ok v'))
      | _ \<Rightarrow> False)"

context event_laws
begin

text \<open>A listener on the event of a property: the event is the one it was made for, or it is ready.\<close>

definition listens :: "string \<Rightarrow> 'ev \<Rightarrow> bool \<Rightarrow> 'ev properties_cache \<Rightarrow> bool" where
  "listens p e0 t c \<longleftrightarrow> (\<exists>e. pc_values c p = Some e \<and> (if t then ev_ready V (pv_event e) (ev_listen V e0) else pv_event e = e0))"

lemma listens_notify:
  "listens p e0 t c \<Longrightarrow> pc_values c' p = Some e' \<Longrightarrow> pv_event e' = ev_notify V (pv_event (the (pc_values c p))) \<Longrightarrow> listens p e0 True c'"
  by (auto simp: listens_def notified stays split: if_splits)

lemma listens_same:
  "listens p e0 t c \<Longrightarrow> pc_values c' p = Some e' \<Longrightarrow> pv_event e' = pv_event (the (pc_values c p)) \<Longrightarrow> listens p e0 t c'"
  by (auto simp: listens_def)

lemma listens_other: "listens p e0 t c \<Longrightarrow> pc_values c' p = pc_values c p \<Longrightarrow> listens p e0 t c'"
  by (simp add: listens_def)

lemma listens_invalidate:
  assumes "listens p e0 t c"
  shows "listens p e0 (t \<or> q = p \<and> p \<notin> set uncached) (invalidate_property V uncached q c)"
proof (cases "q = p \<and> p \<notin> set uncached")
  case True
  then have "listens p e0 True (invalidate_property V uncached q c)"
    using assms by (auto simp: listens_def [of p e0 t] invalidate_property_def set_property_value_def intro!: listens_notify [OF assms])
  with True show ?thesis by simp
next
  case False
  then have "pc_values (invalidate_property V uncached q c) p = pc_values c p"
    by (auto simp: invalidate_property_def set_property_value_def split: option.splits)
  then have "listens p e0 t (invalidate_property V uncached q c)"
    by (rule listens_other [OF assms])
  with False show ?thesis by (cases t) auto
qed

lemma listens_change:
  assumes "listens p e0 t c"
  shows "listens p e0 (t \<or> q = p \<and> p \<notin> set uncached \<and> (\<exists>v'. own v = Ok v')) (change_property V own uncached (q, v) c)"
proof (cases "q = p \<and> p \<notin> set uncached")
  case True
  obtain e where e: "pc_values c p = Some e"
    using assms by (auto simp: listens_def)
  show ?thesis
  proof (cases "own v")
    case (Ok v')
    then have "listens p e0 True (change_property V own uncached (q, v) c)"
      using True e by (intro listens_notify [OF assms, where e' = "e\<lparr>pv_value := Some v', pv_event := ev_notify V (pv_event e)\<rparr>"])
        (simp_all add: change_property_def property_entry_def set_property_value_def)
    with True Ok show ?thesis by simp
  qed (use True e in \<open>auto simp: change_property_def property_entry_def set_property_value_def intro!: listens_same [OF assms]\<close>)
next
  case False
  then have "pc_values (change_property V own uncached (q, v) c) p = pc_values c p"
    by (auto simp: change_property_def set_property_value_def Let_def split: res.splits)
  then have "listens p e0 t (change_property V own uncached (q, v) c)"
    by (rule listens_other [OF assms])
  moreover have "(t \<or> q = p \<and> p \<notin> set uncached \<and> (\<exists>v'. own v = Ok v')) = t"
    using False by auto
  ultimately show ?thesis by simp
qed

lemma listens_fold:
  assumes "\<And>x t c. listens p e0 t c \<Longrightarrow> listens p e0 (t \<or> Q x) (f x c)" "listens p e0 t c"
  shows "listens p e0 (t \<or> (\<exists>x \<in> set xs. Q x)) (fold f xs c)"
  using assms(2)
proof (induction xs arbitrary: t c)
  case (Cons x xs)
  have "listens p e0 ((t \<or> Q x) \<or> (\<exists>x \<in> set xs. Q x)) (fold f xs (f x c))"
    by (rule Cons.IH [OF assms(1) [OF Cons.prems]])
  moreover have "((t \<or> Q x) \<or> (\<exists>x \<in> set xs. Q x)) = (t \<or> (\<exists>x \<in> set (x # xs). Q x))"
    by auto
  ultimately show ?case by simp
qed simp

lemma listens_update:
  assumes "listens p e0 t c"
  shows "listens p e0 (t \<or> touches own uncached iface p u) (apply_update V own uncached iface u c)"
proof (cases "\<exists>a. u = Ok a \<and> ca_interface_name a = iface")
  case True
  then obtain a where a: "u = Ok a" "ca_interface_name a = iface" by blast
  let ?inv = "\<lambda>q. q = p \<and> p \<notin> set uncached"
  let ?chg = "\<lambda>(q, v). q = p \<and> p \<notin> set uncached \<and> (\<exists>v'. own v = Ok v')"
  let ?is = "ca_invalidated_properties a" let ?cs = "ca_changed_properties a"
  have "listens p e0 (t \<or> (\<exists>x \<in> set ?is. ?inv x)) (fold (invalidate_property V uncached) ?is c)"
    by (rule listens_fold [OF listens_invalidate assms])
  then have "listens p e0 ((t \<or> (\<exists>x \<in> set ?is. ?inv x)) \<or> (\<exists>x \<in> set ?cs. ?chg x)) (update_cache V own uncached ?cs ?is c)"
    unfolding update_cache_def by (rule listens_fold [rotated]) (auto dest: listens_change)
  moreover have "((t \<or> (\<exists>x \<in> set ?is. ?inv x)) \<or> (\<exists>x \<in> set ?cs. ?chg x)) = (t \<or> touches own uncached iface p u)"
    using a by (auto simp: touches_def)
  ultimately show ?thesis
    using a by (simp add: apply_update_def)
next
  case False
  then show ?thesis
    using assms by (cases u) (simp_all add: apply_update_def touches_def)
qed

lemma poll_listens:
  assumes "listens p e0 t c"
  shows "fst (property_stream_poll V p (ev_listen V e0) (Cache_Set c)) =
    (if t then Ok (Ready (Some (ev_listen V (pv_event (the (pc_values c p)))))) else Ok Pending)"
  using assms not_yet by (auto simp: listens_def property_stream_poll_def get_property_cache_def listener_poll_def split: if_splits)

lemma property_stream:
  assumes "receive_property_changed V p pc = (l, Cache_Set c1, spawned)"
    and c: "pc_values c = pc_values (fold (apply_update V own uncached iface) us c1)"
  shows "fst (property_stream_poll V p l (Cache_Set c)) =
    (if \<exists>u \<in> set us. touches own uncached iface p u then Ok (Ready (Some (ev_listen V (pv_event (the (pc_values c p)))))) else Ok Pending)"
proof -
  obtain c0 where e0: "l = ev_listen V (pv_event (property_entry V p c0))" "listens p (pv_event (property_entry V p c0)) False c1"
    using assms(1) by (auto simp: receive_property_changed_def get_property_cache_def listens_def set_property_value_def Let_def
        split: property_cache.splits)
  have "listens p (pv_event (property_entry V p c0)) (False \<or> (\<exists>u \<in> set us. touches own uncached iface p u))
      (fold (apply_update V own uncached iface) us c1)"
    by (rule listens_fold [OF listens_update e0(2)])
  from listens_other [OF this, of c] c show ?thesis
    using poll_listens unfolding e0(1) by simp
qed

end

text \<open>The first reply among what the join yields, which is the one that counts.\<close>

fun first_reply :: "join_item list \<Rightarrow> (error, (string \<times> zvalue) list) res option" where
  "first_reply [] = None"
| "first_reply (Update _ # its) = first_reply its"
| "first_reply (Populate r # its) = Some r"

lemma init_loop_reply:
  "init_loop V own uncached its c =
     (case first_reply its of
        None \<Rightarrow> (Ok (), c)
      | Some (Ok vals) \<Rightarrow> (Ok (), update_cache V own uncached vals [] c)
      | Some (Err e) \<Rightarrow> (Err e, c)
      | Some Panic \<Rightarrow> (Panic, c))"
  by (induction V own uncached its c rule: init_loop.induct) simp_all

text \<open>All that the task of the cache does to its values, as updates: the values of the reply are like a signal that has them all.\<close>

definition task_updates :: "string \<Rightarrow> join_item list \<Rightarrow> join_item option \<Rightarrow> update list \<Rightarrow> update list" where
  "task_updates iface its buffered us =
     (let later = (case buffered of Some (Update u) \<Rightarrow> [u] | _ \<Rightarrow> []) @ us in
      case first_reply its of
        None \<Rightarrow> later
      | Some (Ok vals) \<Rightarrow> Ok \<lparr>ca_interface_name = iface, ca_changed_properties = vals, ca_invalidated_properties = []\<rparr> # later
      | _ \<Rightarrow> [])"

lemma caching_task_updates:
  "pc_values (caching_task V own uncached iface its buffered us c) =
     pc_values (fold (apply_update V own uncached iface) (task_updates iface its buffered us) c)"
proof -
  have "pc_values (fold (apply_update V own uncached iface) us (x\<lparr>pc_caching_result := r\<rparr>)) =
      pc_values (fold (apply_update V own uncached iface) us x)" for x r
    by (simp add: updates_result)
  then show ?thesis
    by (auto simp: caching_task_def cache_init_def init_loop_reply task_updates_def keep_updated_def apply_update_def [of _ _ _ _ "Ok _"]
        split: option.splits res.splits join_item.splits)
qed

section \<open>Subscriptions of proxies\<close>

text \<open>Each subscription counts its rule up, and a second one for the same proxy, begun before the first was done, gives it back.\<close>

lemma add_match_counts:
  assumes "add_match add_rule rule q st = (Ok ch, st')"
  shows "rule_count st' rule = rule_count st rule + 1"
proof (cases "sb_subscriptions st rule")
  case None
  then show ?thesis
    using assms by (auto simp: add_match_def rule_count_def ask_bus_def Let_def split: if_splits prod.splits res.splits)
next
  case (Some kc)
  then obtain k where "sb_subscriptions st rule = Some (k, snd kc)" "k \<noteq> -1" "sb_subscriptions st' rule = Some (k + 1, snd kc)"
    using assms by (cases kc) (auto simp: add_match_def Let_def split: if_splits)
  moreover from this(2) have "unat (k + 1) = unat k + 1"
    by (metis Suc_eq_plus1 add.commute add_eq_0_iff unatSuc)
  ultimately show ?thesis
    by (simp add: rule_count_def)
qed

lemma remove_match_counts:
  assumes "remove_match remove_rule rule st = (r, st')" "1 < rule_count st rule"
  shows "rule_count st' rule = rule_count st rule - 1 \<and> r = Ok True"
proof -
  obtain k ch where k: "sb_subscriptions st rule = Some (k, ch)" "1 < unat k"
    using assms(2) by (auto simp: rule_count_def split: option.splits)
  then have "k \<noteq> 0" "k \<noteq> 1"
    by auto
  moreover from this(1) have "unat (k - 1) = unat k - 1"
    by (simp add: unat_minus_one)
  ultimately show ?thesis
    using assms(1) k(1) by (auto simp: remove_match_def rule_count_def Let_def)
qed

lemma subscribed_once:
  assumes "subscribe_start add_rule px st = (Ok (Some rule), st1)" "subscribe_start add_rule px st1 = (Ok (Some rule'), st2)"
    "subscribe_finish remove_rule rule px st2 = (r1, px1, st3)" "subscribe_finish remove_rule rule' px1 st3 = (r2, px2, st4)"
  shows "rule_count st4 rule = rule_count st rule + 1" "px_dest_owner_change_match_rule px2 = Some rule" "r1 = Ok ()" "r2 = Ok ()"
proof -
  have start: "px_dest_owner_change_match_rule px = None \<and> rule_count s' r = rule_count s r + 1 \<and>
      (\<exists>name. px_destination px = WellKnown name \<and> owner_rule name = Ok r)"
    if "subscribe_start add_rule px s = (Ok (Some r), s')" for s s' r
    using that by (auto simp: subscribe_start_def dest!: add_match_counts split: if_splits bus_name.splits res.splits prod.splits)
  have one: "px1 = px\<lparr>px_dest_owner_change_match_rule := Some rule\<rparr>" "st3 = st2" "r1 = Ok ()" "rule' = rule"
    using assms(3) start [OF assms(1)] start [OF assms(2)] by (auto simp: subscribe_finish_def)
  then obtain r where r: "remove_match remove_rule rule st2 = (r, st4)" "px2 = px1" "r2 = Ok () \<or> r \<noteq> Ok True"
    using assms(4) by (auto simp: subscribe_finish_def split: prod.splits res.splits)
  have "rule_count st2 rule = rule_count st rule + 2"
    using start [OF assms(1)] start [OF assms(2)] one(4) by simp
  then show "rule_count st4 rule = rule_count st rule + 1" "px_dest_owner_change_match_rule px2 = Some rule" "r1 = Ok ()" "r2 = Ok ()"
    using remove_match_counts [OF r(1)] r one by auto
qed

section \<open>Signals of the owner\<close>

text \<open>
  What the bus does, in order: it gives the name to another connection or takes it away, which it tells in a signal of its own, and it
  passes signals on. A stream should yield those that the owner at that time sent.
\<close>

datatype 'm bus_event = New_Owner "string option" 'm | Sent string 'm

fun from_owner :: "string option \<Rightarrow> 'm bus_event list \<Rightarrow> 'm list" where
  "from_owner owner [] = []"
| "from_owner owner (New_Owner owner' _ # es) = from_owner owner' es"
| "from_owner owner (Sent s m # es) = (if owner = Some s then [m] else []) @ from_owner owner es"

fun bus_message :: "'m bus_event \<Rightarrow> 'm" where
  "bus_message (New_Owner _ m) = m"
| "bus_message (Sent _ m) = m"

text \<open>Messages of these events. The unique name of a connection is not that of the bus, and signals of an interface of the bus come
  from the bus only.\<close>

fun bus_event_ok :: "('m \<Rightarrow> header) \<Rightarrow> ('m \<Rightarrow> (error, owner_args) res) \<Rightarrow> 'm bus_event \<Rightarrow> bool" where
  "bus_event_ok hdr args (New_Owner owner m) \<longleftrightarrow>
     sender (header_fields (hdr m)) = Some dbus_name \<and> is_name_owner_changed (hdr m) \<and> owner \<noteq> Some dbus_name \<and>
     (case args m of Ok a \<Rightarrow> oa_new_owner a = owner | _ \<Rightarrow> False)"
| "bus_event_ok hdr args (Sent s m) \<longleftrightarrow> sender (header_fields (hdr m)) = Some s \<and> \<not> is_name_owner_changed (hdr m)"

lemma signal_next_shorter: "signal_next hdr args src its = Ok (Some (m, src', its')) \<Longrightarrow> length its' < length its"
proof (induction hdr args src its rule: signal_next.induct)
  case (2 hdr args src m its)
  then show ?case
    by (auto split: prod.splits res.splits bool.splits) (meson less_Suc_eq)+
qed auto

text \<open>All that a stream yields.\<close>

function signal_all ::
  "('m \<Rightarrow> header) \<Rightarrow> ('m \<Rightarrow> (error, owner_args) res) \<Rightarrow> string option \<Rightarrow> (error, 'm) res list \<Rightarrow> (error, 'm list) res" where
  "signal_all hdr args src its =
     (case signal_next hdr args src its of
        Ok None \<Rightarrow> Ok []
      | Ok (Some (m, src', its')) \<Rightarrow> map_ok (\<lambda>ms. m # ms) (signal_all hdr args src' its')
      | Err e \<Rightarrow> Err e
      | Panic \<Rightarrow> Panic)"
  by pat_completeness auto

termination
  by (relation "measure (\<lambda>(_, _, _, its). length its)") (auto dest: signal_next_shorter)

declare signal_all.simps [simp del]

lemma signal_all_skip:
  assumes "signal_next hdr args src its = signal_next hdr args src' its'"
  shows "signal_all hdr args src its = signal_all hdr args src' its'"
  using assms by (subst (1 2) signal_all.simps) simp

lemma signals_of_owner:
  assumes "\<forall>e \<in> set es. bus_event_ok hdr args e" "src \<noteq> Some dbus_name"
  shows "signal_all hdr args src (map (\<lambda>e. Ok (bus_message e)) es) = Ok (from_owner src es)"
  using assms
proof (induction es arbitrary: src)
  case Nil
  show ?case by (simp add: signal_all.simps)
next
  case (Cons e es)
  show ?case
  proof (cases e)
    case (New_Owner owner m)
    then have "signal_filter hdr args m src = (Ok False, owner)"
      using Cons.prems by (auto simp: signal_filter_def split: res.splits)
    then have "signal_next hdr args src (Ok m # map (\<lambda>e. Ok (bus_message e)) es) = signal_next hdr args owner (map (\<lambda>e. Ok (bus_message e)) es)"
      by simp
    from signal_all_skip [OF this] show ?thesis
      using Cons.IH [of owner] Cons.prems New_Owner by simp
  next
    case (Sent s m)
    show ?thesis
    proof (cases "src = Some s")
      case True
      then have "signal_filter hdr args m src = (Ok True, src)"
        using Cons.prems Sent by (simp add: signal_filter_def)
      then show ?thesis
        using Cons.IH [of src] Cons.prems Sent True by (subst signal_all.simps) simp
    next
      case False
      then have "signal_filter hdr args m src = (Ok False, src)"
        using Cons.prems Sent by (auto simp: signal_filter_def)
      then have "signal_next hdr args src (Ok m # map (\<lambda>e. Ok (bus_message e)) es) = signal_next hdr args src (map (\<lambda>e. Ok (bus_message e)) es)"
        by simp
      from signal_all_skip [OF this] show ?thesis
        using Cons.IH [of src] Cons.prems Sent False by simp
    qed
  qed
qed

section \<open>Properties\<close>

text \<open>C17: The cache of a proxy has the properties of the service, as of the signals that its task has read: after the reply to
  \<^verbatim>\<open>GetAll\<close>, with the signals before it dropped and one behind it possibly held back by the join, every property that is
  cached and not invalid has the value that the service has, and nothing else is there. So \<^verbatim>\<open>get_property\<close> gives the value of
  the service, by the cache or by a call.\<close>

theorem cache_coherent:
  fixes V :: "('ev, 'l) events"
  assumes "\<forall>e \<in> set es. event_ok iface uncached e" "distinct (map fst vals)" "list_all (\<lambda>(_, v). no_fd v) vals"
    and "event_updates iface es = (case b of Some u \<Rightarrow> [u] | None \<Rightarrow> []) @ us"
    and "s = fold service_step es \<lparr>sv_props = map_of vals, sv_stale = {}\<rparr>"
    and "c = caching_task V (try_to_owned cl) uncached iface (map Update us0 @ [Populate (Ok vals)]) (map_option Update b) us
      (properties_cache_new V)"
  shows "(\<forall>p. cached_property_raw (Some c) p = (if p \<in> set uncached \<or> p \<in> sv_stale s then None else sv_props s p)) \<and>
    (\<forall>p v. sv_props s p = Some v \<longrightarrow> no_fd v \<longrightarrow>
      get_property (try_to_owned cl) conv (\<lambda>p. case sv_props s p of Some v \<Rightarrow> Ok v | None \<Rightarrow> Err e) (Some c) p = Some (conv v))"
proof -
  let ?s = "\<lparr>sv_props = map_of vals, sv_stale = {}\<rparr>"
  have c: "cache_shows uncached s c" "cache_ready c = Some (Ok ())"
    using caching_task_shows [OF assms(1-3) _ _ assms(4,6), of ?s] assms(5) by simp_all
  then have "get_property (try_to_owned cl) conv (\<lambda>p. case sv_props s p of Some v \<Rightarrow> Ok v | None \<Rightarrow> Err e) (Some c) p = Some (conv v)"
    if "sv_props s p = Some v" "no_fd v" for p v
    using that by (cases "conv v") (auto simp: get_property_def cached_property_def cache_shows_def obind_def to_owned_no_fd)
  then show ?thesis
    using c(1) by (simp add: cache_shows_def)
qed

theorem cache_coherent_witness:
  "cached_property_raw (Some (caching_task events_ref (try_to_owned Ok) [] ''a.b'' ([] @ [Populate (Ok [(''p'', Bool True)])])
      (Some (Update (Ok \<lparr>ca_interface_name = ''a.b'', ca_changed_properties = [(''p'', Bool False)], ca_invalidated_properties = []\<rparr>)))
      [] (properties_cache_new events_ref))) ''p'' = Some (Bool False)"
  using cache_coherent [of "[Emit [(''p'', Bool False)] []]" "''a.b''" "[]" "[(''p'', Bool True)]"
      "Some (Ok \<lparr>ca_interface_name = ''a.b'', ca_changed_properties = [(''p'', Bool False)], ca_invalidated_properties = []\<rparr>)" "[]"
      _ _ events_ref Ok "[]" Ok] by simp

text \<open>C20: A stream of changes of a property that is opened before the task of the cache has read the reply to \<^verbatim>\<open>GetAll\<close>, which is what opening
  it first does, has an item when it is polled if and only if that reply has a value for the property, or the change held back with it or one read
  later changes the property or declares it invalid. One that is opened later has an item if and only if such a change was read since.
  Values that cannot be copied do not count, a property that is not to be cached never has an item, and neither has any if the reply is an
  error. It never panics. Without a cache the stream ends at once.\<close>

theorem property_stream_complete:
  assumes "event_laws V" "receive_property_changed V p pc = (l, Cache_Set c1, spawned)"
  shows "fst (property_stream_poll V p l (Cache_Set (caching_task V own uncached iface its buffered us c1))) =
      (if (case first_reply its of
             Some (Ok vals) \<Rightarrow>
               (p \<notin> set uncached \<and> (\<exists>v v'. (p, v) \<in> set vals \<and> own v = Ok v')) \<or>
               (\<exists>u. (buffered = Some (Update u) \<or> u \<in> set us) \<and> touches own uncached iface p u)
           | None \<Rightarrow> \<exists>u. (buffered = Some (Update u) \<or> u \<in> set us) \<and> touches own uncached iface p u
           | _ \<Rightarrow> False)
       then Ok (Ready (Some (ev_listen V (pv_event (the (pc_values (caching_task V own uncached iface its buffered us c1) p))))))
       else Ok Pending) \<and>
    fst (property_stream_poll V p l (Cache_Set (keep_updated V own uncached iface us c1))) =
      (if \<exists>u \<in> set us. touches own uncached iface p u
       then Ok (Ready (Some (ev_listen V (pv_event (the (pc_values (keep_updated V own uncached iface us c1) p)))))) else Ok Pending) \<and>
    fst (property_stream_poll V p l' No_Cache) = Ok (Ready None)"
proof (intro conjI)
  have "(\<exists>u \<in> set (task_updates iface its buffered us). touches own uncached iface p u) =
      (case first_reply its of
         Some (Ok vals) \<Rightarrow>
           (p \<notin> set uncached \<and> (\<exists>v v'. (p, v) \<in> set vals \<and> own v = Ok v')) \<or>
           (\<exists>u. (buffered = Some (Update u) \<or> u \<in> set us) \<and> touches own uncached iface p u)
       | None \<Rightarrow> \<exists>u. (buffered = Some (Update u) \<or> u \<in> set us) \<and> touches own uncached iface p u
       | _ \<Rightarrow> False)"
  proof (cases "first_reply its")
    case None
    then show ?thesis by (auto simp: task_updates_def split: option.splits join_item.splits)
  next
    case (Some r)
    moreover have "touches own uncached iface p (Ok \<lparr>ca_interface_name = iface, ca_changed_properties = vals, ca_invalidated_properties = []\<rparr>) \<longleftrightarrow>
        p \<notin> set uncached \<and> (\<exists>v v'. (p, v) \<in> set vals \<and> own v = Ok v')" for vals
      by (auto simp: touches_def)
    ultimately show ?thesis
      by (cases r) (auto simp: task_updates_def split: option.splits join_item.splits)
  qed
  with event_laws.property_stream [OF assms caching_task_updates]
  show "fst (property_stream_poll V p l (Cache_Set (caching_task V own uncached iface its buffered us c1))) =
      (if (case first_reply its of
             Some (Ok vals) \<Rightarrow>
               (p \<notin> set uncached \<and> (\<exists>v v'. (p, v) \<in> set vals \<and> own v = Ok v')) \<or>
               (\<exists>u. (buffered = Some (Update u) \<or> u \<in> set us) \<and> touches own uncached iface p u)
           | None \<Rightarrow> \<exists>u. (buffered = Some (Update u) \<or> u \<in> set us) \<and> touches own uncached iface p u
           | _ \<Rightarrow> False)
       then Ok (Ready (Some (ev_listen V (pv_event (the (pc_values (caching_task V own uncached iface its buffered us c1) p))))))
       else Ok Pending)"
    by simp
  show "fst (property_stream_poll V p l (Cache_Set (keep_updated V own uncached iface us c1))) =
      (if \<exists>u \<in> set us. touches own uncached iface p u
       then Ok (Ready (Some (ev_listen V (pv_event (the (pc_values (keep_updated V own uncached iface us c1) p)))))) else Ok Pending)"
    by (rule event_laws.property_stream [OF assms]) (simp add: keep_updated_def)
  show "fst (property_stream_poll V p l' No_Cache) = Ok (Ready None)"
    by (simp add: property_stream_poll_def get_property_cache_def)
qed

theorem property_stream_complete_witness:
  "\<exists>c1 l'. receive_property_changed events_ref ''p'' Cache_Unset = (0, Cache_Set c1, True) \<and>
     fst (property_stream_poll events_ref ''p'' 0 (Cache_Set (caching_task events_ref Ok [] ''a.b'' [Populate (Ok [(''p'', Bool True)])] None [] c1))) =
       Ok (Ready (Some l')) \<and>
     fst (property_stream_poll events_ref ''p'' 0 (Cache_Set (caching_task events_ref Ok [''p''] ''a.b'' [Populate (Ok [(''p'', Bool True)])] None [] c1))) =
       Ok Pending"
proof -
  let ?c1 = "\<lparr>pc_values = [''p'' \<mapsto> \<lparr>pv_value = None, pv_event = 0\<rparr>], pc_caching_result = Caching 0\<rparr>"
  have "receive_property_changed events_ref ''p'' Cache_Unset = (0, Cache_Set ?c1, True)"
    by (simp add: receive_property_changed_def get_property_cache_def property_entry_def properties_cache_new_def set_property_value_def
        events_ref_def Let_def)
  with property_stream_complete [OF ev.event_laws_axioms this, where own = Ok and uncached = "[]" and iface = "''a.b''"
      and its = "[Populate (Ok [(''p'', Bool True)])]" and buffered = None and us = "[]"]
    property_stream_complete [OF ev.event_laws_axioms this, where own = Ok and uncached = "[''p'']" and iface = "''a.b''"
      and its = "[Populate (Ok [(''p'', Bool True)])]" and buffered = None and us = "[]"]
  show ?thesis by (intro exI conjI) auto
qed

text \<open>C39: \<^verbatim>\<open>PropertyChanged::get_raw\<close> holds no lock between its steps. If the task of the cache reads a newer value before the reply to
  \<^verbatim>\<open>Get\<close> is stored, the older value stays in the cache; and if it reads that the property is invalid after the reply was
  stored, the value that is returned panics when it is used.\<close>

theorem get_raw_races:
  assumes "pc_values c p = Some e" "p \<notin> set uncached" "own new = Ok new"
  shows "(\<exists>c'. get_raw_store p old (update_cache V own uncached [(p, new)] [] c) = Ok c' \<and>
      cached_property_raw (Some c') p = Some old) \<and>
    (\<exists>c'. get_raw_store p old c = Ok c' \<and> get_raw_deref p (update_cache V own uncached [] [p] c') = Panic)"
  using assms
  by (simp add: get_raw_store_def get_raw_deref_def update_cache_def change_property_def property_entry_def
      invalidate_property_def set_property_value_def cached_property_raw_def)

theorem get_raw_races_witness:
  "\<exists>c'. get_raw_store ''p'' (Bool False) \<lparr>pc_values = [''p'' \<mapsto> \<lparr>pv_value = None, pv_event = 0\<rparr>], pc_caching_result = Cached (Ok ())\<rparr> = Ok c' \<and>
     get_raw_deref ''p'' (update_cache events_ref Ok [] [] [''p''] c') = Panic"
  using get_raw_races [of "\<lparr>pc_values = [''p'' \<mapsto> \<lparr>pv_value = None, pv_event = 0\<rparr>], pc_caching_result = Cached (Ok ())\<rparr>" "''p''"
      "\<lparr>pv_value = None, pv_event = 0\<rparr>" "[]" Ok "Bool True" "Bool False" events_ref] by simp

text \<open>C19: A stream of signals of a proxy for a well-known name yields, in order, the signals of whoever owns the name when they are
  sent, from the owner that the reply to \<^verbatim>\<open>GetNameOwner\<close> tells over all changes that follow, one of which the join may have
  held back when the stream was made. But if this one takes the name away, it is lost: the stream goes on with the old owner.\<close>

theorem signals_follow_owner:
  assumes "\<forall>e \<in> set (q @ es). bus_event_ok hdr args e" "owner \<noteq> Some dbus_name"
    and "owner = (case rep of Ok r \<Rightarrow> (case r of Ok n \<Rightarrow> Some n | _ \<Rightarrow> None) | _ \<Rightarrow> None)" "\<forall>r. rep = Ok r \<longrightarrow> (\<exists>n. r = Ok n)"
    and "q = [] \<and> queued = None \<or>
      (\<exists>o' m. q = [New_Owner o' m] \<and> queued = Some (Changed (Ok m)) \<and> (\<forall>a. args m = Ok a \<longrightarrow> oa_name a = WellKnown name))"
  shows "\<exists>src. stream_owner hdr args (WellKnown name) [Owner_Reply rep] queued = Ok src \<and>
    ((\<forall>m. q \<noteq> [New_Owner None m]) \<longrightarrow> signal_all hdr args src (map (\<lambda>e. Ok (bus_message e)) es) = Ok (from_owner owner (q @ es))) \<and>
    ((\<exists>m. q = [New_Owner None m]) \<longrightarrow> signal_all hdr args src (map (\<lambda>e. Ok (bus_message e)) es) = Ok (from_owner owner es))"
proof -
  let ?src = "owner_queued hdr args name queued owner"
  have "stream_owner hdr args (WellKnown name) [Owner_Reply rep] queued = Ok ?src"
    using assms(3,4) by (cases rep) (auto simp: stream_owner_def)
  moreover have "?src = (case q of [New_Owner (Some o') m] \<Rightarrow> Some o' | _ \<Rightarrow> owner)"
    using assms(1,5) by (auto simp: owner_queued_def split: option.splits res.splits)
  moreover have "signal_all hdr args src (map (\<lambda>e. Ok (bus_message e)) es) = Ok (from_owner src es)" if "src \<noteq> Some dbus_name" for src
    using assms(1) that by (intro signals_of_owner) auto
  ultimately show ?thesis
    using assms(1,2,5) by (auto split: option.splits)
qed

text \<open>Messages that are named by their senders, and one of the bus that tells of a new owner.\<close>

definition sample_header :: "string \<Rightarrow> header" where
  "sample_header s = \<lparr>primary = \<lparr>endian_sig = LittleSig, msg_type = Signal, flags = byte_of 0, protocol_version = byte_of 1, body_len = 0,
     serial_num = 1\<rparr>, header_fields = \<lparr>path = None, interface = if s = dbus_name then Some dbus_name else None,
     member = if s = dbus_name then Some ''NameOwnerChanged'' else None, error_name = None, reply_serial = None,
     destination = None, sender = Some s, body_signature = signature.Unit, unix_fds = None\<rparr>\<rparr>"

definition sample_args :: "string \<Rightarrow> (error, owner_args) res" where
  "sample_args s = (if s = dbus_name then Ok \<lparr>oa_name = WellKnown ''a.b'', oa_new_owner = Some '':1.8''\<rparr> else Err IoError)"

theorem signals_follow_owner_witness:
  "\<exists>src. stream_owner sample_header sample_args (WellKnown ''a.b'') [Owner_Reply (Ok (Ok '':1.7''))] None = Ok src \<and>
     signal_all sample_header sample_args src [Ok '':1.7'', Ok '':1.8'', Ok dbus_name, Ok '':1.7'', Ok '':1.8''] = Ok ['':1.7'', '':1.8'']"
proof -
  let ?es = "[Sent '':1.7'' '':1.7'', Sent '':1.8'' '':1.8'', New_Owner (Some '':1.8'') dbus_name, Sent '':1.7'' '':1.7'', Sent '':1.8'' '':1.8'']"
  have ok: "\<forall>e \<in> set ([] @ ?es). bus_event_ok sample_header sample_args e"
    by (simp add: sample_header_def sample_args_def is_name_owner_changed_def dbus_name_def)
  have "Some '':1.7'' \<noteq> Some dbus_name"
    by (simp add: dbus_name_def)
  from signals_follow_owner [OF ok this, of "Ok (Ok '':1.7'')" None "''a.b''"]
  obtain src where src: "stream_owner sample_header sample_args (WellKnown ''a.b'') [Owner_Reply (Ok (Ok '':1.7''))] None = Ok src"
      "signal_all sample_header sample_args src (map (\<lambda>e. Ok (bus_message e)) ?es) = Ok (from_owner (Some '':1.7'') ([] @ ?es))"
    by auto
  then show ?thesis
    by (intro exI [of _ src]) simp
qed

end
