(* ===== verification/Address.thy ===== *)
theory Address
  imports Prelude
begin

text \<open>
  D-Bus server addresses, \<^verbatim>\<open>zbus/src/address\<close> (the transports of a Linux build): percent encoding
  and decoding, the key-value iterator, parsing and printing of every transport, the checks of
  \<^verbatim>\<open>Address::new\<close>, and address lists. Addresses are looked at byte by byte: all the characters
  that matter are ASCII. An \<^verbatim>\<open>OsStr\<close> here always comes from a checked UTF-8 string, so printing it
  loses nothing. The texts of encoding errors are not modelled.
\<close>

section \<open>Percent encoding\<close>

datatype addr_error =
    UnknownTransport
  | MissingTransport
  | Encoding
  | DuplicateKey string
  | MissingKey string
  | MissingValue string
  | InvalidValue string
  | UnknownTcpFamily string
  | Other

definition is_allowed_char :: "byte \<Rightarrow> bool" where
  "is_allowed_char c \<longleftrightarrow> is_ascii_alphanumeric c \<or> c \<in> set ''-_/.*'' \<or> code c = 92"

definition hex_upper :: "nat \<Rightarrow> byte" where
  "hex_upper n = (if n < 10 then byte_of (48 + n) else byte_of (55 + n))"

definition encode_byte :: "byte \<Rightarrow> string" where
  "encode_byte b =
     (if is_allowed_char b then [b] else [CHR ''%'', hex_upper (code b div 16), hex_upper (code b mod 16)])"

definition encode_percents :: "byte list \<Rightarrow> string" where
  "encode_percents v = concat (map encode_byte v)"

definition decode_hex :: "byte \<Rightarrow> (addr_error, nat) res" where
  "decode_hex c =
     (if is_ascii_digit c then Ok (code c - 48)
      else if 97 \<le> code c \<and> code c \<le> 102 then Ok (code c - 97 + 10)
      else if 65 \<le> code c \<and> code c \<le> 70 then Ok (code c - 65 + 10)
      else Err Encoding)"

definition decode_hex_pair :: "byte \<Rightarrow> byte \<Rightarrow> (addr_error, byte) res" where
  "decode_hex_pair high low =
     bind_res (decode_hex high) (\<lambda>h. bind_res (decode_hex low) (\<lambda>l. Ok (byte_of (16 * h + l))))"

fun decode_loop :: "string \<Rightarrow> (addr_error, byte list) res" where
  "decode_loop [] = Ok []"
| "decode_loop (c # cs) =
     (if c = CHR ''%'' then
        (case cs of
           high # low # rest \<Rightarrow>
             bind_res (decode_hex_pair high low) (\<lambda>b. bind_res (decode_loop rest) (\<lambda>bs. Ok (b # bs)))
         | _ \<Rightarrow> Err Encoding)
      else if is_allowed_char c then bind_res (decode_loop cs) (\<lambda>bs. Ok (c # bs))
      else Err Encoding)"

definition decode_percents :: "string \<Rightarrow> (addr_error, byte list) res" where
  "decode_percents v =
     (if list_ex (\<lambda>c. c = CHR ''%'' \<or> \<not> is_allowed_char c) v then decode_loop v else Ok v)"

text \<open>\<^verbatim>\<open>decode_percents_str\<close> and \<^verbatim>\<open>decode_percents_os_str\<close>.\<close>

definition decode_percents_str :: "string \<Rightarrow> (addr_error, string) res" where
  "decode_percents_str v =
     bind_res (decode_percents v) (\<lambda>bs. if valid_utf8 bs then Ok bs else Err Encoding)"

section \<open>Keys and values\<close>

text \<open>\<^verbatim>\<open>pair.split('=')\<close>: the key is what stands before the first \<^verbatim>\<open>=\<close>, the value what stands between
  the first and the second.\<close>

definition split_pair :: "string \<Rightarrow> string \<times> string option" where
  "split_pair pair =
     (case break_at (CHR ''='') pair of (key, rest) \<Rightarrow> (key, map_option (\<lambda>r. fst (break_at (CHR ''='') r)) rest))"

text \<open>\<^verbatim>\<open>KeyValIter\<close>: the pairs between commas; an empty rest ends the iteration.\<close>

function key_vals :: "string \<Rightarrow> (string \<times> string option) list" where
  "key_vals s =
     (if s = [] then []
      else case break_at (CHR '','') s of
        (pair, Some rest) \<Rightarrow> split_pair pair # key_vals rest
      | (pair, None) \<Rightarrow> [split_pair pair])"
  by pat_completeness auto

termination
  by (relation "measure length") (use break_at_length in \<open>auto dest: sym\<close>)

declare key_vals.simps [simp del]

definition key_val_iter :: "string \<Rightarrow> (string \<times> string option) list" where
  "key_val_iter addr = (case break_at (CHR '':'') addr of (_, Some kv) \<Rightarrow> key_vals kv | (_, None) \<Rightarrow> [])"

section \<open>Transports\<close>

datatype tcp_family = IPv4 | IPv6

definition tcp_family_str :: "tcp_family \<Rightarrow> string" where
  "tcp_family_str f = (case f of IPv4 \<Rightarrow> ''ipv4'' | IPv6 \<Rightarrow> ''ipv6'')"

definition tcp_family_try_from :: "string \<Rightarrow> (addr_error, tcp_family) res" where
  "tcp_family_try_from s =
     (if s = ''ipv4'' then Ok IPv4 else if s = ''ipv6'' then Ok IPv6 else Err (UnknownTcpFamily s))"

datatype unix_addr_kind = Path string | Dir string | Tmpdir string | Abstract "byte list" | Runtime

record tcp =
  host :: "string option"
  bind :: "string option"
  port :: "nat option"
  family :: "tcp_family option"

record nonce_tcp = tcp +
  noncefile :: "string option"

record unixexec =
  exec_path :: string
  argv :: "(nat \<times> string) list"

record vsock =
  v_cid :: "nat option"
  v_port :: "nat option"

datatype transport =
    Unix unix_addr_kind
  | Systemd
  | Tcp tcp
  | NonceTcp nonce_tcp
  | Unixexec unixexec
  | Autolaunch
  | Vsock vsock

type_synonym kv = "string \<times> string option"

definition parse_port :: "nat \<Rightarrow> string \<Rightarrow> string \<Rightarrow> (addr_error, nat) res" where
  "parse_port m k v =
     bind_res (decode_percents_str v) (\<lambda>s.
       case parse_uint m s of Some n \<Rightarrow> Ok n | None \<Rightarrow> Err (InvalidValue k))"

definition tcp_step :: "kv \<Rightarrow> 'a tcp_scheme \<Rightarrow> (addr_error, 'a tcp_scheme) res" where
  "tcp_step kv t =
     (case kv of
        (k, None) \<Rightarrow> Ok t
      | (k, Some v) \<Rightarrow>
          if k = ''host'' then bind_res (decode_percents_str v) (\<lambda>s. Ok (t\<lparr>host := Some s\<rparr>))
          else if k = ''bind'' then bind_res (decode_percents_str v) (\<lambda>s. Ok (t\<lparr>bind := Some s\<rparr>))
          else if k = ''port'' then bind_res (parse_port 65535 ''port'' v) (\<lambda>n. Ok (t\<lparr>port := Some n\<rparr>))
          else if k = ''family'' then
            bind_res (decode_percents_str v) (\<lambda>s. bind_res (tcp_family_try_from s) (\<lambda>f.
              Ok (t\<lparr>family := Some f\<rparr>)))
          else Ok t)"

definition tcp_try_from :: "kv list \<Rightarrow> (addr_error, tcp) res" where
  "tcp_try_from kvs = fold_res tcp_step kvs \<lparr>host = None, bind = None, port = None, family = None\<rparr>"

definition nonce_tcp_step :: "kv \<Rightarrow> nonce_tcp \<Rightarrow> (addr_error, nonce_tcp) res" where
  "nonce_tcp_step kv t =
     (case kv of
        (k, Some v) \<Rightarrow>
          if k = ''noncefile'' then bind_res (decode_percents_str v) (\<lambda>s. Ok (t\<lparr>noncefile := Some s\<rparr>))
          else tcp_step kv t
      | _ \<Rightarrow> Ok t)"

definition nonce_tcp_try_from :: "kv list \<Rightarrow> (addr_error, nonce_tcp) res" where
  "nonce_tcp_try_from kvs = fold_res nonce_tcp_step kvs
     \<lparr>host = None, bind = None, port = None, family = None, noncefile = None\<rparr>"

definition vsock_step :: "kv \<Rightarrow> vsock \<Rightarrow> (addr_error, vsock) res" where
  "vsock_step kv t =
     (case kv of
        (k, Some v) \<Rightarrow>
          if k = ''port'' then bind_res (parse_port (2 ^ 32 - 1) k v) (\<lambda>n. Ok (t\<lparr>v_port := Some n\<rparr>))
          else if k = ''cid'' then bind_res (parse_port (2 ^ 32 - 1) k v) (\<lambda>n. Ok (t\<lparr>v_cid := Some n\<rparr>))
          else Ok t
      | _ \<Rightarrow> Ok t)"

definition vsock_try_from :: "kv list \<Rightarrow> (addr_error, vsock) res" where
  "vsock_try_from kvs = fold_res vsock_step kvs \<lparr>v_cid = None, v_port = None\<rparr>"

text \<open>The loop of \<^verbatim>\<open>unixexec:\<close> collects the path and the numbered arguments, which are sorted by
  their number (a stable sort).\<close>

definition exec_step ::
  "kv \<Rightarrow> string option \<times> (nat \<times> string) list \<Rightarrow> (addr_error, string option \<times> (nat \<times> string) list) res" where
  "exec_step kv s =
     (case kv of
        (k, Some v) \<Rightarrow>
          if k = ''path'' then bind_res (decode_percents_str v) (\<lambda>p. Ok (Some p, snd s))
          else if prefix ''argv'' k then
            (case parse_uint (2 ^ 64 - 1) (drop 4 k) of
               None \<Rightarrow> Err (InvalidValue k)
             | Some n \<Rightarrow> bind_res (decode_percents_str v) (\<lambda>arg. Ok (fst s, snd s @ [(n, arg)])))
          else Ok s
      | _ \<Rightarrow> Ok s)"

definition unixexec_try_from :: "kv list \<Rightarrow> (addr_error, unixexec) res" where
  "unixexec_try_from kvs =
     bind_res (fold_res exec_step kvs (None, [])) (\<lambda>(path, args).
       case path of
         None \<Rightarrow> Err (MissingKey ''path'')
       | Some p \<Rightarrow> Ok \<lparr>exec_path = p, argv = sort_key fst args\<rparr>)"

definition unix_kind_keys :: "string set" where
  "unix_kind_keys = {''path'', ''dir'', ''tmpdir'', ''abstract'', ''runtime''}"

text \<open>The first pair with a key of a kind decides; a second one is an error.\<close>

fun unix_try_from :: "kv list \<Rightarrow> (addr_error, unix_addr_kind) res" where
  "unix_try_from [] = Err Other"
| "unix_try_from ((k, v) # kvs) =
     (if k \<in> unix_kind_keys then
        bind_res (case v of None \<Rightarrow> Err (MissingValue k) | Some v \<Rightarrow> Ok v) (\<lambda>v.
        bind_res
          (if k = ''abstract'' then bind_res (decode_percents v) (\<lambda>b. Ok (Abstract b))
           else bind_res (decode_percents_str v) (\<lambda>s.
             if k = ''path'' then Ok (Path s)
             else if k = ''dir'' then Ok (Dir s)
             else if k = ''tmpdir'' then Ok (Tmpdir s)
             else if s = ''yes'' then Ok Runtime else Err (InvalidValue k))) (\<lambda>kind.
        if list_ex (\<lambda>(k, _). k \<in> unix_kind_keys) kvs then Err Other else Ok kind))
      else unix_try_from kvs)"

definition transport_try_from :: "string \<Rightarrow> (addr_error, transport) res" where
  "transport_try_from addr =
     (case break_at (CHR '':'') addr of
        (_, None) \<Rightarrow> Err MissingTransport
      | (t, Some _) \<Rightarrow>
          let kvs = key_val_iter addr in
          if t = ''unix'' then bind_res (unix_try_from kvs) (\<lambda>x. Ok (Unix x))
          else if t = ''systemd'' then Ok Systemd
          else if t = ''tcp'' then bind_res (tcp_try_from kvs) (\<lambda>x. Ok (Tcp x))
          else if t = ''nonce-tcp'' then bind_res (nonce_tcp_try_from kvs) (\<lambda>x. Ok (NonceTcp x))
          else if t = ''unixexec'' then bind_res (unixexec_try_from kvs) (\<lambda>x. Ok (Unixexec x))
          else if t = ''autolaunch'' then Ok Autolaunch
          else if t = ''vsock'' then bind_res (vsock_try_from kvs) (\<lambda>x. Ok (Vsock x))
          else Err UnknownTransport)"

section \<open>Printing\<close>

text \<open>\<^verbatim>\<open>KeyValFmt\<close>: the list of its pairs, the values not yet encoded.\<close>

type_synonym key_val_fmt = "(string \<times> byte list) list"

definition kv_add :: "key_val_fmt \<Rightarrow> string \<Rightarrow> byte list option \<Rightarrow> key_val_fmt" where
  "kv_add kv k v = (case v of None \<Rightarrow> kv | Some v \<Rightarrow> kv @ [(k, v)])"

fun kv_fmt :: "key_val_fmt \<Rightarrow> string" where
  "kv_fmt [] = []"
| "kv_fmt [(k, v)] = k @ ''='' @ encode_percents v"
| "kv_fmt ((k, v) # kv) = k @ ''='' @ encode_percents v @ '','' @ kv_fmt kv"

definition unix_kv_add :: "unix_addr_kind \<Rightarrow> key_val_fmt \<Rightarrow> key_val_fmt" where
  "unix_kv_add kind kv =
     (case kind of
        Path p \<Rightarrow> kv_add kv ''path'' (Some p)
      | Dir p \<Rightarrow> kv_add kv ''dir'' (Some p)
      | Tmpdir p \<Rightarrow> kv_add kv ''tmpdir'' (Some p)
      | Abstract p \<Rightarrow> kv_add kv ''abstract'' (Some p)
      | Runtime \<Rightarrow> kv_add kv ''runtime'' (Some ''yes''))"

definition tcp_kv_add :: "'a tcp_scheme \<Rightarrow> key_val_fmt \<Rightarrow> key_val_fmt" where
  "tcp_kv_add t kv =
     kv_add (kv_add (kv_add (kv_add kv ''host'' (host t)) ''bind'' (bind t))
       ''port'' (map_option show_nat (port t))) ''family'' (map_option tcp_family_str (family t))"

definition nonce_tcp_kv_add :: "nonce_tcp \<Rightarrow> key_val_fmt \<Rightarrow> key_val_fmt" where
  "nonce_tcp_kv_add t kv = kv_add (tcp_kv_add t kv) ''noncefile'' (noncefile t)"

definition vsock_kv_add :: "vsock \<Rightarrow> key_val_fmt \<Rightarrow> key_val_fmt" where
  "vsock_kv_add t kv =
     kv_add (kv_add kv ''cid'' (map_option show_nat (v_cid t))) ''port'' (map_option show_nat (v_port t))"

definition unixexec_kv_add :: "unixexec \<Rightarrow> key_val_fmt \<Rightarrow> key_val_fmt" where
  "unixexec_kv_add t kv =
     foldl (\<lambda>kv (n, arg). kv_add kv (''argv'' @ show_nat n) (Some arg))
       (kv_add kv ''path'' (Some (exec_path t))) (argv t)"

fun transport_name :: "transport \<Rightarrow> string" where
  "transport_name (Unix _) = ''unix''"
| "transport_name Systemd = ''systemd''"
| "transport_name (Tcp _) = ''tcp''"
| "transport_name (NonceTcp _) = ''nonce-tcp''"
| "transport_name (Unixexec _) = ''unixexec''"
| "transport_name Autolaunch = ''autolaunch''"
| "transport_name (Vsock _) = ''vsock''"

fun transport_kv_add :: "transport \<Rightarrow> key_val_fmt \<Rightarrow> key_val_fmt" where
  "transport_kv_add (Unix t) kv = unix_kv_add t kv"
| "transport_kv_add Systemd kv = kv"
| "transport_kv_add (Tcp t) kv = tcp_kv_add t kv"
| "transport_kv_add (NonceTcp t) kv = nonce_tcp_kv_add t kv"
| "transport_kv_add (Unixexec t) kv = unixexec_kv_add t kv"
| "transport_kv_add Autolaunch kv = kv"
| "transport_kv_add (Vsock t) kv = vsock_kv_add t kv"

section \<open>Addresses\<close>

definition is_ascii_hexdigit :: "byte \<Rightarrow> bool" where
  "is_ascii_hexdigit c \<longleftrightarrow> is_ascii_digit c \<or> (97 \<le> code c \<and> code c \<le> 102) \<or> (65 \<le> code c \<and> code c \<le> 70)"

definition validate_guid :: "byte list \<Rightarrow> (addr_error, unit) res" where
  "validate_guid v =
     (if length v \<noteq> 32 \<or> list_ex (\<lambda>c. \<not> is_ascii_hexdigit c) v then Err (InvalidValue ''guid'') else Ok ())"

definition validate_step :: "kv \<Rightarrow> unit \<Rightarrow> (addr_error, unit) res" where
  "validate_step kv u =
     (case kv of (k, v) \<Rightarrow>
        bind_res (case v of Some v \<Rightarrow> decode_percents v | None \<Rightarrow> Ok []) (\<lambda>v.
          if k = ''guid'' then validate_guid v else Ok ()))"

definition validate :: "string \<Rightarrow> (addr_error, unit) res" where
  "validate addr =
     bind_res (transport_try_from addr) (\<lambda>_. fold_res validate_step (key_val_iter addr) ())"

definition address_new :: "string \<Rightarrow> (addr_error, string) res" where
  "address_new addr = bind_res (validate addr) (\<lambda>_. Ok addr)"

text \<open>The last pair of the key wins, also when it has no value.\<close>

definition get_string :: "string \<Rightarrow> string \<Rightarrow> (addr_error, string) res option" where
  "get_string addr key =
     map_option decode_percents_str
       (foldl (\<lambda>val (k, v). if key = k then v else val) None (key_val_iter addr))"

definition guid :: "string \<Rightarrow> string option" where
  "guid addr = (case get_string addr ''guid'' of Some (Ok g) \<Rightarrow> Some g | _ \<Rightarrow> None)"

text \<open>\<^verbatim>\<open>Display for Address\<close>.\<close>

definition address_fmt :: "string option \<Rightarrow> transport \<Rightarrow> string" where
  "address_fmt g t = transport_name t @ '':'' @ kv_fmt (transport_kv_add t (kv_add [] ''guid'' g))"

definition address_display :: "string \<Rightarrow> (addr_error, string) res" where
  "address_display addr = bind_res (transport_try_from addr) (\<lambda>t. Ok (address_fmt (guid addr) t))"

text \<open>\<^verbatim>\<open>AddressListIter\<close>.\<close>

function address_list :: "string \<Rightarrow> (addr_error, string) res list" where
  "address_list s =
     (if s = [] then []
      else case break_at (CHR '';'') s of
        (addr, Some rest) \<Rightarrow> address_new addr # address_list rest
      | (addr, None) \<Rightarrow> [address_new addr])"
  by pat_completeness auto

termination
  by (relation "measure length") (use break_at_length in \<open>auto dest: sym\<close>)

declare address_list.simps [simp del]

section \<open>Percent encoding is inverted by decoding\<close>

lemma percent_not_allowed [simp]: "\<not> is_allowed_char (CHR ''%'')"
  by (simp add: is_allowed_char_def ascii_defs)

lemma decode_hex_upper: "n < 16 \<Longrightarrow> decode_hex (hex_upper n) = Ok n"
  by (auto simp: decode_hex_def hex_upper_def is_ascii_digit_def)

lemma code_div_16 [simp]: "code b div 16 < 16"
  by (simp add: less_mult_imp_div_less)

lemma decode_hex_pair_upper:
  "decode_hex_pair (hex_upper (code b div 16)) (hex_upper (code b mod 16)) = Ok b"
  by (simp add: decode_hex_pair_def decode_hex_upper)

lemma decode_loop_encode_byte:
  "decode_loop (encode_byte b @ s) = bind_res (decode_loop s) (\<lambda>bs. Ok (b # bs))"
  by (auto simp: encode_byte_def decode_hex_pair_upper)

lemma decode_loop_encode: "decode_loop (encode_percents v) = Ok v"
  unfolding encode_percents_def by (induction v) (simp_all add: decode_loop_encode_byte)

lemma encode_allowed:
  "\<not> list_ex (\<lambda>c. c = CHR ''%'' \<or> \<not> is_allowed_char c) (encode_percents v) \<Longrightarrow> encode_percents v = v"
  unfolding encode_percents_def
  by (induction v) (auto simp: encode_byte_def split: if_splits)

lemma decode_encode: "decode_percents (encode_percents v) = Ok v"
  using decode_loop_encode [of v] encode_allowed [of v] by (auto simp: decode_percents_def)

lemma decode_str_encode: "valid_utf8 v \<Longrightarrow> decode_percents_str (encode_percents v) = Ok v"
  by (simp add: decode_percents_str_def decode_encode)

text \<open>The characters that separate the parts of an address do not occur in an encoded value.\<close>

definition separator :: "byte \<Rightarrow> bool" where
  "separator c \<longleftrightarrow> c \<in> set '',=:;''"

lemma hex_upper_no_separator: "n < 16 \<Longrightarrow> \<not> separator (hex_upper n)"
  by (auto simp: hex_upper_def separator_def dest: arg_cong [where f = code])

lemma allowed_no_separator: "is_allowed_char c \<Longrightarrow> \<not> separator c"
  by (auto simp: is_allowed_char_def separator_def ascii_defs)

lemma encode_no_separator: "c \<in> set (encode_percents v) \<Longrightarrow> \<not> separator c"
proof -
  assume "c \<in> set (encode_percents v)"
  then obtain b where "c \<in> set (encode_byte b)" by (auto simp: encode_percents_def)
  then show ?thesis
    by (auto simp: encode_byte_def hex_upper_no_separator split: if_splits dest: allowed_no_separator)
      (auto simp: separator_def)
qed

lemma encode_separators:
  "CHR '','' \<notin> set (encode_percents v)" "CHR ''='' \<notin> set (encode_percents v)"
  "CHR '':'' \<notin> set (encode_percents v)" "CHR '';'' \<notin> set (encode_percents v)"
  using encode_no_separator [of _ v] by (auto simp: separator_def)

section \<open>Reading back the printed pairs\<close>

definition key_ok :: "string \<Rightarrow> bool" where
  "key_ok k \<longleftrightarrow> CHR '','' \<notin> set k \<and> CHR ''='' \<notin> set k"

lemma split_pair_fmt: "key_ok k \<Longrightarrow> split_pair (k @ CHR ''='' # encode_percents v) = (k, Some (encode_percents v))"
  by (simp add: split_pair_def key_ok_def break_at_append break_at_absent encode_separators)

lemma key_vals_fmt:
  "list_all (\<lambda>(k, _). key_ok k) kv \<Longrightarrow> key_vals (kv_fmt kv) = map (\<lambda>(k, v). (k, Some (encode_percents v))) kv"
proof (induction kv rule: kv_fmt.induct)
  case 1
  then show ?case by (simp add: key_vals.simps)
next
  case (2 k v)
  then have "break_at (CHR '','') (k @ CHR ''='' # encode_percents v) = (k @ CHR ''='' # encode_percents v, None)"
    by (intro break_at_absent) (auto simp: key_ok_def encode_separators)
  with 2 show ?case by (subst key_vals.simps) (simp add: split_pair_fmt)
next
  case (3 k v x kv)
  let ?r = "kv_fmt (x # kv)"
  have "break_at (CHR '','') ((k @ CHR ''='' # encode_percents v) @ CHR '','' # ?r) =
      (k @ CHR ''='' # encode_percents v, Some ?r)"
    using 3 by (intro break_at_append) (auto simp: key_ok_def encode_separators)
  with 3 show ?case by (subst key_vals.simps) (simp add: split_pair_fmt)
qed

lemma key_val_iter_fmt:
  assumes "CHR '':'' \<notin> set n" "list_all (\<lambda>(k, _). key_ok k) kv"
  shows "key_val_iter (n @ '':'' @ kv_fmt kv) = map (\<lambda>(k, v). (k, Some (encode_percents v))) kv"
  using assms by (simp add: key_val_iter_def break_at_append key_vals_fmt)

section \<open>Reading back a transport\<close>

text \<open>What every parsed transport satisfies.\<close>

fun unix_ok :: "unix_addr_kind \<Rightarrow> bool" where
  "unix_ok (Path p) = valid_utf8 p"
| "unix_ok (Dir p) = valid_utf8 p"
| "unix_ok (Tmpdir p) = valid_utf8 p"
| "unix_ok _ = True"

definition tcp_ok :: "'a tcp_scheme \<Rightarrow> bool" where
  "tcp_ok t \<longleftrightarrow> pred_option valid_utf8 (host t) \<and> pred_option valid_utf8 (bind t) \<and>
     pred_option (\<lambda>n. n \<le> 65535) (port t)"

fun transport_ok :: "transport \<Rightarrow> bool" where
  "transport_ok (Unix k) = unix_ok k"
| "transport_ok (Tcp t) = tcp_ok t"
| "transport_ok (NonceTcp t) = (tcp_ok t \<and> pred_option valid_utf8 (noncefile t))"
| "transport_ok (Unixexec t) = (valid_utf8 (exec_path t) \<and> sorted (map fst (argv t)) \<and>
     list_all (\<lambda>(n, a). n \<le> 2 ^ 64 - 1 \<and> valid_utf8 a) (argv t))"
| "transport_ok (Vsock t) = (pred_option (\<lambda>n. n \<le> 2 ^ 32 - 1) (v_cid t) \<and> pred_option (\<lambda>n. n \<le> 2 ^ 32 - 1) (v_port t))"
| "transport_ok _ = True"

lemma is_ascii_show: "is_ascii (show_nat n)"
  using show_nat_digits [of n] by (auto simp: is_ascii_def list_all_iff is_ascii_digit_def)

lemma parse_port_show: "n \<le> m \<Longrightarrow> parse_port m k (encode_percents (show_nat n)) = Ok n"
  by (simp add: parse_port_def decode_str_encode valid_utf8_ascii is_ascii_show parse_show)

lemma family_fmt:
  "bind_res (decode_percents_str (encode_percents (tcp_family_str f))) tcp_family_try_from = Ok f"
  by (cases f) (simp_all add: decode_str_encode tcp_family_str_def tcp_family_try_from_def)

abbreviation encoded :: "key_val_fmt \<Rightarrow> kv list" where
  "encoded kv \<equiv> map (\<lambda>(k, v). (k, Some (encode_percents v))) kv"

lemma encoded_kv_add:
  "fold_res f (encoded (kv_add kv k v)) s =
     bind_res (fold_res f (encoded kv) s) (\<lambda>s. case v of None \<Rightarrow> Ok s | Some v \<Rightarrow> f (k, Some (encode_percents v)) s)"
  by (auto simp: kv_add_def fold_res_append fold_res_single split: option.splits)

lemma tcp_steps:
  "valid_utf8 s \<Longrightarrow> tcp_step (''host'', Some (encode_percents s)) t = Ok (t\<lparr>host := Some s\<rparr>)"
  "valid_utf8 s \<Longrightarrow> tcp_step (''bind'', Some (encode_percents s)) t = Ok (t\<lparr>bind := Some s\<rparr>)"
  "n \<le> 65535 \<Longrightarrow> tcp_step (''port'', Some (encode_percents (show_nat n))) t = Ok (t\<lparr>port := Some n\<rparr>)"
  "tcp_step (''family'', Some (encode_percents (tcp_family_str f))) t = Ok (t\<lparr>family := Some f\<rparr>)"
  "tcp_step (''guid'', Some g) t = Ok t"
  using family_fmt [of f]
  by (simp_all add: tcp_step_def decode_str_encode parse_port_show flip: bind_res_assoc)

lemma tcp_fields:
  assumes "tcp_ok t"
  shows "fold_res tcp_step (encoded (tcp_kv_add t (kv_add [] ''guid'' g)))
      \<lparr>host = None, bind = None, port = None, family = None, \<dots> = x\<rparr> =
    Ok \<lparr>host = host t, bind = bind t, port = port t, family = family t, \<dots> = x\<rparr>"
  using assms unfolding tcp_kv_add_def encoded_kv_add tcp_ok_def
  by (cases g; cases "host t"; cases "bind t"; cases "port t"; cases "family t") (simp_all add: tcp_steps)

lemma tcp_fmt_fields:
  "tcp_ok t \<Longrightarrow> tcp_try_from (encoded (tcp_kv_add t (kv_add [] ''guid'' g))) = Ok t"
  using tcp_fields [of t g "()"] by (simp add: tcp_try_from_def)

lemma nonce_step: "k \<noteq> ''noncefile'' \<Longrightarrow> nonce_tcp_step (k, Some v) t = tcp_step (k, Some v) t"
  by (simp add: nonce_tcp_step_def)

lemma nonce_fields:
  assumes "tcp_ok t" "pred_option valid_utf8 (noncefile t)"
  shows "nonce_tcp_try_from (encoded (nonce_tcp_kv_add t (kv_add [] ''guid'' g))) = Ok t"
proof -
  have nf: "nonce_tcp_step (''noncefile'', Some (encode_percents s)) x = Ok (x\<lparr>noncefile := Some s\<rparr>)"
    if "valid_utf8 s" for s and x :: nonce_tcp
    using that by (simp add: nonce_tcp_step_def decode_str_encode)
  show ?thesis
    using assms unfolding nonce_tcp_try_from_def nonce_tcp_kv_add_def tcp_kv_add_def encoded_kv_add tcp_ok_def
    by (cases g; cases "host t"; cases "bind t"; cases "port t"; cases "family t"; cases "noncefile t")
      (simp_all add: tcp_steps nonce_step nf)
qed

lemma vsock_fields:
  assumes "pred_option (\<lambda>n. n \<le> 2 ^ 32 - 1) (v_cid t)" "pred_option (\<lambda>n. n \<le> 2 ^ 32 - 1) (v_port t)"
  shows "vsock_try_from (encoded (vsock_kv_add t (kv_add [] ''guid'' g))) = Ok t"
proof -
  have "vsock_step (''guid'', Some x) y = Ok y" for x y
    by (simp add: vsock_step_def)
  moreover have "vsock_step (''cid'', Some (encode_percents (show_nat n))) x = Ok (x\<lparr>v_cid := Some n\<rparr>)"
    "vsock_step (''port'', Some (encode_percents (show_nat n))) x = Ok (x\<lparr>v_port := Some n\<rparr>)" if "n \<le> 2 ^ 32 - 1" for n x
    using that by (simp_all add: vsock_step_def parse_port_show)
  ultimately show ?thesis
    using assms unfolding vsock_try_from_def vsock_kv_add_def encoded_kv_add
    by (cases g; cases "v_cid t"; cases "v_port t") simp_all
qed

lemma exec_arguments:
  assumes "list_all (\<lambda>(n, a). n \<le> 2 ^ 64 - 1 \<and> valid_utf8 a) args"
  shows "fold_res exec_step (encoded (foldl (\<lambda>kv (n, arg). kv_add kv (''argv'' @ show_nat n) (Some arg)) kv args)) s =
    bind_res (fold_res exec_step (encoded kv) s) (\<lambda>(p, as). Ok (p, as @ args))"
  using assms
proof (induction args arbitrary: kv)
  case Nil
  then show ?case by (cases "fold_res exec_step (encoded kv) s") auto
next
  case (Cons x args)
  obtain n a where x: "x = (n, a)" by (cases x)
  have "exec_step (''argv'' @ show_nat n, Some (encode_percents a)) (p, as) = Ok (p, as @ [(n, a)])" for p as
    using Cons.prems x by (simp add: exec_step_def parse_show decode_str_encode)
  with Cons x show ?case
    by (cases "fold_res exec_step (encoded kv) s") (auto simp: encoded_kv_add)
qed

lemma exec_fields:
  assumes "valid_utf8 (exec_path t)" "sorted (map fst (argv t))"
    "list_all (\<lambda>(n, a). n \<le> 2 ^ 64 - 1 \<and> valid_utf8 a) (argv t)"
  shows "unixexec_try_from (encoded (unixexec_kv_add t (kv_add [] ''guid'' g))) = Ok t"
proof -
  have "exec_step (''guid'', Some x) s = Ok s" for x s
    by (simp add: exec_step_def)
  moreover have "exec_step (''path'', Some (encode_percents (exec_path t))) s = Ok (Some (exec_path t), snd s)" for s
    using assms(1) by (simp add: exec_step_def decode_str_encode)
  ultimately have "fold_res exec_step (encoded (unixexec_kv_add t (kv_add [] ''guid'' g))) (None, []) =
      Ok (Some (exec_path t), argv t)"
    unfolding unixexec_kv_add_def exec_arguments [OF assms(3)] encoded_kv_add by (cases g) simp_all
  then show ?thesis
    using assms(2) by (simp add: unixexec_try_from_def sort_key_id_if_sorted)
qed

lemma unix_fields:
  assumes "unix_ok k"
  shows "unix_try_from (encoded (unix_kv_add k (kv_add [] ''guid'' g))) = Ok k"
  using assms by (cases k; cases g)
    (simp_all add: unix_kv_add_def kv_add_def unix_kind_keys_def decode_encode decode_str_encode)

lemma kv_add_keys:
  "list_all (\<lambda>(k, _). key_ok k) (kv_add kv k v) \<longleftrightarrow> list_all (\<lambda>(k, _). key_ok k) kv \<and> (v = None \<or> key_ok k)"
  by (cases v) (auto simp: kv_add_def)

lemma show_nat_key: "key_ok (''argv'' @ show_nat n)"
  using show_nat_digits [of n] by (auto simp: key_ok_def list_all_iff is_ascii_digit_def)

lemma argv_keys:
  "list_all (\<lambda>(k, _). key_ok k) (foldl (\<lambda>kv (n, arg). kv_add kv (''argv'' @ show_nat n) (Some arg)) kv args) \<longleftrightarrow>
     list_all (\<lambda>(k, _). key_ok k) kv"
proof (induction args arbitrary: kv)
  case (Cons x args)
  obtain n a where x: "x = (n, a)" by (cases x)
  show ?case
    by (simp only: x foldl_Cons prod.case Cons.IH kv_add_keys show_nat_key simp_thms)
qed simp

lemma literal_keys:
  "key_ok ''guid''" "key_ok ''path''" "key_ok ''dir''" "key_ok ''tmpdir''" "key_ok ''abstract''" "key_ok ''runtime''"
  "key_ok ''host''" "key_ok ''bind''" "key_ok ''port''" "key_ok ''family''" "key_ok ''noncefile''" "key_ok ''cid''"
  by (simp_all add: key_ok_def)

lemma transport_keys: "list_all (\<lambda>(k, _). key_ok k) (transport_kv_add t (kv_add [] ''guid'' g))"
proof (cases t)
  case (Unix k)
  then show ?thesis by (cases k) (simp_all add: unix_kv_add_def kv_add_keys literal_keys)
qed (simp_all add: unixexec_kv_add_def tcp_kv_add_def nonce_tcp_kv_add_def vsock_kv_add_def argv_keys
    kv_add_keys literal_keys del: append.simps)

lemma address_fmt_iter:
  "key_val_iter (address_fmt g t) = encoded (transport_kv_add t (kv_add [] ''guid'' g))"
proof -
  have "CHR '':'' \<notin> set (transport_name t)" by (cases t) simp_all
  then show ?thesis
    unfolding address_fmt_def by (intro key_val_iter_fmt transport_keys)
qed

lemma transport_fmt:
  assumes "transport_ok t"
  shows "transport_try_from (address_fmt g t) = Ok t"
proof -
  have name: "break_at (CHR '':'') (address_fmt g t) =
      (transport_name t, Some (kv_fmt (transport_kv_add t (kv_add [] ''guid'' g))))"
    unfolding address_fmt_def by (cases t) (simp_all add: break_at_append)
  show ?thesis
    unfolding transport_try_from_def name address_fmt_iter
    using assms tcp_fmt_fields nonce_fields vsock_fields exec_fields unix_fields
    by (cases t) simp_all
qed

section \<open>Parsed transports\<close>

lemma decode_str_valid: "decode_percents_str v = Ok s \<Longrightarrow> valid_utf8 s"
  by (auto simp: decode_percents_str_def split: if_splits)

lemma parse_port_le: "parse_port m k v = Ok n \<Longrightarrow> n \<le> m"
  by (auto simp: parse_port_def dest: parse_uint_le split: option.splits)

lemma tcp_step_ok: "tcp_step kv t = Ok t' \<Longrightarrow> tcp_ok t \<Longrightarrow> tcp_ok t'"
  by (auto simp: tcp_step_def tcp_ok_def dest: decode_str_valid parse_port_le split: prod.splits option.splits if_splits)

lemma nonce_step_ok:
  "nonce_tcp_step kv t = Ok t' \<Longrightarrow> tcp_ok t \<and> pred_option valid_utf8 (noncefile t) \<Longrightarrow>
     tcp_ok t' \<and> pred_option valid_utf8 (noncefile t')"
  by (auto simp: nonce_tcp_step_def tcp_step_def tcp_ok_def dest: decode_str_valid parse_port_le
      split: prod.splits option.splits if_splits)

lemma vsock_step_ok:
  "vsock_step kv t = Ok t' \<Longrightarrow> transport_ok (Vsock t) \<Longrightarrow> transport_ok (Vsock t')"
  by (auto simp: vsock_step_def dest: parse_port_le split: prod.splits option.splits if_splits)

definition exec_ok :: "string option \<times> (nat \<times> string) list \<Rightarrow> bool" where
  "exec_ok s \<longleftrightarrow> pred_option valid_utf8 (fst s) \<and> list_all (\<lambda>(n, a). n \<le> 2 ^ 64 - 1 \<and> valid_utf8 a) (snd s)"

lemma exec_step_ok: "exec_step kv s = Ok s' \<Longrightarrow> exec_ok s \<Longrightarrow> exec_ok s'"
  by (auto simp: exec_step_def exec_ok_def dest!: parse_uint_le decode_str_valid
      split: prod.splits option.splits if_splits)

lemma unix_try_from_ok: "unix_try_from kvs = Ok k \<Longrightarrow> unix_ok k"
proof (induction kvs rule: unix_try_from.induct)
  case (2 key v kvs)
  show ?case
  proof (cases "key \<in> unix_kind_keys")
    case True
    with 2(2) show ?thesis
      using decode_str_valid [of "the v"] by (auto split: if_splits option.splits)
  next
    case False
    with 2 show ?thesis by simp
  qed
qed simp

lemma unixexec_try_from_ok:
  assumes "unixexec_try_from kvs = Ok t"
  shows "transport_ok (Unixexec t)"
proof -
  obtain pth args where fold: "fold_res exec_step kvs (None, []) = Ok (Some pth, args)"
      and t: "t = \<lparr>exec_path = pth, argv = sort_key fst args\<rparr>"
    using assms by (auto simp: unixexec_try_from_def split: option.splits)
  have "exec_ok (Some pth, args)"
    by (rule fold_res_invariant [OF fold]) (auto simp: exec_ok_def [of "(None, [])"] intro: exec_step_ok)
  then show ?thesis
    using t by (auto simp: exec_ok_def list_all_iff)
qed

lemma transport_try_from_ok:
  assumes "transport_try_from a = Ok t"
  shows "transport_ok t"
proof -
  have "tcp_ok t'" if "tcp_try_from kvs = Ok t'" for kvs t'
    by (rule fold_res_invariant [OF that [unfolded tcp_try_from_def]]) (auto simp: tcp_ok_def [of "\<lparr>host = None, bind = _, port = _, family = _\<rparr>"] intro: tcp_step_ok)
  moreover have "transport_ok (NonceTcp t')" if "nonce_tcp_try_from kvs = Ok t'" for kvs t'
    using fold_res_invariant [OF that [unfolded nonce_tcp_try_from_def],
        of "\<lambda>t. tcp_ok t \<and> pred_option valid_utf8 (noncefile t)"] nonce_step_ok
    by (auto simp: tcp_ok_def)
  moreover have "transport_ok (Vsock t')" if "vsock_try_from kvs = Ok t'" for kvs t'
    using fold_res_invariant [OF that [unfolded vsock_try_from_def], of "\<lambda>t. transport_ok (Vsock t)"] vsock_step_ok
    by auto
  moreover note unixexec_try_from_ok unix_try_from_ok
  ultimately show ?thesis
    using assms by (auto simp: transport_try_from_def Let_def split: prod.splits option.splits if_splits)
qed

section \<open>The GUID\<close>

definition last_value :: "string \<Rightarrow> string option \<Rightarrow> kv list \<Rightarrow> string option" where
  "last_value key = foldl (\<lambda>val (k, v). if key = k then v else val)"

lemma last_value_absent: "list_all (\<lambda>(k, _). k \<noteq> key) kvs \<Longrightarrow> last_value key init kvs = init"
  unfolding last_value_def by (induction kvs arbitrary: init) auto

lemma last_value_in: "last_value key init kvs = Some v \<Longrightarrow> init = Some v \<or> (key, Some v) \<in> set kvs"
proof (induction kvs arbitrary: init)
  case (Cons kv kvs)
  obtain k w where kv: "kv = (k, w)" by (cases kv)
  with Cons.prems have "last_value key (if key = k then w else init) kvs = Some v"
    by (simp add: last_value_def)
  then show ?case using Cons.IH kv by (fastforce split: if_splits)
qed (simp add: last_value_def)

lemma argv_fold_append:
  "foldl (\<lambda>kv (n, arg). kv_add kv (''argv'' @ show_nat n) (Some arg)) kv args =
     kv @ map (\<lambda>(n, arg). (''argv'' @ show_nat n, arg)) args"
  by (induction args arbitrary: kv) (auto simp: kv_add_def)

lemma unixexec_kv_append:
  "unixexec_kv_add t kv = kv @ (''path'', exec_path t) # map (\<lambda>(n, arg). (''argv'' @ show_nat n, arg)) (argv t)"
  unfolding unixexec_kv_add_def argv_fold_append by (simp add: kv_add_def)

lemma transport_kv_append:
  "transport_kv_add t kv = kv @ transport_kv_add t []"
  by (cases t) (auto simp: unix_kv_add_def tcp_kv_add_def nonce_tcp_kv_add_def vsock_kv_add_def
      unixexec_kv_append kv_add_def split: unix_addr_kind.splits option.splits)

lemma transport_kv_no_guid: "list_all (\<lambda>(k, _). k \<noteq> ''guid'') (transport_kv_add t [])"
  by (cases t) (auto simp: unix_kv_add_def tcp_kv_add_def nonce_tcp_kv_add_def vsock_kv_add_def
      unixexec_kv_append kv_add_def list_all_iff split: unix_addr_kind.splits option.splits)

lemma guid_valid_utf8: "validate_guid g = Ok () \<Longrightarrow> valid_utf8 g"
  by (rule valid_utf8_ascii)
    (auto simp: validate_guid_def is_ascii_def list_ex_iff is_ascii_hexdigit_def is_ascii_digit_def split: if_splits)

lemma guid_fmt:
  assumes "pred_option (\<lambda>g. validate_guid g = Ok ()) g"
  shows "guid (address_fmt g t) = g"
proof -
  have rest: "last_value ''guid'' init (encoded (transport_kv_add t [])) = init" for init
    using transport_kv_no_guid [of t] by (intro last_value_absent) (auto simp: list_all_iff)
  have "last_value ''guid'' None (key_val_iter (address_fmt g t)) = map_option encode_percents g"
    unfolding address_fmt_iter transport_kv_append [of t "kv_add [] ''guid'' g"]
    using rest by (cases g) (simp_all add: last_value_def kv_add_def)
  then show ?thesis
    using assms by (cases g) (simp_all add: guid_def get_string_def last_value_def decode_str_encode guid_valid_utf8)
qed

lemma validate_fmt:
  assumes "transport_ok t" "pred_option (\<lambda>g. validate_guid g = Ok ()) g"
  shows "validate (address_fmt g t) = Ok ()"
proof -
  have "fold_res validate_step (encoded kv) () = Ok ()" if "list_all (\<lambda>(k, _). k \<noteq> ''guid'') kv" for kv
    using that by (induction kv) (auto simp: validate_step_def decode_encode)
  then have "fold_res validate_step (key_val_iter (address_fmt g t)) () = Ok ()"
    unfolding address_fmt_iter transport_kv_append [of t "kv_add [] ''guid'' g"]
    using assms(2) transport_kv_no_guid [of t]
    by (cases g) (simp_all add: kv_add_def validate_step_def decode_encode)
  then show ?thesis
    using transport_fmt [OF assms(1)] by (simp add: validate_def)
qed

lemma validate_guids:
  "fold_res validate_step kvs () = Ok () \<Longrightarrow> (''guid'', v) \<in> set kvs \<Longrightarrow>
     \<exists>v' g. v = Some v' \<and> decode_percents v' = Ok g \<and> validate_guid g = Ok ()"
proof (induction kvs)
  case (Cons kv kvs)
  from Cons.prems(1) have step: "validate_step kv () = Ok ()" and rest: "fold_res validate_step kvs () = Ok ()"
    by auto
  show ?case
  proof (cases "(''guid'', v) \<in> set kvs")
    case True
    then show ?thesis by (rule Cons.IH [OF rest])
  next
    case False
    with Cons.prems(2) have "kv = (''guid'', v)" by simp
    with step show ?thesis
      by (auto simp: validate_step_def validate_guid_def [of "[]"] split: option.splits)
  qed
qed simp

lemma validate_guid_ok:
  assumes "validate a = Ok ()"
  shows "pred_option (\<lambda>g. validate_guid g = Ok ()) (guid a)"
proof (cases "last_value ''guid'' None (key_val_iter a)")
  case None
  then show ?thesis by (simp add: guid_def get_string_def last_value_def)
next
  case (Some v)
  then have "(''guid'', Some v) \<in> set (key_val_iter a)" using last_value_in by fastforce
  moreover have "fold_res validate_step (key_val_iter a) () = Ok ()"
    using assms by (auto simp: validate_def)
  ultimately obtain g where "decode_percents v = Ok g" "validate_guid g = Ok ()"
    using validate_guids by fastforce
  with Some show ?thesis
    by (simp add: guid_def get_string_def last_value_def decode_percents_str_def guid_valid_utf8)
qed

section \<open>Properties\<close>

text \<open>Percent decoding inverts percent encoding, on every sequence of bytes.\<close>

theorem percent_roundtrip: "decode_percents (encode_percents v) = Ok v"
  by (rule decode_encode)

text \<open>C11: An address prints as a valid address that stands for the same transport and the same
  GUID, for every transport.\<close>

theorem address_display_roundtrip:
  assumes "address_new a = Ok a'"
  shows "\<exists>d. address_display a = Ok d \<and> address_new d = Ok d \<and>
    transport_try_from d = transport_try_from a \<and> guid d = guid a"
proof -
  have v: "validate a = Ok ()" using assms by (auto simp: address_new_def)
  then obtain t where t: "transport_try_from a = Ok t" by (auto simp: validate_def)
  note ok = transport_try_from_ok [OF t] validate_guid_ok [OF v]
  show ?thesis
    using t transport_fmt [OF ok(1)] validate_fmt [OF ok] guid_fmt [OF ok(2)]
    by (simp add: address_display_def address_new_def)
qed

lemmas address_eval = address_new_def validate_def transport_try_from_def key_val_iter_def
  key_vals.simps split_pair_def tcp_try_from_def tcp_step_def parse_port_def parse_uint_def
  decode_percents_str_def decode_percents_def is_allowed_char_def ascii_defs decode_hex_pair_def
  decode_hex_def validate_step_def unix_kind_keys_def

theorem address_display_roundtrip_witness:
  "\<exists>d. address_display ''tcp:port=%380,host=bus,x'' = Ok d \<and> address_new d = Ok d \<and>
     transport_try_from d = transport_try_from ''tcp:port=%380,host=bus,x'' \<and>
     guid d = guid ''tcp:port=%380,host=bus,x''"
  by (rule address_display_roundtrip [of _ "''tcp:port=%380,host=bus,x''"]) (simp add: address_eval)

text \<open>A value ends at its second equals sign: what follows is dropped without an error.\<close>

theorem address_value_truncated:
  "transport_try_from ''unix:path=/run/a=b'' = Ok (Unix (Path ''/run/a'')) \<and>
   address_new ''unix:path=/run/a=b'' = Ok ''unix:path=/run/a=b''"
  by (simp add: address_eval)

end
