(* ===== verification/Spec2Isabelle.thy ===== *)
theory Spec2Isabelle
  imports Object_Server_Props DBus_Enums GVariant_Roundtrip Proxy_Props Address
begin

text \<open>
  A verification of the core of zbus, an implementation of the D-Bus protocol: its data formats, its messages, the
  transport with its handshake, and the two ends of a method call.

  \<^bold>\<open>The program and the theories.\<close> A connection (\<^verbatim>\<open>zbus/src/connection\<close>) authenticates itself over a socket, then a task
  reads messages off it and hands them to the streams whose match rules they meet. A call is a message and the first
  reply to it; on the other side an object server takes calls out of a stream and runs methods of Rust types behind an
  interface. Messages have headers and bodies of dynamic values, which zvariant writes and reads by their signatures.
  From the bottom up:

  \<^item> \<open>Prelude\<close>: results of fallible code (\<open>res\<close>, with panics as values), bytes, words, strings and what is shared
    about them.
  \<^item> \<open>Signature\<close>, \<open>Signature_Parse\<close>: \<^verbatim>\<open>zvariant_utils/src/signature/mod.rs\<close>, the signature type with its printers, orders and
    alignments, and its parser, which is written with the combinators of the nom crate. The accepted language and
    what is returned for each string are stated exactly (\<open>signature_language\<close>), and the mode that only checks agrees.
  \<^item> \<open>Wire\<close>: \<^verbatim>\<open>utils.rs\<close>, \<^verbatim>\<open>container_depths.rs\<close>, \<^verbatim>\<open>error.rs\<close> of \<^verbatim>\<open>zvariant/src\<close>: padding on 64 bits, casts, nesting limits.
  \<^item> \<open>Values\<close>: \<^verbatim>\<open>value.rs\<close>, \<^verbatim>\<open>array.rs\<close>, \<^verbatim>\<open>dict.rs\<close>, \<^verbatim>\<open>structure.rs\<close>: dynamic values and their containers, which check types
    at each change. \<open>value_ok\<close> is the invariant.
  \<^item> \<open>DBus_Ser\<close>, \<open>DBus_De\<close>: the serializer and the deserializer of \<^verbatim>\<open>zvariant/src/dbus\<close> as serde drives them, statement by
    statement. \<open>DBus_Enc\<close> has the wire format as a function \<open>enc\<close> of the value, and that the serializer refines it, errors
    included; \<open>DBus_Roundtrip\<close> that the deserializer inverts it; \<open>DBus_Typing\<close> that on any bytes it returns
    well-typed values only; \<open>DBus_Depth\<close> that what fits at some nesting is the same at a lesser one; \<open>DBus_Enums\<close> has the functions for the
    variants of Rust enums, whose own code is a parameter: the format of a variant, that it is read back, and where arrays of them fail.
  \<^item> \<open>GVariant_Ser\<close>, \<open>GVariant_De\<close>: the same for the second format, \<^verbatim>\<open>zvariant/src/gvariant\<close>, with \<^verbatim>\<open>framing_offsets.rs\<close> and
    \<^verbatim>\<open>framing_offset_size.rs\<close>. \<open>GVariant_Enc\<close> has the format as a function \<open>genc\<close> that the serializer refines; \<open>GVariant_Read\<close> and
    \<open>GVariant_Roundtrip\<close> show that the deserializer inverts it where the offsets are enough (\<open>framed\<close>), and what happens where
    they are not.
  \<^item> \<open>Names\<close>: the validators of \<^verbatim>\<open>zbus_names\<close> and of object paths, each with the language it accepts.
  \<^item> \<open>Address\<close>: \<^verbatim>\<open>zbus/src/address\<close>, transports and their texts with percent encoding; printing and parsing agree.
  \<^item> \<open>Message\<close>, \<open>Message_Wire\<close>, \<open>Message_Roundtrip\<close>, \<open>Message_Props\<close>: \<^verbatim>\<open>zbus/src/message\<close>, the header, the builder, the cached
    fields and the body, and that a message that is built, sent as bytes and parsed is the same message, but for a body that is a structure of
    one structure.
  \<^item> \<open>Match_Rule\<close>: \<^verbatim>\<open>zbus/src/match_rule\<close>, rules, their text, and which received messages they match, condition by condition.
  \<^item> \<open>Socket\<close>: the halves of a socket. The locales \<open>read_half\<close> and \<open>write_half\<close> state what \<^verbatim>\<open>recvmsg\<close> and \<^verbatim>\<open>sendmsg\<close>
    promise; framing and sending are proved from them, and TCP and Unix sockets are shown to keep them over their system
    calls.
  \<^item> \<open>Handshake\<close>, \<open>Handshake_Props\<close>: the SASL commands, lines, client and server. Both sides agree, and the server lets in
    only who authenticated.
  \<^item> \<open>Socket_Reader\<close>: the reading task; what is sent arrives at the right streams in order.
  \<^item> \<open>Subscriptions\<close>: the match rules of a connection with their counters and queues, and the streams. A stream that is dropped only
    queues the removal of its rule, which a task does later; an invariant over all sequences of steps, those of the tasks included, relates
    counters and queues to the rules that the bus has (locale \<open>match_bus\<close>).
  \<^item> \<open>Connection\<close>, \<open>Connection_Props\<close>: sending, calls and replies, names, and the errors of \<^verbatim>\<open>zbus/src/fdo/error.rs\<close>, which
    arrive at the caller as they were raised.
  \<^item> \<open>Object_Tree\<close>: \<^verbatim>\<open>object_server/node.rs\<close>, the tree of objects, its managed objects and its introspection.
  \<^item> \<open>Object_Server\<close>, \<open>Object_Server_Props\<close>: \<^verbatim>\<open>object_server\<close>, the code that the macro \<^verbatim>\<open>interface\<close> generates, and the
    standard interfaces. The server implements a registry (locale \<open>registry\<close>), and calls of what is not there are answered
    with the error that says so.
  \<^item> \<open>Proxy\<close>, \<open>Proxy_Props\<close>: \<^verbatim>\<open>zbus/src/proxy\<close>, the other end: calls, the cache of the properties of a remote object, the streams of
    their changes and of signals, and the subscription to the owner of a name. The cache is what the answer to \<^verbatim>\<open>GetAll\<close> and the
    changes after it say, a stream of changes has an item exactly if the answer or a change since is about its property, and a stream of signals follows the owner.

  \<^bold>\<open>How code becomes definitions.\<close> A Rust \<^verbatim>\<open>struct\<close> is a record, an \<^verbatim>\<open>enum\<close> a datatype. A function on \<^verbatim>\<open>&mut self\<close> takes the
  state and returns it with its result. \<^verbatim>\<open>Result\<close> is \<open>res\<close>, whose third constructor \<open>Panic\<close> stands for indexing out of
  range, \<^verbatim>\<open>unwrap\<close>, \<^verbatim>\<open>expect\<close> and \<^verbatim>\<open>unreachable!\<close>. Integers are words where their width matters and natural numbers where
  they count bytes of memory. A float is its 64 bits. A string is the list of its bytes, and \<^verbatim>\<open>str\<close> a list that is UTF-8.
  Borrowed and owned types are the same. Asynchronous functions are read in the order of their awaits; tasks that the
  code spawns are values that a scheduler runs (\<open>run_task\<close>, \<open>run_removal\<close>).

  \<^bold>\<open>Parameters.\<close> Code of other packages is an argument of the definitions, and what is relied on is a locale with an
  interpretation: the combinators of nom (\<open>N\<close>, \<open>nom_laws\<close>), endi (\<open>E\<close>, \<open>endi_laws\<close>), hex (\<open>H\<close>, \<open>hex_laws\<close>), the system
  calls of sockets (\<open>unix_reader\<close>, \<open>unix_writer\<close>, \<open>byte_reader\<close>, \<open>byte_writer\<close>), the calls of a bus (\<open>match_bus\<close>),
  the listeners of the event-listener crate (\<open>event_laws\<close>), the visitors of the enums of Rust, and in an \<open>env\<close> the queues, the texts of errors and the identity of the process. The methods of the Rust type behind an interface are
  the record \<open>iface_ops\<close>. The properties are stated for every instance of the laws; their witnesses use the interpretations.

  \<^bold>\<open>Fuel and bounds.\<close> The recursive functions end by structure or by a measure, with these exceptions. The signature parser
  takes as fuel the length of its input plus one; every parser consumes input, so it is enough. \<open>de_value\<close> takes a fuel since the
  signature of a variant comes from the data, and so does \<open>gv_de_value\<close>; running out of it is \<open>None\<close>, and the theorems state a fuel, by the size of
  the value, for which the result is \<open>Some\<close>. Loops over a socket count the calls of the system the same way; that they
  end is proved from the progress that the locales promise. The lists of a \<^verbatim>\<open>HashMap\<close> have an order, and the theorems hold for each.

  \<^bold>\<open>Not modelled.\<close> The typed wrappers that the macro \<^verbatim>\<open>proxy\<close> generates, the blocking wrappers, executors, opening
  connections and the credentials of processes: they call what is modelled and the system. The derive macros, the parsing of attributes and the XML of introspection:
  programs over syntax trees of other packages. Locks and the interleaving of tasks with the object server, \<^verbatim>\<open>Display\<close> and \<^verbatim>\<open>Debug\<close>, and the code
  for other systems than Linux. The conversions between \<^verbatim>\<open>Value\<close> and Rust types are one case per type.
\<close>

end
